(* ===== verification/Prelude.thy ===== *)
theory Prelude
  imports Main "HOL-Library.Word"
begin

text \<open>
  Shared vocabulary of the development: the machine integer types of the sources, the
  named collections the component theories fill, and the generic facts on words, powers
  of two and lists that more than one component uses.
\<close>

unbundle bit_operations_syntax

section \<open>Machine integers\<close>

type_synonym u8 = "8 word"
type_synonym u16 = "16 word"
type_synonym u32 = "32 word"
type_synonym u64 = "64 word"
type_synonym u128 = "128 word"

named_theorems word_nat
named_theorems big_val
named_theorems big_wf
named_theorems float_simps

section \<open>Words and natural numbers\<close>

text \<open>Bit operations on \<open>nat\<close> as arithmetic; the word versions stay bitwise.\<close>

lemmas nat_bits =
  push_bit_eq_mult [where 'a = nat] drop_bit_eq_div [where 'a = nat] take_bit_eq_mod [where 'a = nat]

lemmas int_bits =
  push_bit_eq_mult [where 'a = int] drop_bit_eq_div [where 'a = int] take_bit_eq_mod [where 'a = int]

lemma unat_exp2 [word_nat]: "k < LENGTH('a) \<Longrightarrow> unat (2 ^ k :: 'a::len word) = 2 ^ k"
  using unsigned_push_bit_eq [of k "1 :: 'a word", where 'a = nat] by (simp add: nat_bits)

lemma unat_and_low_mask [word_nat]:
  "unat (x AND (push_bit k 1 - 1)) = unat x mod 2 ^ k" for x :: "'a::len word"
proof -
  have "push_bit k (1 :: 'a word) - 1 = mask k"
    by (simp add: mask_eq_exp_minus_1 push_bit_eq_mult)
  then have "x AND (push_bit k 1 - 1) = take_bit k x"
    by (simp add: take_bit_eq_mask)
  then show ?thesis
    by (simp add: unsigned_take_bit_eq nat_bits)
qed

lemma unat_and_exp_minus_1 [word_nat]: "unat (x AND (2 ^ k - 1)) = unat x mod 2 ^ k" for x :: "'a::len word"
  using unat_and_low_mask [of x k] by simp

lemma unat_drop_bit_div [word_nat]: "unat (drop_bit k x) = unat x div 2 ^ k" for x :: "'a::len word"
  by (simp add: unat_drop_bit_eq nat_bits)

lemma unat_lt_exp: "unat (x :: 'a::len word) < 2 ^ LENGTH('a)"
  using unsigned_less [of x] by simp

lemma unat_u64_lt: "unat (x :: u64) < 18446744073709551616"
  using unat_lt_exp [of x] by simp

lemma uint_u64_lt: "uint (x :: u64) < 18446744073709551616"
  using unsigned_less [of x, where 'a = int] by simp

lemma unat_ucast_down [word_nat]:
  "unat (ucast x :: 'b::len word) = unat x mod 2 ^ LENGTH('b)" for x :: "'a::len word"
  by (simp add: unsigned_ucast_eq take_bit_eq_mod)

lemma unat_or_disjoint:
  assumes "unat y < 2 ^ k"
  shows "push_bit k x OR y = push_bit k x + (y :: 'a::len word)"
proof -
  have "take_bit k y = y"
    using assms by (metis mod_less take_bit_eq_mod unsigned_take_bit_eq word_unat_eq_iff)
  then have "\<not> bit y n" if "k \<le> n" for n
    using that by (metis bit_take_bit_iff not_le)
  then show ?thesis
    by (intro disjunctive_add [symmetric]) (auto simp: bit_push_bit_iff)
qed

text \<open>A disjunction of a multiple of \<open>2 ^ k\<close> and a value below \<open>2 ^ k\<close> is a sum.\<close>

lemma or_dvd_nat:
  assumes "y < 2 ^ k" and "2 ^ k dvd x"
  shows "x OR y = x + (y :: nat)"
proof -
  have y: "take_bit k y = y"
    using assms(1) by (simp add: take_bit_nat_eq_self)
  obtain q where x: "x = push_bit k q"
    using assms(2) by (auto simp: dvd_def push_bit_eq_mult mult.commute)
  have "\<not> (bit x n \<and> bit y n)" for n
    using y by (metis bit_push_bit_iff bit_take_bit_iff not_less x)
  then have "x AND y = 0"
    by (intro bit_eqI) (simp add: bit_and_iff)
  then show ?thesis
    by (simp add: disjunctive_add_eq_or)
qed

lemma unat_or_dvd:
  assumes "unat y < 2 ^ k" and "2 ^ k dvd unat x"
  shows "unat (x OR y) = unat x + unat (y :: 'a::len word)"
  using or_dvd_nat [OF assms] by (simp add: unsigned_or_eq)

lemma unat_push_bit_mod [word_nat]:
  "unat (push_bit k x) = unat x * 2 ^ k mod 2 ^ LENGTH('a)" for x :: "'a::len word"
  by (simp add: unsigned_push_bit_eq nat_bits)

lemma push_bit_split:
  fixes w :: "'a::len word"
  assumes "k \<le> LENGTH('a)"
  shows "unat (push_bit k w) + 2 ^ LENGTH('a) * (unat w div 2 ^ (LENGTH('a) - k)) = unat w * 2 ^ k"
proof -
  have "unat w * 2 ^ k div 2 ^ LENGTH('a) = unat w div 2 ^ (LENGTH('a) - k)"
  proof -
    have "(2 :: nat) ^ LENGTH('a) = 2 ^ k * 2 ^ (LENGTH('a) - k)"
      using assms by (simp flip: power_add)
    then show ?thesis
      by (simp add: div_mult2_eq)
  qed
  then show ?thesis
    by (metis mod_mult_div_eq unat_push_bit_mod)
qed

lemma push_bit_dvd: "k \<le> LENGTH('a) \<Longrightarrow> 2 ^ k dvd unat (push_bit k (w :: 'a::len word))"
  by (simp add: unat_push_bit_mod dvd_mod le_imp_power_dvd)

text \<open>Two bit fields side by side: the low one is read by a mask, the high one by a shift.\<close>

lemma field_low:
  fixes a b :: "'a::len word"
  assumes "unat a < 2 ^ k"
  shows "(a OR push_bit k b) AND mask k = a"
proof -
  have "take_bit k a = a"
    using assms by (metis mod_less take_bit_eq_mod unsigned_take_bit_eq word_unat_eq_iff)
  then show ?thesis
    by (simp add: take_bit_eq_mask [symmetric] take_bit_or take_bit_push_bit)
qed

lemma field_high:
  fixes a b :: "'a::len word"
  assumes "unat a < 2 ^ k" and "unat b < 2 ^ (LENGTH('a) - k)" and "k \<le> LENGTH('a)"
  shows "drop_bit k (a OR push_bit k b) = b"
proof -
  have "unat a div 2 ^ k = 0"
    using assms(1) by simp
  then have "drop_bit k a = 0"
    by (metis unat_drop_bit_div unat_eq_zero)
  moreover have "drop_bit k (push_bit k b) = b"
  proof -
    have "unat b * 2 ^ k < 2 ^ (LENGTH('a) - k) * 2 ^ k"
      using assms(2) by simp
    then have "unat b * 2 ^ k < 2 ^ LENGTH('a)"
      using assms(3) by (simp flip: power_add)
    then show ?thesis
      by (simp add: word_unat_eq_iff unat_drop_bit_div unat_push_bit_mod)
  qed
  ultimately show ?thesis
    by (simp add: drop_bit_or)
qed

section \<open>Lists\<close>

lemma find_SomeD: "find P xs = Some x \<Longrightarrow> x \<in> set xs \<and> P x"
  by (induction xs) (auto split: if_splits)

lemma find_unique:
  assumes "x \<in> set xs" "P x" "\<forall>y \<in> set xs. P y \<longrightarrow> y = x"
  shows "find P xs = Some x"
proof (cases "find P xs")
  case None
  then show ?thesis
    using assms(1,2) by (simp add: find_None_iff)
next
  case (Some y)
  then show ?thesis
    using find_SomeD [OF Some] assms(3) by simp
qed

end
