(* ===== verification/Big_UInt.thy ===== *)
theory Big_UInt
  imports Prelude
begin

text \<open>
  The arbitrary-precision naturals of the soft-float unit (class \<open>BigUInt\<close> in
  \<open>numeric/floating_point.cpp\<close>): a vector of 64-bit words, least significant first. Loops
  that walk the words with a carry are structural recursions; loops that write through an
  index into a fresh vector are folds over the same index range with list updates.
\<close>

section \<open>Representation\<close>

type_synonym biguint = "u64 list"

text \<open>\<open>normalize\<close> pops zero words from the back.\<close>

definition normalize :: "biguint \<Rightarrow> biguint" where
  "normalize ws = rev (dropWhile (\<lambda>w. w = 0) (rev ws))"

definition big_of_u128 :: "u128 \<Rightarrow> biguint" where
  "big_of_u128 v =
     (let low = ucast v :: u64;
          high = ucast (drop_bit 64 v) :: u64;
          first = (if low \<noteq> 0 then [low] else if drop_bit 64 v \<noteq> 0 then [0] else [])
      in if high \<noteq> 0 then first @ [high] else first)"

definition big_is_zero :: "biguint \<Rightarrow> bool" where
  "big_is_zero ws \<longleftrightarrow> ws = []"

definition big_is_odd :: "biguint \<Rightarrow> bool" where
  "big_is_odd ws \<longleftrightarrow> ws \<noteq> [] \<and> ws ! 0 AND 1 \<noteq> 0"

definition word_count :: "biguint \<Rightarrow> nat" where
  "word_count ws = length ws"

text \<open>\<open>__builtin_clzll\<close>: the number of zero bits above the highest set bit.\<close>

definition clz64 :: "u64 \<Rightarrow> nat" where
  "clz64 w = length (takeWhile (\<lambda>i. \<not> bit w i) (rev [0..<64]))"

definition big_bit_width :: "biguint \<Rightarrow> nat" where
  "big_bit_width ws =
     (if ws = [] then 0 else (length ws - 1) * 64 + (64 - clz64 (last ws)))"

definition big_bit :: "biguint \<Rightarrow> nat \<Rightarrow> bool" where
  "big_bit ws index =
     (let word = index div 64
      in word < length ws \<and> ws ! word AND push_bit (index mod 64) 1 \<noteq> 0)"

definition resize :: "biguint \<Rightarrow> nat \<Rightarrow> biguint" where
  "resize ws n = (if length ws \<le> n then ws @ replicate (n - length ws) 0 else take n ws)"

definition set_bit_big :: "biguint \<Rightarrow> nat \<Rightarrow> biguint" where
  "set_bit_big ws index =
     (let word = index div 64;
          ws' = (if length ws \<le> word then resize ws (word + 1) else ws)
      in ws'[word := ws' ! word OR push_bit (index mod 64) 1])"

section \<open>Comparison and shifts\<close>

text \<open>The descending loop of \<open>compare\<close>, on the words from the top.\<close>

fun compare_loop :: "u64 list \<Rightarrow> u64 list \<Rightarrow> int" where
  "compare_loop (x # xs) (y # ys) =
     (if x \<noteq> y then (if x < y then - 1 else 1) else compare_loop xs ys)"
| "compare_loop _ _ = 0"

definition big_compare :: "biguint \<Rightarrow> biguint \<Rightarrow> int" where
  "big_compare ws other =
     (if length ws \<noteq> length other then (if length ws < length other then - 1 else 1)
      else compare_loop (rev ws) (rev other))"

definition shl_step :: "biguint \<Rightarrow> nat \<Rightarrow> nat \<Rightarrow> nat \<Rightarrow> biguint \<Rightarrow> biguint" where
  "shl_step ws whole part i out =
     (let out1 = out[i + whole := out ! (i + whole) OR push_bit part (ws ! i)]
      in if part \<noteq> 0
         then out1[i + whole + 1 := out1 ! (i + whole + 1) OR drop_bit (64 - part) (ws ! i)]
         else out1)"

definition shifted_left :: "biguint \<Rightarrow> nat \<Rightarrow> biguint" where
  "shifted_left ws bits =
     (if big_is_zero ws \<or> bits = 0 then ws
      else let whole = bits div 64;
               part = bits mod 64;
               out = replicate (length ws + whole + (if part \<noteq> 0 then 1 else 0)) 0
           in normalize (fold (shl_step ws whole part) [0..<length ws] out))"

definition shr_step :: "biguint \<Rightarrow> nat \<Rightarrow> nat \<Rightarrow> nat \<Rightarrow> biguint \<Rightarrow> biguint" where
  "shr_step ws whole part i out =
     (let target = i - whole;
          out1 = out[target := out ! target OR drop_bit part (ws ! i)]
      in if part \<noteq> 0 \<and> i + 1 < length ws
         then out1[target := out1 ! target OR push_bit (64 - part) (ws ! (i + 1))]
         else out1)"

text \<open>\<open>shifted_right\<close> with its out-parameter \<open>discarded\<close> as the second component.\<close>

definition shifted_right :: "biguint \<Rightarrow> nat \<Rightarrow> biguint \<times> bool" where
  "shifted_right ws bits =
     (if big_is_zero ws \<or> bits = 0 then (ws, False)
      else let whole = bits div 64;
               part = bits mod 64;
               discarded =
                 (\<exists>w \<in> set (take (min whole (length ws)) ws). w \<noteq> 0) \<or>
                 (part \<noteq> 0 \<and> whole < length ws \<and> ws ! whole AND (push_bit part 1 - 1) \<noteq> 0)
           in if length ws \<le> whole then ([], discarded)
              else (normalize (fold (shr_step ws whole part) [whole..<length ws]
                      (replicate (length ws - whole) 0)), discarded))"

text \<open>The descending loop of \<open>shift_right_one\<close>: the words from the top, and the carry.\<close>

fun shift_right_one_loop :: "u64 list \<Rightarrow> u64 \<Rightarrow> u64 list" where
  "shift_right_one_loop [] carry = []"
| "shift_right_one_loop (w # ws) carry =
     (drop_bit 1 w OR carry) # shift_right_one_loop ws (push_bit 63 w)"

definition shift_right_one :: "biguint \<Rightarrow> biguint" where
  "shift_right_one ws = normalize (rev (shift_right_one_loop (rev ws) 0))"

section \<open>Arithmetic\<close>

fun add_loop :: "u64 list \<Rightarrow> u64 list \<Rightarrow> u128 \<Rightarrow> u64 list" where
  "add_loop [] other carry = (if carry \<noteq> 0 then [ucast carry] else [])"
| "add_loop (w # ws) other carry =
     (let sum = ucast w + ucast (case other of [] \<Rightarrow> 0 | x # _ \<Rightarrow> x) + carry
      in ucast sum # add_loop ws (tl other) (drop_bit 64 sum))"

definition big_add :: "biguint \<Rightarrow> biguint \<Rightarrow> biguint" where
  "big_add ws other = add_loop (resize ws (max (length ws) (length other))) other 0"

fun add_small_loop :: "u64 list \<Rightarrow> u128 \<Rightarrow> u64 list" where
  "add_small_loop [] carry = (if carry \<noteq> 0 then [ucast carry] else [])"
| "add_small_loop (w # ws) carry =
     (if carry \<noteq> 0
      then let sum = ucast w + carry in ucast sum # add_small_loop ws (drop_bit 64 sum)
      else w # ws)"

definition add_small :: "biguint \<Rightarrow> u32 \<Rightarrow> biguint" where
  "add_small ws v =
     (if v = 0 then ws
      else if ws = [] then [ucast v]
      else add_small_loop ws (ucast v))"

fun subtract_loop :: "u64 list \<Rightarrow> u64 list \<Rightarrow> u64 \<Rightarrow> u64 list" where
  "subtract_loop [] other borrow = []"
| "subtract_loop (prior # ws) other borrow =
     (let rhs = (case other of [] \<Rightarrow> 0 | x # _ \<Rightarrow> x);
          with_borrow = rhs + borrow;
          rhs_overflow = with_borrow < rhs
      in (prior - with_borrow)
         # subtract_loop ws (tl other) (if rhs_overflow \<or> prior < with_borrow then 1 else 0))"

definition big_subtract :: "biguint \<Rightarrow> biguint \<Rightarrow> biguint" where
  "big_subtract ws other = normalize (subtract_loop ws other 0)"

fun multiply_small_loop :: "u64 list \<Rightarrow> u32 \<Rightarrow> u128 \<Rightarrow> u64 list" where
  "multiply_small_loop [] v carry = (if carry \<noteq> 0 then [ucast carry] else [])"
| "multiply_small_loop (w # ws) v carry =
     (let product = ucast w * ucast v + carry
      in ucast product # multiply_small_loop ws v (drop_bit 64 product))"

definition multiply_small :: "biguint \<Rightarrow> u32 \<Rightarrow> biguint" where
  "multiply_small ws v =
     (if v = 0 \<or> big_is_zero ws then [] else multiply_small_loop ws v 0)"

text \<open>The inner loop of \<open>multiply\<close> over \<open>j\<close>, with the carry.\<close>

definition mul_step :: "u64 \<Rightarrow> biguint \<Rightarrow> nat \<Rightarrow> nat \<Rightarrow> biguint \<times> u128 \<Rightarrow> biguint \<times> u128" where
  "mul_step l rhs i j oc =
     (case oc of (out, carry) \<Rightarrow>
        let index = i + j;
            product = ucast l * ucast (rhs ! j) + ucast (out ! index) + carry
        in (out[index := ucast product], drop_bit 64 product))"

text \<open>
  The \<open>while (carry != 0)\<close> loop that follows it. It grows the vector when it runs past the
  end; an index beyond the end is undefined behaviour of the code, and the loop is entered
  and continued with \<open>index < out.size()\<close> only.
\<close>

lemma carry_bound:
  "unat (drop_bit 64 (ucast (w :: u64) + c :: u128)) \<le> (unat w + unat c) div 2 ^ 64"
proof -
  have "unat (ucast w + c :: u128) \<le> unat w + unat c"
    by (simp add: unat_word_ariths unat_ucast_down)
  then show ?thesis
    by (simp add: unat_drop_bit_div div_le_mono)
qed

lemma carry_decreases:
  assumes "c \<noteq> 0"
  shows "2 * unat (drop_bit 64 (ucast (w :: u64) + c :: u128)) < 2 * unat c + (if w = 0 then 0 else 1)"
proof -
  have c: "0 < unat c"
    using assms by (simp add: unat_gt_0)
  have "(unat w + unat c) div 2 ^ 64 \<le> unat c"
    using c unat_u64_lt [of w] by (intro less_Suc_eq_le [THEN iffD1] less_mult_imp_div_less) simp
  moreover have "w = 0 \<Longrightarrow> (unat w + unat c) div 2 ^ 64 < unat c"
    using c by simp
  ultimately show ?thesis
    using carry_bound [of w c] by (auto simp: not_less)
qed

function carry_loop :: "biguint \<Rightarrow> nat \<Rightarrow> u128 \<Rightarrow> biguint" where
  "carry_loop out index carry =
     (if carry = 0 \<or> length out \<le> index then out
      else let sum = ucast (out ! index) + carry;
               out' = out[index := ucast sum];
               carry' = drop_bit 64 sum
           in carry_loop
                (if index + 1 = length out' \<and> carry' \<noteq> 0 then out' @ [0] else out')
                (index + 1) carry')"
  by pat_completeness auto
termination
proof (relation "measures [\<lambda>(out, index, carry). length out - index,
    \<lambda>(out, index, carry). 2 * unat carry + (if out ! index = 0 then 0 else 1)]", goal_cases)
  case (2 out index carry sum out' carry')
  then show ?case
    using carry_decreases [of carry "out ! index"]
    by (cases "index + 1 = length out \<and> carry' \<noteq> 0") (auto simp: nth_append split: if_splits)
qed simp

declare carry_loop.simps [simp del]

definition mul_row :: "biguint \<Rightarrow> biguint \<Rightarrow> nat \<Rightarrow> biguint \<Rightarrow> biguint" where
  "mul_row lhs rhs i out =
     (case fold (mul_step (lhs ! i) rhs i) [0..<length rhs] (out, 0) of
        (out', carry) \<Rightarrow> carry_loop out' (i + length rhs) carry)"

definition big_multiply :: "biguint \<Rightarrow> biguint \<Rightarrow> biguint" where
  "big_multiply lhs rhs =
     (if big_is_zero lhs \<or> big_is_zero rhs then []
      else normalize (fold (mul_row lhs rhs) [0..<length lhs]
             (replicate (length lhs + length rhs) 0)))"

text \<open>The loop of \<open>divmod\<close>; its counter is \<open>index + 1\<close>.\<close>

fun divmod_loop :: "nat \<Rightarrow> biguint \<Rightarrow> biguint \<Rightarrow> biguint \<Rightarrow> biguint \<times> biguint" where
  "divmod_loop 0 numerator shifted quot = (quot, numerator)"
| "divmod_loop (Suc index) numerator shifted quot =
     (let ge = (0 \<le> big_compare numerator shifted);
          numerator' = (if ge then big_subtract numerator shifted else numerator);
          quot' = (if ge then set_bit_big quot index else quot);
          shifted' = (if index \<noteq> 0 then shift_right_one shifted else shifted)
      in divmod_loop index numerator' shifted' quot')"

definition big_divmod :: "biguint \<Rightarrow> biguint \<Rightarrow> biguint \<times> biguint" where
  "big_divmod numerator denominator =
     (if big_is_zero denominator \<or> big_compare numerator denominator < 0 then ([], numerator)
      else let shift = big_bit_width numerator - big_bit_width denominator;
               shifted = shifted_left denominator shift
           in case divmod_loop (shift + 1) numerator shifted [] of
                (q, r) \<Rightarrow> (normalize q, normalize r))"

text \<open>The descending loop of \<open>divide_small\<close>: the words from the top, and the remainder.\<close>

fun divide_small_loop :: "u64 list \<Rightarrow> u128 \<Rightarrow> u128 \<Rightarrow> u64 list \<times> u128" where
  "divide_small_loop [] divisor remainder = ([], remainder)"
| "divide_small_loop (w # ws) divisor remainder =
     (let current = push_bit 64 remainder OR ucast w;
          (qs, r) = divide_small_loop ws divisor (current mod divisor)
      in (ucast (current div divisor) # qs, r))"

definition divide_small :: "biguint \<Rightarrow> u32 \<Rightarrow> biguint \<times> u32" where
  "divide_small ws divisor =
     (case divide_small_loop (rev ws) (ucast divisor) 0 of
        (qs, r) \<Rightarrow> (normalize (rev qs), ucast r))"

definition to_u128 :: "biguint \<Rightarrow> u128" where
  "to_u128 ws =
     (let result = (if ws = [] then 0 else ucast (ws ! 0))
      in if 1 < length ws then result OR push_bit 64 (ucast (ws ! 1)) else result)"

end
