(* ===== verification/Big_UInt_Correct.thy ===== *)
theory Big_UInt_Correct
  imports Big_UInt
begin

text \<open>
  The refinement of \<open>BigUInt\<close> to the natural numbers: \<open>bval\<close> reads a word vector as a
  natural number, \<open>bnorm\<close> is the class invariant (no zero word at the back). Every operation
  keeps the invariant and computes the arithmetic operation its name promises. The contract
  the soft-float unit relies on is the locale \<open>exact_naturals\<close>, interpreted on the
  operations of the model.
\<close>

section \<open>Value and invariant\<close>

fun bval :: "biguint \<Rightarrow> nat" where
  "bval [] = 0"
| "bval (w # ws) = unat w + 2 ^ 64 * bval ws"

definition bnorm :: "biguint \<Rightarrow> bool" where
  "bnorm ws \<longleftrightarrow> ws = [] \<or> last ws \<noteq> 0"

lemma bval_append: "bval (xs @ ys) = bval xs + 2 ^ (64 * length xs) * bval ys"
  by (induction xs) (simp_all add: algebra_simps power_add)

lemma bval_snoc: "bval (xs @ [x]) = bval xs + 2 ^ (64 * length xs) * unat x"
  by (simp add: bval_append)

lemma bval_lt: "bval xs < 2 ^ (64 * length xs)"
proof (induction xs)
  case Nil
  show ?case by simp
next
  case (Cons x xs)
  have "unat x + 2 ^ 64 * bval xs < 2 ^ 64 * (bval xs + 1)"
    using unat_u64_lt [of x] by simp
  also have "\<dots> \<le> 2 ^ 64 * 2 ^ (64 * length xs)"
    using Cons by (intro mult_le_mono2) simp
  finally show ?case
    by (simp add: power_add)
qed

lemma bval_replicate_0 [simp]: "bval (replicate n 0) = 0"
  by (induction n) simp_all

lemma bval_zero_words: "bval xs = 0 \<longleftrightarrow> (\<forall>x \<in> set xs. x = 0)"
  by (induction xs) (auto simp: unat_eq_zero)

lemma bval_resize [simp]: "length ws \<le> n \<Longrightarrow> bval (resize ws n) = bval ws"
  by (simp add: resize_def bval_append)

lemma length_resize [simp]: "length (resize ws n) = n"
  by (simp add: resize_def)

lemma normalize_snoc: "normalize (xs @ [x]) = (if x = 0 then normalize xs else xs @ [x])"
  by (simp add: normalize_def)

lemma bval_normalize [big_val]: "bval (normalize xs) = bval xs"
  by (induction xs rule: rev_induct) (auto simp: normalize_snoc bval_snoc normalize_def)

lemma bnorm_normalize [big_wf]: "bnorm (normalize xs)"
  by (induction xs rule: rev_induct) (auto simp: normalize_snoc bnorm_def normalize_def)

lemma normalize_id: "bnorm xs \<Longrightarrow> normalize xs = xs"
  by (cases xs rule: rev_cases) (auto simp: normalize_snoc bnorm_def normalize_def)

lemma bnorm_ge: "bnorm xs \<Longrightarrow> xs \<noteq> [] \<Longrightarrow> 2 ^ (64 * (length xs - 1)) \<le> bval xs"
proof (cases xs rule: rev_cases)
  case (snoc ys y)
  moreover assume "bnorm xs"
  ultimately have "1 \<le> unat y"
    by (metis One_nat_def Suc_leI bnorm_def last_snoc neq0_conv snoc_eq_iff_butlast unat_eq_zero)
  then show ?thesis
    by (simp add: snoc bval_snoc trans_le_add2)
qed simp

lemma bnormI:
  assumes "xs \<noteq> [] \<Longrightarrow> 2 ^ (64 * (length xs - 1)) \<le> bval xs"
  shows "bnorm xs"
proof (cases xs rule: rev_cases)
  case (snoc ys y)
  have "y \<noteq> 0"
    using assms bval_lt [of ys] by (auto simp: snoc bval_snoc)
  then show ?thesis
    by (simp add: snoc bnorm_def)
qed (simp add: bnorm_def)

lemma bnorm_Nil [simp, big_wf]: "bnorm []"
  by (simp add: bnorm_def)

lemma bval_eq_0_iff: "bnorm xs \<Longrightarrow> bval xs = 0 \<longleftrightarrow> xs = []"
  using bnorm_ge by fastforce

lemma big_is_zero_iff [big_val]: "bnorm xs \<Longrightarrow> big_is_zero xs \<longleftrightarrow> bval xs = 0"
  by (simp add: big_is_zero_def bval_eq_0_iff)

lemma big_is_odd_iff [big_val]: "big_is_odd xs \<longleftrightarrow> odd (bval xs)"
  by (cases xs) (auto simp: big_is_odd_def and_one_eq odd_iff_mod_2_eq_one unat_word_ariths word_unat_eq_iff
      unsigned_and_eq)

lemma bnorm_length_le:
  assumes "bnorm xs" and "bval xs < 2 ^ (64 * n)"
  shows "length xs \<le> n"
proof (rule ccontr)
  assume "\<not> length xs \<le> n"
  then have "n \<le> length xs - 1" "xs \<noteq> []"
    by auto
  then have "(2 :: nat) ^ (64 * n) \<le> 2 ^ (64 * (length xs - 1))"
    by (intro power_increasing) auto
  with assms bnorm_ge [OF assms(1) \<open>xs \<noteq> []\<close>] show False
    by linarith
qed

lemma bval_inj_same_length: "length xs = length ys \<Longrightarrow> bval xs = bval ys \<Longrightarrow> xs = ys"
proof (induction xs ys rule: list_induct2)
  case (Cons x xs y ys)
  have "unat x = bval (x # xs) mod 2 ^ 64"
    using unat_u64_lt [of x] by simp
  also have "\<dots> = bval (y # ys) mod 2 ^ 64"
    by (simp only: Cons.prems)
  also have "\<dots> = unat y"
    using unat_u64_lt [of y] by simp
  finally have "unat x = unat y" .
  with Cons show ?case
    by (simp add: word_unat_eq_iff)
qed simp

text \<open>The representation is canonical: normal vectors with the same value are equal.\<close>

lemma bval_inj: "bnorm xs \<Longrightarrow> bnorm ys \<Longrightarrow> bval xs = bval ys \<Longrightarrow> xs = ys"
proof -
  assume n: "bnorm xs" "bnorm ys" and eq: "bval xs = bval ys"
  have "length xs = length ys"
    using bnorm_length_le [OF n(1), of "length ys"] bnorm_length_le [OF n(2), of "length xs"]
      bval_lt [of xs] bval_lt [of ys] eq by simp
  then show ?thesis
    using eq by (rule bval_inj_same_length)
qed

section \<open>Comparison\<close>

lemma compare_loop_sgn:
  "length us = length vs \<Longrightarrow>
   compare_loop us vs = sgn (int (bval (rev us)) - int (bval (rev vs)))"
proof (induction us vs rule: list_induct2)
  case (Cons u us v vs)
  let ?P = "2 ^ (64 * length us) :: nat"
  have lt: "bval (rev us) < ?P" "bval (rev vs) < ?P"
    using bval_lt [of "rev us"] bval_lt [of "rev vs"] Cons.hyps by simp_all
  have "bval (rev us) + ?P * unat u < bval (rev vs) + ?P * unat v" if "unat u < unat v"
  proof -
    have "?P * (unat u + 1) \<le> ?P * unat v"
      using that by (intro mult_le_mono2) simp
    with lt show ?thesis by simp
  qed
  moreover have "bval (rev vs) + ?P * unat v < bval (rev us) + ?P * unat u" if "unat v < unat u"
  proof -
    have "?P * (unat v + 1) \<le> ?P * unat u"
      using that by (intro mult_le_mono2) simp
    with lt show ?thesis by simp
  qed
  ultimately show ?case
    using Cons
    by (cases "unat u" "unat v" rule: linorder_cases)
      (auto simp: bval_snoc word_less_nat_alt word_unat_eq_iff
        simp del: of_nat_add of_nat_mult of_nat_power, simp)
qed simp

lemma big_compare_sgn [big_val]:
  assumes "bnorm xs" and "bnorm ys"
  shows "big_compare xs ys = sgn (int (bval xs) - int (bval ys))"
proof -
  have "bval xs < bval ys" if "length xs < length ys" "bnorm ys" for xs ys
  proof -
    have "bval xs < 2 ^ (64 * length xs)"
      by (rule bval_lt)
    also have "\<dots> \<le> 2 ^ (64 * (length ys - 1))"
      using that by (intro power_increasing) auto
    also have "\<dots> \<le> bval ys"
      using that by (intro bnorm_ge) auto
    finally show ?thesis .
  qed
  from this [of xs ys] this [of ys xs] show ?thesis
    using assms compare_loop_sgn [of "rev xs" "rev ys"]
    by (cases "length xs" "length ys" rule: linorder_cases) (auto simp: big_compare_def)
qed

lemma big_compare_cases:
  assumes "bnorm xs" and "bnorm ys"
  shows "big_compare xs ys < 0 \<longleftrightarrow> bval xs < bval ys"
    and "0 \<le> big_compare xs ys \<longleftrightarrow> bval ys \<le> bval xs"
    and "0 < big_compare xs ys \<longleftrightarrow> bval ys < bval xs"
    and "big_compare xs ys = 0 \<longleftrightarrow> bval xs = bval ys"
  by (simp_all add: big_compare_sgn [OF assms] sgn_if)

section \<open>Bit width\<close>

lemma clz_prefix:
  fixes w :: u64
  assumes "unat w < 2 ^ n" and "n \<le> 64"
  defines "c \<equiv> length (takeWhile (\<lambda>i. \<not> bit w i) (rev [0..<n]))"
  shows "c \<le> n" and "unat w < 2 ^ (n - c)" and "w \<noteq> 0 \<Longrightarrow> c < n \<and> 2 ^ (n - c - 1) \<le> unat w"
proof -
  have "c \<le> n \<and> unat w < 2 ^ (n - c) \<and> (w \<noteq> 0 \<longrightarrow> c < n \<and> 2 ^ (n - c - 1) \<le> unat w)"
    using assms(1,2) unfolding c_def
  proof (induction n)
    case 0
    then show ?case by (simp add: unat_eq_zero)
  next
    case (Suc n)
    have bit_iff: "bit w n \<longleftrightarrow> 2 ^ n \<le> unat w"
    proof -
      have "bit w n \<longleftrightarrow> odd (unat w div 2 ^ n)"
        using bit_iff_odd [of "unat w" n] by (simp add: bit_unsigned_iff)
      moreover have "unat w div 2 ^ n < 2"
        using Suc.prems by (simp add: less_mult_imp_div_less)
      ultimately show ?thesis
        using div_less_iff_less_mult [of "2 ^ n" "unat w" 1]
        by (auto simp: less_2_cases_iff not_le)
    qed
    show ?case
    proof (cases "bit w n")
      case True
      with Suc.prems bit_iff show ?thesis by simp
    next
      case False
      with bit_iff Suc.prems have "unat w < 2 ^ n" by simp
      from Suc.IH [OF this] Suc.prems False show ?thesis by (auto simp: Suc_diff_le)
    qed
  qed
  then show "c \<le> n" "unat w < 2 ^ (n - c)" "w \<noteq> 0 \<Longrightarrow> c < n \<and> 2 ^ (n - c - 1) \<le> unat w"
    by simp_all
qed

lemma clz64_bounds:
  "clz64 w \<le> 64" "unat w < 2 ^ (64 - clz64 w)"
  "w \<noteq> 0 \<Longrightarrow> clz64 w < 64 \<and> 2 ^ (64 - clz64 w - 1) \<le> unat w"
  using clz_prefix [of w 64] unat_u64_lt [of w] by (simp_all add: clz64_def)

text \<open>\<open>bit_width\<close> is one more than the binary logarithm.\<close>

lemma big_bit_width_bounds:
  assumes "bnorm xs"
  shows "bval xs < 2 ^ big_bit_width xs"
    and "xs \<noteq> [] \<Longrightarrow> 0 < big_bit_width xs \<and> 2 ^ (big_bit_width xs - 1) \<le> bval xs"
proof -
  have "bval xs < 2 ^ big_bit_width xs \<and>
    (xs \<noteq> [] \<longrightarrow> 0 < big_bit_width xs \<and> 2 ^ (big_bit_width xs - 1) \<le> bval xs)"
  proof (cases xs rule: rev_cases)
    case Nil
    then show ?thesis by (simp add: big_bit_width_def)
  next
    case (snoc ys y)
    then have "y \<noteq> 0"
      using assms by (simp add: bnorm_def)
    define P where "P = (2 :: nat) ^ (64 * length ys)"
    define k where "k = 64 - clz64 y"
    have k: "unat y < 2 ^ k" "2 ^ (k - 1) \<le> unat y" "0 < k"
      using clz64_bounds [of y] \<open>y \<noteq> 0\<close> by (simp_all add: k_def)
    have bw: "big_bit_width xs = 64 * length ys + k"
      by (simp add: snoc big_bit_width_def k_def)
    have val: "bval xs = bval ys + P * unat y"
      by (simp add: snoc bval_snoc P_def)
    have up: "P * (unat y + 1) \<le> P * 2 ^ k"
      using k by (intro mult_le_mono2) simp
    have lo: "P * 2 ^ (k - 1) \<le> bval ys + P * unat y"
      using k by (intro trans_le_add2 mult_le_mono2)
    show ?thesis
      using bval_lt [of ys] k up lo unfolding bw val
      by (cases k) (simp_all add: P_def power_add snoc)
  qed
  then show "bval xs < 2 ^ big_bit_width xs"
    "xs \<noteq> [] \<Longrightarrow> 0 < big_bit_width xs \<and> 2 ^ (big_bit_width xs - 1) \<le> bval xs"
    by simp_all
qed

lemma big_bit_width_0 [simp]: "big_bit_width [] = 0"
  by (simp add: big_bit_width_def)

lemma big_bit_width_unique:
  assumes "bnorm xs" and "2 ^ k \<le> bval xs" and "bval xs < 2 ^ Suc k"
  shows "big_bit_width xs = Suc k"
proof -
  have "xs \<noteq> []"
    using assms(2) by auto
  note b = big_bit_width_bounds(1) [OF assms(1)] big_bit_width_bounds(2) [OF assms(1) this]
  have "(2 :: nat) ^ k < 2 ^ big_bit_width xs"
    using assms(2) b(1) by (rule order.strict_trans1)
  moreover have "(2 :: nat) ^ (big_bit_width xs - 1) < 2 ^ Suc k"
    using b(2) assms(3) by (blast intro: order.strict_trans1)
  ultimately have "k < big_bit_width xs" "big_bit_width xs - 1 < Suc k"
    by (metis one_less_numeral_iff power_less_imp_less_exp semiring_norm(76))+
  then show ?thesis by simp
qed

section \<open>Words with carries\<close>

lemma unat_ucast_u128 [simp]: "unat (ucast (x :: u64) :: u128) = unat x"
  using unat_u64_lt [of x] by (simp add: unat_ucast_down)

lemma unat_ucast_u128_32 [simp]: "unat (ucast (x :: u32) :: u128) = unat x"
  using unat_lt_exp [of x] by (simp add: unat_ucast_down)

lemma split_u128: "unat (ucast x :: u64) + 2 ^ 64 * unat (drop_bit 64 x) = unat (x :: u128)"
  by (simp add: unat_ucast_down unat_drop_bit_div)

lemma unat_add_u128: "unat a + unat b < 2 ^ 128 \<Longrightarrow> unat (a + b :: u128) = unat a + unat b"
  by (simp add: unat_word_ariths)

lemma unat_mult_u128: "unat a * unat b < 2 ^ 128 \<Longrightarrow> unat (a * b :: u128) = unat a * unat b"
  by (simp add: unat_word_ariths)

lemma unat_carry_low: "unat c < 2 ^ 64 \<Longrightarrow> unat (ucast c :: u64) = unat (c :: u128)"
  by (simp add: unat_ucast_down)

lemma add_loop_val:
  "length other \<le> length ws \<Longrightarrow> unat c \<le> 1 \<Longrightarrow>
   bval (add_loop ws other c) = bval ws + bval other + unat c"
proof (induction ws arbitrary: other c)
  case Nil
  then show ?case by (simp add: unat_carry_low)
next
  case (Cons w ws)
  define x where "x = (case other of [] \<Rightarrow> 0 | x # _ \<Rightarrow> x)"
  define s where "s = ucast w + ucast x + c"
  have other: "bval other = unat x + 2 ^ 64 * bval (tl other)"
    by (cases other) (simp_all add: x_def)
  have s: "unat s = unat w + unat x + unat c"
    using unat_u64_lt [of w] unat_u64_lt [of x] Cons.prems
    by (simp add: s_def unat_add_u128)
  have "unat (drop_bit 64 s) \<le> 1"
    using unat_u64_lt [of w] unat_u64_lt [of x] Cons.prems by (simp add: unat_drop_bit_div s)
  then have "bval (add_loop ws (tl other) (drop_bit 64 s))
      = bval ws + bval (tl other) + unat (drop_bit 64 s)"
    using Cons by simp
  then show ?case
    using split_u128 [of s] by (simp add: Let_def x_def [symmetric] s_def [symmetric] other s)
qed

lemma add_loop_length:
  "length (add_loop ws other c) = length ws \<or>
   (\<exists>xs x. add_loop ws other c = xs @ [x] \<and> x \<noteq> 0)" if "length other \<le> length ws" "unat c \<le> 1"
  using that
proof (induction ws arbitrary: other c)
  case Nil
  then show ?case
    by (cases "c = 0")
      (auto simp: unat_carry_low word_unat_eq_iff intro!: exI [of _ "[]"] exI [of _ "ucast c"])
next
  case (Cons w ws)
  define x where "x = (case other of [] \<Rightarrow> 0 | x # _ \<Rightarrow> x)"
  define s where "s = ucast w + ucast x + c"
  have s: "unat s = unat w + unat x + unat c"
    using unat_u64_lt [of w] unat_u64_lt [of x] Cons.prems
    by (simp add: s_def unat_add_u128)
  have "unat (drop_bit 64 s) \<le> 1"
    using unat_u64_lt [of w] unat_u64_lt [of x] Cons.prems by (simp add: unat_drop_bit_div s)
  with Cons.IH [of "tl other" "drop_bit 64 s"] Cons.prems
  have "length (add_loop ws (tl other) (drop_bit 64 s)) = length ws \<or>
      (\<exists>xs x. add_loop ws (tl other) (drop_bit 64 s) = xs @ [x] \<and> x \<noteq> 0)"
    by simp
  moreover have "add_loop (w # ws) other c = ucast s # add_loop ws (tl other) (drop_bit 64 s)"
    by (simp add: Let_def x_def s_def)
  ultimately show ?case
    by (metis append_Cons length_Cons)
qed

lemma big_add_val [big_val]: "bval (big_add xs ys) = bval xs + bval ys"
  by (simp add: big_add_def add_loop_val)

lemma bnorm_ge_max:
  assumes "bnorm xs" and "bnorm ys" and "0 < max (length xs) (length ys)"
  shows "2 ^ (64 * (max (length xs) (length ys) - 1)) \<le> bval xs + bval ys"
  using bnorm_ge [OF assms(1)] bnorm_ge [OF assms(2)] assms(3)
  by (cases "length xs \<le> length ys") (auto simp: max_def intro: trans_le_add1 trans_le_add2)

lemma bnorm_big_add [big_wf]:
  assumes "bnorm xs" and "bnorm ys"
  shows "bnorm (big_add xs ys)"
proof -
  let ?n = "max (length xs) (length ys)"
  consider "length (big_add xs ys) = ?n" | us u where "big_add xs ys = us @ [u]" "u \<noteq> 0"
    using add_loop_length [of ys "resize xs ?n" 0] by (auto simp: big_add_def)
  then show ?thesis
  proof cases
    case 1
    show ?thesis
    proof (rule bnormI)
      assume "big_add xs ys \<noteq> []"
      with 1 have "0 < ?n"
        by (metis length_greater_0_conv)
      then show "2 ^ (64 * (length (big_add xs ys) - 1)) \<le> bval (big_add xs ys)"
        unfolding 1 big_add_val by (rule bnorm_ge_max [OF assms])
    qed
  qed (simp add: bnorm_def)
qed

lemma borrow_step:
  fixes prior rhs borrow :: u64
  assumes "unat borrow \<le> 1"
  defines "wb \<equiv> rhs + borrow"
  defines "out \<equiv> (if wb < rhs \<or> prior < wb then 1 else 0 :: nat)"
  shows "unat (prior - wb) + unat rhs + unat borrow = unat prior + 2 ^ 64 * out"
proof (cases "unat rhs + unat borrow < 2 ^ 64")
  case True
  then have wb: "unat wb = unat rhs + unat borrow"
    by (simp add: wb_def unat_word_ariths)
  have "unat (prior - wb) = (if unat wb \<le> unat prior then unat prior - unat wb
      else unat prior + 2 ^ 64 - unat wb)"
    using unat_u64_lt [of prior] by (simp add: unat_sub_if_size word_size)
  then show ?thesis
    using True wb unat_u64_lt [of prior] by (auto simp: out_def word_less_nat_alt)
next
  case False
  then have "unat rhs = 2 ^ 64 - 1" "unat borrow = 1"
    using assms(1) unat_u64_lt [of rhs] by auto
  then have "wb = 0"
    by (simp add: wb_def word_unat_eq_iff unat_word_ariths)
  with \<open>unat rhs = 2 ^ 64 - 1\<close> \<open>unat borrow = 1\<close> show ?thesis
    by (auto simp: out_def word_less_nat_alt)
qed

lemma subtract_loop_val:
  "bval other + unat borrow \<le> bval ws \<Longrightarrow> unat borrow \<le> 1 \<Longrightarrow>
   bval (subtract_loop ws other borrow) + bval other + unat borrow = bval ws"
proof (induction ws arbitrary: other borrow)
  case Nil
  then show ?case by simp
next
  case (Cons w ws)
  define x where "x = (case other of [] \<Rightarrow> 0 | x # _ \<Rightarrow> x)"
  define wb where "wb = x + borrow"
  define b where "b = (if wb < x \<or> w < wb then 1 else 0 :: u64)"
  have other: "bval other = unat x + 2 ^ 64 * bval (tl other)"
    by (cases other) (simp_all add: x_def)
  have step: "unat (w - wb) + unat x + unat borrow = unat w + 2 ^ 64 * unat b"
    using borrow_step [of borrow w x] Cons.prems by (simp add: wb_def b_def)
  have "bval (tl other) + unat b \<le> bval ws"
  proof -
    have "2 ^ 64 * (bval (tl other) + unat b) \<le> 2 ^ 64 * bval ws + unat (w - wb)"
      using Cons.prems step by (simp add: other)
    then have "2 ^ 64 * (bval (tl other) + unat b) < 2 ^ 64 * (bval ws + 1)"
      using unat_u64_lt [of "w - wb"] by simp
    then show ?thesis by simp
  qed
  then have "bval (subtract_loop ws (tl other) b) + bval (tl other) + unat b = bval ws"
    by (intro Cons.IH) (simp_all add: b_def)
  then show ?case
    using step
    by (simp add: Let_def x_def [symmetric] wb_def [symmetric] b_def [symmetric] other)
qed

lemma big_subtract_val [big_val]: "bval ys \<le> bval xs \<Longrightarrow> bval (big_subtract xs ys) = bval xs - bval ys"
  using subtract_loop_val [of ys 0 xs] by (simp add: big_subtract_def bval_normalize)

lemma bnorm_big_subtract [big_wf]: "bnorm (big_subtract xs ys)"
  by (simp add: big_subtract_def bnorm_normalize)

lemma add_small_loop_val: "unat c < 2 ^ 64 \<Longrightarrow> bval (add_small_loop ws c) = bval ws + unat c"
proof (induction ws arbitrary: c)
  case (Cons w ws)
  define s where "s = ucast w + c"
  have s: "unat s = unat w + unat c"
    using unat_u64_lt [of w] Cons.prems by (simp add: s_def unat_add_u128)
  have "unat (drop_bit 64 s) < 2 ^ 64"
    using unat_u64_lt [of w] Cons.prems by (simp add: unat_drop_bit_div s)
  then show ?case
    using Cons.IH [of "drop_bit 64 s"] split_u128 [of s]
    by (simp add: Let_def s_def [symmetric] s)
qed (simp add: unat_carry_low)

lemma add_small_loop_last:
  "unat c < 2 ^ 64 \<Longrightarrow> bnorm ws \<Longrightarrow> bnorm (add_small_loop ws c)"
proof (induction ws arbitrary: c)
  case (Cons w ws)
  define s where "s = ucast w + c"
  have s: "unat s = unat w + unat c"
    using unat_u64_lt [of w] Cons.prems by (simp add: s_def unat_add_u128)
  have d: "unat (drop_bit 64 s) < 2 ^ 64"
    using unat_u64_lt [of w] Cons.prems by (simp add: unat_drop_bit_div s)
  have tl: "bnorm ws"
    using Cons.prems by (auto simp: bnorm_def split: if_splits)
  show ?case
  proof (cases "c = 0")
    case False
    have "bnorm (ucast s # add_small_loop ws (drop_bit 64 s))"
    proof (cases "add_small_loop ws (drop_bit 64 s) = []")
      case True
      then have "ws = []" "drop_bit 64 s = 0"
        using add_small_loop_val [OF d, of ws] bval_eq_0_iff [OF tl] by (auto simp: unat_eq_zero)
      then have "unat (ucast s :: u64) = unat w + unat c"
        using split_u128 [of s] by (simp add: s)
      moreover have "0 < unat c"
        using False by (simp add: unat_gt_0)
      ultimately show ?thesis
        using True by (auto simp: bnorm_def)
    next
      case False
      with Cons.IH [OF d tl] show ?thesis
        by (simp add: bnorm_def)
    qed
    with False show ?thesis
      by (simp add: Let_def s_def [symmetric])
  qed (use Cons.prems in simp)
qed (auto simp: bnorm_def unat_carry_low word_unat_eq_iff)

lemma unat_u32_lt: "unat (v :: u32) < 2 ^ 32"
  using unat_lt_exp [of v] by simp

lemma unat_ucast_u64_32 [simp]: "unat (ucast (x :: u32) :: u64) = unat x"
  using unat_u32_lt [of x] by (simp add: unat_ucast_down)

lemma add_small_val [big_val]: "bval (add_small ws v) = bval ws + unat v"
  using unat_u32_lt [of v] by (auto simp: add_small_def add_small_loop_val)

lemma bnorm_add_small [big_wf]: "bnorm ws \<Longrightarrow> bnorm (add_small ws v)"
  using unat_u32_lt [of v]
  by (cases "v = 0 \<or> ws = []")
    (auto simp: add_small_def add_small_loop_last, auto simp: bnorm_def word_unat_eq_iff)

lemma multiply_small_loop_val:
  "unat c < 2 ^ 64 \<Longrightarrow> bval (multiply_small_loop ws v c) = bval ws * unat v + unat c"
proof (induction ws arbitrary: c)
  case (Cons w ws)
  define p where "p = ucast w * ucast v + c"
  have "unat w * unat v \<le> (2 ^ 64 - 1) * (2 ^ 32 - 1)"
    using unat_u64_lt [of w] unat_u32_lt [of v] by (intro mult_le_mono) auto
  then have m: "unat w * unat v < 2 ^ 96"
    by simp
  then have p: "unat p = unat w * unat v + unat c"
    using Cons.prems by (simp add: p_def unat_add_u128 unat_mult_u128)
  have "unat (drop_bit 64 p) < 2 ^ 64"
    using m Cons.prems by (simp add: unat_drop_bit_div p less_mult_imp_div_less)
  then show ?case
    using Cons.IH [of "drop_bit 64 p"] split_u128 [of p]
    by (simp add: Let_def p_def [symmetric]) (simp add: p algebra_simps)
qed (simp add: unat_carry_low)

lemma multiply_small_loop_length:
  "unat c < 2 ^ 64 \<Longrightarrow> length (multiply_small_loop ws v c) = length ws \<or>
   (\<exists>xs x. multiply_small_loop ws v c = xs @ [x] \<and> x \<noteq> 0)"
proof (induction ws arbitrary: c)
  case (Cons w ws)
  define p where "p = ucast w * ucast v + c"
  have "unat (drop_bit 64 p) < 2 ^ 64"
    using unat_lt_exp [of p] by (simp add: unat_drop_bit_div less_mult_imp_div_less)
  with Cons.IH [of "drop_bit 64 p"] show ?case
    by (auto simp: Let_def p_def [symmetric])
next
  case Nil
  then show ?case
    by (cases "c = 0")
      (auto simp: unat_carry_low word_unat_eq_iff intro!: exI [of _ "[]"] exI [of _ "ucast c"])
qed

lemma multiply_small_val [big_val]: "bval (multiply_small ws v) = bval ws * unat v"
  by (auto simp: multiply_small_def big_is_zero_def multiply_small_loop_val)

lemma bnorm_multiply_small [big_wf]:
  assumes "bnorm ws"
  shows "bnorm (multiply_small ws v)"
proof (cases "v = 0 \<or> ws = []")
  case True
  then show ?thesis by (auto simp: multiply_small_def big_is_zero_def)
next
  case False
  then have v: "1 \<le> unat v"
    by (metis One_nat_def Suc_leI neq0_conv unat_eq_zero)
  consider "length (multiply_small ws v) = length ws" | us u where "multiply_small ws v = us @ [u]" "u \<noteq> 0"
    using multiply_small_loop_length [of 0 ws v] False by (auto simp: multiply_small_def big_is_zero_def)
  then show ?thesis
  proof cases
    case 1
    have "2 ^ (64 * (length ws - 1)) * 1 \<le> bval ws * unat v"
      using bnorm_ge [OF assms] False v by (intro mult_le_mono) auto
    with 1 show ?thesis
      by (intro bnormI) (auto simp: multiply_small_val)
  qed (simp add: bnorm_def)
qed

section \<open>Conversions\<close>

lemma big_of_u128_val [big_val]: "bval (big_of_u128 v) = unat v"
proof -
  have "ucast (drop_bit 64 v) = (0 :: u64) \<longleftrightarrow> drop_bit 64 v = 0"
  proof -
    have "unat (drop_bit 64 v) < 2 ^ 64"
      using unat_lt_exp [of v] by (simp add: unat_drop_bit_div less_mult_imp_div_less)
    then show ?thesis
      by (simp add: word_unat_eq_iff unat_carry_low)
  qed
  moreover have "unat (ucast (drop_bit 64 v) :: u64) = unat (drop_bit 64 v)"
    using unat_lt_exp [of v] by (intro unat_carry_low) (simp add: unat_drop_bit_div less_mult_imp_div_less)
  ultimately show ?thesis
    using split_u128 [of v] by (auto simp: big_of_u128_def Let_def)
qed

lemma bnorm_big_of_u128 [big_wf]: "bnorm (big_of_u128 v)"
proof -
  have "unat (drop_bit 64 v) < 2 ^ 64"
    using unat_lt_exp [of v] by (simp add: unat_drop_bit_div less_mult_imp_div_less)
  then have "ucast (drop_bit 64 v) = (0 :: u64) \<longleftrightarrow> drop_bit 64 v = 0"
    by (simp add: word_unat_eq_iff unat_carry_low)
  then show ?thesis
    by (auto simp: big_of_u128_def Let_def bnorm_def)
qed

lemma to_u128_val [big_val]: "unat (to_u128 ws) = bval ws mod 2 ^ 128"
proof -
  have two: "unat (ucast x OR push_bit 64 (ucast y) :: u128) = unat x + 2 ^ 64 * unat y" for x y :: u64
  proof -
    have "push_bit 64 (ucast y) OR ucast x = push_bit 64 (ucast y) + (ucast x :: u128)"
      using unat_u64_lt [of x] by (intro unat_or_disjoint) simp
    moreover have "unat (push_bit 64 (ucast y) :: u128) = 2 ^ 64 * unat y"
      using unat_u64_lt [of y] by (simp add: unsigned_push_bit_eq nat_bits)
    ultimately show ?thesis
      using unat_u64_lt [of x] unat_u64_lt [of y] by (simp add: or.commute unat_add_u128)
  qed
  consider "ws = []" | x where "ws = [x]" | x y zs where "ws = x # y # zs"
    by (cases ws rule: remdups_adj.cases)
  then show ?thesis
  proof cases
    case 2
    then show ?thesis
      using unat_u64_lt [of x] by (simp add: to_u128_def)
  next
    case 3
    have "bval ws = (unat x + 2 ^ 64 * unat y) + 2 ^ 128 * bval zs"
      by (simp add: 3)
    moreover have "unat x + 2 ^ 64 * unat y < 2 ^ 128"
      using unat_u64_lt [of x] unat_u64_lt [of y] by simp
    ultimately show ?thesis
      by (simp add: 3 to_u128_def two del: bval.simps) 
  qed (simp add: to_u128_def)
qed

section \<open>Shifts\<close>

lemma length_shift_right_one_loop [simp]: "length (shift_right_one_loop us c) = length us"
  by (induction us arbitrary: c) simp_all

lemma shift_right_one_loop_val:
  "unat c = r * 2 ^ 63 \<Longrightarrow> r \<le> 1 \<Longrightarrow>
   bval (rev (shift_right_one_loop us c)) = (r * 2 ^ (64 * length us) + bval (rev us)) div 2"
proof (induction us arbitrary: c r)
  case (Cons w us)
  define P where "P = (2 :: nat) ^ (64 * length us)"
  have half: "unat (drop_bit 1 w) = unat w div 2"
    by (simp add: unat_drop_bit_div)
  then have or: "unat (drop_bit 1 w OR c) = unat w div 2 + r * 2 ^ 63"
    using unat_or_dvd [of "drop_bit 1 w" 63 c] unat_u64_lt [of w] Cons.prems
    by (simp add: or.commute less_mult_imp_div_less)
  have "unat (push_bit 63 w) = (unat w mod 2) * 2 ^ 63"
    using mod_mult_mult2 [of "unat w" "2 ^ 63" 2] by (simp add: unat_push_bit_mod)
  then have IH: "bval (rev (shift_right_one_loop us (push_bit 63 w)))
      = ((unat w mod 2) * P + bval (rev us)) div 2"
    unfolding P_def by (rule Cons.IH) simp
  have "r * (2 ^ 64 * P) + (bval (rev us) + P * unat w)
      = (unat w mod 2) * P + bval (rev us) + 2 * (P * (unat w div 2 + r * 2 ^ 63))"
  proof -
    have "P * unat w = P * (unat w mod 2) + 2 * (P * (unat w div 2))"
      by (metis add.commute distrib_left mult.left_commute mult_div_mod_eq)
    then show ?thesis
      by (simp add: algebra_simps)
  qed
  then have "(r * (2 ^ 64 * P) + (bval (rev us) + P * unat w)) div 2
      = ((unat w mod 2) * P + bval (rev us)) div 2 + P * (unat w div 2 + r * 2 ^ 63)"
    by simp
  then show ?case
    by (simp add: bval_snoc P_def [symmetric] IH or power_add del: One_nat_def)
qed simp

lemma shift_right_one_val [big_val]: "bval (shift_right_one ws) = bval ws div 2"
  using shift_right_one_loop_val [of 0 0 "rev ws"] by (simp add: shift_right_one_def bval_normalize)

lemma bnorm_shift_right_one [big_wf]: "bnorm (shift_right_one ws)"
  by (simp add: shift_right_one_def bnorm_normalize)

text \<open>One word changes: the value changes by the difference, at that position.\<close>

lemma bval_update:
  "i < length xs \<Longrightarrow> bval (xs[i := v]) + 2 ^ (64 * i) * unat (xs ! i) = bval xs + 2 ^ (64 * i) * unat v"
proof (induction xs arbitrary: i)
  case (Cons x xs)
  show ?case
  proof (cases i)
    case (Suc j)
    with Cons have IH: "bval (xs[j := v]) + 2 ^ (64 * j) * unat (xs ! j) = bval xs + 2 ^ (64 * j) * unat v"
      by simp
    have "2 ^ 64 * bval (xs[j := v]) + 2 ^ (64 * Suc j) * unat (xs ! j)
        = 2 ^ 64 * (bval (xs[j := v]) + 2 ^ (64 * j) * unat (xs ! j))"
      by (simp add: algebra_simps power_add)
    also have "\<dots> = 2 ^ 64 * bval xs + 2 ^ (64 * Suc j) * unat v"
      unfolding IH by (simp add: algebra_simps power_add)
    finally show ?thesis
      by (simp add: Suc)
  qed simp
qed simp

lemma bval_take_Suc: "i < length xs \<Longrightarrow> bval (take (Suc i) xs) = bval (take i xs) + 2 ^ (64 * i) * unat (xs ! i)"
  by (simp add: take_Suc_conv_app_nth bval_snoc)

text \<open>
  The loop of \<open>shifted_left\<close>: after \<open>i\<close> words the vector holds the shifted value of these
  words, the word the next step writes to holds fewer than \<open>part\<close> bits, and the rest is zero.
\<close>

definition shl_inv :: "biguint \<Rightarrow> nat \<Rightarrow> nat \<Rightarrow> nat \<Rightarrow> nat \<Rightarrow> biguint \<Rightarrow> bool" where
  "shl_inv ws whole part n i out \<longleftrightarrow>
     length out = n \<and> bval out = bval (take i ws) * 2 ^ (64 * whole + part) \<and>
     (i + whole < n \<longrightarrow> unat (out ! (i + whole)) < 2 ^ part) \<and>
     (\<forall>j. i + whole < j \<and> j < n \<longrightarrow> out ! j = 0)"

lemma shl_step_inv:
  assumes inv: "shl_inv ws whole part n i out" and i: "i < length ws" and part: "part < 64"
    and n: "n = length ws + whole + (if part \<noteq> 0 then 1 else 0)"
  shows "shl_inv ws whole part n (Suc i) (shl_step ws whole part i out)"
proof -
  define w where "w = ws ! i"
  define k where "k = i + whole"
  define v where "v = out ! k OR push_bit part w"
  have len: "length out = n" and k: "k < n"
    using inv i n by (auto simp: shl_inv_def k_def)
  have low: "unat (out ! k) < 2 ^ part" and zero: "\<And>j. k < j \<Longrightarrow> j < n \<Longrightarrow> out ! j = 0"
    using inv k by (auto simp: shl_inv_def k_def)
  have v: "unat v = unat (out ! k) + unat (push_bit part w)"
    using unat_or_dvd [OF low push_bit_dvd] part by (simp add: v_def or.commute)
  have val: "bval out = bval (take i ws) * 2 ^ (64 * whole + part)"
    using inv by (simp add: shl_inv_def)
  have split: "unat (push_bit part w) + 2 ^ 64 * (unat w div 2 ^ (64 - part)) = unat w * 2 ^ part"
    using push_bit_split [of part w] part by simp
  have up1: "bval (out[k := v]) = bval out + 2 ^ (64 * k) * unat (push_bit part w)"
    using bval_update [of k out v] k by (simp add: len v algebra_simps)
  have goal: "bval (take (Suc i) ws) * 2 ^ (64 * whole + part)
      = bval out + 2 ^ (64 * k) * (unat w * 2 ^ part)"
    using i by (simp add: bval_take_Suc val w_def k_def algebra_simps power_add)
  show ?thesis
  proof (cases "part = 0")
    case True
    have "shl_step ws whole part i out = out[k := v]"
      by (simp add: shl_step_def True v_def w_def k_def)
    moreover have "Suc i + whole < n \<Longrightarrow> out[k := v] ! (Suc i + whole) = 0"
      using zero [of "Suc i + whole"] by (simp add: k_def)
    ultimately show ?thesis
      using up1 goal split zero len True
      by (auto simp: shl_inv_def k_def)
  next
    case False
    define u where "u = drop_bit (64 - part) w"
    have k1: "Suc k < n"
      using False i n by (simp add: k_def)
    have u: "unat u = unat w div 2 ^ (64 - part)"
      by (simp add: u_def unat_drop_bit_div)
    have "unat u < 2 ^ part"
      using unat_u64_lt [of w] part
      by (simp add: u less_mult_imp_div_less flip: power_add)
    have z: "out[k := v] ! Suc k = 0"
      using zero [of "Suc k"] k1 by simp
    have step: "shl_step ws whole part i out = out[k := v, Suc k := u]"
      using z by (simp add: shl_step_def False v_def w_def k_def u_def)
    have "bval (out[k := v, Suc k := u]) = bval (out[k := v]) + 2 ^ (64 * Suc k) * unat u"
      using bval_update [of "Suc k" "out[k := v]" u] k1 z by (simp add: len)
    also have "\<dots> = bval out + 2 ^ (64 * k) * (unat (push_bit part w) + 2 ^ 64 * unat u)"
      by (simp add: up1 algebra_simps power_add)
    also have "\<dots> = bval (take (Suc i) ws) * 2 ^ (64 * whole + part)"
      by (simp only: u split goal)
    finally show ?thesis
      unfolding step using zero len k1 \<open>unat u < 2 ^ part\<close>
      by (auto simp: shl_inv_def k_def nth_list_update)
  qed
qed

lemma shifted_left_val [big_val]: "bval (shifted_left ws bits) = bval ws * 2 ^ bits"
proof (cases "ws = [] \<or> bits = 0")
  case True
  then show ?thesis by (auto simp: shifted_left_def big_is_zero_def)
next
  case False
  define whole where "whole = bits div 64"
  define part where "part = bits mod 64"
  define n where "n = length ws + whole + (if part \<noteq> 0 then 1 else 0)"
  have "shl_inv ws whole part n i (fold (shl_step ws whole part) [0..<i] (replicate n 0))"
    if "i \<le> length ws" for i
    using that
  proof (induction i)
    case 0
    show ?case by (simp add: shl_inv_def)
  next
    case (Suc i)
    then show ?case
      by (simp add: shl_step_inv part_def n_def)
  qed
  from this [of "length ws"] show ?thesis
    using False
    by (simp add: shifted_left_def big_is_zero_def Let_def bval_normalize shl_inv_def
        whole_def part_def n_def)
qed

lemma bnorm_shifted_left [big_wf]: "bnorm ws \<Longrightarrow> bnorm (shifted_left ws bits)"
  by (auto simp: shifted_left_def Let_def bnorm_normalize)

text \<open>The words of a right shift by less than 64 bits.\<close>

definition shr_word :: "biguint \<Rightarrow> nat \<Rightarrow> nat \<Rightarrow> u64" where
  "shr_word ys part t =
     drop_bit part (ys ! t) OR
     (if part \<noteq> 0 \<and> t + 1 < length ys then push_bit (64 - part) (ys ! (t + 1)) else 0)"

lemma shr_word_val:
  assumes "t < length ys" and "part < 64"
  shows "unat (shr_word ys part t) = unat (ys ! t) div 2 ^ part
    + (if t + 1 < length ys then unat (ys ! (t + 1)) mod 2 ^ part * 2 ^ (64 - part) else 0)"
proof (cases "part \<noteq> 0 \<and> t + 1 < length ys")
  case True
  have "unat (drop_bit part (ys ! t)) < 2 ^ (64 - part)"
    using assms unat_u64_lt [of "ys ! t"]
    by (simp add: unat_drop_bit_div less_mult_imp_div_less flip: power_add)
  moreover have "unat (push_bit (64 - part) (ys ! (t + 1))) = unat (ys ! (t + 1)) mod 2 ^ part * 2 ^ (64 - part)"
    using mod_mult_mult2 [of "unat (ys ! (t + 1))" "2 ^ (64 - part)" "2 ^ part"] assms
    by (simp add: unat_push_bit_mod flip: power_add)
  ultimately show ?thesis
    using True unat_or_dvd [OF _ push_bit_dvd, of "drop_bit part (ys ! t)" "64 - part" "ys ! (t + 1)"]
    by (simp add: shr_word_def or.commute unat_drop_bit_div)
next
  case False
  then show ?thesis
    by (auto simp: shr_word_def unat_drop_bit_div)
qed

lemma shr_words_val:
  "part < 64 \<Longrightarrow> bval (map (shr_word ys part) [0..<length ys]) = bval ys div 2 ^ part"
proof (induction ys)
  case (Cons y ys)
  define Q where "Q = (2 :: nat) ^ part"
  define R where "R = (2 :: nat) ^ (64 - part)"
  have QR: "Q * R = 2 ^ 64"
    using Cons.prems by (simp add: Q_def R_def flip: power_add)
  have "map (shr_word (y # ys) part) [0..<length (y # ys)]
      = shr_word (y # ys) part 0 # map (shr_word ys part) [0..<length ys]"
    by (simp add: upt_conv_Cons map_Suc_upt [symmetric] del: upt_Suc)
      (simp add: shr_word_def)
  moreover have "unat (shr_word (y # ys) part 0) = unat y div Q + bval ys mod Q * R"
  proof (cases ys)
    case (Cons z zs)
    have "bval ys = unat z + Q * (R * bval zs)"
      using QR by (simp add: Cons flip: mult.assoc)
    then have "bval ys mod Q = unat z mod Q"
      by simp
    then show ?thesis
      using shr_word_val [of 0 "y # ys" part] \<open>part < 64\<close> by (simp add: Cons Q_def R_def)
  qed (use shr_word_val [of 0 "y # ys" part] \<open>part < 64\<close> in \<open>simp add: Q_def R_def\<close>)
  moreover have "(unat y + 2 ^ 64 * bval ys) div Q = unat y div Q + R * bval ys"
  proof -
    have "unat y + 2 ^ 64 * bval ys = unat y + Q * (R * bval ys)"
      using QR by (simp flip: mult.assoc)
    moreover have "Q \<noteq> 0"
      by (simp add: Q_def)
    then have "(unat y + Q * (R * bval ys)) div Q = R * bval ys + unat y div Q"
      by (rule div_mult_self2)
    ultimately show ?thesis
      by (simp only: add.commute)
  qed
  moreover have "bval ys mod Q * R + 2 ^ 64 * (bval ys div Q) = R * bval ys"
  proof -
    have "bval ys mod Q * R + Q * R * (bval ys div Q) = R * (bval ys mod Q + bval ys div Q * Q)"
      by (simp only: distrib_left mult.commute mult.left_commute)
    then show ?thesis
      by (simp add: QR)
  qed
  ultimately show ?case
    using Cons by (simp add: Q_def)
qed simp

lemma bval_drop: "bval (drop k ws) = bval ws div 2 ^ (64 * k)"
proof (cases "k \<le> length ws")
  case True
  have "bval ws = bval (take k ws) + 2 ^ (64 * k) * bval (drop k ws)"
    using bval_append [of "take k ws" "drop k ws"] True by simp
  moreover have "bval (take k ws) < 2 ^ (64 * k)"
    using bval_lt [of "take k ws"] True by simp
  ultimately show ?thesis
    by simp
next
  case False
  have "bval ws < 2 ^ (64 * length ws)"
    by (rule bval_lt)
  also have "\<dots> \<le> 2 ^ (64 * k)"
    using False by (intro power_increasing) auto
  finally show ?thesis
    using False by simp
qed

lemma bval_take: "bval (take k ws) = bval ws mod 2 ^ (64 * k)"
proof (cases "k \<le> length ws")
  case True
  have "bval ws = bval (take k ws) + 2 ^ (64 * k) * bval (drop k ws)"
    using bval_append [of "take k ws" "drop k ws"] True by simp
  moreover have "bval (take k ws) < 2 ^ (64 * k)"
    using bval_lt [of "take k ws"] True by simp
  ultimately show ?thesis
    by simp
next
  case False
  have "bval ws < 2 ^ (64 * length ws)"
    by (rule bval_lt)
  also have "\<dots> \<le> 2 ^ (64 * k)"
    using False by (intro power_increasing) auto
  finally show ?thesis
    using False by simp
qed

lemma shr_fold:
  assumes "whole \<le> m" and "m \<le> length ws"
  shows "fold (shr_step ws whole part) [whole..<m] (replicate (length ws - whole) 0)
    = map (shr_word (drop whole ws) part) [0..<m - whole] @ replicate (length ws - m) 0"
  using assms
proof (induction m)
  case (Suc m)
  show ?case
  proof (cases "whole = Suc m")
    case False
    define out where "out = map (shr_word (drop whole ws) part) [0..<m - whole]"
    have m: "whole \<le> m" "m < length ws"
      using Suc.prems False by auto
    have len: "length out = m - whole"
      by (simp add: out_def)
    have more: "Suc (m - whole) < length ws - whole \<longleftrightarrow> Suc m < length ws"
      using m by auto
    have rep: "replicate (length ws - m) (0 :: u64) = 0 # replicate (length ws - Suc m) 0"
      using m by (metis Suc_diff_Suc replicate_Suc)
    have "shr_step ws whole part m (out @ replicate (length ws - m) 0)
        = out @ shr_word (drop whole ws) part (m - whole) # replicate (length ws - Suc m) 0"
      using m more unfolding rep
      by (simp add: shr_step_def Let_def len [symmetric] nth_append list_update_append shr_word_def)
        (auto simp: len add.commute)
    moreover have "[whole..<Suc m] = [whole..<m] @ [m]" "Suc m - whole = Suc (m - whole)"
      using m by auto
    ultimately show ?thesis
      using Suc.IH m by (simp add: out_def)
  qed simp
qed simp

lemma shifted_right_val [big_val]:
  "bval (fst (shifted_right ws bits)) = bval ws div 2 ^ bits"
proof (cases "ws = [] \<or> bits = 0")
  case True
  then show ?thesis by (auto simp: shifted_right_def big_is_zero_def)
next
  case False
  define whole where "whole = bits div 64"
  define part where "part = bits mod 64"
  have bits: "bits = 64 * whole + part" and part: "part < 64"
    by (simp_all add: whole_def part_def)
  have div2: "bval ws div 2 ^ bits = bval (drop whole ws) div 2 ^ part"
    by (simp add: bits bval_drop power_add div_mult2_eq)
  show ?thesis
  proof (cases "length ws \<le> whole")
    case True
    with False div2 show ?thesis
      by (simp add: shifted_right_def big_is_zero_def Let_def whole_def [symmetric] part_def [symmetric])
  next
    case wl: False
    then have "fst (shifted_right ws bits)
        = normalize (map (shr_word (drop whole ws) part) [0..<length (drop whole ws)])"
      using False shr_fold [of whole "length ws" ws part]
      by (simp add: shifted_right_def big_is_zero_def Let_def whole_def [symmetric] part_def [symmetric])
    then show ?thesis
      using shr_words_val [OF part, of "drop whole ws"] by (simp add: bval_normalize div2)
  qed
qed

lemma bnorm_shifted_right [big_wf]: "bnorm ws \<Longrightarrow> bnorm (fst (shifted_right ws bits))"
  by (auto simp: shifted_right_def Let_def bnorm_normalize)

text \<open>The out-parameter of \<open>shifted_right\<close> tells whether the shift lost a set bit.\<close>

lemma shifted_right_discarded [big_val]:
  "snd (shifted_right ws bits) \<longleftrightarrow> bval ws mod 2 ^ bits \<noteq> 0"
proof (cases "ws = [] \<or> bits = 0")
  case True
  then show ?thesis by (auto simp: shifted_right_def big_is_zero_def)
next
  case False
  define whole where "whole = bits div 64"
  define part where "part = bits mod 64"
  have bits: "bits = 64 * whole + part" and part: "part < 64"
    by (simp_all add: whole_def part_def)
  have low: "(\<exists>w \<in> set (take (min whole (length ws)) ws). w \<noteq> 0) \<longleftrightarrow> bval ws mod 2 ^ (64 * whole) \<noteq> 0"
    using bval_zero_words [of "take whole ws"] bval_take [of whole ws]
    by (simp add: min_def)
  have high: "(part \<noteq> 0 \<and> whole < length ws \<and> ws ! whole AND (push_bit part 1 - 1) \<noteq> 0)
      \<longleftrightarrow> bval ws div 2 ^ (64 * whole) mod 2 ^ part \<noteq> 0"
  proof (cases "whole < length ws")
    case True
    obtain w zs where d: "drop whole ws = w # zs"
      using True by (metis Cons_nth_drop_Suc)
    then have w: "ws ! whole = w"
      using True by (metis hd_drop_conv_nth list.sel(1))
    have "bval (drop whole ws) = unat w + 2 ^ part * (2 ^ (64 - part) * bval zs)"
      using part by (simp add: d flip: mult.assoc power_add)
    then have "bval ws div 2 ^ (64 * whole) mod 2 ^ part = unat w mod 2 ^ part"
      by (simp flip: bval_drop)
    then show ?thesis
      using True w by (cases "part = 0") (simp_all add: unat_and_low_mask [symmetric] unat_eq_zero)
  next
    case wl: False
    then show ?thesis
      by (simp flip: bval_drop)
  qed
  have "bval ws mod 2 ^ bits = 2 ^ (64 * whole) * (bval ws div 2 ^ (64 * whole) mod 2 ^ part)
      + bval ws mod 2 ^ (64 * whole)"
    by (simp only: bits power_add mod_mult2_eq)
  moreover have "snd (shifted_right ws bits) \<longleftrightarrow>
      (\<exists>w \<in> set (take (min whole (length ws)) ws). w \<noteq> 0) \<or>
      (part \<noteq> 0 \<and> whole < length ws \<and> ws ! whole AND (push_bit part 1 - 1) \<noteq> 0)"
    using False
    by (simp only: shifted_right_def big_is_zero_def Let_def whole_def [symmetric] part_def [symmetric]
        if_False split: if_split) simp
  ultimately show ?thesis
    unfolding low high by auto
qed

section \<open>Multiplication\<close>

lemma mul_step_inv:
  fixes l :: u64
  assumes j: "j < length rhs" and len: "i + length rhs \<le> length out" and c: "unat carry < 2 ^ 64"
    and step: "mul_step l rhs i j (out, carry) = (out', carry')"
  shows "length out' = length out" and "unat carry' < 2 ^ 64"
    and "bval out' + 2 ^ (64 * (i + Suc j)) * unat carry'
       = bval out + 2 ^ (64 * (i + j)) * (unat l * unat (rhs ! j) + unat carry)"
    and "\<And>k. i + length rhs \<le> k \<Longrightarrow> out' ! k = out ! k"
proof -
  define k where "k = i + j"
  define p where "p = ucast l * ucast (rhs ! j) + ucast (out ! k) + carry"
  have "unat l * unat (rhs ! j) \<le> (2 ^ 64 - 1) * (2 ^ 64 - 1)"
    using unat_u64_lt [of l] unat_u64_lt [of "rhs ! j"] by (intro mult_le_mono) auto
  then have p: "unat p = unat l * unat (rhs ! j) + unat (out ! k) + unat carry"
    using c unat_u64_lt [of "out ! k"] by (simp add: p_def unat_add_u128 unat_mult_u128)
  have out': "out' = out[k := ucast p]" and carry': "carry' = drop_bit 64 p"
    using step by (auto simp: mul_step_def Let_def p_def k_def)
  have k: "k < length out"
    using j len by (simp add: k_def)
  show "length out' = length out"
    by (simp add: out')
  show "unat carry' < 2 ^ 64"
    using unat_lt_exp [of p] by (simp add: carry' unat_drop_bit_div less_mult_imp_div_less)
  show "bval out' + 2 ^ (64 * (i + Suc j)) * unat carry'
       = bval out + 2 ^ (64 * (i + j)) * (unat l * unat (rhs ! j) + unat carry)"
  proof -
    have "bval out' + 2 ^ (64 * k) * unat (out ! k) = bval out + 2 ^ (64 * k) * unat (ucast p :: u64)"
      unfolding out' by (rule bval_update [OF k])
    then have "bval out' + 2 ^ (64 * Suc k) * unat carry' + 2 ^ (64 * k) * unat (out ! k)
        = bval out + 2 ^ (64 * k) * (unat (ucast p :: u64) + 2 ^ 64 * unat (drop_bit 64 p))"
      by (simp add: carry' algebra_simps power_add)
    also have "\<dots> = bval out + 2 ^ (64 * k) * (unat l * unat (rhs ! j) + unat carry)
        + 2 ^ (64 * k) * unat (out ! k)"
      unfolding split_u128 p by (simp add: algebra_simps)
    finally show ?thesis
      by (simp add: k_def)
  qed
  show "\<And>k. i + length rhs \<le> k \<Longrightarrow> out' ! k = out ! k"
    using j by (auto simp: out' k_def)
qed

lemma mul_inner:
  assumes len: "i + length rhs \<le> length out" and m: "m \<le> length rhs"
    and fold: "fold (mul_step l rhs i) [0..<m] (out, 0) = (out', carry')"
  shows "length out' = length out \<and> unat carry' < 2 ^ 64 \<and>
    bval out' + 2 ^ (64 * (i + m)) * unat carry' = bval out + 2 ^ (64 * i) * (unat l * bval (take m rhs)) \<and>
    (\<forall>k. i + length rhs \<le> k \<longrightarrow> out' ! k = out ! k)"
  using m fold
proof (induction m arbitrary: out' carry')
  case (Suc m)
  obtain o1 c1 where f: "fold (mul_step l rhs i) [0..<m] (out, 0) = (o1, c1)"
    by fastforce
  have IH: "length o1 = length out" "unat c1 < 2 ^ 64"
    "bval o1 + 2 ^ (64 * (i + m)) * unat c1 = bval out + 2 ^ (64 * i) * (unat l * bval (take m rhs))"
    "\<forall>k. i + length rhs \<le> k \<longrightarrow> o1 ! k = out ! k"
    using Suc.IH [OF _ f] Suc.prems by auto
  have step: "mul_step l rhs i m (o1, c1) = (out', carry')"
    using Suc.prems f by simp
  have m: "m < length rhs"
    using Suc.prems by simp
  have len1: "i + length rhs \<le> length o1"
    using len IH by simp
  note S = mul_step_inv [OF m len1 IH(2) step]
  have "bval out' + 2 ^ (64 * (i + Suc m)) * unat carry'
      = (bval o1 + 2 ^ (64 * (i + m)) * unat c1) + 2 ^ (64 * (i + m)) * (unat l * unat (rhs ! m))"
    unfolding S(3) by (simp add: algebra_simps)
  also have "\<dots> = bval out + 2 ^ (64 * i) * (unat l * bval (take (Suc m) rhs))"
    unfolding IH(3) bval_take_Suc [OF m] by (simp add: algebra_simps power_add)
  finally show ?case
    using S(1,2,4) IH(1,4) by simp
qed simp

lemma carry_loop_zero_word:
  assumes "index < length out" and "out ! index = 0" and "unat carry < 2 ^ 64"
  shows "carry_loop out index carry = out[index := ucast carry]"
proof (cases "carry = 0")
  case True
  then show ?thesis
    using assms by (simp add: carry_loop.simps) (metis list_update_id)
next
  case False
  have "drop_bit 64 carry = 0"
    using assms(3) by (simp add: word_unat_eq_iff unat_drop_bit_div)
  then show ?thesis
    using assms False by (subst carry_loop.simps) (simp add: carry_loop.simps [of _ _ 0])
qed

lemma mul_row_inv:
  assumes i: "i < length lhs" and len: "length out = length lhs + length rhs"
    and val: "bval out = bval (take i lhs) * bval rhs"
    and zero: "\<forall>k. i + length rhs \<le> k \<and> k < length out \<longrightarrow> out ! k = 0"
  defines "out2 \<equiv> mul_row lhs rhs i out"
  shows "length out2 = length out \<and> bval out2 = bval (take (Suc i) lhs) * bval rhs \<and>
    (\<forall>k. Suc i + length rhs \<le> k \<and> k < length out2 \<longrightarrow> out2 ! k = 0)"
proof -
  obtain o1 c where f: "fold (mul_step (lhs ! i) rhs i) [0..<length rhs] (out, 0) = (o1, c)"
    by fastforce
  have S: "length o1 = length out" "unat c < 2 ^ 64"
    "bval o1 + 2 ^ (64 * (i + length rhs)) * unat c = bval out + 2 ^ (64 * i) * (unat (lhs ! i) * bval rhs)"
    "\<forall>k. i + length rhs \<le> k \<longrightarrow> o1 ! k = out ! k"
    using mul_inner [OF _ order_refl f] i len by auto
  define k where "k = i + length rhs"
  have k: "k < length o1" and ok: "o1 ! k = 0"
    using i len S(1,4) zero by (auto simp: k_def)
  have out2: "out2 = o1[k := ucast c]"
    using carry_loop_zero_word [OF k ok S(2)] by (simp add: out2_def mul_row_def f k_def)
  have "bval out2 = bval o1 + 2 ^ (64 * k) * unat c"
    using bval_update [OF k, of "ucast c"] by (simp add: ok out2 unat_carry_low [OF S(2)])
  also have "\<dots> = bval (take (Suc i) lhs) * bval rhs"
    using S(3) by (simp add: k_def val bval_take_Suc [OF i] algebra_simps)
  finally show ?thesis
    using S(1,4) zero by (auto simp: out2 k_def nth_list_update)
qed

lemma big_multiply_val [big_val]: "bval (big_multiply lhs rhs) = bval lhs * bval rhs"
proof (cases "lhs = [] \<or> rhs = []")
  case True
  then show ?thesis by (auto simp: big_multiply_def big_is_zero_def)
next
  case False
  let ?f = "\<lambda>i. fold (mul_row lhs rhs) [0..<i] (replicate (length lhs + length rhs) 0)"
  have "length (?f i) = length lhs + length rhs \<and> bval (?f i) = bval (take i lhs) * bval rhs \<and>
      (\<forall>k. i + length rhs \<le> k \<and> k < length (?f i) \<longrightarrow> ?f i ! k = 0)" if "i \<le> length lhs" for i
    using that
  proof (induction i)
    case (Suc i)
    then show ?case
      using mul_row_inv [of i lhs "?f i" rhs] by simp
  qed simp
  from this [of "length lhs"] False show ?thesis
    by (simp add: big_multiply_def big_is_zero_def bval_normalize)
qed

lemma bnorm_big_multiply [big_wf]: "bnorm (big_multiply lhs rhs)"
  by (simp add: big_multiply_def bnorm_normalize)

section \<open>Division\<close>

lemma set_bit_big_val:
  assumes "2 ^ Suc index dvd bval ws"
  shows "bval (set_bit_big ws index) = bval ws + 2 ^ index"
proof -
  define word where "word = index div 64"
  define ws' where "ws' = (if length ws \<le> word then resize ws (word + 1) else ws)"
  define r where "r = index mod 64"
  have r: "r < 64" and index: "index = 64 * word + r"
    by (simp_all add: r_def word_def)
  have len: "word < length ws'" and val: "bval ws' = bval ws"
    by (auto simp: ws'_def)
  have "bval ws' div 2 ^ (64 * word) = bval (drop word ws')"
    by (simp add: bval_drop)
  also have "\<dots> = unat (ws' ! word) + 2 ^ 64 * bval (drop (Suc word) ws')"
    using len by (metis Cons_nth_drop_Suc bval.simps(2))
  finally have q: "bval ws' div 2 ^ (64 * word) = unat (ws' ! word) + 2 ^ 64 * bval (drop (Suc word) ws')" .
  have "2 ^ Suc r dvd bval ws' div 2 ^ (64 * word)"
    using assms unfolding val index
    by (metis add_Suc_right div_dvd_iff_mult dvd_div_iff_mult dvd_mult_left power_add
        power_not_zero zero_neq_numeral mult.commute)
  moreover have "(2 :: nat) ^ Suc r dvd 2 ^ 64"
    using r by (intro le_imp_power_dvd) simp
  ultimately have dvd: "2 ^ Suc r dvd unat (ws' ! word)"
    unfolding q by (metis dvd_add_left_iff dvd_mult2)
  have "unat (2 ^ r :: u64) = 2 ^ r"
    using r by (simp add: unat_exp2)
  then have or: "unat (ws' ! word OR 2 ^ r) = unat (ws' ! word) + 2 ^ r"
    using unat_or_dvd [of "2 ^ r" "Suc r" "ws' ! word"] dvd by simp
  have "bval (ws'[word := ws' ! word OR 2 ^ r]) = bval ws' + 2 ^ (64 * word) * 2 ^ r"
    using bval_update [OF len, of "ws' ! word OR 2 ^ r"] by (simp add: or algebra_simps)
  moreover have "set_bit_big ws index = ws'[word := ws' ! word OR 2 ^ r]"
    by (simp add: set_bit_big_def Let_def ws'_def word_def r_def)
  moreover have "(2 :: nat) ^ index = 2 ^ (64 * word) * 2 ^ r"
    by (subst index) (simp only: power_add)
  ultimately show ?thesis
    by (simp only: val)
qed

lemma divmod_loop_val:
  assumes "bnorm num" and "bnorm sh" and "n \<noteq> 0 \<longrightarrow> bval sh = d * 2 ^ (n - 1)"
    and "bval num < d * 2 ^ n" and "2 ^ n dvd bval quot"
    and "divmod_loop n num sh quot = (q, r)"
  shows "bval q * d + bval r = bval quot * d + bval num \<and> bval r < d \<and> bnorm r"
  using assms
proof (induction n num sh quot rule: divmod_loop.induct)
  case (2 index num sh quot)
  define ge where "ge = (0 \<le> big_compare num sh)"
  define num' where "num' = (if ge then big_subtract num sh else num)"
  define quot' where "quot' = (if ge then set_bit_big quot index else quot)"
  define sh' where "sh' = (if index \<noteq> 0 then shift_right_one sh else sh)"
  have sh: "bval sh = d * 2 ^ index"
    using "2.prems" by simp
  have ge: "ge \<longleftrightarrow> bval sh \<le> bval num"
    using "2.prems" by (simp only: ge_def big_compare_cases)
  have n': "bval num' = (if ge then bval num - bval sh else bval num)"
    by (simp add: num'_def ge big_subtract_val)
  have q': "bval quot' = bval quot + (if ge then 2 ^ index else 0)"
    using "2.prems" by (simp add: quot'_def set_bit_big_val)
  have "bval q * d + bval r = bval quot' * d + bval num' \<and> bval r < d \<and> bnorm r"
  proof (rule "2.IH" [OF ge_def num'_def quot'_def sh'_def])
    show "bnorm num'" "bnorm sh'"
      using "2.prems" by (auto simp: num'_def sh'_def big_wf)
    show "index \<noteq> 0 \<longrightarrow> bval sh' = d * 2 ^ (index - 1)"
      using sh by (cases index) (auto simp: sh'_def shift_right_one_val)
    show "bval num' < d * 2 ^ index"
      using "2.prems" sh ge by (auto simp: n')
    show "2 ^ index dvd bval quot'"
      using "2.prems" by (auto simp: q' dvd_add intro: dvd_trans [OF le_imp_power_dvd])
    show "divmod_loop index num' sh' quot' = (q, r)"
      using "2.prems" by (simp add: Let_def ge_def num'_def quot'_def sh'_def)
  qed
  moreover have "bval quot' * d + bval num' = bval quot * d + bval num"
    using ge sh by (auto simp: q' n' algebra_simps)
  ultimately show ?case
    by simp
qed simp

lemma big_divmod_val:
  assumes "bnorm num" and "bnorm den" and "bval den \<noteq> 0" and "big_divmod num den = (q, r)"
  shows "bval q = bval num div bval den" and "bval r = bval num mod bval den"
    and "bnorm q" and "bnorm r"
proof -
  have "bval q = bval num div bval den \<and> bval r = bval num mod bval den \<and> bnorm q \<and> bnorm r"
  proof (cases "bval num < bval den")
    case True
    then have "q = []" "r = num"
      using assms by (auto simp: big_divmod_def big_compare_cases)
    with True assms show ?thesis by simp
  next
    case False
    define shift where "shift = big_bit_width num - big_bit_width den"
    obtain q0 r0 where loop: "divmod_loop (shift + 1) num (shifted_left den shift) [] = (q0, r0)"
      by fastforce
    have qr: "q = normalize q0" "r = normalize r0"
      using assms False loop
      by (simp_all add: big_divmod_def big_compare_cases big_is_zero_iff Let_def shift_def [symmetric]
          del: divmod_loop.simps)
    have "den \<noteq> []" "num \<noteq> []"
      using assms False by auto
    note bn = big_bit_width_bounds(1) [OF assms(1)] big_bit_width_bounds(2) [OF assms(1) \<open>num \<noteq> []\<close>]
    note bd = big_bit_width_bounds(1) [OF assms(2)] big_bit_width_bounds(2) [OF assms(2) \<open>den \<noteq> []\<close>]
    have "big_bit_width den \<le> big_bit_width num"
    proof (rule ccontr)
      assume "\<not> ?thesis"
      then have "(2 :: nat) ^ big_bit_width num \<le> 2 ^ (big_bit_width den - 1)"
        by (intro power_increasing) auto
      with bn(1) bd(2) False show False by linarith
    qed
    then have "big_bit_width num = big_bit_width den - 1 + (shift + 1)"
      using bd(2) by (simp add: shift_def)
    then have "bval num < 2 ^ (big_bit_width den - 1) * 2 ^ (shift + 1)"
      using bn(1) by (simp add: power_add)
    also have "\<dots> \<le> bval den * 2 ^ (shift + 1)"
      using bd(2) by (intro mult_le_mono1) simp
    finally have lt: "bval num < bval den * 2 ^ (shift + 1)" .
    have R: "bval q0 * bval den + bval r0 = bval num \<and> bval r0 < bval den \<and> bnorm r0"
      using divmod_loop_val [OF assms(1) _ _ lt _ loop] assms(2) by (simp add: big_val big_wf)
    then have "bval q0 = bval num div bval den" "bval r0 = bval num mod bval den"
      by (metis add.commute div_mult_self3 mod_mult_self3 assms(3) add_0_right div_less mod_less)+
    then show ?thesis
      by (simp add: qr big_val big_wf)
  qed
  then show "bval q = bval num div bval den" "bval r = bval num mod bval den" "bnorm q" "bnorm r"
    by simp_all
qed

lemma divide_small_loop_val:
  assumes "unat r < unat d" and "unat d < 2 ^ 32"
    and "divide_small_loop us d r = (qs, r')"
  shows "length qs = length us \<and> bval (rev qs) * unat d + unat r' = unat r * 2 ^ (64 * length us) + bval (rev us)
    \<and> unat r' < unat d"
  using assms
proof (induction us arbitrary: r qs r')
  case (Cons w us)
  define cur where "cur = push_bit 64 r OR ucast w"
  obtain qs1 r1 where rec: "divide_small_loop us d (cur mod d) = (qs1, r1)"
    by fastforce
  have cur: "unat cur = unat r * 2 ^ 64 + unat w"
    using unat_or_dvd [of "ucast w" 64 "push_bit 64 r"] push_bit_dvd [of 64 r] unat_u64_lt [of w] Cons.prems
    by (simp add: cur_def unat_push_bit_mod)
  have m: "unat (cur mod d) = unat cur mod unat d" and dv: "unat (cur div d) = unat cur div unat d"
    by (simp_all add: unat_mod_distrib unat_div_distrib)
  have IH: "length qs1 = length us"
    "bval (rev qs1) * unat d + unat r1 = unat (cur mod d) * 2 ^ (64 * length us) + bval (rev us)"
    "unat r1 < unat d"
    using Cons.IH [OF _ Cons.prems(2) rec] Cons.prems(1) by (simp_all add: m)
  have "unat cur < unat d * 2 ^ 64"
  proof -
    have "(unat r + 1) * 2 ^ 64 \<le> unat d * 2 ^ 64"
      using Cons.prems(1) by (intro mult_le_mono1) simp
    then show ?thesis
      using unat_u64_lt [of w] by (simp add: cur)
  qed
  then have "unat (cur div d) < 2 ^ 64"
    by (simp add: dv less_mult_imp_div_less mult.commute)
  then have q: "unat (ucast (cur div d) :: u64) = unat cur div unat d"
    by (simp add: unat_carry_low dv)
  have qs: "qs = ucast (cur div d) # qs1" "r' = r1"
    using Cons.prems(3) rec by (simp_all add: Let_def cur_def)
  define P where "P = (2 :: nat) ^ (64 * length us)"
  have "bval (rev qs) * unat d + unat r'
      = (bval (rev qs1) * unat d + unat r1) + P * (unat cur div unat d * unat d)"
    by (simp add: qs bval_snoc IH(1) q P_def algebra_simps)
  also have "\<dots> = bval (rev us) + (P * (unat cur mod unat d) + P * (unat cur div unat d * unat d))"
    unfolding IH(2) by (simp add: P_def m mult.commute)
  also have "\<dots> = bval (rev us) + P * (unat cur mod unat d + unat cur div unat d * unat d)"
    by (simp only: distrib_left)
  also have "\<dots> = bval (rev us) + P * unat cur"
    by simp
  also have "\<dots> = unat r * 2 ^ (64 * length (w # us)) + bval (rev (w # us))"
    by (simp add: bval_snoc cur P_def algebra_simps power_add)
  finally show ?case
    using IH(1,3) by (simp add: qs)
qed simp

lemma divide_small_val:
  assumes "d \<noteq> 0" and "divide_small ws d = (q, r)"
  shows "bval q = bval ws div unat d" and "unat r = bval ws mod unat d" and "bnorm q"
proof -
  obtain qs r1 where loop: "divide_small_loop (rev ws) (ucast d) 0 = (qs, r1)"
    by fastforce
  have "0 < unat d"
    using assms(1) by (simp add: unat_gt_0)
  then have L: "bval (rev qs) * unat d + unat r1 = bval ws" "unat r1 < unat d"
    using divide_small_loop_val [OF _ _ loop] unat_u32_lt [of d] by simp_all
  have q: "q = normalize (rev qs)" and r: "r = ucast r1"
    using assms(2) loop by (simp_all add: divide_small_def)
  have "unat r = unat r1"
    using L(2) unat_u32_lt [of d] by (simp add: r unat_ucast_down)
  moreover have "bval (rev qs) = bval ws div unat d" "unat r1 = bval ws mod unat d"
    using L by (metis add.commute div_mult_self3 add_0_right div_less less_nat_zero_code,
        metis L mod_mult_self3 mod_less)
  ultimately show "bval q = bval ws div unat d" "unat r = bval ws mod unat d" "bnorm q"
    by (simp_all add: q big_val big_wf)
qed

section \<open>Properties\<close>

text \<open>
  addition, multiplication and subtraction of normalized multi-word integers are those of
  the natural numbers, at any length, and keep the representation normalized (subtraction
  under the precondition the callers establish by comparing first).
\<close>

theorem biguint_arith:
  assumes "bnorm x" "bnorm y"
  shows "bval (big_add x y) = bval x + bval y \<and> bnorm (big_add x y)
    \<and> bval (big_multiply x y) = bval x * bval y \<and> bnorm (big_multiply x y)
    \<and> (bval y \<le> bval x \<longrightarrow> bval (big_subtract x y) = bval x - bval y) \<and> bnorm (big_subtract x y)"
  using assms
  by (simp add: big_add_val bnorm_big_add big_multiply_val bnorm_big_multiply big_subtract_val bnorm_big_subtract)

theorem biguint_arith_witness:
  "bval (big_multiply [18446744073709551615, 1] [18446744073709551615]) = 36893488147419103231 * 18446744073709551615"
  using biguint_arith [of "[18446744073709551615, 1]" "[18446744073709551615]"] by (simp add: bnorm_def)

text \<open>
  C37: the shift-and-subtract division returns the quotient and the remainder of the natural
  numbers, both normalized, for every nonzero divisor.
\<close>

theorem biguint_divmod:
  assumes "bnorm num" "bnorm den" "bval den \<noteq> 0"
  shows "bval num = bval (fst (big_divmod num den)) * bval den + bval (snd (big_divmod num den))
    \<and> bval (snd (big_divmod num den)) < bval den
    \<and> bnorm (fst (big_divmod num den)) \<and> bnorm (snd (big_divmod num den))"
  using big_divmod_val [OF assms, of "fst (big_divmod num den)" "snd (big_divmod num den)"] assms(3) by simp

theorem biguint_divmod_witness:
  "(1000 :: nat) = bval (fst (big_divmod [1000] [7])) * 7 + bval (snd (big_divmod [1000] [7]))"
  using biguint_divmod [of "[1000]" "[7]"] by (simp add: bnorm_def)

text \<open>
  comparison of normalized integers is the order of the numbers they denote, and equal
  numbers have equal representations.
\<close>

theorem biguint_order:
  assumes "bnorm x" "bnorm y"
  shows "(big_compare x y < 0 \<longleftrightarrow> bval x < bval y) \<and> (0 < big_compare x y \<longleftrightarrow> bval y < bval x)
    \<and> (big_compare x y = 0 \<longleftrightarrow> x = y)"
  using assms big_compare_cases [OF assms] bval_inj [OF assms] by auto

theorem biguint_order_witness:
  "big_compare [0, 1] [18446744073709551615] > 0"
  using biguint_order [of "[0, 1]" "[18446744073709551615]"] by (simp add: bnorm_def)

text \<open>
  shifting left multiplies by a power of two; shifting right divides by it, and reports
  exactly whether a nonzero bit was shifted out.
\<close>

theorem biguint_shift:
  "bval (shifted_left x k) = bval x * 2 ^ k \<and> bval (fst (shifted_right x k)) = bval x div 2 ^ k
   \<and> (snd (shifted_right x k) \<longleftrightarrow> bval x mod 2 ^ k \<noteq> 0)"
  by (simp add: shifted_left_val shifted_right_val shifted_right_discarded)

end
