(* ===== verification/Float_Format.thy ===== *)
theory Float_Format
  imports Big_UInt_Correct Complex_Main
begin

text \<open>
  Encodings of the five binary floating-point formats (\<open>numeric/floating_point.h\<close> and the
  format-level half of \<open>numeric/floating_point.cpp\<close>): descriptors, raw bits and fields,
  decoding into sign, significand and exponent, and the constructors of the special values.
\<close>

section \<open>Data\<close>

datatype float_format =
  FmtInvalid | IEEEBinary16 | IEEEBinary32 | IEEEBinary64 | X87Extended80 | IEEEBinary128

record format_descriptor =
  storage_bits :: nat
  precision :: nat
  significand_storage_bits :: nat
  exponent_bits :: nat
  exponent_bias :: int
  explicit_integer_bit :: bool

definition min_normal_exponent :: "format_descriptor \<Rightarrow> int" where
  "min_normal_exponent fmt = 1 - exponent_bias fmt"

definition max_normal_exponent :: "format_descriptor \<Rightarrow> int" where
  "max_normal_exponent fmt = (push_bit (exponent_bits fmt) 1 - 2) - exponent_bias fmt"

record float_value =
  semantics :: float_format
  fv_low_bits :: u64
  fv_high_bits :: u64

text \<open>A default-constructed \<open>FloatValue\<close>.\<close>

definition invalid_value :: float_value where
  "invalid_value = \<lparr>semantics = FmtInvalid, fv_low_bits = 0, fv_high_bits = 0\<rparr>"

datatype float_class =
  ClsInvalid | ClsZero | ClsSubnormal | ClsNormal | ClsInfinity | ClsQuietNaN | ClsSignalingNaN

datatype rounding_mode =
  NearestTiesToEven | NearestTiesAway | TowardZero | TowardPositive | TowardNegative

datatype tininess_mode = BeforeRounding | AfterRounding

record float_control =
  rounding :: rounding_mode
  tininess :: tininess_mode

definition default_control :: float_control where
  "default_control = \<lparr>rounding = NearestTiesToEven, tininess = AfterRounding\<rparr>"

datatype status_flag = StInvalid | StDivideByZero | StOverflow | StUnderflow | StInexact

fun flag_bits :: "status_flag \<Rightarrow> u8" where
  "flag_bits StInvalid = push_bit 0 1"
| "flag_bits StDivideByZero = push_bit 1 1"
| "flag_bits StOverflow = push_bit 2 1"
| "flag_bits StUnderflow = push_bit 3 1"
| "flag_bits StInexact = push_bit 4 1"

type_synonym float_status = u8

definition status_has :: "float_status \<Rightarrow> status_flag \<Rightarrow> bool" where
  "status_has bits flag \<longleftrightarrow> bits AND flag_bits flag \<noteq> 0"

definition status_set :: "float_status \<Rightarrow> status_flag \<Rightarrow> float_status" where
  "status_set bits flag = bits OR flag_bits flag"

definition status_merge :: "float_status \<Rightarrow> float_status \<Rightarrow> float_status" where
  "status_merge bits other = bits OR other"

datatype float_error =
  NoError | InvalidFormat | InvalidEncoding | FormatMismatch | InvalidIntegerWidth | IntegerOutOfRange

record float_result =
  fr_value :: float_value
  fr_status :: float_status
  fr_error :: float_error

definition value_valid :: "float_value \<Rightarrow> bool" where
  "value_valid v \<longleftrightarrow> semantics v \<noteq> FmtInvalid"

definition has_value :: "float_result \<Rightarrow> bool" where
  "has_value r \<longleftrightarrow> fr_error r = NoError \<and> value_valid (fr_value r)"

section \<open>Formats and fields\<close>

definition descriptor :: "float_format \<Rightarrow> format_descriptor option" where
  "descriptor format = (case format of
     FmtInvalid \<Rightarrow> None
   | IEEEBinary16 \<Rightarrow> Some \<lparr>storage_bits = 16, precision = 11, significand_storage_bits = 10,
       exponent_bits = 5, exponent_bias = 15, explicit_integer_bit = False\<rparr>
   | IEEEBinary32 \<Rightarrow> Some \<lparr>storage_bits = 32, precision = 24, significand_storage_bits = 23,
       exponent_bits = 8, exponent_bias = 127, explicit_integer_bit = False\<rparr>
   | IEEEBinary64 \<Rightarrow> Some \<lparr>storage_bits = 64, precision = 53, significand_storage_bits = 52,
       exponent_bits = 11, exponent_bias = 1023, explicit_integer_bit = False\<rparr>
   | X87Extended80 \<Rightarrow> Some \<lparr>storage_bits = 80, precision = 64, significand_storage_bits = 64,
       exponent_bits = 15, exponent_bias = 16383, explicit_integer_bit = True\<rparr>
   | IEEEBinary128 \<Rightarrow> Some \<lparr>storage_bits = 128, precision = 113, significand_storage_bits = 112,
       exponent_bits = 15, exponent_bias = 16383, explicit_integer_bit = False\<rparr>)"

definition low_mask :: "nat \<Rightarrow> u128" where
  "low_mask bits = (if bits = 0 then 0 else if 128 \<le> bits then NOT 0 else push_bit bits 1 - 1)"

definition raw_bits :: "float_value \<Rightarrow> u128" where
  "raw_bits v = ucast (fv_low_bits v) OR push_bit 64 (ucast (fv_high_bits v))"

definition from_raw :: "float_format \<Rightarrow> u128 \<Rightarrow> float_value" where
  "from_raw format raw =
     (case descriptor format of
        None \<Rightarrow> invalid_value
      | Some fmt \<Rightarrow>
          let raw' = (if storage_bits fmt < 128 then raw AND low_mask (storage_bits fmt) else raw)
          in \<lparr>semantics = format, fv_low_bits = ucast raw', fv_high_bits = ucast (drop_bit 64 raw')\<rparr>)"

definition exponent_mask :: "format_descriptor \<Rightarrow> u128" where
  "exponent_mask fmt = low_mask (exponent_bits fmt)"

definition exponent_field :: "float_value \<Rightarrow> format_descriptor \<Rightarrow> u128" where
  "exponent_field v fmt = drop_bit (significand_storage_bits fmt) (raw_bits v) AND exponent_mask fmt"

definition significand_field :: "float_value \<Rightarrow> format_descriptor \<Rightarrow> u128" where
  "significand_field v fmt = raw_bits v AND low_mask (significand_storage_bits fmt)"

definition sign_field :: "float_value \<Rightarrow> format_descriptor \<Rightarrow> bool" where
  "sign_field v fmt \<longleftrightarrow> drop_bit (storage_bits fmt - 1) (raw_bits v) AND 1 \<noteq> 0"

definition sign_bits :: "bool \<Rightarrow> format_descriptor \<Rightarrow> u128" where
  "sign_bits negative fmt = (if negative then push_bit (storage_bits fmt - 1) 1 else 0)"

definition value_bit_width :: "float_value \<Rightarrow> nat" where
  "value_bit_width v = (case descriptor (semantics v) of None \<Rightarrow> 0 | Some fmt \<Rightarrow> storage_bits fmt)"

definition canonical :: "float_value \<Rightarrow> bool" where
  "canonical v =
     (case descriptor (semantics v) of
        None \<Rightarrow> False
      | Some fmt \<Rightarrow>
          if storage_bits fmt \<le> 64
          then fv_high_bits v = 0 \<and>
               (storage_bits fmt = 64 \<or> drop_bit (storage_bits fmt) (fv_low_bits v) = 0)
          else let high_width = storage_bits fmt - 64
               in high_width = 64 \<or> drop_bit high_width (fv_high_bits v) = 0)"

section \<open>Decoding\<close>

record decoded_float =
  classification :: float_class
  negative :: bool
  significand :: biguint
  payload :: biguint
  exponent :: int

definition decoded_default :: decoded_float where
  "decoded_default =
     \<lparr>classification = ClsInvalid, negative = False, significand = [], payload = [], exponent = 0\<rparr>"

definition decode_fields :: "format_descriptor \<Rightarrow> bool \<Rightarrow> u128 \<Rightarrow> u128 \<Rightarrow> decoded_float" where
  "decode_fields fmt neg expo sig =
     (let out = decoded_default\<lparr>negative := neg\<rparr>;
          max_exponent = exponent_mask fmt;
          integer_bit = (if explicit_integer_bit fmt then push_bit (precision fmt - 1) 1 else 0);
          fraction_mask = (if explicit_integer_bit fmt then integer_bit - 1
                           else low_mask (significand_storage_bits fmt))
      in if expo = max_exponent then
           (if explicit_integer_bit fmt \<and> sig AND integer_bit = 0 then out
            else let fraction = sig AND fraction_mask
                 in if fraction = 0 then out\<lparr>classification := ClsInfinity\<rparr>
                    else let quiet_bit = push_bit (if explicit_integer_bit fmt then precision fmt - 2
                                                   else significand_storage_bits fmt - 1) 1
                         in out\<lparr>classification := (if fraction AND quiet_bit \<noteq> 0 then ClsQuietNaN
                                                   else ClsSignalingNaN),
                                payload := big_of_u128 (fraction AND NOT quiet_bit)\<rparr>)
         else if expo = 0 then
           (if sig = 0 then out\<lparr>classification := ClsZero\<rparr>
            else out\<lparr>classification := (if explicit_integer_bit fmt \<and> sig AND integer_bit \<noteq> 0
                                       then ClsNormal else ClsSubnormal),
                     significand := big_of_u128 sig,
                     exponent := min_normal_exponent fmt - (int (precision fmt) - 1)\<rparr>)
         else if explicit_integer_bit fmt \<and> sig AND integer_bit = 0 then out
         else let full_significand = (if explicit_integer_bit fmt then sig
                                      else sig OR push_bit (precision fmt - 1) 1);
                  unbiased = int (unat expo) - exponent_bias fmt
              in out\<lparr>classification := ClsNormal,
                     significand := big_of_u128 full_significand,
                     exponent := unbiased - (int (precision fmt) - 1)\<rparr>)"

definition decode :: "float_value \<Rightarrow> decoded_float" where
  "decode v =
     (case descriptor (semantics v) of
        None \<Rightarrow> decoded_default
      | Some fmt \<Rightarrow>
          if \<not> canonical v then decoded_default
          else decode_fields fmt (sign_field v fmt) (exponent_field v fmt) (significand_field v fmt))"

section \<open>Special values\<close>

definition zero :: "float_format \<Rightarrow> bool \<Rightarrow> float_value" where
  "zero format neg =
     (case descriptor format of
        None \<Rightarrow> invalid_value
      | Some fmt \<Rightarrow> from_raw format (sign_bits neg fmt))"

definition infinity :: "float_format \<Rightarrow> bool \<Rightarrow> float_value" where
  "infinity format neg =
     (case descriptor format of
        None \<Rightarrow> invalid_value
      | Some fmt \<Rightarrow>
          let sig = (if explicit_integer_bit fmt then push_bit (precision fmt - 1) 1 else 0)
          in from_raw format
               (sign_bits neg fmt OR push_bit (significand_storage_bits fmt) (exponent_mask fmt) OR sig))"

definition maximum_finite :: "float_format \<Rightarrow> bool \<Rightarrow> float_value" where
  "maximum_finite format neg =
     (case descriptor format of
        None \<Rightarrow> invalid_value
      | Some fmt \<Rightarrow>
          let expo = exponent_mask fmt - 1;
              sig = low_mask (significand_storage_bits fmt)
          in from_raw format
               (sign_bits neg fmt OR push_bit (significand_storage_bits fmt) expo OR sig))"

definition minimum_subnormal :: "float_format \<Rightarrow> bool \<Rightarrow> float_value" where
  "minimum_subnormal format neg =
     (case descriptor format of
        None \<Rightarrow> invalid_value
      | Some fmt \<Rightarrow> from_raw format (sign_bits neg fmt OR 1))"

definition make_nan :: "float_format \<Rightarrow> bool \<Rightarrow> bool \<Rightarrow> biguint \<Rightarrow> float_value" where
  "make_nan format neg signaling pay =
     (case descriptor format of
        None \<Rightarrow> invalid_value
      | Some fmt \<Rightarrow>
          let quiet_position = (if explicit_integer_bit fmt then precision fmt - 2
                                else significand_storage_bits fmt - 1);
              quiet_bit = push_bit quiet_position 1;
              payload_mask = quiet_bit - 1;
              fraction0 = to_u128 pay AND payload_mask;
              fraction1 = (if signaling then (if fraction0 = 0 then 1 else fraction0)
                           else fraction0 OR quiet_bit);
              fraction = (if explicit_integer_bit fmt then fraction1 OR push_bit (precision fmt - 1) 1
                          else fraction1);
              expo = exponent_mask fmt
          in from_raw format
               (sign_bits neg fmt OR push_bit (significand_storage_bits fmt) expo OR fraction))"

definition negate :: "float_value \<Rightarrow> float_value" where
  "negate v =
     (case descriptor (semantics v) of
        None \<Rightarrow> invalid_value
      | Some fmt \<Rightarrow>
          if \<not> canonical v then invalid_value
          else from_raw (semantics v) (raw_bits v XOR push_bit (storage_bits fmt - 1) 1))"

definition classify :: "float_value \<Rightarrow> float_class" where
  "classify v = classification (decode v)"

definition is_zero :: "float_value \<Rightarrow> bool" where
  "is_zero v \<longleftrightarrow> classify v = ClsZero"

definition is_nan_class :: "float_class \<Rightarrow> bool" where
  "is_nan_class c \<longleftrightarrow> c = ClsQuietNaN \<or> c = ClsSignalingNaN"

definition is_nan :: "float_value \<Rightarrow> bool" where
  "is_nan v \<longleftrightarrow> classify v = ClsQuietNaN \<or> classify v = ClsSignalingNaN"

definition is_infinity :: "float_value \<Rightarrow> bool" where
  "is_infinity v \<longleftrightarrow> classify v = ClsInfinity"

definition is_negative :: "float_value \<Rightarrow> bool" where
  "is_negative v \<longleftrightarrow>
     (case descriptor (semantics v) of
        None \<Rightarrow> False
      | Some fmt \<Rightarrow> canonical v \<and> sign_field v fmt)"

end
