(* ===== verification/Float_Format_Correct.thy ===== *)
theory Float_Format_Correct
  imports Float_Format
begin

text \<open>
  Facts on the encodings: every canonical value is exactly one triple of sign, biased
  exponent and stored significand, and \<open>decode\<close> reads that triple as the format prescribes.
  The real number a finite value denotes is \<open>fval\<close>.
\<close>

section \<open>Descriptors and masks\<close>

lemma descriptor_cases:
  assumes "descriptor f = Some d"
  shows "storage_bits d = 1 + exponent_bits d + significand_storage_bits d" "storage_bits d \<le> 128"
    and "5 \<le> exponent_bits d" "exponent_bits d \<le> 15" "10 \<le> significand_storage_bits d"
    and "exponent_bias d = 2 ^ (exponent_bits d - 1) - 1"
    and "precision d = (if explicit_integer_bit d then significand_storage_bits d
           else Suc (significand_storage_bits d))"
    and "f \<noteq> FmtInvalid"
  using assms by (auto simp: descriptor_def split: float_format.splits)

lemma descriptor_None [simp]: "descriptor f = None \<longleftrightarrow> f = FmtInvalid"
  by (simp add: descriptor_def split: float_format.splits)

lemma descriptor_Invalid [simp]: "descriptor FmtInvalid = None"
  by (simp add: descriptor_def)

lemma low_mask_eq: "low_mask n = mask n"
  by (auto simp: low_mask_def mask_eq_exp_minus_1 push_bit_eq_mult)

lemma and_low_mask: "x AND low_mask n = take_bit n x"
  by (simp add: low_mask_eq take_bit_eq_mask)

lemma unat_take_bit_mod [word_nat]: "unat (take_bit n x) = unat x mod 2 ^ n" for x :: "'a::len word"
  by (simp add: unsigned_take_bit_eq nat_bits)

lemma unat_low_mask: "n \<le> 128 \<Longrightarrow> unat (low_mask n) = 2 ^ n - 1"
proof -
  assume n: "n \<le> 128"
  have "unat (mask n :: u128) = take_bit 128 (mask n :: nat)"
    using unsigned_of_nat [where 'a = nat and 'b = 128, of "mask n"] by (simp add: of_nat_mask_eq)
  also have "\<dots> = mask n"
    using n by (simp only: take_bit_of_mask min_absorb1 min_absorb2)
  finally show ?thesis
    by (simp only: low_mask_eq mask_eq_exp_minus_1)
qed

lemma bit_unat: "bit x k \<longleftrightarrow> odd (unat x div 2 ^ k)" if "k < LENGTH('a)" for x :: "'a::len word"
  using that bit_iff_odd [of "unat x" k] by (simp add: bit_unsigned_iff)

lemma and_top_bit:
  fixes x :: u128
  assumes "unat x < 2 ^ Suc k" and "k < 128"
  shows "x AND push_bit k 1 = 0 \<longleftrightarrow> unat x < 2 ^ k"
proof -
  have "unat x div 2 ^ k < 2"
    using assms by (simp add: less_mult_imp_div_less)
  then have "odd (unat x div 2 ^ k) \<longleftrightarrow> 2 ^ k \<le> unat x"
    using div_less_iff_less_mult [of "2 ^ k" "unat x" 1] by (auto simp: less_2_cases_iff not_less)
  then show ?thesis
    using assms(2) by (simp add: and_exp_eq_0_iff_not_bit bit_unat not_le)
qed

lemma take_bit_self: "unat x < 2 ^ k \<Longrightarrow> take_bit k x = x" for x :: "'a::len word"
  by (simp add: word_unat_eq_iff unat_take_bit_mod)

lemma and_not_top_bit:
  fixes x :: u128
  assumes "unat x < 2 ^ Suc k"
  shows "x AND NOT (push_bit k 1) = take_bit k x"
proof (rule bit_eqI)
  fix n
  have "bit x n \<Longrightarrow> n < Suc k"
    using take_bit_self [OF assms] by (metis bit_take_bit_iff)
  then show "bit (x AND NOT (push_bit k 1)) n = bit (take_bit k x) n"
    by (auto simp: bit_and_iff bit_not_iff bit_push_bit_iff bit_take_bit_iff bit_1_iff bit_exp_iff less_Suc_eq
        dest: bit_imp_le_length)
qed

section \<open>Raw bits\<close>

lemma raw_bits_val: "unat (raw_bits v) = unat (fv_low_bits v) + 2 ^ 64 * unat (fv_high_bits v)"
proof -
  have "unat (push_bit 64 (ucast (fv_high_bits v)) :: u128) = 2 ^ 64 * unat (fv_high_bits v)"
    using unat_u64_lt [of "fv_high_bits v"] by (simp add: unat_push_bit_mod)
  then show ?thesis
    using unat_or_dvd [of "ucast (fv_low_bits v) :: u128" 64 "push_bit 64 (ucast (fv_high_bits v))"]
      unat_u64_lt [of "fv_low_bits v"] by (simp add: raw_bits_def or.commute)
qed

lemma raw_bits_inj: "semantics v = semantics w \<Longrightarrow> unat (raw_bits v) = unat (raw_bits w) \<Longrightarrow> v = w"
proof -
  assume sem: "semantics v = semantics w" and eq: "unat (raw_bits v) = unat (raw_bits w)"
  have "unat (fv_low_bits v) = unat (raw_bits v) mod 2 ^ 64"
      "unat (fv_high_bits v) = unat (raw_bits v) div 2 ^ 64" for v
    using unat_u64_lt [of "fv_low_bits v"] by (simp_all add: raw_bits_val)
  then have "unat (fv_low_bits v) = unat (fv_low_bits w)" "unat (fv_high_bits v) = unat (fv_high_bits w)"
    using eq by metis+
  with sem show "v = w"
    by (simp add: float_value.equality word_unat_eq_iff)
qed

lemma raw_bits_from_raw:
  assumes "descriptor f = Some d"
  shows "unat (raw_bits (from_raw f raw)) = unat raw mod 2 ^ storage_bits d"
    and "semantics (from_raw f raw) = f"
proof -
  define raw' where "raw' = (if storage_bits d < 128 then raw AND low_mask (storage_bits d) else raw)"
  have "unat (drop_bit 64 raw') < 2 ^ 64"
    using unat_lt_exp [of raw'] by (simp add: unat_drop_bit_div less_mult_imp_div_less)
  then have "unat (raw_bits (from_raw f raw)) = unat raw'"
    using split_u128 [of raw'] assms
    by (simp add: from_raw_def Let_def raw_bits_val raw'_def [symmetric] unat_carry_low)
  also have "\<dots> = unat raw mod 2 ^ storage_bits d"
    using descriptor_cases(2) [OF assms] unat_lt_exp [of raw]
    by (auto simp: raw'_def and_low_mask unat_take_bit_mod not_less)
  finally show "unat (raw_bits (from_raw f raw)) = unat raw mod 2 ^ storage_bits d" .
  show "semantics (from_raw f raw) = f"
    using assms by (simp add: from_raw_def Let_def)
qed

lemma canonical_iff:
  assumes "descriptor (semantics v) = Some d"
  shows "canonical v \<longleftrightarrow> unat (raw_bits v) < 2 ^ storage_bits d"
proof -
  define s where "s = storage_bits d"
  define L where "L = unat (fv_low_bits v)"
  define H where "H = unat (fv_high_bits v)"
  have L: "L < 2 ^ 64"
    using unat_u64_lt by (simp add: L_def)
  have drop0: "drop_bit k x = 0 \<longleftrightarrow> unat x < 2 ^ k" for k and x :: u64
    by (metis div_eq_0_iff power_not_zero unat_drop_bit_div unat_eq_zero zero_neq_numeral)
  show ?thesis
  proof (cases "s \<le> 64")
    case True
    then have "(2 :: nat) ^ s \<le> 2 ^ 64"
      by (intro power_increasing) auto
    then have "L + 2 ^ 64 * H < 2 ^ s \<longleftrightarrow> H = 0 \<and> L < 2 ^ s"
      by (cases H) auto
    moreover have "H = 0 \<longleftrightarrow> fv_high_bits v = 0"
      by (simp add: H_def unat_eq_zero)
    ultimately show ?thesis
      using assms True L
      by (auto simp: canonical_def raw_bits_val drop0 s_def [symmetric] L_def [symmetric] H_def [symmetric])
  next
    case False
    then obtain t where t: "s = 64 + t"
      by (metis le_add_diff_inverse nat_le_linear)
    have "L + 2 ^ 64 * H < 2 ^ 64 * 2 ^ t \<longleftrightarrow> H < 2 ^ t"
    proof
      assume "L + 2 ^ 64 * H < 2 ^ 64 * 2 ^ t"
      then have "2 ^ 64 * H < 2 ^ 64 * 2 ^ t"
        by linarith
      then show "H < 2 ^ t"
        by simp
    next
      assume "H < 2 ^ t"
      then have "2 ^ 64 * (H + 1) \<le> 2 ^ 64 * 2 ^ t"
        by (intro mult_le_mono2) simp
      with L show "L + 2 ^ 64 * H < 2 ^ 64 * 2 ^ t"
        by simp
    qed
    moreover have "H < 2 ^ 64"
      using unat_u64_lt by (simp add: H_def)
    ultimately show ?thesis
      using assms False
      by (auto simp: canonical_def Let_def raw_bits_val drop0 s_def [symmetric] L_def [symmetric]
          H_def [symmetric] t power_add)
  qed
qed

lemma canonical_from_raw: "descriptor f = Some d \<Longrightarrow> canonical (from_raw f raw)"
  using raw_bits_from_raw canonical_iff by simp

lemma from_raw_raw_bits:
  assumes "descriptor (semantics v) = Some d" and "canonical v"
  shows "from_raw (semantics v) (raw_bits v) = v"
  using assms raw_bits_from_raw [OF assms(1)] canonical_iff [OF assms(1)]
  by (intro raw_bits_inj) simp_all

section \<open>Fields\<close>

text \<open>The raw number of a sign, a biased exponent and a stored significand.\<close>

definition enc :: "format_descriptor \<Rightarrow> bool \<Rightarrow> nat \<Rightarrow> nat \<Rightarrow> nat" where
  "enc d s e m = of_bool s * 2 ^ (exponent_bits d + significand_storage_bits d)
     + e * 2 ^ significand_storage_bits d + m"

definition fits :: "format_descriptor \<Rightarrow> nat \<Rightarrow> nat \<Rightarrow> bool" where
  "fits d e m \<longleftrightarrow> e < 2 ^ exponent_bits d \<and> m < 2 ^ significand_storage_bits d"

lemma low_part_lt: "fits d e m \<Longrightarrow> e * 2 ^ significand_storage_bits d + m
    < 2 ^ (exponent_bits d + significand_storage_bits d)"
proof -
  assume f: "fits d e m"
  then have "(e + 1) * 2 ^ significand_storage_bits d \<le> 2 ^ exponent_bits d * 2 ^ significand_storage_bits d"
    by (intro mult_le_mono1) (simp add: fits_def)
  with f show ?thesis
    by (simp add: fits_def power_add)
qed

lemma enc_lt:
  assumes "descriptor f = Some d" and "fits d e m"
  shows "enc d s e m < 2 ^ storage_bits d"
  using low_part_lt [OF assms(2)] by (auto simp: enc_def descriptor_cases(1) [OF assms(1)])

lemma enc_fields:
  assumes "fits d e m"
  shows "enc d s e m mod 2 ^ significand_storage_bits d = m"
    and "enc d s e m div 2 ^ significand_storage_bits d mod 2 ^ exponent_bits d = e"
    and "enc d s e m div 2 ^ (exponent_bits d + significand_storage_bits d) = of_bool s"
proof -
  have m: "m < 2 ^ significand_storage_bits d" and e: "e < 2 ^ exponent_bits d"
    using assms by (simp_all add: fits_def)
  have alt: "enc d s e m = m + 2 ^ significand_storage_bits d * (e + 2 ^ exponent_bits d * of_bool s)"
    by (simp add: enc_def algebra_simps power_add)
  show "enc d s e m mod 2 ^ significand_storage_bits d = m"
    unfolding alt using m by simp
  have "enc d s e m div 2 ^ significand_storage_bits d = e + 2 ^ exponent_bits d * of_bool s"
    unfolding alt using m by simp
  then show "enc d s e m div 2 ^ significand_storage_bits d mod 2 ^ exponent_bits d = e"
    using e by simp
  show "enc d s e m div 2 ^ (exponent_bits d + significand_storage_bits d) = of_bool s"
    using low_part_lt [OF assms] by (auto simp: enc_def add.assoc)
qed

lemma enc_surj:
  assumes "descriptor f = Some d" and "n < 2 ^ storage_bits d"
  obtains s e m where "n = enc d s e m" and "fits d e m"
proof -
  define S where "S = significand_storage_bits d"
  define E where "E = exponent_bits d"
  define s where "s = n div 2 ^ (E + S)"
  have "s < 2"
    using assms by (simp add: s_def E_def S_def less_mult_imp_div_less descriptor_cases(1) [OF assms(1)])
  then have s: "s = of_bool (s = 1)"
    by (auto simp: less_2_cases_iff)
  define e where "e = n div 2 ^ S mod 2 ^ E"
  define m where "m = n mod 2 ^ S"
  have "n = 2 ^ S * (n div 2 ^ S) + m"
    by (simp add: m_def)
  also have "n div 2 ^ S = 2 ^ E * s + e"
    by (simp add: s_def e_def power_add mult.commute [of "2 ^ E" "2 ^ S"] div_mult2_eq)
  finally have "n = enc d (s = 1) e m"
    using s by (simp add: enc_def S_def E_def algebra_simps power_add)
  moreover have "fits d e m"
    by (simp add: fits_def e_def m_def S_def E_def)
  ultimately show ?thesis
    by (rule that)
qed

lemma unat_packed:
  assumes d: "descriptor f = Some d" and fits: "fits d (unat E) (unat M)"
  shows "unat (sign_bits s d OR push_bit (significand_storage_bits d) E OR M) = enc d s (unat E) (unat M)"
proof -
  let ?S = "significand_storage_bits d" and ?E = "exponent_bits d"
  have st: "storage_bits d - 1 = ?E + ?S" "?E + ?S < 128"
    using descriptor_cases(1,2) [OF d] by simp_all
  have "unat E * 2 ^ ?S < 2 ^ (?E + ?S)"
    using low_part_lt [OF fits] by simp
  moreover have "(2 :: nat) ^ (?E + ?S) \<le> 2 ^ 128"
    using st by (intro power_increasing) auto
  ultimately have exp: "unat (push_bit ?S E) = unat E * 2 ^ ?S"
    by (simp add: unat_push_bit_mod)
  have sgn: "unat (sign_bits s d) = of_bool s * 2 ^ (?E + ?S)"
    using st by (simp add: sign_bits_def unat_exp2)
  have "unat (sign_bits s d OR push_bit ?S E) = unat (sign_bits s d) + unat (push_bit ?S E)"
    using low_part_lt [OF fits] by (intro unat_or_dvd [of _ "?E + ?S"]) (simp_all add: exp sgn)
  moreover have "unat ((sign_bits s d OR push_bit ?S E) OR M)
      = unat (sign_bits s d OR push_bit ?S E) + unat M"
    using fits calculation
    by (intro unat_or_dvd [of _ ?S]) (auto simp: fits_def exp sgn power_add)
  ultimately show ?thesis
    by (simp only: exp sgn enc_def or.assoc)
qed

lemma fields_of_enc:
  assumes d: "descriptor (semantics v) = Some d" and raw: "unat (raw_bits v) = enc d s e m" and "fits d e m"
  shows "sign_field v d = s" and "unat (exponent_field v d) = e" and "unat (significand_field v d) = m"
proof -
  have st: "storage_bits d - 1 = exponent_bits d + significand_storage_bits d"
    using descriptor_cases(1) [OF d] by simp
  show "unat (exponent_field v d) = e"
    by (simp add: exponent_field_def exponent_mask_def and_low_mask unat_take_bit_mod unat_drop_bit_div
        raw enc_fields [OF assms(3)])
  show "unat (significand_field v d) = m"
    by (simp add: significand_field_def and_low_mask unat_take_bit_mod raw enc_fields [OF assms(3)])
  have "unat (drop_bit (storage_bits d - 1) (raw_bits v)) = of_bool s"
    unfolding st by (simp add: unat_drop_bit_div raw enc_fields [OF assms(3)])
  then have "drop_bit (storage_bits d - 1) (raw_bits v) = of_bool s"
    by (cases s) (simp_all add: word_unat_eq_iff)
  then show "sign_field v d = s"
    by (simp add: sign_field_def)
qed

section \<open>Decoding the fields\<close>

text \<open>The precision counts the integer bit, stored or not: the fraction has \<open>precision - 1\<close> bits.\<close>

lemma frac_bits:
  assumes "descriptor f = Some d"
  shows "Suc (Suc (precision d - 2)) = precision d" "Suc (precision d - 1) = precision d" "precision d < 128"
    and "\<not> explicit_integer_bit d \<Longrightarrow> significand_storage_bits d = precision d - 1"
    and "explicit_integer_bit d \<Longrightarrow> significand_storage_bits d = precision d"
    and "(if explicit_integer_bit d then precision d - 2 else significand_storage_bits d - 1) = precision d - 2"
    and "11 \<le> precision d"
  using assms by (auto simp: descriptor_def split: float_format.splits)

lemma unat_exponent_mask:
  "descriptor f = Some d \<Longrightarrow> unat (exponent_mask d) = 2 ^ exponent_bits d - 1"
  using descriptor_cases(4) [of f d] by (simp add: exponent_mask_def unat_low_mask)

lemma and_fraction_mask:
  assumes "descriptor f = Some d"
  shows "unat (x AND (if explicit_integer_bit d then push_bit (precision d - 1) 1 - 1
           else low_mask (significand_storage_bits d))) = unat x mod 2 ^ (precision d - 1)"
  using frac_bits(4) [OF assms] unat_and_low_mask [of x "precision d - 1"]
  by (simp add: and_low_mask unat_take_bit_mod)

definition sig_ok :: "format_descriptor \<Rightarrow> nat \<Rightarrow> nat \<Rightarrow> bool" where
  "sig_ok d e m \<longleftrightarrow> explicit_integer_bit d \<longrightarrow> e = 0 \<or> 2 ^ (precision d - 1) \<le> m"

definition full_sig :: "format_descriptor \<Rightarrow> nat \<Rightarrow> nat \<Rightarrow> nat" where
  "full_sig d e m = (if explicit_integer_bit d \<or> e = 0 then m else m + 2 ^ (precision d - 1))"

text \<open>\<open>encoded v d s e m\<close>: the canonical value \<open>v\<close> of the format \<open>d\<close> has these three fields.\<close>

definition encoded :: "float_value \<Rightarrow> format_descriptor \<Rightarrow> bool \<Rightarrow> nat \<Rightarrow> nat \<Rightarrow> bool" where
  "encoded v d s e m \<longleftrightarrow>
     descriptor (semantics v) = Some d \<and> unat (raw_bits v) = enc d s e m \<and> fits d e m"

lemma encoded_canonical: "encoded v d s e m \<Longrightarrow> canonical v"
  using enc_lt [of "semantics v" d e m s] by (auto simp: canonical_iff encoded_def)

lemma encoded_decode:
  assumes "encoded v d s e m"
  shows "decode v = decode_fields d s (exponent_field v d) (significand_field v d)"
    and "unat (exponent_field v d) = e" "unat (significand_field v d) = m"
  using fields_of_enc [of v d s e m] encoded_canonical [OF assms] assms
  by (simp_all add: decode_def encoded_def)

lemma encoded_fields:
  assumes "encoded v d s e m"
  shows "exponent_field v d = exponent_mask d \<longleftrightarrow> e = 2 ^ exponent_bits d - 1"
    and "exponent_field v d = 0 \<longleftrightarrow> e = 0" "significand_field v d = 0 \<longleftrightarrow> m = 0"
    and "sign_field v d = s"
  using assms fields_of_enc [of v d s e m]
  by (auto simp: word_unat_eq_iff encoded_decode [OF assms] encoded_def unat_exponent_mask)

lemma encoded_significand:
  assumes "encoded v d s e m"
  shows "explicit_integer_bit d \<Longrightarrow>
      significand_field v d AND push_bit (precision d - 1) 1 = 0 \<longleftrightarrow> m < 2 ^ (precision d - 1)"
    and "\<not> explicit_integer_bit d \<Longrightarrow>
      unat (significand_field v d OR push_bit (precision d - 1) 1) = m + 2 ^ (precision d - 1)"
proof -
  have d: "descriptor (semantics v) = Some d" and m: "m < 2 ^ significand_storage_bits d"
    using assms by (simp_all add: encoded_def fits_def)
  obtain k where k: "precision d = Suc k" "k < 128"
    using frac_bits(2,3) [OF d] by (metis Suc_lessD)
  show "explicit_integer_bit d \<Longrightarrow>
      significand_field v d AND push_bit (precision d - 1) 1 = 0 \<longleftrightarrow> m < 2 ^ (precision d - 1)"
    using and_top_bit [of "significand_field v d" k] frac_bits(5) [OF d] k m
    by (simp add: encoded_decode(3) [OF assms])
  show "\<not> explicit_integer_bit d \<Longrightarrow>
      unat (significand_field v d OR push_bit (precision d - 1) 1) = m + 2 ^ (precision d - 1)"
    using unat_or_dvd [of "significand_field v d" k "push_bit k 1"] frac_bits(4) [OF d] k m
    by (simp add: encoded_decode(3) [OF assms] unat_exp2 or.commute)
qed

lemma zero_exponent_lt: "descriptor f = Some d \<Longrightarrow> 1 < (2 :: nat) ^ exponent_bits d - 1"
  using power_strict_increasing [of 2 "exponent_bits d" "2 :: nat"] descriptor_cases(3) [of f d] by simp

lemma decode_zero:
  assumes "encoded v d s 0 0"
  shows "decode v = decoded_default\<lparr>negative := s, classification := ClsZero\<rparr>"
  using zero_exponent_lt [of "semantics v" d] encoded_fields [OF assms] assms
  by (simp add: encoded_decode(1) [OF assms] decode_fields_def Let_def encoded_def)

lemma decode_small:
  assumes "encoded v d s 0 m" and "0 < m"
  shows "classification (decode v) = (if m < 2 ^ (precision d - 1) then ClsSubnormal else ClsNormal)"
    and "negative (decode v) = s" "significand (decode v) = big_of_u128 (significand_field v d)"
    and "exponent (decode v) = min_normal_exponent d - (int (precision d) - 1)"
proof -
  have d: "descriptor (semantics v) = Some d" and "\<not> explicit_integer_bit d \<Longrightarrow> m < 2 ^ (precision d - 1)"
    using assms frac_bits(4) by (auto simp: encoded_def fits_def)
  then have "classification (decode v) = (if m < 2 ^ (precision d - 1) then ClsSubnormal else ClsNormal)
      \<and> negative (decode v) = s \<and> significand (decode v) = big_of_u128 (significand_field v d)
      \<and> exponent (decode v) = min_normal_exponent d - (int (precision d) - 1)"
    using zero_exponent_lt [OF d] encoded_fields [OF assms(1)] encoded_significand [OF assms(1)] assms(2)
    by (auto simp: encoded_decode(1) [OF assms(1)] decode_fields_def Let_def decoded_default_def)
  then show "classification (decode v) = (if m < 2 ^ (precision d - 1) then ClsSubnormal else ClsNormal)"
    and "negative (decode v) = s" "significand (decode v) = big_of_u128 (significand_field v d)"
    and "exponent (decode v) = min_normal_exponent d - (int (precision d) - 1)"
    by blast+
qed

lemma decode_normal:
  assumes "encoded v d s e m" and "0 < e" "e < 2 ^ exponent_bits d - 1" and "sig_ok d e m"
  shows "classification (decode v) = ClsNormal" "negative (decode v) = s"
    and "exponent (decode v) = int e - exponent_bias d - (int (precision d) - 1)"
    and "\<exists>w. significand (decode v) = big_of_u128 w \<and> unat w = full_sig d e m"
  using encoded_fields [OF assms(1)] encoded_significand [OF assms(1)] encoded_decode [OF assms(1)] assms(2-4)
  by (auto simp: decode_fields_def Let_def sig_ok_def full_sig_def decoded_default_def)

lemma decode_unnormal:
  assumes "encoded v d s e m" and "\<not> sig_ok d e m"
  shows "classification (decode v) = ClsInvalid"
  using encoded_fields [OF assms(1)] encoded_significand [OF assms(1)] encoded_decode(1) [OF assms(1)] assms(2)
  by (auto simp: decode_fields_def Let_def sig_ok_def decoded_default_def)

lemma decode_special:
  assumes v: "encoded v d s (2 ^ exponent_bits d - 1) m" and ok: "sig_ok d (2 ^ exponent_bits d - 1) m"
  shows "classification (decode v) =
      (if m mod 2 ^ (precision d - 1) = 0 then ClsInfinity
       else if m mod 2 ^ (precision d - 1) < 2 ^ (precision d - 2) then ClsSignalingNaN else ClsQuietNaN)"
    and "negative (decode v) = s" "bval (significand (decode v)) = 0"
    and "bval (payload (decode v)) = m mod 2 ^ (precision d - 2)"
proof -
  have d: "descriptor (semantics v) = Some d"
    using v by (simp add: encoded_def)
  obtain k where k: "precision d = Suc (Suc k)" "k < 128"
    using frac_bits(1,3) [OF d] by (metis Suc_lessD)
  define F where "F = significand_field v d AND (if explicit_integer_bit d then push_bit (precision d - 1) 1 - 1
    else low_mask (significand_storage_bits d))"
  have F: "unat F = m mod 2 ^ Suc k"
    using and_fraction_mask [OF d, of "significand_field v d"] encoded_decode(3) [OF v] k by (simp add: F_def)
  then have F0: "F = 0 \<longleftrightarrow> m mod 2 ^ Suc k = 0"
    by (simp add: word_unat_eq_iff)
  have Q: "F AND push_bit k 1 = 0 \<longleftrightarrow> m mod 2 ^ Suc k < 2 ^ k"
    using and_top_bit [of F k] k F by simp
  have P: "unat (F AND NOT (push_bit k 1)) = m mod 2 ^ k"
  proof -
    have "unat F < 2 ^ Suc k"
      unfolding F by (rule mod_less_divisor) simp
    then have "unat (F AND NOT (push_bit k 1)) = unat F mod 2 ^ k"
      by (simp only: and_not_top_bit unat_take_bit_mod)
    then show ?thesis
      by (simp add: F mod_mod_cancel)
  qed
  have "explicit_integer_bit d \<Longrightarrow> significand_field v d AND push_bit (precision d - 1) 1 \<noteq> 0"
    using encoded_significand(1) [OF v] ok zero_exponent_lt [OF d] by (auto simp: sig_ok_def)
  then have dec: "decode v = (let out = decoded_default\<lparr>negative := s\<rparr> in
      if F = 0 then out\<lparr>classification := ClsInfinity\<rparr>
      else out\<lparr>classification := (if F AND push_bit k 1 \<noteq> 0 then ClsQuietNaN else ClsSignalingNaN),
               payload := big_of_u128 (F AND NOT (push_bit k 1))\<rparr>)"
    unfolding encoded_decode(1) [OF v] decode_fields_def Let_def F_def encoded_fields [OF v] frac_bits(6) [OF d]
    by (auto simp: k(1))
  show "classification (decode v) =
      (if m mod 2 ^ (precision d - 1) = 0 then ClsInfinity
       else if m mod 2 ^ (precision d - 1) < 2 ^ (precision d - 2) then ClsSignalingNaN else ClsQuietNaN)"
    using F0 Q by (simp add: dec Let_def k(1))
  show "negative (decode v) = s" "bval (significand (decode v)) = 0"
    by (simp_all add: dec Let_def decoded_default_def)
  have "m mod 2 ^ k = 0" if "m mod 2 ^ Suc k = 0"
    using that by (metis dvd_power_le even_Suc dvd_eq_mod_eq_0 dvd_refl dvd_trans le_imp_power_dvd lessI less_imp_le)
  then show "bval (payload (decode v)) = m mod 2 ^ (precision d - 2)"
    using F0 P by (auto simp: dec Let_def decoded_default_def big_of_u128_val k(1))
qed

section \<open>Finite values\<close>

text \<open>Every canonical value has fields, and they determine it.\<close>

lemma canonical_encoded:
  assumes "canonical v" and "descriptor (semantics v) = Some d"
  obtains s e m where "encoded v d s e m"
  using assms enc_surj [OF assms(2), of "unat (raw_bits v)"] canonical_iff [OF assms(2)]
  by (metis encoded_def)

lemma encoded_inj:
  "encoded v d s e m \<Longrightarrow> encoded w d s e m \<Longrightarrow> semantics v = semantics w \<Longrightarrow> v = w"
  by (rule raw_bits_inj) (simp_all add: encoded_def)

lemma encoded_unique:
  assumes "encoded v d s e m" and "encoded v d s' e' m'"
  shows "s = s'" "e = e'" "m = m'"
  using encoded_fields(4) [OF assms(1)] encoded_fields(4) [OF assms(2)] encoded_decode(2,3) [OF assms(1)]
    encoded_decode(2,3) [OF assms(2)] by simp_all

definition qmin :: "format_descriptor \<Rightarrow> int" where
  "qmin d = min_normal_exponent d - (int (precision d) - 1)"

definition qmax :: "format_descriptor \<Rightarrow> int" where
  "qmax d = max_normal_exponent d - (int (precision d) - 1)"

text \<open>The significand and exponent pairs that denote a nonzero finite number of a format: full
  precision, or the least exponent.\<close>

definition finite_pair :: "format_descriptor \<Rightarrow> nat \<Rightarrow> int \<Rightarrow> bool" where
  "finite_pair d M q \<longleftrightarrow> 0 < M \<and> M < 2 ^ precision d \<and> qmin d \<le> q \<and> q \<le> qmax d
     \<and> (2 ^ (precision d - 1) \<le> M \<or> q = qmin d)"

definition is_finite_nonzero :: "float_class \<Rightarrow> bool" where
  "is_finite_nonzero c \<longleftrightarrow> c = ClsSubnormal \<or> c = ClsNormal"

lemma bias_bounds:
  assumes "descriptor f = Some d"
  shows "min_normal_exponent d = 1 - exponent_bias d" "0 < exponent_bias d" 
    and "max_normal_exponent d = int (2 ^ exponent_bits d - 1) - 1 - exponent_bias d"
    and "qmin d \<le> qmax d" "qmax d = qmin d + int (2 ^ exponent_bits d - 1) - 2"
  using assms
  by (auto simp: descriptor_def min_normal_exponent_def max_normal_exponent_def qmin_def qmax_def
      int_bits split: float_format.splits)

lemma decode_finite_pair:
  assumes "encoded v d s e m" and "is_finite_nonzero (classification (decode v))"
  shows "finite_pair d (bval (significand (decode v))) (exponent (decode v))"
    and "classification (decode v) = (if bval (significand (decode v)) < 2 ^ (precision d - 1)
           then ClsSubnormal else ClsNormal)"
    and "bval (significand (decode v)) = full_sig d e m"
    and "exponent (decode v) = qmin d + int (e - 1)"
    and "negative (decode v) = s" "sig_ok d e m" "e < 2 ^ exponent_bits d - 1"
    and "bnorm (significand (decode v))"
proof -
  have d: "descriptor (semantics v) = Some d" and fits: "fits d e m"
    using assms by (simp_all add: encoded_def)
  note b = bias_bounds [OF d]
  obtain k where k: "precision d = Suc k"
    using frac_bits(2) [OF d] by metis
  have ok: "sig_ok d e m"
    using decode_unnormal [OF assms(1)] assms(2) unfolding is_finite_nonzero_def by force
  have emax: "e < 2 ^ exponent_bits d - 1"
  proof (rule ccontr)
    assume "\<not> ?thesis"
    with fits have "e = 2 ^ exponent_bits d - 1" unfolding fits_def by linarith
    with assms ok decode_special(1) [of v d s m] show False
      by (auto simp: is_finite_nonzero_def split: if_splits)
  qed
  have facts: "bval (significand (decode v)) = full_sig d e m \<and> exponent (decode v) = qmin d + int (e - 1)
        \<and> negative (decode v) = s \<and> bnorm (significand (decode v))
        \<and> classification (decode v) = (if full_sig d e m < 2 ^ (precision d - 1) then ClsSubnormal else ClsNormal)
        \<and> 0 < full_sig d e m"
  proof (cases "e = 0")
    case True
    moreover have "0 < m"
      using decode_zero [of v d s] assms True by (cases m) (auto simp: is_finite_nonzero_def decoded_default_def)
    ultimately show ?thesis
      using decode_small [of v d s m] assms(1) encoded_decode(3) [OF assms(1)]
      by (simp add: full_sig_def qmin_def big_of_u128_val bnorm_big_of_u128)
  next
    case False
    then have e: "0 < e" by simp
    obtain w where w: "significand (decode v) = big_of_u128 w" "unat w = full_sig d e m"
      using decode_normal(4) [OF assms(1) e emax ok] by blast
    have "2 ^ (precision d - 1) \<le> full_sig d e m"
      using ok False by (auto simp: full_sig_def sig_ok_def)
    moreover from this have "0 < full_sig d e m"
      using zero_less_power [of "2 :: nat" "precision d - 1"] by linarith
    ultimately show ?thesis
      using decode_normal(1-3) [OF assms(1) e emax ok] e
      by (auto simp: w big_of_u128_val bnorm_big_of_u128 qmin_def b(1))
  qed
  then have sig: "bval (significand (decode v)) = full_sig d e m"
    and ex: "exponent (decode v) = qmin d + int (e - 1)"
    and cls: "classification (decode v) = (if full_sig d e m < 2 ^ (precision d - 1) then ClsSubnormal else ClsNormal)"
    and pos: "0 < full_sig d e m"
    by blast+
  show "sig_ok d e m" "e < 2 ^ exponent_bits d - 1" by (fact ok emax)+
  show "negative (decode v) = s" "bval (significand (decode v)) = full_sig d e m"
    "exponent (decode v) = qmin d + int (e - 1)" "bnorm (significand (decode v))"
    using facts by blast+
  show "classification (decode v) = (if bval (significand (decode v)) < 2 ^ (precision d - 1)
           then ClsSubnormal else ClsNormal)"
    by (simp add: sig cls)
  show "finite_pair d (bval (significand (decode v))) (exponent (decode v))"
  proof -
    have "full_sig d e m < 2 ^ precision d"
      using fits frac_bits(4,5) [OF d] by (cases "explicit_integer_bit d") (auto simp: full_sig_def fits_def k)
    moreover have "int (e - 1) + 2 \<le> int (2 ^ exponent_bits d - 1)"
      using emax zero_exponent_lt [OF d] by linarith
    moreover have "2 ^ (precision d - 1) \<le> full_sig d e m \<or> e = 0"
      using ok by (auto simp: full_sig_def sig_ok_def)
    ultimately show ?thesis
      using pos b(5) by (auto simp: finite_pair_def sig ex)
  qed
qed

text \<open>The fields that store a finite pair.\<close>

definition exp_of_pair :: "format_descriptor \<Rightarrow> nat \<Rightarrow> int \<Rightarrow> nat" where
  "exp_of_pair d M q = (if M < 2 ^ (precision d - 1) then 0 else nat (q - qmin d) + 1)"

definition stored_of_pair :: "format_descriptor \<Rightarrow> nat \<Rightarrow> nat" where
  "stored_of_pair d M = (if explicit_integer_bit d then M else M mod 2 ^ (precision d - 1))"

lemma fits_of_pair:
  assumes d: "descriptor f = Some d" and M: "finite_pair d M q"
  shows "fits d (exp_of_pair d M q) (stored_of_pair d M)"
    and "full_sig d (exp_of_pair d M q) (stored_of_pair d M) = M"
    and "sig_ok d (exp_of_pair d M q) (stored_of_pair d M)"
    and "exp_of_pair d M q < 2 ^ exponent_bits d - 1" "q = qmin d + int (exp_of_pair d M q - 1)"
proof -
  obtain k where k: "precision d = Suc k"
    using frac_bits(2) [OF d] by metis
  have M': "0 < M" "M < 2 * 2 ^ k" "qmin d \<le> q" "q \<le> qmax d" "2 ^ k \<le> M \<or> q = qmin d"
    using M by (simp_all add: finite_pair_def k)
  have q: "nat (q - qmin d) + 2 \<le> 2 ^ exponent_bits d - 1"
    using M' bias_bounds(5) [OF d] zero_exponent_lt [OF d] by linarith
  then show "exp_of_pair d M q < 2 ^ exponent_bits d - 1"
    unfolding exp_of_pair_def by (split if_split) linarith
  then show "fits d (exp_of_pair d M q) (stored_of_pair d M)"
    using M' frac_bits(4,5) [OF d] by (auto simp: fits_def stored_of_pair_def k)
  show "sig_ok d (exp_of_pair d M q) (stored_of_pair d M)"
    by (auto simp: sig_ok_def exp_of_pair_def stored_of_pair_def)
  show "q = qmin d + int (exp_of_pair d M q - 1)"
    using M' by (auto simp: exp_of_pair_def k)
  have "M = M mod 2 ^ k + 2 ^ k" if "2 ^ k \<le> M"
    using that M' by (simp add: le_mod_geq)
  then show "full_sig d (exp_of_pair d M q) (stored_of_pair d M) = M"
    by (auto simp: full_sig_def stored_of_pair_def exp_of_pair_def k not_less)
qed

lemma decode_of_pair:
  assumes v: "encoded v d s (exp_of_pair d M q) (stored_of_pair d M)" and M: "finite_pair d M q"
  shows "bval (significand (decode v)) = M" "exponent (decode v) = q" "negative (decode v) = s"
    and "classification (decode v) = (if M < 2 ^ (precision d - 1) then ClsSubnormal else ClsNormal)"
proof -
  have d: "descriptor (semantics v) = Some d"
    using v by (simp add: encoded_def)
  note fp = fits_of_pair [OF d M]
  have "is_finite_nonzero (classification (decode v))"
  proof (cases "exp_of_pair d M q = 0")
    case True
    then have "0 < stored_of_pair d M"
      using fp(2) M by (simp add: full_sig_def finite_pair_def)
    then show ?thesis
      using decode_small(1) [of v d s "stored_of_pair d M"] v True by (simp add: is_finite_nonzero_def)
  next
    case False
    then show ?thesis
      using decode_normal(1) [OF v _ fp(4,3)] by (simp add: is_finite_nonzero_def)
  qed
  note fin = decode_finite_pair [OF v this]
  show "bval (significand (decode v)) = M" "exponent (decode v) = q" "negative (decode v) = s"
    using fin fp by simp_all
  then show "classification (decode v) = (if M < 2 ^ (precision d - 1) then ClsSubnormal else ClsNormal)"
    using fin(2) by simp
qed

text \<open>A pseudo-denormal is the x87 encoding with exponent zero and the integer bit set; every
  other finite value is the only one with its sign, significand and exponent.\<close>

definition pseudo_denormal :: "float_value \<Rightarrow> bool" where
  "pseudo_denormal v \<longleftrightarrow> (case descriptor (semantics v) of None \<Rightarrow> False
     | Some d \<Rightarrow> classification (decode v) = ClsNormal \<and> exponent_field v d = 0)"

lemma encoded_of_decode:
  assumes v: "encoded v d s e m" and fin: "is_finite_nonzero (classification (decode v))"
    and "\<not> pseudo_denormal v"
  shows "e = exp_of_pair d (bval (significand (decode v))) (exponent (decode v))"
    and "m = stored_of_pair d (bval (significand (decode v)))"
proof -
  have d: "descriptor (semantics v) = Some d"
    using v by (simp add: encoded_def)
  obtain k where k: "precision d = Suc k"
    using frac_bits(2) [OF d] by metis
  note f = decode_finite_pair [OF v fin]
  have e0: "e = 0 \<longleftrightarrow> full_sig d e m < 2 ^ k"
    using assms(3) f(2,3,6) encoded_fields(2) [OF v]
    by (auto simp: pseudo_denormal_def d k full_sig_def sig_ok_def split: if_splits)
  then show "e = exp_of_pair d (bval (significand (decode v))) (exponent (decode v))"
    by (auto simp: f(3,4) exp_of_pair_def k)
  have "m < 2 ^ k" if "\<not> explicit_integer_bit d"
    using v frac_bits(4) [OF d that] by (simp add: encoded_def fits_def k)
  then show "m = stored_of_pair d (bval (significand (decode v)))"
    by (auto simp: f(3) stored_of_pair_def full_sig_def k)
qed

section \<open>The number a value denotes\<close>

definition signed :: "bool \<Rightarrow> real \<Rightarrow> real" where
  "signed s x = (if s then - x else x)"

definition mag :: "decoded_float \<Rightarrow> real" where
  "mag x = real (bval (significand x)) * 2 powi exponent x"

definition fval :: "float_value \<Rightarrow> real" where
  "fval v = signed (negative (decode v)) (mag (decode v))"

lemma signed_eq_iff [simp]: "signed s x = signed s y \<longleftrightarrow> x = y" "signed s x = 0 \<longleftrightarrow> x = 0" "signed s 0 = 0"
  by (auto simp: signed_def)

lemma pair_scale_lt:
  assumes "real M * 2 powi q = real M' * 2 powi q'" and "q < q'"
  shows "2 * M' \<le> M"
proof -
  obtain n where n: "q' = q + 1 + int n"
    using assms(2) zless_iff_Suc_zadd [of q q'] by (auto simp: algebra_simps)
  have "real M * 2 powi q = real (2 * M' * 2 ^ n) * 2 powi q"
    using assms(1) by (simp add: n power_int_add)
  then have "M = 2 * M' * 2 ^ n"
    by (simp only: mult_cancel_right power_int_eq_0_iff of_nat_eq_iff) simp
  then show ?thesis
    by (cases "2 ^ n :: nat") auto
qed

lemma finite_pair_unique:
  assumes "finite_pair d M q" and "finite_pair d M' q'" and "real M * 2 powi q = real M' * 2 powi q'"
  shows "M = M' \<and> q = q'"
proof -
  have no_lt: "\<not> a < b" if "finite_pair d A a" "finite_pair d B b" "real A * 2 powi a = real B * 2 powi b"
    for A B a b
  proof
    assume "a < b"
    then have "2 * B \<le> A"
      using pair_scale_lt that(3) by blast
    moreover have "2 ^ (precision d - 1) \<le> B"
      using that \<open>a < b\<close> by (auto simp: finite_pair_def)
    ultimately show False
      using that(1) by (cases "precision d") (auto simp: finite_pair_def)
  qed
  have "q = q'"
    using no_lt [OF assms(1,2,3)] no_lt [OF assms(2,1)] assms(3) by simp
  with assms(3) show ?thesis by simp
qed

lemma mag_pos: "is_finite_nonzero (classification (decode v)) \<Longrightarrow> encoded v d s e m \<Longrightarrow> 0 < mag (decode v)"
  using decode_finite_pair(1) [of v d s e m] by (simp add: mag_def finite_pair_def)

lemma fval_inj:
  assumes v: "encoded v d s e m" "is_finite_nonzero (classification (decode v))" "\<not> pseudo_denormal v"
    and w: "encoded w d s' e' m'" "is_finite_nonzero (classification (decode w))" "\<not> pseudo_denormal w"
    and "semantics v = semantics w" "fval v = fval w"
  shows "v = w"
proof -
  note fv = decode_finite_pair [OF v(1,2)] and fw = decode_finite_pair [OF w(1,2)]
  have "signed s (mag (decode v)) = signed s' (mag (decode w))"
    using assms(8) fv(5) fw(5) by (simp add: fval_def)
  then have s: "s = s'" and "mag (decode v) = mag (decode w)"
    using mag_pos [OF v(2,1)] mag_pos [OF w(2,1)] by (auto simp: signed_def split: if_splits)
  then have "bval (significand (decode v)) = bval (significand (decode w)) \<and> exponent (decode v) = exponent (decode w)"
    unfolding mag_def using finite_pair_unique [OF fv(1) fw(1)] by blast
  then have "e = e'" "m = m'"
    using encoded_of_decode [OF v] encoded_of_decode [OF w] by simp_all
  with s v(1) w(1) assms(7) show ?thesis
    using encoded_inj by blast
qed

section \<open>The special values\<close>

lemma encoded_from_raw:
  assumes "descriptor f = Some d" and "unat raw = enc d s e m" and "fits d e m"
  shows "encoded (from_raw f raw) d s e m"
  using raw_bits_from_raw [OF assms(1), of raw] enc_lt [OF assms(1,3), of s] assms
  by (simp add: encoded_def)

lemma encoded_packed:
  assumes "descriptor f = Some d" and "fits d (unat E) (unat M)"
  shows "encoded (from_raw f (sign_bits s d OR push_bit (significand_storage_bits d) E OR M)) d s (unat E) (unat M)"
  using encoded_from_raw unat_packed assms by blast

lemma encoded_zero:
  assumes "descriptor f = Some d"
  shows "encoded (zero f s) d s 0 0"
  using encoded_packed [OF assms, of 0 0 s] assms by (simp add: zero_def fits_def)

lemma decode_zero_value:
  assumes "descriptor f = Some d"
  shows "decode (zero f s) = decoded_default\<lparr>negative := s, classification := ClsZero\<rparr>"
  using encoded_zero [OF assms] decode_zero by blast

lemma semantics_special:
  assumes "descriptor f = Some d"
  shows "semantics (zero f s) = f" "semantics (infinity f s) = f" "semantics (maximum_finite f s) = f"
    and "semantics (minimum_subnormal f s) = f" "semantics (make_nan f s b p) = f"
  using assms
  by (simp_all add: zero_def infinity_def maximum_finite_def minimum_subnormal_def make_nan_def Let_def
      raw_bits_from_raw(2))

lemma mask_fits: "descriptor f = Some d \<Longrightarrow> m < 2 ^ significand_storage_bits d \<Longrightarrow>
    fits d (unat (exponent_mask d)) m"
  by (simp add: fits_def unat_exponent_mask)

lemma encoded_infinity:
  assumes "descriptor f = Some d"
  shows "encoded (infinity f s) d s (2 ^ exponent_bits d - 1)
           (if explicit_integer_bit d then 2 ^ (precision d - 1) else 0)"
proof -
  let ?w = "if explicit_integer_bit d then push_bit (precision d - 1) 1 else (0 :: u128)"
  have w: "unat ?w = (if explicit_integer_bit d then 2 ^ (precision d - 1) else 0)"
    using frac_bits(3) [OF assms] by (simp add: unat_exp2)
  moreover have "unat ?w < 2 ^ significand_storage_bits d"
    using frac_bits(2,5) [OF assms] unfolding w by (auto simp: power_strict_increasing)
  ultimately show ?thesis
    using encoded_packed [OF assms mask_fits [OF assms], of ?w s] assms
    by (simp add: infinity_def unat_exponent_mask)
qed

lemma decode_infinity:
  assumes "descriptor f = Some d"
  shows "classification (decode (infinity f s)) = ClsInfinity" "negative (decode (infinity f s)) = s"
    and "bval (significand (decode (infinity f s))) = 0"
  using decode_special [OF encoded_infinity [OF assms, of s]] by (auto simp: sig_ok_def)

lemma decode_minimum_subnormal:
  assumes "descriptor f = Some d"
  shows "encoded (minimum_subnormal f s) d s (exp_of_pair d 1 (qmin d)) (stored_of_pair d 1)"
    and "finite_pair d 1 (qmin d)"
proof -
  have p: "1 < (2 :: nat) ^ (precision d - 1)" "1 < (2 :: nat) ^ precision d"
    using frac_bits(7) [OF assms] by (intro one_less_power; linarith)+
  show "finite_pair d 1 (qmin d)"
    using p bias_bounds(4) [OF assms] by (simp add: finite_pair_def)
  have "fits d (unat (0 :: u128)) (unat (1 :: u128))"
    using descriptor_cases(5) [OF assms] one_less_power [of "2 :: nat" "significand_storage_bits d"]
    by (simp add: fits_def)
  from encoded_packed [OF assms this, of s]
  show "encoded (minimum_subnormal f s) d s (exp_of_pair d 1 (qmin d)) (stored_of_pair d 1)"
    using p assms frac_bits(7) [OF assms] by (simp add: minimum_subnormal_def exp_of_pair_def stored_of_pair_def)
qed

lemma decode_maximum_finite:
  assumes "descriptor f = Some d"
  shows "encoded (maximum_finite f s) d s (exp_of_pair d (2 ^ precision d - 1) (qmax d))
           (stored_of_pair d (2 ^ precision d - 1))"
    and "finite_pair d (2 ^ precision d - 1) (qmax d)"
proof -
  obtain k where k: "precision d = Suc k"
    using frac_bits(2) [OF assms] by metis
  have "1 < (2 :: nat) ^ k"
    using frac_bits(7) [OF assms] k by (intro one_less_power; linarith)
  then have ge: "(2 :: nat) ^ k \<le> 2 ^ Suc k - 1" "0 < (2 :: nat) ^ Suc k - 1" 
    by simp_all
  then show "finite_pair d (2 ^ precision d - 1) (qmax d)"
    using bias_bounds(4) [OF assms] by (simp add: finite_pair_def k)
  have u: "unat (exponent_mask d - 1) = 2 ^ exponent_bits d - 1 - 1"
    "unat (low_mask (significand_storage_bits d)) = 2 ^ significand_storage_bits d - 1"
    using unat_exponent_mask [OF assms] zero_exponent_lt [OF assms] frac_bits(3) [OF assms]
      descriptor_cases(1,2) [OF assms]
    by (auto simp: unat_sub_if' unat_low_mask)
  have "fits d (unat (exponent_mask d - 1)) (unat (low_mask (significand_storage_bits d)))"
    unfolding u fits_def by auto
  from encoded_packed [OF assms this, of s]
  have "encoded (maximum_finite f s) d s (2 ^ exponent_bits d - 1 - 1) (2 ^ significand_storage_bits d - 1)"
    unfolding u by (simp add: maximum_finite_def assms)
  moreover have "exp_of_pair d (2 ^ precision d - 1) (qmax d) = 2 ^ exponent_bits d - 1 - 1"
  proof -
    have "nat (qmax d - qmin d) + 1 = 2 ^ exponent_bits d - 1 - 1"
      using bias_bounds(5) [OF assms] zero_exponent_lt [OF assms] by linarith
    then show ?thesis
      using ge by (simp add: exp_of_pair_def k)
  qed
  moreover have "stored_of_pair d (2 ^ precision d - 1) = 2 ^ significand_storage_bits d - 1"
  proof -
    have "(2 ^ Suc k - 1) mod 2 ^ k = (2 :: nat) ^ k - 1"
      using ge by (simp add: le_mod_geq)
    then show ?thesis
      using frac_bits(4,5) [OF assms] by (simp add: stored_of_pair_def k)
  qed
  ultimately show "encoded (maximum_finite f s) d s (exp_of_pair d (2 ^ precision d - 1) (qmax d))
           (stored_of_pair d (2 ^ precision d - 1))"
    by simp
qed

definition nan_payload :: "format_descriptor \<Rightarrow> bool \<Rightarrow> nat \<Rightarrow> nat" where
  "nan_payload d b n = (if b \<and> n mod 2 ^ (precision d - 2) = 0 then 1 else n mod 2 ^ (precision d - 2))"

definition nan_field :: "format_descriptor \<Rightarrow> bool \<Rightarrow> nat \<Rightarrow> nat" where
  "nan_field d b n = nan_payload d b n + (if b then 0 else 2 ^ (precision d - 2))
     + (if explicit_integer_bit d then 2 ^ (precision d - 1) else 0)"

lemma nan_payload_bounds:
  assumes "descriptor f = Some d"
  shows "nan_payload d b n < 2 ^ (precision d - 2)" "b \<Longrightarrow> 0 < nan_payload d b n"
proof -
  have "1 < (2 :: nat) ^ (precision d - 2)"
    using frac_bits(7) [OF assms] by (intro one_less_power; linarith)
  then show "nan_payload d b n < 2 ^ (precision d - 2)" "b \<Longrightarrow> 0 < nan_payload d b n"
    by (simp_all add: nan_payload_def)
qed

lemma encoded_make_nan:
  assumes "descriptor f = Some d"
  shows "encoded (make_nan f s b p) d s (2 ^ exponent_bits d - 1) (nan_field d b (bval p))"
proof -
  obtain k where k: "precision d = Suc (Suc k)" and k_lt: "Suc k < 128"
    using frac_bits(1,3,7) [OF assms] that [of "precision d - 2"] by linarith
  define F0 where "F0 = to_u128 p AND (push_bit k 1 - 1)"
  define F1 where "F1 = (if b then (if F0 = 0 then 1 else F0) else F0 OR push_bit k 1)"
  define F where "F = (if explicit_integer_bit d then F1 OR push_bit (Suc k) 1 else F1)"
  have "2 ^ k dvd (2 :: nat) ^ 128"
    using k_lt by (intro le_imp_power_dvd) simp
  then have F0: "unat F0 = bval p mod 2 ^ k"
    by (simp add: F0_def unat_and_exp_minus_1 to_u128_val mod_mod_cancel)
  then have F0_lt: "unat F0 < 2 ^ k"
    by simp
  have F1: "unat F1 = nan_payload d b (bval p) + (if b then 0 else 2 ^ k)"
    using unat_or_dvd [OF F0_lt, of "push_bit k 1"] k_lt F0
    by (auto simp: F1_def nan_payload_def word_unat_eq_iff unat_exp2 or.commute k)
  then have F1_lt: "unat F1 < 2 ^ Suc k"
    using nan_payload_bounds(1) [OF assms, of b "bval p"] by (cases b) (simp_all add: k)
  have F: "unat F = nan_field d b (bval p)"
    using unat_or_dvd [OF F1_lt, of "push_bit (Suc k) 1"] k_lt F1
    by (auto simp: F_def unat_exp2 or.commute nan_field_def k simp del: power_Suc)
  have "unat F < 2 ^ significand_storage_bits d"
    using F1_lt F1 frac_bits(4,5) [OF assms] k by (cases b) (simp_all add: F nan_field_def)
  from encoded_packed [OF assms mask_fits [OF assms this], of s]
  show ?thesis
    using assms frac_bits(6) [OF assms] k unfolding F
    by (simp add: make_nan_def Let_def F_def F1_def F0_def unat_exponent_mask cong: if_cong)
qed

lemma nan_field_mods:
  assumes "descriptor f = Some d"
  shows "nan_field d b n mod 2 ^ (precision d - 1) = nan_payload d b n + (if b then 0 else 2 ^ (precision d - 2))"
    and "nan_field d b n mod 2 ^ (precision d - 2) = nan_payload d b n"
    and "sig_ok d e (nan_field d b n)"
proof -
  obtain k where k: "precision d = Suc (Suc k)"
    using frac_bits(1) [OF assms] by metis
  have lt: "nan_payload d b n < 2 ^ k"
    using nan_payload_bounds(1) [OF assms, of b n] by (simp add: k)
  then have "nan_payload d b n + (if b then 0 else 2 ^ k) < 2 ^ Suc k"
    by (cases b) simp_all
  moreover have "nan_field d b n = nan_payload d b n + (if b then 0 else 2 ^ k) + 2 ^ Suc k * of_bool (explicit_integer_bit d)"
    by (simp add: nan_field_def k)
  ultimately show "nan_field d b n mod 2 ^ (precision d - 1) = nan_payload d b n + (if b then 0 else 2 ^ (precision d - 2))"
    by (simp only: k diff_Suc_Suc diff_zero diff_Suc_1 numeral_2_eq_2 mod_mult_self2 mod_less)
  have "nan_field d b n = nan_payload d b n + 2 ^ k * (of_bool (\<not> b) + (if explicit_integer_bit d then 2 else 0))"
    by (simp add: nan_field_def k)
  then show "nan_field d b n mod 2 ^ (precision d - 2) = nan_payload d b n"
    using lt by (simp only: k diff_Suc_Suc numeral_2_eq_2 diff_zero mod_mult_self2 mod_less)
  show "sig_ok d e (nan_field d b n)"
    by (simp add: sig_ok_def nan_field_def)
qed

lemma decode_make_nan:
  assumes "descriptor f = Some d"
  shows "classification (decode (make_nan f s b p)) = (if b then ClsSignalingNaN else ClsQuietNaN)"
    and "negative (decode (make_nan f s b p)) = s"
    and "bval (payload (decode (make_nan f s b p))) = nan_payload d b (bval p)"
    and "canonical (make_nan f s b p)"
  using decode_special [OF encoded_make_nan [OF assms, of s b p] nan_field_mods(3) [OF assms]]
    nan_field_mods(1,2) [OF assms, of b "bval p"] nan_payload_bounds [OF assms, of b "bval p"]
    encoded_canonical [OF encoded_make_nan [OF assms]]
  by (cases b; simp)+

text \<open>Zeros, infinities and quiet NaNs have one encoding per sign and payload.\<close>

lemma special_fields:
  assumes v: "encoded v d s e m"
  shows "classification (decode v) = ClsZero \<Longrightarrow> e = 0 \<and> m = 0"
    and "classification (decode v) = ClsInfinity \<or> classification (decode v) = ClsQuietNaN \<Longrightarrow>
      e = 2 ^ exponent_bits d - 1 \<and> sig_ok d e m"
proof -
  have fits: "e \<le> 2 ^ exponent_bits d - 1" and ok: "\<not> sig_ok d e m \<Longrightarrow> classification (decode v) = ClsInvalid"
    using v decode_unnormal [OF v] by (auto simp: encoded_def fits_def)
  consider "\<not> sig_ok d e m" | "e = 0" "m = 0" | "e = 0" "0 < m" | "0 < e" "e < 2 ^ exponent_bits d - 1" "sig_ok d e m"
    | "e = 2 ^ exponent_bits d - 1" "sig_ok d e m" "0 < e"
    using fits by linarith
  then have "(classification (decode v) = ClsZero \<longrightarrow> e = 0 \<and> m = 0) \<and>
      (classification (decode v) = ClsInfinity \<or> classification (decode v) = ClsQuietNaN \<longrightarrow>
        e = 2 ^ exponent_bits d - 1 \<and> sig_ok d e m)"
  proof cases
    case 1
    then show ?thesis using ok by simp
  next
    case 2
    then show ?thesis using decode_zero v by (simp add: decoded_default_def)
  next
    case 3
    then show ?thesis using decode_small(1) [of v d s m] v by simp
  next
    case 4
    then show ?thesis using decode_normal(1) [OF v] by simp
  next
    case 5
    then show ?thesis using decode_special(1) [of v d s m] v by simp
  qed
  then show "classification (decode v) = ClsZero \<Longrightarrow> e = 0 \<and> m = 0"
    and "classification (decode v) = ClsInfinity \<or> classification (decode v) = ClsQuietNaN \<Longrightarrow>
      e = 2 ^ exponent_bits d - 1 \<and> sig_ok d e m"
    by blast+
qed

lemma explicit_top:
  assumes "descriptor f = Some d" and "fits d e m" "sig_ok d e m" "0 < e"
  shows "m = m mod 2 ^ (precision d - 1) + (if explicit_integer_bit d then 2 ^ (precision d - 1) else 0)"
proof -
  obtain k where k: "precision d = Suc k"
    using frac_bits(2) [OF assms(1)] by metis
  show ?thesis
    using frac_bits(4,5) [OF assms(1)] assms(2-4) by (auto simp: k fits_def sig_ok_def le_mod_geq)
qed

lemma special_unique:
  assumes v: "encoded v d s e m"
  shows "classification (decode v) = ClsZero \<Longrightarrow> v = zero (semantics v) s"
    and "classification (decode v) = ClsInfinity \<Longrightarrow> v = infinity (semantics v) s"
    and "classification (decode v) = ClsQuietNaN \<Longrightarrow> bval p = bval (payload (decode v)) \<Longrightarrow>
      v = make_nan (semantics v) s False p"
proof -
  have d: "descriptor (semantics v) = Some d" and fits: "fits d e m"
    using v by (simp_all add: encoded_def)
  note uniq = encoded_inj [OF v] and sem = semantics_special [OF d] and e0 = zero_exponent_lt [OF d]
  show "v = zero (semantics v) s" if "classification (decode v) = ClsZero"
    using uniq encoded_zero [OF d, of s] special_fields(1) [OF v that] sem by simp
  have top: "m = m mod 2 ^ (precision d - 1) + (if explicit_integer_bit d then 2 ^ (precision d - 1) else 0)"
    if "classification (decode v) = ClsInfinity \<or> classification (decode v) = ClsQuietNaN"
  proof -
    have "sig_ok d e m" "0 < e"
      using special_fields(2) [OF v that] e0 by linarith+
    then show ?thesis
      by (rule explicit_top [OF d fits])
  qed
  show "v = infinity (semantics v) s" if c: "classification (decode v) = ClsInfinity"
  proof -
    have e: "e = 2 ^ exponent_bits d - 1" and ok: "sig_ok d e m"
      using special_fields(2) [OF v] c by blast+
    have "m mod 2 ^ (precision d - 1) = 0"
      using decode_special(1) [of v d s m] v e ok c by (simp split: if_splits)
    then have "m = (if explicit_integer_bit d then 2 ^ (precision d - 1) else 0)"
      using top c by simp
    then show ?thesis
      using uniq encoded_infinity [OF d, of s] e sem by simp
  qed
  show "v = make_nan (semantics v) s False p"
    if c: "classification (decode v) = ClsQuietNaN" and p: "bval p = bval (payload (decode v))"
  proof -
    have e: "e = 2 ^ exponent_bits d - 1" and ok: "sig_ok d e m"
      using special_fields(2) [OF v] c by blast+
    obtain k where k: "precision d = Suc (Suc k)"
      using frac_bits(1) [OF d] by metis
    have "2 ^ k \<le> m mod 2 ^ Suc k" "bval p = m mod 2 ^ k"
      using decode_special(1,4) [of v d s m] v e ok c p by (simp_all add: k split: if_splits)
    moreover have "m mod 2 ^ Suc k < 2 ^ Suc k"
      by simp
    moreover have "m mod 2 ^ Suc k mod 2 ^ k = m mod 2 ^ k"
      by (simp add: mod_mod_cancel)
    ultimately have "m mod 2 ^ Suc k = m mod 2 ^ k + 2 ^ k"
      by (metis le_add_diff_inverse2 le_mod_geq mod_less less_diff_conv2 mult_2 power_Suc)
    then have "m = nan_field d False (bval p)"
      using top c \<open>bval p = m mod 2 ^ k\<close> by (simp add: nan_field_def nan_payload_def k)
    then show ?thesis
      using uniq encoded_make_nan [OF d, of s False p] e sem by simp
  qed
qed

lemma negate_encoded:
  assumes v: "encoded v d s e m"
  shows "encoded (negate v) d (\<not> s) e m" "semantics (negate v) = semantics v"
proof -
  have d: "descriptor (semantics v) = Some d" and fits: "fits d e m" and raw: "unat (raw_bits v) = enc d s e m"
    using v by (simp_all add: encoded_def)
  define k where "k = storage_bits d - 1"
  have k: "k = exponent_bits d + significand_storage_bits d" "k < 128"
    using descriptor_cases(1,2) [OF d] by (simp_all add: k_def)
  define low where "low = take_bit k (raw_bits v)"
  have low: "unat low = e * 2 ^ significand_storage_bits d + m"
    using low_part_lt [OF fits] by (simp add: low_def unat_take_bit_mod raw enc_def k(1) [symmetric] add.assoc)
  have bits: "bit (raw_bits v) k = s" "bit (raw_bits v) n \<Longrightarrow> n \<le> k" for n
  proof -
    show "bit (raw_bits v) k = s"
      using k(2) enc_fields(3) [OF fits, of s] by (simp add: bit_unat raw k(1) [symmetric])
    have "take_bit (Suc k) (raw_bits v) = raw_bits v"
      using enc_lt [OF d fits, of s] raw k descriptor_cases(1) [OF d] by (intro take_bit_self) simp
    then show "bit (raw_bits v) n \<Longrightarrow> n \<le> k"
      by (metis bit_take_bit_iff less_Suc_eq_le)
  qed
  have "raw_bits v XOR push_bit k 1 = (if s then low else push_bit k 1 OR low)"
  proof (rule bit_eqI)
    fix n
    show "bit (raw_bits v XOR push_bit k 1) n = bit (if s then low else push_bit k 1 OR low) n"
      using bits(1) bits(2) [of n]
      by (cases "n = k") (auto simp: low_def bit_xor_iff bit_or_iff bit_take_bit_iff bit_exp_iff k(2))
  qed
  moreover have "unat (push_bit k 1 OR low) = 2 ^ k + unat low"
    using unat_or_dvd [of low k "push_bit k 1"] low_part_lt [OF fits] k(2) by (simp add: low unat_exp2 k(1) [symmetric])
  ultimately have "unat (raw_bits v XOR push_bit k 1) = enc d (\<not> s) e m"
    using low by (simp add: enc_def k(1) [symmetric])
  from encoded_from_raw [OF d this fits]
  show "encoded (negate v) d (\<not> s) e m"
    using d encoded_canonical [OF v] by (simp add: negate_def k_def)
  show "semantics (negate v) = semantics v"
    using d encoded_canonical [OF v] raw_bits_from_raw(2) [OF d] by (simp add: negate_def)
qed

lemma decode_negate:
  assumes "encoded v d s e m"
  shows "decode (negate v) = (decode v)\<lparr>negative := \<not> s\<rparr>"
proof -
  note w = negate_encoded(1) [OF assms]
  have "exponent_field (negate v) d = exponent_field v d" "significand_field (negate v) d = significand_field v d"
    using encoded_decode(2,3) [OF w] encoded_decode(2,3) [OF assms] by (simp_all add: word_unat_eq_iff)
  then show ?thesis
    unfolding encoded_decode(1) [OF w] encoded_decode(1) [OF assms]
    by (simp add: decode_fields_def Let_def decoded_default_def)
qed

section \<open>Sample values\<close>

text \<open>Single-precision values by bit pattern, for the concrete instances below.\<close>

definition f32 :: "u64 \<Rightarrow> float_value" where
  "f32 bits = \<lparr>semantics = IEEEBinary32, fv_low_bits = bits, fv_high_bits = 0\<rparr>"

lemma decode_one: "decode (f32 0x3f800000) =
    \<lparr>classification = ClsNormal, negative = False, significand = [0x800000], payload = [], exponent = - 23\<rparr>"
  by code_simp

lemma decode_minus_three: "decode (f32 0xc0400000) =
    \<lparr>classification = ClsNormal, negative = True, significand = [0xc00000], payload = [], exponent = - 22\<rparr>"
  by code_simp

lemma fval_samples [simp]: "fval (f32 0x3f800000) = 1" "fval (f32 0xc0400000) = - 3"
  by (simp_all add: fval_def signed_def mag_def decode_one decode_minus_three power_int_def power_divide)

lemma finite_samples [simp]:
  "is_finite_nonzero (classification (decode (f32 0x3f800000)))" "is_finite_nonzero (classification (decode (f32 0xc0400000)))"
  by (simp_all add: decode_one decode_minus_three is_finite_nonzero_def)

lemma semantics_f32 [simp]: "semantics (f32 bits) = IEEEBinary32"
  by (simp add: f32_def)

section \<open>Properties\<close>

text \<open>
  a finite value that is not an x87 pseudo-denormal is determined by its format and the
  real number it denotes; decoding loses nothing.
\<close>

theorem decode_injective:
  assumes "is_finite_nonzero (classification (decode v))" "\<not> pseudo_denormal v"
    and "is_finite_nonzero (classification (decode w))" "\<not> pseudo_denormal w"
    and "semantics v = semantics w" "fval v = fval w"
  shows "v = w"
proof -
  have "canonical u \<and> descriptor (semantics u) \<noteq> None" if "is_finite_nonzero (classification (decode u))" for u
    using that by (cases "descriptor (semantics u)"; cases "canonical u")
      (simp_all add: decode_def decoded_default_def is_finite_nonzero_def)
  then obtain d s e m s' e' m' where "encoded v d s e m" "encoded w d s' e' m'"
    using assms(1,3,5) canonical_encoded by (metis option.exhaust)
  then show ?thesis
    using fval_inj assms by blast
qed

theorem decode_injective_witness:
  "f32 0x3f800000 = negate (f32 0xbf800000)"
proof (rule decode_injective)
  have d: "decode (negate (f32 0xbf800000)) = decode (f32 0x3f800000)"
    by code_simp
  show "\<not> pseudo_denormal (f32 0x3f800000)" "\<not> pseudo_denormal (negate (f32 0xbf800000))"
    by code_simp+
  show "semantics (f32 0x3f800000) = semantics (negate (f32 0xbf800000))"
    by code_simp
  show "is_finite_nonzero (classification (decode (negate (f32 0xbf800000))))" "fval (f32 0x3f800000) = fval (negate (f32 0xbf800000))"
    by (simp_all add: d fval_def del: fval_samples)
qed simp

text \<open>
  negation of a valid value flips the sign and keeps the class, significand, payload and
  exponent, for zeros, infinities and NaNs too; it is its own inverse and keeps the format.
\<close>

theorem negate_correct:
  assumes "canonical v" "descriptor (semantics v) = Some d"
  shows "decode (negate v) = (decode v)\<lparr>negative := \<not> sign_field v d\<rparr>
    \<and> negate (negate v) = v \<and> semantics (negate v) = semantics v"
proof (intro conjI)
  obtain s e m where v: "encoded v d s e m"
    using assms canonical_encoded by blast
  note w = negate_encoded [OF v]
  show "decode (negate v) = (decode v)\<lparr>negative := \<not> sign_field v d\<rparr>"
    using decode_negate [OF v] encoded_fields(4) [OF v] by simp
  show "negate (negate v) = v"
    using encoded_inj [OF negate_encoded(1) [OF w(1)], of v] v negate_encoded(2) [OF w(1)] w(2) by simp
  show "semantics (negate v) = semantics v"
    by (rule w(2))
qed

theorem negate_correct_witness:
  "negate (negate (f32 0x7fc00001)) = f32 0x7fc00001"
proof -
  obtain d where "descriptor (semantics (f32 0x7fc00001)) = Some d"
    by (simp add: descriptor_def)
  moreover have "canonical (f32 0x7fc00001)"
    by code_simp
  ultimately show ?thesis
    using negate_correct by blast
qed

text \<open>
  a NaN built with a payload is a NaN of the requested kind and sign, and decoding it
  gives back the payload, reduced to the bits the format stores below the quiet bit (and made
  nonzero for a signaling NaN, which could not be told from an infinity otherwise).
\<close>

theorem make_nan_round_trip:
  assumes "descriptor f = Some d"
  shows "classification (decode (make_nan f s b p)) = (if b then ClsSignalingNaN else ClsQuietNaN)
    \<and> negative (decode (make_nan f s b p)) = s
    \<and> bval (payload (decode (make_nan f s b p))) = nan_payload d b (bval p)"
  using decode_make_nan [OF assms] by blast

theorem make_nan_round_trip_witness:
  "classification (decode (make_nan IEEEBinary64 True True [])) = ClsSignalingNaN
   \<and> negative (decode (make_nan IEEEBinary64 True True []))"
proof -
  obtain d where "descriptor IEEEBinary64 = Some d"
    by (simp add: descriptor_def)
  from make_nan_round_trip [OF this, of True True "[]"] show ?thesis
    by simp
qed

end
