(* ===== verification/Exact_Naturals.thy ===== *)
theory Exact_Naturals
  imports Big_UInt_Correct Complex_Main
begin

text \<open>
  The contract the floating-point unit relies on: unbounded natural numbers with an exact
  comparison, left shift, bit width and division. The scaling arguments of the unit (order
  of two scaled numbers from their widths, the exponent of a quotient, division at a chosen
  unit) are proved once from this contract and hold of \<open>BigUInt\<close> by interpretation.
\<close>

lemma powi_shift: "0 \<le> k \<Longrightarrow> (2 :: real) powi k = 2 ^ nat k"
  by (simp add: power_int_def)

lemma two_powi_less: "(i :: int) < j \<longleftrightarrow> (2 :: real) powi i < 2 powi j"
  by (metis less_le_not_le linorder_not_less one_le_numeral power_int_increasing
      power_int_strict_increasing rel_simps(49) rel_simps(9))

locale exact_naturals =
  fixes val :: "'a \<Rightarrow> nat" and ok :: "'a \<Rightarrow> bool" and cmp :: "'a \<Rightarrow> 'a \<Rightarrow> int"
    and shl :: "'a \<Rightarrow> nat \<Rightarrow> 'a" and width :: "'a \<Rightarrow> nat" and divide_rem :: "'a \<Rightarrow> 'a \<Rightarrow> 'a \<times> 'a"
  assumes cmp_sgn: "ok x \<Longrightarrow> ok y \<Longrightarrow> cmp x y = sgn (int (val x) - int (val y))"
    and shl_val: "ok x \<Longrightarrow> val (shl x k) = val x * 2 ^ k"
    and shl_ok: "ok x \<Longrightarrow> ok (shl x k)"
    and width_bounds: "ok x \<Longrightarrow> val x < 2 ^ width x" "ok x \<Longrightarrow> 0 < val x \<Longrightarrow> 2 ^ width x \<le> 2 * val x"
    and divide_val: "ok x \<Longrightarrow> ok y \<Longrightarrow> 0 < val y \<Longrightarrow>
       val (fst (divide_rem x y)) = val x div val y \<and> val (snd (divide_rem x y)) = val x mod val y
       \<and> ok (fst (divide_rem x y)) \<and> ok (snd (divide_rem x y))"
begin

definition scaled :: "'a \<Rightarrow> int \<Rightarrow> real" where
  "scaled x i = real (val x) * 2 powi i"

lemma scaled_bounds:
  assumes "ok x" and "0 < val x"
  shows "scaled x i < 2 powi (int (width x) + i)" and "2 powi (int (width x) + i - 1) \<le> scaled x i"
proof -
  have "real (val x) < 2 ^ width x" "(2 :: real) ^ width x \<le> 2 * real (val x)"
    using width_bounds [OF assms(1)] assms(2) by (auto simp flip: of_nat_less_iff of_nat_le_iff [where 'a = real])
  then show "scaled x i < 2 powi (int (width x) + i)" "2 powi (int (width x) + i - 1) \<le> scaled x i"
    by (simp_all add: scaled_def power_int_add power_int_diff)
qed

text \<open>A number with the higher top bit is the greater one.\<close>

lemma scaled_less_by_width:
  assumes "ok x" "ok y" "0 < val x" "0 < val y" and "int (width x) + i < int (width y) + j"
  shows "scaled x i < scaled y j"
proof -
  have "(2 :: real) powi (int (width x) + i) \<le> 2 powi (int (width y) + j - 1)"
    using assms(5) by (intro power_int_increasing) auto
  then show ?thesis
    using scaled_bounds(1) [OF assms(1,3), of i] scaled_bounds(2) [OF assms(2,4), of j] by linarith
qed

text \<open>With the top bits level, aligning both to the lower scale makes the comparison exact.\<close>

lemma aligned_val:
  assumes "ok x" and "l \<le> i"
  shows "real (val (shl x (nat (i - l)))) * 2 powi l = scaled x i"
proof -
  have "(2 :: real) powi i = 2 ^ nat (i - l) * 2 powi l"
    using assms(2) powi_shift [of "i - l"] power_int_add [of "2 :: real" "i - l" l] by simp
  then show ?thesis
    using assms by (simp add: shl_val scaled_def)
qed

lemma cmp_aligned:
  assumes "ok x" "ok y"
  shows "cmp (shl x (nat (i - min i j))) (shl y (nat (j - min i j))) = sgn (scaled x i - scaled y j)"
proof -
  let ?x = "shl x (nat (i - min i j))" and ?y = "shl y (nat (j - min i j))"
  have "scaled x i - scaled y j = (real (val ?x) - real (val ?y)) * 2 powi min i j"
    using aligned_val [OF assms(1), of "min i j" i] aligned_val [OF assms(2), of "min i j" j]
    by (simp add: algebra_simps)
  then have "sgn (scaled x i - scaled y j) = sgn (real (val ?x) - real (val ?y))"
    by (simp add: sgn_mult)
  also have "\<dots> = cmp ?x ?y"
    using cmp_sgn [OF shl_ok shl_ok, OF assms] by (auto simp: sgn_if)
  finally show ?thesis by simp
qed

text \<open>The quotient of two numbers lies between the powers of two the widths suggest.\<close>

lemma quotient_bounds:
  assumes "ok x" "ok y" "0 < val x" "0 < val y"
  shows "real (val x) / real (val y) < 2 powi (int (width x) - int (width y) + 1)"
    and "2 powi (int (width x) - int (width y) - 1) < real (val x) / real (val y)"
proof -
  have "scaled x 0 < scaled y (int (width x) - int (width y) + 1)"
      "scaled y (int (width x) - int (width y) - 1) < scaled x 0"
    by (rule scaled_less_by_width; simp add: assms)+
  then show "real (val x) / real (val y) < 2 powi (int (width x) - int (width y) + 1)"
      "2 powi (int (width x) - int (width y) - 1) < real (val x) / real (val y)"
    using assms(4) by (simp_all add: scaled_def field_simps)
qed

text \<open>Division at scale \<open>k\<close>, as the floor and the remainder of the scaled quotient.\<close>

lemma division_at_scale:
  assumes "ok x" "ok y" "0 < val y"
    and "x' = (if 0 \<le> k then shl x (nat k) else x)" "y' = (if 0 \<le> k then y else shl y (nat (- k)))"
  shows "ok x'" "ok y'" "0 < val y'"
    and "real (val x') / real (val y') = real (val x) / real (val y) * 2 powi k"
    and "val (fst (divide_rem x' y')) = val x' div val y'" "val (snd (divide_rem x' y')) = val x' mod val y'"
    and "ok (fst (divide_rem x' y'))" "ok (snd (divide_rem x' y'))"
proof -
  show wf: "ok x'" "ok y'" "0 < val y'"
    using assms by (auto simp: shl_ok shl_val)
  show "real (val x') / real (val y') = real (val x) / real (val y) * 2 powi k"
    using assms by (simp add: shl_val power_int_def power_divide)
  show "val (fst (divide_rem x' y')) = val x' div val y'" "val (snd (divide_rem x' y')) = val x' mod val y'"
      "ok (fst (divide_rem x' y'))" "ok (snd (divide_rem x' y'))"
    using divide_val [OF wf] by blast+
qed

end

interpretation big: exact_naturals bval bnorm big_compare shifted_left big_bit_width big_divmod
proof
  fix x :: biguint
  assume x: "bnorm x"
  then show "bval x < 2 ^ big_bit_width x"
    by (rule big_bit_width_bounds)
  assume "0 < bval x"
  then have "x \<noteq> []"
    by auto
  from big_bit_width_bounds(2) [OF x this]
  show "2 ^ big_bit_width x \<le> 2 * bval x"
    by (cases "big_bit_width x") auto
next
  fix x y :: biguint
  assume "bnorm x" "bnorm y" "0 < bval y"
  then show "bval (fst (big_divmod x y)) = bval x div bval y \<and> bval (snd (big_divmod x y)) = bval x mod bval y
      \<and> bnorm (fst (big_divmod x y)) \<and> bnorm (snd (big_divmod x y))"
    using big_divmod_val [of x y "fst (big_divmod x y)" "snd (big_divmod x y)"] by simp
qed (simp_all add: big_compare_sgn shifted_left_val bnorm_shifted_left)

end
