(* ===== verification/Float_Round.thy ===== *)
theory Float_Round
  imports Float_Format_Correct Exact_Naturals
begin

text \<open>
  Rounding of an exact rational number to a format (\<open>round_rational\<close> and the helpers above
  it in \<open>numeric/floating_point.cpp\<close>). Every arithmetic operation of the unit computes its exact
  result as \<open>numerator / denominator * 2 ^ binary_exponent\<close> and ends here. The 64-bit exponents
  of the source are integers of the model: they are sums of a few bit widths and literal
  exponents, which the callers bound.
\<close>

definition error_result :: "float_error \<Rightarrow> float_result" where
  "error_result err = \<lparr>fr_value = invalid_value, fr_status = 0, fr_error = err\<rparr>"

definition value_result :: "float_value \<Rightarrow> float_result" where
  "value_result v = \<lparr>fr_value = v, fr_status = 0, fr_error = NoError\<rparr>"

definition overflow_result :: "float_format \<Rightarrow> bool \<Rightarrow> float_control \<Rightarrow> float_result" where
  "overflow_result format neg control =
     (let to_infinity = (case rounding control of
            NearestTiesToEven \<Rightarrow> True
          | NearestTiesAway \<Rightarrow> True
          | TowardZero \<Rightarrow> False
          | TowardPositive \<Rightarrow> \<not> neg
          | TowardNegative \<Rightarrow> neg)
      in \<lparr>fr_value = (if to_infinity then infinity format neg else maximum_finite format neg),
          fr_status = status_set (status_set 0 StOverflow) StInexact,
          fr_error = NoError\<rparr>)"

definition tiny_nonzero_result :: "float_format \<Rightarrow> bool \<Rightarrow> float_control \<Rightarrow> float_result" where
  "tiny_nonzero_result format neg control =
     (let away = (rounding control = TowardPositive \<and> \<not> neg \<or> rounding control = TowardNegative \<and> neg)
      in \<lparr>fr_value = (if away then minimum_subnormal format neg else zero format neg),
          fr_status = status_set (status_set 0 StUnderflow) StInexact,
          fr_error = NoError\<rparr>)"

definition compare_scaled :: "biguint \<Rightarrow> int \<Rightarrow> biguint \<Rightarrow> int \<Rightarrow> int" where
  "compare_scaled lhs lhs_shift rhs rhs_shift =
     (if big_is_zero lhs \<or> big_is_zero rhs then
        (if big_is_zero lhs = big_is_zero rhs then 0 else if big_is_zero lhs then - 1 else 1)
      else
        let lhs_top = int (big_bit_width lhs) + lhs_shift;
            rhs_top = int (big_bit_width rhs) + rhs_shift
        in if lhs_top \<noteq> rhs_top then (if lhs_top < rhs_top then - 1 else 1)
           else let minimum = min lhs_shift rhs_shift;
                    left = shifted_left lhs (nat (lhs_shift - minimum));
                    right = shifted_left rhs (nat (rhs_shift - minimum))
                in big_compare left right)"

text \<open>Returns the quotient, the remainder and the denominator that was divided by.\<close>

definition scaled_division :: "biguint \<Rightarrow> biguint \<Rightarrow> int \<Rightarrow> biguint \<times> biguint \<times> biguint" where
  "scaled_division numerator denominator binary_shift =
     (let effective_numerator = (if 0 \<le> binary_shift then shifted_left numerator (nat binary_shift) else numerator);
          effective_denominator = (if 0 \<le> binary_shift then denominator
                                   else shifted_left denominator (nat (- binary_shift)));
          (quot, remd) = big_divmod effective_numerator effective_denominator
      in (quot, remd, effective_denominator))"

definition round_increment :: "rounding_mode \<Rightarrow> bool \<Rightarrow> biguint \<Rightarrow> biguint \<Rightarrow> biguint \<Rightarrow> bool" where
  "round_increment mode neg rounded_significand remd effective_denominator =
     (let inexact = (\<not> big_is_zero remd);
          half = big_compare (multiply_small remd 2) effective_denominator
      in inexact \<and>
         (case mode of
            NearestTiesToEven \<Rightarrow> 0 < half \<or> half = 0 \<and> big_is_odd rounded_significand
          | NearestTiesAway \<Rightarrow> 0 < half \<or> half = 0
          | TowardZero \<Rightarrow> False
          | TowardPositive \<Rightarrow> \<not> neg
          | TowardNegative \<Rightarrow> neg))"

definition round_rational ::
  "bool \<Rightarrow> biguint \<Rightarrow> biguint \<Rightarrow> int \<Rightarrow> float_format \<Rightarrow> float_control \<Rightarrow> float_result" where
  "round_rational neg numerator denominator binary_exponent format control =
     (case descriptor format of
        None \<Rightarrow> error_result InvalidFormat
      | Some fmt \<Rightarrow>
        if big_is_zero numerator then value_result (zero format neg)
        else if big_is_zero denominator then error_result InvalidEncoding
        else
          let candidate_exponent =
                int (big_bit_width numerator) - int (big_bit_width denominator) + binary_exponent;
              scale_compare = compare_scaled numerator 0 denominator
                (int (big_bit_width numerator) - int (big_bit_width denominator));
              expo = candidate_exponent - (if scale_compare < 0 then 1 else 0);
              minimum_subnormal_exponent = min_normal_exponent fmt - (int (precision fmt) - 1)
          in if max_normal_exponent fmt + 1 < expo then overflow_result format neg control
             else if expo < minimum_subnormal_exponent - 1 then tiny_nonzero_result format neg control
             else
               let tiny_before = expo < min_normal_exponent fmt;
                   unit_exponent = (if tiny_before then minimum_subnormal_exponent
                                    else expo - (int (precision fmt) - 1));
                   (rounded0, remd, effective_denominator) =
                     scaled_division numerator denominator (binary_exponent - unit_exponent);
                   inexact = (\<not> big_is_zero remd);
                   increment = round_increment (rounding control) neg rounded0 remd effective_denominator;
                   rounded_significand = (if increment then add_small rounded0 1 else rounded0);
                   normal_limit = push_bit (precision fmt) 1;
                   minimum_normal = push_bit (precision fmt - 1) 1;
                   significand0 = to_u128 rounded_significand;
                   carries = (\<not> tiny_before \<and> normal_limit \<le> significand0);
                   sig = (if carries then drop_bit 1 significand0 else significand0);
                   normal = (\<not> tiny_before \<or> minimum_normal \<le> significand0);
                   expo' = (if carries then expo + 1
                            else if tiny_before \<and> minimum_normal \<le> significand0
                              then min_normal_exponent fmt
                            else expo)
               in if normal \<and> max_normal_exponent fmt < expo' then overflow_result format neg control
                  else
                    let tiny_after = (\<not> normal);
                        stored = (if explicit_integer_bit fmt then sig else sig AND (minimum_normal - 1));
                        biased = word_of_int (expo' + exponent_bias fmt);
                        raw = (if normal
                               then sign_bits neg fmt OR push_bit (significand_storage_bits fmt) biased OR stored
                               else sign_bits neg fmt OR sig);
                        tiny = (if tininess control = BeforeRounding then tiny_before else tiny_after)
                    in \<lparr>fr_value = from_raw format raw,
                        fr_status = (if inexact
                                     then (if tiny then status_set (status_set 0 StInexact) StUnderflow
                                           else status_set 0 StInexact)
                                     else 0),
                        fr_error = NoError\<rparr>)"

end
