(* ===== verification/Float_Arith.thy ===== *)
theory Float_Arith
  imports Float_Round
begin

text \<open>
  The operations of the floating-point unit (\<open>numeric/floating_point.cpp\<close>): the five binary
  operations, conversion between formats, scaling by a power of two, comparison, and the
  conversions from and to integers.
\<close>

section \<open>Not-a-number results\<close>

definition propagate_nan :: "float_value \<Rightarrow> decoded_float \<Rightarrow> float_value \<Rightarrow> decoded_float \<Rightarrow> float_result" where
  "propagate_nan lhs left rhs right =
     (let selected = (if classification left = ClsQuietNaN \<or> classification left = ClsSignalingNaN
                      then Some (left, semantics lhs)
                      else if classification right = ClsQuietNaN \<or> classification right = ClsSignalingNaN
                      then Some (right, semantics rhs)
                      else None)
      in case selected of
           None \<Rightarrow> \<lparr>fr_value = make_nan (semantics lhs) False False [],
                    fr_status = status_set 0 StInvalid, fr_error = NoError\<rparr>
         | Some (sel, format) \<Rightarrow>
             \<lparr>fr_value = make_nan format (negative sel) False (payload sel),
              fr_status = (if classification left = ClsSignalingNaN \<or> classification right = ClsSignalingNaN
                           then status_set 0 StInvalid else 0),
              fr_error = NoError\<rparr>)"

definition invalid_operation :: "float_format \<Rightarrow> float_result" where
  "invalid_operation format =
     \<lparr>fr_value = make_nan format False False [], fr_status = status_set 0 StInvalid, fr_error = NoError\<rparr>"

section \<open>Binary operations\<close>

definition add_values :: "float_value \<Rightarrow> float_value \<Rightarrow> bool \<Rightarrow> float_control \<Rightarrow> float_result" where
  "add_values lhs rhs subtract control =
     (if semantics lhs \<noteq> semantics rhs then error_result FormatMismatch
      else
        let left = decode lhs; right0 = decode rhs
        in if classification left = ClsInvalid \<or> classification right0 = ClsInvalid
           then error_result InvalidEncoding
           else
             let right = (if subtract then right0\<lparr>negative := \<not> negative right0\<rparr> else right0)
             in if is_nan_class (classification left) \<or> is_nan_class (classification right)
                then propagate_nan lhs left rhs right
                else if classification left = ClsInfinity \<or> classification right = ClsInfinity then
                  (if classification left = ClsInfinity \<and> classification right = ClsInfinity
                      \<and> negative left \<noteq> negative right
                   then invalid_operation (semantics lhs)
                   else value_result (infinity (semantics lhs)
                          (if classification left = ClsInfinity then negative left else negative right)))
                else if classification left = ClsZero \<and> classification right = ClsZero then
                  value_result (zero (semantics lhs)
                    (if negative left = negative right then negative left
                     else rounding control = TowardNegative))
                else if classification left = ClsZero then
                  value_result (if subtract then negate rhs else rhs)
                else if classification right = ClsZero then value_result lhs
                else
                  let common_exponent = min (exponent left) (exponent right);
                      left_integer = shifted_left (significand left) (nat (exponent left - common_exponent));
                      right_integer = shifted_left (significand right) (nat (exponent right - common_exponent))
                  in if negative left = negative right then
                       round_rational (negative left) (big_add left_integer right_integer)
                         (big_of_u128 1) common_exponent (semantics lhs) control
                     else
                       let ordering = big_compare left_integer right_integer
                       in if ordering = 0 then
                            value_result (zero (semantics lhs) (rounding control = TowardNegative))
                          else if 0 < ordering then
                            round_rational (negative left) (big_subtract left_integer right_integer)
                              (big_of_u128 1) common_exponent (semantics lhs) control
                          else
                            round_rational (negative right) (big_subtract right_integer left_integer)
                              (big_of_u128 1) common_exponent (semantics lhs) control)"

definition multiply_values :: "float_value \<Rightarrow> float_value \<Rightarrow> float_control \<Rightarrow> float_result" where
  "multiply_values lhs rhs control =
     (if semantics lhs \<noteq> semantics rhs then error_result FormatMismatch
      else
        let left = decode lhs; right = decode rhs
        in if classification left = ClsInvalid \<or> classification right = ClsInvalid
           then error_result InvalidEncoding
           else if is_nan_class (classification left) \<or> is_nan_class (classification right)
           then propagate_nan lhs left rhs right
           else
             let neg = (negative left \<noteq> negative right);
                 left_zero = (classification left = ClsZero);
                 right_zero = (classification right = ClsZero);
                 left_inf = (classification left = ClsInfinity);
                 right_inf = (classification right = ClsInfinity)
             in if left_zero \<and> right_inf \<or> left_inf \<and> right_zero then invalid_operation (semantics lhs)
                else if left_inf \<or> right_inf then value_result (infinity (semantics lhs) neg)
                else if left_zero \<or> right_zero then value_result (zero (semantics lhs) neg)
                else round_rational neg (big_multiply (significand left) (significand right))
                       (big_of_u128 1) (exponent left + exponent right) (semantics lhs) control)"

definition divide_values :: "float_value \<Rightarrow> float_value \<Rightarrow> float_control \<Rightarrow> float_result" where
  "divide_values lhs rhs control =
     (if semantics lhs \<noteq> semantics rhs then error_result FormatMismatch
      else
        let left = decode lhs; right = decode rhs
        in if classification left = ClsInvalid \<or> classification right = ClsInvalid
           then error_result InvalidEncoding
           else if is_nan_class (classification left) \<or> is_nan_class (classification right)
           then propagate_nan lhs left rhs right
           else
             let neg = (negative left \<noteq> negative right);
                 left_zero = (classification left = ClsZero);
                 right_zero = (classification right = ClsZero);
                 left_inf = (classification left = ClsInfinity);
                 right_inf = (classification right = ClsInfinity)
             in if left_zero \<and> right_zero \<or> left_inf \<and> right_inf then invalid_operation (semantics lhs)
                else if right_zero then
                  \<lparr>fr_value = infinity (semantics lhs) neg, fr_status = status_set 0 StDivideByZero,
                   fr_error = NoError\<rparr>
                else if left_inf then value_result (infinity (semantics lhs) neg)
                else if right_inf \<or> left_zero then value_result (zero (semantics lhs) neg)
                else round_rational neg (significand left) (significand right)
                       (exponent left - exponent right) (semantics lhs) control)"

definition remainder_values :: "float_value \<Rightarrow> float_value \<Rightarrow> float_control \<Rightarrow> float_result" where
  "remainder_values lhs rhs control =
     (if semantics lhs \<noteq> semantics rhs then error_result FormatMismatch
      else
        let left = decode lhs; right = decode rhs
        in if classification left = ClsInvalid \<or> classification right = ClsInvalid
           then error_result InvalidEncoding
           else if is_nan_class (classification left) \<or> is_nan_class (classification right)
           then propagate_nan lhs left rhs right
           else if classification left = ClsInfinity \<or> classification right = ClsZero
           then invalid_operation (semantics lhs)
           else if classification left = ClsZero \<or> classification right = ClsInfinity
           then value_result lhs
           else
             let common = min (exponent left) (exponent right);
                 dividend = shifted_left (significand left) (nat (exponent left - common));
                 divisor = shifted_left (significand right) (nat (exponent right - common));
                 remd = snd (big_divmod dividend divisor)
             in if big_is_zero remd then value_result (zero (semantics lhs) (negative left))
                else round_rational (negative left) remd (big_of_u128 1) common (semantics lhs) control)"

datatype binary_operation = OpAdd | OpSubtract | OpMultiply | OpDivide | OpModulo

definition binary :: "binary_operation \<Rightarrow> float_value \<Rightarrow> float_value \<Rightarrow> float_control \<Rightarrow> float_result" where
  "binary operation lhs rhs control =
     (case operation of
        OpAdd \<Rightarrow> add_values lhs rhs False control
      | OpSubtract \<Rightarrow> add_values lhs rhs True control
      | OpMultiply \<Rightarrow> multiply_values lhs rhs control
      | OpDivide \<Rightarrow> divide_values lhs rhs control
      | OpModulo \<Rightarrow> remainder_values lhs rhs control)"

section \<open>Conversions between formats\<close>

definition convert :: "float_value \<Rightarrow> float_format \<Rightarrow> float_control \<Rightarrow> float_result" where
  "convert value format control =
     (if descriptor format = None then error_result InvalidFormat
      else
        let decoded = decode value
        in if classification decoded = ClsInvalid then error_result InvalidEncoding
           else if classification decoded = ClsZero then value_result (zero format (negative decoded))
           else if classification decoded = ClsInfinity then value_result (infinity format (negative decoded))
           else if is_nan_class (classification decoded) then
             \<lparr>fr_value = make_nan format (negative decoded) False (payload decoded),
              fr_status = (if classification decoded = ClsSignalingNaN then status_set 0 StInvalid else 0),
              fr_error = NoError\<rparr>
           else round_rational (negative decoded) (significand decoded) (big_of_u128 1)
                  (exponent decoded) format control)"

definition scale_by_power_of_two :: "float_value \<Rightarrow> int \<Rightarrow> float_control \<Rightarrow> float_result" where
  "scale_by_power_of_two value expo control =
     (let decoded = decode value
      in if classification decoded = ClsInvalid then error_result InvalidEncoding
         else if classification decoded = ClsZero \<or> classification decoded = ClsInfinity
           \<or> is_nan_class (classification decoded)
         then convert value (semantics value) control
         else if 1000000 < expo then overflow_result (semantics value) (negative decoded) control
         else if expo < - 1000000 then tiny_nonzero_result (semantics value) (negative decoded) control
         else round_rational (negative decoded) (significand decoded) (big_of_u128 1)
                (exponent decoded + expo) (semantics value) control)"

section \<open>Comparison\<close>

datatype compare_result = CmpLess | CmpEqual | CmpGreater | CmpUnordered

record float_compare_result =
  fc_value :: compare_result
  fc_status :: float_status
  fc_error :: float_error

definition magnitude_compare :: "decoded_float \<Rightarrow> decoded_float \<Rightarrow> int" where
  "magnitude_compare left right =
     (if classification left = ClsInfinity \<or> classification right = ClsInfinity then
        (if classification left = classification right then 0
         else if classification left = ClsInfinity then 1 else - 1)
      else if classification left = ClsZero \<or> classification right = ClsZero then
        (if classification left = classification right then 0
         else if classification left = ClsZero then - 1 else 1)
      else compare_scaled (significand left) (exponent left) (significand right) (exponent right))"

definition compare :: "float_value \<Rightarrow> float_value \<Rightarrow> float_compare_result" where
  "compare lhs rhs =
     (let result = \<lparr>fc_value = CmpUnordered, fc_status = 0, fc_error = NoError\<rparr>
      in if semantics lhs \<noteq> semantics rhs then result\<lparr>fc_error := FormatMismatch\<rparr>
         else
           let left = decode lhs; right = decode rhs
           in if classification left = ClsInvalid \<or> classification right = ClsInvalid
              then result\<lparr>fc_error := InvalidEncoding\<rparr>
              else if is_nan_class (classification left) \<or> is_nan_class (classification right) then
                (if classification left = ClsSignalingNaN \<or> classification right = ClsSignalingNaN
                 then result\<lparr>fc_status := status_set 0 StInvalid\<rparr> else result)
              else if classification left = ClsZero \<and> classification right = ClsZero
              then result\<lparr>fc_value := CmpEqual\<rparr>
              else if negative left \<noteq> negative right
              then result\<lparr>fc_value := (if negative left then CmpLess else CmpGreater)\<rparr>
              else
                let ordering0 = magnitude_compare left right;
                    ordering = (if negative left then - ordering0 else ordering0)
                in result\<lparr>fc_value := (if ordering < 0 then CmpLess
                                        else if 0 < ordering then CmpGreater else CmpEqual)\<rparr>)"

section \<open>Integers\<close>

definition from_integer :: "u128 \<Rightarrow> nat \<Rightarrow> bool \<Rightarrow> float_format \<Rightarrow> float_control \<Rightarrow> float_result" where
  "from_integer bits0 bit_width is_signed format control =
     (if descriptor format = None then error_result InvalidFormat
      else if bit_width = 0 \<or> 128 < bit_width then error_result InvalidIntegerWidth
      else
        let mask = low_mask bit_width;
            bits = bits0 AND mask;
            neg = (is_signed \<and> bits AND push_bit (bit_width - 1) 1 \<noteq> 0);
            magnitude = (if neg then (NOT bits + 1) AND mask else bits)
        in round_rational neg (big_of_u128 magnitude) (big_of_u128 1) 0 format control)"

record float_integer_result =
  fi_value :: u128
  fi_status :: float_status
  fi_error :: float_error

definition to_integer :: "float_value \<Rightarrow> nat \<Rightarrow> bool \<Rightarrow> float_integer_result" where
  "to_integer value bit_width is_signed =
     (let result = \<lparr>fi_value = 0, fi_status = 0, fi_error = NoError\<rparr>
      in if bit_width = 0 \<or> 128 < bit_width then result\<lparr>fi_error := InvalidIntegerWidth\<rparr>
         else
           let decoded = decode value
           in if classification decoded = ClsInvalid then result\<lparr>fi_error := InvalidEncoding\<rparr>
              else if classification decoded = ClsInfinity \<or> is_nan_class (classification decoded)
              then result\<lparr>fi_error := IntegerOutOfRange, fi_status := status_set 0 StInvalid\<rparr>
              else
                let (magnitude, discarded) =
                      (if 0 \<le> exponent decoded
                       then (shifted_left (significand decoded) (nat (exponent decoded)), False)
                       else shifted_right (significand decoded) (nat (- exponent decoded)));
                    status = (if discarded then status_set 0 StInexact else 0);
                    out_of_range = result\<lparr>fi_error := IntegerOutOfRange,
                                          fi_status := status_set status StInvalid\<rparr>;
                    limit = (if is_signed then big_of_u128 (push_bit (bit_width - 1) 1)
                             else big_of_u128 (low_mask bit_width));
                    positive_limit = big_subtract limit (big_of_u128 1);
                    too_large = (if is_signed
                                 then \<not> negative decoded \<and> 0 < big_compare magnitude positive_limit
                                   \<or> negative decoded \<and> 0 < big_compare magnitude limit
                                 else negative decoded \<and> \<not> big_is_zero magnitude
                                   \<or> 0 < big_compare magnitude limit)
                in if too_large then out_of_range
                   else
                     let raw0 = to_u128 magnitude AND low_mask bit_width;
                         raw = (if negative decoded \<and> raw0 \<noteq> 0
                                then (NOT raw0 + 1) AND low_mask bit_width else raw0)
                     in result\<lparr>fi_value := raw, fi_status := status\<rparr>)"

end
