(* ===== verification/Float_Round_Correct.thy ===== *)
theory Float_Round_Correct
  imports Float_Round
begin

text \<open>
  Correctness of \<open>round_rational\<close>: the result is the exact number rounded to the format, in
  the sense of the five rounding modes, with the status flags that follow. The
  specification is over the real numbers and uses none of the operations it specifies. Of the
  two ways to detect tininess after rounding it takes the one the code has, which looks at the
  number that is delivered.
\<close>

section \<open>Specification\<close>

definition round_nat :: "rounding_mode \<Rightarrow> bool \<Rightarrow> real \<Rightarrow> nat" where
  "round_nat mode neg y =
     (let q = nat \<lfloor>y\<rfloor>; t = y - real q
      in if t = 0 then q
         else case mode of
             NearestTiesToEven \<Rightarrow> if 1 / 2 < t \<or> t = 1 / 2 \<and> odd q then q + 1 else q
           | NearestTiesAway \<Rightarrow> if 1 / 2 \<le> t then q + 1 else q
           | TowardZero \<Rightarrow> q
           | TowardPositive \<Rightarrow> if neg then q else q + 1
           | TowardNegative \<Rightarrow> if neg then q + 1 else q)"

text \<open>The exponent of the last place of the numbers of a format near \<open>x\<close>.\<close>

definition unit_exp :: "format_descriptor \<Rightarrow> real \<Rightarrow> int" where
  "unit_exp d x = max (\<lfloor>log 2 x\<rfloor> - (int (precision d) - 1)) (qmin d)"

definition round_to :: "format_descriptor \<Rightarrow> rounding_mode \<Rightarrow> bool \<Rightarrow> real \<Rightarrow> real" where
  "round_to d mode neg x = real (round_nat mode neg (x / 2 powi unit_exp d x)) * 2 powi unit_exp d x"

definition tiny :: "format_descriptor \<Rightarrow> float_control \<Rightarrow> real \<Rightarrow> real \<Rightarrow> bool" where
  "tiny d control x y =
     ((if tininess control = BeforeRounding then x else y) < 2 powi min_normal_exponent d)"

definition round_status :: "format_descriptor \<Rightarrow> float_control \<Rightarrow> real \<Rightarrow> real \<Rightarrow> float_status" where
  "round_status d control x y =
     (if x = y then 0
      else if tiny d control x y then status_set (status_set 0 StInexact) StUnderflow
      else status_set 0 StInexact)"

text \<open>\<open>rounded format control neg x r\<close>: the result \<open>r\<close> is the positive number \<open>x\<close> with the sign
  \<open>neg\<close>, rounded to the format.\<close>

definition finite_class :: "float_class \<Rightarrow> bool" where
  "finite_class c \<longleftrightarrow> c = ClsZero \<or> c = ClsSubnormal \<or> c = ClsNormal"

text \<open>
  What a result too large for the format becomes: infinity in the modes that round a magnitude
  past the middle up, as if infinity were the next number, and else the largest number of the
  format, which has all bits of its significand set.
\<close>

definition largest :: "format_descriptor \<Rightarrow> real" where
  "largest d = (2 - 2 powi (1 - int (precision d))) * 2 powi max_normal_exponent d"

definition overflowed :: "float_format \<Rightarrow> format_descriptor \<Rightarrow> rounding_mode \<Rightarrow> bool \<Rightarrow> float_result \<Rightarrow> bool" where
  "overflowed format d mode neg r \<longleftrightarrow>
     fr_error r = NoError \<and> fr_status r = status_set (status_set 0 StOverflow) StInexact
     \<and> semantics (fr_value r) = format \<and> negative (decode (fr_value r)) = neg
     \<and> (if round_nat mode neg (3 / 4) = 1 then classification (decode (fr_value r)) = ClsInfinity
        else finite_class (classification (decode (fr_value r))) \<and> \<not> pseudo_denormal (fr_value r)
           \<and> mag (decode (fr_value r)) = largest d)"

definition rounded :: "float_format \<Rightarrow> float_control \<Rightarrow> bool \<Rightarrow> real \<Rightarrow> float_result \<Rightarrow> bool" where
  "rounded format control neg x r \<longleftrightarrow>
     (case descriptor format of
        None \<Rightarrow> False
      | Some d \<Rightarrow>
          let y = round_to d (rounding control) neg x
          in if 2 powi (max_normal_exponent d + 1) \<le> y then overflowed format d (rounding control) neg r
             else fr_error r = NoError \<and> fr_status r = round_status d control x y
                \<and> semantics (fr_value r) = format \<and> \<not> pseudo_denormal (fr_value r)
                \<and> finite_class (classification (decode (fr_value r)))
                \<and> negative (decode (fr_value r)) = neg \<and> mag (decode (fr_value r)) = y)"

section \<open>Rounding to an integer\<close>

lemma round_nat_of_nat [simp]: "round_nat mode neg (real k) = k"
  by (simp add: round_nat_def)

lemma nat_floor_le: "0 \<le> y \<Longrightarrow> real (nat \<lfloor>y\<rfloor>) \<le> y" "y < real (nat \<lfloor>y\<rfloor>) + 1"
  by linarith+

lemma round_nat_cases:
  assumes "0 \<le> y"
  shows "round_nat mode neg y = nat \<lfloor>y\<rfloor> \<or> y \<noteq> real (nat \<lfloor>y\<rfloor>) \<and> round_nat mode neg y = Suc (nat \<lfloor>y\<rfloor>)"
  by (auto simp: round_nat_def Let_def split: rounding_mode.splits)

lemma round_nat_ge: "real k \<le> y \<Longrightarrow> k \<le> round_nat mode neg y"
proof -
  assume k: "real k \<le> y"
  then have "k \<le> nat \<lfloor>y\<rfloor>"
    by linarith
  then show ?thesis
    using round_nat_cases [of y mode neg] k by auto
qed

lemma round_nat_le: "0 \<le> y \<Longrightarrow> y \<le> real k \<Longrightarrow> round_nat mode neg y \<le> k"
  using round_nat_cases [of y mode neg] nat_floor_le [of y] by linarith

lemma round_nat_div:
  assumes "0 < D"
  shows "round_nat mode neg (real N / real D) =
     (if N mod D = 0 then N div D
      else case mode of
          NearestTiesToEven \<Rightarrow> if D < 2 * (N mod D) \<or> 2 * (N mod D) = D \<and> odd (N div D) then N div D + 1 else N div D
        | NearestTiesAway \<Rightarrow> if D \<le> 2 * (N mod D) then N div D + 1 else N div D
        | TowardZero \<Rightarrow> N div D
        | TowardPositive \<Rightarrow> if neg then N div D else N div D + 1
        | TowardNegative \<Rightarrow> if neg then N div D + 1 else N div D)"
proof -
  have q: "nat \<lfloor>real N / real D\<rfloor> = N div D"
    by (simp add: floor_divide_of_nat_eq)
  have "real N = real (N div D) * real D + real (N mod D)"
    by (metis div_mult_mod_eq of_nat_add of_nat_mult)
  then have "real N / real D = real (N div D) + real (N mod D) / real D"
    using assms by (simp add: field_simps)
  then have t: "real N / real D - real (N div D) = real (N mod D) / real D"
    by linarith
  have cmp: "1 / 2 < real (N mod D) / real D \<longleftrightarrow> D < 2 * (N mod D)"
      "1 / 2 \<le> real (N mod D) / real D \<longleftrightarrow> D \<le> 2 * (N mod D)"
      "real (N mod D) / real D = 1 / 2 \<longleftrightarrow> 2 * (N mod D) = D"
      "real (N mod D) / real D = 0 \<longleftrightarrow> N mod D = 0"
    using assms by (auto simp: field_simps simp flip: of_nat_mult of_nat_less_iff of_nat_le_iff)
  show ?thesis
    unfolding round_nat_def q t Let_def cmp by simp
qed

section \<open>Scaled comparison and division\<close>

lemma compare_scaled_sgn:
  assumes "bnorm lhs" "bnorm rhs"
  shows "compare_scaled lhs i rhs j = sgn (real (bval lhs) * 2 powi i - real (bval rhs) * 2 powi j)"
proof (cases "bval lhs = 0 \<or> bval rhs = 0")
  case True
  then show ?thesis
    using assms by (auto simp: compare_scaled_def big_is_zero_iff)
next
  case False
  then have pos: "0 < bval lhs" "0 < bval rhs" by simp_all
  note lt = big.scaled_less_by_width [OF assms pos, of i j]
    big.scaled_less_by_width [OF assms(2,1) pos(2,1), of j i]
  show ?thesis
    using lt False assms big.cmp_aligned [OF assms, of i j]
    by (auto simp: compare_scaled_def Let_def big_is_zero_iff big.scaled_def)
qed

text \<open>The exponent \<open>round_rational\<close> computes is the binary logarithm of the exact number.\<close>

definition quotient_exponent :: "biguint \<Rightarrow> biguint \<Rightarrow> int \<Rightarrow> int" where
  "quotient_exponent num den be =
     int (big_bit_width num) - int (big_bit_width den) + be
     - (if compare_scaled num 0 den (int (big_bit_width num) - int (big_bit_width den)) < 0 then 1 else 0)"

lemma floor_log2_eq:
  assumes "(2 :: real) powi e \<le> x" and "x < 2 powi (e + 1)"
  shows "\<lfloor>log 2 x\<rfloor> = e"
proof -
  have "0 < x"
    using assms(1) zero_less_power_int [of "2 :: real" e] by linarith
  then show ?thesis
    using assms floor_log_eq_powr_iff [of x 2 e] powr_real_of_int' [of 2 e] powr_real_of_int' [of 2 "e + 1"] by simp
qed

lemma floor_log2_bounds:
  assumes "0 < x"
  shows "(2 :: real) powi \<lfloor>log 2 x\<rfloor> \<le> x" and "x < 2 powi (\<lfloor>log 2 x\<rfloor> + 1)"
  using assms floor_log_eq_powr_iff [of x 2 "\<lfloor>log 2 x\<rfloor>"] powr_real_of_int' [of 2 "\<lfloor>log 2 x\<rfloor>"]
    powr_real_of_int' [of 2 "\<lfloor>log 2 x\<rfloor> + 1"] by simp_all

lemma quotient_exponent_log:
  assumes "bnorm num" "bnorm den" "0 < bval num" "0 < bval den"
  shows "quotient_exponent num den be = \<lfloor>log 2 (real (bval num) / real (bval den) * 2 powi be)\<rfloor>"
proof -
  define w where "w = int (big_bit_width num) - int (big_bit_width den)"
  define e where "e = w - (if compare_scaled num 0 den w < 0 then 1 else 0)"
  define x where "x = real (bval num) / real (bval den)"
  have b: "x < 2 powi (w + 1)" "2 powi (w - 1) < x"
    using big.quotient_bounds [OF assms] by (simp_all add: w_def x_def)
  have "real_of_int (compare_scaled num 0 den w) = sgn (real (bval num) - real (bval den) * 2 powi w)"
    using compare_scaled_sgn [OF assms(1,2), of 0 w] by simp
  then have "compare_scaled num 0 den w < 0 \<longleftrightarrow> real (bval num) < real (bval den) * 2 powi w"
    by (metis diff_less_0_iff_less of_int_less_0_iff sgn_less)
  also have "\<dots> \<longleftrightarrow> x < 2 powi w"
    using assms(4) by (simp add: x_def field_simps)
  finally have "2 powi e \<le> x \<and> x < 2 powi (e + 1)"
    using b by (auto simp: e_def)
  then have "2 powi (e + be) \<le> x * 2 powi be" "x * 2 powi be < 2 powi (e + be + 1)"
    by (simp_all add: power_int_add)
  then show ?thesis
    using floor_log2_eq [of "e + be" "x * 2 powi be"]
    by (simp add: quotient_exponent_def e_def w_def x_def)
qed

text \<open>The three results of \<open>scaled_division\<close> and the increment, as one rounded natural number.\<close>

definition rounded_quotient :: "rounding_mode \<Rightarrow> bool \<Rightarrow> biguint \<Rightarrow> biguint \<Rightarrow> int \<Rightarrow> biguint" where
  "rounded_quotient mode neg num den k =
     (case scaled_division num den k of (q, r, den') \<Rightarrow>
        if round_increment mode neg q r den' then add_small q 1 else q)"

lemma rounded_quotient_val:
  assumes "bnorm num" "bnorm den" "0 < bval den"
  shows "bval (rounded_quotient mode neg num den k) = round_nat mode neg (real (bval num) / real (bval den) * 2 powi k)"
    and "scaled_division num den k = (q, r, den') \<Longrightarrow>
      big_is_zero r \<longleftrightarrow> real (bval num) / real (bval den) * 2 powi k
        = round_nat mode neg (real (bval num) / real (bval den) * 2 powi k)"
proof -
  define x' where "x' = (if 0 \<le> k then shifted_left num (nat k) else num)"
  define y' where "y' = (if 0 \<le> k then den else shifted_left den (nat (- k)))"
  note div = big.division_at_scale [OF assms x'_def y'_def]
  let ?q = "fst (big_divmod x' y')" and ?r = "snd (big_divmod x' y')"
  have sd: "scaled_division num den k = (?q, ?r, y')"
    by (simp add: scaled_division_def Let_def x'_def y'_def split: prod.splits)
  have half: "big_compare (multiply_small ?r 2) y' = sgn (int (2 * (bval x' mod bval y')) - int (bval y'))"
    using div by (simp add: big_compare_sgn bnorm_multiply_small multiply_small_val mult.commute)
  have inc: "round_increment mode neg ?q ?r y' \<longleftrightarrow>
      round_nat mode neg (real (bval x') / real (bval y')) = Suc (bval x' div bval y')"
    using div(3) unfolding round_increment_def half round_nat_div [OF div(3)]
    by (auto simp: big_is_zero_iff div sgn_if big_is_odd_iff split: rounding_mode.splits)
  have cases: "round_nat mode neg (real (bval x') / real (bval y')) = bval x' div bval y' \<or>
      round_nat mode neg (real (bval x') / real (bval y')) = Suc (bval x' div bval y')"
    unfolding round_nat_div [OF div(3)] by (auto split: rounding_mode.splits)
  show "bval (rounded_quotient mode neg num den k) = round_nat mode neg (real (bval num) / real (bval den) * 2 powi k)"
    unfolding div(4) [symmetric] using inc cases by (auto simp: rounded_quotient_def sd div add_small_val)
  assume "scaled_division num den k = (q, r, den')"
  then have "big_is_zero r \<longleftrightarrow> bval x' mod bval y' = 0"
    using sd big_is_zero_iff [OF div(8)] div(6) by auto
  also have "\<dots> \<longleftrightarrow> real (bval x') / real (bval y') = round_nat mode neg (real (bval x') / real (bval y'))"
  proof
    assume "bval x' mod bval y' = 0"
    then have "real (bval x') / real (bval y') = real (bval x' div bval y')"
      using div(3) by (auto simp: mod_eq_0_iff_dvd real_of_nat_div)
    then show "real (bval x') / real (bval y') = round_nat mode neg (real (bval x') / real (bval y'))"
      by (metis round_nat_of_nat)
  next
    assume "real (bval x') / real (bval y') = round_nat mode neg (real (bval x') / real (bval y'))"
    then obtain n where "real (bval x') / real (bval y') = real n" by blast
    then have "real (bval x') = real (n * bval y')"
      using div(3) by (simp add: field_simps)
    then show "bval x' mod bval y' = 0"
      by (simp only: of_nat_eq_iff) simp
  qed
  finally show "big_is_zero r \<longleftrightarrow> real (bval num) / real (bval den) * 2 powi k
        = round_nat mode neg (real (bval num) / real (bval den) * 2 powi k)"
    by (simp only: div(4))
qed

section \<open>Packing a rounded number\<close>

lemma pair_lt_max:
  assumes "descriptor f = Some d" and "finite_pair d M q"
  shows "real M * 2 powi q < 2 powi (max_normal_exponent d + 1)"
proof -
  have "real M < real (2 ^ precision d)"
    using assms(2) unfolding finite_pair_def by (simp only: of_nat_less_iff)
  then have "real M * 2 powi q < 2 powi (int (precision d) + q)"
    by (simp add: power_int_add)
  also have "\<dots> \<le> 2 powi (max_normal_exponent d + 1)"
    using assms(2) by (intro power_int_increasing) (auto simp: finite_pair_def qmax_def)
  finally show ?thesis .
qed

lemma encoded_pair_not_pseudo:
  assumes "encoded v d s (exp_of_pair d M q) (stored_of_pair d M)" and "finite_pair d M q"
  shows "\<not> pseudo_denormal v"
  using encoded_fields(2) [OF assms(1)] decode_of_pair(4) [OF assms] assms(1)
  by (auto simp: pseudo_denormal_def encoded_def exp_of_pair_def split: if_splits)

lemma rounded_pairI:
  assumes d: "descriptor f = Some d" and M: "finite_pair d M q"
    and y: "round_to d (rounding control) neg x = real M * 2 powi q"
    and v: "encoded (fr_value r) d neg (exp_of_pair d M q) (stored_of_pair d M)" "semantics (fr_value r) = f"
    and r: "fr_error r = NoError" "fr_status r = round_status d control x (real M * 2 powi q)"
  shows "rounded f control neg x r"
  using pair_lt_max [OF d M] decode_of_pair [OF v(1) M] encoded_pair_not_pseudo [OF v(1) M] v(2) r
  by (auto simp: rounded_def d Let_def y mag_def finite_class_def)

lemma rounded_zeroI:
  assumes d: "descriptor f = Some d"
    and y: "round_to d (rounding control) neg x = 0"
    and v: "encoded (fr_value r) d neg 0 0" "semantics (fr_value r) = f"
    and r: "fr_error r = NoError" "fr_status r = round_status d control x 0"
  shows "rounded f control neg x r"
proof -
  have "\<not> (2 :: real) powi (max_normal_exponent d + 1) \<le> 0"
    using zero_less_power_int [of "2 :: real"] by (simp add: not_le)
  then show ?thesis
    using decode_zero [OF v(1)] v(2) r
    by (auto simp: rounded_def d Let_def y mag_def decoded_default_def pseudo_denormal_def finite_class_def)
qed

lemma encoded_normal_raw:
  assumes d: "descriptor f = Some d" and M: "finite_pair d M q" and "2 ^ (precision d - 1) \<le> M"
    and sig: "unat sig = M"
  shows "encoded (from_raw f (sign_bits s d OR push_bit (significand_storage_bits d)
           (word_of_int (q + (int (precision d) - 1) + exponent_bias d))
           OR (if explicit_integer_bit d then sig else sig AND (push_bit (precision d - 1) 1 - 1))))
         d s (exp_of_pair d M q) (stored_of_pair d M)"
proof -
  let ?b = "word_of_int (q + (int (precision d) - 1) + exponent_bias d) :: u128"
  let ?m = "if explicit_integer_bit d then sig else sig AND (push_bit (precision d - 1) 1 - 1)"
  have bias: "q + (int (precision d) - 1) + exponent_bias d = int (exp_of_pair d M q)"
    using fits_of_pair(5) [OF d M] assms(3) M
    by (simp add: exp_of_pair_def qmin_def bias_bounds(1) [OF d] finite_pair_def)
  have "exp_of_pair d M q < 2 ^ 128"
    using fits_of_pair(4) [OF d M] power_increasing [of "exponent_bits d" 128 "2 :: nat"]
      descriptor_cases(4) [OF d] by linarith
  then have e: "unat ?b = exp_of_pair d M q"
    unfolding bias by (simp add: unsigned_of_nat take_bit_nat_eq_self)
  have m: "unat ?m = stored_of_pair d M"
    by (simp add: stored_of_pair_def sig unat_and_exp_minus_1)
  show ?thesis
    using encoded_packed [OF d, of ?b ?m s] fits_of_pair(1) [OF d M] by (simp only: e m)
qed

lemma encoded_subnormal_raw:
  assumes d: "descriptor f = Some d" and M: "M < 2 ^ (precision d - 1)" and sig: "unat sig = M"
  shows "encoded (from_raw f (sign_bits s d OR sig)) d s 0 M"
proof -
  have "(2 :: nat) ^ (precision d - 1) \<le> 2 ^ significand_storage_bits d"
    using frac_bits(4,5) [OF d] by (intro power_increasing) (cases "explicit_integer_bit d"; simp)+
  with M have "M < 2 ^ significand_storage_bits d"
    by (rule less_le_trans)
  then have "fits d (unat (0 :: u128)) (unat sig)"
    unfolding sig by (simp add: fits_def)
  from encoded_packed [OF d this, of s] show ?thesis
    by (simp add: sig)
qed

section \<open>Rounding a rational number\<close>

text \<open>The branches of \<open>round_rational\<close> after the exponent is known.\<close>

lemma round_rational_unfold:
  assumes "descriptor f = Some d" and "bnorm num" "bnorm den" "0 < bval num" "0 < bval den"
    and "e = quotient_exponent num den be" "u = (if e < min_normal_exponent d then qmin d else e - (int (precision d) - 1))"
    and "R = to_u128 (rounded_quotient (rounding control) neg num den (be - u))"
    and "scaled_division num den (be - u) = (q, r, den')"
    and "status = (if big_is_zero r then 0
           else if (if tininess control = BeforeRounding then e < min_normal_exponent d
                    else e < min_normal_exponent d \<and> R < push_bit (precision d - 1) 1)
             then status_set (status_set 0 StInexact) StUnderflow else status_set 0 StInexact)"
    and "normal_raw = (\<lambda>expo sig. sign_bits neg d OR push_bit (significand_storage_bits d)
           (word_of_int (expo + exponent_bias d))
           OR (if explicit_integer_bit d then sig else sig AND (push_bit (precision d - 1) 1 - 1)))"
  shows "round_rational neg num den be f control =
    (if max_normal_exponent d + 1 < e then overflow_result f neg control
     else if e < qmin d - 1 then tiny_nonzero_result f neg control
     else if e < min_normal_exponent d then
       (if R < push_bit (precision d - 1) 1
        then \<lparr>fr_value = from_raw f (sign_bits neg d OR R), fr_status = status, fr_error = NoError\<rparr>
        else if max_normal_exponent d < min_normal_exponent d then overflow_result f neg control
        else \<lparr>fr_value = from_raw f (normal_raw (min_normal_exponent d) R), fr_status = status, fr_error = NoError\<rparr>)
     else if R < push_bit (precision d) 1 then
       (if max_normal_exponent d < e then overflow_result f neg control
        else \<lparr>fr_value = from_raw f (normal_raw e R), fr_status = status, fr_error = NoError\<rparr>)
     else if max_normal_exponent d < e + 1 then overflow_result f neg control
     else \<lparr>fr_value = from_raw f (normal_raw (e + 1) (drop_bit 1 R)), fr_status = status, fr_error = NoError\<rparr>)"
proof -
  have nz: "\<not> big_is_zero num" "\<not> big_is_zero den"
    using assms(2-5) by (simp_all add: big_is_zero_iff)
  have sd: "scaled_division num den
      (be - (if e < min_normal_exponent d then min_normal_exponent d - (int (precision d) - 1)
             else e - (int (precision d) - 1))) = (q, r, den')"
    using assms(9) unfolding assms(7) qmin_def .
  have R: "R = to_u128 (if round_increment (rounding control) neg q r den' then add_small q 1 else q)"
    using assms(9) by (simp add: assms(8) rounded_quotient_def)
  show ?thesis
    unfolding round_rational_def assms(1) option.case Let_def
      assms(6) [unfolded quotient_exponent_def, symmetric]
    unfolding sd prod.case R [symmetric] assms(10,11)
    unfolding qmin_def [symmetric]
    by (cases "e < min_normal_exponent d"; cases "R < push_bit (precision d - 1) 1"; cases "R < push_bit (precision d) 1"; cases "big_is_zero r";
        simp only: nz not_less [symmetric] if_True if_False simp_thms if_cancel cong: if_cong)
qed

lemma unit_exp_cases:
  "unit_exp d x = (if \<lfloor>log 2 x\<rfloor> < min_normal_exponent d then qmin d
     else \<lfloor>log 2 x\<rfloor> - (int (precision d) - 1))"
  by (auto simp: unit_exp_def qmin_def max_def)

lemma below_powi_iff:
  assumes "0 < x"
  shows "x < 2 powi k \<longleftrightarrow> \<lfloor>log 2 x\<rfloor> < k"
proof
  assume "x < 2 powi k"
  then have "(2 :: real) powi \<lfloor>log 2 x\<rfloor> < 2 powi k"
    using floor_log2_bounds(1) [OF assms] by linarith
  then show "\<lfloor>log 2 x\<rfloor> < k"
    by (simp only: two_powi_less)
next
  assume "\<lfloor>log 2 x\<rfloor> < k"
  then have "(2 :: real) powi (\<lfloor>log 2 x\<rfloor> + 1) \<le> 2 powi k"
    by (intro power_int_increasing) auto
  then show "x < 2 powi k"
    using floor_log2_bounds(2) [OF assms] by linarith
qed

text \<open>Scaling by the unit: a positive number of the format's subnormal range becomes a number
  below \<open>2 ^ (precision - 1)\<close>, any other one a number of exactly \<open>precision\<close> bits.\<close>

lemma scaled_to_unit:
  assumes d: "descriptor f = Some d" and x: "0 < x"
    and R: "R = round_nat mode neg (x / 2 powi unit_exp d x)"
  shows "\<lfloor>log 2 x\<rfloor> < min_normal_exponent d \<Longrightarrow> R \<le> 2 ^ (precision d - 1)"
    and "\<not> \<lfloor>log 2 x\<rfloor> < min_normal_exponent d \<Longrightarrow> 2 ^ (precision d - 1) \<le> R \<and> R \<le> 2 ^ precision d"
proof -
  obtain k where k: "precision d = Suc k"
    using frac_bits(2) [OF d] by metis
  have scale: "x / 2 powi u < 2 powi (j - u) \<longleftrightarrow> x < 2 powi j" "2 powi (j - u) \<le> x / 2 powi u \<longleftrightarrow> 2 powi j \<le> x" for u j
    by (simp_all add: power_int_diff field_simps)
  have pos: "0 \<le> x / 2 powi unit_exp d x"
    using x by simp
  show "R \<le> 2 ^ (precision d - 1)" if "\<lfloor>log 2 x\<rfloor> < min_normal_exponent d"
  proof -
    have "x / 2 powi qmin d < 2 powi (min_normal_exponent d - qmin d)"
      using that below_powi_iff [OF x] by (simp only: scale)
    then have "x / 2 powi unit_exp d x \<le> real (2 ^ k)"
      using that by (simp add: unit_exp_cases qmin_def k)
    from round_nat_le [OF pos this] show ?thesis
      by (simp add: R k)
  qed
  show "2 ^ (precision d - 1) \<le> R \<and> R \<le> 2 ^ precision d" if "\<not> \<lfloor>log 2 x\<rfloor> < min_normal_exponent d"
  proof -
    let ?e = "\<lfloor>log 2 x\<rfloor>"
    have u: "unit_exp d x = ?e - int k"
      using that by (simp add: unit_exp_cases k)
    have "2 powi (?e - unit_exp d x) \<le> x / 2 powi unit_exp d x" "x / 2 powi unit_exp d x < 2 powi (?e + 1 - unit_exp d x)"
      using floor_log2_bounds [OF x] by (simp_all only: scale)
    then have "real (2 ^ k) \<le> x / 2 powi unit_exp d x" "x / 2 powi unit_exp d x \<le> real (2 ^ Suc k)"
      by (simp_all add: u power_int_add)
    from round_nat_ge [OF this(1)] round_nat_le [OF pos this(2)] show ?thesis
      by (simp add: R k)
  qed
qed

lemma round_to_eq:
  "R = round_nat mode neg (x / 2 powi unit_exp d x) \<Longrightarrow> round_to d mode neg x = real R * 2 powi unit_exp d x"
  by (simp add: round_to_def)

lemma round_up_modes:
  "round_nat mode neg (3 / 4) = 1 \<longleftrightarrow>
     mode = NearestTiesToEven \<or> mode = NearestTiesAway \<or> mode = TowardPositive \<and> \<not> neg \<or> mode = TowardNegative \<and> neg"
proof -
  have "\<lfloor>3 / 4 :: real\<rfloor> = 0"
    by linarith
  then show ?thesis
    by (cases mode) (simp_all add: round_nat_def)
qed

lemma largest_pair:
  assumes "descriptor f = Some d"
  shows "real (2 ^ precision d - 1) * 2 powi qmax d = largest d"
proof -
  obtain k where k: "precision d = Suc k"
    using frac_bits(2) [OF assms] by metis
  have two: "(2 :: real) powi (max_normal_exponent d - int k) = 2 powi max_normal_exponent d * 2 powi (- int k)"
    using power_int_add [of "2 :: real" "max_normal_exponent d" "- int k"] by simp
  have "real (2 ^ Suc k - 1) = 2 * 2 ^ k - 1"
    by (simp add: of_nat_diff)
  moreover have "(2 :: real) ^ k * 2 powi (- int k) = 1"
    by (simp add: power_int_minus)
  ultimately have "real (2 ^ Suc k - 1) * 2 powi (- int k) = 2 - 2 powi (- int k)"
    by (simp add: algebra_simps)
  then show ?thesis
    by (simp add: largest_def qmax_def k two)
qed

lemma overflow_overflowed:
  assumes "descriptor f = Some d"
  shows "overflowed f d (rounding control) neg (overflow_result f neg control)"
proof -
  note mx = decode_maximum_finite [OF assms]
  note fin = decode_of_pair [OF mx, of neg] encoded_pair_not_pseudo [OF mx, of neg]
  have "mag (decode (maximum_finite f neg)) = largest d" "finite_class (classification (decode (maximum_finite f neg)))"
    using fin(1,2,4) largest_pair [OF assms] by (simp_all add: mag_def finite_class_def)
  moreover have "fr_value (overflow_result f neg control) =
      (if round_nat (rounding control) neg (3 / 4) = 1 then infinity f neg else maximum_finite f neg)"
    unfolding round_up_modes by (cases "rounding control") (simp_all add: overflow_result_def)
  moreover have "fr_status (overflow_result f neg control) = status_set (status_set 0 StOverflow) StInexact"
      "fr_error (overflow_result f neg control) = NoError"
    by (simp_all add: overflow_result_def Let_def)
  ultimately show ?thesis
    using fin(3,5) decode_infinity(1,2) [OF assms, of neg] semantics_special [OF assms] by (simp add: overflowed_def)
qed

lemma overflow_rounded:
  assumes d: "descriptor f = Some d" and x: "0 < x" and "max_normal_exponent d < \<lfloor>log 2 x\<rfloor>"
  shows "rounded f control neg x (overflow_result f neg control)"
proof -
  let ?R = "round_nat (rounding control) neg (x / 2 powi unit_exp d x)"
  obtain k where k: "precision d = Suc k"
    using frac_bits(2) [OF d] by metis
  have n: "\<not> \<lfloor>log 2 x\<rfloor> < min_normal_exponent d"
    using assms(3) bias_bounds(4) [OF d] by (simp add: qmin_def qmax_def)
  have "(2 :: nat) ^ k \<le> ?R"
    using scaled_to_unit(2) [OF d x refl n] by (simp add: k)
  then have "real (2 ^ k) \<le> real ?R"
    by (simp only: of_nat_le_iff)
  then have "2 powi int k * 2 powi (\<lfloor>log 2 x\<rfloor> - int k) \<le> round_to d (rounding control) neg x"
    using n by (simp add: round_to_def unit_exp_cases k)
  moreover have "(2 :: real) powi int k * 2 powi (\<lfloor>log 2 x\<rfloor> - int k) = 2 powi \<lfloor>log 2 x\<rfloor>"
    using power_int_add [of "2 :: real" "int k" "\<lfloor>log 2 x\<rfloor> - int k"] by simp
  moreover have "(2 :: real) powi (max_normal_exponent d + 1) \<le> 2 powi \<lfloor>log 2 x\<rfloor>"
    using assms(3) by (intro power_int_increasing) auto
  ultimately show ?thesis
    using overflow_overflowed [OF d] by (simp add: rounded_def d Let_def)
qed

lemma tiny_nonzero_rounded:
  assumes d: "descriptor f = Some d" and x: "0 < x" and small: "\<lfloor>log 2 x\<rfloor> < qmin d - 1"
  shows "rounded f control neg x (tiny_nonzero_result f neg control)"
proof -
  have p: "(1 :: nat) < 2 ^ (precision d - 1)"
    using frac_bits(7) [OF d] by (intro one_less_power) auto
  have tb: "\<lfloor>log 2 x\<rfloor> < min_normal_exponent d"
    using small by (simp add: qmin_def)
  then have u: "unit_exp d x = qmin d"
    by (simp add: unit_exp_cases)
  have "x < 2 powi (qmin d - 1)"
    using small below_powi_iff [OF x] by simp
  then have y: "x / 2 powi qmin d < 1 / 2" "0 < x / 2 powi qmin d"
    using x by (simp_all add: power_int_diff field_simps)
  then have fl: "\<lfloor>x / 2 powi qmin d\<rfloor> = 0"
    by linarith
  define away where "away \<longleftrightarrow> rounding control = TowardPositive \<and> \<not> neg \<or> rounding control = TowardNegative \<and> neg"
  have R: "round_to d (rounding control) neg x = (if away then 2 powi qmin d else 0)"
    using y by (auto simp: round_to_def u round_nat_def Let_def fl away_def split: rounding_mode.splits)
  have x_min: "x < 2 powi min_normal_exponent d" "x < 2 powi qmin d"
    using small by (auto simp: below_powi_iff [OF x] qmin_def)
  have m_min: "(2 :: real) powi qmin d < 2 powi min_normal_exponent d"
    using frac_bits(7) [OF d] by (intro power_int_strict_increasing) (auto simp: qmin_def)
  have st: "fr_status (tiny_nonzero_result f neg control) = status_set (status_set 0 StInexact) StUnderflow"
    by (simp add: tiny_nonzero_result_def Let_def status_set_def or.commute)
  show ?thesis
  proof (cases away)
    case True
    then have "fr_value (tiny_nonzero_result f neg control) = minimum_subnormal f neg"
      by (simp add: tiny_nonzero_result_def Let_def away_def)
    then show ?thesis
      using rounded_pairI [OF d decode_minimum_subnormal(2) [OF d], of control neg x]
        decode_minimum_subnormal(1) [OF d, of neg] True R st x_min m_min semantics_special [OF d]
      by (auto simp: round_status_def tiny_def tiny_nonzero_result_def Let_def)
  next
    case False
    then have "fr_value (tiny_nonzero_result f neg control) = zero f neg"
      by (auto simp: tiny_nonzero_result_def Let_def away_def)
    then show ?thesis
      using rounded_zeroI [OF d, of control neg x] encoded_zero [OF d] False R st x x_min semantics_special [OF d]
      by (auto simp: round_status_def tiny_def tiny_nonzero_result_def Let_def)
  qed
qed

text \<open>The machine word the significand is moved to holds it, and the tests on it are exact.\<close>

lemma rounded_word:
  assumes d: "descriptor f = Some d" and num: "bnorm num" "bnorm den" "0 < bval num" "0 < bval den"
    and x: "x = real (bval num) / real (bval den) * 2 powi be"
    and R: "R = to_u128 (rounded_quotient mode neg num den (be - unit_exp d x))"
    and M: "M = round_nat mode neg (x / 2 powi unit_exp d x)"
  shows "unat R = M" "j < 128 \<Longrightarrow> R < push_bit j 1 \<longleftrightarrow> M < 2 ^ j"
    and "scaled_division num den (be - unit_exp d x) = (q, r, den') \<Longrightarrow>
           big_is_zero r \<longleftrightarrow> x = real M * 2 powi unit_exp d x"
proof -
  have x_pos: "0 < x"
    using num by (simp add: x)
  have scale: "real (bval num) / real (bval den) * 2 powi (be - unit_exp d x) = x / 2 powi unit_exp d x"
    by (simp add: x power_int_diff)
  have "M \<le> 2 ^ precision d"
    using scaled_to_unit [OF d x_pos M] power_increasing [of "precision d - 1" "precision d" "2 :: nat"]
      diff_le_self [of "precision d" 1] by linarith
  also have "(2 :: nat) ^ precision d < 2 ^ 128"
    using frac_bits(3) [OF d] by (intro power_strict_increasing) auto
  finally have "M < 2 ^ 128" .
  moreover have "bval (rounded_quotient mode neg num den (be - unit_exp d x)) = M"
    by (simp only: rounded_quotient_val(1) [OF num(1,2,4)] scale M)
  ultimately show unat_R: "unat R = M"
    by (simp add: R to_u128_val)
  show "j < 128 \<Longrightarrow> R < push_bit j 1 \<longleftrightarrow> M < 2 ^ j"
    by (simp add: word_less_nat_alt unat_R unat_exp2)
  assume "scaled_division num den (be - unit_exp d x) = (q, r, den')"
  from rounded_quotient_val(2) [OF num(1,2,4) this, of mode neg]
  have "big_is_zero r \<longleftrightarrow> x / 2 powi unit_exp d x = real M"
    by (simp only: scale M)
  then show "big_is_zero r \<longleftrightarrow> x = real M * 2 powi unit_exp d x"
    by (simp add: field_simps)
qed

lemma tiny_after_iff:
  assumes d: "descriptor f = Some d" and x: "0 < x" and M: "M = round_nat mode neg (x / 2 powi unit_exp d x)"
  shows "real M * 2 powi unit_exp d x < 2 powi min_normal_exponent d \<longleftrightarrow>
    \<lfloor>log 2 x\<rfloor> < min_normal_exponent d \<and> M < 2 ^ (precision d - 1)"
proof (cases "\<lfloor>log 2 x\<rfloor> < min_normal_exponent d")
  case True
  have "real M * 2 powi qmin d < 2 powi (int (precision d - 1) + qmin d) \<longleftrightarrow> real M < real (2 ^ (precision d - 1))"
    by (simp add: power_int_add)
  then show ?thesis
    using True frac_bits(7) [OF d] by (simp add: unit_exp_cases qmin_def of_nat_diff)
next
  case False
  have "real (2 ^ (precision d - 1)) \<le> real M"
    using scaled_to_unit(2) [OF d x M False] by (simp only: of_nat_le_iff)
  then have "2 powi (int (precision d - 1) + unit_exp d x) \<le> real M * 2 powi unit_exp d x"
    by (simp add: power_int_add)
  then have "2 powi \<lfloor>log 2 x\<rfloor> \<le> real M * 2 powi unit_exp d x"
    using False frac_bits(7) [OF d] by (simp add: unit_exp_cases of_nat_diff)
  moreover have "(2 :: real) powi min_normal_exponent d \<le> 2 powi \<lfloor>log 2 x\<rfloor>"
    using False by (intro power_int_increasing) auto
  ultimately show ?thesis
    using False by auto
qed

text \<open>What remains of \<open>round_rational\<close> once the number is scaled to its unit and rounded.\<close>

lemma rounded_normalI:
  assumes d: "descriptor f = Some d" and M: "finite_pair d M q" "2 ^ (precision d - 1) \<le> M" "unat sig = M"
    and y: "round_to d (rounding control) neg x = real M * 2 powi q"
  shows "rounded f control neg x
    \<lparr>fr_value = from_raw f (sign_bits neg d OR push_bit (significand_storage_bits d)
           (word_of_int (q + (int (precision d) - 1) + exponent_bias d))
           OR (if explicit_integer_bit d then sig else sig AND (push_bit (precision d - 1) 1 - 1))),
     fr_status = round_status d control x (real M * 2 powi q), fr_error = NoError\<rparr>"
  by (rule rounded_pairI [OF d M(1) y]) (simp_all only: float_result.simps encoded_normal_raw [OF d M] raw_bits_from_raw(2) [OF d])

lemma rounded_subnormalI:
  assumes d: "descriptor f = Some d" and M: "M < 2 ^ (precision d - 1)" "unat sig = M"
    and y: "round_to d (rounding control) neg x = real M * 2 powi qmin d"
  shows "rounded f control neg x
    \<lparr>fr_value = from_raw f (sign_bits neg d OR sig),
     fr_status = round_status d control x (real M * 2 powi qmin d), fr_error = NoError\<rparr>"
proof (cases "M = 0")
  case True
  then show ?thesis
    using encoded_subnormal_raw [OF d M] y
    by (intro rounded_zeroI [OF d]) (simp_all add: raw_bits_from_raw(2) [OF d])
next
  case False
  have "M < 2 ^ precision d"
    using M(1) by (rule less_le_trans) (simp add: power_increasing)
  with False M have pair: "finite_pair d M (qmin d)"
    using bias_bounds(4) [OF d] by (simp add: finite_pair_def)
  have "exp_of_pair d M (qmin d) = 0" "stored_of_pair d M = M"
    using M(1) by (simp_all add: exp_of_pair_def stored_of_pair_def)
  then show ?thesis
    using encoded_subnormal_raw [OF d M, of neg]
    by (intro rounded_pairI [OF d pair y]) (simp_all add: raw_bits_from_raw(2) [OF d])
qed

text \<open>\<open>round_rational\<close> with its tests read as tests on the rounded number \<open>M\<close>, and its flags as
  those of the specification.\<close>

definition finish :: "float_format \<Rightarrow> format_descriptor \<Rightarrow> bool \<Rightarrow> float_status \<Rightarrow> int \<Rightarrow> u128 \<Rightarrow> float_result" where
  "finish f d neg st expo sig =
     \<lparr>fr_value = from_raw f (sign_bits neg d OR push_bit (significand_storage_bits d) (word_of_int (expo + exponent_bias d))
           OR (if explicit_integer_bit d then sig else sig AND (push_bit (precision d - 1) 1 - 1))),
      fr_status = st, fr_error = NoError\<rparr>"

definition round_branches ::
  "float_format \<Rightarrow> format_descriptor \<Rightarrow> bool \<Rightarrow> float_control \<Rightarrow> int \<Rightarrow> nat \<Rightarrow> float_status \<Rightarrow> u128 \<Rightarrow> float_result" where
  "round_branches f d neg control e M st R =
    (if max_normal_exponent d + 1 < e then overflow_result f neg control
     else if e < qmin d - 1 then tiny_nonzero_result f neg control
     else if e < min_normal_exponent d then
       (if M < 2 ^ (precision d - 1)
        then \<lparr>fr_value = from_raw f (sign_bits neg d OR R), fr_status = st, fr_error = NoError\<rparr>
        else if max_normal_exponent d < min_normal_exponent d then overflow_result f neg control
        else finish f d neg st (min_normal_exponent d) R)
     else if M < 2 ^ precision d then
       (if max_normal_exponent d < e then overflow_result f neg control else finish f d neg st e R)
     else if max_normal_exponent d < e + 1 then overflow_result f neg control
     else finish f d neg st (e + 1) (drop_bit 1 R))"

lemma round_rational_by_unit:
  assumes d: "descriptor f = Some d" and num: "bnorm num" "bnorm den" "0 < bval num" "0 < bval den"
    and x: "x = real (bval num) / real (bval den) * 2 powi be"
    and M: "M = round_nat (rounding control) neg (x / 2 powi unit_exp d x)" and e: "e = \<lfloor>log 2 x\<rfloor>"
    and st: "st = round_status d control x (real M * 2 powi unit_exp d x)"
  obtains R where "unat R = M" and "round_rational neg num den be f control = round_branches f d neg control e M st R"
proof -
  define u where "u = unit_exp d x"
  define R where "R = to_u128 (rounded_quotient (rounding control) neg num den (be - u))"
  obtain q r den' where sd: "scaled_division num den (be - u) = (q, r, den')"
    by (metis prod_cases3)
  have x_pos: "0 < x"
    using num by (simp add: x)
  have e': "e = quotient_exponent num den be"
    using quotient_exponent_log [OF num] by (simp add: e x)
  have u: "u = (if e < min_normal_exponent d then qmin d else e - (int (precision d) - 1))"
    by (simp add: u_def e unit_exp_cases)
  note word = rounded_word [OF d num x R_def [unfolded u_def] M]
  have lt: "R < push_bit (precision d - 1) 1 \<longleftrightarrow> M < 2 ^ (precision d - 1)"
      "R < push_bit (precision d) 1 \<longleftrightarrow> M < 2 ^ precision d"
    using frac_bits(3) [OF d] by (intro word(2); simp)+
  have "x < 2 powi min_normal_exponent d \<longleftrightarrow> e < min_normal_exponent d"
    by (simp add: e below_powi_iff [OF x_pos])
  then have "st = (if big_is_zero r then 0
           else if (if tininess control = BeforeRounding then e < min_normal_exponent d
                    else e < min_normal_exponent d \<and> R < push_bit (precision d - 1) 1)
             then status_set (status_set 0 StInexact) StUnderflow else status_set 0 StInexact)"
    using word(3) [OF sd [unfolded u_def]] tiny_after_iff [OF d x_pos M]
    unfolding lt by (simp add: st round_status_def tiny_def e)
  from that [OF word(1) round_rational_unfold [OF d num e' u R_def sd this refl, unfolded lt, folded finish_def, folded round_branches_def]]
  show thesis .
qed

lemma finish_rounded:
  assumes d: "descriptor f = Some d" and M: "finite_pair d M q" "2 ^ (precision d - 1) \<le> M" "unat sig = M"
    and y: "round_to d (rounding control) neg x = real M * 2 powi q"
    and st: "st = round_status d control x (real M * 2 powi q)" and e: "e = q + (int (precision d) - 1)"
  shows "rounded f control neg x (finish f d neg st e sig)"
  using rounded_normalI [OF d M y] unfolding finish_def st e .

lemma pair_of_exponent:
  assumes "descriptor f = Some d" and "min_normal_exponent d \<le> e" "e \<le> max_normal_exponent d"
    and "2 ^ (precision d - 1) \<le> M" "M < 2 ^ precision d"
  shows "finite_pair d M (e - (int (precision d) - 1))"
proof -
  have "0 < M"
    using assms(4) zero_less_power [of "2 :: nat" "precision d - 1"] by linarith
  then show ?thesis
    using assms by (simp add: finite_pair_def qmin_def qmax_def)
qed

lemma round_branches_tiny:
  assumes d: "descriptor f = Some d" and x: "0 < x" and e: "e = \<lfloor>log 2 x\<rfloor>" "e < min_normal_exponent d"
    and M: "M = round_nat (rounding control) neg (x / 2 powi unit_exp d x)" and R: "unat R = M"
    and st: "st = round_status d control x (real M * 2 powi unit_exp d x)"
  shows "rounded f control neg x (round_branches f d neg control e M st R)"
proof -
  have u: "unit_exp d x = qmin d"
    using e by (simp add: unit_exp_cases)
  have y: "round_to d (rounding control) neg x = real M * 2 powi qmin d"
    using M by (simp add: round_to_def u)
  have le: "min_normal_exponent d \<le> max_normal_exponent d"
    using bias_bounds(4) [OF d] by (simp add: qmin_def qmax_def)
  have no_over: "\<not> max_normal_exponent d + 1 < e"
    using e(2) le by simp
  consider "e < qmin d - 1" | "\<not> e < qmin d - 1" "M < 2 ^ (precision d - 1)" | "\<not> e < qmin d - 1" "M = 2 ^ (precision d - 1)"
    using scaled_to_unit(1) [OF d x M] e by fastforce
  then show ?thesis
  proof cases
    case 1
    then show ?thesis
      using tiny_nonzero_rounded [OF d x] no_over e(1) by (simp add: round_branches_def)
  next
    case 2
    then show ?thesis
      using rounded_subnormalI [OF d 2(2) R y] e(2) no_over by (simp add: round_branches_def st u)
  next
    case 3
    have pair: "finite_pair d M (qmin d)"
      unfolding qmin_def using 3(2) le frac_bits(7) [OF d] by (intro pair_of_exponent [OF d]) (simp_all add: power_strict_increasing)
    show ?thesis
      using finish_rounded [OF d pair _ R y refl, of "min_normal_exponent d"] 3 e(2) le no_over
      by (simp add: round_branches_def st u qmin_def)
  qed
qed

lemma round_branches_normal:
  assumes d: "descriptor f = Some d" and x: "0 < x" and e: "e = \<lfloor>log 2 x\<rfloor>" "\<not> e < min_normal_exponent d"
    and M: "M = round_nat (rounding control) neg (x / 2 powi unit_exp d x)" and R: "unat R = M"
    and st: "st = round_status d control x (real M * 2 powi unit_exp d x)"
  shows "rounded f control neg x (round_branches f d neg control e M st R)"
proof -
  have u: "unit_exp d x = e - (int (precision d) - 1)"
    using e by (simp add: unit_exp_cases)
  have y: "round_to d (rounding control) neg x = real M * 2 powi (e - (int (precision d) - 1))"
    using M by (simp add: round_to_def u)
  have not_tiny: "\<not> e < qmin d - 1"
    using e(2) frac_bits(7) [OF d] by (simp add: qmin_def)
  obtain k where k: "precision d = Suc k"
    using frac_bits(2) [OF d] by metis
  consider "max_normal_exponent d < e" | "e \<le> max_normal_exponent d" "2 ^ k \<le> M" "M < 2 ^ Suc k"
    | "e \<le> max_normal_exponent d" "M = 2 ^ Suc k"
    using scaled_to_unit(2) [OF d x M] e by (fastforce simp: k)
  then show ?thesis
  proof cases
    case 1
    then show ?thesis
      using overflow_rounded [OF d x, of control neg] e not_tiny by (simp add: round_branches_def)
  next
    case 2
    then have "finite_pair d M (e - (int (precision d) - 1))"
      using e(2) by (intro pair_of_exponent [OF d]) (simp_all add: k)
    from finish_rounded [OF d this _ R y refl, of e] show ?thesis
      using 2 e(2) not_tiny by (simp add: round_branches_def st u k)
  next
    case 3
    have y': "round_to d (rounding control) neg x = real (2 ^ k) * 2 powi (e + 1 - (int (precision d) - 1))"
      using 3 by (simp add: y power_int_diff power_int_add k)
    show ?thesis
    proof (cases "max_normal_exponent d < e + 1")
      case True
      have "(2 :: real) powi (max_normal_exponent d + 1) \<le> 2 powi (e + 1)"
        using True by (intro power_int_increasing) auto
      also have "\<dots> = round_to d (rounding control) neg x"
        by (simp add: y' power_int_diff k)
      finally show ?thesis
        using True 3 e(2) not_tiny overflow_overflowed [OF d] by (simp add: rounded_def d Let_def round_branches_def k)
    next
      case False
      then have "finite_pair d (2 ^ k) (e + 1 - (int (precision d) - 1))"
        using e(2) by (intro pair_of_exponent [OF d]) (simp_all add: k)
      moreover have "unat (drop_bit 1 R) = 2 ^ k"
        using 3 by (simp add: unat_drop_bit_div R)
      moreover have "st = round_status d control x (real (2 ^ k) * 2 powi (e + 1 - (int (precision d) - 1)))"
        unfolding st u using y y' by simp
      ultimately show ?thesis
        using finish_rounded [OF d _ _ _ y', of "drop_bit 1 R" st "e + 1"] False 3 e(2) not_tiny
        by (simp add: round_branches_def k)
    qed
  qed
qed

theorem round_rational_rounded:
  assumes d: "descriptor f = Some d" and num: "bnorm num" "bnorm den" "0 < bval num" "0 < bval den"
    and x: "x = real (bval num) / real (bval den) * 2 powi be"
  shows "rounded f control neg x (round_rational neg num den be f control)"
proof -
  have x_pos: "0 < x"
    using num by (simp add: x)
  show ?thesis
    by (rule round_rational_by_unit [OF d num x refl refl refl, of control neg])
      (use round_branches_tiny [OF d x_pos refl _ refl _ refl] round_branches_normal [OF d x_pos refl _ refl _ refl]
       in fastforce)
qed

end
