(* ===== verification/Float_Optimal.thy ===== *)
theory Float_Optimal
  imports Float_Round_Correct
begin

text \<open>
  What rounding means: no number of the format lies strictly between the two candidates
  \<open>round_to\<close> chooses from, so the nearest modes return a nearest number, the directed modes
  the neighbour in their direction, and a number of the format is returned unchanged.
\<close>

definition representable :: "format_descriptor \<Rightarrow> real \<Rightarrow> bool" where
  "representable d z \<longleftrightarrow> z = 0 \<or> (\<exists>M q. finite_pair d M q \<and> z = real M * 2 powi q)"

lemma representable_nonneg: "representable d z \<Longrightarrow> 0 \<le> z"
  by (auto simp: representable_def)

definition lower :: "format_descriptor \<Rightarrow> real \<Rightarrow> real" where
  "lower d x = real (nat \<lfloor>x / 2 powi unit_exp d x\<rfloor>) * 2 powi unit_exp d x"

definition upper :: "format_descriptor \<Rightarrow> real \<Rightarrow> real" where
  "upper d x = lower d x + 2 powi unit_exp d x"

lemma lower_upper_bounds:
  assumes "0 < x"
  shows "lower d x \<le> x" "x < upper d x"
proof -
  have "0 \<le> x / 2 powi unit_exp d x"
    using assms by simp
  have "real (nat \<lfloor>x / 2 powi unit_exp d x\<rfloor>) \<le> x / 2 powi unit_exp d x"
      "x / 2 powi unit_exp d x < real (nat \<lfloor>x / 2 powi unit_exp d x\<rfloor>) + 1"
    using nat_floor_le [of "x / 2 powi unit_exp d x"] assms by simp_all
  then show "lower d x \<le> x" "x < upper d x"
    by (simp_all add: lower_def upper_def field_simps)
qed

lemma lower_ge_log:
  assumes d: "descriptor f = Some d" and x: "0 < x" and u: "qmin d < unit_exp d x"
  shows "2 powi \<lfloor>log 2 x\<rfloor> \<le> lower d x"
proof -
  have e: "unit_exp d x = \<lfloor>log 2 x\<rfloor> - (int (precision d) - 1)"
    using u by (simp add: unit_exp_cases split: if_splits)
  then have k: "\<lfloor>log 2 x\<rfloor> = int (precision d - 1) + unit_exp d x"
    using frac_bits(7) [OF d] by (simp add: of_nat_diff)
  have "2 powi int (precision d - 1) * 2 powi unit_exp d x \<le> x"
    using floor_log2_bounds(1) [OF x] k by (metis power_int_add zero_neq_numeral)
  then have "real (2 ^ (precision d - 1)) \<le> x / 2 powi unit_exp d x"
    by (simp add: field_simps)
  then have "2 ^ (precision d - 1) \<le> nat \<lfloor>x / 2 powi unit_exp d x\<rfloor>"
    by linarith
  then have "real (2 ^ (precision d - 1)) \<le> real (nat \<lfloor>x / 2 powi unit_exp d x\<rfloor>)"
    by (simp only: of_nat_le_iff)
  then show ?thesis
    by (simp add: lower_def k power_int_add)
qed

lemma multiple_of_unit:
  assumes "u \<le> q"
  obtains n :: nat where "real M * 2 powi q = real n * 2 powi u"
proof -
  have "(2 :: real) powi q = 2 ^ nat (q - u) * 2 powi u"
    using assms powi_shift [of "q - u"] power_int_add [of "2 :: real" "q - u" u] by simp
  then have "real M * 2 powi q = real (M * 2 ^ nat (q - u)) * 2 powi u"
    by simp
  then show thesis
    by (rule that)
qed

text \<open>There is no number of the format strictly between the two candidates.\<close>

lemma no_number_between:
  assumes d: "descriptor f = Some d" and x: "0 < x" and z: "representable d z"
  shows "z \<le> lower d x \<or> upper d x \<le> z"
proof (cases "z = 0")
  case True
  then show ?thesis
    by (simp add: lower_def)
next
  case False
  with z obtain M q where M: "finite_pair d M q" and zq: "z = real M * 2 powi q"
    by (auto simp: representable_def)
  let ?u = "unit_exp d x"
  show ?thesis
  proof (cases "?u \<le> q")
    case True
    then obtain n :: nat where n: "z = real n * 2 powi ?u"
      using multiple_of_unit zq by metis
    have "n \<le> nat \<lfloor>x / 2 powi ?u\<rfloor> \<or> nat \<lfloor>x / 2 powi ?u\<rfloor> + 1 \<le> n"
      by linarith
    then show ?thesis
    proof
      assume "n \<le> nat \<lfloor>x / 2 powi ?u\<rfloor>"
      then show ?thesis
        unfolding n lower_def by (intro disjI1 mult_right_mono) simp_all
    next
      assume "nat \<lfloor>x / 2 powi ?u\<rfloor> + 1 \<le> n"
      then have "(real (nat \<lfloor>x / 2 powi ?u\<rfloor>) + 1) * 2 powi ?u \<le> real n * 2 powi ?u"
        by (intro mult_right_mono) simp_all
      then show ?thesis
        by (simp add: n lower_def upper_def algebra_simps)
    qed
  next
    case False
    then have qu: "qmin d < ?u"
      using M by (simp add: finite_pair_def)
    have "real M \<le> real (2 ^ precision d)"
      using M unfolding finite_pair_def by (simp only: of_nat_le_iff less_imp_le)
    then have "z \<le> 2 powi int (precision d) * 2 powi q"
      by (simp add: zq)
    also have "\<dots> = 2 powi (int (precision d) + q)"
      by (simp add: power_int_add)
    also have "\<dots> \<le> 2 powi \<lfloor>log 2 x\<rfloor>"
      using False qu by (intro power_int_increasing) (auto simp: unit_exp_cases split: if_splits)
    also have "\<dots> \<le> lower d x"
      by (rule lower_ge_log [OF d x qu])
    finally show ?thesis ..
  qed
qed

text \<open>The candidate each mode takes.\<close>

lemma round_to_candidates:
  assumes x: "0 < x" and y_def: "y = round_to d mode neg x"
  shows "y = lower d x \<or> y = upper d x"
    and "mode = NearestTiesToEven \<or> mode = NearestTiesAway \<Longrightarrow>
      \<bar>y - x\<bar> \<le> x - lower d x \<and> \<bar>y - x\<bar> \<le> upper d x - x"
    and "mode = TowardZero \<or> mode = TowardPositive \<and> neg \<or> mode = TowardNegative \<and> \<not> neg \<Longrightarrow> y = lower d x"
    and "mode = TowardPositive \<and> \<not> neg \<or> mode = TowardNegative \<and> neg \<Longrightarrow>
      y = (if x = lower d x then x else upper d x)"
proof -
  define u :: real where "u = 2 powi unit_exp d x"
  define t where "t = x / u"
  define n where "n = nat \<lfloor>t\<rfloor>"
  have u: "0 < u" and x_t: "x = t * u"
    by (simp_all add: u_def t_def)
  have y: "y = real (round_nat mode neg t) * u" and lo: "lower d x = real n * u" and up: "upper d x = real (n + 1) * u"
    by (simp_all add: y_def round_to_def lower_def upper_def u_def t_def n_def algebra_simps)
  have "0 \<le> t"
    using x u by (simp add: t_def)
  then have n: "real n \<le> t" "t < real n + 1"
    unfolding n_def by (simp_all add: nat_floor_le)
  show "y = lower d x \<or> y = upper d x"
    using round_nat_cases [OF \<open>0 \<le> t\<close>, of mode neg] by (auto simp: y lo up n_def)
  have dist: "\<bar>real k * u - x\<bar> = \<bar>real k - t\<bar> * u" for k
    using u by (simp add: x_t abs_mult flip: left_diff_distrib)
  show "\<bar>y - x\<bar> \<le> x - lower d x \<and> \<bar>y - x\<bar> \<le> upper d x - x" if "mode = NearestTiesToEven \<or> mode = NearestTiesAway"
  proof -
    have "\<bar>real (round_nat mode neg t) - t\<bar> \<le> t - real n \<and> \<bar>real (round_nat mode neg t) - t\<bar> \<le> real (n + 1) - t"
      using that n by (auto simp: round_nat_def Let_def n_def [symmetric])
    then have "\<bar>y - x\<bar> \<le> (t - real n) * u \<and> \<bar>y - x\<bar> \<le> (real (n + 1) - t) * u"
      using u by (simp add: y dist)
    then show ?thesis
      unfolding lo up using x_t by (simp add: algebra_simps)
  qed
  show "y = lower d x" if "mode = TowardZero \<or> mode = TowardPositive \<and> neg \<or> mode = TowardNegative \<and> \<not> neg"
    using that by (auto simp: y lo round_nat_def Let_def n_def)
  show "y = (if x = lower d x then x else upper d x)" if "mode = TowardPositive \<and> \<not> neg \<or> mode = TowardNegative \<and> neg"
    unfolding lo up y using that u x_t by (auto simp: round_nat_def Let_def n_def [symmetric])
qed

lemma round_to_nearest:
  assumes "descriptor f = Some d" and "0 < x" and "mode = NearestTiesToEven \<or> mode = NearestTiesAway" and "representable d z"
  shows "\<bar>round_to d mode neg x - x\<bar> \<le> \<bar>z - x\<bar>"
  using no_number_between [OF assms(1,2,4)] round_to_candidates(2) [OF assms(2) refl assms(3), of d neg]
    lower_upper_bounds [OF assms(2), of d]
  by linarith

lemma round_to_down:
  assumes "descriptor f = Some d" and "0 < x"
    and "mode = TowardZero \<or> mode = TowardPositive \<and> neg \<or> mode = TowardNegative \<and> \<not> neg"
    and "representable d z" "z \<le> x"
  shows "z \<le> round_to d mode neg x" "round_to d mode neg x \<le> x"
  using no_number_between [OF assms(1,2,4)] round_to_candidates(3) [OF assms(2) refl assms(3)]
    lower_upper_bounds [OF assms(2), of d] assms(5) by auto

lemma round_to_up:
  assumes "descriptor f = Some d" and "0 < x"
    and "mode = TowardPositive \<and> \<not> neg \<or> mode = TowardNegative \<and> neg"
    and "representable d z" "x \<le> z"
  shows "round_to d mode neg x \<le> z" "x \<le> round_to d mode neg x"
  using no_number_between [OF assms(1,2,4)] round_to_candidates(4) [OF assms(2) refl assms(3)]
    lower_upper_bounds [OF assms(2), of d] assms(5) by (auto split: if_splits)

lemma round_to_exact:
  assumes "descriptor f = Some d" and "0 < x" and "representable d x"
  shows "round_to d mode neg x = x"
proof -
  have x: "x = lower d x"
    using no_number_between [OF assms(1,2,3)] lower_upper_bounds [OF assms(2), of d] by auto
  have "x / 2 powi unit_exp d x = real (nat \<lfloor>x / 2 powi unit_exp d x\<rfloor>)"
    by (subst x) (simp add: lower_def)
  then have "round_nat mode neg (x / 2 powi unit_exp d x) = nat \<lfloor>x / 2 powi unit_exp d x\<rfloor>"
    using round_nat_of_nat [of mode neg "nat \<lfloor>x / 2 powi unit_exp d x\<rfloor>"] by simp
  then show ?thesis
    using x by (simp add: round_to_def lower_def)
qed

section \<open>Consequences for results\<close>

lemma significand_not_finite:
  "\<not> is_finite_nonzero (classification (decode v)) \<Longrightarrow> significand (decode v) = [] \<and> mag (decode v) = 0"
  by (auto simp: decode_def decode_fields_def Let_def decoded_default_def is_finite_nonzero_def mag_def
      split: option.splits if_splits)

lemma decode_valid:
  assumes "classification (decode v) \<noteq> ClsInvalid"
  obtains d s e m where "encoded v d s e m" and "descriptor (semantics v) = Some d"
proof -
  obtain d where d: "descriptor (semantics v) = Some d"
    using assms by (cases "descriptor (semantics v)") (simp_all add: decode_def decoded_default_def)
  moreover have "canonical v"
    using assms by (rule contrapos_np) (simp add: decode_def d decoded_default_def)
  ultimately show thesis
    using that canonical_encoded by metis
qed

lemma finite_representable:
  assumes "descriptor (semantics v) = Some d" and "finite_class (classification (decode v))"
  shows "representable d (mag (decode v))"
proof (cases "is_finite_nonzero (classification (decode v))")
  case True
  then obtain s e m where v: "encoded v d s e m"
    using decode_valid [of v] assms(1) unfolding is_finite_nonzero_def
    by (metis float_class.distinct(3,5) option.inject)
  show ?thesis
    using decode_finite_pair(1) [OF v True] by (auto simp: representable_def mag_def)
next
  case False
  then show ?thesis
    by (simp add: significand_not_finite representable_def)
qed

lemma overflow_status: "overflowed f d mode neg r \<Longrightarrow> status_has (fr_status r) StOverflow"
  by (simp add: overflowed_def status_has_def status_set_def)

lemma rounded_fval:
  assumes "descriptor f = Some d" and "rounded f control neg x r" and "\<not> status_has (fr_status r) StOverflow"
  shows "fval (fr_value r) = signed neg (round_to d (rounding control) neg x)"
  using assms overflow_status [of f d "rounding control" neg r] by (auto simp: rounded_def fval_def Let_def split: if_splits)

lemma finite_value_cases:
  assumes "descriptor (semantics w) = Some d" and "finite_class (classification (decode w))"
  obtains z where "representable d z" "fval w = z" | z where "representable d z" "fval w = - z"
  using finite_representable [OF assms] by (cases "negative (decode w)") (auto simp: fval_def signed_def)

section \<open>Properties\<close>

text \<open>
  C1: the rounding step every operation ends in. For a nonzero numerator and denominator of
  any size and any binary exponent, in every format, rounding mode and tininess mode, the
  result of \<open>round_rational\<close> is the exact number rounded to the format: the value and the
  Inexact and Underflow flags are those of the specification over the real numbers, and a
  number too large for the format becomes infinity or the largest number as the mode has it,
  with Overflow and Inexact.
\<close>

theorem round_rational_correct:
  assumes "descriptor f = Some d" and "bnorm num" "bnorm den" "0 < bval num" "0 < bval den"
  shows "rounded f control neg (real (bval num) / real (bval den) * 2 powi be) (round_rational neg num den be f control)"
  using round_rational_rounded [OF assms refl] .

theorem round_rational_correct_witness:
  "rounded IEEEBinary32 default_control False (1 / 3) (round_rational False [1] [3] 0 IEEEBinary32 default_control)"
proof -
  obtain d where "descriptor IEEEBinary32 = Some d"
    by (simp add: descriptor_def)
  from round_rational_correct [OF this, of "[1]" "[3]" default_control False 0] show ?thesis
    by (simp add: bnorm_def)
qed

text \<open>
  in the two nearest modes no finite value of the format is closer to the exact number
  than the result, unless the result overflowed.
\<close>

theorem round_rational_nearest:
  assumes d: "descriptor f = Some d" and num: "bnorm num" "bnorm den" "0 < bval num" "0 < bval den"
    and x: "x = signed neg (real (bval num) / real (bval den) * 2 powi be)"
    and r: "r = round_rational neg num den be f control"
    and mode: "rounding control = NearestTiesToEven \<or> rounding control = NearestTiesAway"
    and no_overflow: "\<not> status_has (fr_status r) StOverflow"
    and w: "semantics w = f" "finite_class (classification (decode w))"
  shows "\<bar>fval (fr_value r) - x\<bar> \<le> \<bar>fval w - x\<bar>"
proof -
  define a where "a = real (bval num) / real (bval den) * 2 powi be"
  have a: "0 < a" and x: "x = signed neg a"
    using num by (simp_all add: a_def x)
  have v: "fval (fr_value r) = signed neg (round_to d (rounding control) neg a)"
    using rounded_fval [OF d round_rational_rounded [OF d num a_def]] no_overflow by (simp add: r)
  have near: "\<bar>round_to d (rounding control) neg a - a\<bar> \<le> \<bar>z - a\<bar>" if "representable d z" for z
    by (rule round_to_nearest [OF d a mode that])
  have zero: "\<bar>round_to d (rounding control) neg a - a\<bar> \<le> a"
    using near [of 0] a by (simp add: representable_def)
  show ?thesis
  proof (rule finite_value_cases [of w d])
    show "descriptor (semantics w) = Some d" "finite_class (classification (decode w))"
      using d w by simp_all
    fix z
    assume z: "representable d z" "fval w = z"
    show ?thesis
      using near [OF z(1)] zero representable_nonneg [OF z(1)] z(2) a unfolding v x signed_def by (cases neg) auto
  next
    fix z
    assume z: "representable d z" "fval w = - z"
    show ?thesis
      using near [OF z(1)] zero representable_nonneg [OF z(1)] z(2) a unfolding v x signed_def by (cases neg) auto
  qed
qed

theorem round_rational_nearest_witness:
  "\<bar>fval (fr_value (round_rational True [1] [3] 0 IEEEBinary32 default_control)) - (- 1 / 3)\<bar> \<le> \<bar>fval (f32 0xc0400000) - (- 1 / 3)\<bar>"
proof -
  obtain d where "descriptor IEEEBinary32 = Some d"
    by (simp add: descriptor_def)
  moreover have "\<not> status_has (fr_status (round_rational True [1] [3] 0 IEEEBinary32 default_control)) StOverflow"
    by code_simp
  ultimately show ?thesis
    using round_rational_nearest [of IEEEBinary32 d "[1]" "[3]" "- 1 / 3" True 0 _ default_control "f32 0xc0400000"]
    by (simp add: bnorm_def default_control_def signed_def finite_class_def decode_minus_three del: fval_samples)
qed

text \<open>
  the modes toward negative and toward positive return the greatest finite value that is
  not above the exact number and the least one that is not below it, unless the result
  overflowed.
\<close>

theorem round_rational_directed:
  assumes d: "descriptor f = Some d" and num: "bnorm num" "bnorm den" "0 < bval num" "0 < bval den"
    and x: "x = signed neg (real (bval num) / real (bval den) * 2 powi be)"
    and r: "r = round_rational neg num den be f control"
    and no_overflow: "\<not> status_has (fr_status r) StOverflow"
    and w: "semantics w = f" "finite_class (classification (decode w))"
  shows "(rounding control = TowardNegative \<and> fval w \<le> x \<longrightarrow> fval w \<le> fval (fr_value r) \<and> fval (fr_value r) \<le> x)
    \<and> (rounding control = TowardPositive \<and> x \<le> fval w \<longrightarrow> fval (fr_value r) \<le> fval w \<and> x \<le> fval (fr_value r))"
proof -
  define a where "a = real (bval num) / real (bval den) * 2 powi be"
  have a: "0 < a" and x: "x = signed neg a"
    using num by (simp_all add: a_def x)
  have v: "fval (fr_value r) = signed neg (round_to d (rounding control) neg a)"
    using rounded_fval [OF d round_rational_rounded [OF d num a_def]] no_overflow by (simp add: r)
  have mag_w: "representable d (mag (decode w))"
    using finite_representable w d by simp
  note nn = representable_nonneg [OF mag_w] and down = round_to_down [OF d a _ mag_w] and up = round_to_up [OF d a _ mag_w]
  have fw: "fval w = signed (negative (decode w)) (mag (decode w))"
    by (simp add: fval_def)
  have zero: "representable d 0"
    by (simp add: representable_def)
  note down0 = round_to_down [OF d a _ zero less_imp_le [OF a]]
  have lower_v: "fval w \<le> fval (fr_value r) \<and> fval (fr_value r) \<le> x" if "rounding control = TowardNegative" "fval w \<le> x"
    using down [of "rounding control" neg] up [of "rounding control" neg] down0 [of "rounding control" neg] nn a that
    by (cases neg; cases "negative (decode w)") (auto simp: v x fw signed_def)
  have upper_v: "fval (fr_value r) \<le> fval w \<and> x \<le> fval (fr_value r)" if "rounding control = TowardPositive" "x \<le> fval w"
    using down [of "rounding control" neg] up [of "rounding control" neg] down0 [of "rounding control" neg] nn a that
    by (cases neg; cases "negative (decode w)") (auto simp: v x fw signed_def)
  show ?thesis
    using lower_v upper_v by blast
qed

theorem round_rational_directed_witness:
  "fval (fr_value (round_rational True [1] [3] 0 IEEEBinary32 \<lparr>rounding = TowardNegative, tininess = AfterRounding\<rparr>)) \<le> - 1 / 3"
proof -
  obtain d where "descriptor IEEEBinary32 = Some d"
    by (simp add: descriptor_def)
  moreover have "\<not> status_has (fr_status (round_rational True [1] [3] 0 IEEEBinary32
      \<lparr>rounding = TowardNegative, tininess = AfterRounding\<rparr>)) StOverflow"
    by code_simp
  ultimately show ?thesis
    using round_rational_directed [of IEEEBinary32 d "[1]" "[3]" "- 1 / 3" True 0 _
        "\<lparr>rounding = TowardNegative, tininess = AfterRounding\<rparr>" "f32 0xc0400000"]
    by (simp add: bnorm_def signed_def finite_class_def decode_minus_three)
qed

end
