(* ===== verification/Float_Arith_Correct.thy ===== *)
theory Float_Arith_Correct
  imports Float_Arith Float_Optimal
begin

text \<open>
  The operations against real arithmetic: each finite operation returns the exact real
  result rounded once, the remainder and the widening conversions are exact, comparison is
  the order of the real values, and the integer conversions truncate.
\<close>

section \<open>Finite operands\<close>

lemma finite_operand:
  assumes "is_finite_nonzero (classification (decode v))"
  obtains d s e m where "descriptor (semantics v) = Some d" "encoded v d s e m"
    "bnorm (significand (decode v))" "0 < bval (significand (decode v))" "0 < mag (decode v)"
    "finite_pair d (bval (significand (decode v))) (exponent (decode v))"
proof -
  have "classification (decode v) \<noteq> ClsInvalid"
    using assms by (auto simp: is_finite_nonzero_def)
  then obtain d s e m where "encoded v d s e m" "descriptor (semantics v) = Some d"
    by (rule decode_valid)
  then show thesis
    using that [of d s e m] decode_finite_pair(1,8) [OF _ assms] mag_pos [OF assms]
    by (auto simp: finite_pair_def)
qed

lemma big_one [simp]: "bval (big_of_u128 1) = 1" "bnorm (big_of_u128 1)"
  by (simp_all add: big_of_u128_val bnorm_big_of_u128)

lemma round_rational_zero: "descriptor f = Some d \<Longrightarrow> bnorm num \<Longrightarrow> bval num = 0 \<Longrightarrow>
    round_rational neg num den be f control = value_result (zero f neg)"
  by (simp add: round_rational_def big_is_zero_iff)

lemma round_integer_rounded:
  assumes "descriptor f = Some d" and "bnorm M" "0 < bval M"
  shows "rounded f control neg (real (bval M) * 2 powi be) (round_rational neg M (big_of_u128 1) be f control)"
  using round_rational_rounded [OF assms(1,2) big_one(2) assms(3), of _ be control neg] by simp

lemma aligned_mag: "bnorm (significand x) \<Longrightarrow> l \<le> exponent x \<Longrightarrow>
    real (bval (shifted_left (significand x) (nat (exponent x - l)))) * 2 powi l = mag x"
  using big.aligned_val [of "significand x" l "exponent x"] by (simp add: big.scaled_def mag_def)

lemma finite_class_excludes:
  assumes "is_finite_nonzero c"
  shows "c \<noteq> ClsInvalid" "\<not> is_nan_class c" "c \<noteq> ClsInfinity" "c \<noteq> ClsZero"
  using assms by (auto simp: is_finite_nonzero_def is_nan_class_def)

section \<open>Addition and subtraction\<close>

lemma add_aligned:
  assumes d: "descriptor f = Some d" and x: "bnorm (significand x)" "0 < bval (significand x)"
    and y: "bnorm (significand y)" "0 < bval (significand y)"
    and c: "c = min (exponent x) (exponent y)"
    and X: "X = shifted_left (significand x) (nat (exponent x - c))"
    and Y: "Y = shifted_left (significand y) (nat (exponent y - c))"
  shows "rounded f control neg (mag x + mag y) (round_rational neg (big_add X Y) (big_of_u128 1) c f control)"
    and "0 < big_compare X Y \<Longrightarrow>
      rounded f control neg (mag x - mag y) (round_rational neg (big_subtract X Y) (big_of_u128 1) c f control)"
    and "big_compare X Y < 0 \<Longrightarrow>
      rounded f control neg (mag y - mag x) (round_rational neg (big_subtract Y X) (big_of_u128 1) c f control)"
    and "0 < big_compare X Y \<longleftrightarrow> mag y < mag x" "big_compare X Y = 0 \<longleftrightarrow> mag x = mag y"
proof -
  have mx: "mag x = real (bval X) * 2 powi c" and my: "mag y = real (bval Y) * 2 powi c"
    using aligned_mag [OF x(1), of c] aligned_mag [OF y(1), of c] by (simp_all add: c X Y)
  have n: "bnorm X" "bnorm Y" "0 < bval X" "0 < bval Y"
    using x y by (simp_all add: X Y bnorm_shifted_left shifted_left_val)
  show "rounded f control neg (mag x + mag y) (round_rational neg (big_add X Y) (big_of_u128 1) c f control)"
    using round_integer_rounded [OF d, of "big_add X Y" control neg c] n
    by (simp add: bnorm_big_add big_add_val mx my distrib_right)
  have sub: "rounded f control neg (real (bval A) * 2 powi c - real (bval B) * 2 powi c)
      (round_rational neg (big_subtract A B) (big_of_u128 1) c f control)" if "bval B < bval A" for A B
    using round_integer_rounded [OF d, of "big_subtract A B" control neg c] that
    by (simp add: bnorm_big_subtract big_subtract_val of_nat_diff left_diff_distrib)
  show "0 < big_compare X Y \<Longrightarrow>
      rounded f control neg (mag x - mag y) (round_rational neg (big_subtract X Y) (big_of_u128 1) c f control)"
    using sub by (simp add: big_compare_cases n mx my)
  show "big_compare X Y < 0 \<Longrightarrow>
      rounded f control neg (mag y - mag x) (round_rational neg (big_subtract Y X) (big_of_u128 1) c f control)"
    using sub by (simp add: big_compare_cases n mx my)
  show "0 < big_compare X Y \<longleftrightarrow> mag y < mag x" "big_compare X Y = 0 \<longleftrightarrow> mag x = mag y"
    by (simp_all add: big_compare_cases n mx my)
qed

lemma add_values_finite:
  assumes sem: "semantics lhs = semantics rhs"
    and l: "is_finite_nonzero (classification (decode lhs))" and r: "is_finite_nonzero (classification (decode rhs))"
    and right: "right = (if subtract then (decode rhs)\<lparr>negative := \<not> negative (decode rhs)\<rparr> else decode rhs)"
    and c: "c = min (exponent (decode lhs)) (exponent right)"
    and X: "X = shifted_left (significand (decode lhs)) (nat (exponent (decode lhs) - c))"
    and Y: "Y = shifted_left (significand right) (nat (exponent right - c))"
  shows "add_values lhs rhs subtract control =
    (if negative (decode lhs) = negative right then
       round_rational (negative (decode lhs)) (big_add X Y) (big_of_u128 1) c (semantics lhs) control
     else if big_compare X Y = 0 then value_result (zero (semantics lhs) (rounding control = TowardNegative))
     else if 0 < big_compare X Y then
       round_rational (negative (decode lhs)) (big_subtract X Y) (big_of_u128 1) c (semantics lhs) control
     else round_rational (negative right) (big_subtract Y X) (big_of_u128 1) c (semantics lhs) control)"
proof -
  have cls: "classification right = classification (decode rhs)"
    by (simp add: right)
  show ?thesis
    unfolding add_values_def Let_def right [symmetric] c [symmetric] X [symmetric] Y [symmetric] cls
    using sem finite_class_excludes [OF l] finite_class_excludes [OF r] by simp
qed

lemma add_values_rounded:
  assumes sem: "semantics lhs = semantics rhs"
    and l: "is_finite_nonzero (classification (decode lhs))" and r: "is_finite_nonzero (classification (decode rhs))"
    and s: "s = (if subtract then fval lhs - fval rhs else fval lhs + fval rhs)"
  shows "s \<noteq> 0 \<Longrightarrow> rounded (semantics lhs) control (s < 0) \<bar>s\<bar> (add_values lhs rhs subtract control)"
    and "s = 0 \<Longrightarrow> add_values lhs rhs subtract control
           = value_result (zero (semantics lhs) (rounding control = TowardNegative))"
proof -
  obtain d where d: "descriptor (semantics lhs) = Some d" and x: "bnorm (significand (decode lhs))"
      "0 < bval (significand (decode lhs))" "0 < mag (decode lhs)"
    by (rule finite_operand [OF l])
  define right where "right = (if subtract then (decode rhs)\<lparr>negative := \<not> negative (decode rhs)\<rparr> else decode rhs)"
  have y: "bnorm (significand right)" "0 < bval (significand right)" "0 < mag right"
    by (rule finite_operand [OF r]; simp add: right_def mag_def)+
  have s: "s = signed (negative (decode lhs)) (mag (decode lhs)) + signed (negative right) (mag right)"
    by (auto simp: s right_def fval_def signed_def mag_def)
  note core = add_aligned [OF d x(1,2) y(1,2) refl refl refl]
  note unfold = add_values_finite [OF sem l r right_def refl refl refl]
  show "rounded (semantics lhs) control (s < 0) \<bar>s\<bar> (add_values lhs rhs subtract control)" if "s \<noteq> 0"
  proof (cases "negative (decode lhs) = negative right")
    case True
    then have "s < 0 \<longleftrightarrow> negative (decode lhs)" "\<bar>s\<bar> = mag (decode lhs) + mag right"
      using x y by (auto simp: s signed_def)
    then show ?thesis
      using core(1) True by (simp add: unfold)
  next
    case False
    show ?thesis
    proof (cases "mag right < mag (decode lhs)")
      case True
      then have "s < 0 \<longleftrightarrow> negative (decode lhs)" "\<bar>s\<bar> = mag (decode lhs) - mag right"
        using False by (auto simp: s signed_def)
      then show ?thesis
        using core(2,4,5) True False by (simp add: unfold)
    next
      case ge: False
      then have "mag (decode lhs) < mag right"
        using that False by (auto simp: s signed_def split: if_splits)
      then have "s < 0 \<longleftrightarrow> negative right" "\<bar>s\<bar> = mag right - mag (decode lhs)"
        using False by (auto simp: s signed_def)
      then show ?thesis
        using core(3,4,5) \<open>mag (decode lhs) < mag right\<close> ge False by (simp add: unfold)
    qed
  qed
  show "add_values lhs rhs subtract control = value_result (zero (semantics lhs) (rounding control = TowardNegative))" if "s = 0"
    using that x y core(5) by (auto simp: unfold s signed_def split: if_splits)
qed

section \<open>Multiplication and division\<close>

lemma multiply_values_rounded:
  assumes sem: "semantics lhs = semantics rhs"
    and l: "is_finite_nonzero (classification (decode lhs))" and r: "is_finite_nonzero (classification (decode rhs))"
  shows "rounded (semantics lhs) control (fval lhs * fval rhs < 0) \<bar>fval lhs * fval rhs\<bar> (multiply_values lhs rhs control)"
proof -
  obtain d where d: "descriptor (semantics lhs) = Some d" and x: "bnorm (significand (decode lhs))"
      "0 < bval (significand (decode lhs))" "0 < mag (decode lhs)"
    by (rule finite_operand [OF l])
  have y: "0 < bval (significand (decode rhs))" "0 < mag (decode rhs)"
    by (rule finite_operand [OF r]; simp)+
  have "fval lhs * fval rhs < 0 \<longleftrightarrow> negative (decode lhs) \<noteq> negative (decode rhs)"
      "\<bar>fval lhs * fval rhs\<bar> = mag (decode lhs) * mag (decode rhs)"
    using x(3) y(2) by (auto simp: fval_def signed_def mult_neg_neg mult_pos_neg mult_neg_pos mult_pos_pos abs_mult
        not_less less_imp_le)
  moreover have "mag (decode lhs) * mag (decode rhs) = real (bval (big_multiply (significand (decode lhs)) (significand (decode rhs))))
      * 2 powi (exponent (decode lhs) + exponent (decode rhs))"
    by (simp add: big_multiply_val mag_def power_int_add)
  ultimately show ?thesis
    using round_integer_rounded [OF d bnorm_big_multiply, of "significand (decode lhs)" "significand (decode rhs)"
        control _ "exponent (decode lhs) + exponent (decode rhs)"]
      sem finite_class_excludes [OF l] finite_class_excludes [OF r] x(2) y(1)
    by (simp add: multiply_values_def Let_def big_multiply_val)
qed

lemma divide_values_rounded:
  assumes sem: "semantics lhs = semantics rhs"
    and l: "is_finite_nonzero (classification (decode lhs))" and r: "is_finite_nonzero (classification (decode rhs))"
  shows "rounded (semantics lhs) control (fval lhs / fval rhs < 0) \<bar>fval lhs / fval rhs\<bar> (divide_values lhs rhs control)"
proof -
  obtain d where d: "descriptor (semantics lhs) = Some d" and x: "bnorm (significand (decode lhs))"
      "0 < bval (significand (decode lhs))" "0 < mag (decode lhs)"
    by (rule finite_operand [OF l])
  have y: "bnorm (significand (decode rhs))" "0 < bval (significand (decode rhs))" "0 < mag (decode rhs)"
    by (rule finite_operand [OF r]; simp)+
  have "fval lhs / fval rhs < 0 \<longleftrightarrow> negative (decode lhs) \<noteq> negative (decode rhs)"
      "\<bar>fval lhs / fval rhs\<bar> = mag (decode lhs) / mag (decode rhs)"
    using x(3) y(3) by (auto simp: fval_def signed_def divide_neg_neg divide_pos_neg divide_neg_pos divide_pos_pos
        not_less less_imp_le)
  moreover have "mag (decode lhs) / mag (decode rhs) = real (bval (significand (decode lhs))) / real (bval (significand (decode rhs)))
      * 2 powi (exponent (decode lhs) - exponent (decode rhs))"
    by (simp add: mag_def power_int_diff)
  ultimately show ?thesis
    using round_rational_rounded [OF d x(1) y(1) x(2) y(2) refl, of control _ "exponent (decode lhs) - exponent (decode rhs)"]
      sem finite_class_excludes [OF l] finite_class_excludes [OF r]
    by (simp add: divide_values_def Let_def)
qed

section \<open>Exact results\<close>

lemma representableI:
  assumes "descriptor f = Some d"
  shows "M < 2 ^ precision d \<Longrightarrow> real M * 2 powi (qmin d + int n) < 2 powi (max_normal_exponent d + 1) \<Longrightarrow>
    representable d (real M * 2 powi (qmin d + int n))"
proof (induction n arbitrary: M)
  case 0
  then show ?case
    using bias_bounds(4) [OF assms] by (cases "M = 0") (auto simp: representable_def finite_pair_def)
next
  case (Suc n)
  obtain k where k: "precision d = Suc k"
    using frac_bits(2) [OF assms] by metis
  show ?case
  proof (cases "M < 2 ^ k")
    case True
    have eq: "real (2 * M) * 2 powi (qmin d + int n) = real M * 2 powi (qmin d + int (Suc n))"
      by (simp add: power_int_add)
    have "2 * M < 2 ^ precision d"
      using True by (simp add: k)
    from Suc.IH [OF this, unfolded eq, OF Suc.prems(2)] show ?thesis .
  next
    case False
    then have M: "real (2 ^ k) \<le> real M"
      by (simp only: of_nat_le_iff not_less)
    then have "2 powi int k * 2 powi (qmin d + int (Suc n)) \<le> real M * 2 powi (qmin d + int (Suc n))"
      by (intro mult_right_mono) simp_all
    then have "2 powi (int k + (qmin d + int (Suc n))) \<le> real M * 2 powi (qmin d + int (Suc n))"
      by (metis power_int_add zero_neq_numeral)
    then have "(2 :: real) powi (int k + (qmin d + int (Suc n))) < 2 powi (max_normal_exponent d + 1)"
      using Suc.prems(2) by (rule le_less_trans)
    then have "int k + (qmin d + int (Suc n)) < max_normal_exponent d + 1"
      by (simp only: two_powi_less)
    moreover have "0 < M"
      using False by (cases M) auto
    ultimately have "finite_pair d M (qmin d + int (Suc n))"
      using False Suc.prems(1) by (simp add: finite_pair_def qmax_def k)
    then show ?thesis
      unfolding representable_def by blast
  qed
qed

lemma rounded_exact:
  assumes d: "descriptor f = Some d" and x: "0 < x" "representable d x" and r: "rounded f control neg x r"
  shows "fr_error r = NoError" "fr_status r = 0" "semantics (fr_value r) = f" "\<not> pseudo_denormal (fr_value r)"
    and "is_finite_nonzero (classification (decode (fr_value r)))"
    and "negative (decode (fr_value r)) = neg" "mag (decode (fr_value r)) = x" "fval (fr_value r) = signed neg x"
proof -
  obtain M q where "finite_pair d M q" "x = real M * 2 powi q"
    using x by (auto simp: representable_def)
  then have "x < 2 powi (max_normal_exponent d + 1)"
    using pair_lt_max [OF d] by simp
  then have r: "fr_error r = NoError" "fr_status r = 0" "semantics (fr_value r) = f" "\<not> pseudo_denormal (fr_value r)"
    "finite_class (classification (decode (fr_value r)))" "negative (decode (fr_value r)) = neg" "mag (decode (fr_value r)) = x"
    using r round_to_exact [OF d x, of "rounding control" neg] by (auto simp: rounded_def d round_status_def)
  then show "fr_error r = NoError" "fr_status r = 0" "semantics (fr_value r) = f" "\<not> pseudo_denormal (fr_value r)"
    "negative (decode (fr_value r)) = neg" "mag (decode (fr_value r)) = x" "fval (fr_value r) = signed neg x"
    by (simp_all add: fval_def)
  show "is_finite_nonzero (classification (decode (fr_value r)))"
    using significand_not_finite r(7) x(1) by fastforce
qed

text \<open>\<open>exact_result f neg x r\<close>: \<open>r\<close> is the number \<open>x\<close> with the sign \<open>neg\<close>, and no flag is raised.\<close>

definition exact_result :: "float_format \<Rightarrow> bool \<Rightarrow> real \<Rightarrow> float_result \<Rightarrow> bool" where
  "exact_result f neg x r \<longleftrightarrow> fr_error r = NoError \<and> fr_status r = 0 \<and> semantics (fr_value r) = f
     \<and> \<not> pseudo_denormal (fr_value r) \<and> finite_class (classification (decode (fr_value r)))
     \<and> negative (decode (fr_value r)) = neg \<and> mag (decode (fr_value r)) = x"

lemma exact_zero: "descriptor f = Some d \<Longrightarrow> exact_result f neg 0 (value_result (zero f neg))"
  by (simp add: exact_result_def value_result_def semantics_special decode_zero_value decoded_default_def
      pseudo_denormal_def finite_class_def mag_def)

lemma rounded_exact_result:
  assumes "descriptor f = Some d" and "0 < x" "representable d x" and "rounded f control neg x r"
  shows "exact_result f neg x r"
  using rounded_exact [OF assms] by (auto simp: exact_result_def finite_class_def is_finite_nonzero_def)

lemma round_integer_exact:
  assumes d: "descriptor f = Some d" and M: "bnorm M" "representable d (real (bval M) * 2 powi be)"
  shows "exact_result f neg (real (bval M) * 2 powi be) (round_rational neg M (big_of_u128 1) be f control)"
proof (cases "bval M = 0")
  case True
  then show ?thesis
    using exact_zero [OF d] M(1) by (simp add: round_rational_zero [OF d])
next
  case False
  then have "0 < bval M" by simp
  from rounded_exact_result [OF d _ M(2) round_integer_rounded [OF d M(1) this]] this show ?thesis
    by simp
qed

section \<open>Remainder\<close>

lemma remainder_representable:
  assumes d: "descriptor f = Some d" and x: "finite_pair d X i" and y: "finite_pair d Y j"
    and c: "c = min i j"
    and R: "R = (X * 2 ^ nat (i - c)) mod (Y * 2 ^ nat (j - c))"
  shows "representable d (real R * 2 powi c)"
proof -
  have Y: "0 < Y"
    using y by (simp add: finite_pair_def)
  have "R < 2 ^ precision d \<and> c \<le> qmax d \<and> qmin d \<le> c"
  proof (cases "i \<le> j")
    case True
    then have "R \<le> X"
      by (simp add: R c)
    then show ?thesis
      using x True by (simp add: finite_pair_def c)
  next
    case False
    then have "R < Y"
      using Y by (simp add: R c)
    then show ?thesis
      using y False by (simp add: finite_pair_def c)
  qed
  moreover from this have "real R < real (2 ^ precision d)"
    by (simp only: of_nat_less_iff)
  then have "real R * 2 powi c < 2 powi (int (precision d) + c)"
    by (simp add: power_int_add)
  then have "real R * 2 powi c < 2 powi (max_normal_exponent d + 1)"
    using calculation power_int_increasing [of "int (precision d) + c" "max_normal_exponent d + 1" "2 :: real"]
    by (simp add: qmax_def)
  ultimately show ?thesis
    using representableI [OF d, of R "nat (c - qmin d)"] by simp
qed

lemma real_mod_nat: "0 < n \<Longrightarrow> real (m mod n) = real m - real n * real_of_int \<lfloor>real m / real n\<rfloor>"
  by (metis floor_divide_of_nat_eq minus_div_mult_eq_mod mult.commute of_int_of_nat_eq of_nat_diff of_nat_mult
      div_times_less_eq_dividend)

text \<open>The remainder has the sign of the left operand and the magnitude of the truncated division.\<close>

lemma remainder_values_exact:
  assumes sem: "semantics lhs = semantics rhs"
    and l: "is_finite_nonzero (classification (decode lhs))" and r: "is_finite_nonzero (classification (decode rhs))"
    and q: "q = \<lfloor>mag (decode lhs) / mag (decode rhs)\<rfloor>"
  shows "exact_result (semantics lhs) (negative (decode lhs)) (mag (decode lhs) - mag (decode rhs) * real_of_int q)
    (remainder_values lhs rhs control)"
proof -
  obtain d where d: "descriptor (semantics lhs) = Some d" and x: "bnorm (significand (decode lhs))"
      "0 < bval (significand (decode lhs))" and px: "finite_pair d (bval (significand (decode lhs))) (exponent (decode lhs))"
    by (rule finite_operand [OF l])
  obtain d' where "descriptor (semantics rhs) = Some d'" and y: "bnorm (significand (decode rhs))"
      "0 < bval (significand (decode rhs))" and "finite_pair d' (bval (significand (decode rhs))) (exponent (decode rhs))"
    by (rule finite_operand [OF r])
  then have py: "finite_pair d (bval (significand (decode rhs))) (exponent (decode rhs))"
    using d sem by simp
  define c where "c = min (exponent (decode lhs)) (exponent (decode rhs))"
  define X where "X = shifted_left (significand (decode lhs)) (nat (exponent (decode lhs) - c))"
  define Y where "Y = shifted_left (significand (decode rhs)) (nat (exponent (decode rhs) - c))"
  define R where "R = snd (big_divmod X Y)"
  have n: "bnorm X" "bnorm Y" "0 < bval Y"
    using x y by (simp_all add: X_def Y_def bnorm_shifted_left shifted_left_val)
  have R: "bval R = bval X mod bval Y" "bnorm R"
    using big.divide_val [OF n] by (simp_all add: R_def)
  have mx: "mag (decode lhs) = real (bval X) * 2 powi c" and my: "mag (decode rhs) = real (bval Y) * 2 powi c"
    using aligned_mag [OF x(1), of c] aligned_mag [OF y(1), of c] by (simp_all add: c_def X_def Y_def)
  have "real (bval R) = real (bval X) - real (bval Y) * real_of_int q"
    using n(3) by (simp add: R real_mod_nat q mx my)
  then have mag_R: "real (bval R) * 2 powi c = mag (decode lhs) - mag (decode rhs) * real_of_int q"
    unfolding mx my by (simp only:) (simp add: algebra_simps)
  have rep: "representable d (real (bval R) * 2 powi c)"
    using remainder_representable [OF d px py c_def refl] by (simp add: R X_def Y_def shifted_left_val)
  have rem: "remainder_values lhs rhs control = (if big_is_zero R then value_result (zero (semantics lhs) (negative (decode lhs)))
      else round_rational (negative (decode lhs)) R (big_of_u128 1) c (semantics lhs) control)"
    using sem finite_class_excludes [OF l] finite_class_excludes [OF r]
    by (simp add: remainder_values_def Let_def R_def X_def Y_def c_def)
  show ?thesis
    using round_integer_exact [OF d R(2) rep, of "negative (decode lhs)" control] exact_zero [OF d]
    by (auto simp: rem big_is_zero_iff [OF R(2)] simp flip: mag_R)
qed

section \<open>Valid results\<close>

text \<open>A result that is a valid value of the format.\<close>

definition valid_in :: "float_format \<Rightarrow> float_result \<Rightarrow> bool" where
  "valid_in f r \<longleftrightarrow> fr_error r = NoError \<and> semantics (fr_value r) = f \<and> classification (decode (fr_value r)) \<noteq> ClsInvalid"

lemma valid_special:
  assumes "descriptor f = Some d"
  shows "valid_in f (value_result (zero f s))" "valid_in f (value_result (infinity f s))"
    and "fr_error r = NoError \<Longrightarrow> fr_value r = infinity f s \<Longrightarrow> valid_in f r"
    and "fr_error r = NoError \<Longrightarrow> fr_value r = make_nan f s b p \<Longrightarrow> valid_in f r"
    and "fr_error r = NoError \<Longrightarrow> fr_value r = maximum_finite f s \<Longrightarrow> valid_in f r"
  using decode_zero_value [OF assms, of s] decode_infinity(1) [OF assms, of s] decode_make_nan(1) [OF assms, of s b p]
    decode_of_pair(4) [OF decode_maximum_finite [OF assms], of s] semantics_special [OF assms]
  by (auto simp: valid_in_def value_result_def decoded_default_def split: if_splits)

lemma rounded_valid:
  assumes "descriptor f = Some d" and "rounded f control neg x r"
  shows "valid_in f r"
proof (cases "2 powi (max_normal_exponent d + 1) \<le> round_to d (rounding control) neg x")
  case True
  then have "overflowed f d (rounding control) neg r"
    using assms by (simp add: rounded_def)
  then show ?thesis
    by (auto simp: overflowed_def valid_in_def finite_class_def split: if_splits)
next
  case False
  then show ?thesis
    using assms by (auto simp: rounded_def Let_def valid_in_def finite_class_def)
qed

lemma valid_self: "classification (decode v) \<noteq> ClsInvalid \<Longrightarrow> valid_in (semantics v) (value_result v)"
  by (simp add: valid_in_def value_result_def)

lemma invalid_operation_valid: "descriptor f = Some d \<Longrightarrow> valid_in f (invalid_operation f)"
  by (rule valid_special(4)) (simp_all add: invalid_operation_def)

lemma valid_negate:
  assumes "classification (decode v) \<noteq> ClsInvalid"
  shows "valid_in (semantics v) (value_result (negate v))"
proof -
  obtain d s e m where v: "encoded v d s e m"
    using assms by (rule decode_valid)
  show ?thesis
    using assms decode_negate [OF v] negate_encoded(2) [OF v] by (simp add: valid_in_def value_result_def)
qed

lemma class_cases:
  assumes "c \<noteq> ClsInvalid" and "\<not> is_nan_class c"
  shows "c = ClsInfinity \<or> c = ClsZero \<or> is_finite_nonzero c"
  using assms by (cases c) (auto simp: is_nan_class_def is_finite_nonzero_def)

lemma propagate_nan_cases:
  assumes "semantics lhs = semantics rhs"
    and "is_nan_class (classification left) \<or> is_nan_class (classification right)"
  shows "\<exists>sel \<in> {left, right}. is_nan_class (classification sel) \<and>
      propagate_nan lhs left rhs right = \<lparr>fr_value = make_nan (semantics lhs) (negative sel) False (payload sel),
        fr_status = (if classification left = ClsSignalingNaN \<or> classification right = ClsSignalingNaN
                     then status_set 0 StInvalid else 0), fr_error = NoError\<rparr>
      \<and> (is_nan_class (classification left) \<longrightarrow> sel = left)"
  using assms by (auto simp: propagate_nan_def Let_def is_nan_class_def)

lemma propagate_nan_valid:
  assumes "descriptor (semantics lhs) = Some d" and "semantics lhs = semantics rhs"
    and "is_nan_class (classification left) \<or> is_nan_class (classification right)"
  shows "valid_in (semantics lhs) (propagate_nan lhs left rhs right)"
proof -
  obtain sel :: decoded_float where "propagate_nan lhs left rhs right = \<lparr>fr_value = make_nan (semantics lhs) (negative sel) False (payload sel),
        fr_status = (if classification left = ClsSignalingNaN \<or> classification right = ClsSignalingNaN
                     then status_set 0 StInvalid else 0), fr_error = NoError\<rparr>"
    using propagate_nan_cases [OF assms(2,3)] by blast
  then show ?thesis
    by (intro valid_special(4) [OF assms(1)]) simp_all
qed

lemma add_values_valid:
  assumes sem: "semantics lhs = semantics rhs"
    and v: "classification (decode lhs) \<noteq> ClsInvalid" "classification (decode rhs) \<noteq> ClsInvalid"
  shows "valid_in (semantics lhs) (add_values lhs rhs subtract control)"
proof -
  obtain d where d: "descriptor (semantics lhs) = Some d"
    by (rule decode_valid [OF v(1)])
  let ?s = "if subtract then fval lhs - fval rhs else fval lhs + fval rhs"
  have fin: "valid_in (semantics lhs) (add_values lhs rhs subtract control)"
    if "is_finite_nonzero (classification (decode lhs))" "is_finite_nonzero (classification (decode rhs))"
    using add_values_rounded [OF sem that refl, of subtract control] rounded_valid [OF d] valid_special(1) [OF d]
    by (cases "?s = 0") auto
  define right where "right = (if subtract then (decode rhs)\<lparr>negative := \<not> negative (decode rhs)\<rparr> else decode rhs)"
  have r: "classification right = classification (decode rhs)"
    by (simp add: right_def)
  consider "is_nan_class (classification (decode lhs)) \<or> is_nan_class (classification (decode rhs))"
    | "is_finite_nonzero (classification (decode lhs))" "is_finite_nonzero (classification (decode rhs))"
    | "\<not> (is_nan_class (classification (decode lhs)) \<or> is_nan_class (classification (decode rhs)))"
      "classification (decode lhs) = ClsInfinity \<or> classification (decode lhs) = ClsZero \<or>
       classification (decode rhs) = ClsInfinity \<or> classification (decode rhs) = ClsZero"
    using class_cases [OF v(1)] class_cases [OF v(2)] by blast
  then show ?thesis
  proof cases
    case 1
    then have "add_values lhs rhs subtract control = propagate_nan lhs (decode lhs) rhs right"
      unfolding add_values_def Let_def right_def [symmetric] r using sem v by simp
    then show ?thesis
      using propagate_nan_valid [OF d sem, of "decode lhs" right] 1 r by simp
  next
    case 2
    then show ?thesis by (rule fin)
  next
    case 3
    note special = valid_special(1,2) [OF d] invalid_operation_valid [OF d] valid_self [OF v(1)] valid_self [OF v(2)]
      valid_negate [OF v(2)]
    show ?thesis
      unfolding add_values_def Let_def right_def [symmetric] r using sem v 3 special by (auto simp: sem)
  qed
qed

lemma multiply_values_valid:
  assumes sem: "semantics lhs = semantics rhs"
    and v: "classification (decode lhs) \<noteq> ClsInvalid" "classification (decode rhs) \<noteq> ClsInvalid"
  shows "valid_in (semantics lhs) (multiply_values lhs rhs control)"
proof -
  obtain d where d: "descriptor (semantics lhs) = Some d"
    by (rule decode_valid [OF v(1)])
  note special = valid_special(1,2) [OF d] invalid_operation_valid [OF d] propagate_nan_valid [OF d sem]
  show ?thesis
    using rounded_valid [OF d multiply_values_rounded [OF sem]] class_cases [OF v(1)] class_cases [OF v(2)] special sem v
    unfolding multiply_values_def Let_def by auto
qed

lemma divide_values_valid:
  assumes sem: "semantics lhs = semantics rhs"
    and v: "classification (decode lhs) \<noteq> ClsInvalid" "classification (decode rhs) \<noteq> ClsInvalid"
  shows "valid_in (semantics lhs) (divide_values lhs rhs control)"
proof -
  obtain d where d: "descriptor (semantics lhs) = Some d"
    by (rule decode_valid [OF v(1)])
  note special = valid_special(1-3) [OF d] invalid_operation_valid [OF d] propagate_nan_valid [OF d sem]
  show ?thesis
    using rounded_valid [OF d divide_values_rounded [OF sem]] class_cases [OF v(1)] class_cases [OF v(2)] special sem v
    unfolding divide_values_def Let_def by auto
qed

lemma remainder_values_valid:
  assumes sem: "semantics lhs = semantics rhs"
    and v: "classification (decode lhs) \<noteq> ClsInvalid" "classification (decode rhs) \<noteq> ClsInvalid"
  shows "valid_in (semantics lhs) (remainder_values lhs rhs control)"
proof -
  obtain d where d: "descriptor (semantics lhs) = Some d"
    by (rule decode_valid [OF v(1)])
  have "valid_in f r" if "exact_result f neg x r" for f neg x r
    using that by (auto simp: exact_result_def valid_in_def finite_class_def)
  note special = this [OF remainder_values_exact [OF sem _ _ refl]] valid_special(1) [OF d] invalid_operation_valid [OF d]
    propagate_nan_valid [OF d sem] valid_self [OF v(1)]
  show ?thesis
    using class_cases [OF v(1)] class_cases [OF v(2)] special sem v
    unfolding remainder_values_def Let_def by auto
qed

section \<open>Properties\<close>

text \<open>
  C29: the sum and the difference of two finite nonzero values are the exact real sum and
  difference rounded once; an exact cancellation gives a zero, negative only when rounding
  toward negative.
\<close>

theorem add_subtract_correct:
  assumes "semantics lhs = semantics rhs"
    and "is_finite_nonzero (classification (decode lhs))" "is_finite_nonzero (classification (decode rhs))"
    and "op = OpAdd \<and> s = fval lhs + fval rhs \<or> op = OpSubtract \<and> s = fval lhs - fval rhs"
  shows "if s = 0 then binary op lhs rhs control = value_result (zero (semantics lhs) (rounding control = TowardNegative))
    else rounded (semantics lhs) control (s < 0) \<bar>s\<bar> (binary op lhs rhs control)"
  using assms(4) add_values_rounded [OF assms(1-3) refl, of False control] add_values_rounded [OF assms(1-3) refl, of True control]
  by (auto simp: binary_def)

theorem add_subtract_correct_witness:
  "rounded IEEEBinary32 default_control True 2 (binary OpAdd (f32 0x3f800000) (f32 0xc0400000) default_control)"
  using add_subtract_correct [of "f32 0x3f800000" "f32 0xc0400000" OpAdd "- 2" default_control] by simp

text \<open>C30: the product of two finite nonzero values is the exact real product rounded once.\<close>

theorem multiply_correct:
  assumes "semantics lhs = semantics rhs"
    and "is_finite_nonzero (classification (decode lhs))" "is_finite_nonzero (classification (decode rhs))"
  shows "rounded (semantics lhs) control (fval lhs * fval rhs < 0) \<bar>fval lhs * fval rhs\<bar> (binary OpMultiply lhs rhs control)"
  using multiply_values_rounded [OF assms] by (simp add: binary_def)

theorem multiply_correct_witness:
  "rounded IEEEBinary32 default_control True 3 (binary OpMultiply (f32 0x3f800000) (f32 0xc0400000) default_control)"
  using multiply_correct [of "f32 0x3f800000" "f32 0xc0400000" default_control] by simp

text \<open>C31: the quotient of two finite nonzero values is the exact real quotient rounded once.\<close>

theorem divide_correct:
  assumes "semantics lhs = semantics rhs"
    and "is_finite_nonzero (classification (decode lhs))" "is_finite_nonzero (classification (decode rhs))"
  shows "rounded (semantics lhs) control (fval lhs / fval rhs < 0) \<bar>fval lhs / fval rhs\<bar> (binary OpDivide lhs rhs control)"
  using divide_values_rounded [OF assms] by (simp add: binary_def)

theorem divide_correct_witness:
  "rounded IEEEBinary32 default_control True (1 / 3) (binary OpDivide (f32 0x3f800000) (f32 0xc0400000) default_control)"
  using divide_correct [of "f32 0x3f800000" "f32 0xc0400000" default_control] by simp

text \<open>
  C32: the remainder of two finite nonzero values is exact: it equals the left operand minus
  the right one times the quotient truncated toward zero, carries the left operand's sign and
  raises no flag.
\<close>

theorem remainder_correct:
  assumes "semantics lhs = semantics rhs"
    and "is_finite_nonzero (classification (decode lhs))" "is_finite_nonzero (classification (decode rhs))"
  shows "exact_result (semantics lhs) (negative (decode lhs))
    (mag (decode lhs) - mag (decode rhs) * real_of_int \<lfloor>mag (decode lhs) / mag (decode rhs)\<rfloor>)
    (binary OpModulo lhs rhs control)"
  using remainder_values_exact [OF assms refl] by (simp add: binary_def)

theorem remainder_correct_witness:
  "exact_result IEEEBinary32 True 0 (binary OpModulo (f32 0xc0400000) (f32 0x3f800000) default_control)"
proof -
  have "mag (decode (f32 0xc0400000)) = 3" "mag (decode (f32 0x3f800000)) = 1" "negative (decode (f32 0xc0400000))"
    by (simp_all add: mag_def decode_one decode_minus_three power_int_def power_divide)
  then show ?thesis
    using remainder_correct [of "f32 0xc0400000" "f32 0x3f800000" default_control] by simp
qed

text \<open>
  C33: the five operations are closed: from two valid operands of one format each returns a
  valid value of that format and no error, whatever the classes, rounding mode and tininess
  mode; operands of different formats and invalid encodings are errors.
\<close>

theorem binary_closed:
  "if semantics lhs \<noteq> semantics rhs then binary op lhs rhs control = error_result FormatMismatch
   else if classification (decode lhs) = ClsInvalid \<or> classification (decode rhs) = ClsInvalid
   then binary op lhs rhs control = error_result InvalidEncoding
   else valid_in (semantics lhs) (binary op lhs rhs control)"
proof -
  have valid: "valid_in (semantics lhs) (binary op lhs rhs control)"
    if "semantics lhs = semantics rhs" "classification (decode lhs) \<noteq> ClsInvalid" "classification (decode rhs) \<noteq> ClsInvalid"
    using add_values_valid [OF that] multiply_values_valid [OF that] divide_values_valid [OF that]
      remainder_values_valid [OF that] by (cases op) (simp_all add: binary_def)
  have mismatch: "binary op lhs rhs control = error_result FormatMismatch" if "semantics lhs \<noteq> semantics rhs"
    using that by (cases op)
      (simp_all add: binary_def add_values_def multiply_values_def divide_values_def remainder_values_def)
  have invalid: "binary op lhs rhs control = error_result InvalidEncoding"
    if "semantics lhs = semantics rhs" "classification (decode lhs) = ClsInvalid \<or> classification (decode rhs) = ClsInvalid"
    unfolding binary_def add_values_def multiply_values_def divide_values_def remainder_values_def Let_def
    by (cases op) (simp_all only: that binary_operation.case if_True not_True_eq_False if_False simp_thms)
  show ?thesis
    using valid mismatch invalid by simp
qed

theorem binary_closed_witness:
  "valid_in IEEEBinary32 (binary OpDivide (f32 0x3f800000) (f32 0x80000000) default_control)"
proof -
  have "classification (decode (f32 0x3f800000)) \<noteq> ClsInvalid" "classification (decode (f32 0x80000000)) \<noteq> ClsInvalid"
    by code_simp+
  then show ?thesis
    using binary_closed [of "f32 0x3f800000" "f32 0x80000000" OpDivide default_control] by simp
qed

text \<open>
  an operation with a NaN operand returns a quiet NaN that carries the sign and the
  payload of the left operand when that is a NaN, of the right one otherwise (the sign
  flipped when it is subtracted), and raises Invalid exactly when one of them is signaling.
\<close>

theorem binary_nan:
  assumes sem: "semantics lhs = semantics rhs"
    and v: "classification (decode lhs) \<noteq> ClsInvalid" "classification (decode rhs) \<noteq> ClsInvalid"
    and nan: "is_nan lhs \<or> is_nan rhs"
    and w: "w = (if is_nan lhs then decode lhs else if op = OpSubtract then (decode rhs)\<lparr>negative := \<not> negative (decode rhs)\<rparr>
                 else decode rhs)"
  shows "binary op lhs rhs control =
    \<lparr>fr_value = make_nan (semantics lhs) (negative w) False (payload w),
     fr_status = (if classification (decode lhs) = ClsSignalingNaN \<or> classification (decode rhs) = ClsSignalingNaN
                  then status_set 0 StInvalid else 0), fr_error = NoError\<rparr>"
  using nan sem v unfolding w
  by (cases op) (auto simp: binary_def add_values_def multiply_values_def divide_values_def remainder_values_def Let_def
      is_nan_def classify_def is_nan_class_def propagate_nan_def)

theorem binary_nan_witness:
  "fr_value (binary OpMultiply (f32 0x3f800000) (f32 0x7f800001) default_control) = make_nan IEEEBinary32 False False [1]
   \<and> status_has (fr_status (binary OpMultiply (f32 0x3f800000) (f32 0x7f800001) default_control)) StInvalid"
proof -
  have d: "decode (f32 0x7f800001) =
      \<lparr>classification = ClsSignalingNaN, negative = False, significand = [], payload = [1], exponent = 0\<rparr>"
    by code_simp
  have "is_nan (f32 0x7f800001)" "\<not> is_nan (f32 0x3f800000)"
    by (simp_all add: is_nan_def classify_def d decode_one)
  then show ?thesis
    using binary_nan [OF _ _ _ _ refl, of "f32 0x3f800000" "f32 0x7f800001" OpMultiply default_control]
    by (simp add: d decode_one status_has_def status_set_def)
qed

end
