(* ===== verification/Float_Convert_Correct.thy ===== *)
theory Float_Convert_Correct
  imports Float_Arith_Correct
begin

text \<open>
  Conversions: between formats, by powers of two, to and from integers, and comparison.
\<close>

section \<open>Formats\<close>

lemma convert_rounded:
  assumes v: "is_finite_nonzero (classification (decode v))" and g: "descriptor g = Some d"
  shows "rounded g control (negative (decode v)) (mag (decode v)) (convert v g control)"
proof -
  have "bnorm (significand (decode v))" "0 < bval (significand (decode v))"
    by (rule finite_operand [OF v]; simp)+
  from round_integer_rounded [OF g this, of control "negative (decode v)" "exponent (decode v)"]
  show ?thesis
    using finite_class_excludes [OF v] g by (simp add: convert_def Let_def mag_def)
qed

text \<open>Every number of the first format is a number of the second.\<close>

definition widens :: "format_descriptor \<Rightarrow> format_descriptor \<Rightarrow> bool" where
  "widens d d' \<longleftrightarrow> precision d \<le> precision d' \<and> qmin d' \<le> qmin d \<and> max_normal_exponent d \<le> max_normal_exponent d'"

lemma widens_representable:
  assumes f: "descriptor f = Some d" and g: "descriptor g = Some d'" and w: "widens d d'" and M: "finite_pair d M q"
  shows "representable d' (real M * 2 powi q)"
proof -
  have "(2 :: nat) ^ precision d \<le> 2 ^ precision d'"
    using w by (intro power_increasing) (auto simp: widens_def)
  then have "M < 2 ^ precision d'"
    using M unfolding finite_pair_def by linarith
  moreover have "(2 :: real) powi (max_normal_exponent d + 1) \<le> 2 powi (max_normal_exponent d' + 1)"
    using w by (intro power_int_increasing) (auto simp: widens_def)
  then have "real M * 2 powi q < 2 powi (max_normal_exponent d' + 1)"
    using pair_lt_max [OF f M] by linarith
  moreover have "q = qmin d' + int (nat (q - qmin d'))"
    using w M by (simp add: widens_def finite_pair_def)
  ultimately show ?thesis
    using representableI [OF g, of M "nat (q - qmin d')"] by simp
qed

lemma convert_exact:
  assumes v: "is_finite_nonzero (classification (decode v))" and f: "descriptor (semantics v) = Some d"
    and g: "descriptor g = Some d'" and w: "representable d' (mag (decode v))"
  shows "exact_result g (negative (decode v)) (mag (decode v)) (convert v g control)"
    and "is_finite_nonzero (classification (decode (fr_value (convert v g control))))"
proof -
  have pos: "0 < mag (decode v)"
    by (rule finite_operand [OF v]; simp)
  show "exact_result g (negative (decode v)) (mag (decode v)) (convert v g control)"
    by (rule rounded_exact_result [OF g pos w convert_rounded [OF v g]])
  then show "is_finite_nonzero (classification (decode (fr_value (convert v g control))))"
    using significand_not_finite [of "fr_value (convert v g control)"] pos by (fastforce simp: exact_result_def)
qed

text \<open>A finite value is the only exact result, unless the value is a pseudo-denormal.\<close>

lemma exact_result_unique:
  assumes v: "is_finite_nonzero (classification (decode v))" "\<not> pseudo_denormal v"
    and r: "exact_result (semantics v) (negative (decode v)) (mag (decode v)) r"
  shows "fr_value r = v"
proof -
  obtain d s e m where d: "descriptor (semantics v) = Some d" "encoded v d s e m" "0 < mag (decode v)"
    by (rule finite_operand [OF v(1)])
  let ?w = "fr_value r"
  have fin: "is_finite_nonzero (classification (decode ?w))"
    using significand_not_finite [of ?w] d(3) r by (fastforce simp: exact_result_def)
  obtain d' s' e' m' where w: "descriptor (semantics ?w) = Some d'" "encoded ?w d' s' e' m'"
    by (rule finite_operand [OF fin])
  then have "encoded ?w d s' e' m'"
    using d(1) r by (simp add: exact_result_def)
  then show ?thesis
    using fval_inj [OF d(2) v _ fin] r by (simp add: exact_result_def fval_def)
qed

lemma negative_decode: "encoded v d s e m \<Longrightarrow> negative (decode v) = s"
  by (simp add: encoded_decode(1) decode_fields_def Let_def decoded_default_def)

lemma convert_special:
  assumes f: "descriptor (semantics v) = Some d" and g: "descriptor g = Some d'" and v: "encoded v d s e m"
  shows "classification (decode v) = ClsZero \<Longrightarrow> convert v g control = value_result (zero g s)"
    and "classification (decode v) = ClsInfinity \<Longrightarrow> convert v g control = value_result (infinity g s)"
    and "classification (decode v) = ClsQuietNaN \<Longrightarrow>
      convert v g control = value_result (make_nan g s False (payload (decode v)))"
  using negative_decode [OF v] g
  by (simp_all add: convert_def Let_def is_nan_class_def value_result_def)

lemma nan_payload_keep:
  assumes "encoded v d s e m" and "classification (decode v) = ClsQuietNaN" and "precision d \<le> precision d'"
  shows "nan_payload d' False (bval (payload (decode v))) = bval (payload (decode v))"
proof -
  have e: "e = 2 ^ exponent_bits d - 1" and ok: "sig_ok d e m"
    using special_fields(2) [OF assms(1)] assms(2) by blast+
  have "bval (payload (decode v)) < 2 ^ (precision d - 2)"
    using decode_special(4) [of v d s m] assms(1) e ok by simp
  also have "(2 :: nat) ^ (precision d - 2) \<le> 2 ^ (precision d' - 2)"
    using assms(3) by (intro power_increasing) auto
  finally show ?thesis
    by (simp add: nan_payload_def)
qed

lemma convert_back:
  assumes f: "descriptor (semantics v) = Some d" and g: "descriptor g = Some d'" and w: "widens d d'"
    and v: "classification (decode v) \<noteq> ClsInvalid" "classification (decode v) \<noteq> ClsSignalingNaN" "\<not> pseudo_denormal v"
  shows "fr_value (convert (fr_value (convert v g control)) (semantics v) control') = v"
    and "fr_status (convert v g control) = 0 \<and> fr_status (convert (fr_value (convert v g control)) (semantics v) control') = 0"
proof -
  obtain s e m where enc: "encoded v d s e m"
    using decode_valid [OF v(1)] f by (metis option.inject)
  let ?r = "convert v g control"
  let ?goal = "fr_value (convert (fr_value ?r) (semantics v) control') = v
      \<and> fr_status ?r = 0 \<and> fr_status (convert (fr_value ?r) (semantics v) control') = 0"
  consider "classification (decode v) = ClsZero" | "classification (decode v) = ClsInfinity"
    | "classification (decode v) = ClsQuietNaN" | "is_finite_nonzero (classification (decode v))"
    using v by (cases "classification (decode v)") (auto simp: is_finite_nonzero_def)
  then have ?goal
  proof cases
    case 1
    then show ?thesis
      using convert_special(1) [OF f g enc 1] special_unique(1) [OF enc 1]
        convert_special(1) [OF _ f encoded_zero [OF g], of s] decode_zero_value [OF g]
      by (simp add: value_result_def semantics_special [OF g] g decoded_default_def)
  next
    case 2
    then show ?thesis
      using convert_special(2) [OF f g enc 2] special_unique(2) [OF enc 2]
        convert_special(2) [OF _ f encoded_infinity [OF g], of s] decode_infinity [OF g]
      by (simp add: value_result_def semantics_special [OF g] g)
  next
    case 3
    let ?p = "payload (decode v)"
    have "bval (payload (decode (make_nan g s False ?p))) = bval ?p"
      using nan_payload_keep [OF enc 3] w decode_make_nan(3) [OF g, of s False ?p] by (simp add: widens_def)
    note v_eq = special_unique(3) [OF enc 3 this]
    have "classification (decode (make_nan g s False ?p)) = ClsQuietNaN"
      using decode_make_nan(1) [OF g, of s False ?p] by simp
    from convert_special(3) [OF _ f encoded_make_nan [OF g] this]
    have "convert (make_nan g s False ?p) (semantics v) control'
        = value_result (make_nan (semantics v) s False (payload (decode (make_nan g s False ?p))))"
      by (simp add: semantics_special [OF g] g)
    then show ?thesis
      unfolding convert_special(3) [OF f g enc 3] value_result_def float_result.simps v_eq [symmetric] by simp
  next
    case 4
    have "representable d' (mag (decode v))"
      using widens_representable [OF f g w] decode_finite_pair(1) [OF enc 4] by (simp add: mag_def)
    note ex = convert_exact [OF 4 f g this, of control]
    have "representable d (mag (decode (fr_value ?r)))"
      using decode_finite_pair(1) [OF enc 4] ex(1) by (auto simp: exact_result_def representable_def mag_def)
    have w: "semantics (fr_value ?r) = g" "negative (decode (fr_value ?r)) = negative (decode v)"
        "mag (decode (fr_value ?r)) = mag (decode v)" "fr_status ?r = 0"
      using ex(1) by (simp_all add: exact_result_def)
    have ex': "exact_result (semantics v) (negative (decode v)) (mag (decode v)) (convert (fr_value ?r) (semantics v) control')"
      using convert_exact(1) [OF ex(2) _ f \<open>representable d (mag (decode (fr_value ?r)))\<close>, of d' control']
      unfolding w g by blast
    show ?thesis
      using exact_result_unique [OF 4 v(3) ex'] ex' w(4) unfolding exact_result_def by blast
  qed
  then show "fr_value (convert (fr_value (convert v g control)) (semantics v) control') = v"
    and "fr_status (convert v g control) = 0 \<and> fr_status (convert (fr_value (convert v g control)) (semantics v) control') = 0"
    by blast+
qed

section \<open>Scaling\<close>

lemma scale_exact_rounded:
  assumes v: "is_finite_nonzero (classification (decode v))"
  shows "rounded (semantics v) control (negative (decode v)) (mag (decode v) * 2 powi k)
    (scale_by_power_of_two v k control)"
proof -
  obtain d where d: "descriptor (semantics v) = Some d" and n: "bnorm (significand (decode v))"
      "0 < bval (significand (decode v))" "0 < mag (decode v)"
      and pair: "finite_pair d (bval (significand (decode v))) (exponent (decode v))"
    by (rule finite_operand [OF v])
  have pos: "0 < mag (decode v) * 2 powi k"
    using n(3) by simp
  have q: "- 20000 < qmin d" "qmax d < 20000" "precision d < 200" "max_normal_exponent d < 20000"
    using d by (auto simp: descriptor_def qmin_def qmax_def min_normal_exponent_def max_normal_exponent_def int_bits
        split: float_format.splits)
  have lo: "2 powi qmin d \<le> mag (decode v)"
  proof -
    have "1 * 2 powi qmin d \<le> real (bval (significand (decode v))) * 2 powi exponent (decode v)"
      using n(2) pair by (intro mult_mono power_int_increasing) (auto simp: finite_pair_def)
    then show ?thesis
      by (simp add: mag_def)
  qed
  have big: "rounded (semantics v) control (negative (decode v)) (mag (decode v) * 2 powi k)
      (overflow_result (semantics v) (negative (decode v)) control)" if "1000000 < k"
  proof (rule overflow_rounded [OF d pos])
    have "2 powi (qmin d + k) \<le> mag (decode v) * 2 powi k"
      using lo by (simp add: power_int_add)
    then have "\<not> \<lfloor>log 2 (mag (decode v) * 2 powi k)\<rfloor> < qmin d + k"
      using below_powi_iff [OF pos, of "qmin d + k"] by linarith
    then show "max_normal_exponent d < \<lfloor>log 2 (mag (decode v) * 2 powi k)\<rfloor>"
      using that q by linarith
  qed
  have small: "rounded (semantics v) control (negative (decode v)) (mag (decode v) * 2 powi k)
      (tiny_nonzero_result (semantics v) (negative (decode v)) control)" if "k < - 1000000"
  proof (rule tiny_nonzero_rounded [OF d pos])
    have "mag (decode v) < 2 powi (max_normal_exponent d + 1)"
      using pair_lt_max [OF d pair] by (simp add: mag_def)
    then have "mag (decode v) * 2 powi k < 2 powi (max_normal_exponent d + 1 + k)"
      by (simp add: power_int_add)
    then have "\<lfloor>log 2 (mag (decode v) * 2 powi k)\<rfloor> < max_normal_exponent d + 1 + k"
      using below_powi_iff [OF pos] by simp
    then show "\<lfloor>log 2 (mag (decode v) * 2 powi k)\<rfloor> < qmin d - 1"
      using that q by linarith
  qed
  show ?thesis
    using round_integer_rounded [OF d n(1,2), of control "negative (decode v)" "exponent (decode v) + k"]
      finite_class_excludes [OF v] big small
    by (auto simp: scale_by_power_of_two_def Let_def mag_def power_int_add mult.assoc)
qed

section \<open>Comparison\<close>

text \<open>Infinities lie outside the real numbers; the rank orders them around the finite values.\<close>

definition rank :: "float_value \<Rightarrow> int" where
  "rank v = (if classification (decode v) = ClsInfinity then (if negative (decode v) then - 1 else 1) else 0)"

definition precedes :: "float_value \<Rightarrow> float_value \<Rightarrow> bool" where
  "precedes v w \<longleftrightarrow> rank v < rank w \<or> rank v = rank w \<and> fval v < fval w"

definition ordered_class :: "float_class \<Rightarrow> bool" where
  "ordered_class c \<longleftrightarrow> finite_class c \<or> c = ClsInfinity"

lemma magnitude_compare_sgn:
  assumes "finite_class (classification (decode v))" "finite_class (classification (decode w))"
  shows "magnitude_compare (decode v) (decode w) = sgn (mag (decode v) - mag (decode w))"
proof -
  have n: "bnorm (significand (decode x)) \<and> 0 < mag (decode x)" if "is_finite_nonzero (classification (decode x))" for x
    by (rule finite_operand [OF that]; simp)
  show ?thesis
    using assms n [of v] n [of w] significand_not_finite [of v] significand_not_finite [of w]
      compare_scaled_sgn [of "significand (decode v)" "significand (decode w)" "exponent (decode v)" "exponent (decode w)"]
    by (auto simp: magnitude_compare_def finite_class_def is_finite_nonzero_def mag_def)
qed

lemma mag_class:
  "classification (decode v) = ClsZero \<or> classification (decode v) = ClsInfinity \<Longrightarrow> mag (decode v) = 0"
  "classification (decode v) = ClsSubnormal \<or> classification (decode v) = ClsNormal \<Longrightarrow> 0 < mag (decode v)"
proof -
  show "mag (decode v) = 0" if "classification (decode v) = ClsZero \<or> classification (decode v) = ClsInfinity"
    using that significand_not_finite [of v] by (auto simp: is_finite_nonzero_def)
  show "0 < mag (decode v)" if "classification (decode v) = ClsSubnormal \<or> classification (decode v) = ClsNormal"
    by (rule finite_operand [of v]) (use that in \<open>simp_all add: is_finite_nonzero_def\<close>)
qed

lemma compare_signs:
  assumes sem: "semantics v = semantics w" and c: "ordered_class (classification (decode v))" "ordered_class (classification (decode w))"
  shows "compare v w = \<lparr>fc_value =
     (if classification (decode v) = ClsZero \<and> classification (decode w) = ClsZero then CmpEqual
      else if negative (decode v) \<noteq> negative (decode w) then (if negative (decode v) then CmpLess else CmpGreater)
      else let ord = (if negative (decode v) then - 1 else 1) * magnitude_compare (decode v) (decode w)
           in if ord < 0 then CmpLess else if 0 < ord then CmpGreater else CmpEqual),
     fc_status = 0, fc_error = NoError\<rparr>"
proof -
  have "\<not> (classification (decode v) = ClsInvalid \<or> classification (decode w) = ClsInvalid)"
    "\<not> (is_nan_class (classification (decode v)) \<or> is_nan_class (classification (decode w)))"
    using c by (auto simp: ordered_class_def finite_class_def is_nan_class_def)
  then show ?thesis
    unfolding compare_def Let_def using sem by (simp only: if_False) simp
qed

lemma compare_precedes:
  assumes sem: "semantics v = semantics w" and c: "ordered_class (classification (decode v))" "ordered_class (classification (decode w))"
  shows "compare v w = \<lparr>fc_value = (if precedes v w then CmpLess else if precedes w v then CmpGreater else CmpEqual),
    fc_status = 0, fc_error = NoError\<rparr>"
proof (cases "classification (decode v) = ClsInfinity \<or> classification (decode w) = ClsInfinity")
  case True
  then show ?thesis
    using c mag_class(1) [of v] mag_class(1) [of w]
    by (auto simp: compare_signs [OF assms] magnitude_compare_def precedes_def rank_def fval_def Let_def
        ordered_class_def finite_class_def)
next
  case False
  then have fin: "finite_class (classification (decode v))" "finite_class (classification (decode w))"
    using c by (simp_all add: ordered_class_def)
  have m: "magnitude_compare (decode v) (decode w) < 0 \<longleftrightarrow> mag (decode v) < mag (decode w)"
    "0 < magnitude_compare (decode v) (decode w) \<longleftrightarrow> mag (decode w) < mag (decode v)"
    using magnitude_compare_sgn [OF fin] by (metis diff_gt_0_iff_gt diff_less_0_iff_less of_int_0_less_iff
        of_int_less_0_iff sgn_greater sgn_less)+
  have p: "precedes v w \<longleftrightarrow> fval v < fval w" "precedes w v \<longleftrightarrow> fval w < fval v"
    using False by (simp_all add: precedes_def rank_def)
  have z: "mag (decode x) \<ge> 0" "finite_class (classification (decode x)) \<Longrightarrow> mag (decode x) = 0 \<Longrightarrow> classification (decode x) = ClsZero" for x
    using mag_class(2) [of x] by (auto simp: mag_def finite_class_def)
  consider (zeros) "classification (decode v) = ClsZero" "classification (decode w) = ClsZero"
    | (signs) "negative (decode v) \<noteq> negative (decode w)" "0 < mag (decode v) + mag (decode w)"
    | (same) "negative (decode v) = negative (decode w)"
      "\<not> (classification (decode v) = ClsZero \<and> classification (decode w) = ClsZero)"
    using z(1) [of v] z(1) [of w] z(2) [OF fin(1)] z(2) [OF fin(2)] by fastforce
  then show ?thesis
  proof cases
    case zeros
    then show ?thesis
      using mag_class(1) [of v] mag_class(1) [of w] by (simp add: compare_signs [OF assms] p fval_def)
  next
    case signs
    then have "\<not> (classification (decode v) = ClsZero \<and> classification (decode w) = ClsZero)"
      using mag_class(1) [of v] mag_class(1) [of w] by auto
    then show ?thesis
      using signs z(1) [of v] z(1) [of w]
      by (cases "negative (decode v)") (simp_all add: compare_signs [OF assms] p fval_def signed_def)
  next
    case same
    then show ?thesis
      by (cases "negative (decode w)") (auto simp: compare_signs [OF assms] p fval_def signed_def Let_def m)
  qed
qed

section \<open>Properties\<close>

text \<open>
  C34: converting a finite value to a format that contains it and back is the identity and
  raises no flag, and so it is for zeros, infinities and quiet NaNs with their payload. The
  pairs of formats this covers include half, single, double and quadruple in that order, and
  double into x87 extended into quadruple.
\<close>

theorem convert_round_trip:
  assumes "descriptor (semantics v) = Some d" "descriptor g = Some d'" "widens d d'"
    and "classification (decode v) \<noteq> ClsInvalid" "classification (decode v) \<noteq> ClsSignalingNaN" "\<not> pseudo_denormal v"
  shows "fr_value (convert (fr_value (convert v g control)) (semantics v) control') = v
    \<and> fr_status (convert v g control) = 0 \<and> fr_status (convert (fr_value (convert v g control)) (semantics v) control') = 0"
  using convert_back [OF assms] by blast

theorem convert_round_trip_witness:
  "fr_value (convert (fr_value (convert (f32 0xc0400000) IEEEBinary64 default_control)) IEEEBinary32 default_control) = f32 0xc0400000"
proof -
  obtain d d' where d: "descriptor IEEEBinary32 = Some d" "descriptor IEEEBinary64 = Some d'" "widens d d'"
    by (simp add: descriptor_def widens_def qmin_def min_normal_exponent_def max_normal_exponent_def int_bits)
  have "\<not> pseudo_denormal (f32 0xc0400000)"
    by code_simp
  then show ?thesis
    using convert_round_trip [OF _ d(2,3), of "f32 0xc0400000" default_control default_control] d(1)
    by (simp add: decode_minus_three)
qed

text \<open>
  scaling a finite nonzero value by any power of two, however large the exponent, is the
  exact product rounded once; the cut-offs at a million never change the result.
\<close>

theorem scale_correct:
  assumes "is_finite_nonzero (classification (decode v))"
  shows "rounded (semantics v) control (negative (decode v)) (mag (decode v) * 2 powi k) (scale_by_power_of_two v k control)"
  using scale_exact_rounded [OF assms] .

theorem scale_correct_witness:
  "rounded IEEEBinary32 default_control True (3 * 2 powi 2000000) (scale_by_power_of_two (f32 0xc0400000) 2000000 default_control)"
proof -
  have "mag (decode (f32 0xc0400000)) = 3" "negative (decode (f32 0xc0400000))"
    by (simp_all add: mag_def decode_minus_three power_int_def power_divide)
  then show ?thesis
    using scale_correct [of "f32 0xc0400000" default_control 2000000] by (simp only: finite_samples semantics_f32)
qed

text \<open>
  C35: comparing two values that are not NaNs is the order of the real numbers they denote,
  with the infinities at the ends and the two zeros equal, and raises no flag.
\<close>

theorem compare_correct:
  assumes "semantics v = semantics w" "ordered_class (classification (decode v))" "ordered_class (classification (decode w))"
  shows "compare v w = \<lparr>fc_value = (if precedes v w then CmpLess else if precedes w v then CmpGreater else CmpEqual),
    fc_status = 0, fc_error = NoError\<rparr>"
  using compare_precedes [OF assms] .

theorem compare_correct_witness:
  "fc_value (compare (f32 0xc0400000) (f32 0x3f800000)) = CmpLess"
proof -
  have "precedes (f32 0xc0400000) (f32 0x3f800000)"
    by (simp add: precedes_def rank_def decode_one decode_minus_three)
  then show ?thesis
    using compare_correct [of "f32 0xc0400000" "f32 0x3f800000"]
    by (simp add: ordered_class_def finite_class_def decode_one decode_minus_three)
qed

end
