(* ===== verification/Integer_Value.thy ===== *)
theory Integer_Value
  imports Prelude
begin

text \<open>
  The constant integers of the front end (\<open>numeric/integer_value.h\<close>): a value of 1 to 128
  bits kept in two 64-bit words, with a width and a signedness. The 128-bit intermediate of
  the code is a \<^typ>\<open>u128\<close>; where the code holds an \<open>__int128\<close> the same word is read with
  \<^const>\<open>sint\<close>.
\<close>

section \<open>Data and operations\<close>

record integer_value =
  iv_low_bits :: u64
  iv_high_bits :: u64
  iv_bit_width :: u16
  iv_is_unsigned :: bool

definition normalized_width :: "u16 \<Rightarrow> u16" where
  "normalized_width width = (if width = 0 then 1 else if width > 128 then 128 else width)"

definition width_mask :: "u16 \<Rightarrow> u128" where
  "width_mask width0 =
     (let width = normalized_width width0
      in if width = 128 then NOT 0 else push_bit (unat width) 1 - 1)"

definition from_bits128 :: "u128 \<Rightarrow> u16 \<Rightarrow> bool \<Rightarrow> integer_value" where
  "from_bits128 bits width unsigned_value =
     (let masked = bits AND width_mask width
      in \<lparr>iv_low_bits = ucast masked,
          iv_high_bits = ucast (drop_bit 64 masked),
          iv_bit_width = (if width = 0 then 1 else width),
          iv_is_unsigned = unsigned_value\<rparr>)"

definition from_words :: "u64 \<Rightarrow> u64 \<Rightarrow> u16 \<Rightarrow> bool \<Rightarrow> integer_value" where
  "from_words low high width unsigned_value =
     from_bits128 (push_bit 64 (ucast high) OR ucast low) width unsigned_value"

definition from_unsigned :: "u128 \<Rightarrow> u16 \<Rightarrow> integer_value" where
  "from_unsigned v width = from_bits128 v width True"

definition from_signed :: "u128 \<Rightarrow> u16 \<Rightarrow> integer_value" where
  "from_signed v width = from_bits128 v width False"

definition to_unsigned_u128 :: "integer_value \<Rightarrow> u128" where
  "to_unsigned_u128 v =
     (push_bit 64 (ucast (iv_high_bits v)) OR ucast (iv_low_bits v)) AND width_mask (iv_bit_width v)"

definition to_signed_i128 :: "integer_value \<Rightarrow> u128" where
  "to_signed_i128 v =
     (let bits = to_unsigned_u128 v;
          width = normalized_width (iv_bit_width v)
      in if width < 128 \<and> bits AND push_bit (unat width - 1) 1 \<noteq> 0
         then bits OR NOT (width_mask width)
         else bits)"

definition to_unsigned_u64 :: "integer_value \<Rightarrow> u64" where
  "to_unsigned_u64 v = iv_low_bits v"

definition to_signed_i64 :: "integer_value \<Rightarrow> u64" where
  "to_signed_i64 v = ucast (to_signed_i128 v)"

definition try_as_uint64 :: "integer_value \<Rightarrow> u64 option" where
  "try_as_uint64 v =
     (if iv_is_unsigned v
      then (if iv_high_bits v = 0 then Some (iv_low_bits v) else None)
      else let value = to_signed_i128 v
           in if sint value < 0 \<or> value > ucast (- 1 :: u64) then None
              else Some (ucast value))"

definition try_as_int64 :: "integer_value \<Rightarrow> u64 option" where
  "try_as_int64 v =
     (if iv_is_unsigned v
      then let value = to_unsigned_u128 v
           in if value > 9223372036854775807 then None else Some (ucast value)
      else let value = to_signed_i128 v
           in if sint value < - 9223372036854775808 \<or> sint value > 9223372036854775807
              then None else Some (ucast value))"

definition cast_value :: "integer_value \<Rightarrow> u16 \<Rightarrow> bool \<Rightarrow> integer_value" where
  "cast_value v new_width new_unsigned =
     from_bits128 (if iv_is_unsigned v then to_unsigned_u128 v else to_signed_i128 v)
       new_width new_unsigned"

definition canonical_int :: "integer_value \<Rightarrow> bool" where
  "canonical_int v \<longleftrightarrow>
     iv_bit_width v \<ge> 1 \<and> iv_bit_width v \<le> 128 \<and>
     v = from_words (iv_low_bits v) (iv_high_bits v) (iv_bit_width v) (iv_is_unsigned v)"

definition is_zero_int :: "integer_value \<Rightarrow> bool" where
  "is_zero_int v \<longleftrightarrow> iv_low_bits v = 0 \<and> iv_high_bits v = 0"

definition is_negative_int :: "integer_value \<Rightarrow> bool" where
  "is_negative_int v \<longleftrightarrow> \<not> iv_is_unsigned v \<and> sint (to_signed_i128 v) < 0"

lemma unat_div_10: "unat (m div 10 :: u128) = unat m div 10"
  by (simp add: unat_div_distrib)

lemma div_10_neq_0: "m div 10 \<noteq> 0 \<longleftrightarrow> 10 \<le> unat (m :: u128)"
proof -
  have "(m div 10 = 0) = (unat (m div 10) = 0)"
    by (simp only: unat_eq_zero)
  then show ?thesis
    unfolding unat_div_10 by linarith
qed

text \<open>
  The do-while loop of \<open>decimal\<close>: \<open>buffer\<close> is the part of the 40-byte array already filled,
  from \<open>current\<close> to \<open>end\<close>.
\<close>

function decimal_loop :: "u128 \<Rightarrow> string \<Rightarrow> string" where
  "decimal_loop magnitude buffer =
     (let buffer' = char_of (48 + unat (magnitude mod 10)) # buffer;
          magnitude' = magnitude div 10
      in if magnitude' \<noteq> 0 then decimal_loop magnitude' buffer' else buffer')"
  by pat_completeness auto
termination
  by (relation "measure (\<lambda>(m, b). unat m)") (auto simp: unat_div_10 div_10_neq_0)

declare decimal_loop.simps [simp del]

definition decimal :: "integer_value \<Rightarrow> string" where
  "decimal v =
     (let negative = is_negative_int v;
          magnitude = (if negative
            then (NOT (to_unsigned_u128 v) + 1) AND width_mask (iv_bit_width v)
            else to_unsigned_u128 v)
      in (if negative then ''-'' else '''') @ decimal_loop magnitude [])"

section \<open>Masks and fields\<close>

abbreviation iv_width :: "u16 \<Rightarrow> nat" where
  "iv_width width \<equiv> unat (normalized_width width)"

lemma normalized_width_idem [simp]: "normalized_width (normalized_width w) = normalized_width w"
  by (simp add: normalized_width_def)

lemma iv_width_range: "1 \<le> iv_width w" "iv_width w \<le> 128"
proof -
  have "w \<noteq> 0 \<Longrightarrow> 1 \<le> unat w"
    by (metis One_nat_def Suc_leI neq0_conv unat_eq_zero)
  then show "1 \<le> iv_width w"
    by (simp add: normalized_width_def)
  show "iv_width w \<le> 128"
    by (simp add: normalized_width_def word_less_nat_alt)
qed

lemma iv_width_eq: "1 \<le> w \<Longrightarrow> w \<le> 128 \<Longrightarrow> iv_width w = unat w"
  by (auto simp: normalized_width_def word_le_nat_alt word_less_nat_alt)

lemma width_mask_eq: "width_mask w = mask (iv_width w)"
proof (cases "normalized_width w = 128")
  case True
  then show ?thesis
    using mask_full [where 'a = 128] by (simp add: width_mask_def)
next
  case False
  then show ?thesis
    by (simp add: width_mask_def mask_eq_exp_minus_1 push_bit_eq_mult)
qed

lemma and_width_mask: "x AND width_mask w = take_bit (iv_width w) x"
  by (simp add: width_mask_eq take_bit_eq_mask)

lemma split_join_u128:
  "push_bit 64 (ucast (ucast (drop_bit 64 x) :: u64)) OR ucast (ucast x :: u64) = (x :: u128)"
  by (rule bit_eqI) (auto simp: bit_simps)

lemma from_bits128_sel [simp]:
  "iv_bit_width (from_bits128 b w u) = (if w = 0 then 1 else w)"
  "iv_is_unsigned (from_bits128 b w u) = u"
  by (simp_all add: from_bits128_def Let_def)

lemma normalized_width_stored [simp]: "normalized_width (if w = 0 then 1 else w) = normalized_width w"
  by (simp add: normalized_width_def)

lemma to_unsigned_from_bits:
  "to_unsigned_u128 (from_bits128 b w u) = take_bit (iv_width w) b"
  by (simp add: to_unsigned_u128_def from_bits128_def Let_def split_join_u128 and_width_mask
      width_mask_eq [of "if w = 0 then 1 else w"] take_bit_eq_mask [symmetric])

lemma to_unsigned_take_bit:
  "take_bit (iv_width (iv_bit_width v)) (to_unsigned_u128 v) = to_unsigned_u128 v"
  by (simp add: to_unsigned_u128_def and_width_mask)

lemma to_signed_signed_take_bit:
  "to_signed_i128 v = signed_take_bit (iv_width (iv_bit_width v) - 1) (to_unsigned_u128 v)"
proof -
  define n where "n = iv_width (iv_bit_width v)"
  define b where "b = to_unsigned_u128 v"
  have n: "1 \<le> n" "n \<le> 128"
    using iv_width_range by (simp_all add: n_def)
  have tb: "take_bit n b = b"
    using to_unsigned_take_bit by (simp add: n_def b_def)
  have wid: "normalized_width (iv_bit_width v) < 128 \<longleftrightarrow> n < 128"
    by (simp add: n_def word_less_nat_alt)
  have high: "\<not> bit b i" if "n \<le> i" for i
    using that tb by (metis bit_take_bit_iff not_le)
  have "bit (if n < 128 \<and> bit b (n - 1) then b OR NOT (mask n) else b) i
      = bit (signed_take_bit (n - 1) b) i" if "i < 128" for i
  proof -
    consider "i < n - 1" | "i = n - 1" | "n \<le> i"
      using n by linarith
    then show ?thesis
      using that n high by cases (auto simp: bit_simps min_def not_less)
  qed
  then have "(if n < 128 \<and> bit b (n - 1) then b OR NOT (mask n) else b) = signed_take_bit (n - 1) b"
    by (intro bit_eqI) (auto simp: bit_simps)
  then show ?thesis
    by (auto simp: to_signed_i128_def Let_def width_mask_eq wid n_def [symmetric] b_def [symmetric]
        and_exp_eq_0_iff_not_bit split: if_splits)
qed

lemma sint_signed_take_bit:
  "k < LENGTH('a) \<Longrightarrow> sint (signed_take_bit k w) = signed_take_bit k (uint w)" for w :: "'a::len word"
  by (rule bit_eqI) (auto simp: bit_simps min_def)

lemma sint_to_signed:
  "sint (to_signed_i128 v) = signed_take_bit (iv_width (iv_bit_width v) - 1) (uint (to_unsigned_u128 v))"
  using iv_width_range(2) [of "iv_bit_width v"]
  by (simp add: to_signed_signed_take_bit sint_signed_take_bit)

section \<open>The mathematical value\<close>

text \<open>
  The integer an \<^typ>\<open>integer_value\<close> denotes, and the reduction of an integer to a width and
  signedness, which is what the C and C++ standards prescribe for a conversion.
\<close>

definition int_of :: "integer_value \<Rightarrow> int" where
  "int_of v = (if iv_is_unsigned v then uint (to_unsigned_u128 v) else sint (to_signed_i128 v))"

definition wrap_int :: "nat \<Rightarrow> bool \<Rightarrow> int \<Rightarrow> int" where
  "wrap_int n u k = (if u then take_bit n k else signed_take_bit (n - 1) k)"

definition int_range :: "nat \<Rightarrow> bool \<Rightarrow> int set" where
  "int_range n u = (if u then {0..<2 ^ n} else {- (2 ^ (n - 1))..<2 ^ (n - 1)})"

lemma wrap_int_id: "k \<in> int_range n u \<Longrightarrow> wrap_int n u k = k"
  by (auto simp: wrap_int_def int_range_def take_bit_int_eq_self signed_take_bit_int_eq_self
      split: if_splits)

lemma wrap_int_range: "wrap_int n u k \<in> int_range n u"
  by (auto simp: wrap_int_def int_range_def signed_take_bit_int_less_exp
      signed_take_bit_int_greater_eq_minus_exp)

lemma wrap_int_cong: "1 \<le> n \<Longrightarrow> n \<le> m \<Longrightarrow> wrap_int n u (take_bit m k) = wrap_int n u k"
  by (auto simp: wrap_int_def signed_take_bit_take_bit intro!: arg_cong [where f = "signed_take_bit _"])

lemma wrap_int_signed_high: "1 \<le> n \<Longrightarrow> n \<le> 128 \<Longrightarrow> wrap_int n u (sint x) = wrap_int n u (uint x)"
  for x :: u128
  using wrap_int_cong [of n 128 u "sint x"] by (simp add: uint_sint [of x])

lemma int_of_from_bits:
  "int_of (from_bits128 b w u) = wrap_int (iv_width w) u (uint b)"
  using iv_width_range(1) [of w]
  by (auto simp: int_of_def sint_to_signed to_unsigned_from_bits unsigned_take_bit_eq wrap_int_def
      signed_take_bit_take_bit)

lemma int_of_range: "int_of v \<in> int_range (iv_width (iv_bit_width v)) (iv_is_unsigned v)"
proof -
  have "int_of v = wrap_int (iv_width (iv_bit_width v)) (iv_is_unsigned v) (uint (to_unsigned_u128 v))"
    by (simp add: int_of_def sint_to_signed wrap_int_def unsigned_take_bit_eq [symmetric]
        to_unsigned_take_bit)
  then show ?thesis
    by (simp add: wrap_int_range)
qed

lemma int_of_cast:
  "int_of (cast_value v w u) = wrap_int (iv_width w) u (int_of v)"
  using iv_width_range [of w]
  unfolding cast_value_def int_of_from_bits by (simp add: int_of_def wrap_int_signed_high)

lemma canonical_from_bits:
  assumes "1 \<le> w" and "w \<le> 128"
  shows "canonical_int (from_bits128 b w u)"
proof -
  have w: "(if w = 0 then 1 else w) = w"
    using assms by (auto simp: word_le_nat_alt)
  show ?thesis
    unfolding canonical_int_def from_words_def
    using assms by (simp add: w from_bits128_def Let_def split_join_u128 and_width_mask)
qed

lemma canonical_int_bits:
  assumes "canonical_int v"
  shows "to_unsigned_u128 v = push_bit 64 (ucast (iv_high_bits v)) OR ucast (iv_low_bits v)"
proof -
  let ?b = "push_bit 64 (ucast (iv_high_bits v)) OR ucast (iv_low_bits v) :: u128"
  have v: "v = from_bits128 ?b (iv_bit_width v) (iv_is_unsigned v)"
    using assms by (simp add: canonical_int_def from_words_def)
  have "to_unsigned_u128 v = take_bit (iv_width (iv_bit_width v)) ?b"
    by (simp add: to_unsigned_u128_def and_width_mask)
  moreover have "iv_low_bits v = ucast (take_bit (iv_width (iv_bit_width v)) ?b)"
      "iv_high_bits v = ucast (drop_bit 64 (take_bit (iv_width (iv_bit_width v)) ?b))"
    using v by (metis from_bits128_def and_width_mask integer_value.select_convs(1,2))+
  ultimately show ?thesis
    by (metis split_join_u128)
qed

section \<open>Narrowing to 64 bits\<close>

lemma sint_ucast_u64: "sint (ucast x :: u64) = signed_take_bit 63 (sint x)" for x :: u128
  by (rule bit_eqI) (auto simp: bit_simps min_def)

lemma sint_ucast_u64_id:
  "- 9223372036854775808 \<le> sint x \<Longrightarrow> sint x \<le> 9223372036854775807 \<Longrightarrow> sint (ucast x :: u64) = sint x"
  for x :: u128
  by (simp add: sint_ucast_u64 signed_take_bit_int_eq_self)

lemma uint_ucast_u64_id: "uint x \<le> 18446744073709551615 \<Longrightarrow> uint (ucast x :: u64) = uint x"
  for x :: u128
  by (simp add: unsigned_ucast_eq take_bit_int_eq_self)

lemma nonneg_sint: "0 \<le> sint x \<Longrightarrow> uint x = sint x" for x :: u128
  using sint_lt [of x] by (simp add: uint_sint [of x] take_bit_int_eq_self)

lemma sint_ucast_u64_small: "uint x \<le> 9223372036854775807 \<Longrightarrow> sint (ucast x :: u64) = uint x"
  for x :: u128
proof -
  assume "uint x \<le> 9223372036854775807"
  moreover have "- (2 ^ 127) \<le> uint x" "- (2 ^ 63) \<le> uint x"
    by (rule order_trans [of _ 0]; simp)+
  ultimately have "signed_take_bit 127 (uint x) = uint x" "signed_take_bit 63 (uint x) = uint x"
    by (simp_all add: signed_take_bit_int_eq_self)
  then show ?thesis
    by (simp add: sint_ucast_u64 sint_uint [of x])
qed

lemma uint_joined: "uint (push_bit 64 (ucast h) OR ucast l :: u128) = 2 ^ 64 * uint h + uint l"
  for h l :: u64
proof -
  have "unat (ucast l :: u128) = unat l"
    using unat_u64_lt [of l] by (simp add: unat_ucast_down mod_less)
  then have "push_bit 64 (ucast h) OR ucast l = push_bit 64 (ucast h) + (ucast l :: u128)"
    using unat_u64_lt [of l] by (intro unat_or_disjoint) simp
  moreover have "uint (ucast l :: u128) = uint l" "uint (push_bit 64 (ucast h) :: u128) = 2 ^ 64 * uint h"
    using uint_u64_lt [of l] uint_u64_lt [of h]
    by (simp_all add: unsigned_push_bit_eq unsigned_ucast_eq int_bits)
  ultimately show ?thesis
    using uint_u64_lt [of l] uint_u64_lt [of h] by (simp add: uint_word_ariths)
qed

section \<open>Decimal output\<close>

text \<open>The reader of a decimal numeral, with an optional sign.\<close>

definition dec_step :: "nat \<Rightarrow> char \<Rightarrow> nat" where
  "dec_step n c = 10 * n + (of_char c - 48)"

definition dec_val :: "string \<Rightarrow> nat" where
  "dec_val s = foldl dec_step 0 s"

fun read_int :: "string \<Rightarrow> int" where
  "read_int [] = 0"
| "read_int (c # s) = (if c = CHR ''-'' then - int (dec_val s) else int (dec_val (c # s)))"

lemma dec_step_char: "d < 10 \<Longrightarrow> dec_step n (char_of (48 + d)) = 10 * n + d"
  by (simp add: dec_step_def of_char_of)

lemma unat_mod_10: "unat (m mod 10 :: u128) = unat m mod 10"
  by (simp add: unat_mod_distrib)

lemma decimal_loop_val: "foldl dec_step 0 (decimal_loop m b) = foldl dec_step (unat m) b"
proof (induction m b rule: decimal_loop.induct)
  case (1 m b)
  have step: "dec_step (unat m div 10) (char_of (48 + unat (m mod 10))) = unat m"
    by (simp add: unat_mod_10 dec_step_char)
  show ?case
  proof (cases "m div 10 = 0")
    case True
    then have "unat m div 10 = 0"
      using div_10_neq_0 [of m] by simp
    with True step show ?thesis
      by (subst decimal_loop.simps) (simp add: Let_def)
  next
    case False
    with 1 step show ?thesis
      by (subst decimal_loop.simps) (simp add: Let_def unat_div_10)
  qed
qed

lemma decimal_loop_length:
  "unat m < 10 ^ Suc k \<Longrightarrow> length (decimal_loop m b) \<le> length b + Suc k"
proof (induction m b arbitrary: k rule: decimal_loop.induct)
  case (1 m b)
  show ?case
  proof (cases "m div 10 = 0")
    case True
    then show ?thesis
      by (subst decimal_loop.simps) (simp add: Let_def)
  next
    case False
    then obtain k' where k: "k = Suc k'"
      using "1.prems" div_10_neq_0 [of m] by (cases k) auto
    have "unat (m div 10) < 10 ^ Suc k'"
      using "1.prems" by (simp add: k unat_div_10 div_less_iff_less_mult)
    with 1 False have "length (decimal_loop (m div 10) (char_of (48 + unat (m mod 10)) # b))
        \<le> length b + Suc k"
      by (fastforce simp: k)
    with False show ?thesis
      by (subst decimal_loop.simps) (simp add: Let_def)
  qed
qed

lemma decimal_loop_hd: "\<exists>d < 10. \<exists>s. decimal_loop m b = char_of (48 + d :: nat) # s"
proof (induction m b rule: decimal_loop.induct)
  case (1 m b)
  have "unat (m mod 10) < 10"
    by (simp add: unat_mod_10)
  with 1 show ?case
    by (subst decimal_loop.simps) (auto simp: Let_def)
qed

lemma decimal_loop_not_minus: "hd (decimal_loop m b) \<noteq> CHR ''-''" "decimal_loop m b \<noteq> []"
proof -
  obtain d s where d: "d < 10" and eq: "decimal_loop m b = char_of (48 + d :: nat) # s"
    using decimal_loop_hd by blast
  have "of_char (char_of (48 + d) :: char) \<noteq> (of_char (CHR ''-'') :: nat)"
    using d by (simp add: of_char_of)
  then show "hd (decimal_loop m b) \<noteq> CHR ''-''" "decimal_loop m b \<noteq> []"
    by (auto simp only: eq list.sel)
qed

lemma read_int_decimal_loop: "read_int (decimal_loop m []) = int (unat m)"
  using decimal_loop_not_minus [of m "[]"] decimal_loop_val [of m "[]"]
  by (cases "decimal_loop m []") (auto simp: dec_val_def)

lemma negated_magnitude:
  assumes "is_negative_int v"
  shows "int (unat ((NOT (to_unsigned_u128 v) + 1) AND width_mask (iv_bit_width v))) = - int_of v"
proof -
  define n where "n = iv_width (iv_bit_width v)"
  define b where "b = to_unsigned_u128 v"
  have n: "1 \<le> n" "n \<le> 128"
    using iv_width_range by (simp_all add: n_def)
  have val: "int_of v = signed_take_bit (n - 1) (uint b)" and neg: "int_of v < 0"
    using assms by (auto simp: is_negative_int_def int_of_def sint_to_signed n_def b_def)
  have lo: "- (2 ^ (n - 1)) \<le> int_of v"
    by (simp add: val signed_take_bit_int_greater_eq_minus_exp)
  have "take_bit n (- uint b) = take_bit n (- int_of v)"
    using n by (metis val take_bit_minus take_bit_signed_take_bit Suc_diff_1 less_eq_Suc_le
        order_refl One_nat_def)
  moreover have "- int_of v < 2 ^ n"
    using lo n power_strict_increasing [of "n - 1" n "2 :: int"] by linarith
  ultimately have eq: "take_bit n (- uint b) = - int_of v"
    using neg by (simp add: take_bit_int_eq_self)
  have "uint (- b) = take_bit 128 (- uint b)"
    by (simp add: uint_word_ariths(4) take_bit_eq_mod)
  then have "uint (take_bit n (- b)) = take_bit n (- uint b)"
    using n by (simp only: unsigned_take_bit_eq take_bit_take_bit min_absorb1)
  with eq have "uint (take_bit n (NOT b + 1)) = - int_of v"
    by (simp add: minus_eq_not_plus_1)
  then show ?thesis
    by (simp add: and_width_mask n_def [symmetric] b_def [symmetric])
qed

lemma to_unsigned_nonneg:
  assumes "0 \<le> sint (to_signed_i128 v)"
  shows "uint (to_unsigned_u128 v) = sint (to_signed_i128 v)"
proof -
  define n where "n = iv_width (iv_bit_width v)"
  define k where "k = signed_take_bit (n - 1) (uint (to_unsigned_u128 v))"
  have n: "1 \<le> n"
    using iv_width_range by (simp add: n_def)
  have k: "sint (to_signed_i128 v) = k"
    by (simp add: sint_to_signed k_def n_def)
  have "k < 2 ^ (n - 1)"
    by (simp add: k_def signed_take_bit_int_less_exp)
  also have "\<dots> < 2 ^ n"
    using n by (intro power_strict_increasing) auto
  finally have "take_bit n k = k"
    using assms by (simp add: k take_bit_int_eq_self)
  moreover have "take_bit n k = take_bit n (uint (to_unsigned_u128 v))"
    unfolding k_def using n by (intro take_bit_signed_take_bit) simp
  moreover have "take_bit n (uint (to_unsigned_u128 v)) = uint (to_unsigned_u128 v)"
    using to_unsigned_take_bit [of v] by (metis n_def unsigned_take_bit_eq)
  ultimately show ?thesis
    by (simp add: k)
qed

section \<open>Properties\<close>

text \<open>
  C38: converting an integer constant to another width and signedness yields the value the
  language standards prescribe (reduction modulo the new width, read with the new
  signedness), and the result is a canonical object whenever the width is one the front end
  uses.
\<close>

theorem cast_value_correct:
  assumes "1 \<le> w" and "w \<le> 128"
  shows "int_of (cast_value v w u) = wrap_int (unat w) u (int_of v) \<and> canonical_int (cast_value v w u)"
  using assms by (simp add: int_of_cast iv_width_eq)
    (simp add: cast_value_def canonical_from_bits)

theorem cast_value_correct_witness:
  "int_of (cast_value (from_signed (- 200) 16) 8 True) = wrap_int 8 True (int_of (from_signed (- 200) 16))
   \<and> canonical_int (cast_value (from_signed (- 200) 16) 8 True)"
  using cast_value_correct [of 8 "from_signed (- 200) 16" True] by simp

text \<open>
  \<open>try_as_int64\<close> answers exactly when the denoted integer fits a signed 64-bit word, and
  then with that integer; \<open>try_as_uint64\<close> likewise for unsigned words on canonical values.
\<close>

theorem try_as_64_correct:
  assumes "canonical_int v"
  shows "(case try_as_int64 v of
            None \<Rightarrow> int_of v \<notin> int_range 64 False
          | Some x \<Rightarrow> sint x = int_of v) \<and>
         (case try_as_uint64 v of
            None \<Rightarrow> int_of v \<notin> int_range 64 True
          | Some x \<Rightarrow> uint x = int_of v)"
proof -
  have max64: "uint (ucast (- 1 :: u64) :: u128) = 18446744073709551615"
    by (simp add: unsigned_ucast_eq unsigned_minus_1_eq_mask mask_eq_exp_minus_1 take_bit_int_eq_self)
  have "case try_as_int64 v of None \<Rightarrow> int_of v \<notin> int_range 64 False | Some x \<Rightarrow> sint x = int_of v"
    by (auto simp: try_as_int64_def int_of_def int_range_def Let_def word_less_def nonneg_sint
        sint_ucast_u64_id sint_ucast_u64_small not_less)
  moreover have "case try_as_uint64 v of None \<Rightarrow> int_of v \<notin> int_range 64 True | Some x \<Rightarrow> uint x = int_of v"
  proof (cases "iv_is_unsigned v")
    case True
    then have val: "int_of v = 2 ^ 64 * uint (iv_high_bits v) + uint (iv_low_bits v)"
      by (simp add: int_of_def canonical_int_bits [OF assms] uint_joined)
    have high: "1 \<le> uint (iv_high_bits v)" if "iv_high_bits v \<noteq> 0"
      using that by (metis int_one_le_iff_zero_less order_le_less unsigned_eq_0_iff unsigned_greater_eq)
    have "2 ^ 64 \<le> int_of v" if "iv_high_bits v \<noteq> 0"
    proof -
      have "2 ^ 64 \<le> 2 ^ 64 * h + l" if "1 \<le> h" "0 \<le> l" for h l :: int
        using that by simp
      from this [OF high [OF that] unsigned_greater_eq] show ?thesis
        unfolding val .
    qed
    with True show ?thesis
      by (auto simp: try_as_uint64_def val int_range_def)
  next
    case False
    then show ?thesis
      by (auto simp: try_as_uint64_def int_of_def int_range_def Let_def word_less_def max64
          nonneg_sint uint_ucast_u64_id)
  qed
  ultimately show ?thesis ..
qed

theorem try_as_64_correct_witness:
  "canonical_int (from_signed (- 5) 16) \<and>
   (case try_as_int64 (from_signed (- 5) 16) of
      None \<Rightarrow> int_of (from_signed (- 5) 16) \<notin> int_range 64 False
    | Some x \<Rightarrow> sint x = int_of (from_signed (- 5) 16))"
proof -
  have "canonical_int (from_signed (- 5) 16)"
    by (simp add: from_signed_def canonical_from_bits)
  then show ?thesis
    using try_as_64_correct [of "from_signed (- 5) 16"] by blast
qed

text \<open>
  printing an integer constant in decimal and reading the numeral back gives the integer
  it denotes, for every width and signedness.
\<close>

theorem decimal_round_trip: "read_int (decimal v) = int_of v"
proof (cases "is_negative_int v")
  case True
  then have "decimal v = CHR ''-'' # decimal_loop
      ((NOT (to_unsigned_u128 v) + 1) AND width_mask (iv_bit_width v)) []"
    by (simp add: decimal_def Let_def)
  with True show ?thesis
    using negated_magnitude [OF True] decimal_loop_val
    by (simp add: dec_val_def)
next
  case False
  have nonneg: "\<not> iv_is_unsigned v \<Longrightarrow> uint (to_unsigned_u128 v) = sint (to_signed_i128 v)"
  proof -
    assume "\<not> iv_is_unsigned v"
    with False show ?thesis
      by (intro to_unsigned_nonneg) (simp add: is_negative_int_def)
  qed
  from False show ?thesis
    by (auto simp: decimal_def Let_def read_int_decimal_loop int_of_def nonneg)
qed

text \<open>
  the 40-byte buffer of \<open>decimal\<close> is never overrun: the digits of any 128-bit magnitude
  take at most 39 bytes.
\<close>

theorem decimal_fits_buffer: "length (decimal_loop m []) \<le> 39"
proof -
  have "unat m < 10 ^ Suc 38"
    using unat_lt_exp [of m] by simp
  then show ?thesis
    using decimal_loop_length [of m 38 "[]"] by simp
qed

end
