(* ===== verification/Float_Integer_Correct.thy ===== *)
theory Float_Integer_Correct
  imports Float_Convert_Correct Integer_Value
begin

text \<open>
  Conversions from and to integers, against the integer a bit pattern denotes at a width and
  a signedness (\<open>wrap_int\<close>) and the truncation of the real value.
\<close>

section \<open>Two's complement at a width\<close>

lemma uint_negated:
  fixes x :: u128
  assumes "w \<le> 128"
  shows "uint ((NOT x + 1) AND low_mask w) = take_bit w (- uint x)"
proof -
  have "uint (- x) = take_bit 128 (- uint x)"
    by (simp add: uint_word_ariths(4) take_bit_eq_mod)
  then have "uint (take_bit w (- x)) = take_bit w (- uint x)"
    using assms by (simp only: unsigned_take_bit_eq take_bit_take_bit min_absorb1)
  then show ?thesis
    by (simp add: and_low_mask minus_eq_not_plus_1)
qed

lemma uint_masked: "w \<le> 128 \<Longrightarrow> uint (x AND low_mask w) = take_bit w (uint x)" for x :: u128
  by (simp add: and_low_mask unsigned_take_bit_eq)

lemma masked_sign_bit:
  fixes x :: u128
  assumes "1 \<le> w" "w \<le> 128"
  shows "(x AND low_mask w) AND push_bit (w - 1) 1 \<noteq> 0 \<longleftrightarrow> bit (uint x) (w - 1)"
proof -
  have "(x AND low_mask w) AND push_bit (w - 1) 1 \<noteq> 0 \<longleftrightarrow> bit (take_bit w x) (w - 1)"
    using assms by (simp add: and_low_mask and_exp_eq_0_iff_not_bit)
  then show ?thesis
    using assms by (auto simp: bit_take_bit_iff bit_uint_iff)
qed

lemma wrap_int_sign:
  assumes "1 \<le> w"
  shows "wrap_int w False k = (if bit k (w - 1) then take_bit w k - 2 ^ w else take_bit w k)"
  using signed_take_bit_eq_take_bit_minus [of "w - 1" k] assms by (simp add: wrap_int_def)

lemma sign_magnitude:
  assumes w: "1 \<le> w" "w \<le> 128" and bits: "bits = x AND low_mask w"
    and neg: "neg \<longleftrightarrow> sg \<and> bits AND push_bit (w - 1) 1 \<noteq> 0"
  shows "neg \<longleftrightarrow> wrap_int w (\<not> sg) (uint x) < 0"
    and "int (unat (if neg then (NOT bits + 1) AND low_mask w else bits)) = \<bar>wrap_int w (\<not> sg) (uint x)\<bar>"
proof -
  let ?b = "take_bit w (uint x)"
  have b: "uint bits = ?b" "0 \<le> ?b" "?b < 2 ^ w"
    using w by (simp_all add: bits uint_masked)
  have neg: "neg \<longleftrightarrow> sg \<and> bit (uint x) (w - 1)"
    using masked_sign_bit [OF w, of x] by (simp add: neg bits)
  have val: "wrap_int w (\<not> sg) (uint x) = (if neg then ?b - 2 ^ w else ?b)"
    using wrap_int_sign [OF w(1), of "uint x"] by (auto simp: neg wrap_int_def)
  show "neg \<longleftrightarrow> wrap_int w (\<not> sg) (uint x) < 0"
    using b by (simp add: val)
  have "take_bit w (- ?b) = 2 ^ w - ?b" if neg
  proof -
    have "bit ?b (w - 1)"
      using that w by (simp add: neg bit_take_bit_iff)
    then have "?b \<noteq> 0"
      by auto
    then have "0 \<le> 2 ^ w - ?b" "2 ^ w - ?b < 2 ^ w"
      using b by linarith+
    moreover have "take_bit w (- ?b) = take_bit w (2 ^ w - ?b)"
      by (simp add: take_bit_eq_mod)
    ultimately show ?thesis
      by (simp add: take_bit_int_eq_self)
  qed
  then have "uint (if neg then (NOT bits + 1) AND low_mask w else bits) = \<bar>wrap_int w (\<not> sg) (uint x)\<bar>"
    using b by (cases neg) (simp_all add: val uint_negated [OF w(2)] abs_if)
  then show "int (unat (if neg then (NOT bits + 1) AND low_mask w else bits)) = \<bar>wrap_int w (\<not> sg) (uint x)\<bar>"
    by (simp only: uint_nat)
qed

section \<open>From integers\<close>

lemma from_integer_unfold:
  assumes d: "descriptor f = Some d" and w: "1 \<le> w" "w \<le> 128" and n: "n = wrap_int w (\<not> sg) (uint x)"
  obtains M where "int (unat M) = \<bar>n\<bar>"
    and "from_integer x w sg f control = round_rational (n < 0) (big_of_u128 M) (big_of_u128 1) 0 f control"
proof -
  let ?bits = "x AND low_mask w"
  let ?neg = "sg \<and> ?bits AND push_bit (w - 1) 1 \<noteq> 0"
  note sm = sign_magnitude [OF w refl refl, of sg x]
  show thesis
    using sm d w n that [of "if ?neg then (NOT ?bits + 1) AND low_mask w else ?bits"]
    by (simp add: from_integer_def Let_def)
qed

lemma from_integer_rounded:
  assumes d: "descriptor f = Some d" and w: "1 \<le> w" "w \<le> 128" and n: "n = wrap_int w (\<not> sg) (uint x)"
  shows "n \<noteq> 0 \<Longrightarrow> rounded f control (n < 0) (real_of_int \<bar>n\<bar>) (from_integer x w sg f control)"
    and "n = 0 \<Longrightarrow> from_integer x w sg f control = value_result (zero f False)"
proof -
  obtain M where M: "int (unat M) = \<bar>n\<bar>"
    and eq: "from_integer x w sg f control = round_rational (n < 0) (big_of_u128 M) (big_of_u128 1) 0 f control"
    by (rule from_integer_unfold [OF assms])
  have r: "real (unat M) = real_of_int \<bar>n\<bar>"
    using M by (metis of_int_of_nat_eq)
  show "n \<noteq> 0 \<Longrightarrow> rounded f control (n < 0) (real_of_int \<bar>n\<bar>) (from_integer x w sg f control)"
    using round_integer_rounded [OF d bnorm_big_of_u128 [of M], of control "n < 0" 0] M
    unfolding eq big_of_u128_val r by (cases "unat M = 0") simp_all
  assume "n = 0"
  then have "unat M = 0"
    using M by linarith
  then show "from_integer x w sg f control = value_result (zero f False)"
    using \<open>n = 0\<close> round_rational_zero [OF d bnorm_big_of_u128 [of M]] by (simp add: eq big_of_u128_val)
qed

section \<open>To integers\<close>

definition trunc_int :: "float_value \<Rightarrow> int" where
  "trunc_int v = (if negative (decode v) then - \<lfloor>mag (decode v)\<rfloor> else \<lfloor>mag (decode v)\<rfloor>)"

definition int_magnitude :: "decoded_float \<Rightarrow> biguint \<times> bool" where
  "int_magnitude x = (if 0 \<le> exponent x then (shifted_left (significand x) (nat (exponent x)), False)
     else shifted_right (significand x) (nat (- exponent x)))"

lemma int_magnitude_val:
  assumes "bnorm (significand x)"
  shows "int (bval (fst (int_magnitude x))) = \<lfloor>mag x\<rfloor>" "bnorm (fst (int_magnitude x))"
    and "snd (int_magnitude x) \<longleftrightarrow> mag x \<noteq> real_of_int \<lfloor>mag x\<rfloor>"
proof -
  show "bnorm (fst (int_magnitude x))"
    using assms by (simp add: int_magnitude_def bnorm_shifted_left bnorm_shifted_right)
  show "int (bval (fst (int_magnitude x))) = \<lfloor>mag x\<rfloor>"
  proof (cases "0 \<le> exponent x")
    case True
    then have "mag x = real (bval (significand x) * 2 ^ nat (exponent x))"
      by (simp add: mag_def powi_shift)
    then have "\<lfloor>mag x\<rfloor> = int (bval (significand x) * 2 ^ nat (exponent x))"
      by (metis floor_of_nat)
    then show ?thesis
      using True by (simp add: int_magnitude_def shifted_left_val)
  next
    case False
    then have "mag x = real (bval (significand x)) / real (2 ^ nat (- exponent x))"
      by (simp add: mag_def power_int_def power_divide)
    then have "\<lfloor>mag x\<rfloor> = int (bval (significand x) div 2 ^ nat (- exponent x))"
      by (simp only: floor_divide_of_nat_eq)
    then show ?thesis
      using False by (simp add: int_magnitude_def shifted_right_val)
  qed
  show "snd (int_magnitude x) \<longleftrightarrow> mag x \<noteq> real_of_int \<lfloor>mag x\<rfloor>"
  proof (cases "0 \<le> exponent x")
    case True
    then have "mag x = real (bval (significand x) * 2 ^ nat (exponent x))"
      by (simp add: mag_def powi_shift)
    then have "mag x = real_of_int \<lfloor>mag x\<rfloor>"
      by (metis floor_of_nat of_int_of_nat_eq)
    then show ?thesis
      using True by (simp add: int_magnitude_def)
  next
    case False
    let ?k = "nat (- exponent x)"
    have m: "mag x = real (bval (significand x)) / real (2 ^ ?k)"
      using False by (simp add: mag_def power_int_def power_divide)
    have "real (bval (significand x) mod 2 ^ ?k) = real (bval (significand x)) - real (2 ^ ?k) * real_of_int \<lfloor>mag x\<rfloor>"
      unfolding m by (rule real_mod_nat) simp
    also have "\<dots> = (mag x - real_of_int \<lfloor>mag x\<rfloor>) * real (2 ^ ?k)"
      unfolding left_diff_distrib by (subst (2) m) simp
    finally have "real (bval (significand x) mod 2 ^ ?k) = 0 \<longleftrightarrow> mag x - real_of_int \<lfloor>mag x\<rfloor> = 0"
      by simp
    then have "bval (significand x) mod 2 ^ ?k = 0 \<longleftrightarrow> mag x = real_of_int \<lfloor>mag x\<rfloor>"
      unfolding of_nat_eq_0_iff by linarith
    then show ?thesis
      using False by (simp add: int_magnitude_def shifted_right_discarded)
  qed
qed

lemma finite_significand_norm: "finite_class (classification (decode v)) \<Longrightarrow> bnorm (significand (decode v))"
proof (cases "is_finite_nonzero (classification (decode v))")
  case True
  then show ?thesis
    by (rule finite_operand)
next
  case False
  then show ?thesis
    using significand_not_finite [of v] by simp
qed

text \<open>The range test of the code is membership of the truncation in the target's range.\<close>

definition int_too_large :: "bool \<Rightarrow> bool \<Rightarrow> nat \<Rightarrow> biguint \<Rightarrow> bool" where
  "int_too_large is_signed neg w magnitude =
     (let limit = (if is_signed then big_of_u128 (push_bit (w - 1) 1) else big_of_u128 (low_mask w))
      in if is_signed
         then \<not> neg \<and> 0 < big_compare magnitude (big_subtract limit (big_of_u128 1))
           \<or> neg \<and> 0 < big_compare magnitude limit
         else neg \<and> \<not> big_is_zero magnitude \<or> 0 < big_compare magnitude limit)"

lemma int_too_large_iff:
  assumes w: "1 \<le> w" "w \<le> 128" and m: "bnorm m"
  shows "int_too_large is_signed neg w m \<longleftrightarrow>
    (if neg then - int (bval m) else int (bval m)) \<notin> int_range w (\<not> is_signed)"
proof -
  have p: "unat (push_bit (w - 1) 1 :: u128) = 2 ^ (w - 1)" "unat (low_mask w) = 2 ^ w - 1"
    using w by (simp_all add: unat_exp2 unat_low_mask)
  have one: "(1 :: nat) \<le> 2 ^ (w - 1)" "(1 :: nat) \<le> 2 ^ w"
    by simp_all
  have lim: "bval (big_subtract (big_of_u128 (push_bit (w - 1) 1)) (big_of_u128 1)) = 2 ^ (w - 1) - 1"
    using big_subtract_val [of "big_of_u128 1" "big_of_u128 (push_bit (w - 1) 1)"] one(1)
    by (simp only: big_of_u128_val p unsigned_1)
  have c: "0 < big_compare m (big_subtract (big_of_u128 (push_bit (w - 1) 1)) (big_of_u128 1)) \<longleftrightarrow> 2 ^ (w - 1) - 1 < bval m"
    "0 < big_compare m (big_of_u128 (push_bit (w - 1) 1)) \<longleftrightarrow> 2 ^ (w - 1) < bval m"
    "0 < big_compare m (big_of_u128 (low_mask w)) \<longleftrightarrow> 2 ^ w - 1 < bval m"
    using m by (simp_all only: big_compare_cases bnorm_big_subtract bnorm_big_of_u128 lim big_of_u128_val p)
  have r: "int (bval m) < 2 ^ k \<longleftrightarrow> \<not> 2 ^ k - 1 < bval m" "- (2 ^ k) \<le> - int (bval m) \<longleftrightarrow> \<not> 2 ^ k < bval m" for k
  proof -
    have "int (bval m) < int (2 ^ k) \<longleftrightarrow> bval m < 2 ^ k" "int (2 ^ k) < int (bval m) \<longleftrightarrow> 2 ^ k < bval m" "0 < (2 :: nat) ^ k"
      by (simp_all only: of_nat_less_iff) simp
    then show "int (bval m) < 2 ^ k \<longleftrightarrow> \<not> 2 ^ k - 1 < bval m" "- (2 ^ k) \<le> - int (bval m) \<longleftrightarrow> \<not> 2 ^ k < bval m"
      unfolding of_nat_power of_nat_numeral by linarith+
  qed
  have z: "big_is_zero m \<longleftrightarrow> int (bval m) = 0" "0 \<le> int (bval m)" "0 < (2 :: int) ^ w" "0 < (2 :: int) ^ (w - 1)"
    by (simp_all add: big_is_zero_iff [OF m])
  show ?thesis
    unfolding int_too_large_def Let_def int_range_def
    by (cases is_signed; cases neg; simp only: if_True if_False simp_thms c z(1) atLeastLessThan_iff;
        use r [of w] r [of "w - 1"] z(2-4) in linarith)
qed

lemma to_integer_unfold:
  assumes w: "1 \<le> w" "w \<le> 128" and v: "finite_class (classification (decode v))"
    and m: "int_magnitude (decode v) = (m, discarded)"
  shows "to_integer v w is_signed =
    (let status = (if discarded then status_set 0 StInexact else 0)
     in if int_too_large is_signed (negative (decode v)) w m
        then \<lparr>fi_value = 0, fi_status = status_set status StInvalid, fi_error = IntegerOutOfRange\<rparr>
        else \<lparr>fi_value = (let raw0 = to_u128 m AND low_mask w
                          in if negative (decode v) \<and> raw0 \<noteq> 0 then (NOT raw0 + 1) AND low_mask w else raw0),
              fi_status = status, fi_error = NoError\<rparr>)"
proof -
  have "\<not> (w = 0 \<or> 128 < w)" "classification (decode v) \<noteq> ClsInvalid"
    "\<not> (classification (decode v) = ClsInfinity \<or> is_nan_class (classification (decode v)))"
    using w v by (auto simp: finite_class_def is_nan_class_def)
  then show ?thesis
    unfolding to_integer_def Let_def int_magnitude_def [symmetric] m prod.case int_too_large_def
    by simp
qed

lemma int_value_bits:
  assumes w: "1 \<le> w" "w \<le> 128" and m: "unat x = n" and raw: "raw0 = x AND low_mask w"
  shows "uint (if neg \<and> raw0 \<noteq> 0 then (NOT raw0 + 1) AND low_mask w else raw0)
    = take_bit w (if neg then - int n else int n)"
proof -
  have r: "uint raw0 = take_bit w (int n)"
    using uint_masked [OF w(2), of x] unfolding raw uint_nat m .
  have n: "uint ((NOT raw0 + 1) AND low_mask w) = take_bit w (- int n)"
    by (simp add: uint_negated [OF w(2)] r take_bit_minus)
  have "raw0 = 0 \<Longrightarrow> take_bit w (- int n) = 0"
    using r n take_bit_minus [of w "int n"] by (metis take_bit_of_0 unsigned_0 minus_zero)
  then show ?thesis
    using r n by auto
qed

lemma to_integer_truncates:
  assumes w: "1 \<le> w" "w \<le> 128" and v: "finite_class (classification (decode v))"
    and t: "t = trunc_int v"
  shows "t \<in> int_range w (\<not> is_signed) \<Longrightarrow>
      fi_error (to_integer v w is_signed) = NoError \<and> uint (fi_value (to_integer v w is_signed)) = take_bit w t
      \<and> fi_status (to_integer v w is_signed) = (if real_of_int t = fval v then 0 else status_set 0 StInexact)"
    and "t \<notin> int_range w (\<not> is_signed) \<Longrightarrow>
      fi_error (to_integer v w is_signed) = IntegerOutOfRange \<and> fi_value (to_integer v w is_signed) = 0
      \<and> status_has (fi_status (to_integer v w is_signed)) StInvalid"
proof -
  obtain m discarded where m: "int_magnitude (decode v) = (m, discarded)"
    by fastforce
  have mv: "int (bval m) = \<lfloor>mag (decode v)\<rfloor>" "bnorm m" "discarded \<longleftrightarrow> mag (decode v) \<noteq> real_of_int \<lfloor>mag (decode v)\<rfloor>"
    using int_magnitude_val [OF finite_significand_norm [OF v]] m by simp_all
  have tm: "t = (if negative (decode v) then - int (bval m) else int (bval m))"
    by (simp add: t trunc_int_def mv)
  have ft: "real_of_int t = fval v \<longleftrightarrow> \<not> discarded"
    by (auto simp: t trunc_int_def fval_def signed_def mv(3))
  note unfold = to_integer_unfold [OF w v m, of is_signed] int_too_large_iff [OF w mv(2), of is_signed "negative (decode v)"]
  have "bval m < 2 ^ 128" if "t \<in> int_range w (\<not> is_signed)"
  proof -
    have "(2 :: int) ^ w \<le> 2 ^ 128" "(2 :: int) ^ (w - 1) < 2 ^ 128"
      using w by (intro power_increasing power_strict_increasing; simp)+
    then have "int (bval m) < 2 ^ 128"
      using that unfolding tm int_range_def
      by (cases is_signed; cases "negative (decode v)";
          simp only: if_True if_False simp_thms atLeastLessThan_iff; linarith)
    then show ?thesis
      by simp
  qed
  then have u: "unat (to_u128 m) = bval m" if "t \<in> int_range w (\<not> is_signed)"
    using that by (simp add: to_u128_val)
  show "fi_error (to_integer v w is_signed) = NoError \<and> uint (fi_value (to_integer v w is_signed)) = take_bit w t
      \<and> fi_status (to_integer v w is_signed) = (if real_of_int t = fval v then 0 else status_set 0 StInexact)"
    if "t \<in> int_range w (\<not> is_signed)"
    using that int_value_bits [OF w u [OF that] refl, of "negative (decode v)"]
    by (simp add: unfold tm [symmetric] Let_def ft)
  show "fi_error (to_integer v w is_signed) = IntegerOutOfRange \<and> fi_value (to_integer v w is_signed) = 0
      \<and> status_has (fi_status (to_integer v w is_signed)) StInvalid" if "t \<notin> int_range w (\<not> is_signed)"
    using that by (simp add: unfold tm [symmetric] Let_def status_has_def status_set_def)
qed

lemma small_integer_representable:
  assumes d: "descriptor f = Some d" and n: "n < 2 ^ precision d"
  shows "representable d (real n)"
proof -
  have q: "qmin d \<le> 0" "int (precision d) \<le> max_normal_exponent d + 1"
    using d by (auto simp: descriptor_def qmin_def min_normal_exponent_def max_normal_exponent_def int_bits
        split: float_format.splits)
  have "real n < real (2 ^ precision d)"
    using n by (simp only: of_nat_less_iff)
  also have "\<dots> \<le> 2 powi (max_normal_exponent d + 1)"
    using power_int_increasing [OF q(2), of "2 :: real"] by simp
  finally show ?thesis
    using representableI [OF d n, of "nat (- qmin d)"] q(1) by simp
qed

lemma take_bit_wrap_int: "1 \<le> w \<Longrightarrow> take_bit w (wrap_int w u k) = take_bit w k"
  by (auto simp: wrap_int_def intro!: take_bit_signed_take_bit)

lemma integer_exact_back:
  assumes d: "descriptor f = Some d" and w: "1 \<le> w" "w \<le> 128"
    and n: "\<bar>wrap_int w (\<not> sg) (uint x)\<bar> < 2 ^ precision d"
  shows "to_integer (fr_value (from_integer x w sg f control)) w sg
    = \<lparr>fi_value = x AND low_mask w, fi_status = 0, fi_error = NoError\<rparr>"
proof -
  define k where "k = wrap_int w (\<not> sg) (uint x)"
  define v where "v = fr_value (from_integer x w sg f control)"
  have rep: "representable d (real_of_int \<bar>k\<bar>)"
    using small_integer_representable [OF d, of "nat \<bar>k\<bar>"] n by (simp add: k_def nat_less_iff)
  have "exact_result f (k < 0) (real_of_int \<bar>k\<bar>) (from_integer x w sg f control)"
  proof (cases "k = 0")
    case True
    then show ?thesis
      using from_integer_rounded(2) [OF d w k_def, of control] exact_zero [OF d, of False] by simp
  next
    case False
    then show ?thesis
      using rounded_exact_result [OF d _ rep from_integer_rounded(1) [OF d w k_def, of control]] by simp
  qed
  then have v: "finite_class (classification (decode v))" "negative (decode v) \<longleftrightarrow> k < 0" "mag (decode v) = real_of_int \<bar>k\<bar>"
    by (simp_all add: exact_result_def v_def)
  then have t: "trunc_int v = k" "real_of_int k = fval v"
    by (auto simp: trunc_int_def fval_def signed_def)
  have "k \<in> int_range w (\<not> sg)"
    by (simp add: k_def wrap_int_range)
  note conv = to_integer_truncates(1) [OF w v(1) t(1) [symmetric] this]
  have "uint (fi_value (to_integer v w sg)) = uint (x AND low_mask w)"
    using conv w by (simp add: k_def take_bit_wrap_int uint_masked)
  then have "fi_value (to_integer v w sg) = x AND low_mask w"
    by (simp only: word_uint_eq_iff)
  then show ?thesis
    using conv t(2) unfolding v_def [symmetric] by (simp add: float_integer_result.equality)
qed

section \<open>Properties\<close>

text \<open>
  an integer of 1 to 128 bits, signed or not, is converted to the floating-point number
  nearest to it in the rounding mode (zero to positive zero); other widths and formats are
  errors.
\<close>

theorem from_integer_correct:
  assumes "n = wrap_int w (\<not> sg) (uint x)"
  shows "if f = FmtInvalid then from_integer x w sg f control = error_result InvalidFormat
    else if w = 0 \<or> 128 < w then from_integer x w sg f control = error_result InvalidIntegerWidth
    else if n = 0 then from_integer x w sg f control = value_result (zero f False)
    else rounded f control (n < 0) (real_of_int \<bar>n\<bar>) (from_integer x w sg f control)"
proof (cases "descriptor f")
  case None
  then show ?thesis
    by (simp add: from_integer_def)
next
  case (Some d)
  then have "f \<noteq> FmtInvalid"
    by auto
  then show ?thesis
    using from_integer_rounded [OF Some _ _ assms, of control] Some by (auto simp: from_integer_def)
qed

theorem from_integer_correct_witness:
  "rounded IEEEBinary16 default_control True 5 (from_integer 0xfb 8 True IEEEBinary16 default_control)"
proof -
  have "- 5 = wrap_int 8 False (uint (0xfb :: u128))"
    by code_simp
  then show ?thesis
    using from_integer_correct [of "- 5" 8 True "0xfb" IEEEBinary16 default_control] by simp
qed

text \<open>
  C36: converting a finite value to an integer truncates toward zero: when the truncation is
  in the range of the target it is returned at that width, with Inexact exactly when a
  fraction was dropped; when it is not, the error is out of range and Invalid is raised.
\<close>

theorem to_integer_correct:
  assumes "1 \<le> w" "w \<le> 128" and "finite_class (classification (decode v))" and "r = to_integer v w sg"
  shows "if trunc_int v \<in> int_range w (\<not> sg)
    then fi_error r = NoError \<and> uint (fi_value r) = take_bit w (trunc_int v)
      \<and> fi_status r = (if real_of_int (trunc_int v) = fval v then 0 else status_set 0 StInexact)
    else fi_error r = IntegerOutOfRange \<and> fi_value r = 0 \<and> status_has (fi_status r) StInvalid"
  using to_integer_truncates [OF assms(1-3) refl, of sg] assms(4) by auto

theorem to_integer_correct_witness:
  "uint (fi_value (to_integer (f32 0xc0400000) 8 True)) = 253 \<and> fi_status (to_integer (f32 0xc0400000) 8 True) = 0"
proof -
  have "trunc_int (f32 0xc0400000) = - 3"
    by (simp add: trunc_int_def mag_def decode_minus_three power_int_def power_divide)
  moreover have "take_bit 8 (- 3 :: int) = 253"
    by code_simp
  ultimately show ?thesis
    using to_integer_correct [of 8 "f32 0xc0400000" "to_integer (f32 0xc0400000) 8 True" True]
    by (simp add: finite_class_def decode_minus_three int_range_def)
qed

text \<open>
  an integer whose magnitude fits the precision of the format survives the conversion to
  the format and back, bit for bit and without a flag.
\<close>

theorem integer_round_trip:
  assumes "descriptor f = Some d" and "1 \<le> w" "w \<le> 128" and "\<bar>wrap_int w (\<not> sg) (uint x)\<bar> < 2 ^ precision d"
  shows "to_integer (fr_value (from_integer x w sg f control)) w sg
    = \<lparr>fi_value = x AND low_mask w, fi_status = 0, fi_error = NoError\<rparr>"
  using integer_exact_back [OF assms] .

theorem integer_round_trip_witness:
  "fi_value (to_integer (fr_value (from_integer 0xfffffe 32 True IEEEBinary32 default_control)) 32 True) = 0xfffffe"
proof -
  obtain d where d: "descriptor IEEEBinary32 = Some d" "precision d = 24"
    by (simp add: descriptor_def)
  have "wrap_int 32 False (uint (0xfffffe :: u128)) = 0xfffffe" "0xfffffe AND low_mask 32 = 0xfffffe"
    by code_simp+
  then show ?thesis
    using integer_round_trip [OF d(1), of 32 True "0xfffffe" default_control] d(2) by simp
qed

end
