(* ===== verification/Float_Complex.thy ===== *)
theory Float_Complex
  imports Float_Arith
begin

text \<open>
  Complex multiplication and division (\<open>complex_multiply\<close> and \<open>complex_divide\<close> of
  \<open>numeric/floating_point.cpp\<close>), with the recovery of infinities the C standard's Annex G
  asks for. The status and error the lambdas of the source update by reference are threaded
  as a pair. Where the source nests two calls as arguments of a third, they run left to right.
\<close>

record complex_float_value =
  cf_real :: float_value
  cf_imag :: float_value

record complex_float_result =
  cr_value :: complex_float_value
  cr_status :: float_status
  cr_error :: float_error

definition complex_valid :: "complex_float_value \<Rightarrow> bool" where
  "complex_valid z \<longleftrightarrow> value_valid (cf_real z) \<and> value_valid (cf_imag z)
     \<and> semantics (cf_real z) = semantics (cf_imag z)"

definition complex_has_value :: "complex_float_result \<Rightarrow> bool" where
  "complex_has_value r \<longleftrightarrow> cr_error r = NoError \<and> complex_valid (cr_value r)"

definition invalid_complex :: complex_float_value where
  "invalid_complex = \<lparr>cf_real = invalid_value, cf_imag = invalid_value\<rparr>"

type_synonym calc_state = "float_status \<times> float_error"

text \<open>The lambdas \<open>calculate\<close> and \<open>scale\<close>: an operation whose flags and first error are kept.\<close>

definition record_result :: "float_result \<Rightarrow> calc_state \<Rightarrow> float_value \<times> calc_state" where
  "record_result r s =
     (fr_value r, status_merge (fst s) (fr_status r),
      if \<not> has_value r \<and> snd s = NoError then fr_error r else snd s)"

definition calculate ::
  "float_control \<Rightarrow> binary_operation \<Rightarrow> float_value \<Rightarrow> float_value \<Rightarrow> calc_state \<Rightarrow> float_value \<times> calc_state" where
  "calculate control operation left right s = record_result (binary operation left right control) s"

definition scale_value :: "float_control \<Rightarrow> float_value \<Rightarrow> int \<Rightarrow> calc_state \<Rightarrow> float_value \<times> calc_state" where
  "scale_value control v expo s = record_result (scale_by_power_of_two v expo control) s"

section \<open>Multiplication\<close>

definition evaluate ::
  "float_control \<Rightarrow> complex_float_value \<Rightarrow> complex_float_value \<Rightarrow> calc_state \<Rightarrow> complex_float_value \<times> calc_state" where
  "evaluate control left right s0 =
     (let (ac, s1) = calculate control OpMultiply (cf_real left) (cf_real right) s0;
          (bd, s2) = calculate control OpMultiply (cf_imag left) (cf_imag right) s1;
          (ad, s3) = calculate control OpMultiply (cf_real left) (cf_imag right) s2;
          (bc, s4) = calculate control OpMultiply (cf_imag left) (cf_real right) s3;
          (re, s5) = calculate control OpSubtract ac bd s4;
          (im, s6) = calculate control OpAdd ad bc s5
      in (\<lparr>cf_real = re, cf_imag = im\<rparr>, s6))"

definition signed_unit_or_zero :: "float_format \<Rightarrow> float_value \<Rightarrow> float_value" where
  "signed_unit_or_zero format v =
     (let magnitude = (if is_infinity v then fr_value (from_integer 1 1 False format default_control)
                       else zero format False)
      in if is_negative v then negate magnitude else magnitude)"

definition nan_to_zero :: "float_format \<Rightarrow> float_value \<Rightarrow> float_value" where
  "nan_to_zero format v = (if is_nan v then zero format (is_negative v) else v)"

definition box :: "float_format \<Rightarrow> complex_float_value \<Rightarrow> complex_float_value" where
  "box format z = \<lparr>cf_real = signed_unit_or_zero format (cf_real z), cf_imag = signed_unit_or_zero format (cf_imag z)\<rparr>"

definition drop_nans :: "float_format \<Rightarrow> complex_float_value \<Rightarrow> complex_float_value" where
  "drop_nans format z = \<lparr>cf_real = nan_to_zero format (cf_real z), cf_imag = nan_to_zero format (cf_imag z)\<rparr>"

definition has_infinity :: "complex_float_value \<Rightarrow> bool" where
  "has_infinity z \<longleftrightarrow> is_infinity (cf_real z) \<or> is_infinity (cf_imag z)"

text \<open>The operands the recovery recomputes with, or \<open>None\<close> when there is nothing to recover.\<close>

definition recovery_operands ::
  "float_control \<Rightarrow> float_format \<Rightarrow> complex_float_value \<Rightarrow> complex_float_value
     \<Rightarrow> (complex_float_value \<times> complex_float_value) option" where
  "recovery_operands control format lhs0 rhs0 =
     (let (lhs1, rhs1, recalculate1) =
            (if has_infinity lhs0 then (box format lhs0, drop_nans format rhs0, True)
             else (lhs0, rhs0, False));
          (lhs2, rhs2, recalculate2) =
            (if has_infinity rhs1 then (drop_nans format lhs1, box format rhs1, True)
             else (lhs1, rhs1, recalculate1))
      in if recalculate2 then Some (lhs2, rhs2)
         else
           let ignored = (0, NoError);
               ac = fst (calculate control OpMultiply (cf_real lhs2) (cf_real rhs2) ignored);
               bd = fst (calculate control OpMultiply (cf_imag lhs2) (cf_imag rhs2) ignored);
               ad = fst (calculate control OpMultiply (cf_real lhs2) (cf_imag rhs2) ignored);
               bc = fst (calculate control OpMultiply (cf_imag lhs2) (cf_real rhs2) ignored)
           in if is_infinity ac \<or> is_infinity bd \<or> is_infinity ad \<or> is_infinity bc
              then Some (drop_nans format lhs2, drop_nans format rhs2)
              else None)"

definition complex_multiply ::
  "complex_float_value \<Rightarrow> complex_float_value \<Rightarrow> float_control \<Rightarrow> complex_float_result" where
  "complex_multiply lhs rhs control =
     (if \<not> complex_valid lhs \<or> \<not> complex_valid rhs \<or> semantics (cf_real lhs) \<noteq> semantics (cf_real rhs) then
        \<lparr>cr_value = invalid_complex, cr_status = 0,
         cr_error = (if complex_valid lhs \<and> complex_valid rhs then FormatMismatch else InvalidEncoding)\<rparr>
      else
        let format = semantics (cf_real lhs);
            (v, initial_status, initial_error) = evaluate control lhs rhs (0, NoError);
            result = \<lparr>cr_value = v, cr_status = initial_status, cr_error = initial_error\<rparr>
        in if initial_error \<noteq> NoError \<or> \<not> is_nan (cf_real v) \<or> \<not> is_nan (cf_imag v) then result
           else case recovery_operands control format lhs rhs of
               None \<Rightarrow> result
             | Some (lhs', rhs') \<Rightarrow>
                 let (finite, s1) = evaluate control lhs' rhs' (0, NoError);
                     positive_infinity = infinity format False;
                     (re, s2) = calculate control OpMultiply positive_infinity (cf_real finite) s1;
                     (im, s3) = calculate control OpMultiply positive_infinity (cf_imag finite) s2
                 in \<lparr>cr_value = \<lparr>cf_real = re, cf_imag = im\<rparr>, cr_status = fst s3, cr_error = snd s3\<rparr>)"

section \<open>Division\<close>

text \<open>For a zero the source returns the least 64-bit integer.\<close>

definition magnitude_exponent :: "decoded_float \<Rightarrow> int" where
  "magnitude_exponent x =
     (if classification x = ClsZero then - 9223372036854775808
      else exponent x + int (big_bit_width (significand x)) - 1)"

definition finite_pair_class :: "decoded_float \<Rightarrow> decoded_float \<Rightarrow> bool" where
  "finite_pair_class x y \<longleftrightarrow>
     classification x \<noteq> ClsInvalid \<and> classification y \<noteq> ClsInvalid
     \<and> \<not> is_nan_class (classification x) \<and> \<not> is_nan_class (classification y)
     \<and> classification x \<noteq> ClsInfinity \<and> classification y \<noteq> ClsInfinity"

definition normalize_operand ::
  "float_control \<Rightarrow> complex_float_value \<Rightarrow> calc_state \<Rightarrow> complex_float_value \<times> bool \<times> int \<times> calc_state" where
  "normalize_operand control z s0 =
     (let c = decode (cf_real z); d = decode (cf_imag z); finite = finite_pair_class c d
      in if finite \<and> (classification c \<noteq> ClsZero \<or> classification d \<noteq> ClsZero) then
           let k = max (magnitude_exponent c) (magnitude_exponent d);
               (re, s1) = scale_value control (cf_real z) (- k) s0;
               (im, s2) = scale_value control (cf_imag z) (- k) s1
           in (\<lparr>cf_real = re, cf_imag = im\<rparr>, finite, k, s2)
         else (z, finite, 0, s0))"

text \<open>\<open>a c + b d\<close> and \<open>b c - a d\<close>, each component multiplied by \<open>factor\<close>.\<close>

definition scaled_numerator ::
  "float_control \<Rightarrow> float_value \<Rightarrow> complex_float_value \<Rightarrow> complex_float_value \<Rightarrow> calc_state \<Rightarrow> complex_float_value \<times> calc_state" where
  "scaled_numerator control factor lhs rhs s0 =
     (let (ac, s1) = calculate control OpMultiply (cf_real lhs) (cf_real rhs) s0;
          (bd, s2) = calculate control OpMultiply (cf_imag lhs) (cf_imag rhs) s1;
          (sum, s3) = calculate control OpAdd ac bd s2;
          (re, s4) = calculate control OpMultiply factor sum s3;
          (bc, s5) = calculate control OpMultiply (cf_imag lhs) (cf_real rhs) s4;
          (ad, s6) = calculate control OpMultiply (cf_real lhs) (cf_imag rhs) s5;
          (diff, s7) = calculate control OpSubtract bc ad s6;
          (im, s8) = calculate control OpMultiply factor diff s7
      in (\<lparr>cf_real = re, cf_imag = im\<rparr>, s8))"

definition divide_step ::
  "float_control \<Rightarrow> complex_float_value \<Rightarrow> complex_float_value \<Rightarrow> calc_state \<Rightarrow> complex_float_value \<times> calc_state" where
  "divide_step control lhs rhs s0 =
     (let (cc, s1) = calculate control OpMultiply (cf_real rhs) (cf_real rhs) s0;
          (dd, s2) = calculate control OpMultiply (cf_imag rhs) (cf_imag rhs) s1;
          (denominator, s3) = calculate control OpAdd cc dd s2;
          (ac, s4) = calculate control OpMultiply (cf_real lhs) (cf_real rhs) s3;
          (bd, s5) = calculate control OpMultiply (cf_imag lhs) (cf_imag rhs) s4;
          (bc, s6) = calculate control OpMultiply (cf_imag lhs) (cf_real rhs) s5;
          (ad, s7) = calculate control OpMultiply (cf_real lhs) (cf_imag rhs) s6;
          (sum, s8) = calculate control OpAdd ac bd s7;
          (re, s9) = calculate control OpDivide sum denominator s8;
          (diff, s10) = calculate control OpSubtract bc ad s9;
          (im, s11) = calculate control OpDivide diff denominator s10
      in (\<lparr>cf_real = re, cf_imag = im\<rparr>, s11))"

definition complex_result :: "complex_float_value \<Rightarrow> calc_state \<Rightarrow> complex_float_result" where
  "complex_result v s = \<lparr>cr_value = v, cr_status = fst s, cr_error = snd s\<rparr>"

text \<open>The tail of \<open>complex_divide\<close>, reached when both components are NaNs.\<close>

definition divide_recovery ::
  "float_control \<Rightarrow> float_format \<Rightarrow> bool \<Rightarrow> complex_float_value \<Rightarrow> complex_float_value \<Rightarrow> complex_float_value
     \<Rightarrow> calc_state \<Rightarrow> complex_float_result" where
  "divide_recovery control format finite_denominator lhs rhs v s =
     (let denominator_zero = (is_zero (cf_real rhs) \<and> is_zero (cf_imag rhs));
          numerator_has_number = (\<not> is_nan (cf_real lhs) \<or> \<not> is_nan (cf_imag lhs));
          numerator_finite = (\<not> is_infinity (cf_real lhs) \<and> \<not> is_infinity (cf_imag lhs)
                              \<and> \<not> is_nan (cf_real lhs) \<and> \<not> is_nan (cf_imag lhs))
      in if denominator_zero \<and> numerator_has_number then
           let signed_infinity = infinity format (is_negative (cf_real rhs));
               (re, s1) = calculate control OpMultiply signed_infinity (cf_real lhs) s;
               (im, s2) = calculate control OpMultiply signed_infinity (cf_imag lhs) s1
           in complex_result \<lparr>cf_real = re, cf_imag = im\<rparr> s2
         else if has_infinity lhs \<and> finite_denominator then
           let (w, s1) = scaled_numerator control (infinity format False) (box format lhs) rhs s
           in complex_result w s1
         else if has_infinity rhs \<and> numerator_finite then
           let (w, s1) = scaled_numerator control (zero format False) lhs (box format rhs) s
           in complex_result w s1
         else complex_result v s)"

definition complex_divide ::
  "complex_float_value \<Rightarrow> complex_float_value \<Rightarrow> float_control \<Rightarrow> complex_float_result" where
  "complex_divide lhs rhs control =
     (if \<not> complex_valid lhs \<or> \<not> complex_valid rhs \<or> semantics (cf_real lhs) \<noteq> semantics (cf_real rhs) then
        \<lparr>cr_value = invalid_complex, cr_status = 0,
         cr_error = (if complex_valid lhs \<and> complex_valid rhs then FormatMismatch else InvalidEncoding)\<rparr>
      else
        let format = semantics (cf_real lhs);
            (rhs', finite_denominator, scale_exponent, s1) = normalize_operand control rhs (0, NoError);
            (lhs', _, numerator_scale_exponent, s2) = normalize_operand control lhs s1;
            (v, s3) = divide_step control lhs' rhs' s2;
            result_scale = numerator_scale_exponent - scale_exponent;
            (v', s4) =
              (if finite_denominator \<and> result_scale \<noteq> 0 then
                 let (re, t1) = scale_value control (cf_real v) result_scale s3;
                     (im, t2) = scale_value control (cf_imag v) result_scale t1
                 in (\<lparr>cf_real = re, cf_imag = im\<rparr>, t2)
               else (v, s3))
        in if snd s4 \<noteq> NoError \<or> \<not> is_nan (cf_real v') \<or> \<not> is_nan (cf_imag v') then complex_result v' s4
           else divide_recovery control format finite_denominator lhs' rhs' v' s4)"

end
