(* ===== verification/Float_Complex_Correct.thy ===== *)
theory Float_Complex_Correct
  imports Float_Complex Float_Convert_Correct
begin

text \<open>
  Complex arithmetic never fails on valid operands: every intermediate value is a valid
  value of the common format, so no error is ever recorded.
\<close>

definition in_format :: "float_format \<Rightarrow> float_value \<Rightarrow> bool" where
  "in_format f v \<longleftrightarrow> semantics v = f \<and> classification (decode v) \<noteq> ClsInvalid"

definition complex_in :: "float_format \<Rightarrow> complex_float_value \<Rightarrow> bool" where
  "complex_in f z \<longleftrightarrow> in_format f (cf_real z) \<and> in_format f (cf_imag z)"

named_theorems complex_ok

lemma in_format_descriptor: "in_format f v \<Longrightarrow> \<exists>d. descriptor f = Some d"
  using decode_valid [of v] by (metis in_format_def)

lemma valid_in_format: "valid_in f r \<Longrightarrow> in_format f (fr_value r) \<and> fr_error r = NoError"
  by (simp add: valid_in_def in_format_def)

lemma in_format_valid: "in_format f v \<Longrightarrow> value_valid v"
  using decode_valid [of v] by (metis in_format_def value_valid_def descriptor_Invalid option.distinct(1))

lemma record_ok:
  assumes "valid_in f r" and "snd s = NoError" and "record_result r s = (v, s')"
  shows "in_format f v \<and> snd s' = NoError"
  using assms valid_in_format [OF assms(1)] in_format_valid [of f "fr_value r"]
  by (auto simp: record_result_def has_value_def)

lemma binary_in_format:
  assumes "in_format f l" "in_format f r"
  shows "valid_in f (binary op l r control)"
  using assms add_values_valid [of l r] multiply_values_valid [of l r] divide_values_valid [of l r] remainder_values_valid [of l r]
  by (cases op) (auto simp: binary_def in_format_def)

lemma calculate_ok [complex_ok]:
  "calculate control op l r s = (v, s') \<Longrightarrow> in_format f l \<Longrightarrow> in_format f r \<Longrightarrow> snd s = NoError \<Longrightarrow>
    in_format f v \<and> snd s' = NoError"
  unfolding calculate_def using record_ok binary_in_format by blast

lemma convert_same_valid:
  assumes "in_format f v"
  shows "valid_in f (convert v f control)"
proof -
  obtain d where d: "descriptor f = Some d"
    using in_format_descriptor [OF assms] by blast
  show ?thesis
    using assms class_cases [of "classification (decode v)"] rounded_valid [OF d convert_rounded [OF _ d], of v control]
      valid_special [OF d]
    by (auto simp: in_format_def convert_def Let_def d)
qed

lemma scale_valid:
  assumes "in_format f v"
  shows "valid_in f (scale_by_power_of_two v k control)"
proof -
  obtain d where d: "descriptor f = Some d"
    using in_format_descriptor [OF assms] by blast
  show ?thesis
  proof (cases "is_finite_nonzero (classification (decode v))")
    case True
    then show ?thesis
      using rounded_valid [OF d] scale_exact_rounded [OF True, of control k] assms by (simp add: in_format_def)
  next
    case False
    then show ?thesis
      using convert_same_valid [OF assms, of control] class_cases [of "classification (decode v)"] assms
      by (auto simp: scale_by_power_of_two_def Let_def in_format_def)
  qed
qed

lemma scale_ok [complex_ok]:
  "scale_value control v k s = (w, s') \<Longrightarrow> in_format f v \<Longrightarrow> snd s = NoError \<Longrightarrow> in_format f w \<and> snd s' = NoError"
  unfolding scale_value_def using record_ok scale_valid by blast

section \<open>Replacement operands\<close>

lemma special_in_format:
  assumes "descriptor f = Some d"
  shows "in_format f (zero f s)" "in_format f (infinity f s)"
  using valid_special(1,2) [OF assms, of s] by (simp_all add: valid_in_def in_format_def value_result_def)

lemma negate_in_format: "in_format f v \<Longrightarrow> in_format f (negate v)"
  using valid_negate [of v] by (simp add: valid_in_def in_format_def value_result_def)

lemma one_in_format:
  assumes d: "descriptor f = Some d"
  shows "in_format f (fr_value (from_integer 1 1 False f control))"
proof -
  have "from_integer 1 1 False f control = round_rational False (big_of_u128 1) (big_of_u128 1) 0 f control"
    by (simp add: from_integer_def d Let_def low_mask_def)
  then show ?thesis
    using rounded_valid [OF d round_integer_rounded [OF d big_one(2), of control False 0]] valid_in_format by simp
qed

lemma box_in:
  assumes "descriptor f = Some d"
  shows "complex_in f (box f z)"
  using special_in_format(1) [OF assms] one_in_format [OF assms] negate_in_format
  by (simp add: complex_in_def box_def signed_unit_or_zero_def Let_def)

lemma drop_nans_in:
  assumes "descriptor f = Some d" and "complex_in f z"
  shows "complex_in f (drop_nans f z)"
  using special_in_format(1) [OF assms(1)] assms(2) by (simp add: complex_in_def drop_nans_def nan_to_zero_def)

section \<open>The composed steps\<close>

lemma evaluate_ok [complex_ok]:
  assumes "evaluate control l r s = (v, s')" and "complex_in f l" "complex_in f r" "snd s = NoError"
  shows "complex_in f v \<and> snd s' = NoError"
  using assms by (auto simp: evaluate_def complex_in_def split: prod.splits dest!: calculate_ok [where f = f])

lemma scaled_numerator_ok [complex_ok]:
  assumes "scaled_numerator control k l r s = (v, s')" and "in_format f k" "complex_in f l" "complex_in f r" "snd s = NoError"
  shows "complex_in f v \<and> snd s' = NoError"
  using assms by (auto simp: scaled_numerator_def complex_in_def split: prod.splits dest!: calculate_ok [where f = f])

lemma divide_step_ok [complex_ok]:
  assumes "divide_step control l r s = (v, s')" and "complex_in f l" "complex_in f r" "snd s = NoError"
  shows "complex_in f v \<and> snd s' = NoError"
  using assms by (auto simp: divide_step_def complex_in_def split: prod.splits dest!: calculate_ok [where f = f])

lemma normalize_operand_ok [complex_ok]:
  assumes "normalize_operand control z s = (v, fin, k, s')" and "complex_in f z" "snd s = NoError"
  shows "complex_in f v \<and> snd s' = NoError"
  using assms by (auto simp: normalize_operand_def Let_def complex_in_def split: prod.splits if_splits dest!: scale_ok [where f = f])

lemma recovery_operands_ok:
  assumes "recovery_operands control f l r = Some (l', r')" and "complex_in f l" "complex_in f r" "descriptor f = Some d"
  shows "complex_in f l' \<and> complex_in f r'"
  using assms box_in [OF assms(4)] drop_nans_in [OF assms(4)]
  by (auto simp: recovery_operands_def Let_def split: if_splits prod.splits)

lemma divide_recovery_ok:
  assumes "complex_in f l" "complex_in f r" "complex_in f v" "snd s = NoError" and d: "descriptor f = Some d"
  shows "complex_in f (cr_value (divide_recovery control f fin l r v s)) \<and> cr_error (divide_recovery control f fin l r v s) = NoError"
proof -
  note inf = special_in_format [OF d]
  have calc: "in_format f (fst (calculate control OpMultiply x y s0)) \<and> snd (snd (calculate control OpMultiply x y s0)) = NoError"
    if "in_format f x" "in_format f y" "snd s0 = NoError" for x y s0
    using calculate_ok [of control OpMultiply x y s0, OF prod.collapse [symmetric] that] .
  have num: "complex_in f (fst (scaled_numerator control k a b s)) \<and> snd (snd (scaled_numerator control k a b s)) = NoError"
    if "in_format f k" "complex_in f a" "complex_in f b" for k a b
    using scaled_numerator_ok [of control k a b s, OF prod.collapse [symmetric] that assms(4)] .
  show ?thesis
    using assms(1-4) calc inf num box_in [OF d]
    by (simp add: divide_recovery_def complex_result_def Let_def complex_in_def split_beta)
qed

lemma complex_in_valid: "complex_in f z \<Longrightarrow> complex_valid z"
  using in_format_valid by (auto simp: complex_in_def complex_valid_def in_format_def)

lemma complex_multiply_ok:
  assumes l: "complex_in f l" and r: "complex_in f r"
  shows "complex_in f (cr_value (complex_multiply l r control)) \<and> cr_error (complex_multiply l r control) = NoError"
proof -
  obtain d where d: "descriptor f = Some d"
    using l in_format_descriptor by (auto simp: complex_in_def)
  obtain v s where ev: "evaluate control l r (0, NoError) = (v, s)"
    by (metis surj_pair)
  note v = evaluate_ok [OF ev l r]
  have guard: "complex_valid l" "complex_valid r" "semantics (cf_real l) = f" "semantics (cf_real r) = f"
    using l r complex_in_valid by (simp_all add: complex_in_def in_format_def)
  show ?thesis
  proof (cases "recovery_operands control f l r")
    case None
    then show ?thesis
      using v by (simp add: complex_multiply_def guard ev Let_def split_beta)
  next
    case (Some p)
    obtain l' r' where p: "p = (l', r')"
      by (metis surj_pair)
    note lr = recovery_operands_ok [OF Some [unfolded p] l r d]
    obtain w s1 where ev': "evaluate control l' r' (0, NoError) = (w, s1)"
      by (metis surj_pair)
    have w: "in_format f (cf_real w)" "in_format f (cf_imag w)" "snd s1 = NoError"
      using evaluate_ok [OF ev', of f] lr by (simp_all add: complex_in_def)
    obtain re s2 where re: "calculate control OpMultiply (infinity f False) (cf_real w) s1 = (re, s2)"
      by (metis surj_pair)
    obtain im s3 where im: "calculate control OpMultiply (infinity f False) (cf_imag w) s2 = (im, s3)"
      by (metis surj_pair)
    have "in_format f re \<and> snd s2 = NoError"
      by (rule calculate_ok [OF re special_in_format(2) [OF d] w(1,3)])
    moreover from this have "in_format f im \<and> snd s3 = NoError"
      using calculate_ok [OF im special_in_format(2) [OF d] w(2)] by blast
    ultimately show ?thesis
      using v Some by (simp add: complex_multiply_def guard ev Let_def split_beta p ev' re im complex_in_def)
  qed
qed

lemma complex_divide_ok:
  assumes l: "complex_in f l" and r: "complex_in f r"
  shows "complex_in f (cr_value (complex_divide l r control)) \<and> cr_error (complex_divide l r control) = NoError"
proof -
  obtain d where d: "descriptor f = Some d"
    using l in_format_descriptor by (auto simp: complex_in_def)
  have guard: "complex_valid l" "complex_valid r" "semantics (cf_real l) = f" "semantics (cf_real r) = f"
    using l r complex_in_valid by (simp_all add: complex_in_def in_format_def)
  obtain r' fin k s1 where nr: "normalize_operand control r (0, NoError) = (r', fin, k, s1)"
    by (metis prod_cases4)
  obtain l' fin' k' s2 where nl: "normalize_operand control l s1 = (l', fin', k', s2)"
    by (metis prod_cases4)
  obtain v s3 where dv: "divide_step control l' r' s2 = (v, s3)"
    by (metis surj_pair)
  have r': "complex_in f r' \<and> snd s1 = NoError"
    using normalize_operand_ok [OF nr r] by simp
  then have l': "complex_in f l' \<and> snd s2 = NoError"
    using normalize_operand_ok [OF nl l] by blast
  then have v: "complex_in f v \<and> snd s3 = NoError"
    using divide_step_ok [OF dv] r' by blast
  obtain re t1 where re: "scale_value control (cf_real v) (k' - k) s3 = (re, t1)"
    by (metis surj_pair)
  obtain im t2 where im: "scale_value control (cf_imag v) (k' - k) t1 = (im, t2)"
    by (metis surj_pair)
  have "in_format f re \<and> snd t1 = NoError"
    using scale_ok [OF re, of f] v by (simp add: complex_in_def)
  moreover from this have "in_format f im \<and> snd t2 = NoError"
    using scale_ok [OF im, of f] v by (simp add: complex_in_def)
  ultimately have scaled: "complex_in f \<lparr>cf_real = re, cf_imag = im\<rparr>" "snd t2 = NoError"
    by (simp_all add: complex_in_def)
  note rec1 = divide_recovery_ok [OF conjunct1 [OF l'] conjunct1 [OF r'] scaled d]
    and rec2 = divide_recovery_ok [OF conjunct1 [OF l'] conjunct1 [OF r'] conjunct1 [OF v] conjunct2 [OF v] d]
  show ?thesis
  proof (cases "fin \<and> k' - k \<noteq> 0")
    case True
    then show ?thesis
      using scaled rec1 by (simp add: complex_divide_def guard nr nl dv Let_def re im complex_result_def)
  next
    case False
    then show ?thesis
      using v rec2 by (auto simp: complex_divide_def guard nr nl dv Let_def complex_result_def)
  qed
qed

section \<open>Properties\<close>

text \<open>
  C39: complex multiplication and division of valid operands of one format return a valid
  complex value of that format and no error, for every combination of finite, infinite and
  NaN components; operands that are not valid or not of one format are errors.
\<close>

theorem complex_closed:
  assumes "op = complex_multiply \<or> op = complex_divide"
  shows "(complex_in f l \<and> complex_in f r \<longrightarrow> complex_in f (cr_value (op l r control)) \<and> cr_error (op l r control) = NoError)
    \<and> (\<not> complex_valid l \<or> \<not> complex_valid r \<longrightarrow> cr_error (op l r control) = InvalidEncoding)
    \<and> (complex_valid l \<and> complex_valid r \<and> semantics (cf_real l) \<noteq> semantics (cf_real r) \<longrightarrow>
         cr_error (op l r control) = FormatMismatch)"
  using assms complex_multiply_ok [of f l r control] complex_divide_ok [of f l r control]
  by (auto simp: complex_multiply_def complex_divide_def)

theorem complex_closed_witness:
  "cr_error (complex_divide \<lparr>cf_real = f32 0x3f800000, cf_imag = f32 0x3f800000\<rparr>
     \<lparr>cf_real = f32 0xc0400000, cf_imag = f32 0x3f800000\<rparr> default_control) = NoError"
proof -
  have "complex_in IEEEBinary32 \<lparr>cf_real = f32 0x3f800000, cf_imag = f32 0x3f800000\<rparr>"
      "complex_in IEEEBinary32 \<lparr>cf_real = f32 0xc0400000, cf_imag = f32 0x3f800000\<rparr>"
    by (simp_all add: complex_in_def in_format_def decode_one decode_minus_three)
  then show ?thesis
    using complex_closed [of complex_divide IEEEBinary32] by blast
qed

end
