(* ===== verification/Text_Support.thy ===== *)
theory Text_Support
  imports Main
begin

text \<open>
  The parts of the standard library's text formatting the sources use: insertion of integers
  into a stream, field width and fill, and \<open>std::to_string\<close>.
\<close>

text \<open>Insertion of an unsigned integer into a stream in base 10 or 16, with lower-case digits.\<close>

definition digit_char :: "nat \<Rightarrow> char" where
  "digit_char d = char_of (if d < 10 then 48 + d else 87 + d)"

fun radix_loop :: "nat \<Rightarrow> nat \<Rightarrow> string \<Rightarrow> string" where
  "radix_loop b n acc =
     (if n < b \<or> b < 2 then digit_char n # acc
      else radix_loop b (n div b) (digit_char (n mod b) # acc))"

declare radix_loop.simps [simp del]

definition radix_string :: "nat \<Rightarrow> nat \<Rightarrow> string" where
  "radix_string b n = radix_loop b n []"

text \<open>\<open>std::setw\<close> with the fill character \<open>0\<close>, and \<open>std::to_string\<close> of a signed integer.\<close>

definition pad_zeros :: "nat \<Rightarrow> string \<Rightarrow> string" where
  "pad_zeros w s = replicate (w - length s) CHR ''0'' @ s"

definition to_string :: "int \<Rightarrow> string" where
  "to_string n = (if n < 0 then CHR ''-'' # radix_string 10 (nat (- n)) else radix_string 10 (nat n))"

end
