(* ===== verification/Float_Text.thy ===== *)
theory Float_Text
  imports Float_Arith Text_Support "HOL-Library.Char_ord" "HOL-Library.List_Lexorder"
begin

text \<open>
  Spellings of floating-point values (\<open>parse\<close>, \<open>nan\<close>, \<open>bit_pattern_hex\<close>, \<open>hex_display\<close> and
  \<open>display\<close> of \<open>numeric/floating_point.cpp\<close>, and the two printers of \<open>BigUInt\<close>). Strings are
  lists of characters; an out-parameter with a success flag is an \<open>option\<close>. The characters
  are compared by their codes, and the C locale's \<open>tolower\<close> and \<open>isdigit\<close> are written out.
\<close>

section \<open>Characters and numerals of the standard library\<close>

abbreviation code :: "char \<Rightarrow> nat" where
  "code c \<equiv> of_char c"

definition tolower :: "char \<Rightarrow> char" where
  "tolower c = (if 65 \<le> code c \<and> code c \<le> 90 then char_of (code c + 32) else c)"

definition isdigit :: "char \<Rightarrow> bool" where
  "isdigit c \<longleftrightarrow> 48 \<le> code c \<and> code c \<le> 57"

text \<open>\<open>find_first_of\<close> from a position on.\<close>

definition find_from :: "(char \<Rightarrow> bool) \<Rightarrow> nat \<Rightarrow> string \<Rightarrow> nat option" where
  "find_from P start s =
     (let n = length (takeWhile (\<lambda>c. \<not> P c) (drop start s))
      in if start + n < length s then Some (start + n) else None)"

definition ends_with :: "string \<Rightarrow> string \<Rightarrow> bool" where
  "ends_with s t \<longleftrightarrow> length t \<le> length s \<and> drop (length s - length t) s = t"

section \<open>Printers of multi-word integers\<close>

text \<open>The loop of \<open>to_decimal\<close> that splits off nine decimal digits at a time.\<close>

lemma divide_small_decreases:
  assumes "ws \<noteq> []" and "divide_small ws 1000000000 = (q, r)"
  shows "(q, ws) \<in> measures [bval, length]"
proof (cases "bval ws = 0")
  case True
  then have "bval q = 0" "bnorm q"
    using divide_small_val [OF _ assms(2)] by simp_all
  then have "q = []"
    using bval_inj [of q "[]"] by (simp add: bnorm_def)
  then show ?thesis
    using assms(1) True by simp
next
  case False
  then show ?thesis
    using divide_small_val(1) [OF _ assms(2)] by simp
qed

function decimal_chunks :: "biguint \<Rightarrow> u32 list" where
  "decimal_chunks ws =
     (if big_is_zero ws then []
      else case divide_small ws 1000000000 of (q, r) \<Rightarrow> r # decimal_chunks q)"
  by pat_completeness auto
termination
  by (relation "measures [bval, length]") (simp, metis big_is_zero_def divide_small_decreases)

declare decimal_chunks.simps [simp del]

text \<open>The chunks come least significant first; the last one is printed without padding.\<close>

definition to_decimal :: "biguint \<Rightarrow> string" where
  "to_decimal ws =
     (if big_is_zero ws then ''0''
      else let chunks = decimal_chunks ws
           in radix_string 10 (unat (last chunks))
              @ concat (map (\<lambda>c. pad_zeros 9 (radix_string 10 (unat c))) (rev (butlast chunks))))"

definition to_hex :: "biguint \<Rightarrow> string" where
  "to_hex ws =
     (if big_is_zero ws then ''0''
      else radix_string 16 (unat (last ws))
           @ concat (map (\<lambda>w. pad_zeros 16 (radix_string 16 (unat w))) (rev (butlast ws))))"

section \<open>Lexical helpers\<close>

definition power_of_five :: "nat \<Rightarrow> biguint" where
  "power_of_five expo = ((\<lambda>v. multiply_small v 5) ^^ expo) (big_of_u128 1)"

definition digit_value :: "char \<Rightarrow> u32 \<Rightarrow> int" where
  "digit_value c base =
     (let v = (if code CHR ''0'' \<le> code c \<and> code c \<le> code CHR ''9'' then int (code c) - 48
               else if code CHR ''a'' \<le> code c \<and> code c \<le> code CHR ''f'' then 10 + int (code c) - 97
               else if code CHR ''A'' \<le> code c \<and> code c \<le> code CHR ''F'' then 10 + int (code c) - 65
               else - 1)
      in if 0 \<le> v \<and> v < uint base then v else - 1)"

fun parse_digits_loop :: "string \<Rightarrow> u32 \<Rightarrow> biguint \<Rightarrow> biguint option" where
  "parse_digits_loop [] base v = Some v"
| "parse_digits_loop (c # s) base v =
     (let digit = digit_value c base
      in if digit < 0 then None
         else parse_digits_loop s base (add_small (multiply_small v base) (word_of_int digit)))"

definition parse_big_digits :: "string \<Rightarrow> u32 \<Rightarrow> biguint option" where
  "parse_big_digits digits base = (if digits = [] then None else parse_digits_loop digits base [])"

definition case_equal :: "string \<Rightarrow> string \<Rightarrow> bool" where
  "case_equal lhs rhs \<longleftrightarrow> length lhs = length rhs \<and> list_all2 (\<lambda>a b. tolower a = tolower b) lhs rhs"

definition is_sign :: "char \<Rightarrow> bool" where
  "is_sign c \<longleftrightarrow> c = CHR ''+'' \<or> c = CHR ''-''"

definition suffixes :: "string list" where
  "suffixes = [''bf16'', ''BF16'', ''f128'', ''F128'', ''f64'', ''F64'', ''f32'', ''F32'', ''f16'', ''F16'']"

definition strip_suffix :: "string \<Rightarrow> string" where
  "strip_suffix s =
     (case find (\<lambda>t. length t < length s \<and> ends_with s t) suffixes of
        Some t \<Rightarrow> take (length s - length t) s
      | None \<Rightarrow> if s \<noteq> [] \<and> last s \<in> {CHR ''f'', CHR ''F'', CHR ''l'', CHR ''L''} then butlast s else s)"

definition normalize_spelling :: "string \<Rightarrow> string" where
  "normalize_spelling spelling =
     (let s0 = filter (\<lambda>c. c \<noteq> CHR 0x27) spelling;
          s1 = (if s0 \<noteq> [] \<and> last s0 \<in> {CHR ''i'', CHR ''I'', CHR ''j'', CHR ''J''} then butlast s0 else s0);
          u = (if s1 \<noteq> [] \<and> is_sign (hd s1) then tl s1 else s1)
      in if case_equal u ''inf'' \<or> case_equal u ''infinity'' \<or> case_equal u ''nan'' then s1
         else strip_suffix s1)"

definition exponent_limit :: int where
  "exponent_limit = 1000000000"

fun parse_exponent_loop :: "string \<Rightarrow> int \<Rightarrow> int option" where
  "parse_exponent_loop [] v = Some v"
| "parse_exponent_loop (c # s) v =
     (if \<not> isdigit c then None
      else let digit = int (code c) - 48
           in parse_exponent_loop s
                (if (exponent_limit - digit) div 10 < v then exponent_limit else v * 10 + digit))"

definition parse_exponent :: "string \<Rightarrow> int option" where
  "parse_exponent text =
     (if text = [] then None
      else let neg = (hd text = CHR ''-'');
               rest = (if is_sign (hd text) then tl text else text)
           in if rest = [] then None
              else map_option (\<lambda>v. if neg then - v else v) (parse_exponent_loop rest 0))"

section \<open>Parsing\<close>

datatype parse_error = ParseNone | ParseInvalidFormat | ParseInvalidSyntax | ParseInvalidPayload

record float_parse_result =
  pr_value :: float_value
  pr_status :: float_status
  pr_error :: parse_error

definition parse_has_value :: "float_parse_result \<Rightarrow> bool" where
  "parse_has_value r \<longleftrightarrow> pr_error r = ParseNone \<and> value_valid (pr_value r)"

definition parse_failed :: "parse_error \<Rightarrow> float_parse_result" where
  "parse_failed err = \<lparr>pr_value = invalid_value, pr_status = 0, pr_error = err\<rparr>"

definition parse_value :: "float_value \<Rightarrow> float_parse_result" where
  "parse_value v = \<lparr>pr_value = v, pr_status = 0, pr_error = ParseNone\<rparr>"

definition from_float_result :: "float_result \<Rightarrow> float_parse_result" where
  "from_float_result r =
     \<lparr>pr_value = fr_value r, pr_status = fr_status r,
      pr_error = (if fr_error r \<noteq> NoError then ParseInvalidFormat else ParseNone)\<rparr>"

definition nan :: "float_format \<Rightarrow> string \<Rightarrow> bool \<Rightarrow> bool \<Rightarrow> float_parse_result" where
  "nan format payload_text signaling neg =
     (if descriptor format = None then parse_failed ParseInvalidFormat
      else let hexadecimal = (2 < length payload_text \<and> payload_text ! 0 = CHR ''0''
                              \<and> (payload_text ! 1 = CHR ''x'' \<or> payload_text ! 1 = CHR ''X''));
               base = (if hexadecimal then 16 else 10);
               text = (if hexadecimal then drop 2 payload_text else payload_text)
           in if text = [] then parse_value (make_nan format neg signaling [])
              else case parse_big_digits text base of
                  None \<Rightarrow> parse_failed ParseInvalidPayload
                | Some pay \<Rightarrow>
                    if 128 < big_bit_width pay then parse_failed ParseInvalidPayload
                    else parse_value (make_nan format neg signaling pay))"

definition is_nan_payload_form :: "string \<Rightarrow> bool" where
  "is_nan_payload_form s \<longleftrightarrow>
     5 \<le> length s \<and> tolower (s ! 0) = CHR ''n'' \<and> tolower (s ! 1) = CHR ''a'' \<and> tolower (s ! 2) = CHR ''n''
     \<and> s ! 3 = CHR ''('' \<and> last s = CHR '')''"

text \<open>The last part of \<open>parse\<close>: the exact number is rounded, or a decimal exponent of more
  than 6000 in absolute value short-cuts to the overflow or underflow result.\<close>

definition parse_number ::
  "bool \<Rightarrow> bool \<Rightarrow> biguint \<Rightarrow> nat \<Rightarrow> nat \<Rightarrow> int \<Rightarrow> float_format \<Rightarrow> float_control \<Rightarrow> float_parse_result" where
  "parse_number hexadecimal neg sig digit_count fractional_digits explicit_exponent format control =
     (if big_is_zero sig then parse_value (zero format neg)
      else if hexadecimal then
        from_float_result (round_rational neg sig (big_of_u128 1)
          (explicit_exponent - int fractional_digits * 4) format control)
      else
        let decimal_exponent = explicit_exponent - int fractional_digits;
            adjusted = int digit_count + decimal_exponent - 1
        in if 6000 < adjusted then from_float_result (overflow_result format neg control)
           else if adjusted < - 6000 then from_float_result (tiny_nonzero_result format neg control)
           else if 0 \<le> decimal_exponent then
             from_float_result (round_rational neg
               (big_multiply sig (power_of_five (nat decimal_exponent))) (big_of_u128 1)
               decimal_exponent format control)
           else
             from_float_result (round_rational neg sig (power_of_five (nat (- decimal_exponent)))
               decimal_exponent format control))"

text \<open>The middle parts of \<open>parse\<close>: the digits of the significand, and the split into
  significand and exponent.\<close>

definition parse_significand ::
  "bool \<Rightarrow> bool \<Rightarrow> string \<Rightarrow> int \<Rightarrow> float_format \<Rightarrow> float_control \<Rightarrow> float_parse_result" where
  "parse_significand hexadecimal neg sig_text explicit_exponent format control =
     (let point = find_from (\<lambda>c. c = CHR ''.'') 0 sig_text
      in if (case point of None \<Rightarrow> False
             | Some i \<Rightarrow> find_from (\<lambda>c. c = CHR ''.'') (i + 1) sig_text \<noteq> None)
         then parse_failed ParseInvalidSyntax
         else let fractional_digits = (case point of None \<Rightarrow> 0 | Some i \<Rightarrow> length sig_text - i - 1);
                  digits = (case point of None \<Rightarrow> sig_text
                            | Some i \<Rightarrow> take i sig_text @ drop (i + 1) sig_text)
              in case parse_big_digits digits (if hexadecimal then 16 else 10) of
                  None \<Rightarrow> parse_failed ParseInvalidSyntax
                | Some sig \<Rightarrow> parse_number hexadecimal neg sig (length digits) fractional_digits
                               explicit_exponent format control)"

definition parse_unsigned ::
  "bool \<Rightarrow> string \<Rightarrow> float_format \<Rightarrow> float_control \<Rightarrow> float_parse_result" where
  "parse_unsigned neg s format control =
     (let hexadecimal = (2 \<le> length s \<and> s ! 0 = CHR ''0'' \<and> (s ! 1 = CHR ''x'' \<or> s ! 1 = CHR ''X''));
          exponent_position =
            (if hexadecimal then find_from (\<lambda>c. c = CHR ''p'' \<or> c = CHR ''P'') 2 s
             else find_from (\<lambda>c. c = CHR ''e'' \<or> c = CHR ''E'') 0 s);
          sig_text = (case exponent_position of None \<Rightarrow> s | Some i \<Rightarrow> take i s);
          exponent_text = (case exponent_position of None \<Rightarrow> [] | Some i \<Rightarrow> drop (i + 1) s)
      in if (exponent_position \<noteq> None \<and> exponent_text = []) \<or> (exponent_position = None \<and> hexadecimal)
         then parse_failed ParseInvalidSyntax
         else case (if exponent_text = [] then Some 0 else parse_exponent exponent_text) of
             None \<Rightarrow> parse_failed ParseInvalidSyntax
           | Some explicit_exponent \<Rightarrow>
               parse_significand hexadecimal neg (if hexadecimal then drop 2 sig_text else sig_text)
                 explicit_exponent format control)"

definition parse :: "string \<Rightarrow> float_format \<Rightarrow> float_control \<Rightarrow> float_parse_result" where
  "parse spelling format control =
     (if descriptor format = None then parse_failed ParseInvalidFormat
      else let s0 = normalize_spelling spelling;
               neg = (s0 \<noteq> [] \<and> hd s0 = CHR ''-'');
               s = (if s0 \<noteq> [] \<and> is_sign (hd s0) then tl s0 else s0)
           in if case_equal s ''inf'' \<or> case_equal s ''infinity'' then parse_value (infinity format neg)
              else if case_equal s ''nan'' then nan format [] False neg
              else if is_nan_payload_form s then nan format (take (length s - 5) (drop 4 s)) False neg
              else parse_unsigned neg s format control)"

section \<open>Display\<close>

definition bit_pattern_hex :: "float_value \<Rightarrow> string" where
  "bit_pattern_hex v =
     (if \<not> canonical v then []
      else let hex = (\<lambda>w n. pad_zeros w (radix_string 16 n)) in
        case semantics v of
          IEEEBinary16 \<Rightarrow> hex 4 (unat (ucast (fv_low_bits v) :: u16))
        | IEEEBinary32 \<Rightarrow> hex 8 (unat (ucast (fv_low_bits v) :: u32))
        | IEEEBinary64 \<Rightarrow> hex 16 (unat (fv_low_bits v))
        | X87Extended80 \<Rightarrow> hex 4 (unat (ucast (fv_high_bits v) :: u16)) @ hex 16 (unat (fv_low_bits v))
        | IEEEBinary128 \<Rightarrow> hex 16 (unat (fv_high_bits v)) @ hex 16 (unat (fv_low_bits v))
        | FmtInvalid \<Rightarrow> [])"

definition nan_display :: "bool \<Rightarrow> float_value \<Rightarrow> string" where
  "nan_display neg v = (if neg then ''-nan(0x'' else ''nan(0x'') @ bit_pattern_hex v @ '')''"

definition hex_display :: "float_value \<Rightarrow> string" where
  "hex_display v =
     (let x = decode v
      in if classification x = ClsInvalid then ''<invalid-floating-value>''
         else if is_nan_class (classification x) then nan_display (negative x) v
         else if classification x = ClsInfinity then (if negative x then ''-inf'' else ''inf'')
         else if classification x = ClsZero then (if negative x then ''-0x0p0'' else ''0x0p0'')
         else (if negative x then ''-0x'' else ''0x'') @ to_hex (significand x) @ ''p'' @ to_string (exponent x))"

text \<open>\<open>increment_decimal\<close> walks the digits from the back.\<close>

fun increment_loop :: "string \<Rightarrow> string" where
  "increment_loop [] = [CHR ''1'']"
| "increment_loop (c # s) =
     (if c \<noteq> CHR ''9'' then char_of (code c + 1) # s else CHR ''0'' # increment_loop s)"

definition increment_decimal :: "string \<Rightarrow> string" where
  "increment_decimal s = rev (increment_loop (rev s))"

fun strip_zeros_loop :: "string \<Rightarrow> string" where
  "strip_zeros_loop (c # d # s) = (if c = CHR ''0'' then strip_zeros_loop (d # s) else c # d # s)"
| "strip_zeros_loop s = s"

definition candidate_spelling :: "string \<Rightarrow> int \<Rightarrow> bool \<Rightarrow> string" where
  "candidate_spelling coefficient0 scientific_exponent neg =
     (let coefficient = rev (strip_zeros_loop (rev coefficient0));
          scientific =
            [coefficient ! 0]
            @ (if 1 < length coefficient then CHR ''.'' # drop 1 coefficient else [])
            @ (if scientific_exponent \<noteq> 0 then CHR ''e'' # to_string scientific_exponent else []);
          point = scientific_exponent + 1;
          fixed =
            (if point \<le> 0 then ''0.'' @ replicate (nat (- point)) CHR ''0'' @ coefficient
             else if int (length coefficient) \<le> point
             then coefficient @ replicate (nat (point - int (length coefficient))) CHR ''0''
             else take (nat point) coefficient @ CHR ''.'' # drop (nat point) coefficient);
          result = (if length fixed \<le> length scientific then fixed else scientific)
      in if neg then CHR ''-'' # result else result)"

text \<open>The coefficients \<open>display\<close> tries at one length: the truncated digits and, when something
  was cut off, the incremented ones; sorted and without duplicates.\<close>

definition display_coefficients :: "string \<Rightarrow> nat \<Rightarrow> string list" where
  "display_coefficients exact_digits count =
     (let prefix0 = take (min count (length exact_digits)) exact_digits;
          prefix = prefix0 @ replicate (count - length prefix0) CHR ''0'';
          tail_nonzero = (count < length exact_digits \<and> (\<exists>c \<in> set (drop count exact_digits). c \<noteq> CHR ''0''));
          first_discarded = exact_digits ! count;
          later_nonzero = (\<exists>c \<in> set (drop (count + 1) exact_digits). c \<noteq> CHR ''0'');
          round_up = (code CHR ''5'' < code first_discarded
                      \<or> (first_discarded = CHR ''5'' \<and> (later_nonzero \<or> odd (code (last prefix) - 48))));
          coefficients =
            (if tail_nonzero
             then [prefix, increment_decimal prefix, if round_up then increment_decimal prefix else prefix]
             else [prefix])
      in remdups_adj (sort coefficients))"

definition better_candidate :: "float_value \<Rightarrow> nat \<Rightarrow> int \<Rightarrow> bool \<Rightarrow> string \<Rightarrow> string \<Rightarrow> string" where
  "better_candidate v count scientific_exponent neg best coefficient =
     (let (coefficient', candidate_exponent) =
            (if count < length coefficient then (butlast coefficient, scientific_exponent + 1)
             else (coefficient, scientific_exponent));
          candidate = candidate_spelling coefficient' candidate_exponent neg;
          parsed = parse candidate (semantics v) default_control
      in if parse_has_value parsed \<and> pr_value parsed = v
            \<and> (best = [] \<or> length candidate < length best
               \<or> (length candidate = length best \<and> candidate < best))
         then candidate else best)"

fun display_loop :: "nat list \<Rightarrow> float_value \<Rightarrow> string \<Rightarrow> int \<Rightarrow> bool \<Rightarrow> string" where
  "display_loop [] v exact_digits scientific_exponent neg = hex_display v"
| "display_loop (count # counts) v exact_digits scientific_exponent neg =
     (let best = foldl (better_candidate v count scientific_exponent neg) []
                   (display_coefficients exact_digits count)
      in if best \<noteq> [] then best else display_loop counts v exact_digits scientific_exponent neg)"

definition display :: "float_value \<Rightarrow> string" where
  "display v =
     (let x = decode v
      in case descriptor (semantics v) of
          None \<Rightarrow> ''<invalid-floating-value>''
        | Some fmt \<Rightarrow>
            if classification x = ClsInvalid then ''<invalid-floating-value>''
            else if is_nan_class (classification x) then nan_display (negative x) v
            else if classification x = ClsInfinity then (if negative x then ''-inf'' else ''inf'')
            else if classification x = ClsZero then (if negative x then ''-0'' else ''0'')
            else
              let (decimal_integer, decimal_scale) =
                    (if 0 \<le> exponent x then (shifted_left (significand x) (nat (exponent x)), 0)
                     else (big_multiply (significand x) (power_of_five (nat (- exponent x))),
                           nat (- exponent x)));
                  exact_digits = to_decimal decimal_integer;
                  scientific_exponent = int (length exact_digits) - int decimal_scale - 1;
                  max_digits = (precision fmt * 30103 + 99999) div 100000 + 1
              in display_loop [1..<max_digits + 1] v exact_digits scientific_exponent (negative x))"

end
