(* ===== verification/Float_Text_Correct.thy ===== *)
theory Float_Text_Correct
  imports Float_Text Float_Convert_Correct
begin

text \<open>
  Correctness of the spellings: the printers of multi-word integers print the number, a
  literal parses to its exact number rounded once, and the spellings of a value parse back
  to the value.
\<close>

section \<open>Digit strings\<close>

definition digits_in :: "u32 \<Rightarrow> string \<Rightarrow> bool" where
  "digits_in base s \<longleftrightarrow> (\<forall>c \<in> set s. 0 \<le> digit_value c base)"

definition digits_step :: "u32 \<Rightarrow> nat \<Rightarrow> char \<Rightarrow> nat" where
  "digits_step base a c = a * unat base + nat (digit_value c base)"

definition digits_val :: "u32 \<Rightarrow> string \<Rightarrow> nat" where
  "digits_val base s = foldl (digits_step base) 0 s"

lemma int_unat_eq: "int (unat w) = uint (w :: u32)"
  by simp

lemma digits_in_simps [simp]:
  "digits_in base []" "digits_in base (c # s) \<longleftrightarrow> 0 \<le> digit_value c base \<and> digits_in base s"
  "digits_in base (s @ t) \<longleftrightarrow> digits_in base s \<and> digits_in base t"
  "digits_in base (rev s) \<longleftrightarrow> digits_in base s"
  by (auto simp: digits_in_def)

lemma digit_value_bounds: "digit_value c base < uint base \<or> digit_value c base = - 1"
  "digit_value c base \<le> 15" "- 1 \<le> digit_value c base"
  by (auto simp: digit_value_def Let_def)

lemma digits_foldl: "foldl (digits_step base) a s = a * unat base ^ length s + digits_val base s"
proof (induction s arbitrary: a)
  case (Cons c s)
  show ?case
    unfolding digits_val_def foldl.simps Cons.IH [of "digits_step base a c"] Cons.IH [of "digits_step base 0 c"]
    by (simp add: digits_step_def algebra_simps)
qed (simp add: digits_val_def)

lemma digits_val_append: "digits_val base (s @ t) = digits_val base s * unat base ^ length t + digits_val base t"
  unfolding digits_val_def foldl_append by (rule digits_foldl [unfolded digits_val_def])

lemma digits_val_Nil [simp]: "digits_val base [] = 0"
  by (simp add: digits_val_def)

lemma digits_val_single [simp]: "digits_val base [c] = nat (digit_value c base)"
  by (simp add: digits_val_def digits_step_def)

lemma digits_val_lt:
  assumes "base \<noteq> 0"
  shows "digits_val base s < unat base ^ length s"
proof (induction s rule: rev_induct)
  case (snoc c s)
  have "nat (digit_value c base) < unat base"
    using digit_value_bounds(1) [of c base] assms unat_gt_0 [of base] int_unat_eq [of base] by linarith
  then have "digits_val base s * unat base + nat (digit_value c base) < (digits_val base s + 1) * unat base"
    by simp
  also have "\<dots> \<le> unat base ^ length s * unat base"
    using snoc by (intro mult_le_mono1) simp
  finally show ?case
    by (simp add: digits_val_append mult.commute)
qed simp

text \<open>\<open>parse_big_digits\<close> reads exactly the nonempty digit strings, with their value.\<close>

lemma parse_digits_loop_val:
  assumes "bnorm v"
  shows "if digits_in base s
    then \<exists>w. parse_digits_loop s base v = Some w \<and> bnorm w \<and> bval w = foldl (digits_step base) (bval v) s
    else parse_digits_loop s base v = None"
  using assms
proof (induction s arbitrary: v)
  case (Cons c s)
  show ?case
  proof (cases "0 \<le> digit_value c base")
    case True
    have "unat (word_of_int (digit_value c base) :: u32) = nat (digit_value c base)"
      using digit_value_bounds(2) [of c base] True by (simp add: unsigned_of_int int_bits)
    then have "bval (add_small (multiply_small v base) (word_of_int (digit_value c base))) = digits_step base (bval v) c"
      by (simp add: big_val digits_step_def)
    moreover have "bnorm (add_small (multiply_small v base) (word_of_int (digit_value c base)))"
      using Cons.prems by (simp add: big_wf)
    ultimately show ?thesis
      using Cons.IH [of "add_small (multiply_small v base) (word_of_int (digit_value c base))"] True
      by (auto simp: Let_def split: if_splits)
  qed (simp add: Let_def)
qed simp

lemma parse_big_digits_val:
  "digits_in base s \<Longrightarrow> s \<noteq> [] \<Longrightarrow>
     \<exists>w. parse_big_digits s base = Some w \<and> bnorm w \<and> bval w = digits_val base s"
  "parse_big_digits s base = Some w \<Longrightarrow> digits_in base s \<and> s \<noteq> [] \<and> bnorm w \<and> bval w = digits_val base s"
  using parse_digits_loop_val [of "[]" base s]
  by (auto simp: parse_big_digits_def digits_val_def bnorm_def split: if_splits)

section \<open>Numerals\<close>

lemma digit_value_digit_char:
  assumes "d < unat base" and "d < 16"
  shows "digit_value (digit_char d) base = int d"
proof -
  have "int d < uint base"
    using assms(1) int_unat_eq [of base] by linarith
  moreover have "d = 0 \<or> d = 1 \<or> d = 2 \<or> d = 3 \<or> d = 4 \<or> d = 5 \<or> d = 6 \<or> d = 7 \<or> d = 8 \<or> d = 9
      \<or> d = 10 \<or> d = 11 \<or> d = 12 \<or> d = 13 \<or> d = 14 \<or> d = 15"
    using assms(2) by presburger
  ultimately show ?thesis
    by (auto simp: digit_char_def digit_value_def Let_def)
qed

lemma radix_loop_val:
  assumes "2 \<le> unat base" "unat base \<le> 16"
  shows "foldl (digits_step base) 0 (radix_loop (unat base) n acc) = foldl (digits_step base) n acc
    \<and> (digits_in base acc \<longrightarrow> digits_in base (radix_loop (unat base) n acc))"
proof (induction n arbitrary: acc rule: less_induct)
  case (less n)
  let ?b = "unat base"
  show ?case
  proof (cases "n < ?b")
    case True
    then show ?thesis
      using assms by (simp add: radix_loop.simps [of ?b n] digits_step_def digit_value_digit_char)
  next
    case False
    have "n div ?b < n" "n mod ?b < ?b"
      using False assms by auto
    then have "digit_value (digit_char (n mod ?b)) base = int (n mod ?b)"
      using assms by (intro digit_value_digit_char) linarith+
    then show ?thesis
      using less.IH [OF \<open>n div ?b < n\<close>, of "digit_char (n mod ?b) # acc"] False assms
      by (simp add: radix_loop.simps [of ?b n] digits_step_def)
  qed
qed

lemma length_radix_loop:
  assumes "2 \<le> b" and "n < b ^ Suc k"
  shows "length (radix_loop b n acc) \<le> length acc + Suc k"
  using assms(2)
proof (induction k arbitrary: n acc)
  case 0
  then show ?case
    by (simp add: radix_loop.simps)
next
  case (Suc k)
  show ?case
  proof (cases "n < b")
    case False
    have "n div b < b ^ Suc k"
      using Suc.prems by (simp add: less_mult_imp_div_less mult.commute)
    then show ?thesis
      using Suc.IH [of "n div b" "digit_char (n mod b) # acc"] False assms(1) by (simp add: radix_loop.simps)
  qed (simp add: radix_loop.simps)
qed

lemma radix_loop_nonempty [simp]: "radix_loop b n acc \<noteq> []"
  by (induction b n acc rule: radix_loop.induct) (simp add: radix_loop.simps)

lemma radix_string_val:
  assumes "2 \<le> unat base" "unat base \<le> 16"
  shows "digits_val base (radix_string (unat base) n) = n" "digits_in base (radix_string (unat base) n)"
    "radix_string (unat base) n \<noteq> []"
  using radix_loop_val [OF assms, of n "[]"] by (simp_all add: radix_string_def digits_val_def)

lemma digits_val_zeros [simp]: "digits_val base (replicate n CHR ''0'') = 0"
  by (induction n) (simp_all add: digits_val_append [of base "[_]", simplified] digit_value_def Let_def)

lemma zero_digit: "digits_in base (replicate n CHR ''0'')" if "base \<noteq> 0"
proof -
  have "0 < uint base"
    using that by (metis not_gr_zero unat_eq_0 unat_eq_nat_uint nat_0 zless_nat_conj)
  then show ?thesis
    by (auto simp: digits_in_def digit_value_def Let_def)
qed

lemma pad_zeros_val:
  assumes "digits_in base s" "base \<noteq> 0"
  shows "digits_val base (pad_zeros w s) = digits_val base s" "digits_in base (pad_zeros w s)"
    "length s \<le> w \<Longrightarrow> length (pad_zeros w s) = w"
  using assms zero_digit by (simp_all add: pad_zeros_def digits_val_append)

lemma padded_radix:
  assumes "2 \<le> unat base" "unat base \<le> 16" "n < unat base ^ Suc k"
  shows "digits_val base (pad_zeros (Suc k) (radix_string (unat base) n)) = n"
    "digits_in base (pad_zeros (Suc k) (radix_string (unat base) n))"
    "length (pad_zeros (Suc k) (radix_string (unat base) n)) = Suc k"
proof -
  have "length (radix_string (unat base) n) \<le> Suc k"
    using length_radix_loop [OF assms(1,3), of "[]"] by (simp add: radix_string_def)
  moreover have "base \<noteq> 0"
    using assms(1) by auto
  ultimately show "digits_val base (pad_zeros (Suc k) (radix_string (unat base) n)) = n"
    "digits_in base (pad_zeros (Suc k) (radix_string (unat base) n))"
    "length (pad_zeros (Suc k) (radix_string (unat base) n)) = Suc k"
    using pad_zeros_val [OF radix_string_val(2) [OF assms(1,2)]] radix_string_val(1) [OF assms(1,2)] by simp_all
qed

text \<open>Chunks of \<open>k\<close> digits, most significant first.\<close>

lemma chunked_val:
  assumes "2 \<le> unat base" "unat base \<le> 16" "\<forall>n \<in> set ns. n < unat base ^ Suc k"
  defines "s \<equiv> concat (map (\<lambda>n. pad_zeros (Suc k) (radix_string (unat base) n)) ns)"
  shows "digits_val base s = foldl (\<lambda>a n. a * unat base ^ Suc k + n) 0 ns \<and> digits_in base s
    \<and> length s = length ns * Suc k"
  unfolding s_def using assms(3)
proof (induction ns rule: rev_induct)
  case (snoc n ns)
  then show ?case
    using padded_radix [OF assms(1,2), of n k] by (simp add: digits_val_append)
qed simp

lemma foldl_radix: "foldl (\<lambda>a n. a * (B :: nat) + n) x ns = x * B ^ length ns + foldl (\<lambda>a n. a * B + n) 0 ns"
proof (induction ns arbitrary: x)
  case (Cons n ns)
  have "foldl (\<lambda>a n. a * B + n) (x * B + n) ns = (x * B + n) * B ^ length ns + foldl (\<lambda>a n. a * B + n) 0 ns"
    "foldl (\<lambda>a n. a * B + n) n ns = n * B ^ length ns + foldl (\<lambda>a n. a * B + n) 0 ns"
    by (rule Cons.IH)+
  then show ?case
    by (simp add: algebra_simps)
qed simp

lemma bval_foldl: "bval ws = foldl (\<lambda>a w. a * 2 ^ 64 + unat w) 0 (rev ws)"
  by (induction ws) simp_all

lemma unchunked_val:
  assumes "2 \<le> unat base" "unat base \<le> 16" "\<forall>n \<in> set ns. n < unat base ^ Suc k" "ns \<noteq> []"
  defines "s \<equiv> radix_string (unat base) (last ns)
    @ concat (map (\<lambda>n. pad_zeros (Suc k) (radix_string (unat base) n)) (rev (butlast ns)))"
  shows "digits_val base s = foldl (\<lambda>a n. a * unat base ^ Suc k + n) 0 (rev ns)" "digits_in base s" "s \<noteq> []"
proof -
  have ns: "rev ns = last ns # rev (butlast ns)"
    using assms(4) by (metis append_butlast_last_id rev_eq_Cons_iff rev_rev_ident)
  have "\<forall>n \<in> set (rev (butlast ns)). n < unat base ^ Suc k"
    using assms(3) by (auto dest: in_set_butlastD)
  note c = chunked_val [OF assms(1,2) this] and r = radix_string_val [OF assms(1,2), of "last ns"]
  show "digits_in base s" "s \<noteq> []"
    using c r by (simp_all add: s_def)
  have "(unat base ^ Suc k) ^ n = unat base ^ (n + n * k)" for n
    by (simp add: algebra_simps del: power_Suc flip: power_mult)
  then show "digits_val base s = foldl (\<lambda>a n. a * unat base ^ Suc k + n) 0 (rev ns)"
    using foldl_radix [of "unat base ^ Suc k" "last ns" "rev (butlast ns)"] c r
    by (simp add: ns s_def digits_val_append del: power_Suc)
qed

lemma to_hex_val:
  assumes "bnorm ws"
  shows "digits_val 16 (to_hex ws) = bval ws" "digits_in 16 (to_hex ws)" "to_hex ws \<noteq> []"
proof -
  have "digits_val 16 (to_hex ws) = bval ws \<and> digits_in 16 (to_hex ws) \<and> to_hex ws \<noteq> []"
  proof (cases "ws = []")
    case False
    have "\<forall>n \<in> set (map unat ws). n < unat (16 :: u32) ^ Suc 15"
      using unat_u64_lt by auto
    note u = unchunked_val [of 16, OF _ _ this]
    have "foldl (\<lambda>a n. a * unat (16 :: u32) ^ Suc 15 + n) 0 (rev (map unat ws)) = bval ws"
      by (simp add: bval_foldl rev_map foldl_map)
    then show ?thesis
      using u False
      by (simp add: to_hex_def big_is_zero_def last_map rev_map o_def flip: map_butlast)
  qed (simp add: to_hex_def big_is_zero_def digit_value_def)
  then show "digits_val 16 (to_hex ws) = bval ws" "digits_in 16 (to_hex ws)" "to_hex ws \<noteq> []"
    by blast+
qed

lemma decimal_chunks_val:
  "bnorm ws \<Longrightarrow> foldl (\<lambda>a n. a * 1000000000 + n) 0 (rev (map unat (decimal_chunks ws))) = bval ws
    \<and> (\<forall>n \<in> set (map unat (decimal_chunks ws)). n < 1000000000) \<and> (decimal_chunks ws = [] \<longleftrightarrow> ws = [])"
proof (induction ws rule: decimal_chunks.induct)
  case (1 ws)
  show ?case
  proof (cases "ws = []")
    case False
    obtain q c where qc: "divide_small ws 1000000000 = (q, c)"
      by fastforce
    note v = divide_small_val [OF _ qc]
    have "decimal_chunks ws = c # decimal_chunks q"
      using False qc by (simp add: decimal_chunks.simps [of ws] big_is_zero_def)
    then show ?thesis
      using 1(1) [OF _ qc [symmetric]] False v by (simp add: big_is_zero_def)
  qed (simp add: decimal_chunks.simps big_is_zero_def)
qed

lemma to_decimal_val:
  assumes "bnorm ws"
  shows "digits_val 10 (to_decimal ws) = bval ws" "digits_in 10 (to_decimal ws)" "to_decimal ws \<noteq> []"
proof -
  have "digits_val 10 (to_decimal ws) = bval ws \<and> digits_in 10 (to_decimal ws) \<and> to_decimal ws \<noteq> []"
  proof (cases "ws = []")
    case False
    note c = decimal_chunks_val [OF assms]
    have "\<forall>n \<in> set (map unat (decimal_chunks ws)). n < unat (10 :: u32) ^ Suc 8"
      using c by simp
    note u = unchunked_val [of 10, OF _ _ this]
    show ?thesis
      using u c False
      by (simp add: to_decimal_def Let_def big_is_zero_def last_map rev_map o_def flip: map_butlast)
  qed (simp add: to_decimal_def big_is_zero_def digit_value_def)
  then show "digits_val 10 (to_decimal ws) = bval ws" "digits_in 10 (to_decimal ws)" "to_decimal ws \<noteq> []"
    by blast+
qed

section \<open>Exponents\<close>

lemma isdigit_value: "isdigit c \<longleftrightarrow> 0 \<le> digit_value c 10"
  "isdigit c \<Longrightarrow> digit_value c 10 = int (code c) - 48"
  by (auto simp: isdigit_def digit_value_def Let_def)

lemma min_limit_step:
  fixes a b :: int
  assumes "0 \<le> b" "1 \<le> B" "0 \<le> a" "0 \<le> L"
  shows "min L (min L a * B + b) = min L (a * B + b)"
proof (cases "a \<le> L")
  case False
  have "L * 1 \<le> L * B" "a * 1 \<le> a * B"
    using assms by (intro mult_left_mono; simp)+
  then have "L \<le> L * B + b" "L \<le> a * B + b"
    using assms(1) False by linarith+
  then show ?thesis
    using False by (simp add: min_absorb1)
qed simp

lemma parse_exponent_loop_val:
  assumes "digits_in 10 s" "0 \<le> v" "v \<le> exponent_limit"
  shows "parse_exponent_loop s v = Some (min exponent_limit (v * 10 ^ length s + int (digits_val 10 s)))"
  using assms
proof (induction s arbitrary: v)
  case (Cons c s)
  define x where "x = int (code c) - 48"
  have x: "isdigit c" "digit_value c 10 = x" "0 \<le> x" "x \<le> 9"
    using Cons.prems(1) isdigit_value [of c] digit_value_bounds(1) [of c 10] by (auto simp: x_def)
  define v' where "v' = (if (exponent_limit - x) div 10 < v then exponent_limit else v * 10 + x)"
  have v': "v' = min exponent_limit (v * 10 + x)" "0 \<le> v'" "v' \<le> exponent_limit"
    using Cons.prems(2,3) x(3,4) by (auto simp: v'_def exponent_limit_def)
  have "digits_val 10 (c # s) = nat x * 10 ^ length s + digits_val 10 s"
    using digits_val_append [of 10 "[c]" s] x(2) by simp
  then have val: "int (digits_val 10 (c # s)) = x * 10 ^ length s + int (digits_val 10 s)"
    using x(3) by simp
  have "parse_exponent_loop (c # s) v = parse_exponent_loop s v'"
    using x(1) by (simp add: Let_def v'_def x_def)
  also have "\<dots> = Some (min exponent_limit (v' * 10 ^ length s + int (digits_val 10 s)))"
    using Cons.IH [of v'] Cons.prems(1) v'(2,3) by simp
  also have "\<dots> = Some (min exponent_limit ((v * 10 + x) * 10 ^ length s + int (digits_val 10 s)))"
    unfolding v'(1) using Cons.prems(2) x(3) by (subst min_limit_step) (auto simp: exponent_limit_def)
  finally show ?case
    unfolding val by (simp add: algebra_simps)
qed simp

text \<open>The exponent part of a literal: an optional sign and digits.\<close>

definition sign_text :: "string \<Rightarrow> bool" where
  "sign_text sg \<longleftrightarrow> sg = [] \<or> sg = ''+'' \<or> sg = ''-''"

definition text_sign :: "string \<Rightarrow> int \<Rightarrow> int" where
  "text_sign sg k = (if sg = ''-'' then - k else k)"

lemma digit_not_sign: "0 \<le> digit_value c base \<Longrightarrow> \<not> is_sign c" "0 \<le> digit_value c base \<Longrightarrow> c \<noteq> CHR ''-''"
  by (auto simp: digit_value_def is_sign_def Let_def split: if_splits)

lemma parse_exponent_val:
  assumes "sign_text sg" "digits_in 10 ds" "ds \<noteq> []"
  shows "parse_exponent (sg @ ds) = Some (text_sign sg (min exponent_limit (int (digits_val 10 ds))))"
proof -
  have "parse_exponent_loop ds 0 = Some (min exponent_limit (int (digits_val 10 ds)))"
    using parse_exponent_loop_val [OF assms(2), of 0] by (simp add: exponent_limit_def)
  moreover have "\<not> is_sign (hd ds)" "hd ds \<noteq> CHR ''-''"
    using assms(2,3) digit_not_sign by (cases ds; auto)+
  ultimately show ?thesis
    using assms(1,3) by (auto simp: parse_exponent_def sign_text_def text_sign_def is_sign_def Let_def)
qed

lemma to_string_text:
  obtains sg ds where "to_string k = sg @ ds" "sign_text sg" "digits_in 10 ds" "ds \<noteq> []"
    "text_sign sg (int (digits_val 10 ds)) = k"
proof (cases "k < 0")
  case True
  show ?thesis
    by (rule that [of "''-''" "radix_string 10 (nat (- k))"])
      (use True radix_string_val [of 10 "nat (- k)"] in \<open>auto simp: to_string_def sign_text_def text_sign_def\<close>)
next
  case False
  show ?thesis
    by (rule that [of "[]" "radix_string 10 (nat k)"])
      (use False radix_string_val [of 10 "nat k"] in \<open>auto simp: to_string_def sign_text_def text_sign_def\<close>)
qed

section \<open>Literals\<close>

text \<open>
  A literal is a sign, integer digits, an optional fraction and an optional exponent (sign and
  digits), in decimal or with the prefix \<open>0x\<close> and a binary exponent. The letters of the prefix
  and of the exponent are of either case.
\<close>

record literal =
  lit_sign :: string
  lit_hex :: bool
  lit_int :: string
  lit_frac :: "string option"
  lit_exp :: "(string \<times> string) option"
  lit_upper_x :: bool
  lit_upper_e :: bool

definition lit_base :: "literal \<Rightarrow> u32" where
  "lit_base l = (if lit_hex l then 16 else 10)"

definition lit_fraction :: "literal \<Rightarrow> string" where
  "lit_fraction l = (case lit_frac l of None \<Rightarrow> [] | Some f \<Rightarrow> f)"

definition lit_digits :: "literal \<Rightarrow> string" where
  "lit_digits l = lit_int l @ lit_fraction l"

definition lit_significand :: "literal \<Rightarrow> string" where
  "lit_significand l = lit_int l @ (case lit_frac l of None \<Rightarrow> [] | Some f \<Rightarrow> CHR ''.'' # f)"

definition lit_marker :: "literal \<Rightarrow> char" where
  "lit_marker l =
     (if lit_hex l then if lit_upper_e l then CHR ''P'' else CHR ''p''
      else if lit_upper_e l then CHR ''E'' else CHR ''e'')"

definition lit_exponent :: "literal \<Rightarrow> string" where
  "lit_exponent l = (case lit_exp l of None \<Rightarrow> [] | Some (sg, ds) \<Rightarrow> lit_marker l # sg @ ds)"

definition lit_prefix :: "literal \<Rightarrow> string" where
  "lit_prefix l = (if lit_hex l then if lit_upper_x l then ''0X'' else ''0x'' else [])"

definition lit_unsigned :: "literal \<Rightarrow> string" where
  "lit_unsigned l = lit_prefix l @ lit_significand l @ lit_exponent l"

definition lit_text :: "literal \<Rightarrow> string" where
  "lit_text l = lit_sign l @ lit_unsigned l"

definition lit_ok :: "literal \<Rightarrow> bool" where
  "lit_ok l \<longleftrightarrow> sign_text (lit_sign l) \<and> digits_in (lit_base l) (lit_digits l) \<and> lit_digits l \<noteq> []
     \<and> (lit_hex l \<longrightarrow> lit_exp l \<noteq> None)
     \<and> (case lit_exp l of None \<Rightarrow> True | Some (sg, ds) \<Rightarrow> sign_text sg \<and> digits_in 10 ds \<and> ds \<noteq> [])"

definition lit_negative :: "literal \<Rightarrow> bool" where
  "lit_negative l \<longleftrightarrow> lit_sign l = ''-''"

definition lit_exponent_val :: "literal \<Rightarrow> int" where
  "lit_exponent_val l =
     (case lit_exp l of None \<Rightarrow> 0 | Some (sg, ds) \<Rightarrow> text_sign sg (min exponent_limit (int (digits_val 10 ds))))"

definition lit_number :: "literal \<Rightarrow> nat" where
  "lit_number l = digits_val (lit_base l) (lit_digits l)"

text \<open>Searching in strings.\<close>

lemma find_from_Some: "\<forall>c \<in> set s. \<not> P c \<Longrightarrow> P c \<Longrightarrow> find_from P 0 (s @ c # t) = Some (length s)"
  by (simp add: find_from_def)

lemma find_from_None:
  assumes "\<forall>c \<in> set s. \<not> P c"
  shows "find_from P n s = None"
proof -
  have "takeWhile (\<lambda>c. \<not> P c) (drop n s) = drop n s"
    using assms by (auto simp: takeWhile_eq_all_conv dest: in_set_dropD)
  then have "length (takeWhile (\<lambda>c. \<not> P c) (drop n s)) = length s - n"
    by (simp only: length_drop)
  then show ?thesis
    unfolding find_from_def Let_def by simp
qed

lemma find_from_Suc: "find_from P (Suc n) (c # s) = map_option Suc (find_from P n s)"
  by (simp add: find_from_def Let_def)

lemma find_from_append: "find_from P (length s) (s @ t) = map_option ((+) (length s)) (find_from P 0 t)"
  by (simp add: find_from_def Let_def)

text \<open>Characters that no digit string holds.\<close>

lemma code_tolower: "code (tolower c) = (if 65 \<le> code c \<and> code c \<le> 90 then code c + 32 else code c)"
  by (simp add: tolower_def of_char_of)

lemma digit_codes:
  "0 \<le> digit_value c base \<Longrightarrow> 48 \<le> code c \<and> code c \<le> 57
     \<or> base \<noteq> 10 \<and> (97 \<le> code c \<and> code c \<le> 102 \<or> 65 \<le> code c \<and> code c \<le> 70)"
  by (auto simp: digit_value_def Let_def split: if_splits)

lemma digit_chars:
  assumes "0 \<le> digit_value c base"
  shows "c \<noteq> CHR ''.''" "c \<noteq> CHR ''p''" "c \<noteq> CHR ''P''" "c \<noteq> CHR ''x''" "c \<noteq> CHR ''X''" "c \<noteq> CHR 0x27" "c \<noteq> CHR '')''"
    "c \<noteq> CHR ''i''" "c \<noteq> CHR ''I''" "c \<noteq> CHR ''j''" "c \<noteq> CHR ''J''"
    "tolower c \<noteq> CHR ''i''" "tolower c \<noteq> CHR ''n''" "c \<noteq> CHR ''l''" "c \<noteq> CHR ''L''"
    "base = 10 \<Longrightarrow> c \<noteq> CHR ''e''" "base = 10 \<Longrightarrow> c \<noteq> CHR ''E''" "base = 10 \<Longrightarrow> c \<noteq> CHR ''f''" "base = 10 \<Longrightarrow> c \<noteq> CHR ''F''"
proof -
  have "code (tolower c) \<noteq> 105" "code (tolower c) \<noteq> 110"
    using digit_codes [OF assms] by (auto simp: code_tolower)
  then show "tolower c \<noteq> CHR ''i''" "tolower c \<noteq> CHR ''n''"
    by auto
qed (use digit_codes [OF assms] in auto)

lemma digits_avoid:
  assumes "digits_in base s"
  shows "\<forall>c \<in> set s. c \<noteq> CHR ''.''" "\<forall>c \<in> set s. \<not> (c = CHR ''p'' \<or> c = CHR ''P'')"
    "base = 10 \<Longrightarrow> \<forall>c \<in> set s. \<not> (c = CHR ''e'' \<or> c = CHR ''E'')"
  using assms unfolding digits_in_def by (metis digit_chars(1), metis digit_chars(2,3), metis digit_chars(16,17))

text \<open>The significand of a literal: its point, its digits, and the characters it avoids.\<close>

lemma significand_point:
  assumes "digits_in base (lit_digits l)"
  defines "point \<equiv> find_from (\<lambda>c. c = CHR ''.'') 0 (lit_significand l)"
  shows "(case point of None \<Rightarrow> False
      | Some i \<Rightarrow> find_from (\<lambda>c. c = CHR ''.'') (i + 1) (lit_significand l) \<noteq> None) = False"
    and "(case point of None \<Rightarrow> 0 | Some i \<Rightarrow> length (lit_significand l) - i - 1) = length (lit_fraction l)"
    and "(case point of None \<Rightarrow> lit_significand l
      | Some i \<Rightarrow> take i (lit_significand l) @ drop (i + 1) (lit_significand l)) = lit_digits l"
proof -
  have av: "\<forall>c \<in> set (lit_int l). c \<noteq> CHR ''.''" "\<forall>c \<in> set (lit_fraction l). c \<noteq> CHR ''.''"
    using assms(1) digits_avoid(1) by (auto simp: lit_digits_def)
  have "point = (case lit_frac l of None \<Rightarrow> None | Some f \<Rightarrow> Some (length (lit_int l)))"
    using av find_from_Some [of "lit_int l" "\<lambda>c. c = CHR ''.''"] find_from_None [of "lit_int l" "\<lambda>c. c = CHR ''.''"]
    by (simp add: point_def lit_significand_def split: option.split)
  moreover have "find_from (\<lambda>c. c = CHR ''.'') (Suc (length (lit_int l))) (lit_int l @ CHR ''.'' # lit_fraction l) = None"
    using av(2) find_from_append [of "\<lambda>c. c = CHR ''.''" "lit_int l @ ''.''" "lit_fraction l"]
      find_from_None [of "lit_fraction l" "\<lambda>c. c = CHR ''.''" 0] by simp
  ultimately show "(case point of None \<Rightarrow> False
      | Some i \<Rightarrow> find_from (\<lambda>c. c = CHR ''.'') (i + 1) (lit_significand l) \<noteq> None) = False"
    and "(case point of None \<Rightarrow> 0 | Some i \<Rightarrow> length (lit_significand l) - i - 1) = length (lit_fraction l)"
    and "(case point of None \<Rightarrow> lit_significand l
      | Some i \<Rightarrow> take i (lit_significand l) @ drop (i + 1) (lit_significand l)) = lit_digits l"
    by (simp_all add: lit_significand_def lit_digits_def lit_fraction_def split: option.splits)
qed

lemma significand_chars:
  assumes "digits_in base (lit_digits l)" "c \<in> set (lit_significand l)"
  shows "0 \<le> digit_value c base \<or> c = CHR ''.''"
  using assms
  by (auto simp: lit_significand_def lit_digits_def lit_fraction_def digits_in_def split: option.splits)

lemma significand_nonempty: "lit_digits l \<noteq> [] \<Longrightarrow> lit_significand l \<noteq> []"
  by (auto simp: lit_digits_def lit_significand_def lit_fraction_def split: option.splits)

lemma significand_avoid:
  assumes "digits_in base (lit_digits l)"
  shows "\<forall>c \<in> set (lit_significand l). \<not> (c = CHR ''p'' \<or> c = CHR ''P'')"
    "base = 10 \<Longrightarrow> \<forall>c \<in> set (lit_significand l). \<not> (c = CHR ''e'' \<or> c = CHR ''E'')"
    "\<forall>c \<in> set (lit_significand l). c \<noteq> CHR ''x'' \<and> c \<noteq> CHR ''X''"
proof -
  have "P c" if "c \<in> set (lit_significand l)" "\<And>c. 0 \<le> digit_value c base \<Longrightarrow> P c" "P CHR ''.''" for P c
    using significand_chars [OF assms that(1)] that(2,3) by blast
  from this [of _ "\<lambda>c. c \<noteq> CHR ''p'' \<and> c \<noteq> CHR ''P''"] this [of _ "\<lambda>c. c \<noteq> CHR ''e'' \<and> c \<noteq> CHR ''E''"]
    this [of _ "\<lambda>c. c \<noteq> CHR ''x'' \<and> c \<noteq> CHR ''X''"]
  show "\<forall>c \<in> set (lit_significand l). \<not> (c = CHR ''p'' \<or> c = CHR ''P'')"
    "base = 10 \<Longrightarrow> \<forall>c \<in> set (lit_significand l). \<not> (c = CHR ''e'' \<or> c = CHR ''E'')"
    "\<forall>c \<in> set (lit_significand l). c \<noteq> CHR ''x'' \<and> c \<noteq> CHR ''X''"
    using digit_chars(2,3,4,5,16,17) by auto
qed

lemma unsigned_split:
  assumes "lit_ok l"
  defines "hex \<equiv> lit_hex l" and "s \<equiv> lit_unsigned l"
  shows "(2 \<le> length s \<and> s ! 0 = CHR ''0'' \<and> (s ! 1 = CHR ''x'' \<or> s ! 1 = CHR ''X'')) = hex"
    and "(if hex then find_from (\<lambda>c. c = CHR ''p'' \<or> c = CHR ''P'') 2 s
          else find_from (\<lambda>c. c = CHR ''e'' \<or> c = CHR ''E'') 0 s)
       = (case lit_exp l of None \<Rightarrow> None
          | Some _ \<Rightarrow> Some ((if hex then 2 else 0) + length (lit_significand l)))"
proof -
  have dig: "digits_in (lit_base l) (lit_digits l)" and ne: "lit_significand l \<noteq> []"
    and e: "hex \<Longrightarrow> lit_exp l \<noteq> None"
    using assms(1) significand_nonempty by (auto simp: lit_ok_def hex_def)
  note av = significand_avoid [OF dig]
  show "(2 \<le> length s \<and> s ! 0 = CHR ''0'' \<and> (s ! 1 = CHR ''x'' \<or> s ! 1 = CHR ''X'')) = hex"
  proof (cases hex)
    case False
    have s: "s = lit_significand l @ lit_exponent l"
      using False by (simp add: s_def lit_unsigned_def lit_prefix_def hex_def)
    have "s ! 1 \<noteq> CHR ''x'' \<and> s ! 1 \<noteq> CHR ''X''" if "2 \<le> length s"
    proof (cases "2 \<le> length (lit_significand l)")
      case True
      then have "s ! 1 \<in> set (lit_significand l)"
        by (simp add: s nth_append)
      then show ?thesis
        using av(3) by blast
    next
      case False
      then have "length (lit_significand l) = 1"
        using ne length_greater_0_conv [of "lit_significand l"] by linarith
      then show ?thesis
        using that \<open>\<not> hex\<close> by (auto simp: s nth_append lit_exponent_def lit_marker_def hex_def split: option.splits prod.splits)
    qed
    then show ?thesis
      using False by blast
  qed (auto simp: s_def lit_unsigned_def lit_prefix_def hex_def)
  show "(if hex then find_from (\<lambda>c. c = CHR ''p'' \<or> c = CHR ''P'') 2 s
          else find_from (\<lambda>c. c = CHR ''e'' \<or> c = CHR ''E'') 0 s)
       = (case lit_exp l of None \<Rightarrow> None
          | Some _ \<Rightarrow> Some ((if hex then 2 else 0) + length (lit_significand l)))"
  proof (cases hex)
    case True
    then obtain sg ds where "lit_exp l = Some (sg, ds)"
      using e by auto
    then have "s = lit_prefix l @ lit_significand l @ lit_marker l # sg @ ds"
      by (simp add: s_def lit_unsigned_def lit_exponent_def)
    moreover have "length (lit_prefix l) = 2" "lit_marker l = CHR ''p'' \<or> lit_marker l = CHR ''P''"
      using True by (simp_all add: hex_def lit_prefix_def lit_marker_def)
    ultimately have "find_from (\<lambda>c. c = CHR ''p'' \<or> c = CHR ''P'') 2 s = Some (2 + length (lit_significand l))"
      using find_from_append [of "\<lambda>c. c = CHR ''p'' \<or> c = CHR ''P''" "lit_prefix l" "lit_significand l @ lit_marker l # sg @ ds"]
        find_from_Some [of "lit_significand l" "\<lambda>c. c = CHR ''p'' \<or> c = CHR ''P''" "lit_marker l" "sg @ ds"] av(1)
      by simp
    then show ?thesis
      using True \<open>lit_exp l = Some (sg, ds)\<close> by simp
  next
    case False
    then have b: "lit_base l = 10" and s: "s = lit_significand l @ lit_exponent l"
      and m: "lit_marker l = CHR ''e'' \<or> lit_marker l = CHR ''E''"
      by (simp_all add: hex_def s_def lit_unsigned_def lit_base_def lit_prefix_def lit_marker_def)
    show ?thesis
      using False av(2) [OF b] m find_from_Some [of "lit_significand l" "\<lambda>c. c = CHR ''e'' \<or> c = CHR ''E''" "lit_marker l"]
        find_from_None [of "lit_significand l" "\<lambda>c. c = CHR ''e'' \<or> c = CHR ''E''" 0]
      by (cases "lit_exp l") (auto simp: s hex_def lit_exponent_def)
  qed
qed

text \<open>A literal reaches the last part of \<open>parse\<close> with its digits, fraction length and exponent.\<close>

lemma parse_unsigned_literal:
  assumes "lit_ok l"
  obtains sig where "bnorm sig" "bval sig = lit_number l"
    "\<And>neg. parse_unsigned neg (lit_unsigned l) format control
      = parse_number (lit_hex l) neg sig (length (lit_digits l)) (length (lit_fraction l)) (lit_exponent_val l) format control"
proof -
  have dig: "digits_in (lit_base l) (lit_digits l)" "lit_digits l \<noteq> []"
    using assms by (simp_all add: lit_ok_def)
  obtain sig where sig: "parse_big_digits (lit_digits l) (lit_base l) = Some sig" "bnorm sig" "bval sig = lit_number l"
    using parse_big_digits_val(1) [OF dig] by (auto simp: lit_number_def)
  have sg: "parse_significand (lit_hex l) neg (lit_significand l) k format control
      = parse_number (lit_hex l) neg sig (length (lit_digits l)) (length (lit_fraction l)) k format control" for neg k
    unfolding parse_significand_def Let_def significand_point [OF dig(1)]
    using sig(1) by (simp add: lit_base_def)
  let ?i = "(if lit_hex l then 2 else 0) + length (lit_significand l)"
  have parts: "drop (Suc ?i) (lit_unsigned l) = sg @ ds" "take ?i (lit_unsigned l) = lit_prefix l @ lit_significand l"
    if "lit_exp l = Some (sg, ds)" for sg ds
    using that by (simp_all add: lit_unsigned_def lit_exponent_def lit_prefix_def)
  have ex: "(if sg @ ds = [] then Some 0 else parse_exponent (sg @ ds)) = Some (lit_exponent_val l)" "sg @ ds \<noteq> []"
    if "lit_exp l = Some (sg, ds)" for sg ds
    using parse_exponent_val [of sg ds] assms that by (auto simp: lit_ok_def lit_exponent_val_def)
  have "parse_unsigned neg (lit_unsigned l) format control
      = parse_number (lit_hex l) neg sig (length (lit_digits l)) (length (lit_fraction l)) (lit_exponent_val l) format control" for neg
  proof (cases "lit_exp l")
    case None
    have h: "\<not> lit_hex l"
      using assms None by (auto simp: lit_ok_def)
    then have "lit_unsigned l = lit_significand l"
      using None by (simp add: lit_unsigned_def lit_exponent_def lit_prefix_def)
    then show ?thesis
      unfolding parse_unsigned_def Let_def unsigned_split [OF assms]
      using None h sg by (simp add: lit_exponent_val_def)
  next
    case (Some p)
    obtain sg ds where p: "lit_exp l = Some (sg, ds)"
      using Some by (cases p) auto
    show ?thesis
      unfolding parse_unsigned_def Let_def unsigned_split [OF assms] p option.case Suc_eq_plus1 [symmetric]
        parts [OF p] ex(1) [OF p]
      using ex(2) [OF p] sg by (cases "lit_hex l") (auto simp: lit_prefix_def)
  qed
  then show thesis
    using that sig by blast
qed

text \<open>\<open>normalize_spelling\<close> leaves a literal alone: it holds no digit separator, ends in a decimal
  digit or the point, and ends in none of the type suffixes.\<close>

definition plain_end :: "string \<Rightarrow> bool" where
  "plain_end s \<longleftrightarrow> s \<noteq> [] \<and> (0 \<le> digit_value (last s) 10 \<or> last s = CHR ''.'' \<or> last s = CHR '')'')"

lemma ends_with_subset: "ends_with s t \<Longrightarrow> set t \<subseteq> set s"
  unfolding ends_with_def by (metis set_drop_subset)

lemma ends_with_tail:
  assumes "ends_with (s @ c # e) t" "c \<notin> set t"
  shows "ends_with e t"
proof (cases "length t \<le> length e")
  case True
  then show ?thesis
    using assms(1) by (simp add: ends_with_def Suc_diff_le)
next
  case False
  have "drop (length s + Suc (length e) - length t) s @ c # e = t"
    using assms(1) False by (simp add: ends_with_def drop_append)
  then have "c \<in> set t"
    by (metis in_set_conv_decomp)
  then show ?thesis
    using assms(2) by blast
qed

lemma suffixes_chars: "t \<in> set suffixes \<Longrightarrow> CHR ''f'' \<in> set t \<or> CHR ''F'' \<in> set t"
  "t \<in> set suffixes \<Longrightarrow> c \<in> {CHR ''e'', CHR ''E'', CHR ''p'', CHR ''P'', CHR '')''} \<Longrightarrow> c \<notin> set t"
  by (auto simp: suffixes_def)

lemma strip_suffix_id:
  assumes "plain_end s" "\<And>t. t \<in> set suffixes \<Longrightarrow> \<not> ends_with s t"
  shows "strip_suffix s = s"
proof -
  have "find (\<lambda>t. length t < length s \<and> ends_with s t) suffixes = None"
    using assms(2) by (auto simp: find_None_iff)
  moreover have "last s \<notin> {CHR ''f'', CHR ''F'', CHR ''l'', CHR ''L''}"
    using assms(1) digit_chars(14,15,18,19) [of "last s" 10] by (auto simp: plain_end_def)
  ultimately show ?thesis
    by (simp add: strip_suffix_def)
qed

lemma normalize_spelling_id:
  assumes "plain_end s" "CHR 0x27 \<notin> set s" "\<And>t. t \<in> set suffixes \<Longrightarrow> \<not> ends_with s t"
  shows "normalize_spelling s = s"
proof -
  have "filter (\<lambda>c. c \<noteq> CHR 0x27) s = s"
    using assms(2) by (auto simp: filter_id_conv)
  moreover have "last s \<notin> {CHR ''i'', CHR ''I'', CHR ''j'', CHR ''J''}"
    using assms(1) digit_chars(8-11) [of "last s" 10] by (auto simp: plain_end_def)
  ultimately show ?thesis
    using strip_suffix_id [OF assms(1,3)] by (simp add: normalize_spelling_def Let_def)
qed

lemma case_equal_hd: "case_equal s (c # t) \<Longrightarrow> s \<noteq> [] \<and> tolower (hd s) = tolower c"
  by (cases s) (auto simp: case_equal_def)

text \<open>A spelling whose first character after the sign is neither a sign nor starts a word.\<close>

lemma parse_signed:
  assumes "descriptor f \<noteq> None" "sign_text sg" "normalize_spelling (sg @ s) = sg @ s" "s \<noteq> []"
    and "\<not> is_sign (hd s)" "tolower (hd s) \<noteq> CHR ''i''" "tolower (hd s) \<noteq> CHR ''n''"
  shows "parse (sg @ s) f control = parse_unsigned (sg = ''-'') s f control"
proof -
  have "\<not> case_equal s ''inf''" "\<not> case_equal s ''infinity''" "\<not> case_equal s ''nan''" "\<not> is_nan_payload_form s"
    using case_equal_hd [of s] assms(4,6,7)
    by (auto simp: tolower_def is_nan_payload_form_def hd_conv_nth)
  moreover have "(sg @ s \<noteq> [] \<and> hd (sg @ s) = CHR ''-'') = (sg = ''-'')"
    "(if sg @ s \<noteq> [] \<and> is_sign (hd (sg @ s)) then tl (sg @ s) else sg @ s) = s"
    using assms(2,4,5) by (auto simp: sign_text_def is_sign_def)
  ultimately show ?thesis
    unfolding parse_def assms(3) Let_def using assms(1) by simp
qed

lemma sign_chars: "sign_text sg \<Longrightarrow> c \<in> set sg \<Longrightarrow> c = CHR ''+'' \<or> c = CHR ''-''"
  by (auto simp: sign_text_def)

lemma unsigned_ends:
  assumes "lit_ok l"
  shows "lit_unsigned l \<noteq> []" "plain_end (lit_unsigned l)" "\<not> is_sign (hd (lit_unsigned l))"
    "tolower (hd (lit_unsigned l)) \<noteq> CHR ''i''" "tolower (hd (lit_unsigned l)) \<noteq> CHR ''n''"
proof -
  let ?s = "lit_significand l"
  have dig: "digits_in (lit_base l) (lit_digits l)" and ne: "?s \<noteq> []"
    using assms significand_nonempty by (auto simp: lit_ok_def)
  have ch: "0 \<le> digit_value c (lit_base l) \<or> c = CHR ''.''" if "c \<in> set ?s" for c
    using significand_chars [OF dig that] .
  show u: "lit_unsigned l \<noteq> []"
    using ne by (simp add: lit_unsigned_def)
  have "hd (lit_unsigned l) = CHR ''0'' \<or> hd (lit_unsigned l) \<in> set ?s"
    using ne by (simp add: lit_unsigned_def lit_prefix_def)
  then show "\<not> is_sign (hd (lit_unsigned l))" "tolower (hd (lit_unsigned l)) \<noteq> CHR ''i''"
      "tolower (hd (lit_unsigned l)) \<noteq> CHR ''n''"
    using ch [of "hd (lit_unsigned l)"] digit_chars(12,13) [of "hd (lit_unsigned l)" "lit_base l"]
      digit_not_sign(1) [of "hd (lit_unsigned l)" "lit_base l"]
    by (auto simp: tolower_def is_sign_def)
  show "plain_end (lit_unsigned l)"
  proof (cases "lit_exp l")
    case None
    then have "\<not> lit_hex l"
      using assms by (auto simp: lit_ok_def)
    then have "lit_unsigned l = ?s" "lit_base l = 10"
      using None by (simp_all add: lit_unsigned_def lit_exponent_def lit_base_def lit_prefix_def)
    then show ?thesis
      using ch [of "last ?s"] ne by (auto simp: plain_end_def)
  next
    case (Some p)
    obtain sg ds where p: "lit_exp l = Some (sg, ds)"
      using Some by (cases p) auto
    then have "digits_in 10 ds" "ds \<noteq> []"
      using assms by (auto simp: lit_ok_def)
    then show ?thesis
      using p by (simp add: plain_end_def lit_unsigned_def lit_exponent_def digits_in_def)
  qed
qed

lemma digits_no_separator: "digits_in base s \<Longrightarrow> CHR 0x27 \<notin> set s"
  using digit_chars(6) by (auto simp: digits_in_def)

lemma literal_chars:
  assumes "lit_ok l" and c: "c \<in> {CHR 0x27, CHR '')''}"
  shows "c \<notin> set (lit_text l)"
proof -
  have digits: "c \<notin> set s" if "digits_in base s" for base s
    using that c digit_chars(6,7) [of c base] by (auto simp: digits_in_def)
  have sg: "c \<notin> set sg" if "sign_text sg" for sg
    using sign_chars [OF that] c by auto
  have "c \<notin> set (lit_significand l)"
    using assms significand_chars [of "lit_base l" l c] digit_chars(6,7) [of c "lit_base l"] by (auto simp: lit_ok_def)
  moreover have "c \<notin> set (lit_exponent l)"
    using assms digits [of 10] sg by (auto simp: lit_ok_def lit_exponent_def lit_marker_def split: option.splits)
  ultimately show ?thesis
    using sg assms by (auto simp: lit_text_def lit_unsigned_def lit_prefix_def lit_ok_def)
qed

lemma literal_no_separator: "lit_ok l \<Longrightarrow> CHR 0x27 \<notin> set (lit_text l)"
  by (rule literal_chars) simp_all

lemma literal_suffix:
  assumes "lit_ok l" "t \<in> set suffixes"
  shows "\<not> ends_with (lit_text l) t"
proof
  assume e: "ends_with (lit_text l) t"
  have no_letter: False if "ends_with u t" "\<And>c. c \<in> set u \<Longrightarrow> 0 \<le> digit_value c 10 \<or> c = CHR ''.'' \<or> c = CHR ''+'' \<or> c = CHR ''-''" for u
    using ends_with_subset [OF that(1)] suffixes_chars(1) [OF assms(2)] that(2) [of "CHR ''f''"] that(2) [of "CHR ''F''"]
      digit_chars(18,19) [of _ 10] by auto
  show False
  proof (cases "lit_exp l")
    case None
    then have h: "\<not> lit_hex l" "lit_base l = 10"
      using assms by (auto simp: lit_ok_def lit_base_def)
    then have "lit_text l = lit_sign l @ lit_significand l"
      using None by (simp add: lit_text_def lit_unsigned_def lit_exponent_def lit_prefix_def)
    then show ?thesis
      using no_letter [OF e] significand_chars [of 10 l] sign_chars [of "lit_sign l"] assms(1) h(2)
      by (auto simp: lit_ok_def)
  next
    case (Some p)
    obtain sg ds where p: "lit_exp l = Some (sg, ds)"
      using Some by (cases p) auto
    define a where "a = lit_sign l @ lit_prefix l @ lit_significand l"
    have "lit_text l = a @ lit_marker l # sg @ ds"
      using p by (simp add: a_def lit_text_def lit_unsigned_def lit_exponent_def)
    moreover have "lit_marker l \<notin> set t"
      by (rule suffixes_chars(2) [OF assms(2)]) (simp add: lit_marker_def)
    ultimately have "ends_with (sg @ ds) t"
      using ends_with_tail e by metis
    then show ?thesis
      by (rule no_letter) (use assms(1) p sign_chars [of sg] in \<open>auto simp: lit_ok_def digits_in_def\<close>)
  qed
qed

section \<open>Spellings\<close>

text \<open>
  A literal as it is spelled in a source: digit separators anywhere, a suffix for the type, and
  a suffix for an imaginary number.
\<close>

definition type_suffixes :: "string set" where
  "type_suffixes =
     {[], ''f'', ''F'', ''l'', ''L'', ''f16'', ''F16'', ''f32'', ''F32'', ''f64'', ''F64'', ''f128'', ''F128'', ''bf16'', ''BF16''}"

definition imaginary_suffixes :: "string set" where
  "imaginary_suffixes = {[], ''i'', ''I'', ''j'', ''J''}"

definition spelled :: "literal \<Rightarrow> string \<Rightarrow> bool" where
  "spelled l s \<longleftrightarrow>
     (\<exists>suffix \<in> type_suffixes. \<exists>imaginary \<in> imaginary_suffixes.
        filter (\<lambda>c. c \<noteq> CHR 0x27) s = lit_text l @ suffix @ imaginary)"

lemma ends_with_rev: "ends_with s t \<longleftrightarrow> take (length t) (rev s) = rev t"
proof -
  have "take (length t) (rev s) = rev (drop (length s - length t) s)"
    by (rule take_rev)
  moreover have "length t \<le> length s" if "drop (length s - length t) s = t"
    using arg_cong [OF that, of length] by simp
  ultimately show ?thesis
    by (auto simp: ends_with_def)
qed

lemma strip_type_suffix:
  assumes plain: "plain_end s" "last s \<noteq> CHR '')''" and id: "\<And>t. t \<in> set suffixes \<Longrightarrow> \<not> ends_with s t" and t: "t \<in> type_suffixes"
  shows "strip_suffix (s @ t) = s"
proof (cases "t = []")
  case True
  then show ?thesis
    using strip_suffix_id [OF plain(1) id] by simp
next
  case False
  obtain xs c where s: "s = xs @ [c]"
    using plain(1) by (cases s rule: rev_cases) (auto simp: plain_end_def)
  have c: "c \<noteq> CHR ''b''" "c \<noteq> CHR ''B''"
    using plain digit_codes [of c 10] by (auto simp: s plain_end_def)
  show ?thesis
    using t False c unfolding type_suffixes_def s
    by (elim insertE emptyE) (simp_all add: strip_suffix_def suffixes_def ends_with_rev butlast_append)
qed

lemma literal_plain:
  assumes "lit_ok l"
  shows "plain_end (lit_text l)" "last (lit_text l) \<noteq> CHR '')''"
proof -
  show "plain_end (lit_text l)"
    using unsigned_ends(1,2) [OF assms] by (simp add: plain_end_def lit_text_def)
  have "CHR '')'' \<notin> set (lit_text l)"
    by (rule literal_chars [OF assms]) simp
  moreover have "lit_text l \<noteq> []"
    using unsigned_ends(1) [OF assms] by (simp add: lit_text_def)
  ultimately show "last (lit_text l) \<noteq> CHR '')''"
    by (metis last_in_set)
qed

lemma literal_not_word:
  assumes "lit_ok l" "w \<in> {''inf'', ''infinity'', ''nan''}" and u_def: "u = lit_text l @ t"
  shows "\<not> case_equal (if u \<noteq> [] \<and> is_sign (hd u) then tl u else u) w"
proof -
  have "(if u \<noteq> [] \<and> is_sign (hd u) then tl u else u) = lit_unsigned l @ t"
    using assms(1) unsigned_ends(1,3) [OF assms(1)] by (auto simp: u_def lit_text_def lit_ok_def sign_text_def is_sign_def)
  then show ?thesis
    using case_equal_hd [of "lit_unsigned l @ t"] unsigned_ends(1,4,5) [OF assms(1)] assms(2) by (auto simp: tolower_def)
qed

lemma normalize_spelled:
  assumes "lit_ok l" "spelled l s"
  shows "normalize_spelling s = lit_text l"
proof -
  obtain t im where t: "t \<in> type_suffixes" "im \<in> imaginary_suffixes" and s: "filter (\<lambda>c. c \<noteq> CHR 0x27) s = lit_text l @ t @ im"
    using assms(2) by (auto simp: spelled_def)
  let ?u = "lit_text l @ t" and ?j = "{CHR ''i'', CHR ''I'', CHR ''j'', CHR ''J''}"
  have ne: "?u \<noteq> []" and "last (lit_text l) \<notin> ?j"
    using literal_plain [OF assms(1)] digit_chars(8-11) [of "last (lit_text l)" 10] by (auto simp: plain_end_def)
  then have "last ?u \<notin> ?j"
    using t(1) by (auto simp: type_suffixes_def)
  then have "(if ?u @ im \<noteq> [] \<and> last (?u @ im) \<in> ?j then butlast (?u @ im) else ?u @ im) = ?u"
    using t(2) ne by (auto simp: imaginary_suffixes_def butlast_append)
  moreover have "strip_suffix ?u = lit_text l"
    by (rule strip_type_suffix [OF literal_plain [OF assms(1)] literal_suffix [OF assms(1)] t(1)])
  moreover have "(case_equal (if ?u \<noteq> [] \<and> is_sign (hd ?u) then tl ?u else ?u) ''inf''
      \<or> case_equal (if ?u \<noteq> [] \<and> is_sign (hd ?u) then tl ?u else ?u) ''infinity''
      \<or> case_equal (if ?u \<noteq> [] \<and> is_sign (hd ?u) then tl ?u else ?u) ''nan'') = False"
    using literal_not_word [OF assms(1) _ refl, of _ t] by blast
  ultimately show ?thesis
    unfolding normalize_spelling_def Let_def s append_assoc [symmetric] by (simp only: if_False)
qed

lemma parse_spelled:
  assumes "lit_ok l" "descriptor f \<noteq> None" "spelled l s"
  shows "parse s f control = parse_unsigned (lit_negative l) (lit_unsigned l) f control"
proof -
  have "normalize_spelling (lit_text l) = lit_text l" "normalize_spelling s = normalize_spelling (lit_text l)"
    using literal_plain(1) literal_no_separator literal_suffix normalize_spelled assms
    by (simp_all add: normalize_spelling_id)
  then show ?thesis
    using parse_signed [of f "lit_sign l" "lit_unsigned l" control] unsigned_ends [OF assms(1)] assms(1,2)
    by (simp add: parse_def lit_text_def lit_negative_def lit_ok_def)
qed

lemma spelled_text: "lit_ok l \<Longrightarrow> spelled l (lit_text l)"
proof -
  assume "lit_ok l"
  then have "filter (\<lambda>c. c \<noteq> CHR 0x27) (lit_text l) = lit_text l @ [] @ []"
    using literal_no_separator [of l] by (auto simp: filter_id_conv)
  moreover have "[] \<in> type_suffixes" "[] \<in> imaginary_suffixes"
    by (simp_all add: type_suffixes_def imaginary_suffixes_def)
  ultimately show ?thesis
    unfolding spelled_def by blast
qed

lemma parse_literal:
  assumes "lit_ok l" "descriptor f \<noteq> None"
  shows "parse (lit_text l) f control = parse_unsigned (lit_negative l) (lit_unsigned l) f control"
  by (rule parse_spelled [OF assms spelled_text [OF assms(1)]])

end
