(* ===== verification/Float_Parse_Correct.thy ===== *)
theory Float_Parse_Correct
  imports Float_Text_Correct
begin

text \<open>
  Correctness of \<open>parse\<close>, \<open>hex_display\<close> and \<open>display\<close> as operations on values: a literal is its
  exact number rounded once, and the two spellings of a value parse back to it.
\<close>

section \<open>The number of a literal\<close>

text \<open>\<open>lit_value\<close> is the exact number; its exponent is the one written, before the limit
  \<open>parse_exponent\<close> puts on it. \<open>lit_in_range\<close> says that this limit is not reached and that a
  decimal literal does not begin with a zero unless its exponent is moderate: the short cut of
  \<open>parse\<close> counts leading zeros as digits.\<close>

definition lit_true_exponent :: "literal \<Rightarrow> int" where
  "lit_true_exponent l =
     (case lit_exp l of None \<Rightarrow> 0 | Some (sg, ds) \<Rightarrow> text_sign sg (int (digits_val 10 ds)))"

definition lit_value :: "literal \<Rightarrow> real" where
  "lit_value l =
     real (lit_number l)
     * (if lit_hex l then 2 powi (lit_true_exponent l - 4 * int (length (lit_fraction l)))
        else 10 powi (lit_true_exponent l - int (length (lit_fraction l))))"

definition lit_in_range :: "literal \<Rightarrow> bool" where
  "lit_in_range l \<longleftrightarrow> \<bar>lit_true_exponent l\<bar> \<le> exponent_limit
     \<and> (lit_hex l \<or> hd (lit_digits l) \<noteq> CHR ''0''
        \<or> int (length (lit_digits l)) + lit_true_exponent l - int (length (lit_fraction l)) \<le> 6001)"

lemma lit_exponent_val_eq: "\<bar>lit_true_exponent l\<bar> \<le> exponent_limit \<Longrightarrow> lit_exponent_val l = lit_true_exponent l"
  by (auto simp: lit_exponent_val_def lit_true_exponent_def text_sign_def split: option.splits if_splits)

lemma power_of_five_val: "bval (power_of_five n) = 5 ^ n" "bnorm (power_of_five n)"
proof -
  have "bval (power_of_five n) = 5 ^ n \<and> bnorm (power_of_five n)"
    by (induction n) (simp_all add: power_of_five_def big_val big_wf)
  then show "bval (power_of_five n) = 5 ^ n" "bnorm (power_of_five n)"
    by blast+
qed

lemma digits_val_lower:
  assumes "digits_in 10 s" "s \<noteq> []" "hd s \<noteq> CHR ''0''"
  shows "10 ^ (length s - 1) \<le> digits_val 10 s"
proof (cases s)
  case (Cons c t)
  have "code c \<noteq> code CHR ''0''"
    using assms(3) Cons by (simp only: of_char_eq_iff list.sel simp_thms)
  then have "0 < nat (digit_value c 10)"
    using assms(1) Cons by (auto simp: digit_value_def Let_def split: if_splits)
  then have "1 * 10 ^ length t \<le> nat (digit_value c 10) * 10 ^ length t"
    by (intro mult_le_mono1) simp
  also have "\<dots> \<le> digits_val 10 s"
    using digits_val_append [of 10 "[c]" t] Cons by simp
  finally show ?thesis
    using Cons by simp
qed (use assms in simp)

lemma format_exponents:
  "descriptor f = Some d \<Longrightarrow> max_normal_exponent d \<le> 16383 \<and> - 16494 \<le> qmin d \<and> qmax d \<le> 16383"
  by (auto simp: descriptor_def min_normal_exponent_def max_normal_exponent_def qmin_def qmax_def
      int_bits split: float_format.splits)

lemma ten_powi_ge: "0 \<le> a \<Longrightarrow> (2 :: real) powi (3 * a) \<le> 10 powi a"
proof -
  assume "0 \<le> a"
  have "(2 :: real) powi (3 * a) = 8 powi a"
    by (simp add: power_int_mult)
  also have "\<dots> \<le> 10 powi a"
    using \<open>0 \<le> a\<close> by (intro power_int_mono) auto
  finally show ?thesis .
qed

lemma ten_powi_le: "a \<le> 0 \<Longrightarrow> (10 :: real) powi a \<le> 2 powi (3 * a)"
proof -
  assume "a \<le> 0"
  then have "inverse ((10 :: real) powi (- a)) \<le> inverse (2 powi (3 * (- a)))"
    by (intro le_imp_inverse_le ten_powi_ge) auto
  then show ?thesis
    by (simp add: power_int_minus)
qed

lemma overflow_shortcut:
  assumes "descriptor f = Some d" "10 powi a \<le> x" "6000 < a"
  shows "rounded f control neg x (overflow_result f neg control)"
proof (rule overflow_rounded [OF assms(1)])
  have x: "2 powi (3 * a) \<le> x"
    using ten_powi_ge [of a] assms(2,3) by linarith
  moreover have "(0 :: real) < 2 powi (3 * a)"
    by simp
  ultimately show pos: "0 < x"
    by linarith
  have "3 * a \<le> \<lfloor>log 2 x\<rfloor>"
    using below_powi_iff [OF pos, of "3 * a"] x by linarith
  then show "max_normal_exponent d < \<lfloor>log 2 x\<rfloor>"
    using format_exponents [OF assms(1)] assms(3) by linarith
qed

lemma underflow_shortcut:
  assumes "descriptor f = Some d" "0 < x" "x \<le> 10 powi a" "a \<le> - 6000"
  shows "rounded f control neg x (tiny_nonzero_result f neg control)"
proof (rule tiny_nonzero_rounded [OF assms(1,2)])
  have "(2 :: real) powi (3 * a) < 2 powi (3 * a + 1)"
    by (subst two_powi_less [symmetric]) simp
  then have "x < 2 powi (3 * a + 1)"
    using ten_powi_le [of a] assms(3,4) by linarith
  then have "\<lfloor>log 2 x\<rfloor> < 3 * a + 1"
    using below_powi_iff [OF assms(2)] by blast
  then show "\<lfloor>log 2 x\<rfloor> < qmin d - 1"
    using format_exponents [OF assms(1)] assms(4) by linarith
qed

lemma parse_number_rounded:
  assumes d: "descriptor f = Some d" and sig: "bnorm sig" "0 < bval sig"
    and x: "x = real (bval sig) * (if hex then 2 powi (k - 4 * int n) else 10 powi (k - int n))"
    and over: "hex \<or> 10 ^ (len - 1) \<le> bval sig \<and> 0 < len \<or> int len + k - int n \<le> 6001"
    and len: "hex \<or> bval sig < 10 ^ len"
  shows "\<exists>r. rounded f control neg x r \<and> parse_number hex neg sig len n k f control = from_float_result r"
proof -
  have nz: "\<not> big_is_zero sig"
    using sig by (auto simp: big_is_zero_def)
  have one: "bnorm (big_of_u128 1)" "bval (big_of_u128 1) = 1"
    by (simp_all add: big_val big_wf)
  have ten: "(10 :: real) powi e = inverse (5 powi (- e)) * 2 powi e" for e
    by (simp add: power_int_minus flip: power_int_mult_distrib)
  let ?e = "k - int n" and ?a = "int len + (k - int n) - 1"
  have pos: "0 < x"
    using sig(2) by (simp add: x)
  consider "hex" | "\<not> hex" "6000 < ?a" | "\<not> hex" "?a < - 6000" | "\<not> hex" "\<not> 6000 < ?a" "\<not> ?a < - 6000" "0 \<le> ?e"
    | "\<not> hex" "\<not> 6000 < ?a" "\<not> ?a < - 6000" "?e < 0"
    by linarith
  then show ?thesis
  proof cases
    case 1
    then have xe: "x = real (bval sig) / real (bval (big_of_u128 1)) * 2 powi (k - int n * 4)"
      by (simp add: x one mult.commute)
    show ?thesis
      using 1 nz round_rational_rounded [OF d sig(1) one(1) sig(2) _ xe, of control neg]
      by (auto simp: parse_number_def one)
  next
    case 2
    then have "0 < len" "10 ^ (len - 1) \<le> bval sig"
      using over by auto
    then have "real (10 ^ (len - 1)) * 10 powi ?e \<le> real (bval sig) * 10 powi ?e"
      by (intro mult_right_mono) (simp_all only: of_nat_le_iff, simp)
    moreover have "10 powi ?a = real (10 ^ (len - 1)) * 10 powi ?e"
      using \<open>0 < len\<close> by (simp add: of_nat_diff algebra_simps flip: power_int_of_nat power_int_add)
    ultimately have "rounded f control neg x (overflow_result f neg control)"
      using 2 x by (intro overflow_shortcut [OF d, of ?a]) simp_all
    then show ?thesis
      using 2 nz by (auto simp: parse_number_def Let_def)
  next
    case 3
    then have "real (bval sig) * 10 powi ?e \<le> real (10 ^ len) * 10 powi ?e"
      using len by (intro mult_right_mono) (simp_all only: of_nat_le_iff, simp_all)
    also have "\<dots> = 10 powi (?a + 1)"
      by (simp flip: power_int_of_nat power_int_add)
    finally have "rounded f control neg x (tiny_nonzero_result f neg control)"
      using 3 x pos by (intro underflow_shortcut [OF d, of _ "?a + 1"]) simp_all
    then show ?thesis
      using 3 nz by (auto simp: parse_number_def Let_def)
  next
    case 4
    have xe: "x = real (bval (big_multiply sig (power_of_five (nat ?e)))) / real (bval (big_of_u128 1)) * 2 powi ?e"
      using 4 by (simp add: x big_val power_of_five_val one flip: power_int_of_nat power_int_mult_distrib)
    show ?thesis
      using 4 nz sig round_rational_rounded [OF d _ one(1) _ _ xe, of control neg]
      by (auto simp: parse_number_def Let_def big_val big_wf power_of_five_val one)
  next
    case 5
    have xe: "x = real (bval sig) / real (bval (power_of_five (nat (- ?e)))) * 2 powi ?e"
      using 5 ten [of ?e] by (simp add: x power_of_five_val divide_inverse flip: power_int_of_nat)
    show ?thesis
      using 5 nz sig round_rational_rounded [OF d sig(1) power_of_five_val(2) sig(2) _ xe, of control neg]
      by (auto simp: parse_number_def Let_def power_of_five_val)
  qed
qed

theorem parse_spelled_rounded:
  assumes ok: "lit_ok l" and d: "descriptor f = Some d" and range: "lit_in_range l" and s: "spelled l s"
  shows "if lit_number l = 0 then parse s f control = parse_value (zero f (lit_negative l))
    else \<exists>r. rounded f control (lit_negative l) (lit_value l) r \<and> parse s f control = from_float_result r"
proof -
  have dig: "digits_in (lit_base l) (lit_digits l)" "lit_digits l \<noteq> []" and base: "lit_base l \<noteq> 0"
    using ok by (auto simp: lit_ok_def lit_base_def)
  obtain sig where sig: "bnorm sig" "bval sig = lit_number l"
    and p: "\<And>neg. parse_unsigned neg (lit_unsigned l) f control
      = parse_number (lit_hex l) neg sig (length (lit_digits l)) (length (lit_fraction l)) (lit_exponent_val l) f control"
    by (rule parse_unsigned_literal [OF ok, of f control]) blast
  have e: "lit_exponent_val l = lit_true_exponent l"
    using range by (intro lit_exponent_val_eq) (simp add: lit_in_range_def)
  have parsed: "parse s f control = parse_number (lit_hex l) (lit_negative l) sig
      (length (lit_digits l)) (length (lit_fraction l)) (lit_true_exponent l) f control"
    using parse_spelled [OF ok _ s, of f control] d p e by fastforce
  show ?thesis
  proof (cases "lit_number l = 0")
    case True
    then have "sig = []"
      using sig bval_inj [of sig "[]"] by (simp add: bnorm_def)
    then show ?thesis
      using True parsed by (simp add: parse_number_def big_is_zero_def)
  next
    case False
    have "lit_hex l \<or> 10 ^ (length (lit_digits l) - 1) \<le> bval sig \<and> 0 < length (lit_digits l)
        \<or> int (length (lit_digits l)) + lit_true_exponent l - int (length (lit_fraction l)) \<le> 6001"
      using digits_val_lower [of "lit_digits l"] dig range sig(2)
      by (auto simp: lit_in_range_def lit_base_def lit_number_def)
    moreover have "lit_hex l \<or> bval sig < 10 ^ length (lit_digits l)"
      using digits_val_lt [OF base, of "lit_digits l"] sig(2) by (auto simp: lit_base_def lit_number_def)
    ultimately show ?thesis
      using parse_number_rounded [OF d sig(1) _ _, of "lit_value l" "lit_hex l" "lit_true_exponent l"
          "length (lit_fraction l)" "length (lit_digits l)" control "lit_negative l"] False sig(2) parsed
      by (simp add: lit_value_def)
  qed
qed

lemma parse_literal_rounded:
  assumes "lit_ok l" and "descriptor f = Some d" and "lit_in_range l"
  shows "if lit_number l = 0 then parse (lit_text l) f control = parse_value (zero f (lit_negative l))
    else \<exists>r. rounded f control (lit_negative l) (lit_value l) r \<and> parse (lit_text l) f control = from_float_result r"
  by (rule parse_spelled_rounded [OF assms spelled_text [OF assms(1)]])

section \<open>Round trips\<close>

text \<open>A finite value written as a hexadecimal literal.\<close>

definition hex_literal :: "float_value \<Rightarrow> string \<Rightarrow> string \<Rightarrow> literal" where
  "hex_literal v sg ds =
     \<lparr>lit_sign = (if negative (decode v) then ''-'' else []), lit_hex = True,
      lit_int = to_hex (significand (decode v)), lit_frac = None, lit_exp = Some (sg, ds), lit_upper_x = False, lit_upper_e = False\<rparr>"

lemma lit_hex_literal [simp]:
  "lit_negative (hex_literal v sg ds) = negative (decode v)"
  "lit_text (hex_literal v sg ds) =
    (if negative (decode v) then ''-0x'' else ''0x'') @ to_hex (significand (decode v)) @ ''p'' @ sg @ ds"
  by (simp_all add: hex_literal_def lit_negative_def lit_text_def lit_unsigned_def lit_significand_def lit_exponent_def lit_prefix_def lit_marker_def)

lemma hex_display_finite:
  assumes v: "is_finite_nonzero (classification (decode v))" "\<not> pseudo_denormal v"
  shows "parse (hex_display v) (semantics v) control = parse_value v"
proof -
  obtain d s e m where d: "descriptor (semantics v) = Some d" and enc: "encoded v d s e m"
    and n: "bnorm (significand (decode v))" and pos: "0 < bval (significand (decode v))" "0 < mag (decode v)"
    and fp: "finite_pair d (bval (significand (decode v))) (exponent (decode v))"
    by (rule finite_operand [OF v(1)])
  obtain sg ds where ex: "to_string (exponent (decode v)) = sg @ ds" "sign_text sg" "digits_in 10 ds" "ds \<noteq> []"
    "text_sign sg (int (digits_val 10 ds)) = exponent (decode v)"
    by (rule to_string_text)
  let ?l = "hex_literal v sg ds"
  note h = to_hex_val [OF n]
  have ok: "lit_ok ?l" and num: "lit_number ?l = bval (significand (decode v))"
    and te: "lit_true_exponent ?l = exponent (decode v)"
    using h ex
    by (simp_all add: hex_literal_def lit_ok_def lit_base_def lit_digits_def lit_fraction_def lit_number_def
        lit_true_exponent_def sign_text_def)
  have "\<bar>exponent (decode v)\<bar> \<le> exponent_limit"
    using fp format_exponents [OF d] unfolding finite_pair_def exponent_limit_def by linarith
  then have range: "lit_in_range ?l"
    using te by (simp add: lit_in_range_def hex_literal_def)
  have val: "lit_value ?l = mag (decode v)"
    using num te by (simp add: lit_value_def mag_def hex_literal_def lit_fraction_def)
  obtain r where r: "rounded (semantics v) control (negative (decode v)) (mag (decode v)) r"
    "parse (lit_text ?l) (semantics v) control = from_float_result r"
    using parse_literal_rounded [OF ok d range, of control] num pos(1) val by auto
  have "representable d (mag (decode v))"
    using fp by (auto simp: representable_def mag_def)
  then have ex': "exact_result (semantics v) (negative (decode v)) (mag (decode v)) r"
    using rounded_exact_result [OF d pos(2) _ r(1)] by blast
  have "hex_display v = lit_text ?l"
    using v(1) ex(1) by (auto simp: hex_display_def Let_def is_finite_nonzero_def is_nan_class_def)
  then show ?thesis
    using r(2) exact_result_unique [OF v ex'] ex' by (simp add: from_float_result_def parse_value_def exact_result_def)
qed

lemma normalize_words:
  "normalize_spelling ''inf'' = ''inf''" "normalize_spelling ''-inf'' = ''-inf''"
  by code_simp+

lemma parse_infinity:
  "descriptor f \<noteq> None \<Longrightarrow> parse ''inf'' f control = parse_value (infinity f False)"
  "descriptor f \<noteq> None \<Longrightarrow> parse ''-inf'' f control = parse_value (infinity f True)"
  by (simp_all add: parse_def normalize_words is_sign_def case_equal_def)

text \<open>The bit pattern is the number of the raw bits.\<close>

lemma hex_word:
  assumes "n < 16 ^ Suc k"
  shows "digits_val 16 (pad_zeros (Suc k) (radix_string 16 n)) = n" "digits_in 16 (pad_zeros (Suc k) (radix_string 16 n))"
    "length (pad_zeros (Suc k) (radix_string 16 n)) = Suc k"
  using padded_radix [of 16 n k] assms by simp_all

lemma bit_pattern_val:
  assumes "encoded v d s e m"
  shows "digits_val 16 (bit_pattern_hex v) = unat (raw_bits v)" "digits_in 16 (bit_pattern_hex v)" "bit_pattern_hex v \<noteq> []"
proof -
  have c: "canonical v" and d: "descriptor (semantics v) = Some d"
    using encoded_canonical [OF assms] assms by (simp_all add: encoded_def)
  have low: "unat (fv_low_bits v) < 16 ^ Suc 15" and high: "unat (fv_high_bits v) < 16 ^ Suc 15"
    using unat_u64_lt by simp_all
  note hw = hex_word [OF low, simplified] hex_word [OF high, simplified]
    hex_word [of _ 3, simplified] hex_word [of _ 7, simplified]
  have raw: "unat (raw_bits v) < 2 ^ storage_bits d"
    using c d by (simp add: canonical_iff)
  have ne: "pad_zeros (Suc k) (radix_string 16 n) \<noteq> []" for k n
    using radix_string_val(3) [of 16 n] by (simp add: pad_zeros_def)
  note ne' = ne [of 3, simplified] ne [of 7, simplified] ne [of 15, simplified]
  have widths: "case semantics v of IEEEBinary16 \<Rightarrow> unat (fv_high_bits v) = 0 \<and> unat (fv_low_bits v) < 65536
      | IEEEBinary32 \<Rightarrow> unat (fv_high_bits v) = 0 \<and> unat (fv_low_bits v) < 4294967296
      | IEEEBinary64 \<Rightarrow> unat (fv_high_bits v) = 0
      | X87Extended80 \<Rightarrow> unat (fv_high_bits v) < 65536 | _ \<Rightarrow> True"
    using d raw unfolding raw_bits_val by (cases "semantics v") (auto simp: descriptor_def)
  have "digits_val 16 (bit_pattern_hex v) = unat (raw_bits v) \<and> digits_in 16 (bit_pattern_hex v) \<and> bit_pattern_hex v \<noteq> []"
    using c d widths hw ne' unfolding raw_bits_val
    by (cases "semantics v") (simp_all add: bit_pattern_hex_def digits_val_append unat_ucast_down)
  then show "digits_val 16 (bit_pattern_hex v) = unat (raw_bits v)" "digits_in 16 (bit_pattern_hex v)" "bit_pattern_hex v \<noteq> []"
    by blast+
qed

text \<open>The payload read from a bit pattern keeps the stored payload of the NaN.\<close>

lemma make_nan_cong:
  assumes d: "descriptor f = Some d" and "bval p mod 2 ^ (precision d - 2) = bval q mod 2 ^ (precision d - 2)"
  shows "make_nan f s False p = make_nan f s False q"
proof -
  have "nan_field d False (bval p) = nan_field d False (bval q)"
    using assms(2) by (simp add: nan_field_def nan_payload_def)
  then show ?thesis
    using encoded_inj [OF encoded_make_nan [OF d, of s False p], of "make_nan f s False q"]
      encoded_make_nan [OF d, of s False q] semantics_special [OF d] by metis
qed

lemma nan_payload_mod:
  assumes "encoded v d s e m" "is_nan_class (classification (decode v))"
  shows "unat (raw_bits v) mod 2 ^ (precision d - 2) = bval (payload (decode v)) mod 2 ^ (precision d - 2)"
proof -
  have d: "descriptor (semantics v) = Some d" and fits: "fits d e m" and raw: "unat (raw_bits v) = enc d s e m"
    using assms(1) by (simp_all add: encoded_def)
  have ok: "sig_ok d e m"
    using decode_unnormal [OF assms(1)] assms(2) unfolding is_nan_class_def by force
  have e: "e = 2 ^ exponent_bits d - 1"
  proof (rule ccontr)
    assume "e \<noteq> 2 ^ exponent_bits d - 1"
    then have "e < 2 ^ exponent_bits d - 1"
      using fits unfolding fits_def by linarith
    then show False
      using decode_zero [of v d s] decode_small(1) [of v d s m] decode_normal(1) [OF assms(1)] assms ok
      by (cases "e = 0"; cases "m = 0") (auto simp: is_nan_class_def decoded_default_def split: if_splits)
  qed
  have "bval (payload (decode v)) = m mod 2 ^ (precision d - 2)"
    using decode_special(1,4) [of v d s m] assms e ok by (auto simp: is_nan_class_def split: if_splits)
  moreover have "enc d s e m mod 2 ^ (precision d - 2) = m mod 2 ^ (precision d - 2)"
  proof -
    have "precision d - 2 \<le> significand_storage_bits d"
      using d by (auto simp: descriptor_def split: float_format.splits)
    then have "2 ^ (precision d - 2) dvd (2 :: nat) ^ significand_storage_bits d"
      by (rule le_imp_power_dvd)
    then have "2 ^ (precision d - 2) dvd of_bool s * 2 ^ (exponent_bits d + significand_storage_bits d) + e * 2 ^ significand_storage_bits d"
      by (simp add: power_add)
    then show ?thesis
      by (auto simp: enc_def elim!: dvdE)
  qed
  ultimately show ?thesis
    by (simp add: raw)
qed

lemma parse_nan_text:
  assumes d: "descriptor f \<noteq> None" and sg: "sign_text sg" and ds: "digits_in 16 ds" "ds \<noteq> []"
  shows "parse (sg @ ''nan(0x'' @ ds @ '')'') f control = nan f (''0x'' @ ds) False (sg = ''-'')"
proof -
  let ?s = "''nan(0x'' @ ds @ '')''"
  have "normalize_spelling (sg @ ?s) = sg @ ?s"
  proof (rule normalize_spelling_id)
    show "plain_end (sg @ ?s)"
      by (simp add: plain_end_def)
    show "CHR 0x27 \<notin> set (sg @ ?s)"
      using digits_no_separator [OF ds(1)] sign_chars [OF sg] by auto
    show "\<not> ends_with (sg @ ?s) t" if t: "t \<in> set suffixes" for t
    proof
      assume "ends_with (sg @ ?s) t"
      then have "ends_with ((sg @ ''nan(0x'' @ ds) @ CHR '')'' # []) t"
        by simp
      then have "ends_with [] t"
        by (rule ends_with_tail) (use suffixes_chars(2) [OF t] in blast)
      then show False
        using t by (auto simp: ends_with_def suffixes_def)
    qed
  qed
  moreover have "\<not> case_equal ?s ''inf''" "\<not> case_equal ?s ''infinity''" "\<not> case_equal ?s ''nan''"
    using case_equal_hd [of ?s "CHR ''i''"] by (auto simp: tolower_def case_equal_def)
  moreover have "is_nan_payload_form ?s" "take (length ?s - 5) (drop 4 ?s) = ''0x'' @ ds"
    by (simp_all add: is_nan_payload_form_def tolower_def)
  moreover have "(sg @ ?s \<noteq> [] \<and> hd (sg @ ?s) = CHR ''-'') = (sg = ''-'')"
    "(if sg @ ?s \<noteq> [] \<and> is_sign (hd (sg @ ?s)) then tl (sg @ ?s) else sg @ ?s) = ?s"
    using sg by (auto simp: sign_text_def is_sign_def)
  ultimately show ?thesis
    unfolding parse_def Let_def using d by presburger
qed

lemma nan_display_parse:
  assumes v: "is_nan_class (classification (decode v))"
  shows "parse (nan_display (negative (decode v)) v) (semantics v) control
    = parse_value (make_nan (semantics v) (negative (decode v)) False (payload (decode v)))"
proof -
  have "classification (decode v) \<noteq> ClsInvalid"
    using v by (auto simp: is_nan_class_def)
  then obtain d s e m where enc: "encoded v d s e m" and d: "descriptor (semantics v) = Some d"
    by (rule decode_valid)
  note b = bit_pattern_val [OF enc]
  obtain w where w: "parse_big_digits (bit_pattern_hex v) 16 = Some w" "bnorm w" "bval w = unat (raw_bits v)"
    using parse_big_digits_val(1) [OF b(2,3)] b(1) by auto
  have "big_bit_width w \<le> 128"
  proof (rule ccontr)
    assume a: "\<not> big_bit_width w \<le> 128"
    then have "2 ^ (big_bit_width w - 1) \<le> bval w"
      using big_bit_width_bounds [OF w(2)] by force
    moreover have "(2 :: nat) ^ 128 \<le> 2 ^ (big_bit_width w - 1)"
      using a by (intro power_increasing) auto
    ultimately show False
      using unat_lt_exp [of "raw_bits v"] w(3) by simp
  qed
  moreover have "make_nan (semantics v) neg False w = make_nan (semantics v) neg False (payload (decode v))" for neg
    by (rule make_nan_cong [OF d]) (simp add: nan_payload_mod [OF enc v] w(3))
  ultimately have "nan (semantics v) (''0x'' @ bit_pattern_hex v) False neg
      = parse_value (make_nan (semantics v) neg False (payload (decode v)))" for neg
    using d w(1) b(3) by (simp add: nan_def Let_def)
  moreover have "nan_display (negative (decode v)) v
      = (if negative (decode v) then ''-'' else []) @ ''nan(0x'' @ bit_pattern_hex v @ '')''"
    by (simp add: nan_display_def)
  ultimately show ?thesis
    using parse_nan_text [of "semantics v" "if negative (decode v) then ''-'' else []" "bit_pattern_hex v" control] d b(2,3)
    by (simp add: sign_text_def)
qed

text \<open>Parsing any decimal candidate of \<open>display\<close> was tried; what is returned parsed back.\<close>

definition parses_to :: "float_value \<Rightarrow> string \<Rightarrow> bool" where
  "parses_to v s \<longleftrightarrow> parse_has_value (parse s (semantics v) default_control)
     \<and> pr_value (parse s (semantics v) default_control) = v"

lemma better_candidate_parses:
  "best = [] \<or> parses_to v best \<Longrightarrow>
   better_candidate v count k neg best c = [] \<or> parses_to v (better_candidate v count k neg best c)"
  by (auto simp: better_candidate_def parses_to_def Let_def split: prod.splits)

lemma best_candidate_parses:
  "best = [] \<or> parses_to v best \<Longrightarrow>
   foldl (better_candidate v count k neg) best cs = [] \<or> parses_to v (foldl (better_candidate v count k neg) best cs)"
proof (induction cs arbitrary: best)
  case (Cons c cs)
  then show ?case
    using Cons.IH better_candidate_parses by (simp del: disj_not1)
qed simp

lemma display_loop_parses:
  "parses_to v (hex_display v) \<Longrightarrow> parses_to v (display_loop counts v digits k neg)"
proof (induction counts)
  case (Cons count counts)
  then show ?case
    using best_candidate_parses [of "[]" v count k neg "display_coefficients digits count"] by (auto simp: Let_def)
qed simp

text \<open>The zeros and the hexadecimal zeros.\<close>

definition zero_literal :: "bool \<Rightarrow> bool \<Rightarrow> literal" where
  "zero_literal neg hex =
     \<lparr>lit_sign = (if neg then ''-'' else []), lit_hex = hex, lit_int = ''0'', lit_frac = None,
      lit_exp = (if hex then Some ([], ''0'') else None), lit_upper_x = False, lit_upper_e = False\<rparr>"

lemma parse_zero_literal:
  assumes "descriptor f = Some d"
  shows "parse (lit_text (zero_literal neg hex)) f control = parse_value (zero f neg)"
proof -
  have "lit_ok (zero_literal neg hex)" "lit_in_range (zero_literal neg hex)" "lit_number (zero_literal neg hex) = 0"
    by (simp_all add: zero_literal_def lit_ok_def lit_in_range_def lit_number_def lit_base_def lit_digits_def
        lit_fraction_def lit_true_exponent_def exponent_limit_def text_sign_def sign_text_def digit_value_def)
  from parse_literal_rounded [OF this(1) assms this(2), of control] this(3)
  show ?thesis
    by (simp add: zero_literal_def lit_negative_def)
qed

lemma zero_texts:
  "lit_text (zero_literal False False) = ''0''" "lit_text (zero_literal True False) = ''-0''"
  "lit_text (zero_literal False True) = ''0x0p0''" "lit_text (zero_literal True True) = ''-0x0p0''"
  by (simp_all add: zero_literal_def lit_text_def lit_unsigned_def lit_significand_def lit_exponent_def lit_prefix_def lit_marker_def)

lemma value_cases:
  assumes "classification (decode v) \<noteq> ClsInvalid"
  obtains d s e m where "encoded v d s e m" "descriptor (semantics v) = Some d" "negative (decode v) = s"
    and "classification (decode v) = ClsZero \<and> v = zero (semantics v) s
      \<or> classification (decode v) = ClsInfinity \<and> v = infinity (semantics v) s
      \<or> is_nan_class (classification (decode v))
      \<or> is_finite_nonzero (classification (decode v))"
proof -
  obtain d s e m where v: "encoded v d s e m" "descriptor (semantics v) = Some d"
    using decode_valid [OF assms] by metis
  have "classification (decode v) = ClsZero \<and> v = zero (semantics v) s
      \<or> classification (decode v) = ClsInfinity \<and> v = infinity (semantics v) s
      \<or> is_nan_class (classification (decode v))
      \<or> is_finite_nonzero (classification (decode v))"
    using special_unique(1,2) [OF v(1)] assms
    by (cases "classification (decode v)") (simp_all add: is_nan_class_def is_finite_nonzero_def)
  then show thesis
    using that v negative_decode [OF v(1)] by blast
qed

text \<open>The value a spelling of \<open>v\<close> stands for: \<open>v\<close>, with a signaling NaN made quiet.\<close>

definition quieted :: "float_value \<Rightarrow> float_value" where
  "quieted v = (if classification (decode v) = ClsSignalingNaN
     then make_nan (semantics v) (negative (decode v)) False (payload (decode v)) else v)"

lemma quieted_nan:
  assumes "is_nan_class (classification (decode v))"
  shows "make_nan (semantics v) (negative (decode v)) False (payload (decode v)) = quieted v"
proof -
  have "classification (decode v) \<noteq> ClsInvalid"
    using assms by (auto simp: is_nan_class_def)
  then obtain d s e m where v: "encoded v d s e m" "negative (decode v) = s"
    by (rule value_cases)
  then show ?thesis
    using special_unique(3) [OF v(1) _ refl] assms by (auto simp: quieted_def is_nan_class_def)
qed

lemma hex_display_parses:
  assumes "classification (decode v) \<noteq> ClsInvalid" "\<not> pseudo_denormal v"
  shows "parse (hex_display v) (semantics v) control = parse_value (quieted v)"
proof -
  obtain d s e m where v: "encoded v d s e m" "descriptor (semantics v) = Some d" "negative (decode v) = s"
    and c: "classification (decode v) = ClsZero \<and> v = zero (semantics v) s
      \<or> classification (decode v) = ClsInfinity \<and> v = infinity (semantics v) s
      \<or> is_nan_class (classification (decode v))
      \<or> is_finite_nonzero (classification (decode v))"
    by (rule value_cases [OF assms(1)])
  have f: "descriptor (semantics v) \<noteq> None"
    using v(2) by simp
  consider "classification (decode v) = ClsZero" "v = zero (semantics v) s"
    | "classification (decode v) = ClsInfinity" "v = infinity (semantics v) s"
    | "is_nan_class (classification (decode v))" | "is_finite_nonzero (classification (decode v))"
    using c by blast
  then show ?thesis
  proof cases
    case 1
    then show ?thesis
      using v parse_zero_literal [OF v(2), of s True control]
      by (cases s) (simp_all add: hex_display_def Let_def is_nan_class_def quieted_def zero_texts)
  next
    case 2
    then show ?thesis
      using v parse_infinity [OF f, of control]
      by (cases s) (simp_all add: hex_display_def Let_def is_nan_class_def quieted_def)
  next
    case 3
    then show ?thesis
      using nan_display_parse [OF 3, of control] quieted_nan [OF 3]
      by (auto simp: hex_display_def Let_def is_nan_class_def)
  next
    case 4
    then show ?thesis
      using hex_display_finite [OF 4 assms(2)] by (auto simp: quieted_def is_finite_nonzero_def)
  qed
qed

lemma display_parses:
  assumes "classification (decode v) \<noteq> ClsInvalid" "\<not> pseudo_denormal v"
  shows "parse_has_value (parse (display v) (semantics v) default_control)
    \<and> pr_value (parse (display v) (semantics v) default_control) = quieted v"
proof -
  obtain d s e m where v: "encoded v d s e m" "descriptor (semantics v) = Some d" "negative (decode v) = s"
    and c: "classification (decode v) = ClsZero \<and> v = zero (semantics v) s
      \<or> classification (decode v) = ClsInfinity \<and> v = infinity (semantics v) s
      \<or> is_nan_class (classification (decode v))
      \<or> is_finite_nonzero (classification (decode v))"
    by (rule value_cases [OF assms(1)])
  have f: "descriptor (semantics v) \<noteq> None"
    using v(2) by simp
  have valid: "parse_has_value (parse_value (quieted v))" "pr_value (parse_value (quieted v)) = quieted v"
    using v(2) semantics_special [OF v(2)] by (auto simp: parse_has_value_def parse_value_def value_valid_def quieted_def)
  consider "classification (decode v) = ClsZero" "v = zero (semantics v) s"
    | "classification (decode v) = ClsInfinity" "v = infinity (semantics v) s"
    | "is_nan_class (classification (decode v))" | "is_finite_nonzero (classification (decode v))"
    using c by blast
  then show ?thesis
  proof cases
    case 1
    then have "parse (display v) (semantics v) default_control = parse_value (quieted v)"
      using v parse_zero_literal [OF v(2), of s False default_control]
      by (cases s) (simp_all add: display_def Let_def is_nan_class_def quieted_def zero_texts)
    then show ?thesis
      using valid by simp
  next
    case 2
    then have "parse (display v) (semantics v) default_control = parse_value (quieted v)"
      using v parse_infinity [OF f, of default_control]
      by (cases s) (simp_all add: display_def Let_def is_nan_class_def quieted_def)
    then show ?thesis
      using valid by simp
  next
    case 3
    then have "display v = nan_display (negative (decode v)) v"
      using v(2) by (auto simp: display_def Let_def is_nan_class_def)
    then show ?thesis
      using nan_display_parse [OF 3, of default_control] quieted_nan [OF 3] valid by simp
  next
    case 4
    then have q: "quieted v = v"
      by (auto simp: quieted_def is_finite_nonzero_def)
    have "parses_to v (hex_display v)"
      using hex_display_parses [OF assms, of default_control] valid q by (simp add: parses_to_def)
    then have "parses_to v (display v)"
      using v(2) 4 display_loop_parses
      by (auto simp: display_def Let_def is_finite_nonzero_def is_nan_class_def)
    then show ?thesis
      by (simp add: parses_to_def q)
  qed
qed

section \<open>Results are values of the format or errors\<close>

definition parse_ok :: "float_format \<Rightarrow> float_parse_result \<Rightarrow> bool" where
  "parse_ok f r \<longleftrightarrow> pr_error r = ParseNone \<and> semantics (pr_value r) = f
     \<and> classification (decode (pr_value r)) \<noteq> ClsInvalid"

lemma parse_ok_result: "valid_in f r \<Longrightarrow> parse_ok f (from_float_result r)"
  by (simp add: parse_ok_def valid_in_def from_float_result_def)

lemma parse_ok_special:
  assumes "descriptor f = Some d"
  shows "parse_ok f (parse_value (zero f s))" "parse_ok f (parse_value (infinity f s))"
    "parse_ok f (parse_value (make_nan f s b p))"
  using valid_special(1,2) [OF assms, of s] valid_special(4) [OF assms, of "value_result (make_nan f s b p)" s b p]
  by (simp_all add: parse_ok_def parse_value_def valid_in_def value_result_def)

lemma shortcut_valid:
  assumes d: "descriptor f = Some d"
  shows "valid_in f (overflow_result f neg control)" "valid_in f (tiny_nonzero_result f neg control)"
proof -
  obtain a b :: int where a: "6000 < a" and b: "b \<le> - 6000"
    by (metis gt_ex order_refl)
  show "valid_in f (overflow_result f neg control)"
    by (rule rounded_valid [OF d overflow_shortcut [OF d order_refl a]])
  have "(0 :: real) < 10 powi b"
    by simp
  then show "valid_in f (tiny_nonzero_result f neg control)"
    by (rule rounded_valid [OF d underflow_shortcut [OF d _ order_refl b]])
qed

lemma parse_number_ok:
  assumes d: "descriptor f = Some d" and sig: "bnorm sig"
  shows "parse_ok f (parse_number hex neg sig len n k f control)"
proof -
  have rr: "valid_in f (round_rational neg num den be f control)"
    if "bnorm num" "bnorm den" "0 < bval num" "0 < bval den" for num den be
    using rounded_valid [OF d round_rational_rounded [OF d that refl]] .
  have one: "bnorm (big_of_u128 1)" "bval (big_of_u128 1) = 1"
    by (simp_all add: big_val big_wf)
  have "0 < bval sig" if "\<not> big_is_zero sig"
    using that sig bval_inj [of sig "[]"] by (auto simp: big_is_zero_def bnorm_def)
  then show ?thesis
    using parse_ok_special(1) [OF d] shortcut_valid [OF d] sig one
    by (auto simp: parse_number_def Let_def big_val big_wf power_of_five_val intro!: parse_ok_result rr)
qed

lemma parse_significand_ok:
  assumes "descriptor f = Some d"
  shows "parse_ok f (parse_significand hex neg s k f control)
    \<or> parse_significand hex neg s k f control = parse_failed ParseInvalidSyntax"
  using parse_number_ok [OF assms] parse_big_digits_val(2)
  by (auto simp: parse_significand_def Let_def split: option.split)

lemma parse_unsigned_ok:
  assumes "descriptor f = Some d"
  shows "parse_ok f (parse_unsigned neg s f control) \<or> parse_unsigned neg s f control = parse_failed ParseInvalidSyntax"
proof -
  define P where "P r \<longleftrightarrow> parse_ok f r \<or> r = parse_failed ParseInvalidSyntax" for r
  have "P (parse_significand hex neg u k f control)" "P (parse_failed ParseInvalidSyntax)" for hex u k
    using parse_significand_ok [OF assms] by (auto simp: P_def)
  then have "P (if a then parse_failed ParseInvalidSyntax
      else case k of None \<Rightarrow> parse_failed ParseInvalidSyntax | Some k \<Rightarrow> parse_significand hex neg u k f control)" for a k hex u
    by (simp split: option.split)
  then have "P (parse_unsigned neg s f control)"
    unfolding parse_unsigned_def Let_def .
  then show ?thesis
    by (simp add: P_def)
qed

lemma nan_ok:
  assumes "descriptor f = Some d"
  shows "parse_ok f (nan f s b neg) \<or> nan f s b neg = parse_failed ParseInvalidPayload"
  using parse_ok_special(3) [OF assms] assms by (auto simp: nan_def Let_def split: option.split)

section \<open>Properties\<close>

text \<open>
  C2: a literal, decimal or hexadecimal, with any fraction and exponent, spelled with digit
  separators, letters of either case and any suffix for its type or for an imaginary number,
  parses to the real number it denotes rounded once in the mode asked for, with the flags of that
  rounding; a zero literal is the zero of its sign. The exponent must be within
  \<open>parse_exponent\<close>'s limit of \<open>10 ^ 9\<close>, and in a decimal literal that begins with a zero the
  digits before the point and the exponent must not add up to more than 6001 (see \<open>parse_leading_zeros\<close>).
\<close>

theorem parse_correct:
  assumes "lit_ok l" and "descriptor f = Some d" and "lit_in_range l" and "spelled l s"
  shows "if lit_number l = 0 then parse s f control = parse_value (zero f (lit_negative l))
    else \<exists>r. rounded f control (lit_negative l) (lit_value l) r \<and> parse s f control = from_float_result r"
  using parse_spelled_rounded [OF assms] .

theorem parse_correct_witness:
  "\<exists>r. rounded IEEEBinary64 default_control True (21 / 200) r
    \<and> parse (''-1'' @ [CHR 0x27] @ ''0.5E-2f64i'') IEEEBinary64 default_control = from_float_result r"
proof -
  let ?l = "\<lparr>lit_sign = ''-'', lit_hex = False, lit_int = ''10'', lit_frac = Some ''5'', lit_exp = Some (''-'', ''2''),
    lit_upper_x = False, lit_upper_e = True\<rparr>"
  let ?s = "''-1'' @ [CHR 0x27] @ ''0.5E-2f64i''"
  obtain d where d: "descriptor IEEEBinary64 = Some d"
    by (simp add: descriptor_def)
  have ok: "lit_ok ?l"
    by code_simp
  have range: "lit_in_range ?l"
    by code_simp
  have num: "lit_number ?l = 105" "lit_true_exponent ?l = - 2"
    by code_simp+
  have spelled: "spelled ?l ?s"
    by code_simp
  have val: "lit_value ?l = 21 / 200" and neg: "lit_negative ?l = True"
    using num by (simp_all add: lit_value_def lit_fraction_def lit_negative_def power_int_minus)
  show ?thesis
    using parse_correct [OF ok d range spelled, of default_control] unfolding num val neg by simp
qed

text \<open>
  C26: the hexadecimal spelling \<open>hex_display\<close> gives of a value parses, in any rounding mode and
  without raising a flag, to that value: finite numbers, zeros and infinities of either sign,
  and NaNs with their payload, a signaling NaN coming back as the quiet NaN of its sign and
  payload. Pseudo-denormal encodings, whose number has another encoding, are excluded.
\<close>

theorem hex_display_round_trip:
  assumes "classification (decode v) \<noteq> ClsInvalid" and "\<not> pseudo_denormal v"
  shows "parse (hex_display v) (semantics v) control = parse_value (quieted v)"
  using hex_display_parses [OF assms] .

theorem hex_display_round_trip_witness:
  "parse (hex_display (f32 0xc0400000)) IEEEBinary32 default_control = parse_value (f32 0xc0400000)"
proof -
  have "\<not> pseudo_denormal (f32 0xc0400000)"
    by code_simp
  then show ?thesis
    using hex_display_round_trip [of "f32 0xc0400000" default_control] by (simp add: decode_minus_three quieted_def)
qed

text \<open>
  C28: a decimal literal of value one written with \<open>n\<close> zeros after the point and the exponent
  \<open>n + 1\<close> overflows as soon as \<open>n\<close> reaches 6000, in every format: the digits counted by the
  range check include the leading zeros.
\<close>

theorem parse_leading_zeros:
  assumes "descriptor f \<noteq> None" and "6000 \<le> n" and "n < 999999999"
  shows "parse (''0.'' @ replicate n CHR ''0'' @ ''1e'' @ radix_string 10 (n + 1)) f control
      = from_float_result (overflow_result f False control)"
proof -
  let ?l = "\<lparr>lit_sign = [], lit_hex = False, lit_int = ''0'', lit_frac = Some (replicate n CHR ''0'' @ ''1''),
    lit_exp = Some ([], radix_string 10 (n + 1)), lit_upper_x = False, lit_upper_e = False\<rparr>"
  note rad = radix_string_val [of 10 "n + 1", simplified]
  have ok: "lit_ok ?l"
    using rad zero_digit [of 10 n] by (simp add: lit_ok_def sign_text_def lit_base_def lit_digits_def lit_fraction_def digit_value_def)
  obtain sig where sig: "bnorm sig" "bval sig = lit_number ?l"
    and p: "\<And>neg. parse_unsigned neg (lit_unsigned ?l) f control
      = parse_number (lit_hex ?l) neg sig (length (lit_digits ?l)) (length (lit_fraction ?l)) (lit_exponent_val ?l) f control"
    by (rule parse_unsigned_literal [OF ok, of f control]) blast
  have one: "lit_number ?l = 1"
    using digits_val_append [of 10 "''0'' @ replicate n CHR ''0''" "''1''"] digits_val_append [of 10 "''0''" "replicate n CHR ''0''"]
    by (simp add: lit_number_def lit_base_def lit_digits_def lit_fraction_def digit_value_def)
  then have "\<not> big_is_zero sig"
    using sig(2) by (auto simp: big_is_zero_def)
  moreover have "lit_exponent_val ?l = int n + 1"
    using rad assms(3) by (simp add: lit_exponent_val_def text_sign_def exponent_limit_def)
  moreover have "length (lit_digits ?l) = n + 2" "length (lit_fraction ?l) = n + 1"
    by (simp_all add: lit_digits_def lit_fraction_def)
  ultimately have "parse (lit_text ?l) f control = from_float_result (overflow_result f False control)"
    using parse_literal [OF ok assms(1), of control] p assms(2) by (simp add: parse_number_def Let_def lit_negative_def)
  then show ?thesis
    by (simp add: lit_text_def lit_unsigned_def lit_significand_def lit_exponent_def lit_prefix_def lit_marker_def)
qed

theorem parse_leading_zeros_witness:
  "parse (''0.'' @ replicate 6000 CHR ''0'' @ ''1e'' @ radix_string 10 6001) IEEEBinary64 default_control
    = from_float_result (overflow_result IEEEBinary64 False default_control)"
  using parse_leading_zeros [of IEEEBinary64 6000 default_control] by simp

text \<open>
  C27: for every string, \<open>parse\<close> returns a valid value of the format asked for, or a syntax or
  payload error with the invalid value; the format error is returned exactly for the invalid
  format.
\<close>

theorem parse_closed:
  "if f = FmtInvalid then parse s f control = parse_failed ParseInvalidFormat
   else parse_ok f (parse s f control) \<or> parse s f control = parse_failed ParseInvalidSyntax
     \<or> parse s f control = parse_failed ParseInvalidPayload"
proof (cases "descriptor f")
  case None
  then show ?thesis
    by (simp add: parse_def)
next
  case (Some d)
  define P where "P r \<longleftrightarrow> parse_ok f r \<or> r = parse_failed ParseInvalidSyntax \<or> r = parse_failed ParseInvalidPayload" for r
  have "P (parse_unsigned neg u f control)" "P (nan f u b neg)" "P (parse_value (infinity f neg))" for u b neg
    using parse_unsigned_ok [OF Some] nan_ok [OF Some] parse_ok_special(2) [OF Some] unfolding P_def by blast+
  moreover have "f \<noteq> FmtInvalid" "descriptor f \<noteq> None"
    using Some by auto
  ultimately have "P (parse s f control)"
    unfolding parse_def Let_def by (simp only: if_False split: if_split) blast
  then show ?thesis
    using \<open>f \<noteq> FmtInvalid\<close> by (simp add: P_def)
qed

end
