(* ===== verification/Float_Display_Correct.thy ===== *)
theory Float_Display_Correct
  imports Float_Parse_Correct
begin

text \<open>
  The decimal spelling of a value is a shortest one: \<open>display\<close> tries ever more digits, the first
  candidate that parses back has the fewest digits any decimal literal for the value can have, and
  the number of digits at which it gives up is never passed.
\<close>

section \<open>Decimal numbers that round to a number of a format\<close>

lemma round_nat_mono:
  assumes "0 \<le> y" "y \<le> z"
  shows "round_nat mode neg y \<le> round_nat mode neg z"
proof (cases "\<lfloor>y\<rfloor> = \<lfloor>z\<rfloor>")
  case True
  then show ?thesis
    using assms of_int_floor_le [of y] by (cases mode) (auto simp: round_nat_def Let_def)
next
  case False
  then have "\<lfloor>y\<rfloor> + 1 \<le> \<lfloor>z\<rfloor>"
    using assms floor_mono [of y z] by linarith
  then have "y \<le> real (nat \<lfloor>z\<rfloor>)" "real (nat \<lfloor>z\<rfloor>) \<le> z"
    using assms by linarith+
  then show ?thesis
    using round_nat_le [OF assms(1), of "nat \<lfloor>z\<rfloor>" mode neg] round_nat_ge [of "nat \<lfloor>z\<rfloor>" z mode neg] by linarith
qed

lemma powi_ratio: "u \<le> e \<Longrightarrow> real (2 ^ nat (e - u)) * 2 powi u = (2 :: real) powi e"
proof -
  assume "u \<le> e"
  then have "real (2 ^ nat (e - u)) = 2 powi (e - u)"
    by (simp add: power_int_def)
  then show ?thesis
    by (simp flip: power_int_add)
qed

lemma round_to_below:
  assumes "0 < x" "x \<le> 2 powi e" "unit_exp d x \<le> e"
  shows "round_to d mode neg x \<le> 2 powi e"
proof -
  have "x / 2 powi unit_exp d x \<le> real (2 ^ nat (e - unit_exp d x))"
    using assms(2) powi_ratio [OF assms(3)] by (simp add: pos_divide_le_eq)
  then have "round_nat mode neg (x / 2 powi unit_exp d x) \<le> 2 ^ nat (e - unit_exp d x)"
    using assms(1) by (intro round_nat_le) simp_all
  then have "real (round_nat mode neg (x / 2 powi unit_exp d x)) * 2 powi unit_exp d x \<le> real (2 ^ nat (e - unit_exp d x)) * 2 powi unit_exp d x"
    by (intro mult_right_mono) (simp_all only: of_nat_le_iff, simp)
  then show ?thesis
    by (simp only: round_to_def powi_ratio [OF assms(3)])
qed

lemma round_to_above:
  assumes "2 powi e \<le> x" "unit_exp d x \<le> e"
  shows "2 powi e \<le> round_to d mode neg x"
proof -
  have "real (2 ^ nat (e - unit_exp d x)) \<le> x / 2 powi unit_exp d x"
    using assms(1) powi_ratio [OF assms(2)] by (simp add: pos_le_divide_eq)
  then have "2 ^ nat (e - unit_exp d x) \<le> round_nat mode neg (x / 2 powi unit_exp d x)"
    by (rule round_nat_ge)
  then have "real (2 ^ nat (e - unit_exp d x)) * 2 powi unit_exp d x \<le> real (round_nat mode neg (x / 2 powi unit_exp d x)) * 2 powi unit_exp d x"
    by (intro mult_right_mono) (simp_all only: of_nat_le_iff, simp)
  then show ?thesis
    by (simp only: round_to_def powi_ratio [OF assms(2)])
qed

lemma round_to_mono:
  assumes d: "descriptor f = Some d" and x: "0 < x" "x \<le> y"
  shows "round_to d mode neg x \<le> round_to d mode neg y"
proof (cases "unit_exp d x = unit_exp d y")
  case True
  have "round_nat mode neg (x / 2 powi unit_exp d y) \<le> round_nat mode neg (y / 2 powi unit_exp d y)"
    using x by (intro round_nat_mono divide_right_mono) simp_all
  then show ?thesis
    by (simp add: round_to_def True mult_right_mono)
next
  case False
  have log: "\<lfloor>log 2 x\<rfloor> \<le> \<lfloor>log 2 y\<rfloor>"
    using x by (intro floor_mono) simp
  then have lt: "\<lfloor>log 2 x\<rfloor> < \<lfloor>log 2 y\<rfloor>"
    using False by (auto simp: unit_exp_def le_less)
  have u: "unit_exp d y \<le> \<lfloor>log 2 y\<rfloor>" "unit_exp d x \<le> \<lfloor>log 2 y\<rfloor>"
    using False log frac_bits(7) [OF d] by (auto simp: unit_exp_def max_def split: if_splits)
  have "x < 2 powi \<lfloor>log 2 y\<rfloor>"
    using below_powi_iff [OF x(1)] lt by simp
  then have "round_to d mode neg x \<le> 2 powi \<lfloor>log 2 y\<rfloor>"
    using x(1) u(2) by (intro round_to_below) simp_all
  also have "\<dots> \<le> round_to d mode neg y"
    using floor_log2_bounds(1) [of y] x u(1) by (intro round_to_above) simp_all
  finally show ?thesis .
qed

text \<open>Numbers with a significand of \<open>p\<close> bits are not close to each other.\<close>

definition on_grid :: "nat \<Rightarrow> real \<Rightarrow> bool" where
  "on_grid p z \<longleftrightarrow> (\<exists>m q. m < 2 ^ p \<and> z = real m * 2 powi q)"

lemma grid_scale: "q' \<le> q \<Longrightarrow> real m * 2 powi q = real (m * 2 ^ nat (q - q')) * 2 powi q'"
  using powi_ratio [of q' q] by (simp add: mult.assoc)

lemma grid_apart:
  assumes "m \<noteq> n"
  shows "2 powi q \<le> \<bar>real m * 2 powi q - real n * 2 powi q\<bar>"
proof -
  have "1 \<le> \<bar>real m - real n\<bar>"
    using assms by linarith
  then have "1 * 2 powi q \<le> \<bar>real m - real n\<bar> * 2 powi q"
    by (intro mult_right_mono) simp_all
  also have "\<bar>real m - real n\<bar> * 2 powi q = \<bar>real m * 2 powi q - real n * 2 powi q\<bar>"
    by (simp add: abs_mult flip: left_diff_distrib)
  finally show ?thesis
    by simp
qed

lemma grid_gap:
  assumes "on_grid p x" "on_grid p w" "x \<noteq> w"
  shows "x / 2 ^ p \<le> \<bar>x - w\<bar>"
proof -
  obtain m q m' q' where x: "m < 2 ^ p" "x = real m * 2 powi q" and w: "m' < 2 ^ p" "w = real m' * 2 powi q'"
    using assms(1,2) by (auto simp: on_grid_def)
  have below: "real n * 2 powi e / 2 ^ p \<le> 2 powi e" if "n < 2 ^ p" for n e
  proof -
    have "real n \<le> real (2 ^ p)"
      using less_imp_le [OF that] by (simp only: of_nat_le_iff)
    then have "real n * 2 powi e \<le> 2 ^ p * 2 powi e"
      by (intro mult_right_mono) simp_all
    then show ?thesis
      by (simp only: divide_le_eq) (simp add: mult.commute)
  qed
  show ?thesis
  proof (cases "q \<le> q'")
    case True
    then have w': "w = real (m' * 2 ^ nat (q' - q)) * 2 powi q"
      using w(2) grid_scale by simp
    then have "2 powi q \<le> \<bar>x - w\<bar>"
      using assms(3) unfolding x(2) w' by (intro grid_apart) auto
    then show ?thesis
      using below [OF x(1), of q] unfolding x(2) by (rule order_trans [rotated])
  next
    case False
    define t where "t = m * 2 ^ nat (q - q')"
    have x': "x = real t * 2 powi q'"
      using False grid_scale [of q' q m] x(2) by (simp add: t_def)
    show ?thesis
    proof (cases "t < 2 ^ p")
      case True
      then have "2 powi q' \<le> \<bar>x - w\<bar>"
        using assms(3) unfolding x' w(2) by (intro grid_apart) auto
      then show ?thesis
        using below [OF True, of q'] unfolding x' by (rule order_trans [rotated])
    next
      case ge: False
      define P where "P = (2 :: real) ^ p"
      have P: "1 \<le> P" "P \<le> real t" "real m' \<le> P - 1"
      proof -
        show "1 \<le> P"
          by (simp add: P_def)
        have "real (2 ^ p) \<le> real t" "real (m' + 1) \<le> real (2 ^ p)"
          using ge w(1) by (simp_all only: of_nat_le_iff)
        then show "P \<le> real t" "real m' \<le> P - 1"
          by (simp_all add: P_def)
      qed
      have "0 \<le> (real t - P) * (P - 1)"
        using P by (intro mult_nonneg_nonneg) simp_all
      then have "real t \<le> (real t - P + 1) * P"
        by (simp add: algebra_simps)
      then have "real t / P \<le> real t - P + 1"
        using P(1) by (simp add: divide_le_eq)
      also have "\<dots> \<le> real t - real m'"
        using P(3) by simp
      finally have "real t / P * 2 powi q' \<le> (real t - real m') * 2 powi q'"
        by (intro mult_right_mono) simp_all
      also have "\<dots> \<le> \<bar>x - w\<bar>"
        unfolding x' w(2) by (simp add: left_diff_distrib)
      finally show ?thesis
        by (simp add: x' P_def)
    qed
  qed
qed

lemma representable_grid: "descriptor f = Some d \<Longrightarrow> representable d z \<Longrightarrow> on_grid (precision d) z"
proof (cases "z = 0")
  case True
  then show ?thesis
    unfolding on_grid_def by (intro exI [of _ 0]) simp
qed (auto simp: representable_def on_grid_def finite_pair_def)

lemma round_to_grid:
  assumes d: "descriptor f = Some d" and x: "0 < x"
  shows "on_grid (precision d) (round_to d mode neg x)"
proof -
  let ?M = "round_nat mode neg (x / 2 powi unit_exp d x)"
  obtain k where k: "precision d = Suc k"
    using frac_bits(2) [OF d] by metis
  have "?M \<le> 2 ^ precision d"
    using scaled_to_unit [OF d x refl, of mode neg] power_increasing [of k "Suc k" "2 :: nat"]
    by (cases "\<lfloor>log 2 x\<rfloor> < min_normal_exponent d") (auto simp: k)
  then consider "?M < 2 ^ precision d" | "?M = 2 ^ precision d"
    by linarith
  then show ?thesis
  proof cases
    case 1
    then show ?thesis
      unfolding round_to_def on_grid_def by blast
  next
    case 2
    have "real ?M * 2 powi unit_exp d x = real (2 ^ k) * 2 powi (unit_exp d x + 1)"
      using 2 by (simp add: k power_int_add)
    moreover have "(2 :: nat) ^ k < 2 ^ precision d"
      by (simp add: k)
    ultimately show ?thesis
      unfolding round_to_def on_grid_def by blast
  qed
qed

text \<open>A number within a relative distance of \<open>2 ^ (- p) / 2\<close> of a number of the format rounds to it.\<close>

lemma close_rounds_back:
  assumes d: "descriptor f = Some d" and x: "0 < x" "representable d x" and y: "0 < y"
    and close: "2 * \<bar>y - x\<bar> < x / 2 ^ precision d"
  shows "round_to d NearestTiesToEven neg y = x"
proof (rule ccontr)
  let ?w = "round_to d NearestTiesToEven neg y"
  define g where "g = x / 2 ^ precision d"
  assume "?w \<noteq> x"
  then have "g \<le> \<bar>x - ?w\<bar>"
    unfolding g_def using grid_gap [OF representable_grid [OF d x(2)] round_to_grid [OF d y]] by metis
  moreover have "\<bar>?w - y\<bar> \<le> \<bar>x - y\<bar>"
    by (rule round_to_nearest [OF d y _ x(2)]) simp
  ultimately show False
    using close [folded g_def] by (auto simp: abs_if split: if_splits)
qed

lemma between_rounds_back:
  assumes d: "descriptor f = Some d" and x: "0 < x" "representable d x"
    and z: "0 < z" "round_to d mode neg z = x" and y: "z \<le> y \<and> y \<le> x \<or> x \<le> y \<and> y \<le> z"
  shows "round_to d mode neg y = x"
proof -
  have xx: "round_to d mode neg x = x"
    by (rule round_to_exact [OF d x])
  show ?thesis
    using y round_to_mono [OF d, of z y mode neg] round_to_mono [OF d, of y x mode neg] round_to_mono [OF d, of x y mode neg]
      round_to_mono [OF d, of y z mode neg] xx z x(1) by fastforce
qed

section \<open>The digits that are tried\<close>

text \<open>
  The number \<open>x\<close> lies between \<open>10 ^ k\<close> and \<open>10 ^ (k + 1)\<close>; \<open>t\<close> is what is left of it when it is cut off
  after \<open>n\<close> digits.
\<close>

definition cut :: "real \<Rightarrow> int \<Rightarrow> nat \<Rightarrow> nat \<Rightarrow> bool" where
  "cut x k n t \<longleftrightarrow> 0 < n \<and> 10 powi k \<le> x \<and> 10 ^ (n - 1) \<le> t \<and> t < 10 ^ n
     \<and> real t * 10 powi (k - int n + 1) \<le> x \<and> x < real (t + 1) * 10 powi (k - int n + 1)"

lemma ten_ratio: "u \<le> e \<Longrightarrow> real (10 ^ nat (e - u)) * 10 powi u = (10 :: real) powi e"
proof -
  assume "u \<le> e"
  then have "real (10 ^ nat (e - u)) = 10 powi (e - u)"
    by (simp add: power_int_def)
  then show ?thesis
    by (simp flip: power_int_add)
qed

lemma enough_digits:
  assumes d: "descriptor f = Some d" and x: "0 < x" "representable d x"
    and t: "cut x k n t" and n: "2 ^ precision d < (10 :: nat) ^ (n - 1)"
  shows "round_to d NearestTiesToEven neg (real t * 10 powi (k - int n + 1)) = x
    \<or> round_to d NearestTiesToEven neg (real (t + 1) * 10 powi (k - int n + 1)) = x"
proof -
  let ?u = "(10 :: real) powi (k - int n + 1)"
  have t': "0 < n" "10 powi k \<le> x" "10 ^ (n - 1) \<le> t" "real t * ?u \<le> x" "x < real (t + 1) * ?u"
    using t by (auto simp: cut_def)
  have "0 < t"
    using t'(3) zero_less_power [of "10 :: nat" "n - 1"] by linarith
  then have pos: "0 < real t * ?u" "0 < real (t + 1) * ?u"
    by simp_all
  have k: "(10 :: real) powi k = 10 ^ (n - 1) * ?u"
    using ten_ratio [of "k - int n + 1" k] t'(1) by (simp add: nat_diff_distrib)
  have "real (2 ^ precision d) < real (10 ^ (n - 1))"
    using n by (simp only: of_nat_less_iff)
  then have "2 ^ precision d * ?u < 10 ^ (n - 1) * ?u"
    by simp
  also have "\<dots> \<le> x"
    using t'(2) k by simp
  finally have u: "?u < x / 2 ^ precision d"
    by (simp add: less_divide_eq mult.commute)
  have half: "2 * \<bar>a - x\<bar> \<le> v \<or> 2 * \<bar>a + v - x\<bar> \<le> v" if "a \<le> x" "x < a + v" for a v
    using that by (auto simp: abs_if split: if_splits)
  have succ: "real (t + 1) * ?u = real t * ?u + ?u"
    by (simp add: distrib_right)
  have "2 * \<bar>real t * ?u - x\<bar> \<le> ?u \<or> 2 * \<bar>real (t + 1) * ?u - x\<bar> \<le> ?u"
    using half [OF t'(4) t'(5) [unfolded succ]] unfolding succ .
  then have "2 * \<bar>real t * ?u - x\<bar> < x / 2 ^ precision d \<or> 2 * \<bar>real (t + 1) * ?u - x\<bar> < x / 2 ^ precision d"
    using u by (meson le_less_trans)
  then show ?thesis
    using close_rounds_back [OF d x] pos by blast
qed

lemma fewest_digits:
  assumes d: "descriptor f = Some d" and x: "0 < x" "representable d x" and t: "cut x k n t"
    and z: "0 < z" "z = real m * 10 powi e" "m < 10 ^ n" "round_to d mode neg z = x"
  shows "round_to d mode neg (real t * 10 powi (k - int n + 1)) = x
    \<or> x \<noteq> real t * 10 powi (k - int n + 1) \<and> round_to d mode neg (real (t + 1) * 10 powi (k - int n + 1)) = x"
proof -
  let ?u = "(10 :: real) powi (k - int n + 1)"
  have t': "0 < n" "10 powi k \<le> x" "10 ^ (n - 1) \<le> t" "real t * ?u \<le> x" "x < real (t + 1) * ?u"
    using t by (auto simp: cut_def)
  have k: "(10 :: real) powi k = real (10 ^ (n - 1)) * ?u"
    using ten_ratio [of "k - int n + 1" k] t'(1) by (simp add: nat_diff_distrib)
  have "real (10 ^ (n - 1)) * ?u \<le> real t * ?u"
    using t'(3) by (intro mult_right_mono) (simp_all only: of_nat_le_iff, simp)
  then have kt: "10 powi k \<le> real t * ?u"
    by (simp only: k)
  have small: "z < 10 powi k" if "e < k - int n + 1"
  proof -
    have "real m < real (10 ^ n)"
      using z(3) by (simp only: of_nat_less_iff)
    then have "z < 10 ^ n * 10 powi e"
      unfolding z(2) by simp
    also have "\<dots> = 10 powi (int n + e)"
      by (simp add: power_int_add)
    also have "\<dots> \<le> 10 powi k"
      using that by (intro power_int_increasing) auto
    finally show ?thesis .
  qed
  have large: "z = real (m * 10 ^ nat (e - (k - int n + 1))) * ?u" if "\<not> e < k - int n + 1"
    using that ten_ratio [of "k - int n + 1" e] by (simp add: z(2) mult.assoc)
  have step: "real i * ?u \<le> real j * ?u \<longleftrightarrow> i \<le> j" "real i * ?u < real j * ?u \<longleftrightarrow> i < j" for i j
    by simp_all
  show ?thesis
  proof (cases "z \<le> x")
    case True
    have "z \<le> real t * ?u"
    proof (cases "e < k - int n + 1")
      case True
      then show ?thesis
        using small kt by simp
    next
      case False
      then have "m * 10 ^ nat (e - (k - int n + 1)) < t + 1"
        using large [OF False] True t'(5) step(2) by (metis le_less_trans)
      then show ?thesis
        unfolding large [OF False] step(1) by simp
    qed
    then show ?thesis
      using between_rounds_back [OF d x z(1,4)] t'(4) by blast
  next
    case False
    have e: "\<not> e < k - int n + 1"
      using small False t'(2) by force
    then have "t < m * 10 ^ nat (e - (k - int n + 1))"
      using large [OF e] False t'(4) step(2) by (metis le_less_trans not_le)
    then have "real (t + 1) * ?u \<le> z"
      unfolding large [OF e] step(1) by simp
    then have "round_to d mode neg (real (t + 1) * ?u) = x"
      using between_rounds_back [OF d x z(1,4)] t'(5) by (meson less_imp_le)
    moreover have "round_to d mode neg (real t * ?u) = x" if "x = real t * ?u"
      using round_to_exact [OF d x] that by simp
    ultimately show ?thesis
      by blast
  qed
qed

section \<open>Digit strings\<close>

lemma digit_zero: "0 \<le> digit_value c 10 \<Longrightarrow> nat (digit_value c 10) = 0 \<longleftrightarrow> c = CHR ''0''"
proof -
  assume "0 \<le> digit_value c 10"
  moreover have "code c = code CHR ''0'' \<longleftrightarrow> c = CHR ''0''"
    by (simp only: of_char_eq_iff)
  ultimately show ?thesis
    by (auto simp: digit_value_def Let_def split: if_splits)
qed

lemma digits_zero_iff: "digits_in 10 s \<Longrightarrow> digits_val 10 s = 0 \<longleftrightarrow> (\<forall>c \<in> set s. c = CHR ''0'')"
proof (induction s rule: rev_induct)
  case (snoc c s)
  then show ?case
    using digit_zero [of c] by (auto simp: digits_val_append)
qed simp

lemma digits_hd:
  assumes "digits_in 10 s" "s \<noteq> []" "10 ^ (length s - 1) \<le> digits_val 10 s"
  shows "hd s \<noteq> CHR ''0''"
proof
  assume z: "hd s = CHR ''0''"
  obtain c t where s: "s = c # t"
    using assms(2) by (cases s) auto
  have "digits_val 10 s = digits_val 10 t"
    using digits_val_append [of 10 "[c]" t] z s by (simp add: digit_value_def)
  then show False
    using digits_val_lt [of 10 t] assms(3) s by simp
qed

lemma radix_lower:
  assumes "0 < n"
  shows "10 ^ (length (radix_string 10 n) - 1) \<le> n"
proof (cases "length (radix_string 10 n)")
  case (Suc j)
  show ?thesis
  proof (cases j)
    case (Suc i)
    then show ?thesis
      using length_radix_loop [of 10 n i "[]"] \<open>length (radix_string 10 n) = Suc j\<close> by (force simp: radix_string_def)
  qed (use Suc assms in simp)
qed (use assms in simp)

lemma decimal_chunks_last:
  "bnorm ws \<Longrightarrow> ws \<noteq> [] \<Longrightarrow> last (decimal_chunks ws) \<noteq> 0"
proof (induction ws rule: decimal_chunks.induct)
  case (1 ws)
  obtain q c where qc: "divide_small ws 1000000000 = (q, c)"
    by fastforce
  note v = divide_small_val [OF _ qc]
  have chunks: "decimal_chunks ws = c # decimal_chunks q"
    using 1(3) qc by (simp add: decimal_chunks.simps [of ws] big_is_zero_def)
  show ?case
  proof (cases "q = []")
    case True
    have "bval ws \<noteq> 0"
      using 1(2,3) bval_inj [of ws "[]"] by (auto simp: bnorm_def)
    then have "c \<noteq> 0"
      using v 1(2) True by auto
    then show ?thesis
      using chunks True by (simp add: decimal_chunks.simps big_is_zero_def)
  next
    case False
    have "last (decimal_chunks q) \<noteq> 0"
      using 1(1) [OF _ qc [symmetric]] 1(2,3) v False by (simp add: big_is_zero_def)
    moreover have "decimal_chunks q \<noteq> []"
      using decimal_chunks_val [of q] v 1(2) False by simp
    ultimately show ?thesis
      by (simp add: chunks)
  qed
qed

lemma to_decimal_lower:
  assumes "bnorm ws" "0 < bval ws"
  shows "10 ^ (length (to_decimal ws) - 1) \<le> bval ws"
proof -
  have ne: "ws \<noteq> []"
    using assms by auto
  note c = decimal_chunks_val [OF assms(1)]
  have cne: "decimal_chunks ws \<noteq> []"
    using c ne by blast
  let ?h = "radix_string 10 (unat (last (decimal_chunks ws)))"
  let ?t = "concat (map (\<lambda>n. pad_zeros (Suc 8) (radix_string (unat (10 :: u32)) n)) (map unat (rev (butlast (decimal_chunks ws)))))"
  have split: "to_decimal ws = ?h @ ?t"
    using ne by (simp add: to_decimal_def big_is_zero_def Let_def o_def)
  have "0 < unat (last (decimal_chunks ws))"
    using decimal_chunks_last [OF assms(1) ne] by (simp add: unat_gt_0)
  then have "10 ^ (length ?h - 1) \<le> digits_val 10 ?h"
    using radix_lower radix_string_val(1) [of 10] by simp
  then have "10 ^ (length ?h - 1) * 10 ^ length ?t \<le> digits_val 10 ?h * 10 ^ length ?t"
    by (rule mult_le_mono1)
  moreover have "0 < length ?h"
    using radix_string_val(3) [of 10] by simp
  ultimately have "10 ^ (length (to_decimal ws) - 1) \<le> digits_val 10 ?h * 10 ^ length ?t"
    unfolding split by (simp add: power_add [symmetric])
  also have "\<dots> \<le> digits_val 10 (to_decimal ws)"
    unfolding split by (simp add: digits_val_append)
  finally show ?thesis
    using to_decimal_val(1) [OF assms(1)] by simp
qed

text \<open>Adding one to a digit string.\<close>

lemma increment_loop_val:
  "digits_in 10 s \<Longrightarrow> digits_in 10 (increment_loop s) \<and> digits_val 10 (rev (increment_loop s)) = digits_val 10 (rev s) + 1
    \<and> (length (increment_loop s) = length s \<or> length (increment_loop s) = Suc (length s) \<and> digits_val 10 (rev s) + 1 = 10 ^ length s)"
proof (induction s)
  case Nil
  then show ?case
    by (simp add: digit_value_def)
next
  case (Cons c s)
  show ?case
  proof (cases "c = CHR ''9''")
    case True
    have nine: "digit_value CHR ''9'' 10 = 9" "digit_value CHR ''0'' 10 = 0"
      by (simp_all add: digit_value_def)
    show ?thesis
      using Cons True by (auto simp: digits_val_append nine)
  next
    case False
    then have "code c \<noteq> code CHR ''9''"
      using of_char_eq_iff [of c "CHR ''9''"] by blast
    then have c: "48 \<le> code c" "code c < 57"
      using Cons.prems digit_codes [of c 10] by auto
    then have "code (char_of (code c + 1) :: char) = code c + 1"
      by (simp add: of_char_of)
    then have "digit_value (char_of (code c + 1)) 10 = digit_value c 10 + 1" "0 \<le> digit_value c 10"
      using c by (simp_all add: digit_value_def)
    then show ?thesis
      using Cons.prems False by (simp add: digits_val_append nat_add_distrib)
  qed
qed

lemma increment_decimal_val:
  assumes "digits_in 10 s"
  shows "digits_in 10 (increment_decimal s)" "digits_val 10 (increment_decimal s) = digits_val 10 s + 1"
    "length (increment_decimal s) = length s \<or> length (increment_decimal s) = Suc (length s) \<and> digits_val 10 s + 1 = 10 ^ length s"
  using increment_loop_val [of "rev s"] assms by (simp_all add: increment_decimal_def)

section \<open>Candidates that parse back\<close>

lemma parses_to_iff:
  assumes v: "is_finite_nonzero (classification (decode v))" "\<not> pseudo_denormal v"
    and d: "descriptor (semantics v) = Some d" and l: "lit_ok l" "lit_in_range l" "lit_number l \<noteq> 0"
  shows "parses_to v (lit_text l) \<longleftrightarrow>
    lit_negative l = negative (decode v) \<and> round_to d NearestTiesToEven (negative (decode v)) (lit_value l) = mag (decode v)"
proof -
  obtain r where r: "rounded (semantics v) default_control (lit_negative l) (lit_value l) r"
    and parse: "parse (lit_text l) (semantics v) default_control = from_float_result r"
    using parse_literal_rounded [OF l(1) d l(2), of default_control] l(3) by auto
  let ?y = "round_to d NearestTiesToEven (lit_negative l) (lit_value l)"
  have "representable d (mag (decode v))"
    by (rule finite_operand [OF v(1)]) (use d in \<open>auto simp: representable_def mag_def\<close>)
  then have max: "mag (decode v) < 2 powi (max_normal_exponent d + 1)"
    using pair_lt_max [OF d] by (auto simp: representable_def)
  have round: "if 2 powi (max_normal_exponent d + 1) \<le> ?y then classification (decode (fr_value r)) = ClsInfinity
    else exact_result (semantics v) (lit_negative l) ?y (r\<lparr>fr_status := 0\<rparr>) \<and> fr_error r = NoError"
    using r by (auto simp: rounded_def d default_control_def overflowed_def round_up_modes [simplified] exact_result_def Let_def)
  show ?thesis
  proof
    assume "parses_to v (lit_text l)"
    then have "fr_value r = v"
      by (simp add: parses_to_def parse from_float_result_def)
    then show "lit_negative l = negative (decode v) \<and> round_to d NearestTiesToEven (negative (decode v)) (lit_value l) = mag (decode v)"
      using round v(1) by (auto simp: exact_result_def is_finite_nonzero_def split: if_splits)
  next
    assume y: "lit_negative l = negative (decode v) \<and> round_to d NearestTiesToEven (negative (decode v)) (lit_value l) = mag (decode v)"
    then have ex: "exact_result (semantics v) (negative (decode v)) (mag (decode v)) (r\<lparr>fr_status := 0\<rparr>)" "fr_error r = NoError"
      using round max by auto
    then have "fr_value r = v"
      using exact_result_unique [OF v ex(1)] by simp
    moreover have "value_valid v"
      using d by (auto simp: value_valid_def descriptor_def)
    ultimately show "parses_to v (lit_text l)"
      using ex(2) by (simp add: parses_to_def parse parse_has_value_def from_float_result_def)
  qed
qed

text \<open>The candidate for a coefficient is a decimal literal for the coefficient at its exponent.\<close>

definition decimal_literal :: "bool \<Rightarrow> string \<Rightarrow> string option \<Rightarrow> (string \<times> string) option \<Rightarrow> literal" where
  "decimal_literal neg i fr ex =
     \<lparr>lit_sign = (if neg then ''-'' else []), lit_hex = False, lit_int = i, lit_frac = fr, lit_exp = ex,
      lit_upper_x = False, lit_upper_e = False\<rparr>"

lemma decimal_literal_parts [simp]:
  "lit_negative (decimal_literal neg i fr ex) = neg" "\<not> lit_hex (decimal_literal neg i fr ex)"
  "lit_digits (decimal_literal neg i fr ex) = i @ (case fr of None \<Rightarrow> [] | Some f \<Rightarrow> f)"
  "lit_fraction (decimal_literal neg i fr ex) = (case fr of None \<Rightarrow> [] | Some f \<Rightarrow> f)"
  "lit_true_exponent (decimal_literal neg i fr ex) = (case ex of None \<Rightarrow> 0 | Some (sg, ds) \<Rightarrow> text_sign sg (int (digits_val 10 ds)))"
  "lit_text (decimal_literal neg i fr ex) = (if neg then ''-'' else []) @ i @ (case fr of None \<Rightarrow> [] | Some f \<Rightarrow> CHR ''.'' # f)
    @ (case ex of None \<Rightarrow> [] | Some (sg, ds) \<Rightarrow> CHR ''e'' # sg @ ds)"
  "lit_ok (decimal_literal neg i fr ex) \<longleftrightarrow> digits_in 10 (i @ (case fr of None \<Rightarrow> [] | Some f \<Rightarrow> f)) \<and> i @ (case fr of None \<Rightarrow> [] | Some f \<Rightarrow> f) \<noteq> []
     \<and> (case ex of None \<Rightarrow> True | Some (sg, ds) \<Rightarrow> sign_text sg \<and> digits_in 10 ds \<and> ds \<noteq> [])"
  by (simp_all add: decimal_literal_def lit_negative_def lit_digits_def lit_fraction_def lit_true_exponent_def lit_text_def
      lit_unsigned_def lit_prefix_def lit_significand_def lit_exponent_def lit_marker_def lit_ok_def lit_base_def sign_text_def split: option.split)

lemma decimal_literal_number:
  "lit_number (decimal_literal neg i fr ex) = digits_val 10 (i @ (case fr of None \<Rightarrow> [] | Some f \<Rightarrow> f))"
  by (simp add: lit_number_def lit_base_def)

definition spells :: "literal \<Rightarrow> bool \<Rightarrow> nat \<Rightarrow> int \<Rightarrow> bool" where
  "spells l neg m e \<longleftrightarrow> lit_ok l \<and> lit_in_range l \<and> \<not> lit_hex l \<and> lit_negative l = neg \<and> lit_number l \<noteq> 0
     \<and> lit_value l = real m * 10 powi e"

lemma spells_eq: "spells l neg m e \<Longrightarrow> real m * 10 powi e = real m' * 10 powi e' \<Longrightarrow> spells l neg m' e'"
  by (simp add: spells_def)

lemma spells_decimal:
  assumes "digits_in 10 ds" "0 < digits_val 10 ds" and fr: "i @ (case fr of None \<Rightarrow> [] | Some f \<Rightarrow> f) = ds"
    and ex: "case ex of None \<Rightarrow> k = 0 | Some (sg, es) \<Rightarrow> sign_text sg \<and> digits_in 10 es \<and> es \<noteq> [] \<and> text_sign sg (int (digits_val 10 es)) = k"
    and k: "\<bar>k\<bar> \<le> exponent_limit" "hd ds \<noteq> CHR ''0'' \<or> int (length i) + k \<le> 6001"
  shows "spells (decimal_literal neg i fr ex) neg (digits_val 10 ds) (k - int (case fr of None \<Rightarrow> 0 | Some f \<Rightarrow> length f))"
proof -
  let ?l = "decimal_literal neg i fr ex"
  have te: "lit_true_exponent ?l = k"
    using ex by (auto split: option.splits)
  have len: "length (lit_fraction ?l) = (case fr of None \<Rightarrow> 0 | Some f \<Rightarrow> length f)" "lit_digits ?l = ds"
    using fr by (simp_all split: option.split)
  have "length ds = length i + length (lit_fraction ?l)"
    using fr by (auto split: option.splits)
  then have "lit_in_range ?l"
    using k te len by (auto simp: lit_in_range_def)
  moreover have "lit_ok ?l"
    using assms(1,2) fr ex by (auto split: option.splits)
  ultimately show ?thesis
    using assms(2) te len unfolding spells_def
    by (simp only: lit_value_def lit_number_def lit_base_def decimal_literal_parts(1,2)) simp
qed

lemma strip_zeros:
  assumes "s \<noteq> []"
  obtains c m where "rev (strip_zeros_loop (rev s)) = c" "s = c @ replicate m CHR ''0''" "c \<noteq> []"
proof -
  have "\<exists>m. r = replicate m CHR ''0'' @ strip_zeros_loop r \<and> strip_zeros_loop r \<noteq> []" if "r \<noteq> []" for r
    using that
  proof (induction r rule: strip_zeros_loop.induct)
    case (1 c d r)
    then show ?case
      by (cases "c = CHR ''0''") (force intro: exI [of _ "Suc _"], force intro: exI [of _ 0])
  qed (auto intro: exI [of _ 0])
  then obtain m where m: "rev s = replicate m CHR ''0'' @ strip_zeros_loop (rev s)" "strip_zeros_loop (rev s) \<noteq> []"
    using assms by (metis rev_is_Nil_conv)
  have "s = rev (strip_zeros_loop (rev s)) @ replicate m CHR ''0''"
    using arg_cong [OF m(1), of rev] by simp
  then show thesis
    using that [OF refl] m(2) by blast
qed

definition scientific_form :: "string \<Rightarrow> int \<Rightarrow> string" where
  "scientific_form c k =
     [c ! 0] @ (if 1 < length c then CHR ''.'' # drop 1 c else []) @ (if k \<noteq> 0 then CHR ''e'' # to_string k else [])"

definition fixed_form :: "string \<Rightarrow> int \<Rightarrow> string" where
  "fixed_form c k =
     (if k + 1 \<le> 0 then ''0.'' @ replicate (nat (- (k + 1))) CHR ''0'' @ c
      else if int (length c) \<le> k + 1 then c @ replicate (nat (k + 1 - int (length c))) CHR ''0''
      else take (nat (k + 1)) c @ CHR ''.'' # drop (nat (k + 1)) c)"

lemma candidate_forms:
  assumes "rev (strip_zeros_loop (rev s)) = c"
  shows "candidate_spelling s k neg = (if neg then ''-'' else []) @
    (if length (fixed_form c k) \<le> length (scientific_form c k) then fixed_form c k else scientific_form c k)"
  unfolding candidate_spelling_def Let_def assms scientific_form_def [symmetric] fixed_form_def [symmetric] by simp

lemma form_literals:
  assumes c: "digits_in 10 c" "c \<noteq> []" "hd c \<noteq> CHR ''0''" and k: "\<bar>k\<bar> \<le> exponent_limit"
  shows "\<exists>l. spells l neg (digits_val 10 c) (k - int (length c) + 1) \<and> lit_text l = (if neg then ''-'' else []) @ scientific_form c k"
    and "\<exists>l. spells l neg (digits_val 10 c) (k - int (length c) + 1) \<and> lit_text l = (if neg then ''-'' else []) @ fixed_form c k"
proof -
  have "10 ^ (length c - 1) \<le> digits_val 10 c"
    by (rule digits_val_lower [OF c])
  then have pos: "0 < digits_val 10 c"
    using zero_less_power [of "10 :: nat" "length c - 1"] by linarith
  obtain a t where at: "c = a # t"
    using c(2) by (cases c) auto
  obtain sg es where e: "to_string k = sg @ es" "sign_text sg" "digits_in 10 es" "es \<noteq> []" "text_sign sg (int (digits_val 10 es)) = k"
    by (rule to_string_text)
  let ?sci = "decimal_literal neg [a] (if 1 < length c then Some t else None) (if k \<noteq> 0 then Some (sg, es) else None)"
  have "spells ?sci neg (digits_val 10 c) (k - int (length c) + 1)"
    using spells_decimal [OF c(1) pos, of "[a]" "if 1 < length c then Some t else None" k "if k \<noteq> 0 then Some (sg, es) else None" neg]
      c(3) k e by (cases "t = []"; cases "k = 0") (simp_all add: at)
  moreover have "lit_text ?sci = (if neg then ''-'' else []) @ scientific_form c k"
    using e(1) by (simp add: scientific_form_def at)
  ultimately show "\<exists>l. spells l neg (digits_val 10 c) (k - int (length c) + 1) \<and> lit_text l = (if neg then ''-'' else []) @ scientific_form c k"
    by blast
  consider "k + 1 \<le> 0" | "0 < k + 1" "int (length c) \<le> k + 1" | "0 < k + 1" "k + 1 < int (length c)"
    by linarith
  then show "\<exists>l. spells l neg (digits_val 10 c) (k - int (length c) + 1) \<and> lit_text l = (if neg then ''-'' else []) @ fixed_form c k"
  proof cases
    case 1
    let ?z = "replicate (nat (- (k + 1))) CHR ''0''"
    have "digits_val 10 (CHR ''0'' # ?z @ c) = digits_val 10 c" "digits_in 10 (CHR ''0'' # ?z @ c)"
      using digits_val_append [of 10 "replicate (Suc (nat (- (k + 1)))) CHR ''0''" c] zero_digit [of 10 "Suc (nat (- (k + 1)))"] c(1)
        digits_val_zeros [of 10 "Suc (nat (- (k + 1)))"] by simp_all
    then have "spells (decimal_literal neg ''0'' (Some (?z @ c)) None) neg (digits_val 10 c) (k - int (length c) + 1)"
      using spells_decimal [of "CHR ''0'' # ?z @ c" "''0''" "Some (?z @ c)" 0 None neg] pos 1
      by (simp add: exponent_limit_def algebra_simps)
    then show ?thesis
      using 1 by (intro exI [of _ "decimal_literal neg ''0'' (Some (?z @ c)) None"]) (simp add: fixed_form_def)
  next
    case 2
    let ?z = "replicate (nat (k + 1 - int (length c))) CHR ''0''"
    have val: "digits_val 10 (c @ ?z) = digits_val 10 c * 10 ^ nat (k + 1 - int (length c))" "digits_in 10 (c @ ?z)"
      using digits_val_append [of 10 c ?z] zero_digit [of 10] c(1) by simp_all
    then have "spells (decimal_literal neg (c @ ?z) None None) neg (digits_val 10 (c @ ?z)) 0"
      using spells_decimal [of "c @ ?z" "c @ ?z" None 0 None neg] pos c(2,3) by (simp add: exponent_limit_def)
    moreover have "real (digits_val 10 c) * 10 powi (k - int (length c) + 1) = real (digits_val 10 (c @ ?z)) * 10 powi 0"
      using 2 unfolding val(1) by (simp add: power_int_def algebra_simps)
    ultimately have "spells (decimal_literal neg (c @ ?z) None None) neg (digits_val 10 c) (k - int (length c) + 1)"
      by (rule spells_eq [OF _ sym])
    then show ?thesis
      using 2 by (intro exI [of _ "decimal_literal neg (c @ ?z) None None"]) (simp add: fixed_form_def)
  next
    case 3
    have "spells (decimal_literal neg (take (nat (k + 1)) c) (Some (drop (nat (k + 1)) c)) None) neg (digits_val 10 c) (k - int (length c) + 1)"
      using spells_decimal [OF c(1) pos, of "take (nat (k + 1)) c" "Some (drop (nat (k + 1)) c)" 0 None neg] c(3) 3
      by (simp add: exponent_limit_def of_nat_diff algebra_simps)
    then show ?thesis
      using 3 by (intro exI [of _ "decimal_literal neg (take (nat (k + 1)) c) (Some (drop (nat (k + 1)) c)) None"]) (simp add: fixed_form_def)
  qed
qed

lemma candidate_literal:
  assumes c: "digits_in 10 s" "s \<noteq> []" "hd s \<noteq> CHR ''0''" and k: "\<bar>k\<bar> \<le> exponent_limit"
  obtains l where "spells l neg (digits_val 10 s) (k - int (length s) + 1)" "lit_text l = candidate_spelling s k neg"
proof -
  obtain c m where strip: "rev (strip_zeros_loop (rev s)) = c" "s = c @ replicate m CHR ''0''" "c \<noteq> []"
    by (rule strip_zeros [OF c(2)])
  have c': "digits_in 10 c" "hd c \<noteq> CHR ''0''"
    using c strip(2,3) by simp_all
  have "\<exists>l. spells l neg (digits_val 10 c) (k - int (length c) + 1) \<and> lit_text l = candidate_spelling s k neg"
    unfolding candidate_forms [OF strip(1)] using form_literals [OF c'(1) strip(3) c'(2) k, of neg]
    by (cases "length (fixed_form c k) \<le> length (scientific_form c k)") (simp_all only: if_True if_False)
  moreover have "digits_val 10 s = digits_val 10 c * 10 ^ m"
    by (simp add: strip(2) digits_val_append)
  then have "real (digits_val 10 s) * 10 powi (k - int (length s) + 1) = real (digits_val 10 c) * 10 powi (k - int (length c) + 1)"
    using ten_ratio [of "k - int (length s) + 1" "k - int (length c) + 1"] strip(2)
    by (simp add: algebra_simps)
  ultimately show thesis
    using that spells_eq by metis
qed

text \<open>What is tried for a coefficient: a coefficient that grew by a digit loses its last one.\<close>

definition candidate :: "nat \<Rightarrow> int \<Rightarrow> bool \<Rightarrow> string \<Rightarrow> string" where
  "candidate count k neg c =
     (if count < length c then candidate_spelling (butlast c) (k + 1) neg else candidate_spelling c k neg)"

definition significant :: "nat \<Rightarrow> real \<Rightarrow> bool" where
  "significant n x \<longleftrightarrow> (\<exists>m e. m < 10 ^ n \<and> x = real m * 10 powi e)"

lemma candidate_same:
  assumes "digits_in 10 p" "length p = n" "0 < n" "10 ^ (n - 1) \<le> digits_val 10 p" and k: "\<bar>k\<bar> < exponent_limit"
  obtains l where "spells l neg (digits_val 10 p) (k - int n + 1)" "lit_text l = candidate n k neg p" "significant n (lit_value l)"
proof -
  have "p \<noteq> []" "hd p \<noteq> CHR ''0''"
    using assms(2-4) digits_hd [OF assms(1)] by auto
  then obtain l where l: "spells l neg (digits_val 10 p) (k - int n + 1)" "lit_text l = candidate_spelling p k neg"
    using candidate_literal [OF assms(1), of k neg] k assms(2) by (metis less_imp_le)
  moreover have "digits_val 10 p < 10 ^ n"
    using digits_val_lt [of 10 p] assms(2) by simp
  ultimately show thesis
    using that assms(2) by (auto simp: candidate_def spells_def significant_def)
qed

lemma candidate_next:
  assumes p: "digits_in 10 p" "length p = n" "0 < n" "10 ^ (n - 1) \<le> digits_val 10 p" and k: "\<bar>k\<bar> < exponent_limit"
  obtains l where "spells l neg (digits_val 10 p + 1) (k - int n + 1)" "lit_text l = candidate n k neg (increment_decimal p)"
    "significant n (lit_value l)"
proof -
  note i = increment_decimal_val [OF p(1)]
  consider "length (increment_decimal p) = n" | "length (increment_decimal p) = Suc n" "digits_val 10 p + 1 = 10 ^ n"
    using i(3) p(2) by auto
  then show thesis
  proof cases
    case 1
    show ?thesis
      by (rule candidate_same [OF i(1) 1 p(3) _ k, of neg]) (use p(4) i(2) that in auto)
  next
    case 2
    obtain q c where qc: "increment_decimal p = q @ [c]"
      using 2(1) by (cases "increment_decimal p" rule: rev_cases) auto
    have q: "digits_in 10 q" "length q = n" "0 \<le> digit_value c 10" "digit_value c 10 < 10"
      using i(1) 2(1) digit_value_bounds(1) [of c 10] by (auto simp: qc)
    obtain j where j: "n = Suc j"
      using p(3) by (cases n) auto
    have "digits_val 10 q * 10 + nat (digit_value c 10) = 10 * 10 ^ j"
      using i(2) 2(2) by (simp add: qc digits_val_append j)
    then have "digits_val 10 q = 10 ^ j"
      using q(3,4) by linarith
    then have val: "digits_val 10 q = 10 ^ (n - 1)"
      by (simp add: j)
    obtain l where l: "spells l neg (digits_val 10 q) (k + 1 - int n + 1)" "lit_text l = candidate_spelling q (k + 1) neg"
    proof (rule candidate_literal [OF q(1), of "k + 1" neg])
      show "q \<noteq> []" "hd q \<noteq> CHR ''0''"
        using q(2) p(3) digits_hd [OF q(1)] val by auto
      show "\<bar>k + 1\<bar> \<le> exponent_limit"
        using k by linarith
    qed (use q(2) in simp)
    have eq: "real (digits_val 10 q) * 10 powi (k + 1 - int n + 1) = real (digits_val 10 p + 1) * 10 powi (k - int n + 1)"
      using 2(2) power_int_add [of "10 :: real" "k - int n + 1" 1] by (simp add: val j algebra_simps)
    have "(10 :: nat) ^ (n - 1) < 10 ^ n"
      by (simp add: j)
    then have sig: "significant n (lit_value l)"
      using l(1) unfolding significant_def spells_def val by blast
    show ?thesis
      by (rule that [OF spells_eq [OF l(1) eq] _ sig]) (use l(2) 2(1) q(2) in \<open>simp add: candidate_def qc\<close>)
  qed
qed

section \<open>The loop\<close>

lemma better_candidate_cases:
  "better_candidate v n k neg best c =
    (if parses_to v (candidate n k neg c)
        \<and> (best = [] \<or> length (candidate n k neg c) < length best
           \<or> (length (candidate n k neg c) = length best \<and> candidate n k neg c < best))
     then candidate n k neg c else best)"
  by (cases "n < length c") (auto simp: better_candidate_def candidate_def parses_to_def Let_def)

lemma best_candidate:
  assumes "\<forall>c \<in> set cs. candidate n k neg c \<noteq> []"
  shows "(let r = foldl (better_candidate v n k neg) best cs
    in (r = best \<or> (\<exists>c \<in> set cs. r = candidate n k neg c \<and> parses_to v r))
      \<and> (r = [] \<longleftrightarrow> best = [] \<and> (\<forall>c \<in> set cs. \<not> parses_to v (candidate n k neg c))))"
  using assms
proof (induction cs arbitrary: best)
  case (Cons c cs)
  show ?case
    using Cons.IH [of "better_candidate v n k neg best c"] Cons.prems
    by (auto simp: Let_def better_candidate_cases split: if_splits)
qed simp

lemma display_loop_first:
  assumes "\<forall>n \<in> set counts. \<forall>c \<in> set (display_coefficients ds n). candidate n k neg c \<noteq> []"
    and "\<exists>n \<in> set counts. \<exists>c \<in> set (display_coefficients ds n). parses_to v (candidate n k neg c)"
  shows "\<exists>xs n ys c. counts = xs @ n # ys \<and> c \<in> set (display_coefficients ds n)
    \<and> display_loop counts v ds k neg = candidate n k neg c \<and> parses_to v (candidate n k neg c)
    \<and> (\<forall>j \<in> set xs. \<forall>c \<in> set (display_coefficients ds j). \<not> parses_to v (candidate j k neg c))"
  using assms
proof (induction counts)
  case (Cons n counts)
  define best where "best = foldl (better_candidate v n k neg) [] (display_coefficients ds n)"
  have b: "best = [] \<or> (\<exists>c \<in> set (display_coefficients ds n). best = candidate n k neg c \<and> parses_to v best)"
    "best = [] \<longleftrightarrow> (\<forall>c \<in> set (display_coefficients ds n). \<not> parses_to v (candidate n k neg c))"
    using best_candidate [of "display_coefficients ds n" n k neg v "[]"] Cons.prems(1) unfolding best_def Let_def by auto
  show ?case
  proof (cases "best = []")
    case True
    then have loop: "display_loop (n # counts) v ds k neg = display_loop counts v ds k neg"
      by (simp add: best_def)
    obtain xs m ys c where "counts = xs @ m # ys" "c \<in> set (display_coefficients ds m)"
      "display_loop counts v ds k neg = candidate m k neg c" "parses_to v (candidate m k neg c)"
      "\<forall>j \<in> set xs. \<forall>c \<in> set (display_coefficients ds j). \<not> parses_to v (candidate j k neg c)"
      using Cons True b(2) by auto
    then show ?thesis
      using True b(2) loop by (intro exI [of _ "n # xs"] exI [of _ m] exI [of _ ys] exI [of _ c]) simp
  next
    case False
    then have "display_loop (n # counts) v ds k neg = best"
      by (simp add: best_def)
    moreover obtain c where "c \<in> set (display_coefficients ds n)" "best = candidate n k neg c" "parses_to v best"
      using False b(1) by auto
    ultimately show ?thesis
      by (intro exI [of _ "[]"] exI [of _ n] exI [of _ counts] exI [of _ c]) simp
  qed
qed simp

text \<open>The coefficients tried with \<open>n\<close> digits: the number cut off, and the next one unless nothing was lost.\<close>

lemma coefficients_set:
  "\<exists>p. set (display_coefficients ds n)
     = (if n < length ds \<and> (\<exists>c \<in> set (drop n ds). c \<noteq> CHR ''0'') then {p, increment_decimal p} else {p})
   \<and> p = take (min n (length ds)) ds @ replicate (n - length ds) CHR ''0''"
  by (auto simp: display_coefficients_def Let_def min_def)

lemma coefficients_cut:
  assumes ds: "digits_in 10 ds" "ds \<noteq> []" "10 ^ (length ds - 1) \<le> digits_val 10 ds" and n: "0 < n"
    and x: "x = real (digits_val 10 ds) * 10 powi (- int scale)" and k: "k = int (length ds) - int scale - 1"
  obtains p where "digits_in 10 p" "length p = n" "cut x k n (digits_val 10 p)"
    "set (display_coefficients ds n) = (if x = real (digits_val 10 p) * 10 powi (k - int n + 1) then {p} else {p, increment_decimal p})"
proof -
  let ?L = "length ds" and ?t = "\<lambda>p. real (digits_val 10 p) * 10 powi (k - int n + 1)"
  define p where "p = take (min n ?L) ds @ replicate (n - ?L) CHR ''0''"
  have coeffs: "set (display_coefficients ds n)
      = (if n < ?L \<and> (\<exists>c \<in> set (drop n ds). c \<noteq> CHR ''0'') then {p, increment_decimal p} else {p})"
    using coefficients_set [of ds n] by (auto simp: p_def)
  have p: "digits_in 10 p" "length p = n" "p \<noteq> []" "hd p \<noteq> CHR ''0''"
    using ds(1) n digits_hd [OF ds] ds(2) zero_digit [of 10 "n - ?L"] by (auto simp: p_def digits_in_def min_def dest: in_set_takeD)
  have t: "10 ^ (n - 1) \<le> digits_val 10 p" "digits_val 10 p < 10 ^ n"
    using digits_val_lower [OF p(1,3,4)] digits_val_lt [of 10 p] p(2) by simp_all
  have low: "10 powi k \<le> x"
  proof -
    have "10 powi k = real (10 ^ (?L - 1)) * 10 powi (- int scale)"
      using ten_ratio [of "- int scale" k] k ds(2) by (simp add: nat_diff_distrib Suc_leI)
    also have "\<dots> \<le> x"
      unfolding x using ds(3) by (intro mult_right_mono) (simp_all only: of_nat_le_iff, simp)
    finally show ?thesis .
  qed
  have cut: "?t p \<le> x \<and> x < real (digits_val 10 p + 1) * 10 powi (k - int n + 1)
    \<and> (x = ?t p \<longleftrightarrow> \<not> (n < ?L \<and> (\<exists>c \<in> set (drop n ds). c \<noteq> CHR ''0'')))"
  proof (cases "n < ?L")
    case True
    define r u where "r = digits_val 10 (drop n ds)" and "u = (10 :: real) powi (- int scale)"
    have P: "p = take n ds"
      using True by (simp add: p_def min_def)
    have r: "r < 10 ^ (?L - n)" "r = 0 \<longleftrightarrow> (\<forall>c \<in> set (drop n ds). c = CHR ''0'')"
      using digits_val_lt [of 10 "drop n ds"] digits_zero_iff [of "drop n ds"] ds(1)
      by (auto simp: r_def digits_in_def dest: in_set_dropD)
    have "k - int n + 1 = int (?L - n) + (- int scale)"
      using True k by (simp add: of_nat_diff)
    then have unit: "10 powi (k - int n + 1) = 10 ^ (?L - n) * u"
      using power_int_add [of "10 :: real" "int (?L - n)" "- int scale"] by (simp add: u_def)
    have "digits_val 10 ds = digits_val 10 p * 10 ^ (?L - n) + r"
      using digits_val_append [of 10 "take n ds" "drop n ds"] True by (simp add: P r_def)
    then have xr: "x = ?t p + real r * u"
      unfolding x unit by (simp add: u_def distrib_right)
    have "real r < 10 ^ (?L - n)"
      using r(1) by (metis of_nat_less_iff of_nat_numeral of_nat_power)
    then have "real r * u < 10 ^ (?L - n) * u"
      by (simp add: u_def)
    moreover have "0 \<le> real r * u" "real r * u = 0 \<longleftrightarrow> r = 0"
      by (simp_all add: u_def)
    ultimately show ?thesis
      using xr r(2) True unit by (auto simp: distrib_right)
  next
    case False
    have "digits_val 10 p = digits_val 10 ds * 10 ^ (n - ?L)"
      using False by (simp add: p_def digits_val_append min_def)
    moreover have "k - int n + 1 = - int scale - int (n - ?L)"
      using False k by (simp add: of_nat_diff)
    then have "real (10 ^ (n - ?L)) * 10 powi (k - int n + 1) = 10 powi (- int scale)"
      using ten_ratio [of "- int scale - int (n - ?L)" "- int scale"] by simp
    ultimately have "x = ?t p"
      by (simp add: x mult.assoc)
    then show ?thesis
      using False by simp
  qed
  show thesis
  proof (rule that [OF p(1,2)])
    show "cut x k n (digits_val 10 p)"
      unfolding cut_def using n low t cut by blast
    show "set (display_coefficients ds n) = (if x = ?t p then {p} else {p, increment_decimal p})"
      unfolding coeffs using cut by presburger
  qed
qed

text \<open>The exact decimal digits of a value.\<close>

definition exact_decimal :: "decoded_float \<Rightarrow> biguint \<times> nat" where
  "exact_decimal x =
     (if 0 \<le> exponent x then (shifted_left (significand x) (nat (exponent x)), 0)
      else (big_multiply (significand x) (power_of_five (nat (- exponent x))), nat (- exponent x)))"

lemma exact_decimal_val:
  assumes "bnorm (significand x)" "exact_decimal x = (D, scale)"
  shows "bnorm D" "mag x = real (bval D) * 10 powi (- int scale)"
proof -
  show "bnorm D"
    using assms by (auto simp: exact_decimal_def big_wf power_of_five_val split: if_splits)
  show "mag x = real (bval D) * 10 powi (- int scale)"
  proof (cases "0 \<le> exponent x")
    case True
    then show ?thesis
      using assms by (auto simp: exact_decimal_def mag_def big_val power_int_def)
  next
    case False
    have "(10 :: real) powi exponent x = inverse (5 powi (- exponent x)) * 2 powi exponent x"
      by (simp add: power_int_minus flip: power_int_mult_distrib)
    moreover have "(5 :: real) powi (- exponent x) = 5 ^ nat (- exponent x)"
      using False by (simp add: power_int_def)
    ultimately show ?thesis
      using assms False by (auto simp: exact_decimal_def mag_def big_val power_of_five_val)
  qed
qed

lemma decimal_exponent_bound:
  assumes d: "descriptor f = Some d" and x: "finite_pair d M q" "x = real M * 2 powi q"
    and k: "10 powi k \<le> x" "x < 10 powi (k + 1)"
  shows "\<bar>k\<bar> < exponent_limit"
proof -
  have "(2 :: real) powi q \<le> x"
    using x by (simp add: finite_pair_def)
  moreover have "(2 :: real) powi (- 16494) \<le> 2 powi q"
    using x(1) format_exponents [OF d] by (intro power_int_increasing) (auto simp: finite_pair_def)
  ultimately have lo: "(2 :: real) powi (- 16494) \<le> x"
    by linarith
  have "x < 2 powi (max_normal_exponent d + 1)"
    using pair_lt_max [OF d x(1)] x(2) by simp
  also have "\<dots> \<le> 2 powi 16384"
    using format_exponents [OF d] by (intro power_int_increasing) auto
  finally have hi: "x < 2 powi 16384" .
  have "3 * k < 16384" if "0 \<le> k"
    by (rule two_powi_less [THEN iffD2, OF le_less_trans [OF order_trans [OF ten_powi_ge [OF that] k(1)] hi]])
  moreover have "- 16494 < 3 * (k + 1)" if "k + 1 \<le> 0"
    by (rule two_powi_less [THEN iffD2, OF le_less_trans [OF lo less_le_trans [OF k(2) ten_powi_le [OF that]]]])
  ultimately show ?thesis
    unfolding exponent_limit_def by (cases "0 \<le> k") auto
qed

text \<open>What is tried with \<open>n\<close> digits, and when one of the candidates parses back.\<close>

lemma tried:
  assumes v: "is_finite_nonzero (classification (decode v))" "\<not> pseudo_denormal v" and d: "descriptor (semantics v) = Some d"
    and ds: "digits_in 10 ds" "ds \<noteq> []" "10 ^ (length ds - 1) \<le> digits_val 10 ds"
    and x: "mag (decode v) = real (digits_val 10 ds) * 10 powi (- int scale)" and k: "k = int (length ds) - int scale - 1"
    and limit: "\<bar>k\<bar> < exponent_limit" and n: "0 < n"
  defines "u \<equiv> (10 :: real) powi (k - int n + 1)" and "tried \<equiv> candidate n k (negative (decode v)) ` set (display_coefficients ds n)"
    and "back \<equiv> \<lambda>y. round_to d NearestTiesToEven (negative (decode v)) y = mag (decode v)"
  shows "\<forall>s \<in> tried. \<exists>l. lit_ok l \<and> \<not> lit_hex l \<and> lit_text l = s \<and> significant n (lit_value l)"
    and "\<exists>t. cut (mag (decode v)) k n t
      \<and> ((\<exists>s \<in> tried. parses_to v s) \<longleftrightarrow> back (real t * u) \<or> mag (decode v) \<noteq> real t * u \<and> back (real (t + 1) * u))"
proof -
  let ?neg = "negative (decode v)" and ?x = "mag (decode v)"
  obtain p where p: "digits_in 10 p" "length p = n" and cut: "cut ?x k n (digits_val 10 p)"
    and set: "set (display_coefficients ds n) = (if ?x = real (digits_val 10 p) * u then {p} else {p, increment_decimal p})"
    unfolding u_def by (rule coefficients_cut [OF ds n x k])
  have low: "10 ^ (n - 1) \<le> digits_val 10 p"
    using cut by (simp add: cut_def)
  obtain l where l: "spells l ?neg (digits_val 10 p) (k - int n + 1)" "lit_text l = candidate n k ?neg p" "significant n (lit_value l)"
    by (rule candidate_same [OF p n low limit])
  obtain l' where l': "spells l' ?neg (digits_val 10 p + 1) (k - int n + 1)"
      "lit_text l' = candidate n k ?neg (increment_decimal p)" "significant n (lit_value l')"
    by (rule candidate_next [OF p n low limit])
  have tried: "tried = (if ?x = real (digits_val 10 p) * u then {lit_text l} else {lit_text l, lit_text l'})"
    unfolding tried_def set l(2) l'(2) by simp
  show "\<forall>s \<in> tried. \<exists>l. lit_ok l \<and> \<not> lit_hex l \<and> lit_text l = s \<and> significant n (lit_value l)"
    unfolding tried using l(1,3) l'(1,3) by (auto simp: spells_def)
  have "parses_to v (lit_text m) \<longleftrightarrow> back (real j * u)" if "spells m ?neg j (k - int n + 1)" for m j
    using parses_to_iff [OF v d, of m] that by (simp add: spells_def back_def u_def)
  from this [OF l(1)] this [OF l'(1)]
  show "\<exists>t. cut (mag (decode v)) k n t
      \<and> ((\<exists>s \<in> tried. parses_to v s) \<longleftrightarrow> back (real t * u) \<or> mag (decode v) \<noteq> real t * u \<and> back (real (t + 1) * u))"
    using cut unfolding tried by (intro exI [of _ "digits_val 10 p"]) auto
qed

text \<open>The greatest number of digits that is tried is enough for every format.\<close>

definition max_digits :: "format_descriptor \<Rightarrow> nat" where
  "max_digits d = (precision d * 30103 + 99999) div 100000 + 1"

lemma max_digits_enough: "descriptor f = Some d \<Longrightarrow> 2 ^ precision d < (10 :: nat) ^ (max_digits d - 1) \<and> 1 \<le> max_digits d"
  by (auto simp: descriptor_def max_digits_def split: float_format.splits)

lemma display_finite:
  assumes "is_finite_nonzero (classification (decode v))" and "descriptor (semantics v) = Some d"
    and "exact_decimal (decode v) = (D, scale)"
  shows "display v = display_loop [1..<max_digits d + 1] v (to_decimal D) (int (length (to_decimal D)) - int scale - 1) (negative (decode v))"
  using assms(1,3) unfolding display_def Let_def assms(2) max_digits_def [symmetric] exact_decimal_def [symmetric] assms(3)
  by (auto simp: is_finite_nonzero_def is_nan_class_def)

lemma finite_magnitude:
  assumes "is_finite_nonzero (classification (decode v))" and "descriptor (semantics v) = Some d"
  shows "0 < mag (decode v) \<and> representable d (mag (decode v))"
  by (rule finite_operand [OF assms(1)]) (use assms(2) in \<open>auto simp: representable_def mag_def\<close>)

lemma parses_to_spelled:
  assumes "lit_ok l" "descriptor (semantics v) \<noteq> None" "spelled l s"
  shows "parses_to v s \<longleftrightarrow> parses_to v (lit_text l)"
  using parse_spelled [OF assms] parse_literal [OF assms(1,2)] by (simp add: parses_to_def)

lemma zero_literal_other:
  assumes v: "is_finite_nonzero (classification (decode v))" and d: "descriptor (semantics v) = Some d"
    and l: "lit_ok l" "lit_in_range l" "lit_number l = 0"
  shows "\<not> parses_to v (lit_text l)"
proof
  assume "parses_to v (lit_text l)"
  then have "classification (decode (zero (semantics v) (lit_negative l))) = classification (decode v)"
    using parse_literal_rounded [OF l(1) d l(2), of default_control] l(3) by (auto simp: parses_to_def parse_value_def)
  then show False
    using decode_zero_value [OF d, of "lit_negative l"] v by (auto simp: is_finite_nonzero_def)
qed

lemma display_digits:
  assumes v: "is_finite_nonzero (classification (decode v))" and d: "descriptor (semantics v) = Some d"
  obtains ds scale k where "digits_in 10 ds" "ds \<noteq> []" "10 ^ (length ds - 1) \<le> digits_val 10 ds"
    "mag (decode v) = real (digits_val 10 ds) * 10 powi (- int scale)" "k = int (length ds) - int scale - 1" "\<bar>k\<bar> < exponent_limit"
    "display v = display_loop [1..<max_digits d + 1] v ds k (negative (decode v))"
proof -
  let ?x = "mag (decode v)"
  obtain d' s e m where "descriptor (semantics v) = Some d'" and norm: "bnorm (significand (decode v))" and x: "0 < ?x"
    and fp': "finite_pair d' (bval (significand (decode v))) (exponent (decode v))"
    by (rule finite_operand [OF v])
  then have fp: "finite_pair d (bval (significand (decode v))) (exponent (decode v))"
    using d by simp
  obtain D scale where D: "exact_decimal (decode v) = (D, scale)"
    by fastforce
  note val = exact_decimal_val [OF norm D]
  have pos: "0 < bval D"
    using x val(2) by (cases "bval D = 0") auto
  define ds k where "ds = to_decimal D" and "k = int (length ds) - int scale - 1"
  have ds: "digits_in 10 ds" "ds \<noteq> []" "10 ^ (length ds - 1) \<le> digits_val 10 ds" and xds: "?x = real (digits_val 10 ds) * 10 powi (- int scale)"
    using to_decimal_val [OF val(1)] to_decimal_lower [OF val(1) pos] val(2) by (simp_all add: ds_def)
  have limit: "\<bar>k\<bar> < exponent_limit"
  proof (rule coefficients_cut [OF ds zero_less_one xds k_def])
    fix p
    assume "cut ?x k 1 (digits_val 10 p)"
    then have c: "10 powi k \<le> ?x" "digits_val 10 p < 10" "?x < real (digits_val 10 p + 1) * 10 powi k"
      by (auto simp: cut_def)
    have "real (digits_val 10 p + 1) * 10 powi k \<le> 10 * 10 powi k"
      using c(2) by (intro mult_right_mono) simp_all
    also have "\<dots> = 10 powi (k + 1)"
      by (simp add: power_int_add)
    finally have "?x < 10 powi (k + 1)"
      using c(3) by linarith
    then show ?thesis
      using decimal_exponent_bound [OF d fp mag_def c(1)] by simp
  qed
  show thesis
    by (rule that [OF ds xds k_def limit]) (use display_finite [OF v d D] in \<open>simp add: ds_def k_def\<close>)
qed

text \<open>A literal with \<open>j\<close> digits that parses to the value makes one of the candidates with \<open>j\<close> digits do so.\<close>

lemma literal_tried:
  assumes v: "is_finite_nonzero (classification (decode v))" "\<not> pseudo_denormal v" and d: "descriptor (semantics v) = Some d"
    and ds: "digits_in 10 ds" "ds \<noteq> []" "10 ^ (length ds - 1) \<le> digits_val 10 ds"
    and x: "mag (decode v) = real (digits_val 10 ds) * 10 powi (- int scale)" and k: "k = int (length ds) - int scale - 1"
    and limit: "\<bar>k\<bar> < exponent_limit"
    and l: "lit_ok l" "lit_in_range l" "significant j (lit_value l)" "spelled l s" "parses_to v s"
  shows "0 < j \<and> (\<exists>c \<in> set (display_coefficients ds j). parses_to v (candidate j k (negative (decode v)) c))"
proof -
  let ?x = "mag (decode v)" and ?neg = "negative (decode v)"
  have pos: "0 < ?x" and rep: "representable d ?x"
    using finite_magnitude [OF v(1) d] by blast+
  have text_parses: "parses_to v (lit_text l)"
    using parses_to_spelled [OF l(1) _ l(4)] l(5) d by fastforce
  then have nz: "lit_number l \<noteq> 0"
    using zero_literal_other [OF v(1) d l(1,2)] by blast
  then have z: "0 < lit_value l" "round_to d NearestTiesToEven ?neg (lit_value l) = ?x"
    using parses_to_iff [OF v d l(1,2) nz] text_parses by (auto simp: lit_value_def)
  obtain m e where m: "lit_value l = real m * 10 powi e" "m < 10 ^ j"
    using l(3) by (auto simp: significant_def)
  have j: "0 < j"
    using z(1) m by (cases j) auto
  obtain t where t: "cut ?x k j t"
    and tried: "(\<exists>s \<in> candidate j k ?neg ` set (display_coefficients ds j). parses_to v s) \<longleftrightarrow>
      round_to d NearestTiesToEven ?neg (real t * 10 powi (k - int j + 1)) = ?x
      \<or> ?x \<noteq> real t * 10 powi (k - int j + 1) \<and> round_to d NearestTiesToEven ?neg (real (t + 1) * 10 powi (k - int j + 1)) = ?x"
    using tried(2) [OF v d ds x k limit j] by blast
  show ?thesis
    using fewest_digits [OF d pos rep t z(1) m z(2)] tried j by blast
qed

lemma display_fewest:
  assumes v: "is_finite_nonzero (classification (decode v))" "\<not> pseudo_denormal v" and d: "descriptor (semantics v) = Some d"
  shows "\<exists>l n. lit_ok l \<and> \<not> lit_hex l \<and> display v = lit_text l \<and> significant n (lit_value l) \<and> n \<le> max_digits d
    \<and> parses_to v (display v)
    \<and> (\<forall>l' s j. lit_ok l' \<longrightarrow> lit_in_range l' \<longrightarrow> significant j (lit_value l') \<longrightarrow> spelled l' s \<longrightarrow> parses_to v s \<longrightarrow> n \<le> j)"
proof -
  let ?x = "mag (decode v)" and ?neg = "negative (decode v)"
  obtain ds scale k where ds: "digits_in 10 ds" "ds \<noteq> []" "10 ^ (length ds - 1) \<le> digits_val 10 ds"
    "?x = real (digits_val 10 ds) * 10 powi (- int scale)" "k = int (length ds) - int scale - 1" "\<bar>k\<bar> < exponent_limit"
    and loop: "display v = display_loop [1..<max_digits d + 1] v ds k ?neg"
    by (rule display_digits [OF v(1) d])
  have pos: "0 < ?x" and rep: "representable d ?x"
    using finite_magnitude [OF v(1) d] by blast+
  note t = tried [OF v d ds]
  have lit: "\<exists>l. lit_ok l \<and> \<not> lit_hex l \<and> lit_text l = candidate n k ?neg c \<and> significant n (lit_value l)"
    if "n \<in> set [1..<max_digits d + 1]" "c \<in> set (display_coefficients ds n)" for n c
    using t(1) [of n] that by fastforce
  then have nonempty: "\<forall>n \<in> set [1..<max_digits d + 1]. \<forall>c \<in> set (display_coefficients ds n). candidate n k ?neg c \<noteq> []"
    using literal_plain(1) unfolding plain_end_def by metis
  have "\<exists>s \<in> candidate (max_digits d) k ?neg ` set (display_coefficients ds (max_digits d)). parses_to v s"
    using t(2) [of "max_digits d"] enough_digits [OF d pos rep] max_digits_enough [OF d] round_to_exact [OF d pos rep]
    by (metis less_le_trans zero_less_one)
  then have some: "\<exists>n \<in> set [1..<max_digits d + 1]. \<exists>c \<in> set (display_coefficients ds n). parses_to v (candidate n k ?neg c)"
    using max_digits_enough [OF d] by (intro bexI [of _ "max_digits d"]) auto
  obtain xs n ys c where n: "[1..<max_digits d + 1] = xs @ n # ys" "c \<in> set (display_coefficients ds n)"
    and shown: "display v = candidate n k ?neg c" "parses_to v (candidate n k ?neg c)"
    and first: "\<forall>j \<in> set xs. \<forall>c \<in> set (display_coefficients ds j). \<not> parses_to v (candidate j k ?neg c)"
    using display_loop_first [OF nonempty some] loop by metis
  have mem: "n \<in> set [1..<max_digits d + 1]"
    unfolding n(1) by simp
  have before: "j \<in> set xs" if "0 < j" "j < n" for j
  proof -
    have "sorted_wrt (<) (xs @ n # ys)"
      using sorted_wrt_upt [of 1 "max_digits d + 1"] by (simp only: n(1))
    moreover have "j \<in> set (xs @ n # ys)"
      using that mem by (simp del: upt_Suc flip: n(1))
    ultimately show ?thesis
      using that by (auto simp: sorted_wrt_append)
  qed
  have "n \<le> j" if "lit_ok l'" "lit_in_range l'" "significant j (lit_value l')" "spelled l' s" "parses_to v s" for l' s j
    using literal_tried [OF v d ds that] before [of j] first by (meson not_le)
  then show ?thesis
    using lit [OF mem n(2)] shown mem by (metis add.commute atLeastLessThan_iff less_Suc_eq_le plus_1_eq_Suc set_upt)
qed

section \<open>Property\<close>

text \<open>
  C25: \<open>display\<close> writes a finite value other than zero as a decimal literal that parses back to the
  value, and with the fewest significant digits any literal for the value has: no spelling of a
  literal, decimal or hexadecimal, whose number needs fewer digits parses to the value. At most
  the number of digits the code computes for the format is used, so the hexadecimal fallback is
  never reached. Pseudo-denormal encodings of the x87 format, which no operation returns, are left out.
\<close>

theorem display_shortest:
  assumes "is_finite_nonzero (classification (decode v))" and "\<not> pseudo_denormal v" and "descriptor (semantics v) = Some d"
  shows "\<exists>l n. lit_ok l \<and> \<not> lit_hex l \<and> display v = lit_text l \<and> significant n (lit_value l)
    \<and> n \<le> (precision d * 30103 + 99999) div 100000 + 1
    \<and> parse_has_value (parse (display v) (semantics v) default_control)
    \<and> pr_value (parse (display v) (semantics v) default_control) = v
    \<and> (\<forall>l' s j. lit_ok l' \<longrightarrow> lit_in_range l' \<longrightarrow> spelled l' s \<longrightarrow> significant j (lit_value l')
         \<longrightarrow> parse_has_value (parse s (semantics v) default_control)
         \<longrightarrow> pr_value (parse s (semantics v) default_control) = v \<longrightarrow> n \<le> j)"
  using display_fewest [OF assms] unfolding parses_to_def max_digits_def by blast

theorem display_shortest_witness:
  "\<exists>l n. lit_ok l \<and> display (f32 0xc0400000) = lit_text l \<and> significant n (lit_value l) \<and> n \<le> 9
    \<and> pr_value (parse (display (f32 0xc0400000)) IEEEBinary32 default_control) = f32 0xc0400000"
proof -
  obtain d where d: "descriptor IEEEBinary32 = Some d" "precision d = 24"
    by (simp add: descriptor_def)
  have f: "is_finite_nonzero (classification (decode (f32 0xc0400000)))" "semantics (f32 0xc0400000) = IEEEBinary32"
    using decode_minus_three by (simp_all add: is_finite_nonzero_def f32_def)
  have "\<not> pseudo_denormal (f32 0xc0400000)"
    by code_simp
  then show ?thesis
    using display_shortest [of "f32 0xc0400000" d] f d by force
qed

end
