(* ===== verification/Air_Insts.thy ===== *)
theory Air_Insts
  imports Prelude
begin

text \<open>
  The instruction set of AIR, the native intermediate representation (\<open>air/opcodes.def\<close>,
  \<open>air/insts.h\<close>, \<open>air/insts.cpp\<close>): opcodes and their traits, the condition, ordering and
  read-modify-write codes, their mnemonics, and the packing of auxiliary fields.
\<close>

section \<open>Enumerations\<close>

text \<open>
  An enumeration is its list of enumerators; the integer of an enumerator is its position. A
  cast from an integer is \<open>None\<close> where no enumerator has that integer. A table of names is
  indexed by it, and a name is looked up by a linear search.
\<close>

definition enum_code :: "'a list \<Rightarrow> 'a \<Rightarrow> nat" where
  "enum_code items x = length (takeWhile (\<lambda>y. y \<noteq> x) items)"

definition enum_of :: "'a list \<Rightarrow> nat \<Rightarrow> 'a option" where
  "enum_of items n = (if n < length items then Some (items ! n) else None)"

definition name_of :: "string list \<Rightarrow> 'a list \<Rightarrow> 'a \<Rightarrow> string" where
  "name_of names items x = names ! enum_code items x"

definition from_name :: "string list \<Rightarrow> 'a list \<Rightarrow> string \<Rightarrow> 'a option" where
  "from_name names items m =
     (case find (\<lambda>i. names ! i = m) [0..<length names] of None \<Rightarrow> None | Some i \<Rightarrow> enum_of items i)"

locale enumeration =
  fixes items :: "'a list"
  assumes complete: "x \<in> set items"
    and items_distinct: "distinct items"
begin

lemma code_less: "enum_code items x < length items"
proof -
  have "takeWhile (\<lambda>y. y \<noteq> x) items \<noteq> items"
    using complete [of x] by (metis (full_types) set_takeWhileD)
  then show ?thesis
    unfolding enum_code_def by (metis length_takeWhile_le le_neq_implies_less takeWhile_eq_take take_all_iff order_refl)
qed

lemma nth_code: "items ! enum_code items x = x"
  using code_less [of x] nth_length_takeWhile [of "\<lambda>y. y \<noteq> x" items] by (simp add: enum_code_def)

lemma of_code: "enum_of items (enum_code items x) = Some x"
  by (simp add: enum_of_def code_less nth_code)

lemma code_of: "enum_of items n = Some x \<Longrightarrow> enum_code items x = n"
  using code_less nth_code items_distinct by (metis enum_of_def nth_eq_iff_index_eq option.distinct(1) option.inject)

end

locale named_enumeration = enumeration items for items :: "'a list" +
  fixes names :: "string list"
  assumes names_distinct: "distinct names"
    and names_length: "length names = length items"
begin

lemma from_name_eq: "from_name names items m = Some x \<longleftrightarrow> name_of names items x = m"
proof -
  have f: "find (\<lambda>i. names ! i = m) [0..<length names] = Some i \<longleftrightarrow> i < length names \<and> names ! i = m" for i
    using names_distinct by (auto simp: find_Some_iff nth_eq_iff_index_eq)
  show ?thesis
  proof
    assume "from_name names items m = Some x"
    then obtain i where "find (\<lambda>i. names ! i = m) [0..<length names] = Some i" "enum_of items i = Some x"
      by (auto simp: from_name_def split: option.splits)
    then show "name_of names items x = m"
      using f code_of by (simp add: name_of_def)
  next
    assume "name_of names items x = m"
    then have "find (\<lambda>i. names ! i = m) [0..<length names] = Some (enum_code items x)"
      using f code_less names_length by (simp add: name_of_def)
    then show "from_name names items m = Some x"
      by (simp add: from_name_def of_code)
  qed
qed

lemma round_trip: "from_name names items (name_of names items x) = Some x"
  by (simp add: from_name_eq)

lemma unknown_name: "m \<notin> range (name_of names items) \<Longrightarrow> from_name names items m = None"
  using from_name_eq by (metis option.exhaust rangeI)

end

section \<open>Opcodes\<close>

datatype (plugins only: code) opcode =
  OpStackAlloc | OpStackAllocDyn | OpStackSave | OpStackRestore | OpLoad | OpStore | OpMemcpy |
  OpMemmove | OpMemset | OpAtomicLoad | OpAtomicStore | OpAtomicRmw | OpAtomicCas | OpFence | OpIadd |
  OpIsub | OpImul | OpIand | OpIor | OpIxor | OpShl | OpSdiv | OpUdiv | OpSrem | OpUrem | OpAshr |
  OpLshr | OpBswap | OpClz | OpCtz | OpPopcnt | OpFadd | OpFsub | OpFmul | OpFdiv | OpFrem | OpFneg |
  OpIcmp | OpFcmp | OpTrunc | OpZext | OpSext | OpFptrunc | OpFpext | OpFptosi | OpFptoui | OpSitofp |
  OpUitofp | OpPtrtoint | OpInttoptr | OpBitcast | OpPtrAdd | OpSelect | OpVaStart | OpInlineAsm |
  OpEhAllocException | OpEhLandingPad | OpEhSelector | OpEhTypeId | OpCatchBegin | OpCatchEnd |
  OpTrap | OpFrameAddr | OpReturnAddr | OpJump | OpBrIf | OpSwitch | OpBrIndirect | OpAsmGoto |
  OpRet | OpUnreachable | OpThrow | OpRethrow | OpResume | OpCall | OpCallIndirect | OpInvoke |
  OpInvokeIndirect | OpTailCallIndirect

datatype result_kind = RNone | RValue | RSigDependent

record opcode_traits =
  mnemonic :: string
  operand_count :: int
  is_terminator :: bool
  trait_result_kind :: result_kind
  has_side_effects :: bool

definition mk_traits :: "string \<Rightarrow> int \<Rightarrow> bool \<Rightarrow> result_kind \<Rightarrow> bool \<Rightarrow> opcode_traits" where
  "mk_traits name n term res effects =
     \<lparr>mnemonic = name, operand_count = n, is_terminator = term, trait_result_kind = res, has_side_effects = effects\<rparr>"

text \<open>The enumerators in their order, and the traits each line of \<open>opcodes.def\<close> gives.\<close>

definition opcodes :: "opcode list" where
  "opcodes = [
    OpStackAlloc, OpStackAllocDyn, OpStackSave, OpStackRestore, OpLoad, OpStore, OpMemcpy,
    OpMemmove, OpMemset, OpAtomicLoad, OpAtomicStore, OpAtomicRmw, OpAtomicCas, OpFence, OpIadd,
    OpIsub, OpImul, OpIand, OpIor, OpIxor, OpShl, OpSdiv, OpUdiv, OpSrem, OpUrem, OpAshr, OpLshr,
    OpBswap, OpClz, OpCtz, OpPopcnt, OpFadd, OpFsub, OpFmul, OpFdiv, OpFrem, OpFneg, OpIcmp,
    OpFcmp, OpTrunc, OpZext, OpSext, OpFptrunc, OpFpext, OpFptosi, OpFptoui, OpSitofp, OpUitofp,
    OpPtrtoint, OpInttoptr, OpBitcast, OpPtrAdd, OpSelect, OpVaStart, OpInlineAsm,
    OpEhAllocException, OpEhLandingPad, OpEhSelector, OpEhTypeId, OpCatchBegin, OpCatchEnd, OpTrap,
    OpFrameAddr, OpReturnAddr, OpJump, OpBrIf, OpSwitch, OpBrIndirect, OpAsmGoto, OpRet,
    OpUnreachable, OpThrow, OpRethrow, OpResume, OpCall, OpCallIndirect, OpInvoke,
    OpInvokeIndirect, OpTailCallIndirect]"

primrec traits :: "opcode \<Rightarrow> opcode_traits" where
  "traits OpStackAlloc = mk_traits ''stack_alloc'' 0 False RValue False"
| "traits OpStackAllocDyn = mk_traits ''stack_alloc_dyn'' 1 False RValue True"
| "traits OpStackSave = mk_traits ''stack_save'' 0 False RValue False"
| "traits OpStackRestore = mk_traits ''stack_restore'' 1 False RNone True"
| "traits OpLoad = mk_traits ''load'' 1 False RValue False"
| "traits OpStore = mk_traits ''store'' 2 False RNone True"
| "traits OpMemcpy = mk_traits ''memcpy'' 3 False RNone True"
| "traits OpMemmove = mk_traits ''memmove'' 3 False RNone True"
| "traits OpMemset = mk_traits ''memset'' 3 False RNone True"
| "traits OpAtomicLoad = mk_traits ''atomic_load'' 1 False RValue True"
| "traits OpAtomicStore = mk_traits ''atomic_store'' 2 False RNone True"
| "traits OpAtomicRmw = mk_traits ''atomic_rmw'' 2 False RValue True"
| "traits OpAtomicCas = mk_traits ''atomic_cas'' 3 False RValue True"
| "traits OpFence = mk_traits ''fence'' 0 False RNone True"
| "traits OpIadd = mk_traits ''iadd'' 2 False RValue False"
| "traits OpIsub = mk_traits ''isub'' 2 False RValue False"
| "traits OpImul = mk_traits ''imul'' 2 False RValue False"
| "traits OpIand = mk_traits ''iand'' 2 False RValue False"
| "traits OpIor = mk_traits ''ior'' 2 False RValue False"
| "traits OpIxor = mk_traits ''ixor'' 2 False RValue False"
| "traits OpShl = mk_traits ''shl'' 2 False RValue False"
| "traits OpSdiv = mk_traits ''sdiv'' 2 False RValue False"
| "traits OpUdiv = mk_traits ''udiv'' 2 False RValue False"
| "traits OpSrem = mk_traits ''srem'' 2 False RValue False"
| "traits OpUrem = mk_traits ''urem'' 2 False RValue False"
| "traits OpAshr = mk_traits ''ashr'' 2 False RValue False"
| "traits OpLshr = mk_traits ''lshr'' 2 False RValue False"
| "traits OpBswap = mk_traits ''bswap'' 1 False RValue False"
| "traits OpClz = mk_traits ''clz'' 1 False RValue False"
| "traits OpCtz = mk_traits ''ctz'' 1 False RValue False"
| "traits OpPopcnt = mk_traits ''popcnt'' 1 False RValue False"
| "traits OpFadd = mk_traits ''fadd'' 2 False RValue False"
| "traits OpFsub = mk_traits ''fsub'' 2 False RValue False"
| "traits OpFmul = mk_traits ''fmul'' 2 False RValue False"
| "traits OpFdiv = mk_traits ''fdiv'' 2 False RValue False"
| "traits OpFrem = mk_traits ''frem'' 2 False RValue False"
| "traits OpFneg = mk_traits ''fneg'' 1 False RValue False"
| "traits OpIcmp = mk_traits ''icmp'' 2 False RValue False"
| "traits OpFcmp = mk_traits ''fcmp'' 2 False RValue False"
| "traits OpTrunc = mk_traits ''trunc'' 1 False RValue False"
| "traits OpZext = mk_traits ''zext'' 1 False RValue False"
| "traits OpSext = mk_traits ''sext'' 1 False RValue False"
| "traits OpFptrunc = mk_traits ''fptrunc'' 1 False RValue False"
| "traits OpFpext = mk_traits ''fpext'' 1 False RValue False"
| "traits OpFptosi = mk_traits ''fptosi'' 1 False RValue False"
| "traits OpFptoui = mk_traits ''fptoui'' 1 False RValue False"
| "traits OpSitofp = mk_traits ''sitofp'' 1 False RValue False"
| "traits OpUitofp = mk_traits ''uitofp'' 1 False RValue False"
| "traits OpPtrtoint = mk_traits ''ptrtoint'' 1 False RValue False"
| "traits OpInttoptr = mk_traits ''inttoptr'' 1 False RValue False"
| "traits OpBitcast = mk_traits ''bitcast'' 1 False RValue False"
| "traits OpPtrAdd = mk_traits ''ptr_add'' 2 False RValue False"
| "traits OpSelect = mk_traits ''select'' 3 False RValue False"
| "traits OpVaStart = mk_traits ''va_start'' 1 False RNone True"
| "traits OpInlineAsm = mk_traits ''inline_asm'' (- 1) False RNone True"
| "traits OpEhAllocException = mk_traits ''eh_alloc_exception'' 0 False RValue True"
| "traits OpEhLandingPad = mk_traits ''eh_landing_pad'' 0 False RValue True"
| "traits OpEhSelector = mk_traits ''eh_selector'' 1 False RValue False"
| "traits OpEhTypeId = mk_traits ''eh_typeid_for'' 1 False RValue False"
| "traits OpCatchBegin = mk_traits ''catch_begin'' 1 False RValue True"
| "traits OpCatchEnd = mk_traits ''catch_end'' 0 False RNone True"
| "traits OpTrap = mk_traits ''trap'' 0 False RNone True"
| "traits OpFrameAddr = mk_traits ''frame_addr'' 0 False RValue False"
| "traits OpReturnAddr = mk_traits ''return_addr'' 0 False RValue False"
| "traits OpJump = mk_traits ''jump'' 0 True RNone True"
| "traits OpBrIf = mk_traits ''br_if'' 1 True RNone True"
| "traits OpSwitch = mk_traits ''switch'' 1 True RNone True"
| "traits OpBrIndirect = mk_traits ''br_indirect'' 1 True RNone True"
| "traits OpAsmGoto = mk_traits ''asm_goto'' (- 1) True RNone True"
| "traits OpRet = mk_traits ''ret'' (- 1) True RNone True"
| "traits OpUnreachable = mk_traits ''unreachable'' 0 True RNone True"
| "traits OpThrow = mk_traits ''throw'' (- 1) True RNone True"
| "traits OpRethrow = mk_traits ''rethrow'' 0 True RNone True"
| "traits OpResume = mk_traits ''resume'' 2 True RNone True"
| "traits OpCall = mk_traits ''call'' (- 1) False RSigDependent True"
| "traits OpCallIndirect = mk_traits ''call_indirect'' (- 1) False RSigDependent True"
| "traits OpInvoke = mk_traits ''invoke'' (- 1) True RSigDependent True"
| "traits OpInvokeIndirect = mk_traits ''invoke_indirect'' (- 1) True RSigDependent True"
| "traits OpTailCallIndirect = mk_traits ''tail_call_indirect'' (- 1) True RNone True"

definition opcode_count :: nat where
  "opcode_count = length opcodes"

definition opcode_mnemonic :: "opcode \<Rightarrow> string" where
  "opcode_mnemonic op = mnemonic (traits op)"

definition opcode_operand_count :: "opcode \<Rightarrow> int" where
  "opcode_operand_count op = operand_count (traits op)"

definition opcode_is_terminator :: "opcode \<Rightarrow> bool" where
  "opcode_is_terminator op = is_terminator (traits op)"

definition opcode_result_kind :: "opcode \<Rightarrow> result_kind" where
  "opcode_result_kind op = trait_result_kind (traits op)"

definition opcode_has_side_effects :: "opcode \<Rightarrow> bool" where
  "opcode_has_side_effects op = has_side_effects (traits op)"

definition opcode_is_cast :: "opcode \<Rightarrow> bool" where
  "opcode_is_cast op \<longleftrightarrow>
     op \<in> {OpTrunc, OpZext, OpSext, OpFptrunc, OpFpext, OpFptosi, OpFptoui, OpSitofp, OpUitofp,
           OpPtrtoint, OpInttoptr, OpBitcast}"

definition opcode_from_mnemonic :: "string \<Rightarrow> opcode option" where
  "opcode_from_mnemonic m = from_name (map opcode_mnemonic opcodes) opcodes m"

section \<open>Condition, ordering and read-modify-write codes\<close>

datatype int_cond = IEq | INe | ISlt | ISle | ISgt | ISge | IUlt | IUle | IUgt | IUge

datatype float_cond =
  FOeq | FOne | FOlt | FOle | FOgt | FOge | FOrd | FUno | FUeq | FUne | FUlt | FUle | FUgt | FUge

datatype mem_order = Relaxed | Acquire | Release | AcqRel | SeqCst

datatype rmw_op = Xchg | RAdd | RSub | RAnd | RNand | ROr | RXor | RMax | RMin | RUMax | RUMin

definition int_conds :: "int_cond list" where
  "int_conds = [IEq, INe, ISlt, ISle, ISgt, ISge, IUlt, IUle, IUgt, IUge]"

definition float_conds :: "float_cond list" where
  "float_conds = [FOeq, FOne, FOlt, FOle, FOgt, FOge, FOrd, FUno, FUeq, FUne, FUlt, FUle, FUgt, FUge]"

definition mem_orders :: "mem_order list" where
  "mem_orders = [Relaxed, Acquire, Release, AcqRel, SeqCst]"

definition rmw_ops :: "rmw_op list" where
  "rmw_ops = [Xchg, RAdd, RSub, RAnd, RNand, ROr, RXor, RMax, RMin, RUMax, RUMin]"

definition kIntCondNames :: "string list" where
  "kIntCondNames = [''eq'', ''ne'', ''slt'', ''sle'', ''sgt'', ''sge'', ''ult'', ''ule'', ''ugt'', ''uge'']"

definition kFloatCondNames :: "string list" where
  "kFloatCondNames = [''oeq'', ''one'', ''olt'', ''ole'', ''ogt'', ''oge'', ''ord'', ''uno'',
     ''ueq'', ''une'', ''ult'', ''ule'', ''ugt'', ''uge'']"

definition kMemOrderNames :: "string list" where
  "kMemOrderNames = [''relaxed'', ''acquire'', ''release'', ''acq_rel'', ''seq_cst'']"

definition kRmwOpNames :: "string list" where
  "kRmwOpNames = [''xchg'', ''add'', ''sub'', ''and'', ''nand'', ''or'', ''xor'', ''max'', ''min'', ''umax'', ''umin'']"

definition int_cond_mnemonic :: "int_cond \<Rightarrow> string" where
  "int_cond_mnemonic = name_of kIntCondNames int_conds"

definition float_cond_mnemonic :: "float_cond \<Rightarrow> string" where
  "float_cond_mnemonic = name_of kFloatCondNames float_conds"

definition mem_order_mnemonic :: "mem_order \<Rightarrow> string" where
  "mem_order_mnemonic = name_of kMemOrderNames mem_orders"

definition rmw_op_mnemonic :: "rmw_op \<Rightarrow> string" where
  "rmw_op_mnemonic = name_of kRmwOpNames rmw_ops"

definition int_cond_from_mnemonic :: "string \<Rightarrow> int_cond option" where
  "int_cond_from_mnemonic = from_name kIntCondNames int_conds"

definition float_cond_from_mnemonic :: "string \<Rightarrow> float_cond option" where
  "float_cond_from_mnemonic = from_name kFloatCondNames float_conds"

definition mem_order_from_mnemonic :: "string \<Rightarrow> mem_order option" where
  "mem_order_from_mnemonic = from_name kMemOrderNames mem_orders"

definition rmw_op_from_mnemonic :: "string \<Rightarrow> rmw_op option" where
  "rmw_op_from_mnemonic = from_name kRmwOpNames rmw_ops"

section \<open>Auxiliary fields\<close>

definition INST_FLAG_VOLATILE :: u16 where
  "INST_FLAG_VOLATILE = push_bit 0 1"

text \<open>The cast of a 64-bit integer to an enumeration keeps its low byte.\<close>

definition cast_enum :: "'a list \<Rightarrow> u64 \<Rightarrow> 'a option" where
  "cast_enum items v = enum_of items (unat (ucast v :: u8))"

definition enum_bits :: "'a list \<Rightarrow> 'a \<Rightarrow> u64" where
  "enum_bits items x = of_nat (enum_code items x)"

definition pack_atomic_access_aux :: "mem_order \<Rightarrow> u8 \<Rightarrow> u64" where
  "pack_atomic_access_aux order align_log2 = enum_bits mem_orders order OR push_bit 8 (ucast align_log2)"

definition atomic_access_order :: "u64 \<Rightarrow> mem_order option" where
  "atomic_access_order aux = cast_enum mem_orders (aux AND 0xFF)"

definition atomic_access_align_log2 :: "u64 \<Rightarrow> u8" where
  "atomic_access_align_log2 aux = ucast (drop_bit 8 aux)"

definition pack_rmw_aux :: "rmw_op \<Rightarrow> mem_order \<Rightarrow> u64" where
  "pack_rmw_aux op order = enum_bits rmw_ops op OR push_bit 8 (enum_bits mem_orders order)"

definition aux_rmw_op :: "u64 \<Rightarrow> rmw_op option" where
  "aux_rmw_op aux = cast_enum rmw_ops (aux AND 0xFF)"

definition rmw_order :: "u64 \<Rightarrow> mem_order option" where
  "rmw_order aux = cast_enum mem_orders (drop_bit 8 aux)"

definition pack_cas_aux :: "mem_order \<Rightarrow> mem_order \<Rightarrow> u64" where
  "pack_cas_aux success failure = enum_bits mem_orders success OR push_bit 8 (enum_bits mem_orders failure)"

definition cas_success_order :: "u64 \<Rightarrow> mem_order option" where
  "cas_success_order aux = cast_enum mem_orders (aux AND 0xFF)"

definition cas_failure_order :: "u64 \<Rightarrow> mem_order option" where
  "cas_failure_order aux = cast_enum mem_orders (drop_bit 8 aux)"

section \<open>Mnemonics\<close>

interpretation opcode_enum: named_enumeration opcodes "map opcode_mnemonic opcodes"
proof
  show "x \<in> set opcodes" for x
    by (cases x) (simp_all add: opcodes_def)
  show "distinct opcodes"
    by (simp add: opcodes_def)
  show "distinct (map opcode_mnemonic opcodes)"
    by code_simp
qed simp

interpretation int_cond_enum: named_enumeration int_conds kIntCondNames
proof
  show "x \<in> set int_conds" for x
    by (cases x) (simp_all add: int_conds_def)
qed (simp_all add: int_conds_def kIntCondNames_def)

interpretation float_cond_enum: named_enumeration float_conds kFloatCondNames
proof
  show "x \<in> set float_conds" for x
    by (cases x) (simp_all add: float_conds_def)
qed (simp_all add: float_conds_def kFloatCondNames_def)

interpretation mem_order_enum: named_enumeration mem_orders kMemOrderNames
proof
  show "x \<in> set mem_orders" for x
    by (cases x) (simp_all add: mem_orders_def)
qed (simp_all add: mem_orders_def kMemOrderNames_def)

interpretation rmw_op_enum: named_enumeration rmw_ops kRmwOpNames
proof
  show "x \<in> set rmw_ops" for x
    by (cases x) (simp_all add: rmw_ops_def)
qed (simp_all add: rmw_ops_def kRmwOpNames_def)

section \<open>Reading packed fields\<close>

lemma unat_enum_bits: "length items \<le> 256 \<Longrightarrow> enum_code items x < length items \<Longrightarrow> unat (enum_bits items x) = enum_code items x"
  by (simp add: enum_bits_def unsigned_of_nat nat_bits)

lemma cast_enum_bits:
  assumes "enum_code items x < length items" "length items \<le> 256" "items ! enum_code items x = x"
  shows "cast_enum items (enum_bits items x) = Some x"
  using assms unat_enum_bits [OF assms(2,1)] by (simp add: cast_enum_def unat_ucast_down enum_of_def)

lemma mask_byte: "(0xFF :: u64) = mask 8"
  by (simp add: mask_eq_exp_minus_1)

lemma mem_order_bits: "unat (enum_bits mem_orders x) < 2 ^ 8" "cast_enum mem_orders (enum_bits mem_orders x) = Some x"
  using unat_enum_bits [OF _ mem_order_enum.code_less] cast_enum_bits [OF mem_order_enum.code_less _ mem_order_enum.nth_code]
    mem_order_enum.code_less [of x] by (simp_all add: mem_orders_def)

lemma rmw_op_bits: "unat (enum_bits rmw_ops x) < 2 ^ 8" "cast_enum rmw_ops (enum_bits rmw_ops x) = Some x"
  using unat_enum_bits [OF _ rmw_op_enum.code_less] cast_enum_bits [OF rmw_op_enum.code_less _ rmw_op_enum.nth_code]
    rmw_op_enum.code_less [of x] by (simp_all add: rmw_ops_def)

section \<open>Properties\<close>

text \<open>
  for opcodes, integer and floating conditions, memory orders and read-modify-write
  operators, the lookup of a mnemonic finds an enumerator exactly when that enumerator's
  mnemonic is the one given: the names are unambiguous and every enumerator has one.
\<close>

theorem mnemonic_round_trip:
  "(opcode_from_mnemonic m = Some op \<longleftrightarrow> opcode_mnemonic op = m)
   \<and> (int_cond_from_mnemonic m = Some ic \<longleftrightarrow> int_cond_mnemonic ic = m)
   \<and> (float_cond_from_mnemonic m = Some fc \<longleftrightarrow> float_cond_mnemonic fc = m)
   \<and> (mem_order_from_mnemonic m = Some mo \<longleftrightarrow> mem_order_mnemonic mo = m)
   \<and> (rmw_op_from_mnemonic m = Some ro \<longleftrightarrow> rmw_op_mnemonic ro = m)"
proof -
  have "name_of (map opcode_mnemonic opcodes) opcodes op = opcode_mnemonic op"
    using opcode_enum.code_less [of op] opcode_enum.nth_code [of op] by (simp add: name_of_def)
  then show ?thesis
    using opcode_enum.from_name_eq [of m op] int_cond_enum.from_name_eq [of m ic] float_cond_enum.from_name_eq [of m fc]
      mem_order_enum.from_name_eq [of m mo] rmw_op_enum.from_name_eq [of m ro]
    by (simp add: opcode_from_mnemonic_def int_cond_from_mnemonic_def float_cond_from_mnemonic_def
        mem_order_from_mnemonic_def rmw_op_from_mnemonic_def int_cond_mnemonic_def float_cond_mnemonic_def
        mem_order_mnemonic_def rmw_op_mnemonic_def)
qed

text \<open>
  the memory order and alignment of an atomic access, the operator and order of an atomic
  read-modify-write, and the two orders of a compare-and-swap are read back from the packed
  auxiliary word exactly as they were packed.
\<close>

theorem aux_round_trip:
  "atomic_access_order (pack_atomic_access_aux order align_log2) = Some order
   \<and> atomic_access_align_log2 (pack_atomic_access_aux order align_log2) = align_log2
   \<and> aux_rmw_op (pack_rmw_aux op order) = Some op \<and> rmw_order (pack_rmw_aux op order) = Some order
   \<and> cas_success_order (pack_cas_aux order failure) = Some order
   \<and> cas_failure_order (pack_cas_aux order failure) = Some failure"
proof -
  have small: "unat (b :: u64) < 2 ^ (LENGTH(64) - 8)" if "unat b < 2 ^ 8" for b
    using that by simp
  have "unat (ucast align_log2 :: u64) < 2 ^ 8"
    using unat_lt_exp [of align_log2] by (simp add: unat_ucast_down)
  moreover have "ucast (ucast align_log2 :: u64) = align_log2"
    by (simp add: ucast_up_ucast_id is_up)
  ultimately show ?thesis
    unfolding pack_atomic_access_aux_def pack_rmw_aux_def pack_cas_aux_def atomic_access_order_def
      atomic_access_align_log2_def aux_rmw_op_def rmw_order_def cas_success_order_def cas_failure_order_def mask_byte
    using field_low [OF mem_order_bits(1)] field_low [OF rmw_op_bits(1)]
      field_high [OF mem_order_bits(1) small] field_high [OF rmw_op_bits(1) small] mem_order_bits rmw_op_bits
    by simp
qed

end
