(* ===== verification/Air_Types.thy ===== *)
theory Air_Types
  imports Prelude Text_Support
begin

text \<open>
  The type table of AIR (\<open>air/types.h\<close>, \<open>air/types.cpp\<close>): scalar types and function signatures,
  interned so that equal descriptions share an identifier. Identifiers are positions in the
  vectors; the unordered multimaps from hash values to positions are lists of pairs.
\<close>

section \<open>Interning\<close>

text \<open>The contract of an interning operation, and what its clients may conclude from it. A
  description may be put into a normal form first.\<close>

locale interning =
  fixes norm :: "'d \<Rightarrow> 'd"
    and intern :: "'d \<Rightarrow> 's \<Rightarrow> nat \<times> 's"
    and get :: "'s \<Rightarrow> nat \<Rightarrow> 'd"
    and interned :: "'s \<Rightarrow> nat \<Rightarrow> bool"
    and inv :: "'s \<Rightarrow> bool"
  assumes inv_intern: "inv s \<Longrightarrow> intern d s = (i, s') \<Longrightarrow> inv s'"
    and get_intern: "inv s \<Longrightarrow> intern d s = (i, s') \<Longrightarrow> interned s' i \<and> get s' i = norm d"
    and keeps: "inv s \<Longrightarrow> intern d s = (i, s') \<Longrightarrow> interned s j \<Longrightarrow> interned s' j \<and> get s' j = get s j"
    and hit: "inv s \<Longrightarrow> interned s i \<Longrightarrow> get s i = norm d \<Longrightarrow> intern d s = (i, s)"
    and unique: "inv s \<Longrightarrow> interned s i \<Longrightarrow> interned s j \<Longrightarrow> get s i = get s j \<Longrightarrow> i = j"
begin

lemma again: "inv s \<Longrightarrow> intern d s = (i, s') \<Longrightarrow> intern d s' = (i, s')"
  using hit get_intern inv_intern by blast

lemma same_id_iff:
  assumes "inv s" "intern d s = (i, s1)" "intern d' s1 = (j, s2)"
  shows "i = j \<longleftrightarrow> norm d = norm d'"
proof -
  have s1: "inv s1" "interned s1 i" "get s1 i = norm d"
    using inv_intern get_intern assms by blast+
  have s2: "inv s2" "interned s2 j" "get s2 j = norm d'" "interned s2 i" "get s2 i = norm d"
    using inv_intern [OF s1(1) assms(3)] get_intern [OF s1(1) assms(3)] keeps [OF s1(1) assms(3) s1(2)] s1(3)
    by simp_all
  show ?thesis
    using unique [OF s2(1,4,2)] s2(3,5) by auto
qed

text \<open>Any further interning leaves an identifier's description and the invariant in place.\<close>

lemma stable:
  "inv s \<Longrightarrow> interned s i \<Longrightarrow> s' = fold (\<lambda>d t. snd (intern d t)) ds s \<Longrightarrow>
     inv s' \<and> interned s' i \<and> get s' i = get s i"
proof (induction ds arbitrary: s)
  case (Cons d ds)
  obtain j t where t: "intern d s = (j, t)"
    by fastforce
  have "inv t" "interned t i" "get t i = get s i"
    using inv_intern [OF Cons.prems(1) t] keeps [OF Cons.prems(1) t Cons.prems(2)] by simp_all
  then show ?case
    using Cons.IH [of t] Cons.prems(3) t by simp
qed simp

end

text \<open>
  The code of \<open>TypeTable::intern\<close>, \<open>TypeTable::get_signature\<close> and \<open>Function::intern_constant\<close>:
  the positions filed under the hash value are compared in turn; without a match the description
  is appended and filed.
\<close>

definition intern_in ::
  "('d \<Rightarrow> u64) \<Rightarrow> ('d \<Rightarrow> 'd \<Rightarrow> bool) \<Rightarrow> 'd \<Rightarrow> 'd list \<times> (u64 \<times> nat) list \<Rightarrow> nat \<times> 'd list \<times> (u64 \<times> nat) list" where
  "intern_in hash eq d t =
     (case t of (items, lookup) \<Rightarrow>
        case find (\<lambda>i. eq (items ! i) d) (map snd (filter (\<lambda>p. fst p = hash d) lookup)) of
          Some i \<Rightarrow> (i, items, lookup)
        | None \<Rightarrow> (length items, items @ [d], lookup @ [(hash d, length items)]))"

definition filed :: "'d list \<times> (u64 \<times> nat) list \<Rightarrow> nat \<Rightarrow> bool" where
  "filed t i \<longleftrightarrow> i \<in> snd ` set (snd t)"

definition table_inv :: "('d \<Rightarrow> u64) \<Rightarrow> 'd list \<times> (u64 \<times> nat) list \<Rightarrow> bool" where
  "table_inv hash t \<longleftrightarrow>
     (\<forall>(h, i) \<in> set (snd t). i < length (fst t) \<and> h = hash (fst t ! i))
     \<and> (\<forall>i j. filed t i \<longrightarrow> filed t j \<longrightarrow> fst t ! i = fst t ! j \<longrightarrow> i = j)"

lemma intern_in_hit:
  assumes inv: "table_inv hash t" and eq: "\<And>x y. eq x y \<longleftrightarrow> x = y" and i: "filed t i" "fst t ! i = d"
  shows "intern_in hash eq d t = (i, t)"
proof -
  let ?c = "map snd (filter (\<lambda>p. fst p = hash d) (snd t))"
  obtain h where h: "(h, i) \<in> set (snd t)"
    using i(1) by (auto simp: filed_def)
  then have "h = hash d"
    using inv i(2) by (auto simp: table_inv_def)
  then have mem: "i \<in> set ?c"
    using h by (auto intro!: image_eqI [of _ snd "(hash d, i)"])
  have "\<forall>j \<in> set ?c. fst t ! j = d \<longrightarrow> j = i"
  proof (intro ballI impI)
    fix j
    assume "j \<in> set ?c" "fst t ! j = d"
    then have "filed t j"
      by (auto simp: filed_def intro: image_eqI)
    then show "j = i"
      using \<open>fst t ! j = d\<close> i inv by (simp add: table_inv_def)
  qed
  then have "find (\<lambda>j. fst t ! j = d) ?c = Some i"
    by (intro find_unique mem) (simp add: i(2))
  then show ?thesis
    using i(2) by (cases t) (simp add: intern_in_def eq)
qed

lemma intern_in_miss:
  assumes inv: "table_inv hash t" and eq: "\<And>x y. eq x y \<longleftrightarrow> x = y" and none: "\<And>i. filed t i \<Longrightarrow> fst t ! i \<noteq> d"
  shows "intern_in hash eq d t = (length (fst t), fst t @ [d], snd t @ [(hash d, length (fst t))])"
proof -
  have "find (\<lambda>j. fst t ! j = d) (map snd (filter (\<lambda>p. fst p = hash d) (snd t))) = None"
    using none by (auto simp: find_None_iff filed_def)
  then show ?thesis
    by (cases t) (simp add: intern_in_def eq)
qed

lemma table_inv_miss:
  assumes inv: "table_inv hash t" and none: "\<And>i. filed t i \<Longrightarrow> fst t ! i \<noteq> d"
  shows "table_inv hash (fst t @ [d], snd t @ [(hash d, length (fst t))])"
proof -
  have less: "i < length (fst t)" if "filed t i" for i
    using that inv by (force simp: filed_def table_inv_def)
  let ?t = "(fst t @ [d], snd t @ [(hash d, length (fst t))])"
  have "filed ?t i \<longleftrightarrow> filed t i \<or> i = length (fst t)" for i
    by (auto simp: filed_def)
  moreover have "i < length (fst t) \<and> h = hash (fst t ! i)" if "(h, i) \<in> set (snd t)" for h i
    using inv that by (auto simp: table_inv_def)
  moreover have "i = j" if "filed t i" "filed t j" "fst t ! i = fst t ! j" for i j
    using inv that by (simp add: table_inv_def)
  moreover have "fst ?t ! i = fst t ! i" if "filed t i" for i
    using less [OF that] by (simp add: nth_append)
  moreover have "fst ?t ! length (fst t) = d"
    by simp
  ultimately show ?thesis
    unfolding table_inv_def using none by (fastforce simp: nth_append)
qed

lemma intern_in_cases:
  assumes inv: "table_inv hash t" and eq: "\<And>x y. eq x y \<longleftrightarrow> x = y"
  obtains (hit) i where "filed t i" "fst t ! i = d" "intern_in hash eq d t = (i, t)"
    | (miss) "\<And>i. filed t i \<Longrightarrow> fst t ! i \<noteq> d"
      "intern_in hash eq d t = (length (fst t), fst t @ [d], snd t @ [(hash d, length (fst t))])"
  using intern_in_hit [OF inv eq] intern_in_miss [OF inv eq] by metis

text \<open>Every table built this way satisfies the contract.\<close>

lemma interning_table:
  assumes eq: "\<And>x y. eq x y \<longleftrightarrow> x = y"
  shows "interning (\<lambda>d. d) (intern_in hash eq) (\<lambda>t i. fst t ! i) filed (table_inv hash)"
proof
  fix t d i t' j
  assume inv: "table_inv hash t"
  have less: "j < length (fst t)" if "filed t j" for j
    using that inv by (force simp: filed_def table_inv_def)
  show "table_inv hash t'" if "intern_in hash eq d t = (i, t')"
    by (rule intern_in_cases [OF inv eq, of d]) (use that inv table_inv_miss [OF inv] in auto)
  show "filed t' i \<and> fst t' ! i = d" if "intern_in hash eq d t = (i, t')"
    by (rule intern_in_cases [OF inv eq, of d]) (use that in \<open>auto simp: filed_def\<close>)
  show "filed t' j \<and> fst t' ! j = fst t ! j" if "intern_in hash eq d t = (i, t')" "filed t j"
    by (rule intern_in_cases [OF inv eq, of d]) (use that less [OF that(2)] in \<open>auto simp: filed_def nth_append\<close>)
  show "intern_in hash eq d t = (i, t)" if "filed t i" "fst t ! i = d"
    using intern_in_hit [OF inv eq that] .
  show "i = j" if "filed t i" "filed t j" "fst t ! i = fst t ! j"
    using inv that by (simp add: table_inv_def)
qed

section \<open>Types and signatures\<close>

datatype type_kind = TVoid | TInt | TFloat | TPtr

datatype float_kind = KF32 | KF64 | KF128 | KF80

record type_data =
  td_kind :: type_kind
  td_float_kind :: float_kind
  td_int_width :: u16
  td_address_space :: u32

definition type_data_default :: type_data where
  "type_data_default = \<lparr>td_kind = TVoid, td_float_kind = KF64, td_int_width = 0, td_address_space = 0\<rparr>"

datatype ret_class = RetVoid | RetScalar | RetIntPair | RetHfa | RetIndirectSret

datatype param_role = RoleNormal | RoleSret | RoleIndirectByval | RoleStackByval

text \<open>Identifiers are positions; 0 is the invalid one.\<close>

type_synonym type_id = nat
type_synonym sig_id = nat

record sig_param =
  sp_type :: type_id
  sp_role :: param_role
  sp_byval_size :: u32
  sp_byval_align :: u32
  sp_coerce_group :: u8

record sig_data =
  sd_ret_class :: ret_class
  sd_ret_type :: type_id
  sd_ret_count :: u8
  sd_ret_sse_mask :: u8
  sd_params :: "sig_param list"
  sd_is_variadic :: bool
  sd_fixed_param_count :: u32

definition sig_data_default :: sig_data where
  "sig_data_default =
     \<lparr>sd_ret_class = RetVoid, sd_ret_type = 0, sd_ret_count = 0, sd_ret_sse_mask = 0, sd_params = [],
      sd_is_variadic = False, sd_fixed_param_count = 0\<rparr>"

text \<open>The constants of namespace \<open>types\<close>.\<close>

definition types_VOID :: type_id where
  "types_VOID = 1"

definition types_I8 :: type_id where
  "types_I8 = 2"

definition types_I16 :: type_id where
  "types_I16 = 3"

definition types_I32 :: type_id where
  "types_I32 = 4"

definition types_I64 :: type_id where
  "types_I64 = 5"

definition types_I128 :: type_id where
  "types_I128 = 6"

definition types_F32 :: type_id where
  "types_F32 = 7"

definition types_F64 :: type_id where
  "types_F64 = 8"

definition types_F128 :: type_id where
  "types_F128 = 9"

definition types_PTR :: type_id where
  "types_PTR = 10"

definition types_F80 :: type_id where
  "types_F80 = 11"

lemmas types_defs =
  types_VOID_def types_I8_def types_I16_def types_I32_def types_I64_def types_I128_def types_F32_def
  types_F64_def types_F128_def types_PTR_def types_F80_def

section \<open>Hashing and equality\<close>

definition hash_combine :: "u64 \<Rightarrow> u64 \<Rightarrow> u64" where
  "hash_combine seed v = seed XOR (v + 0x9e3779b97f4a7c15 + push_bit 12 seed + drop_bit 4 seed)"

primrec type_kind_code :: "type_kind \<Rightarrow> u64" where
  "type_kind_code TVoid = 0" | "type_kind_code TInt = 1" | "type_kind_code TFloat = 2" | "type_kind_code TPtr = 3"

primrec float_kind_code :: "float_kind \<Rightarrow> u64" where
  "float_kind_code KF32 = 0" | "float_kind_code KF64 = 1" | "float_kind_code KF128 = 2" | "float_kind_code KF80 = 3"

primrec ret_class_code :: "ret_class \<Rightarrow> u64" where
  "ret_class_code RetVoid = 0" | "ret_class_code RetScalar = 1" | "ret_class_code RetIntPair = 2"
| "ret_class_code RetHfa = 3" | "ret_class_code RetIndirectSret = 4"

primrec param_role_code :: "param_role \<Rightarrow> u64" where
  "param_role_code RoleNormal = 0" | "param_role_code RoleSret = 1" | "param_role_code RoleIndirectByval = 2"
| "param_role_code RoleStackByval = 3"

definition hash_type :: "type_data \<Rightarrow> u64" where
  "hash_type data =
     hash_combine (hash_combine (hash_combine (hash_combine 0x11 (type_kind_code (td_kind data)))
       (float_kind_code (td_float_kind data))) (ucast (td_int_width data))) (ucast (td_address_space data))"

definition type_equals :: "type_data \<Rightarrow> type_data \<Rightarrow> bool" where
  "type_equals a b \<longleftrightarrow> td_kind a = td_kind b \<and> td_float_kind a = td_float_kind b
     \<and> td_int_width a = td_int_width b \<and> td_address_space a = td_address_space b"

definition hash_param :: "sig_param \<Rightarrow> u64 \<Rightarrow> u64" where
  "hash_param param h =
     hash_combine (hash_combine (hash_combine (hash_combine (hash_combine h (of_nat (sp_type param)))
       (param_role_code (sp_role param))) (ucast (sp_byval_size param))) (ucast (sp_byval_align param)))
       (ucast (sp_coerce_group param))"

definition hash_sig :: "sig_data \<Rightarrow> u64" where
  "hash_sig sig =
     fold hash_param (sd_params sig)
       (hash_combine (hash_combine (hash_combine (hash_combine (hash_combine (hash_combine 0x51
         (ret_class_code (sd_ret_class sig))) (of_nat (sd_ret_type sig))) (ucast (sd_ret_count sig)))
         (if sd_is_variadic sig then 1 else 0)) (ucast (sd_fixed_param_count sig))) (ucast (sd_ret_sse_mask sig)))"

definition sig_equals :: "sig_data \<Rightarrow> sig_data \<Rightarrow> bool" where
  "sig_equals a b \<longleftrightarrow> sd_ret_class a = sd_ret_class b \<and> sd_ret_type a = sd_ret_type b
     \<and> sd_ret_count a = sd_ret_count b \<and> sd_ret_sse_mask a = sd_ret_sse_mask b
     \<and> sd_is_variadic a = sd_is_variadic b \<and> sd_fixed_param_count a = sd_fixed_param_count b
     \<and> sd_params a = sd_params b"

section \<open>The table\<close>

record type_table =
  tt_types :: "type_data list"
  tt_sigs :: "sig_data list"
  tt_type_lookup :: "(u64 \<times> nat) list"
  tt_sig_lookup :: "(u64 \<times> nat) list"

definition intern :: "type_data \<Rightarrow> type_table \<Rightarrow> type_id \<times> type_table" where
  "intern data tt =
     (case intern_in hash_type type_equals data (tt_types tt, tt_type_lookup tt) of
        (i, items, lookup) \<Rightarrow> (i, tt\<lparr>tt_types := items, tt_type_lookup := lookup\<rparr>))"

definition put_type :: "type_data \<Rightarrow> type_table \<Rightarrow> type_table" where
  "put_type data tt = snd (intern data tt)"

definition int_type :: "u16 \<Rightarrow> type_data" where
  "int_type w = \<lparr>td_kind = TInt, td_float_kind = KF64, td_int_width = w, td_address_space = 0\<rparr>"

definition float_type :: "float_kind \<Rightarrow> type_data" where
  "float_type k = \<lparr>td_kind = TFloat, td_float_kind = k, td_int_width = 0, td_address_space = 0\<rparr>"

definition ptr_type :: "u32 \<Rightarrow> type_data" where
  "ptr_type space = \<lparr>td_kind = TPtr, td_float_kind = KF64, td_int_width = 0, td_address_space = space\<rparr>"

definition void_type :: type_data where
  "void_type = \<lparr>td_kind = TVoid, td_float_kind = KF64, td_int_width = 0, td_address_space = 0\<rparr>"

text \<open>The constructor interns the types of the constants above, in their order.\<close>

definition well_known_types :: "type_data list" where
  "well_known_types =
     [void_type, int_type 8, int_type 16, int_type 32, int_type 64, int_type 128,
      float_type KF32, float_type KF64, float_type KF128, ptr_type 0, float_type KF80]"

definition new_type_table :: type_table where
  "new_type_table =
     fold put_type well_known_types
       \<lparr>tt_types = [type_data_default], tt_sigs = [sig_data_default], tt_type_lookup = [], tt_sig_lookup = []\<rparr>"

definition get_int :: "u16 \<Rightarrow> type_table \<Rightarrow> type_id \<times> type_table" where
  "get_int bit_width tt = intern (int_type bit_width) tt"

definition get_float :: "float_kind \<Rightarrow> type_table \<Rightarrow> type_id \<times> type_table" where
  "get_float kind tt = intern (float_type kind) tt"

definition get_ptr :: "u32 \<Rightarrow> type_table \<Rightarrow> type_id \<times> type_table" where
  "get_ptr address_space tt = intern (ptr_type address_space) tt"

text \<open>\<open>get_signature\<close>: a signature that is not variadic gets the number of its parameters as its
  fixed parameter count.\<close>

definition fix_params :: "sig_data \<Rightarrow> sig_data" where
  "fix_params sig =
     (if sd_is_variadic sig then sig else sig\<lparr>sd_fixed_param_count := of_nat (length (sd_params sig))\<rparr>)"

definition get_signature :: "sig_data \<Rightarrow> type_table \<Rightarrow> sig_id \<times> type_table" where
  "get_signature sig tt =
     (case intern_in hash_sig sig_equals (fix_params sig) (tt_sigs tt, tt_sig_lookup tt) of
        (i, items, lookup) \<Rightarrow> (i, tt\<lparr>tt_sigs := items, tt_sig_lookup := lookup\<rparr>))"

definition get_signature_parts ::
  "ret_class \<Rightarrow> type_id \<Rightarrow> u8 \<Rightarrow> sig_param list \<Rightarrow> bool \<Rightarrow> u32 \<Rightarrow> type_table \<Rightarrow> sig_id \<times> type_table" where
  "get_signature_parts ret_class ret_type ret_count params is_variadic fixed_param_count tt =
     get_signature
       (sig_data_default\<lparr>sd_ret_class := ret_class, sd_ret_type := ret_type, sd_ret_count := ret_count,
          sd_params := params, sd_is_variadic := is_variadic,
          sd_fixed_param_count := (if is_variadic then fixed_param_count else of_nat (length params))\<rparr>) tt"

definition type_valid :: "type_table \<Rightarrow> type_id \<Rightarrow> bool" where
  "type_valid tt i \<longleftrightarrow> 0 < i \<and> i < length (tt_types tt)"

definition sig_valid :: "type_table \<Rightarrow> sig_id \<Rightarrow> bool" where
  "sig_valid tt i \<longleftrightarrow> 0 < i \<and> i < length (tt_sigs tt)"

definition type_of :: "type_table \<Rightarrow> type_id \<Rightarrow> type_data" where
  "type_of tt i = tt_types tt ! i"

definition signature_of :: "type_table \<Rightarrow> sig_id \<Rightarrow> sig_data" where
  "signature_of tt i = tt_sigs tt ! i"

definition type_count :: "type_table \<Rightarrow> nat" where
  "type_count tt = length (tt_types tt) - 1"

definition signature_count :: "type_table \<Rightarrow> nat" where
  "signature_count tt = length (tt_sigs tt) - 1"

definition is_void :: "type_table \<Rightarrow> type_id \<Rightarrow> bool" where
  "is_void tt i \<longleftrightarrow> td_kind (type_of tt i) = TVoid"

definition is_int :: "type_table \<Rightarrow> type_id \<Rightarrow> bool" where
  "is_int tt i \<longleftrightarrow> td_kind (type_of tt i) = TInt"

definition is_float :: "type_table \<Rightarrow> type_id \<Rightarrow> bool" where
  "is_float tt i \<longleftrightarrow> td_kind (type_of tt i) = TFloat"

definition is_ptr :: "type_table \<Rightarrow> type_id \<Rightarrow> bool" where
  "is_ptr tt i \<longleftrightarrow> td_kind (type_of tt i) = TPtr"

definition is_scalar :: "type_table \<Rightarrow> type_id \<Rightarrow> bool" where
  "is_scalar tt i \<longleftrightarrow> (let k = td_kind (type_of tt i) in k = TInt \<or> k = TFloat \<or> k = TPtr)"

definition int_width :: "type_table \<Rightarrow> type_id \<Rightarrow> u16" where
  "int_width tt i = td_int_width (type_of tt i)"

definition byte_size :: "type_table \<Rightarrow> type_id \<Rightarrow> u32 \<Rightarrow> u64" where
  "byte_size tt i ptr_size_bytes =
     (let data = type_of tt i
      in case td_kind data of
          TVoid \<Rightarrow> 0
        | TInt \<Rightarrow> (ucast (td_int_width data) + 7) div 8
        | TFloat \<Rightarrow> (case td_float_kind data of KF32 \<Rightarrow> 4 | KF64 \<Rightarrow> 8 | KF128 \<Rightarrow> 16 | KF80 \<Rightarrow> 16)
        | TPtr \<Rightarrow> ucast ptr_size_bytes)"

definition spelling :: "type_table \<Rightarrow> type_id \<Rightarrow> string" where
  "spelling tt i =
     (let data = type_of tt i
      in case td_kind data of
          TVoid \<Rightarrow> ''void''
        | TInt \<Rightarrow> ''i'' @ to_string (int (unat (td_int_width data)))
        | TFloat \<Rightarrow> (case td_float_kind data of KF32 \<Rightarrow> ''f32'' | KF64 \<Rightarrow> ''f64'' | KF128 \<Rightarrow> ''f128'' | KF80 \<Rightarrow> ''f80'')
        | TPtr \<Rightarrow> if td_address_space data = 0 then ''ptr''
                  else ''ptr('' @ to_string (int (unat (td_address_space data))) @ '')'')"

section \<open>The table satisfies the interning contract\<close>

lemma type_equals_iff: "type_equals a b \<longleftrightarrow> a = b"
  by (auto simp: type_equals_def)

lemma sig_equals_iff: "sig_equals a b \<longleftrightarrow> a = b"
  by (auto simp: sig_equals_def)

definition types_part :: "type_table \<Rightarrow> type_data list \<times> (u64 \<times> nat) list" where
  "types_part tt = (tt_types tt, tt_type_lookup tt)"

definition sigs_part :: "type_table \<Rightarrow> sig_data list \<times> (u64 \<times> nat) list" where
  "sigs_part tt = (tt_sigs tt, tt_sig_lookup tt)"

definition tt_inv :: "type_table \<Rightarrow> bool" where
  "tt_inv tt \<longleftrightarrow> table_inv hash_type (types_part tt) \<and> table_inv hash_sig (sigs_part tt)"

text \<open>The whole table as state: interning a type or a signature leaves the other half alone.\<close>

lemma intern_part:
  "intern d tt = (i, tt') \<Longrightarrow> intern_in hash_type type_equals d (types_part tt) = (i, types_part tt') \<and> sigs_part tt' = sigs_part tt"
  "intern_in hash_type type_equals d (types_part tt) = (i, types_part tt) \<Longrightarrow> intern d tt = (i, tt)"
  by (auto simp: intern_def types_part_def sigs_part_def split: prod.splits)

lemma get_signature_part:
  "get_signature d tt = (i, tt') \<Longrightarrow>
     intern_in hash_sig sig_equals (fix_params d) (sigs_part tt) = (i, sigs_part tt') \<and> types_part tt' = types_part tt"
  "intern_in hash_sig sig_equals (fix_params d) (sigs_part tt) = (i, sigs_part tt) \<Longrightarrow> get_signature d tt = (i, tt)"
  by (auto simp: get_signature_def types_part_def sigs_part_def split: prod.splits)

lemmas type_laws =
  interning.inv_intern [OF interning_table [of type_equals hash_type, OF type_equals_iff]]
  interning.get_intern [OF interning_table [of type_equals hash_type, OF type_equals_iff]]
  interning.keeps [OF interning_table [of type_equals hash_type, OF type_equals_iff]]
  interning.hit [OF interning_table [of type_equals hash_type, OF type_equals_iff]]
  interning.unique [OF interning_table [of type_equals hash_type, OF type_equals_iff]]

lemmas sig_laws =
  interning.inv_intern [OF interning_table [of sig_equals hash_sig, OF sig_equals_iff]]
  interning.get_intern [OF interning_table [of sig_equals hash_sig, OF sig_equals_iff]]
  interning.keeps [OF interning_table [of sig_equals hash_sig, OF sig_equals_iff]]
  interning.hit [OF interning_table [of sig_equals hash_sig, OF sig_equals_iff]]
  interning.unique [OF interning_table [of sig_equals hash_sig, OF sig_equals_iff]]

lemma type_of_part: "type_of tt i = fst (types_part tt) ! i" "signature_of tt i = fst (sigs_part tt) ! i"
  by (simp_all add: type_of_def signature_of_def types_part_def sigs_part_def)

interpretation type_interning: interning "\<lambda>d. d" intern type_of "\<lambda>tt. filed (types_part tt)" tt_inv
proof
  fix s d i s' j
  assume "tt_inv s"
  then have inv: "table_inv hash_type (types_part s)" "table_inv hash_sig (sigs_part s)"
    by (simp_all add: tt_inv_def)
  show "tt_inv s'" if "intern d s = (i, s')"
    using intern_part(1) [OF that] type_laws(1) [OF inv(1)] inv(2) unfolding tt_inv_def by metis
  show "filed (types_part s') i \<and> type_of s' i = d" if "intern d s = (i, s')"
    using intern_part(1) [OF that] type_laws(2) [OF inv(1)] unfolding type_of_part by blast
  show "filed (types_part s') j \<and> type_of s' j = type_of s j" if "intern d s = (i, s')" "filed (types_part s) j"
    using intern_part(1) [OF that(1)] type_laws(3) [OF inv(1) _ that(2)] unfolding type_of_part by blast
  show "intern d s = (i, s)" if "filed (types_part s) i" "type_of s i = d"
    using that type_laws(4) [OF inv(1) that(1)] intern_part(2) unfolding type_of_part by blast
  show "i = j" if "filed (types_part s) i" "filed (types_part s) j" "type_of s i = type_of s j"
    using type_laws(5) [OF inv(1) that(1,2)] that(3) unfolding type_of_part by blast
qed

interpretation sig_interning: interning fix_params get_signature signature_of "\<lambda>tt. filed (sigs_part tt)" tt_inv
proof
  fix s d i s' j
  assume "tt_inv s"
  then have inv: "table_inv hash_type (types_part s)" "table_inv hash_sig (sigs_part s)"
    by (simp_all add: tt_inv_def)
  show "tt_inv s'" if "get_signature d s = (i, s')"
    using get_signature_part(1) [OF that] sig_laws(1) [OF inv(2)] inv(1) unfolding tt_inv_def by metis
  show "filed (sigs_part s') i \<and> signature_of s' i = fix_params d" if "get_signature d s = (i, s')"
    using get_signature_part(1) [OF that] sig_laws(2) [OF inv(2)] unfolding type_of_part by blast
  show "filed (sigs_part s') j \<and> signature_of s' j = signature_of s j"
    if "get_signature d s = (i, s')" "filed (sigs_part s) j"
    using get_signature_part(1) [OF that(1)] sig_laws(3) [OF inv(2) _ that(2)] unfolding type_of_part by blast
  show "get_signature d s = (i, s)" if "filed (sigs_part s) i" "signature_of s i = fix_params d"
    using that sig_laws(4) [OF inv(2) that(1)] get_signature_part(2) unfolding type_of_part by blast
  show "i = j" if "filed (sigs_part s) i" "filed (sigs_part s) j" "signature_of s i = signature_of s j"
    using sig_laws(5) [OF inv(2) that(1,2)] that(3) unfolding type_of_part by blast
qed

text \<open>The constructed table: the invariant holds and the constants name the types they should.\<close>

lemma put_type_inv: "tt_inv tt \<Longrightarrow> tt_inv (put_type d tt)"
  using type_interning.inv_intern [of tt d "fst (intern d tt)" "snd (intern d tt)"] by (simp add: put_type_def)

lemma new_type_table_inv: "tt_inv new_type_table"
proof -
  have fold: "tt_inv (fold put_type ds tt)" if "tt_inv tt" for ds tt
    using that by (induction ds arbitrary: tt) (auto intro: put_type_inv)
  show ?thesis
    unfolding new_type_table_def
    by (rule fold) (simp add: tt_inv_def table_inv_def types_part_def sigs_part_def filed_def)
qed

lemma new_type_table_types: "tt_types new_type_table = type_data_default # well_known_types"
  by code_simp

lemma new_type_table_filed: "map snd (tt_type_lookup new_type_table) = [1..<12]"
  by code_simp

section \<open>Properties\<close>

text \<open>
  C40: on a table satisfying the invariant, interning a type or a signature returns an identifier
  of exactly that description (a signature with its parameter count fixed), gives the same
  identifier to the next request if and only if the two descriptions are equal, keeps the
  descriptions of all earlier identifiers, and preserves the invariant; the table the constructor
  builds satisfies it.
\<close>

theorem interning_correct:
  assumes "tt_inv tt" and "intern d tt = (i, tt1)" and "intern d' tt1 = (j, tt2)"
    and "get_signature s tt = (m, tt3)" and "get_signature s' tt3 = (n, tt4)"
    and "filed (types_part tt) k" and "filed (sigs_part tt) l"
  shows "type_of tt1 i = d \<and> (i = j \<longleftrightarrow> d = d') \<and> type_of tt1 k = type_of tt k \<and> tt_inv tt1
    \<and> signature_of tt3 m = fix_params s \<and> (m = n \<longleftrightarrow> fix_params s = fix_params s')
    \<and> signature_of tt3 l = signature_of tt l \<and> tt_inv tt3 \<and> tt_inv new_type_table"
  using type_interning.get_intern [OF assms(1,2)] type_interning.same_id_iff [OF assms(1-3)]
    type_interning.keeps [OF assms(1,2,6)] type_interning.inv_intern [OF assms(1,2)]
    sig_interning.get_intern [OF assms(1,4)] sig_interning.same_id_iff [OF assms(1,4,5)]
    sig_interning.keeps [OF assms(1,4,7)] sig_interning.inv_intern [OF assms(1,4)] new_type_table_inv
  by blast

theorem interning_correct_witness:
  "fst (intern (int_type 24) (snd (get_signature sig_data_default new_type_table)))
    \<noteq> fst (intern (ptr_type 7) (snd (intern (int_type 24) (snd (get_signature sig_data_default new_type_table)))))"
proof -
  let ?tt = "snd (get_signature sig_data_default new_type_table)"
  have inv: "tt_inv ?tt"
    using sig_interning.inv_intern [OF new_type_table_inv] by (metis prod.collapse)
  have "filed (types_part ?tt) 2" "filed (sigs_part ?tt) 1"
    by code_simp+
  then show ?thesis
    using interning_correct [OF inv surjective_pairing surjective_pairing [of "intern (ptr_type 7) _"]
        surjective_pairing [of "get_signature sig_data_default ?tt"] surjective_pairing [of "get_signature sig_data_default _"],
        of 2 1 "int_type 24"]
    by (simp add: int_type_def ptr_type_def)
qed

text \<open>
  the constants of namespace \<open>types\<close> are the identifiers the constructor gives the types they
  name, which is what its assertions check, and asking for one of these types later, at any point
  of the table's life, returns the constant and changes nothing.
\<close>

theorem well_known_type_ids:
  assumes "tt = fold (\<lambda>d t. snd (intern d t)) ds new_type_table"
  shows "get_int 8 tt = (types_I8, tt) \<and> get_int 16 tt = (types_I16, tt) \<and> get_int 32 tt = (types_I32, tt)
    \<and> get_int 64 tt = (types_I64, tt) \<and> get_int 128 tt = (types_I128, tt)
    \<and> get_float KF32 tt = (types_F32, tt) \<and> get_float KF64 tt = (types_F64, tt)
    \<and> get_float KF128 tt = (types_F128, tt) \<and> get_float KF80 tt = (types_F80, tt)
    \<and> get_ptr 0 tt = (types_PTR, tt) \<and> intern void_type tt = (types_VOID, tt)"
proof -
  have filed: "filed (types_part new_type_table) i" if "i \<in> {1..<12}" for i
  proof -
    have "snd ` set (tt_type_lookup new_type_table) = {1..<12}"
      by (metis new_type_table_filed set_map set_upt)
    then show ?thesis
      using that by (simp add: filed_def types_part_def)
  qed
  have hit: "intern (well_known_types ! (i - 1)) tt = (i, tt)" if "i \<in> {1..<12}" for i
  proof -
    have "tt_inv tt \<and> filed (types_part tt) i \<and> type_of tt i = type_of new_type_table i"
      by (rule type_interning.stable [OF new_type_table_inv filed [OF that] assms])
    moreover have "type_of new_type_table i = well_known_types ! (i - 1)"
      using that by (simp add: type_of_def new_type_table_types nth_Cons')
    ultimately show ?thesis
      by (intro type_interning.hit) auto
  qed
  show ?thesis
    using hit [of 1] hit [of 2] hit [of 3] hit [of 4] hit [of 5] hit [of 6] hit [of 7] hit [of 8] hit [of 9]
      hit [of 10] hit [of 11]
    by (simp add: well_known_types_def get_int_def get_float_def get_ptr_def types_defs)
qed

theorem well_known_type_ids_witness:
  "fst (get_int 32 (snd (intern (int_type 24) new_type_table))) = types_I32"
  using well_known_type_ids [of _ "[int_type 24]"] by simp

end
