(* ===== verification/Linked_Lists.thy ===== *)
theory Linked_Lists
  imports Main
begin

text \<open>
  Doubly linked lists given by a next and a previous position per element, 0 being no position:
  the shape the instructions of an AIR block and the blocks of an AIR function have. Loops over
  such a list are given fuel, since a damaged list may run in a cycle; on a linked list the
  length is enough.
\<close>

section \<open>Segments\<close>

definition first_of :: "nat list \<Rightarrow> nat \<Rightarrow> nat" where
  "first_of xs q = (case xs of [] \<Rightarrow> q | x # _ \<Rightarrow> x)"

definition last_of :: "nat \<Rightarrow> nat list \<Rightarrow> nat" where
  "last_of p xs = last (p # xs)"

fun seg :: "(nat \<Rightarrow> nat) \<Rightarrow> (nat \<Rightarrow> nat) \<Rightarrow> nat \<Rightarrow> nat list \<Rightarrow> nat \<Rightarrow> bool" where
  "seg nx pv p [] q \<longleftrightarrow> True"
| "seg nx pv p (x # xs) q \<longleftrightarrow> pv x = p \<and> nx x = first_of xs q \<and> seg nx pv x xs q"

lemma first_of_simps [simp]:
  "first_of [] q = q" "first_of (x # xs) q = x" "first_of (xs @ ys) q = first_of xs (first_of ys q)"
  by (simp_all add: first_of_def split: list.split)

lemma last_of_simps [simp]:
  "last_of p [] = p" "last_of p (x # xs) = last_of x xs" "last_of p (xs @ ys) = last_of (last_of p xs) ys"
  by (simp_all add: last_of_def last_append)

lemma first_of_in: "first_of xs q \<in> insert q (set xs)"
  by (cases xs) simp_all

lemma last_of_in: "last_of p xs \<in> insert p (set xs)"
  by (simp add: last_of_def)

lemma first_of_eq_end: "q \<notin> set xs \<Longrightarrow> first_of xs q = q \<longleftrightarrow> xs = []"
  by (cases xs) auto

lemma last_of_eq_end: "p \<notin> set xs \<Longrightarrow> last_of p xs = p \<longleftrightarrow> xs = []"
  by (cases xs rule: rev_cases) auto

lemma seg_append [simp]:
  "seg nx pv p (xs @ ys) q \<longleftrightarrow> seg nx pv p xs (first_of ys q) \<and> seg nx pv (last_of p xs) ys q"
  by (induction xs arbitrary: p) auto

lemma seg_cong:
  assumes "\<And>x. x \<in> set xs \<Longrightarrow> nx' x = nx x" and "\<And>x. x \<in> set xs \<Longrightarrow> pv' x = pv x"
  shows "seg nx' pv' p xs q \<longleftrightarrow> seg nx pv p xs q"
  using assms by (induction xs arbitrary: p) auto

text \<open>Changing the ends of a segment: only the last next and the first previous position differ.\<close>

lemma seg_new_end:
  assumes "seg nx pv p xs q" "distinct xs"
    and "\<And>x. x \<in> set xs \<Longrightarrow> nx' x = (if x = last_of p xs then q' else nx x)"
    and "\<And>x. x \<in> set xs \<Longrightarrow> pv' x = pv x"
  shows "seg nx' pv' p xs q'"
  using assms
proof (induction xs arbitrary: p)
  case (Cons x xs)
  have "x \<noteq> last_of x xs" if "xs \<noteq> []"
    using that Cons.prems(2) last_of_eq_end [of x xs] by auto
  moreover have "seg nx' pv' x xs q'"
    using Cons.prems by (intro Cons.IH) auto
  ultimately show ?case
    using Cons.prems by (cases "xs = []") (auto simp: first_of_def split: list.split)
qed simp

lemma seg_new_start:
  assumes "seg nx pv p xs q" "distinct xs"
    and "\<And>x. x \<in> set xs \<Longrightarrow> nx' x = nx x"
    and "\<And>x. x \<in> set xs \<Longrightarrow> pv' x = (if x = first_of xs q then p' else pv x)"
  shows "seg nx' pv' p' xs q"
proof (cases xs)
  case (Cons x ys)
  have "seg nx' pv' x ys q"
    using assms Cons by (subst seg_cong [of ys _ nx _ pv]) auto
  then show ?thesis
    using assms Cons by auto
qed simp

section \<open>Linked lists\<close>

text \<open>A list between its two ends, and what insertion and removal write.\<close>

definition dll :: "(nat \<Rightarrow> nat) \<Rightarrow> (nat \<Rightarrow> nat) \<Rightarrow> nat \<Rightarrow> nat \<Rightarrow> nat list \<Rightarrow> bool" where
  "dll nx pv fst_i lst_i xs \<longleftrightarrow>
     distinct xs \<and> 0 \<notin> set xs \<and> seg nx pv 0 xs 0 \<and> fst_i = first_of xs 0 \<and> lst_i = last_of 0 xs"

lemma dll_cong:
  assumes "\<And>x. x \<in> set xs \<Longrightarrow> nx' x = nx x" and "\<And>x. x \<in> set xs \<Longrightarrow> pv' x = pv x"
  shows "dll nx' pv' fst_i lst_i xs \<longleftrightarrow> dll nx pv fst_i lst_i xs"
  using seg_cong [of xs nx' nx pv' pv] assms by (simp add: dll_def)

lemma dll_Nil [simp]: "dll nx pv fst_i lst_i [] \<longleftrightarrow> fst_i = 0 \<and> lst_i = 0"
  by (simp add: dll_def)

text \<open>The element in the middle of a list knows its neighbours.\<close>

lemma dll_middle:
  assumes "dll nx pv fst_i lst_i (xs @ i # ys)"
  shows "pv i = last_of 0 xs" "nx i = first_of ys 0" "pv i = 0 \<longleftrightarrow> xs = []" "nx i = 0 \<longleftrightarrow> ys = []"
proof -
  show "pv i = last_of 0 xs" "nx i = first_of ys 0"
    using assms by (simp_all add: dll_def)
  moreover have "0 \<notin> set xs" "0 \<notin> set ys"
    using assms by (simp_all add: dll_def)
  ultimately show "pv i = 0 \<longleftrightarrow> xs = []" "nx i = 0 \<longleftrightarrow> ys = []"
    by (simp_all add: last_of_eq_end first_of_eq_end)
qed

lemma dll_insert:
  assumes l: "dll nx pv fst_i lst_i (xs @ ys)" and i: "i \<noteq> 0" "i \<notin> set xs" "i \<notin> set ys"
    and nx: "\<And>x. x = i \<or> x \<in> set xs \<or> x \<in> set ys \<Longrightarrow>
               nx' x = (if x = i then first_of ys 0 else if x = last_of 0 xs then i else nx x)"
    and pv: "\<And>x. x = i \<or> x \<in> set xs \<or> x \<in> set ys \<Longrightarrow>
               pv' x = (if x = i then last_of 0 xs else if x = first_of ys 0 then i else pv x)"
    and ends: "fst_i' = first_of xs i" "lst_i' = last_of i ys"
  shows "dll nx' pv' fst_i' lst_i' (xs @ i # ys)"
proof -
  have d: "distinct xs" "distinct ys" "set xs \<inter> set ys = {}" "0 \<notin> set xs" "0 \<notin> set ys"
    using l by (auto simp: dll_def)
  have s: "seg nx pv 0 xs (first_of ys 0)" "seg nx pv (last_of 0 xs) ys 0"
    using l by (simp_all add: dll_def)
  have ne: "x \<noteq> last_of 0 xs" if "x \<in> set ys" for x
    using that last_of_in [of 0 xs] d by auto
  have ne': "x \<noteq> first_of ys 0" if "x \<in> set xs" for x
    using that first_of_in [of ys 0] d by auto
  have "seg nx' pv' 0 xs i"
    by (rule seg_new_end [OF s(1) d(1)]; use nx pv i ne' in force)
  moreover have "seg nx' pv' i ys 0"
    by (rule seg_new_start [OF s(2) d(2)]; use nx pv i ne in force)
  ultimately show ?thesis
    using d i nx [of i] pv [of i] ends by (auto simp: dll_def)
qed

lemma dll_remove:
  assumes l: "dll nx pv fst_i lst_i (xs @ i # ys)"
    and nx: "\<And>x. x \<in> set xs \<or> x \<in> set ys \<Longrightarrow> nx' x = (if x = last_of 0 xs then first_of ys 0 else nx x)"
    and pv: "\<And>x. x \<in> set xs \<or> x \<in> set ys \<Longrightarrow> pv' x = (if x = first_of ys 0 then last_of 0 xs else pv x)"
    and ends: "fst_i' = first_of xs (first_of ys 0)" "lst_i' = last_of (last_of 0 xs) ys"
  shows "dll nx' pv' fst_i' lst_i' (xs @ ys)"
proof -
  have d: "distinct xs" "distinct ys" "set xs \<inter> set ys = {}" "0 \<notin> set xs" "0 \<notin> set ys"
    using l by (auto simp: dll_def)
  have s: "seg nx pv 0 xs i" "seg nx pv i ys 0"
    using l by (simp_all add: dll_def)
  have ne: "x \<noteq> last_of 0 xs" if "x \<in> set ys" for x
    using that last_of_in [of 0 xs] d by auto
  have ne': "x \<noteq> first_of ys 0" if "x \<in> set xs" for x
    using that first_of_in [of ys 0] d by auto
  have "seg nx' pv' 0 xs (first_of ys 0)"
    by (rule seg_new_end [OF s(1) d(1)]; use nx pv ne' in force)
  moreover have "seg nx' pv' (last_of 0 xs) ys 0"
    by (rule seg_new_start [OF s(2) d(2)]; use nx pv ne in force)
  ultimately show ?thesis
    using d ends by (auto simp: dll_def)
qed

section \<open>Traversals\<close>

text \<open>A traversal reads the positions from a first one on; \<open>None\<close> is a list without an end.\<close>

fun walk :: "nat \<Rightarrow> (nat \<Rightarrow> nat) \<Rightarrow> nat \<Rightarrow> nat list option" where
  "walk fuel nx i =
     (if i = 0 then Some []
      else case fuel of 0 \<Rightarrow> None | Suc n \<Rightarrow> map_option ((#) i) (walk n nx (nx i)))"

declare walk.simps [simp del]

lemma walk_seg:
  "seg nx pv p xs 0 \<Longrightarrow> 0 \<notin> set xs \<Longrightarrow> length xs \<le> fuel \<Longrightarrow> walk fuel nx (first_of xs 0) = Some xs"
proof (induction xs arbitrary: p fuel)
  case (Cons x xs)
  obtain n where "fuel = Suc n"
    using Cons.prems(3) by (cases fuel) auto
  then show ?case
    using Cons.IH [of x n] Cons.prems by (simp add: walk.simps [of "Suc n"])
qed (simp add: walk.simps)

lemma walk_dll: "dll nx pv fst_i lst_i xs \<Longrightarrow> length xs \<le> fuel \<Longrightarrow> walk fuel nx fst_i = Some xs"
  using walk_seg by (auto simp: dll_def)

text \<open>
  The loop that reads the next position before its body may unlink the current element. The
  state of the body is threaded through.
\<close>

fun visit :: "nat \<Rightarrow> ('s \<Rightarrow> nat \<Rightarrow> nat) \<Rightarrow> (nat \<Rightarrow> 's \<Rightarrow> 's) \<Rightarrow> nat \<Rightarrow> 's \<Rightarrow> 's option" where
  "visit fuel nx body i s =
     (if i = 0 then Some s
      else case fuel of 0 \<Rightarrow> None | Suc n \<Rightarrow> visit n nx body (nx s i) (body i s))"

declare visit.simps [simp del]

lemma visit_0 [simp]: "visit fuel nx body 0 s = Some s"
  by (simp add: visit.simps)

lemma visit_Suc [simp]: "i \<noteq> 0 \<Longrightarrow> visit (Suc n) nx body i s = visit n nx body (nx s i) (body i s)"
  by (simp add: visit.simps)

text \<open>
  The contract of a loop body: the invariant speaks of the positions still to be visited, and
  the body establishes it for the rest. Then the loop ends and is the fold of its body.
\<close>

locale traversal =
  fixes nx :: "'s \<Rightarrow> nat \<Rightarrow> nat"
    and body :: "nat \<Rightarrow> 's \<Rightarrow> 's"
    and inv :: "'s \<Rightarrow> nat list \<Rightarrow> bool"
  assumes next_pos: "inv s (i # is) \<Longrightarrow> nx s i = first_of is 0"
    and not_end: "inv s (i # is) \<Longrightarrow> i \<noteq> 0"
    and body_inv: "inv s (i # is) \<Longrightarrow> inv (body i s) is"
begin

lemma visit_fold:
  "inv s is \<Longrightarrow> length is \<le> fuel \<Longrightarrow>
     visit fuel nx body (first_of is 0) s = Some (fold body is s) \<and> inv (fold body is s) []"
proof (induction "is" arbitrary: s fuel)
  case (Cons i "is")
  obtain n where "fuel = Suc n"
    using Cons.prems(2) by (cases fuel) auto
  then show ?case
    using Cons.IH [of "body i s" n] Cons.prems next_pos not_end body_inv by simp
qed simp

end

text \<open>The loop that reads the next position after its body, which may itself not return.\<close>

fun for_each :: "nat \<Rightarrow> ('s \<Rightarrow> nat \<Rightarrow> nat) \<Rightarrow> (nat \<Rightarrow> 's \<Rightarrow> 's option) \<Rightarrow> nat \<Rightarrow> 's \<Rightarrow> 's option" where
  "for_each fuel nx body i s =
     (if i = 0 then Some s
      else case fuel of
          0 \<Rightarrow> None
        | Suc n \<Rightarrow> (case body i s of None \<Rightarrow> None | Some s' \<Rightarrow> for_each n nx body (nx s' i) s'))"

declare for_each.simps [simp del]

lemma for_each_0 [simp]: "for_each fuel nx body 0 s = Some s"
  by (simp add: for_each.simps)

lemma for_each_Suc [simp]:
  "i \<noteq> 0 \<Longrightarrow> for_each (Suc n) nx body i s =
     (case body i s of None \<Rightarrow> None | Some s' \<Rightarrow> for_each n nx body (nx s' i) s')"
  by (simp add: for_each.simps)

locale for_loop =
  fixes nx :: "'s \<Rightarrow> nat \<Rightarrow> nat"
    and body :: "nat \<Rightarrow> 's \<Rightarrow> 's option"
    and inv :: "'s \<Rightarrow> nat list \<Rightarrow> bool"
  assumes not_end: "inv s (i # is) \<Longrightarrow> i \<noteq> 0"
    and body_returns: "inv s (i # is) \<Longrightarrow> \<exists>s'. body i s = Some s' \<and> nx s' i = first_of is 0 \<and> inv s' is"
begin

lemma for_each_returns:
  "inv s is \<Longrightarrow> length is \<le> fuel \<Longrightarrow> \<exists>s'. for_each fuel nx body (first_of is 0) s = Some s' \<and> inv s' []"
proof (induction "is" arbitrary: s fuel)
  case (Cons i "is")
  obtain n where n: "fuel = Suc n"
    using Cons.prems(2) by (cases fuel) auto
  obtain s' where s': "body i s = Some s'" "nx s' i = first_of is 0" "inv s' is"
    using body_returns [OF Cons.prems(1)] by blast
  obtain s'' where "for_each n nx body (first_of is 0) s' = Some s''" "inv s'' []"
    using Cons.IH [OF s'(3), of n] Cons.prems(2) n by auto
  then show ?case
    using n s' not_end [OF Cons.prems(1)] by simp
qed simp

end

end
