(* ===== verification/Pools.thy ===== *)
theory Pools
  imports Main
begin

text \<open>
  Lists kept as ranges of one shared vector, as AIR functions keep operands, block call arguments
  and block parameters: every owner has a start and a length, and ranges of different owners do
  not overlap.
\<close>

type_synonym region = "nat \<times> nat"

definition slots :: "region \<Rightarrow> nat set" where
  "slots r = {fst r..<fst r + snd r}"

definition vals :: "'a list \<Rightarrow> region \<Rightarrow> 'a list" where
  "vals pool r = take (snd r) (drop (fst r) pool)"

definition pool_ok :: "'a list \<Rightarrow> ('o \<Rightarrow> region) \<Rightarrow> 'o set \<Rightarrow> bool" where
  "pool_ok pool R owners \<longleftrightarrow>
     (\<forall>a \<in> owners. fst (R a) + snd (R a) \<le> length pool)
     \<and> (\<forall>a \<in> owners. \<forall>b \<in> owners. a \<noteq> b \<longrightarrow> slots (R a) \<inter> slots (R b) = {})"

lemma length_vals: "fst r + snd r \<le> length pool \<Longrightarrow> length (vals pool r) = snd r"
  by (simp add: vals_def)

lemma nth_vals: "fst r + snd r \<le> length pool \<Longrightarrow> k < snd r \<Longrightarrow> vals pool r ! k = pool ! (fst r + k)"
  by (simp add: vals_def)

lemma vals_cong:
  assumes "\<And>k. k \<in> slots r \<Longrightarrow> pool' ! k = pool ! k"
    and "fst r + snd r \<le> length pool" "fst r + snd r \<le> length pool'"
  shows "vals pool' r = vals pool r"
  using assms by (intro nth_equalityI) (auto simp: length_vals nth_vals slots_def)

text \<open>
  The frame rule of a pool: an operation that writes only the slots of one owner, or new slots,
  and gives that owner a range among those, keeps the pool in order and the lists of all others.
\<close>

lemma pool_change:
  assumes ok: "pool_ok pool R owners" and len: "length pool \<le> length pool'"
    and frame: "\<And>k. k < length pool \<Longrightarrow> k \<notin> old \<Longrightarrow> pool' ! k = pool ! k"
    and old: "old = (if a \<in> owners then slots (R a) else {})"
    and others: "\<And>b. b \<in> owners \<Longrightarrow> b \<noteq> a \<Longrightarrow> R' b = R b"
    and fits: "fst (R' a) + snd (R' a) \<le> length pool'" "slots (R' a) \<subseteq> old \<union> {length pool..<length pool'}"
  shows "pool_ok pool' R' (insert a owners)" and "b \<in> owners \<Longrightarrow> b \<noteq> a \<Longrightarrow> vals pool' (R' b) = vals pool (R b)"
proof -
  have in_pool: "slots (R b) \<subseteq> {..<length pool}" if "b \<in> owners" for b
    using ok that by (force simp: pool_ok_def slots_def)
  have disj_old: "slots (R b) \<inter> old = {}" if "b \<in> owners" "b \<noteq> a" for b
    using ok that by (auto simp: old pool_ok_def)
  have disj: "slots (R' a) \<inter> slots (R b) = {}" if "b \<in> owners" "b \<noteq> a" for b
    using in_pool [OF that(1)] disj_old [OF that] fits(2) by fastforce
  show "pool_ok pool' R' (insert a owners)"
    unfolding pool_ok_def
  proof (intro conjI ballI impI)
    fix x
    assume x: "x \<in> insert a owners"
    show "fst (R' x) + snd (R' x) \<le> length pool'"
      using x ok fits(1) others [of x] len by (cases "x = a") (auto simp: pool_ok_def)
    fix y
    assume y: "y \<in> insert a owners" and ne: "x \<noteq> y"
    consider "x = a" "y \<in> owners" | "y = a" "x \<in> owners" | "x \<noteq> a" "y \<noteq> a" "x \<in> owners" "y \<in> owners"
      using x y ne by blast
    then show "slots (R' x) \<inter> slots (R' y) = {}"
    proof cases
      case 3
      then show ?thesis
        using ok others ne by (simp add: pool_ok_def)
    qed (use disj others ne in auto)
  qed
  show "vals pool' (R' b) = vals pool (R b)" if b: "b \<in> owners" "b \<noteq> a"
  proof -
    have "fst (R b) + snd (R b) \<le> length pool"
      using ok b by (simp add: pool_ok_def)
    moreover have "pool' ! k = pool ! k" if "k \<in> slots (R b)" for k
      using that in_pool [OF b(1)] disj_old [OF b] by (intro frame) auto
    ultimately show ?thesis
      unfolding others [OF b] using len by (intro vals_cong) auto
  qed
qed

section \<open>Writing a range\<close>

text \<open>A value appended to a range: in place when the range ends the pool, otherwise on a copy.\<close>

lemma vals_extend:
  assumes "fst r + snd r \<le> length pool"
  shows "fst r + snd r = length pool \<Longrightarrow> vals (pool @ [v]) (fst r, snd r + 1) = vals pool r @ [v]"
    and "vals (pool @ vals pool r @ [v]) (length pool, snd r + 1) = vals pool r @ [v]"
  using assms by (simp_all add: vals_def)

lemma vals_append_new: "vals (pool @ xs) (length pool, length xs) = xs"
  by (simp add: vals_def)

lemma vals_update:
  assumes "fst r + snd r \<le> length pool" "k < snd r"
  shows "vals (pool[fst r + k := v]) r = (vals pool r)[k := v]"
  using assms by (simp add: vals_def drop_update_swap take_update_swap)

text \<open>Removing the element at an index by moving the later ones down.\<close>

definition drop_nth :: "nat \<Rightarrow> 'a list \<Rightarrow> 'a list" where
  "drop_nth k xs = take k xs @ drop (Suc k) xs"

lemma length_drop_nth: "k < length xs \<Longrightarrow> length (drop_nth k xs) = length xs - 1"
  by (simp add: drop_nth_def)

lemma nth_drop_nth:
  "k < length xs \<Longrightarrow> i < length xs - 1 \<Longrightarrow> drop_nth k xs ! i = (if i < k then xs ! i else xs ! Suc i)"
  by (auto simp: drop_nth_def nth_append min_def)

fun shift_down :: "nat \<Rightarrow> nat list \<Rightarrow> 'a list \<Rightarrow> 'a list" where
  "shift_down start [] pool = pool"
| "shift_down start (i # is) pool = shift_down start is (pool[start + i - 1 := pool ! (start + i)])"

lemma length_shift_down [simp]: "length (shift_down start is pool) = length pool"
  by (induction "is" arbitrary: pool) simp_all

lemma shift_down_nth:
  assumes "0 < lo" "start + hi \<le> length pool"
  shows "shift_down start [lo..<hi] pool ! k =
           (if start + lo \<le> k + 1 \<and> k + 1 < start + hi then pool ! (k + 1) else pool ! k)"
  using assms
proof (induction "hi - lo" arbitrary: lo pool)
  case (Suc n)
  have upt: "[lo..<hi] = lo # [Suc lo..<hi]"
    using Suc.hyps(2) by (simp add: upt_conv_Cons)
  let ?p = "pool[start + lo - 1 := pool ! (start + lo)]"
  have "shift_down start [Suc lo..<hi] ?p ! k =
      (if start + Suc lo \<le> k + 1 \<and> k + 1 < start + hi then ?p ! (k + 1) else ?p ! k)"
    using Suc.hyps Suc.prems by (intro Suc.hyps(1)) simp_all
  moreover have "?p ! (k + 1) = pool ! (k + 1)" if "start + Suc lo \<le> k + 1"
    using that by simp
  moreover have "?p ! k = (if k + 1 = start + lo then pool ! (k + 1) else pool ! k)"
  proof (cases "k + 1 = start + lo")
    case True
    then have "start + lo - 1 = k" "k < length pool"
      using Suc.prems Suc.hyps(2) by simp_all
    then show ?thesis
      using True by simp
  next
    case False
    then have "start + lo - 1 \<noteq> k"
      using Suc.prems(1) by simp
    then show ?thesis
      using False by simp
  qed
  ultimately show ?case
    using Suc.hyps(2) by (auto simp: upt)
qed auto

lemma vals_shift_down:
  assumes fits: "fst r + snd r \<le> length pool" and k: "k < snd r"
  shows "vals (shift_down (fst r) [k + 1..<snd r] pool) (fst r, snd r - 1) = drop_nth k (vals pool r)"
proof -
  note sh = shift_down_nth [of "k + 1" "fst r" "snd r" pool]
  have len: "fst (fst r, snd r - 1) + snd (fst r, snd r - 1) \<le> length (shift_down (fst r) [k + 1..<snd r] pool)"
    using fits by simp
  show ?thesis
  proof (rule nth_equalityI)
    show "length (vals (shift_down (fst r) [k + 1..<snd r] pool) (fst r, snd r - 1)) = length (drop_nth k (vals pool r))"
      using length_vals [OF len] k fits by (simp add: length_drop_nth length_vals)
    fix i
    assume "i < length (vals (shift_down (fst r) [k + 1..<snd r] pool) (fst r, snd r - 1))"
    then have i: "i < snd r - 1"
      using length_vals [OF len] by simp
    then have "Suc i < snd r"
      by simp
    then show "vals (shift_down (fst r) [k + 1..<snd r] pool) (fst r, snd r - 1) ! i = drop_nth k (vals pool r) ! i"
      using nth_vals [OF len] sh fits k by (simp add: nth_drop_nth length_vals nth_vals)
  qed
qed

text \<open>Writing a list over a range.\<close>

fun overwrite :: "nat \<Rightarrow> 'a list \<Rightarrow> 'a list \<Rightarrow> 'a list" where
  "overwrite pos [] pool = pool"
| "overwrite pos (v # vs) pool = overwrite (pos + 1) vs (pool[pos := v])"

lemma overwrite_nth:
  assumes "pos + length vs \<le> length pool"
  shows "length (overwrite pos vs pool) = length pool"
    and "overwrite pos vs pool ! k = (if pos \<le> k \<and> k < pos + length vs then vs ! (k - pos) else pool ! k)"
  using assms
proof (induction vs arbitrary: pos pool)
  case (Cons v vs)
  { case 1
    then show ?case
      using Cons(1) [of "pos + 1" "pool[pos := v]"] by simp }
  { case 2
    then show ?case
      using Cons(2) [of "pos + 1" "pool[pos := v]"]
      by (cases "k = pos") (auto simp: nth_Cons' Suc_diff_le) }
qed auto

lemma vals_overwrite:
  assumes fits: "fst r + snd r \<le> length pool" and len: "length vs = snd r"
  shows "vals (overwrite (fst r) vs pool) r = vs"
proof -
  note o = overwrite_nth [of "fst r" vs pool]
  have "fst r + snd r \<le> length (overwrite (fst r) vs pool)"
    using o(1) fits len by simp
  then show ?thesis
    using o(2) fits len by (intro nth_equalityI) (simp_all add: length_vals nth_vals)
qed

end
