(* ===== verification/Air_Function.thy ===== *)
theory Air_Function
  imports Air_Insts Air_Types Linked_Lists Pools
begin

text \<open>
  Functions of AIR (\<open>air/function.h\<close>, \<open>air/function.cpp\<close>): instructions, blocks, values and
  block calls live in vectors and refer to each other by position, 0 being the invalid position.
  The instructions of a block and the blocks of a function form doubly linked lists; operands and
  block arguments are ranges of one pool. Vectors hold fewer than \<open>2 ^ 32\<close> elements, so a position
  is a natural number; the auxiliary words keep their 64 bits. An \<open>assert\<close> of the source is a
  precondition of the theorems.
\<close>

section \<open>Data\<close>

datatype value_kind =
  InstResult | BlockParam | ConstInt | ConstFloat | ConstNull | Undef | GlobalAddr | FuncAddr | LabelAddr

type_synonym value_id = nat
type_synonym inst_id = nat
type_synonym block_id = nat
type_synonym block_call_id = nat

record value_data =
  vd_kind :: value_kind
  vd_type :: type_id
  vd_payload :: u64
  vd_payload2 :: u64

definition value_data_default :: value_data where
  "value_data_default = \<lparr>vd_kind = Undef, vd_type = 0, vd_payload = 0, vd_payload2 = 0\<rparr>"

record inst_data =
  in_op :: opcode
  in_flags :: u16
  in_type :: type_id
  in_op_begin :: nat
  in_op_count :: nat
  in_aux :: u64
  in_aux2 :: u64
  in_result :: value_id
  in_block :: block_id
  in_prev :: inst_id
  in_next :: inst_id
  in_loc :: u32

definition inst_data_default :: inst_data where
  "inst_data_default =
     \<lparr>in_op = OpUnreachable, in_flags = 0, in_type = 0, in_op_begin = 0, in_op_count = 0, in_aux = 0,
      in_aux2 = 0, in_result = 0, in_block = 0, in_prev = 0, in_next = 0, in_loc = 0\<rparr>"

record block_data =
  bd_first :: inst_id
  bd_last :: inst_id
  bd_param_begin :: nat
  bd_param_count :: nat
  bd_prev :: block_id
  bd_next :: block_id

definition block_data_default :: block_data where
  "block_data_default =
     \<lparr>bd_first = 0, bd_last = 0, bd_param_begin = 0, bd_param_count = 0, bd_prev = 0, bd_next = 0\<rparr>"

record block_call =
  bc_target :: block_id
  bc_arg_begin :: nat
  bc_arg_count :: nat

definition block_call_default :: block_call where
  "block_call_default = \<lparr>bc_target = 0, bc_arg_begin = 0, bc_arg_count = 0\<rparr>"

record switch_case =
  sc_value :: u64
  sc_target :: block_call_id

datatype linkage = LinkExternal | LinkInternal | LinkOnceODR | LinkWeak | LinkCommon

datatype symbol_visibility = VisDefault | VisHidden | VisProtected

record symbol_attrs =
  sa_visibility :: symbol_visibility
  sa_hidden :: bool
  sa_no_prefix :: bool
  sa_comdat_key :: string

record air_function =
  fn_name :: string
  fn_sig :: sig_id
  fn_linkage :: linkage
  fn_attrs :: symbol_attrs
  fn_loc :: u32
  fn_entry_block :: block_id
  fn_last_block :: block_id
  fn_insts :: "inst_data list"
  fn_blocks :: "block_data list"
  fn_values :: "value_data list"
  fn_block_calls :: "block_call list"
  fn_operand_pool :: "value_id list"
  fn_block_param_pool :: "value_id list"
  fn_jump_tables :: "switch_case list list"
  fn_block_call_lists :: "block_call_id list list"
  fn_constant_lookup :: "(u64 \<times> nat) list"
  fn_value_names :: "(nat \<times> string) list"

section \<open>Packed auxiliary words\<close>

definition pack_stack_alloc_aux :: "u64 \<Rightarrow> u8 \<Rightarrow> u64" where
  "pack_stack_alloc_aux size_bytes align_log2 =
     push_bit 56 (ucast align_log2) OR (size_bytes AND (push_bit 56 1 - 1))"

definition stack_alloc_size :: "u64 \<Rightarrow> u64" where
  "stack_alloc_size aux = aux AND (push_bit 56 1 - 1)"

definition stack_alloc_align_log2 :: "u64 \<Rightarrow> u8" where
  "stack_alloc_align_log2 aux = ucast (drop_bit 56 aux)"

definition pack_pair_aux :: "u32 \<Rightarrow> u32 \<Rightarrow> u64" where
  "pack_pair_aux low high = ucast low OR push_bit 32 (ucast high)"

definition aux_low :: "u64 \<Rightarrow> u32" where
  "aux_low aux = ucast aux"

definition aux_high :: "u64 \<Rightarrow> u32" where
  "aux_high aux = ucast (drop_bit 32 aux)"

section \<open>Construction, blocks and values\<close>

definition new_function :: "string \<Rightarrow> sig_id \<Rightarrow> linkage \<Rightarrow> air_function" where
  "new_function name sig link =
     \<lparr>fn_name = name, fn_sig = sig, fn_linkage = link,
      fn_attrs = \<lparr>sa_visibility = VisDefault, sa_hidden = False, sa_no_prefix = False, sa_comdat_key = []\<rparr>,
      fn_loc = 0, fn_entry_block = 0, fn_last_block = 0, fn_insts = [inst_data_default],
      fn_blocks = [block_data_default], fn_values = [value_data_default],
      fn_block_calls = [block_call_default], fn_operand_pool = [], fn_block_param_pool = [],
      fn_jump_tables = [], fn_block_call_lists = [], fn_constant_lookup = [], fn_value_names = []\<rparr>"

definition valid_block :: "air_function \<Rightarrow> block_id \<Rightarrow> bool" where
  "valid_block f b \<longleftrightarrow> 0 < b \<and> b < length (fn_blocks f)"

definition valid_inst :: "air_function \<Rightarrow> inst_id \<Rightarrow> bool" where
  "valid_inst f i \<longleftrightarrow> 0 < i \<and> i < length (fn_insts f)"

definition valid_value :: "air_function \<Rightarrow> value_id \<Rightarrow> bool" where
  "valid_value f v \<longleftrightarrow> 0 < v \<and> v < length (fn_values f)"

definition valid_block_call :: "air_function \<Rightarrow> block_call_id \<Rightarrow> bool" where
  "valid_block_call f c \<longleftrightarrow> 0 < c \<and> c < length (fn_block_calls f)"

definition is_declaration :: "air_function \<Rightarrow> bool" where
  "is_declaration f \<longleftrightarrow> fn_entry_block f = 0"

definition set_sig :: "sig_id \<Rightarrow> air_function \<Rightarrow> air_function" where
  "set_sig sig f = f\<lparr>fn_sig := sig\<rparr>"

definition set_linkage :: "linkage \<Rightarrow> air_function \<Rightarrow> air_function" where
  "set_linkage link f = f\<lparr>fn_linkage := link\<rparr>"

definition set_loc :: "u32 \<Rightarrow> air_function \<Rightarrow> air_function" where
  "set_loc loc f = f\<lparr>fn_loc := loc\<rparr>"

definition new_value :: "value_kind \<Rightarrow> type_id \<Rightarrow> u64 \<Rightarrow> u64 \<Rightarrow> air_function \<Rightarrow> value_id \<times> air_function" where
  "new_value kind ty payload payload2 f =
     (length (fn_values f),
      f\<lparr>fn_values := fn_values f @ [\<lparr>vd_kind = kind, vd_type = ty, vd_payload = payload, vd_payload2 = payload2\<rparr>]\<rparr>)"

text \<open>The loop that makes the parameters of a block and appends them to the pool.\<close>

fun push_params :: "block_id \<Rightarrow> nat \<Rightarrow> type_id list \<Rightarrow> air_function \<Rightarrow> air_function" where
  "push_params b i [] f = f"
| "push_params b i (ty # tys) f =
     (case new_value BlockParam ty (of_nat b) (of_nat i) f of
        (param, f') \<Rightarrow>
          push_params b (i + 1) tys (f'\<lparr>fn_block_param_pool := fn_block_param_pool f' @ [param]\<rparr>))"

definition set_block :: "block_id \<Rightarrow> (block_data \<Rightarrow> block_data) \<Rightarrow> air_function \<Rightarrow> air_function" where
  "set_block b upd f = f\<lparr>fn_blocks := (fn_blocks f)[b := upd (fn_blocks f ! b)]\<rparr>"

definition set_inst :: "inst_id \<Rightarrow> (inst_data \<Rightarrow> inst_data) \<Rightarrow> air_function \<Rightarrow> air_function" where
  "set_inst i upd f = f\<lparr>fn_insts := (fn_insts f)[i := upd (fn_insts f ! i)]\<rparr>"

definition set_call :: "block_call_id \<Rightarrow> (block_call \<Rightarrow> block_call) \<Rightarrow> air_function \<Rightarrow> air_function" where
  "set_call c upd f = f\<lparr>fn_block_calls := (fn_block_calls f)[c := upd (fn_block_calls f ! c)]\<rparr>"

definition create_block :: "type_id list \<Rightarrow> air_function \<Rightarrow> block_id \<times> air_function" where
  "create_block param_types f =
     (let b = length (fn_blocks f);
          data = block_data_default\<lparr>bd_param_begin := length (fn_block_param_pool f),
                                    bd_param_count := length param_types\<rparr>;
          f1 = push_params b 0 param_types f;
          last = fn_last_block f1;
          data' = (if last \<noteq> 0 then data\<lparr>bd_prev := last\<rparr> else data);
          f2 = (if last \<noteq> 0 then set_block last (\<lambda>d. d\<lparr>bd_next := b\<rparr>) f1 else f1\<lparr>fn_entry_block := b\<rparr>)
      in (b, f2\<lparr>fn_last_block := b, fn_blocks := fn_blocks f2 @ [data']\<rparr>))"

definition block :: "air_function \<Rightarrow> block_id \<Rightarrow> block_data" where
  "block f b = fn_blocks f ! b"

definition block_params :: "air_function \<Rightarrow> block_id \<Rightarrow> value_id list" where
  "block_params f b = take (bd_param_count (block f b)) (drop (bd_param_begin (block f b)) (fn_block_param_pool f))"

text \<open>A range of a pool that does not end where the pool ends is copied to the end before it grows.\<close>

definition append_block_param :: "block_id \<Rightarrow> type_id \<Rightarrow> air_function \<Rightarrow> value_id \<times> air_function" where
  "append_block_param b ty f =
     (let data = block f b;
          (param, f1) = new_value BlockParam ty (of_nat b) (of_nat (bd_param_count data)) f;
          pool = fn_block_param_pool f1
      in (param,
          if bd_param_begin data + bd_param_count data = length pool then
            set_block b (\<lambda>d. d\<lparr>bd_param_count := bd_param_count d + 1\<rparr>)
              (f1\<lparr>fn_block_param_pool := pool @ [param]\<rparr>)
          else
            set_block b (\<lambda>d. d\<lparr>bd_param_begin := length pool, bd_param_count := bd_param_count d + 1\<rparr>)
              (f1\<lparr>fn_block_param_pool :=
                  pool @ take (bd_param_count data) (drop (bd_param_begin data) pool) @ [param]\<rparr>)))"

text \<open>The loop of \<open>remove_block_param\<close> moves each later parameter one place down and renumbers it.\<close>

fun shift_params :: "nat \<Rightarrow> nat list \<Rightarrow> air_function \<Rightarrow> air_function" where
  "shift_params begin [] f = f"
| "shift_params begin (i # is) f =
     (let moved = fn_block_param_pool f ! (begin + i)
      in shift_params begin is
           (f\<lparr>fn_block_param_pool := (fn_block_param_pool f)[begin + i - 1 := moved],
              fn_values := (fn_values f)[moved := (fn_values f ! moved)\<lparr>vd_payload2 := of_nat (i - 1)\<rparr>]\<rparr>))"

definition remove_block_param :: "block_id \<Rightarrow> nat \<Rightarrow> air_function \<Rightarrow> air_function" where
  "remove_block_param b index f =
     set_block b (\<lambda>d. d\<lparr>bd_param_count := bd_param_count d - 1\<rparr>)
       (shift_params (bd_param_begin (block f b)) [index + 1..<bd_param_count (block f b)] f)"

definition set_block_params :: "block_id \<Rightarrow> type_id list \<Rightarrow> air_function \<Rightarrow> air_function" where
  "set_block_params b types f =
     set_block b (\<lambda>d. d\<lparr>bd_param_begin := length (fn_block_param_pool f), bd_param_count := length types\<rparr>)
       (push_params b 0 types f)"

definition retype_value :: "value_id \<Rightarrow> type_id \<Rightarrow> air_function \<Rightarrow> air_function" where
  "retype_value v ty f =
     (let data = fn_values f ! v;
          f1 = f\<lparr>fn_values := (fn_values f)[v := data\<lparr>vd_type := ty\<rparr>]\<rparr>
      in if vd_kind data = InstResult
         then set_inst (unat (ucast (vd_payload data) :: u32)) (\<lambda>d. d\<lparr>in_type := ty\<rparr>) f1
         else f1)"

definition remove_block :: "block_id \<Rightarrow> air_function \<Rightarrow> air_function" where
  "remove_block b f =
     (let data = block f b;
          f1 = (if bd_prev data \<noteq> 0 then set_block (bd_prev data) (\<lambda>d. d\<lparr>bd_next := bd_next data\<rparr>) f else f);
          f2 = (if bd_next data \<noteq> 0 then set_block (bd_next data) (\<lambda>d. d\<lparr>bd_prev := bd_prev data\<rparr>) f1
                else f1\<lparr>fn_last_block := bd_prev data\<rparr>)
      in set_block b (\<lambda>d. d\<lparr>bd_prev := 0, bd_next := 0\<rparr>) f2)"

definition value_of :: "air_function \<Rightarrow> value_id \<Rightarrow> value_data" where
  "value_of f v = fn_values f ! v"

definition value_type :: "air_function \<Rightarrow> value_id \<Rightarrow> type_id" where
  "value_type f v = vd_type (value_of f v)"

section \<open>Constants\<close>

primrec value_kind_code :: "value_kind \<Rightarrow> u64" where
  "value_kind_code InstResult = 0" | "value_kind_code BlockParam = 1" | "value_kind_code ConstInt = 2"
| "value_kind_code ConstFloat = 3" | "value_kind_code ConstNull = 4" | "value_kind_code Undef = 5"
| "value_kind_code GlobalAddr = 6" | "value_kind_code FuncAddr = 7" | "value_kind_code LabelAddr = 8"

definition hash_constant :: "value_data \<Rightarrow> u64" where
  "hash_constant d =
     hash_combine (hash_combine (hash_combine (hash_combine 0xC0 (value_kind_code (vd_kind d)))
       (of_nat (vd_type d))) (vd_payload d)) (vd_payload2 d)"

definition same_constant :: "value_data \<Rightarrow> value_data \<Rightarrow> bool" where
  "same_constant cand d \<longleftrightarrow> vd_kind cand = vd_kind d \<and> vd_type cand = vd_type d
     \<and> vd_payload cand = vd_payload d \<and> vd_payload2 cand = vd_payload2 d"

definition intern_constant_data :: "value_data \<Rightarrow> air_function \<Rightarrow> value_id \<times> air_function" where
  "intern_constant_data d f =
     (case intern_in hash_constant same_constant d (fn_values f, fn_constant_lookup f) of
        (v, values, lookup) \<Rightarrow> (v, f\<lparr>fn_values := values, fn_constant_lookup := lookup\<rparr>))"

definition intern_constant ::
  "value_kind \<Rightarrow> type_id \<Rightarrow> u64 \<Rightarrow> u64 \<Rightarrow> air_function \<Rightarrow> value_id \<times> air_function" where
  "intern_constant kind ty payload payload2 f =
     intern_constant_data \<lparr>vd_kind = kind, vd_type = ty, vd_payload = payload, vd_payload2 = payload2\<rparr> f"

definition const_int :: "type_id \<Rightarrow> u64 \<Rightarrow> u64 \<Rightarrow> air_function \<Rightarrow> value_id \<times> air_function" where
  "const_int ty bits high_bits f = intern_constant ConstInt ty bits high_bits f"

definition const_float_bits :: "type_id \<Rightarrow> u64 \<Rightarrow> u64 \<Rightarrow> air_function \<Rightarrow> value_id \<times> air_function" where
  "const_float_bits ty bits high_bits f = intern_constant ConstFloat ty bits high_bits f"

definition const_null :: "type_id \<Rightarrow> air_function \<Rightarrow> value_id \<times> air_function" where
  "const_null ptr_ty f = intern_constant ConstNull ptr_ty 0 0 f"

definition undef :: "type_id \<Rightarrow> air_function \<Rightarrow> value_id \<times> air_function" where
  "undef ty f = intern_constant Undef ty 0 0 f"

definition global_addr :: "nat \<Rightarrow> type_id \<Rightarrow> air_function \<Rightarrow> value_id \<times> air_function" where
  "global_addr g ptr_ty f = intern_constant GlobalAddr ptr_ty (of_nat g) 0 f"

definition func_addr :: "nat \<Rightarrow> type_id \<Rightarrow> air_function \<Rightarrow> value_id \<times> air_function" where
  "func_addr g ptr_ty f = intern_constant FuncAddr ptr_ty (of_nat g) 0 f"

definition label_addr :: "block_id \<Rightarrow> type_id \<Rightarrow> air_function \<Rightarrow> value_id \<times> air_function" where
  "label_addr b ptr_ty f = intern_constant LabelAddr ptr_ty (of_nat b) 0 f"

definition is_constant :: "air_function \<Rightarrow> value_id \<Rightarrow> bool" where
  "is_constant f v = (case vd_kind (value_of f v) of
     InstResult \<Rightarrow> False | BlockParam \<Rightarrow> False | _ \<Rightarrow> True)"

definition def_inst :: "air_function \<Rightarrow> value_id \<Rightarrow> inst_id" where
  "def_inst f v =
     (let data = value_of f v in if vd_kind data \<noteq> InstResult then 0 else unat (ucast (vd_payload data) :: u32))"

definition set_value_name :: "value_id \<Rightarrow> string \<Rightarrow> air_function \<Rightarrow> air_function" where
  "set_value_name v name f =
     (let others = filter (\<lambda>p. fst p \<noteq> v) (fn_value_names f)
      in f\<lparr>fn_value_names := (if name = [] then others else (v, name) # others)\<rparr>)"

definition value_name :: "air_function \<Rightarrow> value_id \<Rightarrow> string" where
  "value_name f v = (case map_of (fn_value_names f) v of None \<Rightarrow> [] | Some name \<Rightarrow> name)"

section \<open>Instructions\<close>

definition inst :: "air_function \<Rightarrow> inst_id \<Rightarrow> inst_data" where
  "inst f i = fn_insts f ! i"

definition append_operands :: "value_id list \<Rightarrow> air_function \<Rightarrow> nat \<times> air_function" where
  "append_operands ops f =
     (length (fn_operand_pool f), f\<lparr>fn_operand_pool := fn_operand_pool f @ ops\<rparr>)"

definition make_inst ::
  "opcode \<Rightarrow> type_id \<Rightarrow> value_id list \<Rightarrow> u64 \<Rightarrow> u32 \<Rightarrow> u16 \<Rightarrow> u64 \<Rightarrow> air_function \<Rightarrow> inst_id \<times> air_function" where
  "make_inst op result_type ops aux loc flags aux2 f =
     (let i = length (fn_insts f);
          (begin, f1) = append_operands ops f;
          data = inst_data_default\<lparr>in_op := op, in_flags := flags, in_aux := aux, in_aux2 := aux2, in_loc := loc,
                   in_op_begin := begin, in_op_count := length ops\<rparr>;
          has_result = (opcode_result_kind op = RValue
                        \<or> (opcode_result_kind op = RSigDependent \<and> result_type \<noteq> 0));
          (data', f2) =
            (if has_result
             then case new_value InstResult result_type (of_nat i) 0 f1 of
                 (v, g) \<Rightarrow> (data\<lparr>in_type := result_type, in_result := v\<rparr>, g)
             else (data, f1))
      in (i, f2\<lparr>fn_insts := fn_insts f2 @ [data']\<rparr>))"

definition append_inst :: "block_id \<Rightarrow> inst_id \<Rightarrow> air_function \<Rightarrow> air_function" where
  "append_inst b i f =
     (let last = bd_last (block f b);
          f1 = set_inst i (\<lambda>d. d\<lparr>in_block := b, in_prev := last, in_next := 0\<rparr>) f;
          f2 = (if last \<noteq> 0 then set_inst last (\<lambda>d. d\<lparr>in_next := i\<rparr>) f1
                else set_block b (\<lambda>d. d\<lparr>bd_first := i\<rparr>) f1)
      in set_block b (\<lambda>d. d\<lparr>bd_last := i\<rparr>) f2)"

definition insert_before :: "inst_id \<Rightarrow> inst_id \<Rightarrow> air_function \<Rightarrow> air_function" where
  "insert_before pos i f =
     (let p = inst f pos;
          f1 = set_inst i (\<lambda>d. d\<lparr>in_block := in_block p, in_prev := in_prev p, in_next := pos\<rparr>) f;
          f2 = (if in_prev p \<noteq> 0 then set_inst (in_prev p) (\<lambda>d. d\<lparr>in_next := i\<rparr>) f1
                else set_block (in_block p) (\<lambda>d. d\<lparr>bd_first := i\<rparr>) f1)
      in set_inst pos (\<lambda>d. d\<lparr>in_prev := i\<rparr>) f2)"

definition remove_inst :: "inst_id \<Rightarrow> air_function \<Rightarrow> air_function" where
  "remove_inst i f =
     (let data = inst f i;
          f1 = (if in_prev data \<noteq> 0 then set_inst (in_prev data) (\<lambda>d. d\<lparr>in_next := in_next data\<rparr>) f
                else set_block (in_block data) (\<lambda>d. d\<lparr>bd_first := in_next data\<rparr>) f);
          f2 = (if in_next data \<noteq> 0 then set_inst (in_next data) (\<lambda>d. d\<lparr>in_prev := in_prev data\<rparr>) f1
                else set_block (in_block data) (\<lambda>d. d\<lparr>bd_last := in_prev data\<rparr>) f1)
      in set_inst i (\<lambda>d. d\<lparr>in_block := 0, in_prev := 0, in_next := 0\<rparr>) f2)"

definition operands :: "air_function \<Rightarrow> inst_id \<Rightarrow> value_id list" where
  "operands f i = take (in_op_count (inst f i)) (drop (in_op_begin (inst f i)) (fn_operand_pool f))"

definition set_operand :: "inst_id \<Rightarrow> nat \<Rightarrow> value_id \<Rightarrow> air_function \<Rightarrow> air_function" where
  "set_operand i index v f =
     f\<lparr>fn_operand_pool := (fn_operand_pool f)[in_op_begin (inst f i) + index := v]\<rparr>"

section \<open>Block calls\<close>

definition make_block_call :: "block_id \<Rightarrow> value_id list \<Rightarrow> air_function \<Rightarrow> block_call_id \<times> air_function" where
  "make_block_call target args f =
     (let c = length (fn_block_calls f);
          (begin, f1) = append_operands args f
      in (c, f1\<lparr>fn_block_calls := fn_block_calls f1 @
                  [\<lparr>bc_target = target, bc_arg_begin = begin, bc_arg_count = length args\<rparr>]\<rparr>))"

definition block_call_of :: "air_function \<Rightarrow> block_call_id \<Rightarrow> block_call" where
  "block_call_of f c = fn_block_calls f ! c"

definition block_call_args :: "air_function \<Rightarrow> block_call_id \<Rightarrow> value_id list" where
  "block_call_args f c =
     take (bc_arg_count (block_call_of f c)) (drop (bc_arg_begin (block_call_of f c)) (fn_operand_pool f))"

definition set_block_call_arg :: "block_call_id \<Rightarrow> nat \<Rightarrow> value_id \<Rightarrow> air_function \<Rightarrow> air_function" where
  "set_block_call_arg c index v f =
     f\<lparr>fn_operand_pool := (fn_operand_pool f)[bc_arg_begin (block_call_of f c) + index := v]\<rparr>"

definition append_block_call_arg :: "block_call_id \<Rightarrow> value_id \<Rightarrow> air_function \<Rightarrow> air_function" where
  "append_block_call_arg c v f =
     (let call = block_call_of f c;
          pool = fn_operand_pool f
      in if bc_arg_begin call + bc_arg_count call = length pool then
           set_call c (\<lambda>d. d\<lparr>bc_arg_count := bc_arg_count d + 1\<rparr>) (f\<lparr>fn_operand_pool := pool @ [v]\<rparr>)
         else
           set_call c (\<lambda>d. d\<lparr>bc_arg_begin := length pool, bc_arg_count := bc_arg_count d + 1\<rparr>)
             (f\<lparr>fn_operand_pool := pool @ take (bc_arg_count call) (drop (bc_arg_begin call) pool) @ [v]\<rparr>))"

definition remove_block_call_arg :: "block_call_id \<Rightarrow> nat \<Rightarrow> air_function \<Rightarrow> air_function" where
  "remove_block_call_arg c index f =
     (let call = block_call_of f c
      in set_call c (\<lambda>d. d\<lparr>bc_arg_count := bc_arg_count d - 1\<rparr>)
           (f\<lparr>fn_operand_pool :=
                shift_down (bc_arg_begin call) [index + 1..<bc_arg_count call] (fn_operand_pool f)\<rparr>))"

definition set_block_call_args :: "block_call_id \<Rightarrow> value_id list \<Rightarrow> air_function \<Rightarrow> air_function" where
  "set_block_call_args c args f =
     (if length args = bc_arg_count (block_call_of f c) then
        f\<lparr>fn_operand_pool := overwrite (bc_arg_begin (block_call_of f c)) args (fn_operand_pool f)\<rparr>
      else case append_operands args f of
          (begin, f1) \<Rightarrow> set_call c (\<lambda>d. d\<lparr>bc_arg_begin := begin, bc_arg_count := length args\<rparr>) f1)"

definition set_block_call_target :: "block_call_id \<Rightarrow> block_id \<Rightarrow> air_function \<Rightarrow> air_function" where
  "set_block_call_target c target f = set_call c (\<lambda>d. d\<lparr>bc_target := target\<rparr>) f"

definition make_jump_table :: "switch_case list \<Rightarrow> air_function \<Rightarrow> nat \<times> air_function" where
  "make_jump_table cases f = (length (fn_jump_tables f), f\<lparr>fn_jump_tables := fn_jump_tables f @ [cases]\<rparr>)"

definition jump_table :: "air_function \<Rightarrow> nat \<Rightarrow> switch_case list" where
  "jump_table f index = fn_jump_tables f ! index"

definition make_block_call_list :: "block_call_id list \<Rightarrow> air_function \<Rightarrow> nat \<times> air_function" where
  "make_block_call_list calls f =
     (length (fn_block_call_lists f), f\<lparr>fn_block_call_lists := fn_block_call_lists f @ [calls]\<rparr>)"

definition block_call_list :: "air_function \<Rightarrow> nat \<Rightarrow> block_call_id list" where
  "block_call_list f index = fn_block_call_lists f ! index"

definition successors :: "air_function \<Rightarrow> inst_id \<Rightarrow> block_call_id list" where
  "successors f i =
     (let data = inst f i; low = (\<lambda>a. unat (aux_low a)); high = (\<lambda>a. unat (aux_high a))
      in if in_op data = OpJump then [low (in_aux data)]
         else if in_op data = OpBrIf then [low (in_aux data), high (in_aux data)]
         else if in_op data = OpSwitch
         then low (in_aux data) # map sc_target (jump_table f (high (in_aux data)))
         else if in_op data = OpBrIndirect then block_call_list f (low (in_aux data))
         else if in_op data = OpAsmGoto then block_call_list f (unat (ucast (in_aux2 data) :: u32))
         else if in_op data = OpInvoke \<or> in_op data = OpInvokeIndirect
         then [low (in_aux2 data), high (in_aux2 data)]
         else [])"

section \<open>Uses\<close>

definition replace_all_uses :: "value_id \<Rightarrow> value_id \<Rightarrow> air_function \<Rightarrow> air_function" where
  "replace_all_uses old new f =
     f\<lparr>fn_operand_pool := map (\<lambda>slot. if slot = old then new else slot) (fn_operand_pool f)\<rparr>"

text \<open>
  The traversals of the linked lists are given the length of the vector as fuel, which covers
  every list without repetition; \<open>None\<close> is a list that runs in a cycle.
\<close>

definition block_order :: "air_function \<Rightarrow> block_id list option" where
  "block_order f = walk (length (fn_blocks f)) (\<lambda>b. bd_next (block f b)) (fn_entry_block f)"

definition inst_order :: "air_function \<Rightarrow> block_id \<Rightarrow> inst_id list option" where
  "inst_order f b = walk (length (fn_insts f)) (\<lambda>i. in_next (inst f i)) (bd_first (block f b))"

text \<open>The values an instruction uses: its operands and the arguments of its block calls.\<close>

definition used_values :: "air_function \<Rightarrow> inst_id \<Rightarrow> value_id list" where
  "used_values f i = operands f i @ concat (map (block_call_args f) (successors f i))"

fun collect_uses :: "air_function \<Rightarrow> block_id list \<Rightarrow> value_id list option" where
  "collect_uses f [] = Some []"
| "collect_uses f (b # bs) =
     (case inst_order f b of
        None \<Rightarrow> None
      | Some is \<Rightarrow> map_option ((@) (concat (map (used_values f) is))) (collect_uses f bs))"

definition all_uses :: "air_function \<Rightarrow> value_id list option" where
  "all_uses f = (case block_order f of None \<Rightarrow> None | Some bs \<Rightarrow> collect_uses f bs)"

definition count_uses :: "air_function \<Rightarrow> value_id \<Rightarrow> nat option" where
  "count_uses f v = map_option (\<lambda>vs. count_list vs v) (all_uses f)"

end
