(* ===== verification/Air_Function_Correct.thy ===== *)
theory Air_Function_Correct
  imports Air_Function
begin

text \<open>
  What the operations of AIR functions promise: the linked instruction lists refine plain lists,
  block parameters and block call arguments refine lists too, constants are interned, and
  replacing the uses of a value leaves none of them.
\<close>

section \<open>Effects of the elementary updates\<close>

lemma set_inst_simps [simp]:
  "inst (set_inst i u f) j = (if j = i \<and> i < length (fn_insts f) then u (inst f i) else inst f j)"
  "length (fn_insts (set_inst i u f)) = length (fn_insts f)"
  "block (set_inst i u f) b = block f b"
  "fn_blocks (set_inst i u f) = fn_blocks f"
  "fn_operand_pool (set_inst i u f) = fn_operand_pool f"
  "fn_block_calls (set_inst i u f) = fn_block_calls f"
  "fn_jump_tables (set_inst i u f) = fn_jump_tables f"
  "fn_block_call_lists (set_inst i u f) = fn_block_call_lists f"
  "fn_values (set_inst i u f) = fn_values f"
  "fn_entry_block (set_inst i u f) = fn_entry_block f"
  "fn_last_block (set_inst i u f) = fn_last_block f"
  by (auto simp: set_inst_def inst_def block_def nth_list_update list_update_beyond)

lemma set_block_simps [simp]:
  "block (set_block b u f) c = (if c = b \<and> b < length (fn_blocks f) then u (block f b) else block f c)"
  "length (fn_blocks (set_block b u f)) = length (fn_blocks f)"
  "inst (set_block b u f) i = inst f i"
  "fn_insts (set_block b u f) = fn_insts f"
  "fn_operand_pool (set_block b u f) = fn_operand_pool f"
  "fn_block_calls (set_block b u f) = fn_block_calls f"
  "fn_jump_tables (set_block b u f) = fn_jump_tables f"
  "fn_block_call_lists (set_block b u f) = fn_block_call_lists f"
  "fn_values (set_block b u f) = fn_values f"
  "fn_entry_block (set_block b u f) = fn_entry_block f"
  "fn_last_block (set_block b u f) = fn_last_block f"
  by (auto simp: set_block_def inst_def block_def nth_list_update list_update_beyond)

section \<open>Instruction lists\<close>

definition nxt :: "air_function \<Rightarrow> inst_id \<Rightarrow> inst_id" where
  "nxt f i = in_next (inst f i)"

definition prv :: "air_function \<Rightarrow> inst_id \<Rightarrow> inst_id" where
  "prv f i = in_prev (inst f i)"

text \<open>The instructions attached to a block are the elements of its list, in order.\<close>

definition block_list :: "air_function \<Rightarrow> block_id \<Rightarrow> inst_id list \<Rightarrow> bool" where
  "block_list f b xs \<longleftrightarrow>
     (\<forall>i. i \<in> set xs \<longleftrightarrow> valid_inst f i \<and> in_block (inst f i) = b)
     \<and> dll (nxt f) (prv f) (bd_first (block f b)) (bd_last (block f b)) xs"

definition lists_inv :: "air_function \<Rightarrow> (block_id \<Rightarrow> inst_id list) \<Rightarrow> bool" where
  "lists_inv f L \<longleftrightarrow>
     (\<forall>b. valid_block f b \<longrightarrow> block_list f b (L b))
     \<and> (\<forall>i. valid_inst f i \<longrightarrow> in_block (inst f i) = 0 \<or> valid_block f (in_block (inst f i)))"

lemma lists_invD:
  assumes "lists_inv f L" "valid_block f b"
  shows "i \<in> set (L b) \<longleftrightarrow> valid_inst f i \<and> in_block (inst f i) = b"
    and "dll (nxt f) (prv f) (bd_first (block f b)) (bd_last (block f b)) (L b)"
    and "distinct (L b)" and "0 \<notin> set (L b)"
  using assms by (auto simp: lists_inv_def block_list_def dll_def)

lemma valid_block_pos: "valid_block f b \<Longrightarrow> b \<noteq> 0"
  by (simp add: valid_block_def)

text \<open>An operation that rewrites the list of one block and leaves the others alone.\<close>

lemma lists_inv_change:
  assumes inv: "lists_inv f L" and b: "valid_block f b"
    and len: "length (fn_insts f') = length (fn_insts f)" "length (fn_blocks f') = length (fn_blocks f)"
    and new: "block_list f' b ys"
    and blocks: "\<And>c. c \<noteq> b \<Longrightarrow> block f' c = block f c"
    and owner: "\<And>j. in_block (inst f j) \<noteq> b \<Longrightarrow> in_block (inst f' j) \<noteq> b \<Longrightarrow> inst f' j = inst f j"
    and free: "\<And>j. in_block (inst f j) \<noteq> b \<Longrightarrow> in_block (inst f' j) = b \<Longrightarrow> in_block (inst f j) = 0"
    and freed: "\<And>j. in_block (inst f j) = b \<Longrightarrow> in_block (inst f' j) = b \<or> in_block (inst f' j) = 0"
  shows "lists_inv f' (L(b := ys))"
proof -
  have val: "valid_block f' c = valid_block f c" "valid_inst f' j = valid_inst f j" for c j
    using len by (simp_all add: valid_block_def valid_inst_def)
  have owner': "in_block (inst f' j) = c \<longleftrightarrow> in_block (inst f j) = c" if "c \<noteq> b" "c \<noteq> 0" for j c
    using that owner [of j] free [of j] freed [of j] by metis
  have same: "inst f' j = inst f j" if "c \<noteq> b" "c \<noteq> 0" "in_block (inst f j) = c" for j c
    using that owner [of j] owner' [of c j] by metis
  have "block_list f' c (L c)" if c: "c \<noteq> b" "valid_block f c" for c
  proof -
    have c0: "c \<noteq> 0"
      using c by (simp add: valid_block_def)
    have mem: "j \<in> set (L c) \<longleftrightarrow> valid_inst f j \<and> in_block (inst f j) = c" for j
      using lists_invD [OF inv c(2)] by simp
    have "dll (nxt f') (prv f') (bd_first (block f c)) (bd_last (block f c)) (L c)"
      using lists_invD(2) [OF inv c(2)] same [OF c(1) c0]
      by (subst dll_cong [of _ _ "nxt f" _ "prv f"]) (auto simp: mem nxt_def prv_def)
    then show ?thesis
      using mem owner' [OF c(1) c0] blocks [OF c(1)] by (simp add: block_list_def val)
  qed
  moreover have "in_block (inst f' j) = 0 \<or> valid_block f (in_block (inst f' j))" if "valid_inst f j" for j
  proof (cases "in_block (inst f' j) = b \<or> in_block (inst f' j) = 0")
    case False
    then have "in_block (inst f j) = in_block (inst f' j)"
      using owner' [of "in_block (inst f' j)" j] by blast
    then show ?thesis
      using inv that by (metis lists_inv_def)
  qed (use b in auto)
  ultimately show ?thesis
    using new by (auto simp: lists_inv_def val)
qed

text \<open>Appending.\<close>

lemma last_attached:
  assumes "lists_inv f L" "valid_block f b" "bd_last (block f b) = l" "l \<noteq> 0"
  shows "valid_inst f l" "in_block (inst f l) = b"
proof -
  have "l \<in> set (L b)"
    using lists_invD(2) [OF assms(1,2)] assms(3,4) last_of_in [of 0 "L b"] by (auto simp: dll_def)
  then show "valid_inst f l" "in_block (inst f l) = b"
    using lists_invD(1) [OF assms(1,2)] by simp_all
qed

lemma append_inst_effect:
  assumes inv: "lists_inv f L" and b: "valid_block f b" and i: "valid_inst f i" "in_block (inst f i) = 0"
  shows "inst (append_inst b i f) j =
           (if j = i then (inst f i)\<lparr>in_block := b, in_prev := bd_last (block f b), in_next := 0\<rparr>
            else if j = bd_last (block f b) \<and> j \<noteq> 0 then (inst f j)\<lparr>in_next := i\<rparr> else inst f j)"
    and "block (append_inst b i f) c =
           (if c = b then (block f b)\<lparr>bd_first := (if bd_last (block f b) = 0 then i else bd_first (block f b)),
                                      bd_last := i\<rparr>
            else block f c)"
    and "length (fn_insts (append_inst b i f)) = length (fn_insts f)"
    and "length (fn_blocks (append_inst b i f)) = length (fn_blocks f)"
proof -
  let ?l = "bd_last (block f b)"
  have l: "?l < length (fn_insts f)" "?l \<noteq> i" if "?l \<noteq> 0"
    using last_attached [OF inv b refl that] i b by (auto simp: valid_inst_def valid_block_def)
  have len: "i < length (fn_insts f)" "b < length (fn_blocks f)"
    using i b by (simp_all add: valid_inst_def valid_block_def)
  show "inst (append_inst b i f) j =
           (if j = i then (inst f i)\<lparr>in_block := b, in_prev := ?l, in_next := 0\<rparr>
            else if j = ?l \<and> j \<noteq> 0 then (inst f j)\<lparr>in_next := i\<rparr> else inst f j)"
    using l len by (auto simp: append_inst_def Let_def)
  show "block (append_inst b i f) c =
           (if c = b then (block f b)\<lparr>bd_first := (if ?l = 0 then i else bd_first (block f b)), bd_last := i\<rparr>
            else block f c)"
    using len by (auto simp: append_inst_def Let_def)
  show "length (fn_insts (append_inst b i f)) = length (fn_insts f)"
    and "length (fn_blocks (append_inst b i f)) = length (fn_blocks f)"
    by (simp_all add: append_inst_def Let_def)
qed

lemma append_inst_lists:
  assumes inv: "lists_inv f L" and b: "valid_block f b" and i: "valid_inst f i" "in_block (inst f i) = 0"
  shows "lists_inv (append_inst b i f) (L(b := L b @ [i]))"
proof (rule lists_inv_change [OF inv b])
  note eff = append_inst_effect [OF inv b i]
  let ?f = "append_inst b i f" and ?l = "bd_last (block f b)"
  note L = lists_invD [OF inv b]
  have b0: "b \<noteq> 0"
    using b by (rule valid_block_pos)
  show "length (fn_insts ?f) = length (fn_insts f)" "length (fn_blocks ?f) = length (fn_blocks f)"
    using eff by simp_all
  have i_new: "i \<notin> set (L b)" "i \<noteq> 0"
    using L(1) i b0 by (auto simp: valid_inst_def)
  have l: "?l = last_of 0 (L b)" "bd_first (block f b) = first_of (L b) 0"
    using L(2) by (simp_all add: dll_def)
  have "dll (nxt ?f) (prv ?f) (bd_first (block ?f b)) (bd_last (block ?f b)) (L b @ i # [])"
  proof (rule dll_insert)
    show "dll (nxt f) (prv f) (bd_first (block f b)) ?l (L b @ [])"
      using L by simp
    show "bd_first (block ?f b) = first_of (L b) i"
      using l L(4) last_of_eq_end [of 0 "L b"] by (cases "L b") (auto simp: eff(2))
    show "bd_last (block ?f b) = last_of i []"
      by (simp add: eff(2))
  qed (use i_new L(4) l in \<open>auto simp: nxt_def prv_def eff(1)\<close>)
  moreover have "in_block (inst ?f j) = (if j = i then b else in_block (inst f j))" for j
    by (simp add: eff(1))
  moreover have "valid_inst ?f j = valid_inst f j" for j
    by (simp add: valid_inst_def eff(3))
  ultimately show "block_list ?f b (L b @ [i])"
    using L(1) i by (auto simp: block_list_def)
  fix j
  show "in_block (inst ?f j) = b \<or> in_block (inst ?f j) = 0" if "in_block (inst f j) = b"
    using that by (auto simp: eff(1))
  show "in_block (inst f j) = 0" if "in_block (inst f j) \<noteq> b" "in_block (inst ?f j) = b"
    using that i by (auto simp: eff(1) split: if_splits)
  show "inst ?f j = inst f j" if "in_block (inst f j) \<noteq> b" "in_block (inst ?f j) \<noteq> b"
    using that last_attached(2) [OF inv b refl] by (auto simp: eff(1) split: if_splits)
qed (use append_inst_effect [OF inv b i] in simp)

text \<open>The place of an attached instruction in the list of its block.\<close>

lemma attached_split:
  assumes "lists_inv f L" "valid_inst f i" "in_block (inst f i) = b" "b \<noteq> 0"
  obtains xs ys where "valid_block f b" "L b = xs @ i # ys"
proof -
  have b: "valid_block f b"
    using assms by (auto simp: lists_inv_def)
  then have "i \<in> set (L b)"
    using lists_invD(1) [OF assms(1)] assms by simp
  then show ?thesis
    using that b by (metis in_set_conv_decomp)
qed

lemma neighbours:
  assumes inv: "lists_inv f L" and b: "valid_block f b" and L: "L b = xs @ i # ys"
  shows "in_block (inst f i) = b" "valid_inst f i" "in_prev (inst f i) = last_of 0 xs"
    "in_next (inst f i) = first_of ys 0" "in_prev (inst f i) = 0 \<longleftrightarrow> xs = []" "in_next (inst f i) = 0 \<longleftrightarrow> ys = []"
    "bd_first (block f b) = first_of xs i" "bd_last (block f b) = last_of i ys"
proof -
  have "i \<in> set (L b)"
    using L by simp
  then show "in_block (inst f i) = b" "valid_inst f i"
    using lists_invD(1) [OF inv b] by simp_all
  have d: "dll (nxt f) (prv f) (bd_first (block f b)) (bd_last (block f b)) (xs @ i # ys)"
    using lists_invD(2) [OF inv b] L by simp
  then show "bd_first (block f b) = first_of xs i" "bd_last (block f b) = last_of i ys"
    by (simp_all add: dll_def)
  show "in_prev (inst f i) = last_of 0 xs" "in_next (inst f i) = first_of ys 0"
    "in_prev (inst f i) = 0 \<longleftrightarrow> xs = []" "in_next (inst f i) = 0 \<longleftrightarrow> ys = []"
    using dll_middle [OF d] by (simp_all add: nxt_def prv_def)
qed

lemma neighbour_attached:
  assumes inv: "lists_inv f L" and b: "valid_block f b" and L: "L b = xs @ i # ys"
  shows "xs \<noteq> [] \<Longrightarrow> last_of 0 xs \<in> set xs \<and> valid_inst f (last_of 0 xs) \<and> in_block (inst f (last_of 0 xs)) = b"
    and "ys \<noteq> [] \<Longrightarrow> first_of ys 0 \<in> set ys \<and> valid_inst f (first_of ys 0) \<and> in_block (inst f (first_of ys 0)) = b"
proof -
  have "set xs \<union> set ys \<subseteq> set (L b)" "0 \<notin> set xs" "0 \<notin> set ys"
    using L lists_invD(4) [OF inv b] by auto
  then show "xs \<noteq> [] \<Longrightarrow> last_of 0 xs \<in> set xs \<and> valid_inst f (last_of 0 xs) \<and> in_block (inst f (last_of 0 xs)) = b"
    and "ys \<noteq> [] \<Longrightarrow> first_of ys 0 \<in> set ys \<and> valid_inst f (first_of ys 0) \<and> in_block (inst f (first_of ys 0)) = b"
    using lists_invD(1) [OF inv b] last_of_in [of 0 xs] first_of_in [of ys 0] last_of_eq_end [of 0 xs]
      first_of_eq_end [of 0 ys] by blast+
qed

text \<open>Inserting before an attached instruction.\<close>

lemma insert_before_effect:
  assumes inv: "lists_inv f L" and b: "valid_block f b" and L: "L b = xs @ pos # ys"
    and i: "valid_inst f i" "in_block (inst f i) = 0"
  shows "inst (insert_before pos i f) j =
           (if j = i then (inst f i)\<lparr>in_block := b, in_prev := last_of 0 xs, in_next := pos\<rparr>
            else if j = pos then (inst f pos)\<lparr>in_prev := i\<rparr>
            else if j = last_of 0 xs \<and> j \<noteq> 0 then (inst f j)\<lparr>in_next := i\<rparr> else inst f j)"
    and "block (insert_before pos i f) c =
           (if c = b \<and> xs = [] then (block f b)\<lparr>bd_first := i\<rparr> else block f c)"
    and "length (fn_insts (insert_before pos i f)) = length (fn_insts f)"
    and "length (fn_blocks (insert_before pos i f)) = length (fn_blocks f)"
proof -
  note n = neighbours [OF inv b L] and na = neighbour_attached [OF inv b L]
  have b0: "b \<noteq> 0" and bl: "b < length (fn_blocks f)"
    using b by (simp_all add: valid_block_def)
  have ne: "pos \<noteq> i" "xs \<noteq> [] \<Longrightarrow> last_of 0 xs \<noteq> i" "xs \<noteq> [] \<Longrightarrow> last_of 0 xs \<noteq> pos"
    using n(1) i(2) b0 na(1) lists_invD(3) [OF inv b] L by auto
  have len: "i < length (fn_insts f)" "pos < length (fn_insts f)" "xs \<noteq> [] \<Longrightarrow> last_of 0 xs < length (fn_insts f)"
    using i n(2) na(1) by (auto simp: valid_inst_def)
  have xs0: "last_of 0 xs = 0 \<longleftrightarrow> xs = []"
    using n(3,5) by simp
  show "inst (insert_before pos i f) j =
           (if j = i then (inst f i)\<lparr>in_block := b, in_prev := last_of 0 xs, in_next := pos\<rparr>
            else if j = pos then (inst f pos)\<lparr>in_prev := i\<rparr>
            else if j = last_of 0 xs \<and> j \<noteq> 0 then (inst f j)\<lparr>in_next := i\<rparr> else inst f j)"
    using ne len xs0 n(1,3) by (cases "xs = []") (simp_all add: insert_before_def Let_def)
  show "block (insert_before pos i f) c =
           (if c = b \<and> xs = [] then (block f b)\<lparr>bd_first := i\<rparr> else block f c)"
    using bl n by (auto simp: insert_before_def Let_def)
  show "length (fn_insts (insert_before pos i f)) = length (fn_insts f)"
    and "length (fn_blocks (insert_before pos i f)) = length (fn_blocks f)"
    by (simp_all add: insert_before_def Let_def)
qed

lemma insert_before_lists:
  assumes inv: "lists_inv f L" and b: "valid_block f b" and L: "L b = xs @ pos # ys"
    and i: "valid_inst f i" "in_block (inst f i) = 0"
  shows "lists_inv (insert_before pos i f) (L(b := xs @ i # pos # ys))"
proof (rule lists_inv_change [OF inv b])
  note eff = insert_before_effect [OF inv b L i]
  note n = neighbours [OF inv b L] and na = neighbour_attached [OF inv b L]
  let ?f = "insert_before pos i f"
  note Lb = lists_invD [OF inv b]
  show "length (fn_insts ?f) = length (fn_insts f)" "length (fn_blocks ?f) = length (fn_blocks f)"
    using eff by simp_all
  have b0: "b \<noteq> 0"
    using b by (rule valid_block_pos)
  have i_new: "i \<notin> set (L b)" "i \<noteq> 0"
    using Lb(1) i b0 by (auto simp: valid_inst_def)
  then have "i \<noteq> pos"
    using L by auto
  have xs0: "last_of 0 xs \<noteq> pos"
    using last_of_in [of 0 xs] Lb(3,4) L by auto
  have "dll (nxt ?f) (prv ?f) (bd_first (block ?f b)) (bd_last (block ?f b)) (xs @ i # (pos # ys))"
  proof (rule dll_insert)
    show "dll (nxt f) (prv f) (bd_first (block f b)) (bd_last (block f b)) (xs @ (pos # ys))"
      using Lb(2) L by simp
    show "bd_first (block ?f b) = first_of xs i"
      using n(7) by (cases xs) (simp_all add: eff(2))
    show "bd_last (block ?f b) = last_of i (pos # ys)"
      using n(8) by (simp add: eff(2))
  qed (use i_new \<open>i \<noteq> pos\<close> xs0 L Lb(3,4) in \<open>auto simp: nxt_def prv_def eff(1)\<close>)
  moreover have owner': "in_block (inst ?f j) = (if j = i then b else in_block (inst f j))" for j
    by (simp add: eff(1))
  moreover have "valid_inst ?f j = valid_inst f j" for j
    by (simp add: valid_inst_def eff(3))
  moreover have "j \<in> set (xs @ i # pos # ys) \<longleftrightarrow> j = i \<or> j \<in> set (L b)" for j
    by (auto simp: L)
  ultimately show "block_list ?f b (xs @ i # pos # ys)"
    using Lb(1) i by (simp add: block_list_def)
  fix j
  show "in_block (inst ?f j) = b \<or> in_block (inst ?f j) = 0" if "in_block (inst f j) = b"
    using that by (auto simp: eff(1))
  show "in_block (inst f j) = 0" if "in_block (inst f j) \<noteq> b" "in_block (inst ?f j) = b"
    using that i by (auto simp: eff(1) split: if_splits)
  show "inst ?f j = inst f j" if j: "in_block (inst f j) \<noteq> b" "in_block (inst ?f j) \<noteq> b"
  proof -
    have "j \<noteq> i" "j \<noteq> pos" "\<not> (j = last_of 0 xs \<and> j \<noteq> 0)"
      using j n(1) na(1) owner' by (cases "xs = []"; force)+
    then show ?thesis
      by (auto simp: eff(1))
  qed
qed (use insert_before_effect [OF inv b L i] in simp)

text \<open>Removing.\<close>

lemma remove_inst_effect:
  assumes inv: "lists_inv f L" and b: "valid_block f b" and L: "L b = xs @ i # ys"
  shows "inst (remove_inst i f) j =
           (if j = i then (inst f i)\<lparr>in_block := 0, in_prev := 0, in_next := 0\<rparr>
            else if j = last_of 0 xs \<and> j \<noteq> 0 then (inst f j)\<lparr>in_next := first_of ys 0\<rparr>
            else if j = first_of ys 0 \<and> j \<noteq> 0 then (inst f j)\<lparr>in_prev := last_of 0 xs\<rparr> else inst f j)"
    and "block (remove_inst i f) c =
           (if c = b then (block f b)\<lparr>bd_first := first_of xs (first_of ys 0), bd_last := last_of (last_of 0 xs) ys\<rparr>
            else block f c)"
    and "length (fn_insts (remove_inst i f)) = length (fn_insts f)"
    and "length (fn_blocks (remove_inst i f)) = length (fn_blocks f)"
proof -
  note n = neighbours [OF inv b L] and na = neighbour_attached [OF inv b L]
  have bl: "b < length (fn_blocks f)"
    using b by (simp add: valid_block_def)
  have d: "distinct (xs @ i # ys)" "0 \<notin> set (xs @ i # ys)"
    using lists_invD(3,4) [OF inv b] L by simp_all
  have ne: "xs \<noteq> [] \<Longrightarrow> last_of 0 xs \<noteq> i" "ys \<noteq> [] \<Longrightarrow> first_of ys 0 \<noteq> i"
    using na d(1) by auto
  have ne': "last_of 0 xs \<noteq> first_of ys 0" if "xs \<noteq> []" "ys \<noteq> []"
    using na that d(1) by (metis IntI distinct.simps(2) distinct_append empty_iff insert_iff list.simps(15))
  have len: "i < length (fn_insts f)" "xs \<noteq> [] \<Longrightarrow> last_of 0 xs < length (fn_insts f)"
    "ys \<noteq> [] \<Longrightarrow> first_of ys 0 < length (fn_insts f)"
    using n(2) na by (auto simp: valid_inst_def)
  have zero: "last_of 0 xs = 0 \<longleftrightarrow> xs = []" "first_of ys 0 = 0 \<longleftrightarrow> ys = []"
    using n(3-6) by simp_all
  show "inst (remove_inst i f) j =
           (if j = i then (inst f i)\<lparr>in_block := 0, in_prev := 0, in_next := 0\<rparr>
            else if j = last_of 0 xs \<and> j \<noteq> 0 then (inst f j)\<lparr>in_next := first_of ys 0\<rparr>
            else if j = first_of ys 0 \<and> j \<noteq> 0 then (inst f j)\<lparr>in_prev := last_of 0 xs\<rparr> else inst f j)"
    using ne ne' len zero n(3,4) by (cases "xs = []"; cases "ys = []") (simp_all add: remove_inst_def Let_def)
  have ends: "first_of xs q = bd_first (block f b)" if "xs \<noteq> []" for q
    using n(7) that by (cases xs) simp_all
  have ends': "last_of p ys = bd_last (block f b)" if "ys \<noteq> []" for p
    using n(8) that by (cases ys) simp_all
  show "block (remove_inst i f) c =
           (if c = b then (block f b)\<lparr>bd_first := first_of xs (first_of ys 0), bd_last := last_of (last_of 0 xs) ys\<rparr>
            else block f c)"
    unfolding remove_inst_def Let_def n(1,3,4)
    using bl zero ends [of "first_of ys 0"] ends' [of "last_of 0 xs"]
    by (cases "xs = []"; cases "ys = []") simp_all
  show "length (fn_insts (remove_inst i f)) = length (fn_insts f)"
    and "length (fn_blocks (remove_inst i f)) = length (fn_blocks f)"
    by (simp_all add: remove_inst_def Let_def)
qed

lemma remove_inst_lists:
  assumes inv: "lists_inv f L" and b: "valid_block f b" and L: "L b = xs @ i # ys"
  shows "lists_inv (remove_inst i f) (L(b := xs @ ys))"
proof (rule lists_inv_change [OF inv b])
  note eff = remove_inst_effect [OF inv b L]
  note n = neighbours [OF inv b L] and na = neighbour_attached [OF inv b L]
  let ?f = "remove_inst i f"
  note Lb = lists_invD [OF inv b]
  show "length (fn_insts ?f) = length (fn_insts f)" "length (fn_blocks ?f) = length (fn_blocks f)"
    using eff by simp_all
  have b0: "b \<noteq> 0"
    using b by (rule valid_block_pos)
  have d: "distinct (xs @ i # ys)" "0 \<notin> set (xs @ i # ys)"
    using Lb(3,4) L by simp_all
  have ne: "last_of 0 xs \<noteq> first_of ys 0 \<or> last_of 0 xs = 0"
    using first_of_in [of ys 0] last_of_in [of 0 xs] d by auto
  have "dll (nxt ?f) (prv ?f) (bd_first (block ?f b)) (bd_last (block ?f b)) (xs @ ys)"
  proof (rule dll_remove)
    show "dll (nxt f) (prv f) (bd_first (block f b)) (bd_last (block f b)) (xs @ i # ys)"
      using Lb(2) L by simp
    fix x
    assume "x \<in> set xs \<or> x \<in> set ys"
    then have x: "x \<noteq> i" "x \<noteq> 0"
      using d by auto
    show "nxt ?f x = (if x = last_of 0 xs then first_of ys 0 else nxt f x)"
      using x by (simp add: nxt_def eff(1))
    show "prv ?f x = (if x = first_of ys 0 then last_of 0 xs else prv f x)"
      using x ne by (auto simp: prv_def eff(1))
  qed (simp_all add: eff(2))
  moreover have owner': "in_block (inst ?f j) = (if j = i then 0 else in_block (inst f j))" for j
    by (simp add: eff(1))
  moreover have "valid_inst ?f j = valid_inst f j" for j
    by (simp add: valid_inst_def eff(3))
  moreover have "j \<in> set (xs @ ys) \<longleftrightarrow> j \<in> set (L b) \<and> j \<noteq> i" for j
    using Lb(3) L by auto
  ultimately show "block_list ?f b (xs @ ys)"
    using Lb(1) b0 by (simp add: block_list_def)
  fix j
  show "in_block (inst ?f j) = b \<or> in_block (inst ?f j) = 0" if "in_block (inst f j) = b"
    using that by (auto simp: eff(1))
  show "in_block (inst f j) = 0" if "in_block (inst f j) \<noteq> b" "in_block (inst ?f j) = b"
    using that b0 by (auto simp: eff(1) split: if_splits)
  show "inst ?f j = inst f j" if j: "in_block (inst f j) \<noteq> b" "in_block (inst ?f j) \<noteq> b"
  proof -
    have "j \<noteq> i" "\<not> (j = last_of 0 xs \<and> j \<noteq> 0)"
      using j n(1) na(1) by (cases "xs = []"; force)+
    moreover have "\<not> (j = first_of ys 0 \<and> j \<noteq> 0)"
      using j na(2) by (cases "ys = []"; force)
    ultimately show ?thesis
      by (auto simp: eff(1))
  qed
qed (use remove_inst_effect [OF inv b L] in simp)

text \<open>The vector is long enough a fuel for the traversal of a list.\<close>

lemma distinct_bound:
  assumes "distinct xs" "\<And>x. x \<in> set xs \<Longrightarrow> x < n"
  shows "length xs \<le> n"
proof -
  have "card (set xs) \<le> card {..<n}"
    using assms(2) by (intro card_mono) auto
  then show ?thesis
    using assms(1) by (simp add: distinct_card)
qed

lemma inst_order_lists:
  assumes "lists_inv f L" "valid_block f b"
  shows "inst_order f b = Some (L b)"
proof -
  note L = lists_invD [OF assms]
  have "length (L b) \<le> length (fn_insts f)"
    using L(1,3) by (intro distinct_bound) (simp_all add: valid_inst_def)
  then have "walk (length (fn_insts f)) (nxt f) (bd_first (block f b)) = Some (L b)"
    by (rule walk_dll [OF L(2)])
  moreover have "nxt f = (\<lambda>i. in_next (inst f i))"
    by (simp add: fun_eq_iff nxt_def)
  ultimately show ?thesis
    by (simp add: inst_order_def)
qed

section \<open>Block order\<close>

definition blocks_inv :: "air_function \<Rightarrow> block_id list \<Rightarrow> bool" where
  "blocks_inv f bs \<longleftrightarrow>
     (\<forall>b \<in> set bs. valid_block f b)
     \<and> dll (\<lambda>b. bd_next (block f b)) (\<lambda>b. bd_prev (block f b)) (fn_entry_block f) (fn_last_block f) bs"

lemma block_order_blocks:
  assumes "blocks_inv f bs"
  shows "block_order f = Some bs"
proof -
  have "length bs \<le> length (fn_blocks f)"
    using assms by (intro distinct_bound) (auto simp: blocks_inv_def dll_def valid_block_def)
  then show ?thesis
    using assms unfolding block_order_def blocks_inv_def by (blast intro: walk_dll)
qed

lemma blocks_inv_cong:
  assumes "length (fn_blocks f') = length (fn_blocks f)"
    and "\<And>b. bd_next (block f' b) = bd_next (block f b)" and "\<And>b. bd_prev (block f' b) = bd_prev (block f b)"
    and "fn_entry_block f' = fn_entry_block f" and "fn_last_block f' = fn_last_block f"
  shows "blocks_inv f' bs = blocks_inv f bs"
  using assms by (simp add: blocks_inv_def valid_block_def)

lemma push_params_frame [simp]:
  "fn_insts (push_params b n tys f) = fn_insts f" "fn_blocks (push_params b n tys f) = fn_blocks f"
  "fn_entry_block (push_params b n tys f) = fn_entry_block f"
  "fn_last_block (push_params b n tys f) = fn_last_block f"
  "fn_operand_pool (push_params b n tys f) = fn_operand_pool f"
  "fn_block_calls (push_params b n tys f) = fn_block_calls f"
  by (induction tys arbitrary: n f) (simp_all add: new_value_def)

end
