(* ===== verification/Air_Blocks_Correct.thy ===== *)
theory Air_Blocks_Correct
  imports Air_Function_Correct
begin

text \<open>
  Blocks, block parameters, block calls, constants and uses of AIR functions: each operation on
  the pools and lists refines the operation on plain lists it stands for.
\<close>

section \<open>Creating and removing blocks\<close>

lemma block_frame [simp]:
  "block (f\<lparr>fn_last_block := l\<rparr>) b = block f b" "block (f\<lparr>fn_entry_block := l\<rparr>) b = block f b"
  "block (f\<lparr>fn_operand_pool := p\<rparr>) b = block f b" "block (f\<lparr>fn_block_param_pool := p\<rparr>) b = block f b"
  "block (f\<lparr>fn_values := vs\<rparr>) b = block f b" "block (f\<lparr>fn_block_calls := cs\<rparr>) b = block f b"
  by (simp_all add: block_def)

lemma create_block_effect:
  assumes c: "create_block tys f = (b, f')" and inv: "blocks_inv f bs"
  shows "b = length (fn_blocks f)" "length (fn_blocks f') = length (fn_blocks f) + 1"
    "fn_insts f' = fn_insts f" "fn_last_block f' = b" "fn_entry_block f' = first_of bs b"
    "c \<le> length (fn_blocks f) \<Longrightarrow> bd_next (block f' c) =
       (if c = b then 0 else if c = last_of 0 bs \<and> c \<noteq> 0 then b else bd_next (block f c))"
    "c \<le> length (fn_blocks f) \<Longrightarrow> bd_prev (block f' c) = (if c = b then last_of 0 bs else bd_prev (block f c))"
    "c \<le> length (fn_blocks f) \<Longrightarrow> bd_first (block f' c) = (if c = b then 0 else bd_first (block f c))"
    "c \<le> length (fn_blocks f) \<Longrightarrow> bd_last (block f' c) = (if c = b then 0 else bd_last (block f c))"
proof -
  have last: "fn_last_block f = last_of 0 bs" "fn_entry_block f = first_of bs 0" "0 \<notin> set bs"
    using inv by (auto simp: blocks_inv_def dll_def)
  have last0: "last_of 0 bs = 0 \<longleftrightarrow> bs = []"
    using last(3) by (rule last_of_eq_end)
  have lastlen: "bs \<noteq> [] \<Longrightarrow> last_of 0 bs < length (fn_blocks f)"
    using inv last_of_in [of 0 bs] last0 by (auto simp: blocks_inv_def valid_block_def)
  have first: "bs \<noteq> [] \<Longrightarrow> first_of bs 0 = first_of bs x" for x
    by (cases bs) simp_all
  note d = create_block_def Let_def block_data_default_def last last0
  show "b = length (fn_blocks f)" "length (fn_blocks f') = length (fn_blocks f) + 1"
    "fn_insts f' = fn_insts f" "fn_last_block f' = b" "fn_entry_block f' = first_of bs b"
    using c first [of b] by (cases "bs = []"; auto simp: d)+
  assume le: "c \<le> length (fn_blocks f)"
  show "bd_next (block f' c) =
       (if c = b then 0 else if c = last_of 0 bs \<and> c \<noteq> 0 then b else bd_next (block f c))"
    "bd_prev (block f' c) = (if c = b then last_of 0 bs else bd_prev (block f c))"
    "bd_first (block f' c) = (if c = b then 0 else bd_first (block f c))"
    "bd_last (block f' c) = (if c = b then 0 else bd_last (block f c))"
    using c le lastlen
    by (cases "bs = []"; cases "c = last_of 0 bs"; auto simp: d block_def set_block_def nth_append)+
qed

lemma create_block_blocks:
  assumes c: "create_block tys f = (b, f')" and inv: "blocks_inv f bs" and lists: "lists_inv f L"
    and len: "fn_blocks f \<noteq> []"
  shows "blocks_inv f' (bs @ [b])" "lists_inv f' (L(b := []))"
proof -
  note eff = create_block_effect [OF c inv]
  have old: "\<forall>x \<in> set bs. valid_block f x" "dll (\<lambda>b. bd_next (block f b)) (\<lambda>b. bd_prev (block f b)) (fn_entry_block f) (fn_last_block f) bs"
    using inv by (simp_all add: blocks_inv_def)
  have small: "x < b" if "x \<in> set bs" for x
    using old(1) that eff(1) by (simp add: valid_block_def)
  have last: "last_of 0 bs \<noteq> b"
    using last_of_in [of 0 bs] small len eff(1) by fastforce
  have "dll (\<lambda>b. bd_next (block f' b)) (\<lambda>b. bd_prev (block f' b)) (fn_entry_block f') (fn_last_block f') (bs @ b # [])"
  proof (rule dll_insert)
    show "dll (\<lambda>b. bd_next (block f b)) (\<lambda>b. bd_prev (block f b)) (fn_entry_block f) (fn_last_block f) (bs @ [])"
      using old(2) by simp
    show "b \<noteq> 0" "b \<notin> set bs"
      using len eff(1) small by auto
    fix x
    assume "x = b \<or> x \<in> set bs \<or> x \<in> set []"
    then have x: "x \<le> length (fn_blocks f)" "x \<noteq> 0"
      using small eff(1) len old(1) by (auto simp: valid_block_def intro: less_imp_le)
    show "bd_next (block f' x) = (if x = b then first_of [] 0 else if x = last_of 0 bs then b else bd_next (block f x))"
      "bd_prev (block f' x) = (if x = b then last_of 0 bs else if x = first_of [] 0 then b else bd_prev (block f x))"
      using x by (simp_all add: eff(6,7))
  qed (simp_all add: eff(4,5))
  then show "blocks_inv f' (bs @ [b])"
    using old(1) len by (auto simp: blocks_inv_def valid_block_def eff(1,2))
  have i: "inst f' = inst f" "valid_inst f' = valid_inst f"
    by (simp_all add: inst_def valid_inst_def eff(3) fun_eq_iff)
  have np: "nxt f' = nxt f" "prv f' = prv f"
    by (simp_all add: nxt_def prv_def i fun_eq_iff)
  have "block_list f' x ((L(b := [])) x)" if x: "valid_block f' x" for x
  proof (cases "x = b")
    case True
    have "in_block (inst f j) \<noteq> b" if "valid_inst f j" for j
      using lists that len eff(1) by (fastforce simp: lists_inv_def valid_block_def)
    then show ?thesis
      using True by (simp add: block_list_def i eff(1,8,9))
  next
    case False
    then have "valid_block f x" "x \<le> length (fn_blocks f)"
      using x eff(1,2) by (auto simp: valid_block_def)
    then show ?thesis
      using lists False by (simp add: lists_inv_def block_list_def i np eff(8,9))
  qed
  moreover have "in_block (inst f j) = 0 \<or> valid_block f' (in_block (inst f j))" if "valid_inst f j" for j
    using lists that eff(2) by (fastforce simp: lists_inv_def valid_block_def)
  ultimately show "lists_inv f' (L(b := []))"
    by (simp add: lists_inv_def i)
qed

lemma remove_block_blocks:
  assumes inv: "blocks_inv f (xs @ b # ys)" and ne: "b \<noteq> fn_entry_block f"
  shows "blocks_inv (remove_block b f) (xs @ ys)"
proof -
  let ?nx = "\<lambda>b. bd_next (block f b)" and ?pv = "\<lambda>b. bd_prev (block f b)"
  have old: "\<forall>x \<in> set (xs @ b # ys). valid_block f x" and dll: "dll ?nx ?pv (fn_entry_block f) (fn_last_block f) (xs @ b # ys)"
    using inv by (simp_all add: blocks_inv_def)
  have xs: "xs \<noteq> []"
    using dll ne by (auto simp: dll_def)
  note mid = dll_middle [OF dll]
  have d: "distinct (xs @ b # ys)" "0 \<notin> set (xs @ b # ys)"
    using dll by (simp_all add: dll_def)
  have p: "last_of 0 xs \<in> set xs" "last_of 0 xs \<noteq> 0"
    using last_of_in [of 0 xs] last_of_eq_end [of 0 xs] xs d by auto
  have q: "first_of ys 0 \<in> set ys" "first_of ys 0 \<noteq> 0" if "ys \<noteq> []"
    using that first_of_in [of ys 0] first_of_eq_end [of 0 ys] d by auto
  have len: "last_of 0 xs < length (fn_blocks f)" "b < length (fn_blocks f)"
    "ys \<noteq> [] \<Longrightarrow> first_of ys 0 < length (fn_blocks f)"
    using old p q by (auto simp: valid_block_def)
  have ne2: "last_of 0 xs \<noteq> b" "ys \<noteq> [] \<Longrightarrow> first_of ys 0 \<noteq> b" "last_of 0 xs \<noteq> first_of ys 0"
    using p q d by (cases "ys = []"; auto)+
  have eff: "block (remove_block b f) c =
      (if c = b then (block f b)\<lparr>bd_prev := 0, bd_next := 0\<rparr>
       else if c = last_of 0 xs then (block f c)\<lparr>bd_next := first_of ys 0\<rparr>
       else if c = first_of ys 0 \<and> c \<noteq> 0 then (block f c)\<lparr>bd_prev := last_of 0 xs\<rparr> else block f c)" for c
    using mid(1,2) ne2 len p(2) q by (cases "ys = []") (simp_all add: remove_block_def Let_def)
  have ends: "fn_entry_block (remove_block b f) = fn_entry_block f"
    "fn_last_block (remove_block b f) = last_of (last_of 0 xs) ys"
    "length (fn_blocks (remove_block b f)) = length (fn_blocks f)"
    using mid(1,2) q dll p(2) by (cases ys; simp add: remove_block_def Let_def dll_def)+
  have "dll (\<lambda>c. bd_next (block (remove_block b f) c)) (\<lambda>c. bd_prev (block (remove_block b f) c))
          (fn_entry_block (remove_block b f)) (fn_last_block (remove_block b f)) (xs @ ys)"
  proof (rule dll_remove [OF dll])
    fix x
    assume "x \<in> set xs \<or> x \<in> set ys"
    then have x: "x \<noteq> b" "x \<noteq> 0"
      using d by auto
    show "bd_next (block (remove_block b f) x) = (if x = last_of 0 xs then first_of ys 0 else ?nx x)"
      using x by (simp add: eff)
    show "bd_prev (block (remove_block b f) x) = (if x = first_of ys 0 then last_of 0 xs else ?pv x)"
      using x ne2 by (auto simp: eff)
  next
    show "fn_entry_block (remove_block b f) = first_of xs (first_of ys 0)"
      using xs dll by (cases xs) (simp_all add: ends dll_def)
  qed (simp add: ends)
  then show ?thesis
    using old by (auto simp: blocks_inv_def valid_block_def ends)
qed

end
