(* ===== verification/Air_Pools_Correct.thy ===== *)
theory Air_Pools_Correct
  imports Air_Blocks_Correct
begin

text \<open>
  The operand pool of AIR functions: operands of instructions and arguments of block calls are
  lists of their own, although all of them are ranges of one vector.
\<close>

datatype pool_owner = OfInst inst_id | OfCall block_call_id

primrec operand_region :: "air_function \<Rightarrow> pool_owner \<Rightarrow> region" where
  "operand_region f (OfInst i) = (in_op_begin (inst f i), in_op_count (inst f i))"
| "operand_region f (OfCall c) = (bc_arg_begin (block_call_of f c), bc_arg_count (block_call_of f c))"

definition operand_owners :: "air_function \<Rightarrow> pool_owner set" where
  "operand_owners f = OfInst ` {i. valid_inst f i} \<union> OfCall ` {c. valid_block_call f c}"

definition operand_list :: "air_function \<Rightarrow> pool_owner \<Rightarrow> value_id list" where
  "operand_list f a = vals (fn_operand_pool f) (operand_region f a)"

definition operands_inv :: "air_function \<Rightarrow> bool" where
  "operands_inv f \<longleftrightarrow> pool_ok (fn_operand_pool f) (operand_region f) (operand_owners f)"

text \<open>An operation gives one owner a new list and leaves the lists of the others alone.\<close>

definition gives :: "air_function \<Rightarrow> air_function \<Rightarrow> pool_owner \<Rightarrow> value_id list \<Rightarrow> bool" where
  "gives f f' a xs \<longleftrightarrow>
     operands_inv f' \<and> operand_owners f' = insert a (operand_owners f) \<and> operand_list f' a = xs
     \<and> (\<forall>b \<in> operand_owners f. b \<noteq> a \<longrightarrow> operand_list f' b = operand_list f b)"

lemma operand_list_simps:
  "operand_list f (OfInst i) = operands f i" "operand_list f (OfCall c) = block_call_args f c"
  by (simp_all add: operand_list_def operands_def block_call_args_def vals_def)

lemma owner_simps [simp]:
  "OfInst i \<in> operand_owners f \<longleftrightarrow> valid_inst f i" "OfCall c \<in> operand_owners f \<longleftrightarrow> valid_block_call f c"
  by (auto simp: operand_owners_def)

definition own_slots :: "air_function \<Rightarrow> pool_owner \<Rightarrow> nat set" where
  "own_slots f a = (if a \<in> operand_owners f then slots (operand_region f a) else {})"

lemma givesI:
  assumes ok: "operands_inv f" and owners: "operand_owners f' = insert a (operand_owners f)"
    and pool: "fn_operand_pool f' = pool'" "length (fn_operand_pool f) \<le> length pool'"
    and reg: "\<And>b. b \<in> operand_owners f' \<Longrightarrow> operand_region f' b = (if b = a then r else operand_region f b)"
    and frame: "\<And>k. k < length (fn_operand_pool f) \<Longrightarrow> k \<notin> own_slots f a \<Longrightarrow> pool' ! k = fn_operand_pool f ! k"
    and fits: "fst r + snd r \<le> length pool'"
    and inside: "slots r \<subseteq> own_slots f a \<union> {length (fn_operand_pool f)..}"
    and new: "vals pool' r = xs"
  shows "gives f f' a xs"
proof -
  have a: "operand_region f' a = r"
    using reg owners by simp
  have others: "operand_region f' b = operand_region f b" if "b \<in> operand_owners f" "b \<noteq> a" for b
    using reg [of b] that owners by simp
  have sub: "slots (operand_region f' a) \<subseteq> own_slots f a \<union> {length (fn_operand_pool f)..<length pool'}"
    using inside fits a by (fastforce simp: slots_def)
  note ch = pool_change [OF ok [unfolded operands_inv_def] pool(2) frame own_slots_def others _ sub]
  have "pool_ok pool' (operand_region f') (insert a (operand_owners f))"
    by (rule ch(1)) (use fits a in auto)
  moreover have "vals pool' (operand_region f' b) = vals (fn_operand_pool f) (operand_region f b)"
    if "b \<in> operand_owners f" "b \<noteq> a" for b
    by (rule ch(2)) (use fits a that in auto)
  ultimately show ?thesis
    using owners new a by (simp add: gives_def operands_inv_def operand_list_def pool(1))
qed

section \<open>New instructions and block calls\<close>

lemma set_call_simps [simp]:
  "block_call_of (set_call c u f) d = (if d = c \<and> c < length (fn_block_calls f) then u (block_call_of f c) else block_call_of f d)"
  "length (fn_block_calls (set_call c u f)) = length (fn_block_calls f)"
  "inst (set_call c u f) i = inst f i" "fn_insts (set_call c u f) = fn_insts f"
  "fn_operand_pool (set_call c u f) = fn_operand_pool f" "fn_blocks (set_call c u f) = fn_blocks f"
  by (auto simp: set_call_def block_call_of_def inst_def nth_list_update list_update_beyond)

lemma pool_frame [simp]:
  "inst (f\<lparr>fn_operand_pool := p\<rparr>) i = inst f i" "block_call_of (f\<lparr>fn_operand_pool := p\<rparr>) c = block_call_of f c"
  by (simp_all add: inst_def block_call_of_def)

lemma make_inst_effect:
  assumes m: "make_inst op ty ops aux loc flags aux2 f = (i, f')"
  shows "i = length (fn_insts f)" "length (fn_insts f') = length (fn_insts f) + 1"
    "j < length (fn_insts f) \<Longrightarrow> inst f' j = inst f j"
    "in_op (inst f' i) = op" "in_aux (inst f' i) = aux" "in_aux2 (inst f' i) = aux2" "in_flags (inst f' i) = flags"
    "in_block (inst f' i) = 0" "in_op_begin (inst f' i) = length (fn_operand_pool f)" "in_op_count (inst f' i) = length ops"
    "fn_operand_pool f' = fn_operand_pool f @ ops" "fn_block_calls f' = fn_block_calls f"
    "fn_blocks f' = fn_blocks f" "fn_entry_block f' = fn_entry_block f" "fn_last_block f' = fn_last_block f"
    "fn_jump_tables f' = fn_jump_tables f" "fn_block_call_lists f' = fn_block_call_lists f"
  using m by (auto simp: make_inst_def append_operands_def new_value_def Let_def inst_def nth_append
      inst_data_default_def split: if_splits)

lemma make_inst_gives:
  assumes inv: "operands_inv f" and pos: "fn_insts f \<noteq> []" and m: "make_inst op ty ops aux loc flags aux2 f = (i, f')"
  shows "gives f f' (OfInst i) ops"
proof -
  note e = make_inst_effect [OF m]
  show ?thesis
  proof (rule givesI [OF inv, where r = "(length (fn_operand_pool f), length ops)"])
    show "operand_owners f' = insert (OfInst i) (operand_owners f)"
      using pos by (auto simp: operand_owners_def valid_inst_def valid_block_call_def e(1,2,12))
    show "operand_region f' b = (if b = OfInst i then (length (fn_operand_pool f), length ops) else operand_region f b)"
      if "b \<in> operand_owners f'" for b
      using that by (cases b) (auto simp: e(2,3,9,10,12) e(1) [symmetric] valid_inst_def block_call_of_def less_Suc_eq)
    show "vals (fn_operand_pool f @ ops) (length (fn_operand_pool f), length ops) = ops"
      by (rule vals_append_new)
  qed (simp_all add: e(11) nth_append slots_def subset_iff)
qed

lemma make_inst_lists:
  assumes lists: "lists_inv f L" and blocks: "blocks_inv f bs" and pos: "fn_insts f \<noteq> []"
    and m: "make_inst op ty ops aux loc flags aux2 f = (i, f')"
  shows "lists_inv f' L" "blocks_inv f' bs" "valid_inst f' i" "in_block (inst f' i) = 0"
proof -
  note e = make_inst_effect [OF m]
  have blk: "block f' = block f" "valid_block f' = valid_block f"
    by (simp_all add: block_def valid_block_def e(13) fun_eq_iff)
  show "blocks_inv f' bs"
    using blocks by (simp add: blocks_inv_def blk e(14,15))
  show "valid_inst f' i" "in_block (inst f' i) = 0"
    using pos e(8) by (simp_all add: valid_inst_def e(1,2))
  have val: "valid_inst f' j \<longleftrightarrow> valid_inst f j \<or> j = i" for j
    using pos by (auto simp: valid_inst_def e(1,2))
  have old: "valid_inst f j \<Longrightarrow> inst f' j = inst f j" for j
    using e(3) by (simp add: valid_inst_def)
  have "block_list f' b (L b)" if b: "valid_block f b" for b
  proof -
    note L = lists_invD [OF lists b]
    have "dll (nxt f') (prv f') (bd_first (block f b)) (bd_last (block f b)) (L b)"
      using L(1,2) old by (subst dll_cong [of _ _ "nxt f" _ "prv f"]) (auto simp: nxt_def prv_def)
    moreover have "j \<in> set (L b) \<longleftrightarrow> valid_inst f' j \<and> in_block (inst f' j) = b" for j
      using L(1) [of j] val [of j] old [of j] e(8) valid_block_pos [OF b] by auto
    ultimately show ?thesis
      by (simp add: block_list_def blk)
  qed
  moreover have "in_block (inst f' j) = 0 \<or> valid_block f (in_block (inst f' j))" if "valid_inst f' j" for j
    using that lists val [of j] old [of j] e(8) by (auto simp: lists_inv_def)
  ultimately show "lists_inv f' L"
    by (simp add: lists_inv_def blk)
qed

lemma make_block_call_gives:
  assumes inv: "operands_inv f" and pos: "fn_block_calls f \<noteq> []" and m: "make_block_call target args f = (c, f')"
  shows "gives f f' (OfCall c) args" "bc_target (block_call_of f' c) = target"
    "valid_block_call f d \<Longrightarrow> bc_target (block_call_of f' d) = bc_target (block_call_of f d)"
proof -
  have c: "c = length (fn_block_calls f)"
    and f': "f' = f\<lparr>fn_operand_pool := fn_operand_pool f @ args, fn_block_calls := fn_block_calls f @
                  [\<lparr>bc_target = target, bc_arg_begin = length (fn_operand_pool f), bc_arg_count = length args\<rparr>]\<rparr>"
    using m by (simp_all add: make_block_call_def append_operands_def Let_def)
  show "gives f f' (OfCall c) args"
  proof (rule givesI [OF inv, where r = "(length (fn_operand_pool f), length args)"])
    show "operand_owners f' = insert (OfCall c) (operand_owners f)"
      using pos by (auto simp: operand_owners_def valid_inst_def valid_block_call_def c f')
    show "operand_region f' b = (if b = OfCall c then (length (fn_operand_pool f), length args) else operand_region f b)"
      if "b \<in> operand_owners f'" for b
      using that by (cases b) (auto simp: f' c inst_def block_call_of_def valid_block_call_def nth_append)
    show "vals (fn_operand_pool f @ args) (length (fn_operand_pool f), length args) = args"
      by (rule vals_append_new)
  qed (simp_all add: f' nth_append slots_def subset_iff)
  show "bc_target (block_call_of f' c) = target"
    "valid_block_call f d \<Longrightarrow> bc_target (block_call_of f' d) = bc_target (block_call_of f d)"
    by (simp_all add: f' c block_call_of_def valid_block_call_def nth_append)
qed

section \<open>Changing operands and arguments\<close>

text \<open>The operations on an existing owner: its range may move, those of the others stay.\<close>

lemma operand_region_fits: "operands_inv f \<Longrightarrow> a \<in> operand_owners f \<Longrightarrow>
    fst (operand_region f a) + snd (operand_region f a) \<le> length (fn_operand_pool f)"
  by (simp add: operands_inv_def pool_ok_def)

lemma owned_region:
  assumes "operands_inv f" "a \<in> operand_owners f" "operand_region f a = r"
  shows "fst r + snd r \<le> length (fn_operand_pool f)" "own_slots f a = slots r"
    "operand_list f a = vals (fn_operand_pool f) r" "length (operand_list f a) = snd r"
  using assms operand_region_fits [OF assms(1,2)]
  by (auto simp: own_slots_def operand_list_def length_vals)

lemma set_operand_gives:
  assumes inv: "operands_inv f" and i: "valid_inst f i" and k: "k < length (operands f i)"
  shows "gives f (set_operand i k v f) (OfInst i) ((operands f i)[k := v])"
proof -
  let ?r = "(in_op_begin (inst f i), in_op_count (inst f i))" and ?f = "set_operand i k v f"
  have o: "fst ?r + snd ?r \<le> length (fn_operand_pool f)" "own_slots f (OfInst i) = slots ?r"
    "operands f i = vals (fn_operand_pool f) ?r" "length (operands f i) = snd ?r"
    using owned_region [OF inv, of "OfInst i" ?r] i by (simp_all add: operand_list_simps)
  show ?thesis
  proof (rule givesI [OF inv, where r = ?r])
    show "operand_owners ?f = insert (OfInst i) (operand_owners f)"
      using i by (auto simp: operand_owners_def valid_inst_def valid_block_call_def set_operand_def)
    show "operand_region ?f b = (if b = OfInst i then ?r else operand_region f b)" for b
      by (cases b) (auto simp: set_operand_def)
    show "fn_operand_pool ?f = (fn_operand_pool f)[fst ?r + k := v]"
      by (simp add: set_operand_def)
    show "vals ((fn_operand_pool f)[fst ?r + k := v]) ?r = (operands f i)[k := v]"
      using vals_update [OF o(1), of k v] o k by simp
  qed (use o k in \<open>auto simp: slots_def\<close>)
qed

text \<open>The operations on the arguments of a block call.\<close>

lemma call_gives:
  assumes inv: "operands_inv f" and c: "valid_block_call f c"
    and r: "bc_arg_begin (block_call_of f' c) = fst r" "bc_arg_count (block_call_of f' c) = snd r"
    and others: "\<And>d. d \<noteq> c \<Longrightarrow> block_call_of f' d = block_call_of f d"
    and same: "fn_insts f' = fn_insts f" "length (fn_block_calls f') = length (fn_block_calls f)"
    and pool: "fn_operand_pool f' = pool'" "length (fn_operand_pool f) \<le> length pool'"
    and frame: "\<And>k. k < length (fn_operand_pool f) \<Longrightarrow> k \<notin> own_slots f (OfCall c) \<Longrightarrow> pool' ! k = fn_operand_pool f ! k"
    and fits: "fst r + snd r \<le> length pool'"
    and inside: "slots r \<subseteq> own_slots f (OfCall c) \<union> {length (fn_operand_pool f)..}"
    and new: "vals pool' r = xs"
  shows "gives f f' (OfCall c) xs"
proof (rule givesI [OF inv _ pool _ frame fits inside new])
  show "operand_owners f' = insert (OfCall c) (operand_owners f)"
    using c same by (auto simp: operand_owners_def valid_inst_def valid_block_call_def)
  show "operand_region f' b = (if b = OfCall c then r else operand_region f b)" for b
    using r others same by (cases b) (auto simp: inst_def)
qed

lemma block_call_arg_gives:
  assumes inv: "operands_inv f" and c: "valid_block_call f c"
  shows "gives f (append_block_call_arg c v f) (OfCall c) (block_call_args f c @ [v])"
    and "k < length (block_call_args f c) \<Longrightarrow>
           gives f (set_block_call_arg c k v f) (OfCall c) ((block_call_args f c)[k := v])"
    and "k < length (block_call_args f c) \<Longrightarrow>
           gives f (remove_block_call_arg c k f) (OfCall c) (drop_nth k (block_call_args f c))"
    and "gives f (set_block_call_args c args f) (OfCall c) args"
proof -
  let ?p = "fn_operand_pool f" and ?r = "(bc_arg_begin (block_call_of f c), bc_arg_count (block_call_of f c))"
  have o: "fst ?r + snd ?r \<le> length ?p" "own_slots f (OfCall c) = slots ?r"
    "block_call_args f c = vals ?p ?r" "length (block_call_args f c) = snd ?r"
    using owned_region [OF inv, of "OfCall c" ?r] c by (simp_all add: operand_list_simps)
  have len: "c < length (fn_block_calls f)"
    using c by (simp add: valid_block_call_def)
  show "gives f (append_block_call_arg c v f) (OfCall c) (block_call_args f c @ [v])"
  proof (cases "fst ?r + snd ?r = length ?p")
    case True
    show ?thesis
    proof (rule call_gives [OF inv c, where r = "(fst ?r, snd ?r + 1)"])
      show "vals (?p @ [v]) (fst ?r, snd ?r + 1) = block_call_args f c @ [v]"
        using vals_extend(1) [OF o(1) True] o(3) by simp
      show "slots (fst ?r, snd ?r + 1) \<subseteq> own_slots f (OfCall c) \<union> {length ?p..}"
        unfolding o(2) using True by (auto simp: slots_def)
    qed (use True len in \<open>simp_all add: append_block_call_arg_def Let_def nth_append\<close>)
  next
    case False
    show ?thesis
    proof (rule call_gives [OF inv c, where r = "(length ?p, snd ?r + 1)"])
      show "vals (?p @ vals ?p ?r @ [v]) (length ?p, snd ?r + 1) = block_call_args f c @ [v]"
        using vals_extend(2) [OF o(1)] o(3) by simp
      show "slots (length ?p, snd ?r + 1) \<subseteq> own_slots f (OfCall c) \<union> {length ?p..}"
        by (auto simp: slots_def)
    qed (use False len o(1) in \<open>simp_all add: append_block_call_arg_def Let_def nth_append vals_def\<close>)
  qed
  show "gives f (set_block_call_arg c k v f) (OfCall c) ((block_call_args f c)[k := v])"
    if k: "k < length (block_call_args f c)"
  proof (rule call_gives [OF inv c, where r = ?r])
    show "vals (?p[fst ?r + k := v]) ?r = (block_call_args f c)[k := v]"
      using vals_update [OF o(1), of k v] o k by simp
    show "?p[fst ?r + k := v] ! j = ?p ! j" if "j \<notin> own_slots f (OfCall c)" for j
      using that k o(2,4) by (auto simp: slots_def nth_list_update_neq)
  qed (use o(1,2) k in \<open>simp_all add: set_block_call_arg_def\<close>)
  show "gives f (remove_block_call_arg c k f) (OfCall c) (drop_nth k (block_call_args f c))"
    if k: "k < length (block_call_args f c)"
  proof (rule call_gives [OF inv c, where r = "(fst ?r, snd ?r - 1)"])
    show "vals (shift_down (fst ?r) [k + 1..<snd ?r] ?p) (fst ?r, snd ?r - 1) = drop_nth k (block_call_args f c)"
      using vals_shift_down [of ?r ?p k] o k by simp
    show "shift_down (fst ?r) [k + 1..<snd ?r] ?p ! j = ?p ! j" if "j \<notin> own_slots f (OfCall c)" for j
      using that shift_down_nth [of "k + 1" "fst ?r" "snd ?r" ?p j] o(1,2) by (auto simp: slots_def)
    show "slots (fst ?r, snd ?r - 1) \<subseteq> own_slots f (OfCall c) \<union> {length ?p..}"
      unfolding o(2) by (auto simp: slots_def)
  qed (use o(1) len in \<open>simp_all add: remove_block_call_arg_def Let_def\<close>)
  show "gives f (set_block_call_args c args f) (OfCall c) args"
  proof (cases "length args = snd ?r")
    case True
    show ?thesis
    proof (rule call_gives [OF inv c, where r = ?r])
      show "vals (overwrite (fst ?r) args ?p) ?r = args"
        using vals_overwrite o(1) True by blast
      show "overwrite (fst ?r) args ?p ! j = ?p ! j" if "j \<notin> own_slots f (OfCall c)" for j
        using that overwrite_nth(2) [of "fst ?r" args ?p j] o(1,2) True by (auto simp: slots_def)
    qed (use o(1,2) True in \<open>simp_all add: set_block_call_args_def overwrite_nth(1)\<close>)
  next
    case False
    show ?thesis
    proof (rule call_gives [OF inv c, where r = "(length ?p, length args)"])
      show "vals (?p @ args) (length ?p, length args) = args"
        by (rule vals_append_new)
      show "slots (length ?p, length args) \<subseteq> own_slots f (OfCall c) \<union> {length ?p..}"
        by (auto simp: slots_def)
    qed (use False len in \<open>simp_all add: set_block_call_args_def append_operands_def nth_append\<close>)
  qed
qed

section \<open>Constants\<close>

definition constants_part :: "air_function \<Rightarrow> value_data list \<times> (u64 \<times> nat) list" where
  "constants_part f = (fn_values f, fn_constant_lookup f)"

text \<open>No constant is filed at the invalid position.\<close>

definition constants_inv :: "air_function \<Rightarrow> bool" where
  "constants_inv f \<longleftrightarrow>
     table_inv hash_constant (constants_part f) \<and> \<not> filed (constants_part f) 0 \<and> fn_values f \<noteq> []"

lemma same_constant_eq: "same_constant x y \<longleftrightarrow> x = y"
  by (auto simp: same_constant_def intro: value_data.equality)

lemma intern_constant_data_part:
  "intern_constant_data d f = (v, f') \<Longrightarrow>
     intern_in hash_constant same_constant d (constants_part f) = (v, constants_part f')"
  "intern_in hash_constant same_constant d (constants_part f) = (v, constants_part f) \<Longrightarrow>
     intern_constant_data d f = (v, f)"
  by (auto simp: intern_constant_data_def constants_part_def split: prod.splits)

lemmas constant_laws =
  interning.inv_intern [OF interning_table [of same_constant hash_constant, OF same_constant_eq]]
  interning.get_intern [OF interning_table [of same_constant hash_constant, OF same_constant_eq]]
  interning.keeps [OF interning_table [of same_constant hash_constant, OF same_constant_eq]]
  interning.hit [OF interning_table [of same_constant hash_constant, OF same_constant_eq]]
  interning.unique [OF interning_table [of same_constant hash_constant, OF same_constant_eq]]

lemma value_of_part: "value_of f v = fst (constants_part f) ! v"
  by (simp add: value_of_def constants_part_def)

lemma intern_constant_data_cases:
  assumes inv: "constants_inv f" and i: "intern_constant_data d f = (v, f')"
  obtains (hit) "f' = f" "filed (constants_part f) v" "value_of f v = d"
    | (miss) "v = length (fn_values f)" "f' = f\<lparr>fn_values := fn_values f @ [d],
               fn_constant_lookup := fn_constant_lookup f @ [(hash_constant d, length (fn_values f))]\<rparr>"
proof -
  have t: "table_inv hash_constant (constants_part f)"
    using inv by (simp add: constants_inv_def)
  show ?thesis
  proof (rule intern_in_cases [OF t same_constant_eq, of d])
    fix j
    assume "filed (constants_part f) j" "fst (constants_part f) ! j = d"
      "intern_in hash_constant same_constant d (constants_part f) = (j, constants_part f)"
    then show ?thesis
      using i hit by (auto simp: intern_constant_data_def constants_part_def value_of_def)
  next
    assume "intern_in hash_constant same_constant d (constants_part f) =
        (length (fst (constants_part f)), fst (constants_part f) @ [d],
         snd (constants_part f) @ [(hash_constant d, length (fst (constants_part f)))])"
    then show ?thesis
      using i miss by (auto simp: intern_constant_data_def constants_part_def)
  qed
qed

lemma constants_inv_intern:
  assumes inv: "constants_inv f" and i: "intern_constant_data d f = (v, f')"
  shows "constants_inv f'"
proof -
  have "table_inv hash_constant (constants_part f')"
    using constant_laws(1) intern_constant_data_part(1) [OF i] inv by (metis constants_inv_def)
  moreover have "\<not> filed (constants_part f') 0 \<and> fn_values f' \<noteq> []"
    by (rule intern_constant_data_cases [OF inv i])
      (use inv in \<open>auto simp: constants_inv_def filed_def constants_part_def\<close>)
  ultimately show ?thesis
    by (simp add: constants_inv_def)
qed

interpretation constant_interning:
  interning "\<lambda>d. d" intern_constant_data value_of "\<lambda>f. filed (constants_part f)" constants_inv
proof
  fix s d i s' j
  assume c: "constants_inv s"
  then have inv: "table_inv hash_constant (constants_part s)"
    by (simp add: constants_inv_def)
  show "constants_inv s'" if "intern_constant_data d s = (i, s')"
    by (rule constants_inv_intern [OF c that])
  show "filed (constants_part s') i \<and> value_of s' i = d" if "intern_constant_data d s = (i, s')"
    using intern_constant_data_part(1) [OF that] constant_laws(2) [OF inv] unfolding value_of_part by blast
  show "filed (constants_part s') j \<and> value_of s' j = value_of s j"
    if "intern_constant_data d s = (i, s')" "filed (constants_part s) j"
    using intern_constant_data_part(1) [OF that(1)] constant_laws(3) [OF inv _ that(2)] unfolding value_of_part by blast
  show "intern_constant_data d s = (i, s)" if "filed (constants_part s) i" "value_of s i = d"
    using that constant_laws(4) [OF inv that(1)] intern_constant_data_part(2) unfolding value_of_part by blast
  show "i = j" if "filed (constants_part s) i" "filed (constants_part s) j" "value_of s i = value_of s j"
    using constant_laws(5) [OF inv that(1,2)] that(3) unfolding value_of_part by blast
qed

text \<open>What interning a constant leaves alone: every value there was, and everything but values.\<close>

lemma intern_constant_effect:
  assumes inv: "constants_inv f" and i: "intern_constant kind ty p p2 f = (v, f')"
  shows "constants_inv f'" "valid_value f' v"
    "value_of f' v = \<lparr>vd_kind = kind, vd_type = ty, vd_payload = p, vd_payload2 = p2\<rparr>"
    "w < length (fn_values f) \<Longrightarrow> value_of f' w = value_of f w" "length (fn_values f) \<le> length (fn_values f')"
    "\<exists>vs lookup. f' = f\<lparr>fn_values := vs, fn_constant_lookup := lookup\<rparr>"
proof -
  note d = i [unfolded intern_constant_def]
  show "constants_inv f'"
    by (rule constants_inv_intern [OF inv d])
  have less: "filed (constants_part f) w \<Longrightarrow> w < length (fn_values f)" for w
    using inv by (force simp: constants_inv_def filed_def table_inv_def constants_part_def)
  show "valid_value f' v"
    by (rule intern_constant_data_cases [OF inv d])
      (use inv less in \<open>auto simp: valid_value_def constants_inv_def intro: gr0I\<close>)
  show "value_of f' v = \<lparr>vd_kind = kind, vd_type = ty, vd_payload = p, vd_payload2 = p2\<rparr>"
    using constant_interning.get_intern [OF inv d] by simp
  show "value_of f' w = value_of f w" if "w < length (fn_values f)"
    by (rule intern_constant_data_cases [OF inv d]) (use that in \<open>auto simp: value_of_def nth_append\<close>)
  show "length (fn_values f) \<le> length (fn_values f')"
    by (rule intern_constant_data_cases [OF inv d]) auto
  show "\<exists>vs lookup. f' = f\<lparr>fn_values := vs, fn_constant_lookup := lookup\<rparr>"
    by (rule intern_constant_data_cases [OF inv d]) (auto intro!: exI air_function.equality)
qed

section \<open>Uses\<close>

lemma replace_all_uses_simps:
  "operands (replace_all_uses old new f) i = map (\<lambda>v. if v = old then new else v) (operands f i)"
  "block_call_args (replace_all_uses old new f) c = map (\<lambda>v. if v = old then new else v) (block_call_args f c)"
  "inst (replace_all_uses old new f) i = inst f i" "block (replace_all_uses old new f) b = block f b"
  "successors (replace_all_uses old new f) i = successors f i"
  "block_call_of (replace_all_uses old new f) c = block_call_of f c"
  "map (block_call_args (replace_all_uses old new f)) cs =
     map (\<lambda>c. map (\<lambda>v. if v = old then new else v) (block_call_args f c)) cs"
  by (simp_all add: replace_all_uses_def operands_def inst_def block_def block_call_args_def block_call_of_def
      take_map drop_map successors_def jump_table_def block_call_list_def Let_def)

lemma used_values_replace:
  "used_values (replace_all_uses old new f) i = map (\<lambda>v. if v = old then new else v) (used_values f i)"
  by (simp add: used_values_def replace_all_uses_simps map_concat comp_def)

lemma all_uses_replace:
  "all_uses (replace_all_uses old new f) = map_option (map (\<lambda>v. if v = old then new else v)) (all_uses f)"
proof -
  let ?f = "replace_all_uses old new f" and ?r = "\<lambda>v. if v = old then new else v"
  have i: "inst_order ?f b = inst_order f b" for b
    by (simp add: inst_order_def replace_all_uses_simps replace_all_uses_def)
  have u: "used_values ?f = (\<lambda>i. map ?r (used_values f i))"
    by (simp add: fun_eq_iff used_values_replace)
  have "collect_uses ?f bs = map_option (map ?r) (collect_uses f bs)" for bs
    by (induction bs)
      (auto simp: i u map_concat comp_def option.map_comp split: option.split intro!: option.map_cong)
  moreover have "block_order ?f = block_order f"
    by (simp add: block_order_def replace_all_uses_simps) (simp add: replace_all_uses_def)
  ultimately show ?thesis
    by (auto simp: all_uses_def split: option.split)
qed

lemma count_list_replace:
  assumes "old \<noteq> new"
  shows "count_list (map (\<lambda>v. if v = old then new else v) vs) v =
           (if v = old then 0 else if v = new then count_list vs old + count_list vs new else count_list vs v)"
  using assms by (induction vs) auto

lemma all_uses_lists:
  assumes lists: "lists_inv f L" and blocks: "blocks_inv f bs"
  shows "all_uses f = Some (concat (map (used_values f) (concat (map L bs))))"
proof -
  have "collect_uses f cs = Some (concat (map (used_values f) (concat (map L cs))))"
    if "\<forall>b \<in> set cs. valid_block f b" for cs
    using that by (induction cs) (simp_all add: inst_order_lists [OF lists])
  then show ?thesis
    using block_order_blocks [OF blocks] blocks by (simp add: all_uses_def blocks_inv_def)
qed

end
