(* ===== verification/Air_Rewrite.thy ===== *)
theory Air_Rewrite
  imports Air_Pools_Correct
begin

text \<open>
  What the passes share: an instruction apart from its place in a list, functions that differ
  only in which instructions are attached, and the invariant the passes keep.
\<close>

definition content :: "inst_data \<Rightarrow> inst_data" where
  "content d = d\<lparr>in_block := 0, in_prev := 0, in_next := 0\<rparr>"

lemma content_simps [simp]:
  "content (d\<lparr>in_block := b\<rparr>) = content d" "content (d\<lparr>in_prev := i\<rparr>) = content d"
  "content (d\<lparr>in_next := i\<rparr>) = content d"
  by (simp_all add: content_def)

lemma content_fields:
  assumes "content d = content e"
  shows "in_op d = in_op e" "in_flags d = in_flags e" "in_type d = in_type e" "in_op_begin d = in_op_begin e"
    "in_op_count d = in_op_count e" "in_aux d = in_aux e" "in_aux2 d = in_aux2 e" "in_result d = in_result e"
  using assms by (simp_all add: content_def inst_data.ext_inject inst_data.update_convs inst_data.select_convs)
    (cases d; cases e; simp add: content_def)+

text \<open>The same function but for the instruction lists.\<close>

definition strip :: "air_function \<Rightarrow> air_function" where
  "strip f = f\<lparr>fn_insts := [], fn_blocks := []\<rparr>"

definition same_body :: "air_function \<Rightarrow> air_function \<Rightarrow> bool" where
  "same_body f f' \<longleftrightarrow>
     strip f' = strip f
     \<and> length (fn_insts f') = length (fn_insts f) \<and> length (fn_blocks f') = length (fn_blocks f)
     \<and> (\<forall>i. content (inst f' i) = content (inst f i))
     \<and> (\<forall>b. bd_next (block f' b) = bd_next (block f b) \<and> bd_prev (block f' b) = bd_prev (block f b)
            \<and> bd_param_begin (block f' b) = bd_param_begin (block f b)
            \<and> bd_param_count (block f' b) = bd_param_count (block f b))"

lemma same_body_refl [simp]: "same_body f f"
  by (simp add: same_body_def)

lemma same_body_trans: "same_body f g \<Longrightarrow> same_body g h \<Longrightarrow> same_body f h"
  by (simp add: same_body_def)

lemma same_body_set_inst:
  "(\<And>d. content (u d) = content d) \<Longrightarrow> same_body f (set_inst i u f)"
  by (simp add: same_body_def) (simp add: set_inst_def strip_def)

lemma same_body_set_block:
  "(\<And>d. bd_next (u d) = bd_next d \<and> bd_prev (u d) = bd_prev d \<and> bd_param_begin (u d) = bd_param_begin d
         \<and> bd_param_count (u d) = bd_param_count d) \<Longrightarrow> same_body f (set_block b u f)"
  by (simp add: same_body_def) (simp add: set_block_def strip_def)

text \<open>A relinking step writes a position in an instruction or at the end of a block.\<close>

lemma same_body_link:
  assumes "same_body f g" "\<And>d. content (u d) = content d"
    and "\<And>d. bd_next (w d) = bd_next d \<and> bd_prev (w d) = bd_prev d \<and> bd_param_begin (w d) = bd_param_begin d
         \<and> bd_param_count (w d) = bd_param_count d"
  shows "same_body f (if c then set_inst i u g else set_block b w g)"
  using assms same_body_trans [OF assms(1)] same_body_set_inst same_body_set_block by simp

lemma same_body_remove_inst: "same_body f (remove_inst i f)"
  unfolding remove_inst_def Let_def
  by (rule same_body_trans [OF _ same_body_set_inst], (rule same_body_link)+) simp_all

lemma same_body_append_inst: "same_body f (append_inst b i f)"
  unfolding append_inst_def Let_def
  by (rule same_body_trans [OF _ same_body_set_block], rule same_body_link, rule same_body_set_inst) simp_all

lemma same_body_fields:
  assumes "same_body f f'"
  shows "fn_operand_pool f' = fn_operand_pool f" "fn_block_calls f' = fn_block_calls f"
    "fn_jump_tables f' = fn_jump_tables f" "fn_block_call_lists f' = fn_block_call_lists f"
    "fn_values f' = fn_values f" "fn_entry_block f' = fn_entry_block f" "fn_last_block f' = fn_last_block f"
    "fn_constant_lookup f' = fn_constant_lookup f" "fn_block_param_pool f' = fn_block_param_pool f"
proof -
  have s: "strip f' = strip f"
    using assms by (simp add: same_body_def)
  show "fn_operand_pool f' = fn_operand_pool f" "fn_block_calls f' = fn_block_calls f"
    "fn_jump_tables f' = fn_jump_tables f" "fn_block_call_lists f' = fn_block_call_lists f"
    "fn_values f' = fn_values f" "fn_entry_block f' = fn_entry_block f" "fn_last_block f' = fn_last_block f"
    "fn_constant_lookup f' = fn_constant_lookup f" "fn_block_param_pool f' = fn_block_param_pool f"
    using arg_cong [OF s, of fn_operand_pool] arg_cong [OF s, of fn_block_calls] arg_cong [OF s, of fn_jump_tables]
      arg_cong [OF s, of fn_block_call_lists] arg_cong [OF s, of fn_values] arg_cong [OF s, of fn_entry_block]
      arg_cong [OF s, of fn_last_block] arg_cong [OF s, of fn_constant_lookup] arg_cong [OF s, of fn_block_param_pool]
    by (simp_all add: strip_def)
qed

lemma same_body_reads:
  assumes s: "same_body f f'"
  shows "operands f' i = operands f i" "block_call_args f' c = block_call_args f c"
    "successors f' i = successors f i" "used_values f' i = used_values f i"
    "in_op (inst f' i) = in_op (inst f i)" "in_flags (inst f' i) = in_flags (inst f i)"
    "in_type (inst f' i) = in_type (inst f i)" "in_result (inst f' i) = in_result (inst f i)"
    "in_aux (inst f' i) = in_aux (inst f i)"
    "value_of f' v = value_of f v" "def_inst f' v = def_inst f v" "block_params f' b = block_params f b"
    "block_call_of f' c = block_call_of f c" "valid_block f' b = valid_block f b" "valid_inst f' i = valid_inst f i"
    "blocks_inv f' bs = blocks_inv f bs"
proof -
  note F = same_body_fields [OF s]
  have "content (inst f' i) = content (inst f i)" for i
    using s by (simp add: same_body_def)
  note C = content_fields [OF this]
  show ops: "operands f' i = operands f i" for i
    by (simp add: operands_def C F)
  show args: "block_call_args f' c = block_call_args f c" "block_call_of f' c = block_call_of f c" for c
    by (simp_all add: block_call_args_def block_call_of_def F)
  show succ: "successors f' i = successors f i" for i
    by (simp add: successors_def C F jump_table_def block_call_list_def Let_def)
  show "used_values f' i = used_values f i"
    using args(1) by (simp add: used_values_def ops succ cong: map_cong)
  show "in_op (inst f' i) = in_op (inst f i)" "in_flags (inst f' i) = in_flags (inst f i)"
    "in_type (inst f' i) = in_type (inst f i)" "in_result (inst f' i) = in_result (inst f i)"
    "in_aux (inst f' i) = in_aux (inst f i)"
    by (simp_all add: C)
  show "value_of f' v = value_of f v" "def_inst f' v = def_inst f v"
    by (simp_all add: value_of_def def_inst_def F)
  show "block_params f' b = block_params f b"
    using s by (simp add: block_params_def F same_body_def)
  show "valid_block f' b = valid_block f b" "valid_inst f' i = valid_inst f i"
    using s by (simp_all add: valid_block_def valid_inst_def same_body_def)
  show "blocks_inv f' bs = blocks_inv f bs"
    using s F by (intro blocks_inv_cong) (simp_all add: same_body_def)
qed

section \<open>The invariant of a function\<close>

text \<open>\<open>bs\<close> are the blocks in order and \<open>L b\<close> the instructions of a block in order.\<close>

definition fn_inv :: "air_function \<Rightarrow> block_id list \<Rightarrow> (block_id \<Rightarrow> inst_id list) \<Rightarrow> bool" where
  "fn_inv f bs L \<longleftrightarrow> blocks_inv f bs \<and> lists_inv f L \<and> fn_insts f \<noteq> []"

definition all_insts :: "block_id list \<Rightarrow> (block_id \<Rightarrow> inst_id list) \<Rightarrow> inst_id list" where
  "all_insts bs L = concat (map L bs)"

lemma set_all_insts: "set (all_insts bs L) = (\<Union>b \<in> set bs. set (L b))"
  by (simp add: all_insts_def)

lemma fn_inv_distinct:
  assumes "fn_inv f bs L"
  shows "distinct (all_insts bs L)" "length (all_insts bs L) < length (fn_insts f)"
proof -
  have b: "distinct bs" "\<forall>b \<in> set bs. valid_block f b" and l: "lists_inv f L"
    using assms by (simp_all add: fn_inv_def blocks_inv_def dll_def)
  have "distinct (concat (map L cs))" if "distinct cs" "\<forall>b \<in> set cs. valid_block f b" for cs
    using that
  proof (induction cs)
    case (Cons c cs)
    have "set (L c) \<inter> set (L d) = {}" if "d \<in> set cs" for d
      using that Cons.prems lists_invD(1) [OF l, of c] lists_invD(1) [OF l, of d] by auto
    then show ?case
      using Cons lists_invD(3) [OF l, of c] by auto
  qed simp
  then show d: "distinct (all_insts bs L)"
    using b by (simp add: all_insts_def)
  have "\<forall>i \<in> set (all_insts bs L). 0 < i \<and> i < length (fn_insts f)"
    using lists_invD(1) [OF l] b(2) by (auto simp: set_all_insts valid_inst_def)
  then have "set (all_insts bs L) \<subseteq> {0<..<length (fn_insts f)}"
    by auto
  then have "card (set (all_insts bs L)) \<le> length (fn_insts f) - 1"
    using card_mono [of "{0<..<length (fn_insts f)}"] by fastforce
  then show "length (all_insts bs L) < length (fn_insts f)"
    using assms distinct_card [OF d] by (cases "fn_insts f") (auto simp: fn_inv_def)
qed

lemma fn_inv_cong:
  assumes "fn_inv f bs L" "\<And>c. valid_block f c \<Longrightarrow> L' c = L c"
  shows "fn_inv f bs L'"
  using assms by (simp add: fn_inv_def lists_inv_def)

lemma fn_invD:
  assumes "fn_inv f bs L" "b \<in> set bs"
  shows "valid_block f b" "lists_inv f L" "b \<noteq> 0"
  using assms by (auto simp: fn_inv_def blocks_inv_def valid_block_def)

lemma fn_inv_owner:
  assumes "fn_inv f bs L" "valid_block f b" "valid_block f c" "i \<in> set (L b)" "i \<in> set (L c)"
  shows "b = c"
  using assms lists_invD(1) [of f L b i] lists_invD(1) [of f L c i] by (simp add: fn_inv_def)

lemma fn_inv_remove:
  assumes inv: "fn_inv f bs L" and b: "b \<in> set bs" and L: "L b = xs @ i # ys"
  shows "fn_inv (remove_inst i f) bs (L(b := xs @ ys))"
proof -
  have v: "valid_block f b"
    using inv b by (simp add: fn_inv_def blocks_inv_def)
  have s: "same_body f (remove_inst i f)"
    by (rule same_body_remove_inst)
  have "fn_insts (remove_inst i f) \<noteq> []"
    using inv s by (auto simp: fn_inv_def same_body_def)
  then show ?thesis
    using inv remove_inst_lists [of f L b xs i ys, OF _ v L] same_body_reads(16) [OF s] by (simp add: fn_inv_def)
qed

lemma all_uses_fn_inv: "fn_inv f bs L \<Longrightarrow> all_uses f = Some (concat (map (used_values f) (all_insts bs L)))"
  using all_uses_lists by (simp add: fn_inv_def all_insts_def)

text \<open>Instructions, blocks and their lists do not depend on values and operands.\<close>

definition same_shape :: "air_function \<Rightarrow> air_function \<Rightarrow> bool" where
  "same_shape f f' \<longleftrightarrow> fn_insts f' = fn_insts f \<and> fn_blocks f' = fn_blocks f
     \<and> fn_entry_block f' = fn_entry_block f \<and> fn_last_block f' = fn_last_block f"

lemma same_shape_fn_inv:
  assumes "same_shape f f'"
  shows "fn_inv f' bs L = fn_inv f bs L" "inst f' = inst f" "block f' = block f"
proof -
  show e: "inst f' = inst f" "block f' = block f"
    using assms by (simp_all add: same_shape_def inst_def block_def fun_eq_iff)
  then have n: "nxt f' = nxt f" "prv f' = prv f"
    by (simp_all add: nxt_def prv_def fun_eq_iff)
  show "fn_inv f' bs L = fn_inv f bs L"
    using assms e n
    by (simp add: same_shape_def fn_inv_def lists_inv_def blocks_inv_def block_list_def valid_block_def valid_inst_def)
qed

lemma fn_inv_append:
  assumes "fn_inv f bs L" "valid_block f b" "valid_inst f i" "in_block (inst f i) = 0"
  shows "fn_inv (append_inst b i f) bs (L(b := L b @ [i]))"
proof -
  have s: "same_body f (append_inst b i f)"
    by (rule same_body_append_inst)
  have "fn_insts (append_inst b i f) \<noteq> []"
    using s assms(1) by (auto simp: fn_inv_def same_body_def)
  then show ?thesis
    using append_inst_lists [of f L b i] assms same_body_reads(16) [OF s] by (simp add: fn_inv_def)
qed

lemma fn_inv_make_inst:
  assumes "fn_inv f bs L" "make_inst op ty ops aux loc flags aux2 f = (i, f')"
  shows "fn_inv f' bs L"
proof -
  have "fn_insts f' \<noteq> []"
    using make_inst_effect(2) [OF assms(2)] by auto
  then show ?thesis
    using make_inst_lists(1,2) [of f L bs op ty ops aux loc flags aux2 i f'] assms by (simp add: fn_inv_def)
qed

end
