(* ===== verification/Air_Dce.thy ===== *)
theory Air_Dce
  imports Air_Rewrite
begin

text \<open>
  Dead code elimination (\<open>run_dce\<close> of \<open>air/passes.cpp\<close>): rounds that count the uses of every value
  and remove the instructions without side effects whose result has none, until a round removes
  nothing. The state of a round is the flag it sets and the function.
\<close>

section \<open>The pass\<close>

definition is_removable :: "inst_data \<Rightarrow> bool" where
  "is_removable data =
     (if opcode_result_kind (in_op data) \<noteq> RValue then False
      else if opcode_has_side_effects (in_op data) then False
      else if in_flags data AND INST_FLAG_VOLATILE \<noteq> 0 then False
      else True)"

definition dce_visit :: "(value_id \<Rightarrow> nat) \<Rightarrow> inst_id \<Rightarrow> bool \<times> air_function \<Rightarrow> bool \<times> air_function" where
  "dce_visit uses i st =
     (case st of (changed, f) \<Rightarrow>
        if is_removable (inst f i) \<and> uses (in_result (inst f i)) = 0 then (True, remove_inst i f)
        else (changed, f))"

definition dce_block :: "(value_id \<Rightarrow> nat) \<Rightarrow> block_id \<Rightarrow> bool \<times> air_function \<Rightarrow> (bool \<times> air_function) option" where
  "dce_block uses b st =
     visit (length (fn_insts (snd st))) (\<lambda>st i. in_next (inst (snd st) i)) (dce_visit uses)
       (bd_first (block (snd st) b)) st"

definition dce_round :: "air_function \<Rightarrow> (bool \<times> air_function) option" where
  "dce_round f =
     (case all_uses f of
        None \<Rightarrow> None
      | Some vs \<Rightarrow> for_each (length (fn_blocks f)) (\<lambda>st b. bd_next (block (snd st) b)) (dce_block (count_list vs))
                    (fn_entry_block f) (False, f))"

text \<open>Every round but the last removes an instruction, so the number of instructions is enough fuel.\<close>

fun dce_rounds :: "nat \<Rightarrow> bool \<Rightarrow> air_function \<Rightarrow> (bool \<times> air_function) option" where
  "dce_rounds 0 changed f = None"
| "dce_rounds (Suc n) changed f =
     (case dce_round f of
        None \<Rightarrow> None
      | Some (round_changed, f') \<Rightarrow> if round_changed then dce_rounds n True f' else Some (changed, f'))"

definition run_dce :: "air_function \<Rightarrow> (bool \<times> air_function) option" where
  "run_dce f = dce_rounds (length (fn_insts f)) False f"

section \<open>One round\<close>

text \<open>The instructions a round removes, given the uses it counted.\<close>

definition dead :: "air_function \<Rightarrow> (value_id \<Rightarrow> nat) \<Rightarrow> inst_id \<Rightarrow> bool" where
  "dead f uses i \<longleftrightarrow> is_removable (inst f i) \<and> uses (in_result (inst f i)) = 0"

lemma is_removable_content: "content d = content e \<Longrightarrow> is_removable d = is_removable e"
  using content_fields [of d e] by (simp add: is_removable_def)

lemma dead_same_body:
  assumes "same_body f f'"
  shows "dead f' uses i = dead f uses i"
proof -
  have c: "content (inst f' i) = content (inst f i)"
    using assms by (simp add: same_body_def)
  show ?thesis
    using is_removable_content [OF c] content_fields(8) [OF c] by (simp add: dead_def)
qed

text \<open>In the middle of a round: the dead instructions among the visited ones are gone.\<close>

definition kept ::
  "air_function \<Rightarrow> (block_id \<Rightarrow> inst_id list) \<Rightarrow> (value_id \<Rightarrow> nat) \<Rightarrow> inst_id set \<Rightarrow> block_id \<Rightarrow> inst_id list" where
  "kept f L uses V b = filter (\<lambda>i. \<not> (i \<in> V \<and> dead f uses i)) (L b)"

definition sweep ::
  "air_function \<Rightarrow> block_id list \<Rightarrow> (block_id \<Rightarrow> inst_id list) \<Rightarrow> (value_id \<Rightarrow> nat) \<Rightarrow> inst_id set \<Rightarrow>
   bool \<times> air_function \<Rightarrow> bool" where
  "sweep f bs L uses V st \<longleftrightarrow>
     fn_inv (snd st) bs (kept f L uses V) \<and> same_body f (snd st) \<and> (fst st \<longleftrightarrow> (\<exists>i \<in> V. dead f uses i))
     \<and> (\<not> fst st \<longrightarrow> snd st = f)"

lemma kept_split:
  assumes "L b = vis @ rest" "V \<inter> set rest = {}"
  shows "kept f L uses V b = kept f (\<lambda>_. vis) uses V b @ rest"
  using assms by (auto simp: kept_def intro!: filter_True)

lemma sweep_step:
  assumes inv: "fn_inv f bs L" and b: "b \<in> set bs" and L: "L b = vis @ i # rest"
    and V: "V \<inter> set (i # rest) = {}" and st: "sweep f bs L uses V st"
  shows "in_next (inst (snd st) i) = first_of rest 0" "i \<noteq> 0"
    and "sweep f bs L uses (insert i V) (dce_visit uses i st)"
proof -
  obtain ch g where st_eq: "st = (ch, g)"
    by fastforce
  let ?xs = "kept f (\<lambda>_. vis) uses V b"
  have g: "fn_inv g bs (kept f L uses V)" "same_body f g" "ch \<longleftrightarrow> (\<exists>i \<in> V. dead f uses i)" "\<not> ch \<longrightarrow> g = f"
    using st by (simp_all add: sweep_def st_eq)
  have split: "kept f L uses V b = ?xs @ i # rest"
    by (rule kept_split [where L = L, OF L V])
  note gD = fn_invD [OF g(1) b]
  show "in_next (inst (snd st) i) = first_of rest 0" "i \<noteq> 0"
    using neighbours(4,2) [OF gD(2,1) split] by (simp_all add: st_eq valid_inst_def)
  have dead_g: "dead g uses i = dead f uses i"
    by (rule dead_same_body [OF g(2)])
  have val: "valid_block g c = valid_block f c" for c
    using same_body_reads(14) [OF g(2)] .
  show "sweep f bs L uses (insert i V) (dce_visit uses i st)"
  proof (cases "dead f uses i")
    case True
    have others: "i \<notin> set (L c)" if "valid_block f c" "c \<noteq> b" for c
      using fn_inv_owner [OF inv _ that(1), of b i] fn_invD(1) [OF inv b] that(2) L by auto
    have "distinct (L b)"
      using lists_invD(3) fn_invD [OF inv b] by blast
    then have i: "i \<notin> set vis" "i \<notin> set rest"
      by (simp_all add: L)
    have kb: "kept f L uses (insert i V) b = ?xs @ rest"
    proof -
      have "filter (\<lambda>j. \<not> (j \<in> insert i V \<and> dead f uses j)) vis = filter (\<lambda>j. \<not> (j \<in> V \<and> dead f uses j)) vis"
        using i(1) by (intro filter_cong) auto
      moreover have "filter (\<lambda>j. \<not> (j \<in> insert i V \<and> dead f uses j)) rest = rest"
        using i(2) V by (intro filter_True) auto
      ultimately show ?thesis
        using True by (simp add: kept_def L)
    qed
    have kc: "kept f L uses (insert i V) c = kept f L uses V c" if "valid_block f c" "c \<noteq> b" for c
      using others [OF that] by (auto simp: kept_def intro!: filter_cong)
    have "fn_inv (remove_inst i g) bs ((kept f L uses V)(b := ?xs @ rest))"
      by (rule fn_inv_remove [OF g(1) b split])
    then have "fn_inv (remove_inst i g) bs (kept f L uses (insert i V))"
      using kb kc same_body_reads(14) [OF same_body_remove_inst [of g i]] by (elim fn_inv_cong) (simp add: val)
    moreover have "same_body f (remove_inst i g)"
      using same_body_trans [OF g(2) same_body_remove_inst] .
    moreover have "dce_visit uses i st = (True, remove_inst i g)"
      using True dead_g by (simp add: dce_visit_def st_eq dead_def)
    ultimately show ?thesis
      using True by (simp add: sweep_def)
  next
    case False
    have "kept f L uses (insert i V) = kept f L uses V"
      using False by (auto simp: kept_def fun_eq_iff intro!: filter_cong)
    moreover have "dce_visit uses i st = st"
      using False dead_g by (auto simp: dce_visit_def st_eq dead_def)
    ultimately show ?thesis
      using False g by (simp add: sweep_def st_eq)
  qed
qed

text \<open>The loop over a block, as a traversal.\<close>

definition block_sweep ::
  "air_function \<Rightarrow> block_id list \<Rightarrow> (block_id \<Rightarrow> inst_id list) \<Rightarrow> (value_id \<Rightarrow> nat) \<Rightarrow> inst_id set \<Rightarrow> block_id \<Rightarrow>
   bool \<times> air_function \<Rightarrow> inst_id list \<Rightarrow> bool" where
  "block_sweep f bs L uses V b st rest \<longleftrightarrow>
     fn_inv f bs L \<and> b \<in> set bs \<and> V \<inter> set (L b) = {}
     \<and> (\<exists>vis. L b = vis @ rest \<and> sweep f bs L uses (V \<union> set vis) st)"

interpretation dce_insts:
  traversal "\<lambda>st i. in_next (inst (snd st) i)" "dce_visit uses" "block_sweep f bs L uses V b"
  for f bs L uses V b
proof
  fix st i rest
  assume "block_sweep f bs L uses V b st (i # rest)"
  then obtain vis where v: "fn_inv f bs L" "b \<in> set bs" "V \<inter> set (L b) = {}" "L b = vis @ i # rest"
      "sweep f bs L uses (V \<union> set vis) st"
    by (auto simp: block_sweep_def)
  have "distinct (L b)"
    using lists_invD(3) fn_invD [OF v(1,2)] by blast
  then have "(V \<union> set vis) \<inter> set (i # rest) = {}"
    using v(3,4) by auto
  note step = sweep_step [OF v(1,2,4) this v(5)]
  show "in_next (inst (snd st) i) = first_of rest 0" "i \<noteq> 0"
    using step(1,2) by simp_all
  have "L b = (vis @ [i]) @ rest \<and> sweep f bs L uses (V \<union> set (vis @ [i])) (dce_visit uses i st)"
    using v(4) step(3) by simp
  then show "block_sweep f bs L uses V b (dce_visit uses i st) rest"
    unfolding block_sweep_def using v(1-3) by blast
qed

lemma dce_block_returns:
  assumes inv: "fn_inv f bs L" and b: "b \<in> set bs" and V: "V \<inter> set (L b) = {}" and st: "sweep f bs L uses V st"
  shows "\<exists>st'. dce_block uses b st = Some st' \<and> sweep f bs L uses (V \<union> set (L b)) st'"
proof -
  have k: "kept f L uses V b = L b"
    using kept_split [of L b "[]" "L b" V] V by (simp add: kept_def)
  have g: "fn_inv (snd st) bs (kept f L uses V)" "same_body f (snd st)"
    using st by (simp_all add: sweep_def)
  have first: "bd_first (block (snd st) b) = first_of (L b) 0"
    using lists_invD(2) [OF fn_invD(2,1) [OF g(1) b]] k by (simp add: dll_def)
  have "length (L b) \<le> length (fn_insts f)"
    using fn_invD [OF inv b] lists_invD(1,3) [of f L b] by (intro distinct_bound) (simp_all add: valid_inst_def)
  then have len: "length (L b) \<le> length (fn_insts (snd st))"
    using g(2) by (simp add: same_body_def)
  have "block_sweep f bs L uses V b st (L b)"
    using inv b V st by (auto simp: block_sweep_def)
  note r = dce_insts.visit_fold [OF this len]
  then have "sweep f bs L uses (V \<union> set (L b)) (fold (dce_visit uses) (L b) st)"
    by (auto simp: block_sweep_def)
  then show ?thesis
    using r by (simp add: dce_block_def first)
qed

text \<open>The loop over the blocks.\<close>

definition blocks_sweep ::
  "air_function \<Rightarrow> block_id list \<Rightarrow> (block_id \<Rightarrow> inst_id list) \<Rightarrow> (value_id \<Rightarrow> nat) \<Rightarrow>
   bool \<times> air_function \<Rightarrow> block_id list \<Rightarrow> bool" where
  "blocks_sweep f bs L uses st cs \<longleftrightarrow>
     fn_inv f bs L \<and> (\<exists>ds. bs = ds @ cs \<and> sweep f bs L uses (\<Union>d \<in> set ds. set (L d)) st)"

interpretation dce_blocks:
  for_loop "\<lambda>st b. bd_next (block (snd st) b)" "dce_block uses" "blocks_sweep f bs L uses"
  for f bs L uses
proof
  fix st b cs
  assume "blocks_sweep f bs L uses st (b # cs)"
  then obtain ds where d: "fn_inv f bs L" "bs = ds @ b # cs" "sweep f bs L uses (\<Union>d \<in> set ds. set (L d)) st"
    by (auto simp: blocks_sweep_def)
  have b: "b \<in> set bs"
    using d(2) by simp
  show "b \<noteq> 0"
    using fn_invD(3) [OF d(1) b] .
  have "distinct bs"
    using d(1) by (simp add: fn_inv_def blocks_inv_def dll_def)
  then have "(\<Union>d \<in> set ds. set (L d)) \<inter> set (L b) = {}"
    using fn_inv_owner [OF d(1)] fn_invD(1) [OF d(1)] d(2) by fastforce
  from dce_block_returns [OF d(1) b this d(3)]
  obtain st' where st': "dce_block uses b st = Some st'" "sweep f bs L uses ((\<Union>d \<in> set ds. set (L d)) \<union> set (L b)) st'"
    by blast
  have "dll (\<lambda>b. bd_next (block (snd st') b)) (\<lambda>b. bd_prev (block (snd st') b))
      (fn_entry_block (snd st')) (fn_last_block (snd st')) (ds @ b # cs)"
    using st'(2) d(2) by (simp add: sweep_def fn_inv_def blocks_inv_def)
  then have "bd_next (block (snd st') b) = first_of cs 0"
    using dll_middle(2) by fastforce
  moreover have "bs = (ds @ [b]) @ cs \<and> sweep f bs L uses (\<Union>d \<in> set (ds @ [b]). set (L d)) st'"
    using d(2) st'(2) by (simp add: Un_commute)
  ultimately show "\<exists>st'. dce_block uses b st = Some st' \<and> bd_next (block (snd st') b) = first_of cs 0
      \<and> blocks_sweep f bs L uses st' cs"
    unfolding blocks_sweep_def using st'(1) d(1) by blast
qed

text \<open>A round: exactly the dead instructions go.\<close>

definition uses_of :: "air_function \<Rightarrow> block_id list \<Rightarrow> (block_id \<Rightarrow> inst_id list) \<Rightarrow> value_id \<Rightarrow> nat" where
  "uses_of f bs L = count_list (concat (map (used_values f) (all_insts bs L)))"

lemma dce_round_returns:
  assumes inv: "fn_inv f bs L"
  shows "\<exists>changed f'. dce_round f = Some (changed, f')
     \<and> sweep f bs L (uses_of f bs L) (set (all_insts bs L)) (changed, f')"
proof -
  let ?u = "uses_of f bs L"
  have "kept f L ?u {} = L"
    by (simp add: kept_def fun_eq_iff)
  then have "sweep f bs L ?u {} (False, f)"
    using inv by (simp add: sweep_def)
  then have start: "blocks_sweep f bs L ?u (False, f) bs"
    using inv by (auto simp: blocks_sweep_def)
  have "\<forall>b \<in> set bs. valid_block f b" "distinct bs" "fn_entry_block f = first_of bs 0"
    using inv by (simp_all add: fn_inv_def blocks_inv_def dll_def)
  then have "length bs \<le> length (fn_blocks f)" "fn_entry_block f = first_of bs 0"
    by (auto simp: valid_block_def intro!: distinct_bound)
  with dce_blocks.for_each_returns [OF start, of "length (fn_blocks f)"]
  obtain st' where st': "for_each (length (fn_blocks f)) (\<lambda>st b. bd_next (block (snd st) b)) (dce_block ?u)
      (fn_entry_block f) (False, f) = Some st'" "blocks_sweep f bs L ?u st' []"
    by auto
  then have "sweep f bs L ?u (set (all_insts bs L)) st'"
    by (auto simp: blocks_sweep_def set_all_insts)
  then show ?thesis
    using st'(1) all_uses_fn_inv [OF inv] by (cases st') (simp add: dce_round_def uses_of_def)
qed

section \<open>The whole pass\<close>

text \<open>
  \<open>D\<close> is a set of attached instructions the pass may remove and stop: all of them removable, none
  of their results used by what remains, and every removable instruction that remains is used.
\<close>

definition dead_set ::
  "air_function \<Rightarrow> block_id list \<Rightarrow> (block_id \<Rightarrow> inst_id list) \<Rightarrow> inst_id set \<Rightarrow> bool" where
  "dead_set f bs L D \<longleftrightarrow>
     D \<subseteq> set (all_insts bs L)
     \<and> (\<forall>i \<in> D. is_removable (inst f i)
          \<and> (\<forall>j \<in> set (all_insts bs L) - D. in_result (inst f i) \<notin> set (used_values f j)))
     \<and> (\<forall>i \<in> set (all_insts bs L) - D. is_removable (inst f i) \<longrightarrow>
          (\<exists>j \<in> set (all_insts bs L) - D. in_result (inst f i) \<in> set (used_values f j)))"

definition without :: "inst_id set \<Rightarrow> (block_id \<Rightarrow> inst_id list) \<Rightarrow> block_id \<Rightarrow> inst_id list" where
  "without D L b = filter (\<lambda>i. i \<notin> D) (L b)"

lemma without_simps:
  "without {} L = L" "without D (without E L) = without (D \<union> E) L"
  "all_insts bs (without D L) = filter (\<lambda>i. i \<notin> D) (all_insts bs L)"
  by (simp_all add: without_def all_insts_def filter_concat fun_eq_iff comp_def conj_commute)
    (simp add: without_def [abs_def])

lemma uses_of_0: "uses_of f bs L v = 0 \<longleftrightarrow> (\<forall>j \<in> set (all_insts bs L). v \<notin> set (used_values f j))"
  by (simp add: uses_of_def count_list_0_iff)

lemma dead_uses: "dead f (uses_of f bs L) i \<longleftrightarrow>
    is_removable (inst f i) \<and> (\<forall>j \<in> set (all_insts bs L). in_result (inst f i) \<notin> set (used_values f j))"
  by (simp add: dead_def uses_of_0)

lemma dead_set_round:
  assumes s: "same_body f g" and D: "D = {i \<in> set (all_insts bs L). dead f (uses_of f bs L) i}"
    and E: "dead_set g bs (without D L) E"
  shows "dead_set f bs L (D \<union> E)"
proof -
  have c: "content (inst g i) = content (inst f i)" for i
    using s by (simp add: same_body_def)
  note eq = is_removable_content [OF c] content_fields(8) [OF c] same_body_reads(4) [OF s]
  let ?A = "set (all_insts bs L)" and ?W = "set (all_insts bs (without D L))"
  have W: "?W - E = ?A - (D \<union> E)" "?W \<subseteq> ?A"
    by (auto simp: without_simps)
  have "D \<union> E \<subseteq> ?A"
    using E W(2) by (auto simp: dead_set_def D)
  moreover have "is_removable (inst f i) \<and> (\<forall>j \<in> ?A - (D \<union> E). in_result (inst f i) \<notin> set (used_values f j))"
    if "i \<in> D \<union> E" for i
    using that E unfolding dead_set_def W(1) by (auto simp: eq D dead_uses)
  moreover have "\<exists>j \<in> ?A - (D \<union> E). in_result (inst f i) \<in> set (used_values f j)"
    if "i \<in> ?A - (D \<union> E)" "is_removable (inst f i)" for i
    using that E unfolding dead_set_def W(1) by (simp add: eq)
  ultimately show ?thesis
    unfolding dead_set_def by blast
qed

lemma dead_set_empty: "\<forall>i \<in> set (all_insts bs L). \<not> dead f (uses_of f bs L) i \<Longrightarrow> dead_set f bs L {}"
  by (auto simp: dead_set_def dead_uses)

lemma dce_rounds_returns:
  assumes "fn_inv f bs L" "length (all_insts bs L) < n"
  shows "\<exists>changed' f' D. dce_rounds n changed f = Some (changed', f') \<and> dead_set f bs L D \<and> same_body f f'
     \<and> fn_inv f' bs (without D L) \<and> (changed' \<longleftrightarrow> changed \<or> D \<noteq> {}) \<and> (D = {} \<longrightarrow> f' = f)"
  using assms
proof (induction n arbitrary: f L changed)
  case (Suc n)
  let ?u = "uses_of f bs L"
  define D where "D = {i \<in> set (all_insts bs L). dead f ?u i}"
  obtain rc g where r: "dce_round f = Some (rc, g)" "sweep f bs L ?u (set (all_insts bs L)) (rc, g)"
    using dce_round_returns [OF Suc.prems(1)] by blast
  then have g: "fn_inv g bs (kept f L ?u (set (all_insts bs L)))" "same_body f g" "rc \<longleftrightarrow> D \<noteq> {}" "\<not> rc \<longrightarrow> g = f"
    by (auto simp: sweep_def D_def)
  have "kept f L ?u (set (all_insts bs L)) = without D L"
    by (auto simp: kept_def without_def D_def fun_eq_iff intro!: filter_cong)
  then have inv: "fn_inv g bs (without D L)"
    using g(1) by simp
  show ?case
  proof (cases rc)
    case False
    then have "dead_set f bs L {}" "g = f"
      using g(3,4) by (auto simp: D_def intro: dead_set_empty)
    then show ?thesis
      using r(1) False inv g(3) by (auto simp: without_simps)
  next
    case True
    then obtain i where "i \<in> set (all_insts bs L)" "i \<in> D"
      using g(3) by (auto simp: D_def)
    then have "length (all_insts bs (without D L)) < n"
      using Suc.prems(2) length_filter_less [of i "all_insts bs L" "\<lambda>i. i \<notin> D"] by (simp add: without_simps)
    from Suc.IH [OF inv this, of True]
    obtain ch h E where h: "dce_rounds n True g = Some (ch, h)" "dead_set g bs (without D L) E" "same_body g h"
        "fn_inv h bs (without E (without D L))" "ch"
      by blast
    have "dead_set f bs L (D \<union> E)"
      by (rule dead_set_round [OF g(2) D_def h(2)])
    moreover have "fn_inv h bs (without (D \<union> E) L)"
      using h(4) by (simp add: without_simps Un_commute)
    ultimately show ?thesis
      using r(1) True h(1,5) same_body_trans [OF g(2) h(3)] g(3) by auto
  qed
qed simp

lemma run_dce_returns:
  assumes "fn_inv f bs L"
  shows "\<exists>changed f' D. run_dce f = Some (changed, f') \<and> dead_set f bs L D \<and> same_body f f'
     \<and> fn_inv f' bs (without D L) \<and> (changed \<longleftrightarrow> D \<noteq> {}) \<and> (D = {} \<longrightarrow> f' = f)"
  using dce_rounds_returns [OF assms fn_inv_distinct(2) [OF assms], of False] by (simp add: run_dce_def)

text \<open>
  The instructions a function needs: those that may not be removed, and those whose result a
  needed instruction uses.
\<close>

inductive needed :: "air_function \<Rightarrow> block_id list \<Rightarrow> (block_id \<Rightarrow> inst_id list) \<Rightarrow> inst_id \<Rightarrow> bool"
  for f bs L where
  root: "i \<in> set (all_insts bs L) \<Longrightarrow> \<not> is_removable (inst f i) \<Longrightarrow> needed f bs L i"
| used: "needed f bs L j \<Longrightarrow> i \<in> set (all_insts bs L) \<Longrightarrow> in_result (inst f i) \<in> set (used_values f j) \<Longrightarrow>
          needed f bs L i"

lemma needed_kept:
  assumes "needed f bs L i" "dead_set f bs L D"
  shows "i \<in> set (all_insts bs L) - D"
  using assms by (induction rule: needed.induct) (auto simp: dead_set_def)

end
