(* ===== verification/Air_Fold.thy ===== *)
theory Air_Fold
  imports Air_Dce Float_Arith "HOL-Library.Signed_Division"
begin

text \<open>
  Instruction simplification (\<open>run_instsimplify\<close> of \<open>air/passes_opt.cpp\<close>): constant folding and
  algebraic identities on single instructions, in rounds over the function until none applies.
  A 64-bit signed integer of the source is an integer here, read from its bits by \<open>sint\<close>.
\<close>

section \<open>Constants\<close>

definition numeric_float_format :: "type_id \<Rightarrow> float_format" where
  "numeric_float_format type =
     (if type = types_F32 then IEEEBinary32
      else if type = types_F64 then IEEEBinary64
      else if type = types_F80 then X87Extended80
      else if type = types_F128 then IEEEBinary128
      else FmtInvalid)"

definition numeric_float_value :: "value_data \<Rightarrow> float_value" where
  "numeric_float_value v =
     \<lparr>semantics = numeric_float_format (vd_type v), fv_low_bits = vd_payload v, fv_high_bits = vd_payload2 v\<rparr>"

definition intern_float_result :: "type_id \<Rightarrow> float_result \<Rightarrow> air_function \<Rightarrow> value_id \<times> air_function" where
  "intern_float_result type result f =
     (if \<not> has_value result then (0, f)
      else const_float_bits type (fv_low_bits (fr_value result)) (fv_high_bits (fr_value result)) f)"

record const_bits =
  ci_bits :: u64
  ci_width :: nat

definition air_width_mask :: "nat \<Rightarrow> u64" where
  "air_width_mask width = (if 64 \<le> width then NOT 0 else push_bit width 1 - 1)"

definition sign_extend :: "u64 \<Rightarrow> nat \<Rightarrow> int" where
  "sign_extend bits width =
     (if 64 \<le> width then sint bits
      else let sign = push_bit (width - 1) 1 in sint ((bits XOR sign) - sign))"

definition const_int_of :: "air_function \<Rightarrow> type_table \<Rightarrow> value_id \<Rightarrow> const_bits option" where
  "const_int_of f tt v =
     (let data = value_of f v
      in if vd_kind data \<noteq> ConstInt \<or> \<not> is_int tt (vd_type data) then None
         else let width = unat (int_width tt (vd_type data))
              in if 64 < width then None
                 else Some \<lparr>ci_bits = vd_payload data AND air_width_mask width, ci_width = width\<rparr>)"

function is_bool_valued :: "air_function \<Rightarrow> value_id \<Rightarrow> nat \<Rightarrow> bool" where
  "is_bool_valued f v depth =
     (if 3 < depth then False
      else
        let data = value_of f v
        in if vd_kind data = ConstInt then vd_type data = types_I8 \<and> (vd_payload data = 0 \<or> vd_payload data = 1)
           else if vd_kind data \<noteq> InstResult then False
           else
             let d = inst f (def_inst f v)
             in if in_op d = OpIcmp \<or> in_op d = OpFcmp then True
                else if in_op d = OpSelect then
                  is_bool_valued f (operands f (def_inst f v) ! 1) (depth + 1)
                  \<and> is_bool_valued f (operands f (def_inst f v) ! 2) (depth + 1)
                else False)"
  by pat_completeness auto

termination is_bool_valued
  by (relation "measure (\<lambda>(f, v, depth). 4 - depth)") auto

declare is_bool_valued.simps [simp del]

section \<open>Folding\<close>

definition signed_overflow :: "int \<Rightarrow> int \<Rightarrow> nat \<Rightarrow> bool" where
  "signed_overflow slhs srhs width \<longleftrightarrow>
     srhs = 0 \<or> (slhs = sign_extend (push_bit (width - 1) 1) width \<and> srhs = - 1)"

definition fold_int_binop :: "opcode \<Rightarrow> const_bits \<Rightarrow> const_bits \<Rightarrow> u64 option" where
  "fold_int_binop op lhs rhs =
     (let width = ci_width lhs;
          mask = air_width_mask width;
          l = ci_bits lhs; r = ci_bits rhs;
          slhs = sign_extend l width; srhs = sign_extend r width
      in if op = OpIadd then Some ((l + r) AND mask)
         else if op = OpIsub then Some ((l - r) AND mask)
         else if op = OpImul then Some ((l * r) AND mask)
         else if op = OpIand then Some (l AND r)
         else if op = OpIor then Some (l OR r)
         else if op = OpIxor then Some (l XOR r)
         else if op = OpShl then (if width \<le> unat r then None else Some (push_bit (unat r) l AND mask))
         else if op = OpLshr then (if width \<le> unat r then None else Some (drop_bit (unat r) l))
         else if op = OpAshr then (if width \<le> unat r then None else Some (word_of_int (drop_bit (unat r) slhs) AND mask))
         else if op = OpUdiv then (if r = 0 then None else Some (l div r))
         else if op = OpUrem then (if r = 0 then None else Some (l mod r))
         else if op = OpSdiv then (if signed_overflow slhs srhs width then None else Some (word_of_int (slhs sdiv srhs) AND mask))
         else if op = OpSrem then (if signed_overflow slhs srhs width then None else Some (word_of_int (slhs smod srhs) AND mask))
         else None)"

text \<open>A condition code that is none of the enumeration is \<open>None\<close>.\<close>

definition fold_icmp :: "int_cond option \<Rightarrow> const_bits \<Rightarrow> const_bits \<Rightarrow> bool" where
  "fold_icmp cond lhs rhs =
     (let slhs = sign_extend (ci_bits lhs) (ci_width lhs);
          srhs = sign_extend (ci_bits rhs) (ci_width rhs)
      in case cond of
           Some IEq \<Rightarrow> ci_bits lhs = ci_bits rhs
         | Some INe \<Rightarrow> ci_bits lhs \<noteq> ci_bits rhs
         | Some ISlt \<Rightarrow> slhs < srhs
         | Some ISle \<Rightarrow> slhs \<le> srhs
         | Some ISgt \<Rightarrow> slhs > srhs
         | Some ISge \<Rightarrow> slhs \<ge> srhs
         | Some IUlt \<Rightarrow> ci_bits lhs < ci_bits rhs
         | Some IUle \<Rightarrow> ci_bits lhs \<le> ci_bits rhs
         | Some IUgt \<Rightarrow> ci_bits lhs > ci_bits rhs
         | Some IUge \<Rightarrow> ci_bits lhs \<ge> ci_bits rhs
         | None \<Rightarrow> False)"

section \<open>Simplifying an instruction\<close>

text \<open>
  The result is the value to use instead, the invalid one when nothing applies, and the function
  with any constant that was made.
\<close>

definition is_int_binop :: "opcode \<Rightarrow> bool" where
  "is_int_binop op \<longleftrightarrow>
     op \<in> {OpIadd, OpIsub, OpImul, OpIand, OpIor, OpIxor, OpShl, OpSdiv, OpUdiv, OpSrem, OpUrem, OpAshr, OpLshr}"

definition is_commutative :: "opcode \<Rightarrow> bool" where
  "is_commutative op \<longleftrightarrow> op = OpIadd \<or> op = OpImul \<or> op = OpIand \<or> op = OpIor \<or> op = OpIxor"

text \<open>
  The identities with one constant operand: what becomes of the instruction, \<open>None\<close> when the
  switch falls through. \<open>Inl\<close> is a value, \<open>Inr\<close> a constant of the result type.
\<close>

definition identity :: "opcode \<Rightarrow> const_bits \<Rightarrow> bool \<Rightarrow> value_id \<Rightarrow> (value_id + u64) option" where
  "identity op konst konst_is_rhs v =
     (let all = air_width_mask (ci_width konst); k = ci_bits konst
      in if op = OpIadd \<or> op = OpIxor \<or> op = OpIor then (if k = 0 then Some (Inl v) else None)
         else if op = OpIsub \<or> op = OpShl \<or> op = OpLshr \<or> op = OpAshr
         then (if k = 0 \<and> konst_is_rhs then Some (Inl v) else None)
         else if op = OpImul
         then (if k = 1 then Some (Inl v) else if k = 0 then Some (Inr 0) else None)
         else if op = OpIand
         then (if k = all then Some (Inl v) else if k = 0 then Some (Inr 0) else None)
         else if op = OpUdiv \<or> op = OpSdiv then (if k = 1 \<and> konst_is_rhs then Some (Inl v) else None)
         else None)"

definition same_operand :: "opcode \<Rightarrow> value_id \<Rightarrow> value_id \<Rightarrow> value_id" where
  "same_operand op a b = (if (op = OpIand \<or> op = OpIor) \<and> a = b then a else 0)"

definition simplify_binop :: "type_table \<Rightarrow> inst_id \<Rightarrow> air_function \<Rightarrow> value_id \<times> air_function" where
  "simplify_binop tt i f =
     (let data = inst f i; op = in_op data; a = operands f i ! 0; b = operands f i ! 1;
          lhs = const_int_of f tt a; rhs = const_int_of f tt b;
          folded = (case (lhs, rhs) of (Some l, Some r) \<Rightarrow> fold_int_binop op l r | _ \<Rightarrow> None);
          use_lhs = (rhs = None \<and> is_commutative op \<and> lhs \<noteq> None);
          konst = (if use_lhs then lhs else rhs);
          v = (if use_lhs then b else a)
      in case folded of
           Some bits \<Rightarrow> const_int (in_type data) bits 0 f
         | None \<Rightarrow>
             (case (case konst of None \<Rightarrow> None | Some k \<Rightarrow> identity op k (\<not> use_lhs) v) of
                Some (Inl w) \<Rightarrow> (w, f)
              | Some (Inr bits) \<Rightarrow> const_int (in_type data) bits 0 f
              | None \<Rightarrow> (same_operand op a b, f)))"

text \<open>Comparing a value with itself.\<close>

definition reflexive_true :: "int_cond option \<Rightarrow> bool" where
  "reflexive_true cond \<longleftrightarrow> cond = Some IEq \<or> cond = Some ISle \<or> cond = Some ISge \<or> cond = Some IUle \<or> cond = Some IUge"

definition reflexive_decidable :: "int_cond option \<Rightarrow> bool" where
  "reflexive_decidable cond \<longleftrightarrow> reflexive_true cond \<or> cond = Some INe \<or> cond = Some ISlt \<or> cond = Some ISgt
     \<or> cond = Some IUlt \<or> cond = Some IUgt"

definition simplify_icmp :: "type_table \<Rightarrow> inst_id \<Rightarrow> air_function \<Rightarrow> value_id \<times> air_function" where
  "simplify_icmp tt i f =
     (let cond = cast_enum int_conds (in_aux (inst f i)); a = operands f i ! 0; b = operands f i ! 1;
          lhs = const_int_of f tt a; rhs = const_int_of f tt b
      in if lhs \<noteq> None \<and> rhs \<noteq> None
         then const_int types_I8 (if fold_icmp cond (the lhs) (the rhs) then 1 else 0) 0 f
         else if a = b \<and> \<not> is_float tt (value_type f a) \<and> reflexive_decidable cond
         then const_int types_I8 (if reflexive_true cond then 1 else 0) 0 f
         else if cond = Some INe \<and> rhs \<noteq> None \<and> ci_bits (the rhs) = 0
         then (if is_bool_valued f a 0 then (a, f)
               else if vd_kind (value_of f a) = InstResult \<and> in_op (inst f (def_inst f a)) = OpZext
                       \<and> is_bool_valued f (operands f (def_inst f a) ! 0) 0
               then (operands f (def_inst f a) ! 0, f)
               else (0, f))
         else (0, f))"

definition simplify_int_cast :: "type_table \<Rightarrow> inst_id \<Rightarrow> air_function \<Rightarrow> value_id \<times> air_function" where
  "simplify_int_cast tt i f =
     (let data = inst f i; a = operands f i ! 0; konst = const_int_of f tt a;
          to_width = unat (int_width tt (in_type data))
      in if konst \<noteq> None \<and> to_width \<le> 64
         then let k = the konst;
                  bits = (if in_op data = OpSext then word_of_int (sign_extend (ci_bits k) (ci_width k)) else ci_bits k)
              in const_int (in_type data) (bits AND air_width_mask to_width) 0 f
         else if in_op data = OpTrunc \<and> vd_kind (value_of f a) = InstResult
         then let d = def_inst f a; def_op = in_op (inst f d)
              in if (def_op = OpZext \<or> def_op = OpSext) \<and> value_type f (operands f d ! 0) = in_type data
                 then (operands f d ! 0, f) else (0, f)
         else (0, f))"

definition simplify_float_cast :: "inst_id \<Rightarrow> air_function \<Rightarrow> value_id \<times> air_function" where
  "simplify_float_cast i f =
     (let data = inst f i; source = value_of f (operands f i ! 0); destination = numeric_float_format (in_type data)
      in if vd_kind source = ConstFloat \<and> destination \<noteq> FmtInvalid
         then intern_float_result (in_type data) (convert (numeric_float_value source) destination default_control) f
         else (0, f))"

definition simplify_int_to_float :: "type_table \<Rightarrow> inst_id \<Rightarrow> air_function \<Rightarrow> value_id \<times> air_function" where
  "simplify_int_to_float tt i f =
     (let data = inst f i; destination = numeric_float_format (in_type data)
      in if destination \<noteq> FmtInvalid then
           (case const_int_of f tt (operands f i ! 0) of
              None \<Rightarrow> (0, f)
            | Some k \<Rightarrow> intern_float_result (in_type data)
                (from_integer (ucast (ci_bits k)) (ci_width k) (in_op data = OpSitofp) destination default_control) f)
         else (0, f))"

definition simplify_select :: "type_table \<Rightarrow> inst_id \<Rightarrow> air_function \<Rightarrow> value_id \<times> air_function" where
  "simplify_select tt i f =
     (let data = inst f i; c = operands f i ! 0; a = operands f i ! 1; b = operands f i ! 2; cond = value_of f c
      in if vd_kind cond = ConstInt then ((if vd_payload cond \<noteq> 0 then a else b), f)
         else if a = b then (a, f)
         else (case (const_int_of f tt a, const_int_of f tt b) of
                 (Some t, Some e) \<Rightarrow>
                   if in_type data = types_I8 \<and> ci_bits t = 1 \<and> ci_bits e = 0 \<and> is_bool_valued f c 0 then (c, f)
                   else (0, f)
               | _ \<Rightarrow> (0, f)))"

definition simplify_inst :: "type_table \<Rightarrow> inst_id \<Rightarrow> air_function \<Rightarrow> value_id \<times> air_function" where
  "simplify_inst tt i f =
     (let data = inst f i; op = in_op data; a = operands f i ! 0
      in if is_int_binop op then simplify_binop tt i f
         else if op = OpIcmp then simplify_icmp tt i f
         else if op = OpTrunc \<or> op = OpZext \<or> op = OpSext then simplify_int_cast tt i f
         else if op = OpFpext \<or> op = OpFptrunc then simplify_float_cast i f
         else if op = OpSitofp \<or> op = OpUitofp then simplify_int_to_float tt i f
         else if op = OpBitcast then (if value_type f a = in_type data then (a, f) else (0, f))
         else if op = OpPtrAdd then
           (case const_int_of f tt (operands f i ! 1) of
              Some offset \<Rightarrow> if ci_bits offset = 0 then (a, f) else (0, f)
            | None \<Rightarrow> (0, f))
         else if op = OpSelect then simplify_select tt i f
         else (0, f))"

section \<open>The pass\<close>

definition simplify_visit :: "type_table \<Rightarrow> inst_id \<Rightarrow> bool \<times> air_function \<Rightarrow> bool \<times> air_function" where
  "simplify_visit tt i st =
     (case st of (changed, f) \<Rightarrow>
        let data = inst f i
        in if opcode_result_kind (in_op data) = RValue \<and> in_flags data AND INST_FLAG_VOLATILE = 0 then
             (case simplify_inst tt i f of (simplified, f1) \<Rightarrow>
                if simplified \<noteq> 0 \<and> simplified \<noteq> in_result data
                then (True, remove_inst i (replace_all_uses (in_result data) simplified f1))
                else (changed, f1))
           else (changed, f))"

definition simplify_block :: "type_table \<Rightarrow> block_id \<Rightarrow> bool \<times> air_function \<Rightarrow> (bool \<times> air_function) option" where
  "simplify_block tt b st =
     visit (length (fn_insts (snd st))) (\<lambda>st i. in_next (inst (snd st) i)) (simplify_visit tt)
       (bd_first (block (snd st) b)) st"

definition simplify_round :: "type_table \<Rightarrow> air_function \<Rightarrow> (bool \<times> air_function) option" where
  "simplify_round tt f =
     for_each (length (fn_blocks f)) (\<lambda>st b. bd_next (block (snd st) b)) (simplify_block tt) (fn_entry_block f) (False, f)"

text \<open>Every round but the last removes an instruction.\<close>

fun simplify_rounds :: "type_table \<Rightarrow> nat \<Rightarrow> bool \<Rightarrow> air_function \<Rightarrow> (bool \<times> air_function) option" where
  "simplify_rounds tt 0 changed f = None"
| "simplify_rounds tt (Suc n) changed f =
     (case simplify_round tt f of
        None \<Rightarrow> None
      | Some (round_changed, f') \<Rightarrow> if round_changed then simplify_rounds tt n True f' else Some (changed, f'))"

definition run_instsimplify :: "type_table \<Rightarrow> air_function \<Rightarrow> (bool \<times> air_function) option" where
  "run_instsimplify tt f = simplify_rounds tt (length (fn_insts f)) False f"

end
