(* ===== verification/Air_Fold_Correct.thy ===== *)
theory Air_Fold_Correct
  imports Air_Fold
begin

text \<open>
  Folding on 64-bit words is arithmetic modulo the width of the type, with no result where the
  operation has none, and simplification keeps the value of an instruction.
\<close>

section \<open>Integer operations of a width\<close>

text \<open>The reference: operands are numbers below \<open>2 ^ w\<close>.\<close>

definition to_signed :: "nat \<Rightarrow> int \<Rightarrow> int" where
  "to_signed w a = (if a < 2 ^ (w - 1) then a else a - 2 ^ w)"

definition int_op :: "opcode \<Rightarrow> nat \<Rightarrow> int \<Rightarrow> int \<Rightarrow> int option" where
  "int_op op w a b =
     (let sa = to_signed w a; sb = to_signed w b; wrap = (\<lambda>x. Some (x mod 2 ^ w));
          undefined_division = (sb = 0 \<or> sa = - (2 ^ (w - 1)) \<and> sb = - 1)
      in if op = OpIadd then wrap (a + b)
         else if op = OpIsub then wrap (a - b)
         else if op = OpImul then wrap (a * b)
         else if op = OpIand then Some (a AND b)
         else if op = OpIor then Some (a OR b)
         else if op = OpIxor then Some (a XOR b)
         else if op = OpShl then (if int w \<le> b then None else wrap (a * 2 ^ nat b))
         else if op = OpLshr then (if int w \<le> b then None else Some (a div 2 ^ nat b))
         else if op = OpAshr then (if int w \<le> b then None else wrap (sa div 2 ^ nat b))
         else if op = OpUdiv then (if b = 0 then None else Some (a div b))
         else if op = OpUrem then (if b = 0 then None else Some (a mod b))
         else if op = OpSdiv then (if undefined_division then None else wrap (sgn sa * sgn sb * (\<bar>sa\<bar> div \<bar>sb\<bar>)))
         else if op = OpSrem then (if undefined_division then None else wrap (sgn sa * (\<bar>sa\<bar> mod \<bar>sb\<bar>)))
         else None)"

definition int_cmp :: "int_cond \<Rightarrow> nat \<Rightarrow> int \<Rightarrow> int \<Rightarrow> bool" where
  "int_cmp cond w a b =
     (let sa = to_signed w a; sb = to_signed w b
      in case cond of
           IEq \<Rightarrow> a = b | INe \<Rightarrow> a \<noteq> b | ISlt \<Rightarrow> sa < sb | ISle \<Rightarrow> sa \<le> sb | ISgt \<Rightarrow> sa > sb | ISge \<Rightarrow> sa \<ge> sb
         | IUlt \<Rightarrow> a < b | IUle \<Rightarrow> a \<le> b | IUgt \<Rightarrow> a > b | IUge \<Rightarrow> a \<ge> b)"

lemma and_air_mask:
  "x AND air_width_mask w = take_bit w x"
proof (cases "64 \<le> w")
  case True
  then show ?thesis
    by (simp add: air_width_mask_def take_bit_word_eq_self)
next
  case False
  then show ?thesis
    by (simp add: air_width_mask_def take_bit_eq_mask mask_eq_exp_minus_1 push_bit_eq_mult)
qed

lemma uint_and_air_mask: "w \<le> 64 \<Longrightarrow> uint (x AND air_width_mask w) = uint x mod 2 ^ w"
  unfolding and_air_mask unsigned_take_bit_eq by (simp add: take_bit_eq_mod)

lemma mod_64_width: "w \<le> 64 \<Longrightarrow> x mod 2 ^ 64 mod 2 ^ w = x mod (2 :: int) ^ w"
  by (rule mod_mod_cancel) (rule le_imp_power_dvd)

lemma uint_wrapped: "w \<le> 64 \<Longrightarrow> uint (word_of_int x AND air_width_mask w) = x mod 2 ^ w"
  using mod_64_width [of w x] by (simp add: uint_and_air_mask uint_word_of_int)

lemma to_signed_range:
  assumes "0 < w" "0 \<le> a" "a < 2 ^ w"
  shows "- (2 ^ (w - 1)) \<le> to_signed w a" "to_signed w a < 2 ^ (w - 1)"
proof -
  have "(2 :: int) ^ w = 2 * 2 ^ (w - 1)"
    using assms(1) by (cases w) simp_all
  then show "- (2 ^ (w - 1)) \<le> to_signed w a" "to_signed w a < 2 ^ (w - 1)"
    using assms by (simp_all add: to_signed_def)
qed

lemma sint_of_range:
  assumes "- (2 ^ 63) \<le> z" "z < 2 ^ 63"
  shows "sint (word_of_int z :: u64) = z"
  using assms by (simp add: sint_sbintrunc' signed_take_bit_int_eq_self)

lemma bit_top_iff:
  assumes "0 \<le> a" "a < 2 ^ Suc k"
  shows "bit a k \<longleftrightarrow> 2 ^ k \<le> (a :: int)"
proof -
  have "a div 2 ^ k = (if 2 ^ k \<le> a then 1 else 0)"
    using assms by (auto simp: int_div_pos_eq [of a "2 ^ k" 1 "a - 2 ^ k"] div_pos_pos_trivial)
  then show ?thesis
    by (simp add: bit_iff_odd)
qed

lemma to_signed_word:
  assumes "0 < w" "w \<le> 64" "uint x < 2 ^ w"
  shows "sign_extend x w = to_signed w (uint x)"
proof -
  have r: "- (2 ^ 63) \<le> to_signed w (uint x)" "to_signed w (uint x) < 2 ^ 63"
  proof -
    have "(2 :: int) ^ (w - 1) \<le> 2 ^ 63"
      using assms by (intro power_increasing) auto
    then show "- (2 ^ 63) \<le> to_signed w (uint x)" "to_signed w (uint x) < 2 ^ 63"
      using to_signed_range [of w "uint x"] assms by force+
  qed
  have two: "(2 :: int) ^ w = 2 * 2 ^ (w - 1)"
    using assms(1) by (cases w) simp_all
  show ?thesis
  proof (cases "64 \<le> w")
    case True
    then have w: "w = 64"
      using assms by simp
    have "x = word_of_int (to_signed 64 (uint x))"
      by (simp add: to_signed_def)
    then show ?thesis
      using sint_of_range [OF r] w by (simp add: sign_extend_def)
  next
    case False
    let ?s = "push_bit (w - 1) 1 :: u64"
    have bit: "bit x (w - 1) \<longleftrightarrow> 2 ^ (w - 1) \<le> uint x"
      using bit_top_iff [of "uint x" "w - 1"] assms by (simp add: bit_unsigned_iff bit_uint_iff)
    have "x XOR ?s = (if bit x (w - 1) then x - 2 ^ (w - 1) else x + 2 ^ (w - 1))"
      using flip_bit_eq_if [of "w - 1" x] by (simp add: flip_bit_eq_xor set_bit_eq unset_bit_eq push_bit_eq_mult)
    then have "(x XOR ?s) - ?s = (if bit x (w - 1) then x - 2 * 2 ^ (w - 1) else x)"
      by (simp add: push_bit_eq_mult)
    also have "\<dots> = word_of_int (to_signed w (uint x))"
      using bit by (simp add: to_signed_def two not_le)
    finally show ?thesis
      using False sint_of_range [OF r] by (simp add: sign_extend_def Let_def)
  qed
qed

lemma signed_overflow_iff:
  assumes "0 < w" "w \<le> 64" "uint l < 2 ^ w" "uint r < 2 ^ w"
  shows "signed_overflow (sign_extend l w) (sign_extend r w) w \<longleftrightarrow>
    to_signed w (uint r) = 0 \<or> to_signed w (uint l) = - (2 ^ (w - 1)) \<and> to_signed w (uint r) = - 1"
proof -
  have "uint (push_bit (w - 1) 1 :: u64) = 2 ^ (w - 1)"
    using unat_exp2 [of "w - 1", where 'a = 64] assms(1,2) by (simp add: uint_nat push_bit_eq_mult)
  moreover have "(2 :: int) ^ w = 2 * 2 ^ (w - 1)"
    using assms(1) by (cases w) simp_all
  ultimately have "sign_extend (push_bit (w - 1) 1) w = - (2 ^ (w - 1))"
    using to_signed_word [of w "push_bit (w - 1) 1"] assms by (simp add: to_signed_def)
  then show ?thesis
    using assms by (simp add: signed_overflow_def to_signed_word)
qed

lemma fold_wrapped:
  assumes "w \<le> 64"
  shows "uint ((l + r) AND air_width_mask w) = (uint l + uint r) mod 2 ^ w"
    "uint ((l - r) AND air_width_mask w) = (uint l - uint r) mod 2 ^ w"
    "uint ((l * r) AND air_width_mask w) = (uint l * uint r) mod 2 ^ w"
    "uint (push_bit n l AND air_width_mask w) = (uint l * 2 ^ n) mod 2 ^ w"
proof -
  have "l + r = word_of_int (uint l + uint r)" "l - r = word_of_int (uint l - uint r)"
    "l * r = word_of_int (uint l * uint r)" "push_bit n l = word_of_int (uint l * 2 ^ n)"
    by (simp_all add: push_bit_eq_mult)
  then show "uint ((l + r) AND air_width_mask w) = (uint l + uint r) mod 2 ^ w"
    "uint ((l - r) AND air_width_mask w) = (uint l - uint r) mod 2 ^ w"
    "uint ((l * r) AND air_width_mask w) = (uint l * uint r) mod 2 ^ w"
    "uint (push_bit n l AND air_width_mask w) = (uint l * 2 ^ n) mod 2 ^ w"
    using uint_wrapped [OF assms] by metis+
qed

lemma fold_binop_int_op:
  assumes w: "0 < w" "w \<le> 64" and l: "uint l < 2 ^ w" and r: "uint r < 2 ^ w"
  shows "map_option uint (fold_int_binop op \<lparr>ci_bits = l, ci_width = w\<rparr> \<lparr>ci_bits = r, ci_width = w\<rparr>) = int_op op w (uint l) (uint r)"
proof -
  note sx = to_signed_word [OF w l] to_signed_word [OF w r]
  note ovf = signed_overflow_iff [OF w l r, unfolded sx]
  have shift: "w \<le> nat (uint r) \<longleftrightarrow> int w \<le> uint r"
    by (rule le_nat_iff) simp
  have r0: "r = 0 \<longleftrightarrow> uint r = 0"
    by (simp add: word_uint_eq_iff)
  have sdiv: "a sdiv b = sgn a * sgn b * (\<bar>a\<bar> div \<bar>b\<bar>)" "a smod b = sgn a * (\<bar>a\<bar> mod \<bar>b\<bar>)" for a b :: int
    by (simp_all add: signed_divide_int_def signed_modulo_int_def)
  have plain: "uint (l AND r) = uint l AND uint r" "uint (l OR r) = uint l OR uint r"
    "uint (l XOR r) = uint l XOR uint r" "uint (l div r) = uint l div uint r" "uint (l mod r) = uint l mod uint r"
    by (simp_all add: unsigned_and_eq unsigned_or_eq unsigned_xor_eq uint_div uint_mod)
  have lshr: "uint (drop_bit n l) = uint l div 2 ^ n" for n
    by (simp only: uint_nat unat_drop_bit_div zdiv_int of_nat_power of_nat_numeral)
  show ?thesis
    unfolding fold_int_binop_def int_op_def Let_def const_bits.simps sx ovf sdiv unat_eq_nat_uint shift
    by (simp only: if_distrib [of "map_option uint"] option.map fold_wrapped [OF w(2)] drop_bit_eq_div [where 'a = int] uint_wrapped [OF w(2)] plain lshr r0)
qed

lemma fold_icmp_int_cmp:
  assumes w: "0 < w" "w \<le> 64" and l: "uint l < 2 ^ w" and r: "uint r < 2 ^ w"
  shows "fold_icmp (Some cond) \<lparr>ci_bits = l, ci_width = w\<rparr> \<lparr>ci_bits = r, ci_width = w\<rparr> = int_cmp cond w (uint l) (uint r)"
  using to_signed_word [OF w l] to_signed_word [OF w r]
  by (cases cond) (auto simp: fold_icmp_def int_cmp_def Let_def word_uint_eq_iff word_less_def word_le_def)

end
