(* ===== verification/Air_Verify.thy ===== *)
theory Air_Verify
  imports Air_Function
begin

text \<open>
  The typing rules of the AIR verifier (\<open>air/verifier.cpp\<close>) for the instructions that compute a
  scalar from scalars, and its rule for constants. A rule is a predicate: it holds when the
  verifier reports no error for it.
\<close>

definition int_width_allowed :: "nat \<Rightarrow> bool" where
  "int_width_allowed width \<longleftrightarrow> width \<in> {8, 16, 32, 64, 128}"

primrec float_kind_allowed :: "float_kind \<Rightarrow> bool" where
  "float_kind_allowed KF32 = True" | "float_kind_allowed KF64 = True"
| "float_kind_allowed KF128 = True" | "float_kind_allowed KF80 = True"

primrec float_bit_width :: "float_kind \<Rightarrow> nat" where
  "float_bit_width KF32 = 32" | "float_bit_width KF64 = 64" | "float_bit_width KF128 = 128" | "float_bit_width KF80 = 80"

definition width_of :: "type_table \<Rightarrow> type_id \<Rightarrow> nat" where
  "width_of tt ty = unat (int_width tt ty)"

definition check_value_type :: "type_table \<Rightarrow> type_id \<Rightarrow> bool" where
  "check_value_type tt ty \<longleftrightarrow>
     (if \<not> type_valid tt ty then False
      else if is_void tt ty then False
      else (is_int tt ty \<longrightarrow> int_width_allowed (width_of tt ty))
         \<and> (is_float tt ty \<longrightarrow> float_kind_allowed (td_float_kind (type_of tt ty))))"

definition canonical_int_bits :: "type_table \<Rightarrow> value_data \<Rightarrow> bool" where
  "canonical_int_bits tt value \<longleftrightarrow>
     is_int tt (vd_type value)
     \<and> (let width = width_of tt (vd_type value)
        in if width < 64 then vd_payload2 value = 0 \<and> drop_bit width (vd_payload value) = 0
           else if width = 64 then vd_payload2 value = 0
           else if width < 128 then drop_bit (width - 64) (vd_payload2 value) = 0
           else True)"

definition canonical_float_bits :: "type_table \<Rightarrow> value_data \<Rightarrow> bool" where
  "canonical_float_bits tt value \<longleftrightarrow>
     is_float tt (vd_type value)
     \<and> (case td_float_kind (type_of tt (vd_type value)) of
          KF32 \<Rightarrow> vd_payload2 value = 0 \<and> drop_bit 32 (vd_payload value) = 0
        | KF64 \<Rightarrow> vd_payload2 value = 0
        | KF80 \<Rightarrow> drop_bit 16 (vd_payload2 value) = 0
        | KF128 \<Rightarrow> True)"

definition check_operand_value :: "type_table \<Rightarrow> air_function \<Rightarrow> value_id \<Rightarrow> bool" where
  "check_operand_value tt f v \<longleftrightarrow>
     valid_value f v
     \<and> (let value = value_of f v
        in (vd_kind value = ConstInt \<longrightarrow> canonical_int_bits tt value)
         \<and> (vd_kind value = ConstFloat \<longrightarrow> canonical_float_bits tt value)
         \<and> (vd_kind value = LabelAddr \<longrightarrow>
              valid_block f (unat (ucast (vd_payload value) :: u32))
              \<and> bd_param_count (block f (unat (ucast (vd_payload value) :: u32))) = 0))"

definition check_operand_values :: "type_table \<Rightarrow> air_function \<Rightarrow> inst_id \<Rightarrow> bool" where
  "check_operand_values tt f i \<longleftrightarrow> (\<forall>v \<in> set (operands f i). check_operand_value tt f v)"

definition op_type :: "air_function \<Rightarrow> inst_id \<Rightarrow> nat \<Rightarrow> type_id" where
  "op_type f i index = value_type f (operands f i ! index)"

definition size_int_type :: "nat \<Rightarrow> type_id" where
  "size_int_type pointer_width = (if pointer_width = 64 then types_I64 else types_I32)"

definition scalar_bits :: "type_table \<Rightarrow> type_id \<Rightarrow> nat" where
  "scalar_bits tt ty =
     (if td_kind (type_of tt ty) = TInt then width_of tt ty else float_bit_width (td_float_kind (type_of tt ty)))"

text \<open>The part of the switch over the opcodes that concerns arithmetic, comparisons, casts and selections.\<close>

definition check_scalar_inst :: "nat \<Rightarrow> type_table \<Rightarrow> air_function \<Rightarrow> inst_id \<Rightarrow> bool" where
  "check_scalar_inst pointer_width tt f i \<longleftrightarrow>
     (let data = inst f i; op = in_op data; ty = in_type data; t = op_type f i
      in if op \<in> {OpIadd, OpIsub, OpImul, OpIand, OpIor, OpIxor, OpShl, OpSdiv, OpUdiv, OpSrem, OpUrem, OpAshr, OpLshr}
         then is_int tt (t 0) \<and> t 1 = t 0 \<and> ty = t 0
         else if op \<in> {OpBswap, OpClz, OpCtz, OpPopcnt}
         then is_int tt (t 0) \<and> ty = t 0 \<and> (op = OpBswap \<longrightarrow> width_of tt (t 0) mod 16 = 0)
         else if op \<in> {OpFadd, OpFsub, OpFmul, OpFdiv, OpFrem} then is_float tt (t 0) \<and> t 1 = t 0 \<and> ty = t 0
         else if op = OpFneg then is_float tt (t 0) \<and> ty = t 0
         else if op = OpIcmp
         then (is_int tt (t 0) \<or> is_ptr tt (t 0)) \<and> t 1 = t 0 \<and> ty = types_I8 \<and> unat (in_aux data) \<le> enum_code int_conds IUge
         else if op = OpFcmp
         then is_float tt (t 0) \<and> t 1 = t 0 \<and> ty = types_I8 \<and> unat (in_aux data) \<le> enum_code float_conds FUge
         else if op \<in> {OpTrunc, OpZext, OpSext}
         then is_int tt (t 0) \<and> is_int tt ty
              \<and> (if op = OpTrunc then width_of tt ty < width_of tt (t 0) else width_of tt (t 0) < width_of tt ty)
         else if op \<in> {OpFptrunc, OpFpext}
         then is_float tt (t 0) \<and> is_float tt ty
              \<and> (let from = float_bit_width (td_float_kind (type_of tt (t 0))); to = float_bit_width (td_float_kind (type_of tt ty))
                 in if op = OpFptrunc then to < from else from < to)
         else if op \<in> {OpFptosi, OpFptoui} then is_float tt (t 0) \<and> is_int tt ty
         else if op \<in> {OpSitofp, OpUitofp} then is_int tt (t 0) \<and> is_float tt ty
         else if op = OpPtrtoint then is_ptr tt (t 0) \<and> is_int tt ty
         else if op = OpInttoptr then is_int tt (t 0) \<and> is_ptr tt ty
         else if op = OpBitcast
         then \<not> is_ptr tt (t 0) \<and> \<not> is_ptr tt ty \<and> is_scalar tt (t 0) \<and> is_scalar tt ty
              \<and> scalar_bits tt (t 0) = scalar_bits tt ty
         else if op = OpPtrAdd then is_ptr tt (t 0) \<and> t 1 = size_int_type pointer_width \<and> ty = t 0
         else if op = OpSelect then t 0 = types_I8 \<and> t 2 = t 1 \<and> ty = t 1
         else True)"

definition check_volatile_flag :: "air_function \<Rightarrow> inst_id \<Rightarrow> bool" where
  "check_volatile_flag f i \<longleftrightarrow>
     in_flags (inst f i) AND INST_FLAG_VOLATILE = 0
     \<or> in_op (inst f i) \<in> {OpLoad, OpStore, OpAtomicLoad, OpAtomicStore}"

definition check_value_inst :: "nat \<Rightarrow> type_table \<Rightarrow> air_function \<Rightarrow> inst_id \<Rightarrow> bool" where
  "check_value_inst pointer_width tt f i \<longleftrightarrow>
     (let data = inst f i; expected_ops = opcode_operand_count (in_op data)
      in if 0 \<le> expected_ops \<and> int (length (operands f i)) \<noteq> expected_ops then False
         else if \<not> check_operand_values tt f i then False
         else check_volatile_flag f i
            \<and> (in_result data \<noteq> 0 \<longrightarrow> check_value_type tt (in_type data))
            \<and> (\<forall>v \<in> set (operands f i). check_value_type tt (value_type f v))
            \<and> check_scalar_inst pointer_width tt f i)"

end
