(* ===== verification/Air_Simplify_Sound.thy ===== *)
theory Air_Simplify_Sound
  imports Air_Fold_Correct Air_Verify Float_Integer_Correct
begin

text \<open>
  Simplification keeps values: a reference evaluation of the instructions the pass rewrites, the
  environments in which an instruction is executed, and that the value \<open>simplify_inst\<close> returns
  denotes what the instruction computes.
\<close>

section \<open>Evaluation\<close>

datatype air_value = AInt int | AFloat float_value | APtr int

text \<open>Constants denote themselves, other values what the environment gives.\<close>

definition den :: "air_function \<Rightarrow> (value_id \<Rightarrow> air_value) \<Rightarrow> value_id \<Rightarrow> air_value" where
  "den f env v =
     (let d = value_of f v
      in case vd_kind d of
           ConstInt \<Rightarrow> AInt (uint (vd_payload d) + 2 ^ 64 * uint (vd_payload2 d))
         | ConstFloat \<Rightarrow> AFloat (numeric_float_value d)
         | _ \<Rightarrow> env v)"

text \<open>
  The value an instruction computes; \<open>None\<close> where it has none that can be relied on (division by
  zero, an overlong shift) or where the instruction is none of those the pass rewrites.
\<close>

definition eval_inst :: "nat \<Rightarrow> type_table \<Rightarrow> air_function \<Rightarrow> (value_id \<Rightarrow> air_value) \<Rightarrow> inst_id \<Rightarrow> air_value option" where
  "eval_inst pw tt f env i =
     (let data = inst f i; op = in_op data; ty = in_type data; arg = (\<lambda>k. den f env (operands f i ! k));
          from_width = width_of tt (op_type f i 0); width = width_of tt ty; format = numeric_float_format ty
      in if is_int_binop op
         then (case (arg 0, arg 1) of (AInt a, AInt b) \<Rightarrow> map_option AInt (int_op op width a b) | _ \<Rightarrow> None)
         else if op = OpIcmp
         then (case (cast_enum int_conds (in_aux data), arg 0, arg 1) of
                 (Some c, AInt a, AInt b) \<Rightarrow> Some (AInt (of_bool (int_cmp c from_width a b)))
               | (Some c, APtr a, APtr b) \<Rightarrow> Some (AInt (of_bool (int_cmp c pw a b)))
               | _ \<Rightarrow> None)
         else if op = OpTrunc then (case arg 0 of AInt a \<Rightarrow> Some (AInt (a mod 2 ^ width)) | _ \<Rightarrow> None)
         else if op = OpZext then (case arg 0 of AInt a \<Rightarrow> Some (AInt a) | _ \<Rightarrow> None)
         else if op = OpSext then (case arg 0 of AInt a \<Rightarrow> Some (AInt (to_signed from_width a mod 2 ^ width)) | _ \<Rightarrow> None)
         else if op = OpFpext \<or> op = OpFptrunc
         then (case arg 0 of AFloat x \<Rightarrow> Some (AFloat (fr_value (convert x format default_control))) | _ \<Rightarrow> None)
         else if op = OpSitofp \<or> op = OpUitofp
         then (case arg 0 of
                 AInt a \<Rightarrow> Some (AFloat (fr_value (from_integer (word_of_int a) from_width (op = OpSitofp) format default_control)))
               | _ \<Rightarrow> None)
         else if op = OpBitcast then (if op_type f i 0 = ty then Some (arg 0) else None)
         else if op = OpPtrAdd then (case (arg 0, arg 1) of (APtr p, AInt n) \<Rightarrow> Some (APtr ((p + n) mod 2 ^ pw)) | _ \<Rightarrow> None)
         else if op = OpSelect then (case arg 0 of AInt c \<Rightarrow> Some (if c \<noteq> 0 then arg 1 else arg 2) | _ \<Rightarrow> None)
         else None)"

text \<open>A value of a type.\<close>

definition fits :: "nat \<Rightarrow> type_table \<Rightarrow> type_id \<Rightarrow> air_value \<Rightarrow> bool" where
  "fits pw tt ty x \<longleftrightarrow>
     (is_int tt ty \<longrightarrow> (\<exists>a. x = AInt a \<and> 0 \<le> a \<and> a < 2 ^ width_of tt ty))
     \<and> (is_ptr tt ty \<longrightarrow> (\<exists>p. x = APtr p \<and> 0 \<le> p \<and> p < 2 ^ pw))
     \<and> (is_float tt ty \<longrightarrow> (\<exists>v. x = AFloat v))"

text \<open>
  The values an instruction may see when it runs: a set closed under the operands of their
  definitions, each of its type, and each result what its instruction computes from the others.
  A comparison of floats is zero or one, whatever it compares.
\<close>

definition consistent ::
  "nat \<Rightarrow> type_table \<Rightarrow> air_function \<Rightarrow> (value_id \<Rightarrow> air_value) \<Rightarrow> value_id set \<Rightarrow> bool" where
  "consistent pw tt f env S \<longleftrightarrow>
     (\<forall>v \<in> S. check_operand_value tt f v \<and> check_value_type tt (value_type f v)
        \<and> fits pw tt (value_type f v) (den f env v)
        \<and> (vd_kind (value_of f v) = InstResult \<longrightarrow>
             (let d = def_inst f v
              in check_value_inst pw tt f d \<and> set (operands f d) \<subseteq> S \<and> in_type (inst f d) = value_type f v
                 \<and> (case eval_inst pw tt f env d of Some x \<Rightarrow> env v = x | None \<Rightarrow> True)
                 \<and> (in_op (inst f d) = OpFcmp \<longrightarrow> env v = AInt 0 \<or> env v = AInt 1))))"

text \<open>The types the pass names by their fixed identifiers.\<close>

definition known_types :: "type_table \<Rightarrow> bool" where
  "known_types tt \<longleftrightarrow> type_of tt types_I8 = int_type 8 \<and> type_of tt types_I32 = int_type 32 \<and> type_of tt types_I64 = int_type 64
     \<and> type_of tt types_F32 = float_type KF32 \<and> type_of tt types_F64 = float_type KF64
     \<and> type_of tt types_F80 = float_type KF80 \<and> type_of tt types_F128 = float_type KF128"

section \<open>Constants\<close>

lemma allowed_width: "check_value_type tt ty \<Longrightarrow> is_int tt ty \<Longrightarrow> 0 < width_of tt ty \<and> width_of tt ty \<le> 128"
  by (auto simp: check_value_type_def int_width_allowed_def split: if_splits)

lemma const_int_of_den:
  assumes c: "consistent pw tt f env S" "v \<in> S" and k: "const_int_of f tt v = Some k"
  shows "den f env v = AInt (uint (ci_bits k))" "ci_width k = width_of tt (value_type f v)" "is_int tt (value_type f v)"
    "0 < ci_width k" "ci_width k \<le> 64" "uint (ci_bits k) < 2 ^ ci_width k"
proof -
  let ?d = "value_of f v" and ?w = "width_of tt (value_type f v)"
  have d: "vd_kind ?d = ConstInt" "is_int tt (vd_type ?d)" "?w \<le> 64" "k = \<lparr>ci_bits = vd_payload ?d AND air_width_mask ?w, ci_width = ?w\<rparr>"
    using k by (auto simp: const_int_of_def Let_def value_type_def width_of_def split: if_splits)
  have ok: "canonical_int_bits tt ?d" "check_value_type tt (value_type f v)"
    using c d(1) by (auto simp: consistent_def check_operand_value_def Let_def)
  have pos: "0 < ?w"
    using allowed_width [OF ok(2)] d(2) by (simp add: value_type_def)
  have "uint (vd_payload ?d) < 2 ^ ?w \<and> vd_payload2 ?d = 0"
  proof (cases "?w < 64")
    case True
    then have "drop_bit ?w (vd_payload ?d) = 0" "vd_payload2 ?d = 0"
      using ok(1) by (simp_all add: canonical_int_bits_def Let_def value_type_def)
    then have "unat (vd_payload ?d) div 2 ^ ?w = 0"
      by (metis unat_drop_bit_div unat_0)
    then have "unat (vd_payload ?d) < 2 ^ ?w"
      by (simp add: div_eq_0_iff)
    then show ?thesis
      using \<open>vd_payload2 ?d = 0\<close> by (metis of_nat_less_iff of_nat_numeral of_nat_power uint_nat)
  next
    case False
    then have "?w = 64"
      using d(3) by simp
    then show ?thesis
      using ok(1) unsigned_less [of "vd_payload ?d", where 'a = int] by (simp add: canonical_int_bits_def Let_def value_type_def)
  qed
  moreover from this have "uint (vd_payload ?d AND air_width_mask ?w) = uint (vd_payload ?d)"
    using uint_and_air_mask [OF d(3)] by simp
  ultimately show "den f env v = AInt (uint (ci_bits k))" "ci_width k = width_of tt (value_type f v)" "is_int tt (value_type f v)"
    "0 < ci_width k" "ci_width k \<le> 64" "uint (ci_bits k) < 2 ^ ci_width k"
    using d pos by (simp_all add: den_def Let_def value_type_def)
qed

lemma const_int_den:
  assumes "constants_inv f" "const_int ty bits 0 f = (v, f')"
  shows "den f' env v = AInt (uint bits)" "value_type f' v = ty"
  using intern_constant_effect(3) [OF assms(1) assms(2) [unfolded const_int_def]]
  by (simp_all add: den_def value_type_def Let_def)

section \<open>Operands of checked instructions\<close>

lemma operand_in:
  assumes "check_value_inst pw tt f i" "set (operands f i) \<subseteq> S" "opcode_operand_count (in_op (inst f i)) = int n" "k < n"
  shows "operands f i ! k \<in> S"
proof -
  have "length (operands f i) = n"
    using assms(1,3) by (auto simp: check_value_inst_def Let_def split: if_splits)
  then show ?thesis
    using assms(2,4) by (simp add: subset_iff)
qed

lemma operand_counts:
  "is_int_binop op \<Longrightarrow> opcode_operand_count op = int 2"
  "opcode_operand_count OpIcmp = int 2" "opcode_operand_count OpFcmp = int 2" "opcode_operand_count OpPtrAdd = int 2"
  "opcode_operand_count OpTrunc = int 1" "opcode_operand_count OpZext = int 1" "opcode_operand_count OpSext = int 1"
  "opcode_operand_count OpFpext = int 1" "opcode_operand_count OpFptrunc = int 1" "opcode_operand_count OpSitofp = int 1"
  "opcode_operand_count OpUitofp = int 1" "opcode_operand_count OpBitcast = int 1" "opcode_operand_count OpSelect = int 3"
  by (auto simp: opcode_operand_count_def is_int_binop_def mk_traits_def)

lemma checked_scalar: "check_value_inst pw tt f i \<Longrightarrow> check_scalar_inst pw tt f i"
  by (auto simp: check_value_inst_def Let_def split: if_splits)

lemma consistentD:
  assumes "consistent pw tt f env S" "v \<in> S"
  shows "fits pw tt (value_type f v) (den f env v)" "check_value_type tt (value_type f v)" "check_operand_value tt f v"
  using assms by (auto simp: consistent_def)

lemma consistent_result:
  assumes "consistent pw tt f env S" "v \<in> S" "vd_kind (value_of f v) = InstResult"
  shows "check_value_inst pw tt f (def_inst f v)" "set (operands f (def_inst f v)) \<subseteq> S"
    "in_type (inst f (def_inst f v)) = value_type f v"
    "eval_inst pw tt f env (def_inst f v) = Some x \<Longrightarrow> den f env v = x"
    "in_op (inst f (def_inst f v)) = OpFcmp \<Longrightarrow> den f env v = AInt 0 \<or> den f env v = AInt 1"
  using assms by (auto simp: consistent_def Let_def den_def)

lemma fits_intD: "fits pw tt ty x \<Longrightarrow> is_int tt ty \<Longrightarrow> \<exists>a. x = AInt a \<and> 0 \<le> a \<and> a < 2 ^ width_of tt ty"
  by (simp add: fits_def)

lemma fits_ptrD: "fits pw tt ty x \<Longrightarrow> is_ptr tt ty \<Longrightarrow> \<exists>p. x = APtr p \<and> 0 \<le> p \<and> p < 2 ^ pw"
  by (simp add: fits_def)

lemma known_I8: "known_types tt \<Longrightarrow> is_int tt types_I8 \<and> width_of tt types_I8 = 8"
  by (simp add: known_types_def is_int_def width_of_def int_width_def int_type_def)

lemma cond_code:
  assumes "unat (aux :: u64) \<le> enum_code int_conds IUge"
  shows "\<exists>c. cast_enum int_conds aux = Some c"
proof -
  have "unat aux \<le> 9"
    using assms by (simp add: enum_code_def int_conds_def)
  then have "unat (ucast aux :: u8) \<le> 9"
    by (simp add: unat_ucast_down)
  then show ?thesis
    by (simp add: cast_enum_def enum_of_def int_conds_def)
qed

text \<open>A comparison always has a value, zero or one.\<close>

lemma eval_icmp:
  assumes c: "consistent pw tt f env S" and i: "check_value_inst pw tt f i" "set (operands f i) \<subseteq> S" "in_op (inst f i) = OpIcmp"
  shows "\<exists>b. eval_inst pw tt f env i = Some (AInt (of_bool b))"
proof -
  have S: "operands f i ! 0 \<in> S" "operands f i ! 1 \<in> S"
    using operand_in [OF i(1,2), of 2] i(3) by (simp_all add: operand_counts)
  have t: "is_int tt (op_type f i 0) \<or> is_ptr tt (op_type f i 0)" "op_type f i 1 = op_type f i 0"
      "unat (in_aux (inst f i)) \<le> enum_code int_conds IUge"
    using checked_scalar [OF i(1)] i(3) by (simp_all add: check_scalar_inst_def Let_def)
  obtain c where cc: "cast_enum int_conds (in_aux (inst f i)) = Some c"
    using cond_code [OF t(3)] by blast
  note fit = consistentD(1) [OF c S(1)] consistentD(1) [OF c S(2)]
  consider a b where "den f env (operands f i ! 0) = AInt a" "den f env (operands f i ! 1) = AInt b"
    | a b where "den f env (operands f i ! 0) = APtr a" "den f env (operands f i ! 1) = APtr b"
    using t(1,2) fits_intD [OF fit(1)] fits_intD [OF fit(2)] fits_ptrD [OF fit(1)] fits_ptrD [OF fit(2)]
    by (auto simp: op_type_def)
  then show ?thesis
    by cases (auto simp: eval_inst_def Let_def i(3) is_int_binop_def cc)
qed

text \<open>A select takes one of its two inputs.\<close>

lemma eval_select:
  assumes c: "consistent pw tt f env S" and k: "known_types tt"
    and i: "check_value_inst pw tt f i" "set (operands f i) \<subseteq> S" "in_op (inst f i) = OpSelect"
  shows "\<exists>c. den f env (operands f i ! 0) = AInt c \<and> eval_inst pw tt f env i =
      Some (if c \<noteq> 0 then den f env (operands f i ! 1) else den f env (operands f i ! 2))"
proof -
  have S: "operands f i ! 0 \<in> S"
    using operand_in [OF i(1,2), of 3] i(3) by (simp add: operand_counts)
  have "op_type f i 0 = types_I8"
    using checked_scalar [OF i(1)] i(3) by (simp add: check_scalar_inst_def Let_def)
  then obtain a where "den f env (operands f i ! 0) = AInt a"
    using fits_intD [OF consistentD(1) [OF c S]] known_I8 [OF k] by (auto simp: op_type_def)
  then show ?thesis
    by (simp add: eval_inst_def Let_def i(3) is_int_binop_def)
qed

lemma is_bool_valued_den:
  "is_bool_valued f v depth \<Longrightarrow> v \<in> S \<Longrightarrow> consistent pw tt f env S \<Longrightarrow> known_types tt \<Longrightarrow>
    (den f env v = AInt 0 \<or> den f env v = AInt 1) \<and> value_type f v = types_I8"
proof (induction f v depth rule: is_bool_valued.induct)
  case (1 f v depth)
  let ?d = "value_of f v" and ?i = "def_inst f v"
  note b = 1(3) [unfolded is_bool_valued.simps [of f v depth] Let_def]
  have depth: "\<not> 3 < depth"
    using b by auto
  consider (const) "vd_kind ?d = ConstInt" | (res) "vd_kind ?d = InstResult"
    using b by (auto split: if_splits)
  then show ?case
  proof cases
    case const
    then have d: "vd_type ?d = types_I8" "vd_payload ?d = 0 \<or> vd_payload ?d = 1"
      using b depth by (auto split: if_splits)
    have "canonical_int_bits tt ?d"
      using consistentD(3) [OF 1(5,4)] const by (simp add: check_operand_value_def Let_def)
    then have "vd_payload2 ?d = 0"
      using known_I8 [OF 1(6)] d(1) by (simp add: canonical_int_bits_def)
    then show ?thesis
      using d const by (auto simp: den_def value_type_def Let_def)
  next
    case res
    note r = consistent_result [OF 1(5,4) res]
    consider (icmp) "in_op (inst f ?i) = OpIcmp" | (fcmp) "in_op (inst f ?i) = OpFcmp" | (sel) "in_op (inst f ?i) = OpSelect"
      using b depth res by (auto split: if_splits)
    then show ?thesis
    proof cases
      case icmp
      then obtain z where "den f env v = AInt (of_bool z)"
        using eval_icmp [OF 1(5) r(1,2)] r(4) by blast
      moreover have "in_type (inst f ?i) = types_I8"
        using checked_scalar [OF r(1)] icmp by (simp add: check_scalar_inst_def Let_def)
      ultimately show ?thesis
        using r(3) by (cases z) simp_all
    next
      case fcmp
      then have "in_type (inst f ?i) = types_I8"
        using checked_scalar [OF r(1)] by (simp add: check_scalar_inst_def Let_def)
      then show ?thesis
        using r(3,5) fcmp by simp
    next
      case sel
      have S: "operands f ?i ! 1 \<in> S" "operands f ?i ! 2 \<in> S"
        using operand_in [OF r(1,2), of 3] sel by (simp_all add: operand_counts)
      have arms: "is_bool_valued f (operands f ?i ! 1) (depth + 1)" "is_bool_valued f (operands f ?i ! 2) (depth + 1)"
        using b depth res sel by auto
      have ty: "in_type (inst f ?i) = value_type f (operands f ?i ! 1)"
        using checked_scalar [OF r(1)] sel by (simp add: check_scalar_inst_def Let_def op_type_def)
      obtain c :: int where "den f env v = (if c \<noteq> 0 then den f env (operands f ?i ! 1) else den f env (operands f ?i ! 2))"
        using eval_select [OF 1(5,6) r(1,2) sel] r(4) by blast
      moreover note 1(1) [OF depth refl _ _ refl _ sel arms(1) S(1) 1(5,6)] 1(2) [OF depth refl _ _ refl _ sel arms(2) S(2) 1(5,6)]
      ultimately show ?thesis
        using res sel r(3) ty by (auto split: if_splits)
    qed
  qed
qed

section \<open>Each kind of instruction\<close>

text \<open>The result denotes \<open>x\<close> and has the type of the instruction.\<close>

definition yields :: "air_function \<Rightarrow> (value_id \<Rightarrow> air_value) \<Rightarrow> inst_id \<Rightarrow> value_id \<times> air_function \<Rightarrow> air_value \<Rightarrow> bool" where
  "yields f env i r x \<longleftrightarrow> (case r of (v, f') \<Rightarrow> den f' env v = x \<and> value_type f' v = in_type (inst f i))"

text \<open>The situation of every case below: an instruction the verifier accepts, about to run.\<close>

definition runs :: "nat \<Rightarrow> type_table \<Rightarrow> air_function \<Rightarrow> (value_id \<Rightarrow> air_value) \<Rightarrow> value_id set \<Rightarrow> inst_id \<Rightarrow> bool" where
  "runs pw tt f env S i \<longleftrightarrow>
     consistent pw tt f env S \<and> known_types tt \<and> constants_inv f \<and> set (operands f i) \<subseteq> S
     \<and> check_value_inst pw tt f i \<and> in_result (inst f i) \<noteq> 0"

lemma runsD:
  assumes "runs pw tt f env S i"
  shows "consistent pw tt f env S" "known_types tt" "constants_inv f" "set (operands f i) \<subseteq> S" "check_value_inst pw tt f i"
    "check_value_type tt (in_type (inst f i))" "check_scalar_inst pw tt f i"
  using assms checked_scalar by (auto simp: runs_def check_value_inst_def Let_def split: if_splits)

lemma yields_const_int:
  assumes "constants_inv f" "x = AInt (uint bits)" "ty = in_type (inst f i)"
  shows "yields f env i (const_int ty bits 0 f) x"
  using const_int_den [OF assms(1)] assms(2,3) by (cases "const_int ty bits 0 f") (auto simp: yields_def)

text \<open>The identities with a constant operand, stated on numbers.\<close>

lemma int_op_identity:
  assumes w: "0 < w" "w \<le> 64" and a: "0 \<le> a" "a < 2 ^ w" and k: "ci_width k = w" "uint (ci_bits k) < 2 ^ w"
    and id: "identity op k rhs v = Some r"
    and x: "int_op op w (if rhs then a else uint (ci_bits k)) (if rhs then uint (ci_bits k) else a) = Some x"
    and comm: "\<not> rhs \<Longrightarrow> is_commutative op"
  shows "case r of Inl u \<Rightarrow> u = v \<and> x = a | Inr bits \<Rightarrow> x = uint bits"
proof -
  let ?k = "ci_bits k"
  have wrap: "a mod 2 ^ w = a" "to_signed w a mod 2 ^ w = a"
    using a by (simp_all add: to_signed_def)
  have all: "uint ?k = 2 ^ w - 1" if "?k = air_width_mask w"
  proof -
    have "?k = mask w"
      using and_air_mask [of "- 1" w] that by simp
    then have "uint ?k = mask (min 64 w)"
      by (auto intro!: bit_eqI simp: bit_simps)
    then show ?thesis
      using w(2) by (simp add: min_def mask_eq_exp_minus_1)
  qed
  have full: "a AND (2 ^ w - 1) = a"
    using a by (simp add: mask_eq_exp_minus_1 [symmetric] take_bit_eq_mask [symmetric] take_bit_int_eq_self)
  have one: "to_signed w 1 = (if w = 1 then - 1 else 1)"
    using w(1) by (cases "w = 1") (simp_all add: to_signed_def)
  consider (zero) "op \<in> {OpIadd, OpIxor, OpIor}" "?k = 0" "r = Inl v"
    | (shift) "op \<in> {OpIsub, OpShl, OpLshr, OpAshr}" "?k = 0" "rhs" "r = Inl v"
    | (mul) "op = OpImul" "?k = 1" "r = Inl v" | (mul0) "op = OpImul" "?k = 0" "r = Inr 0"
    | (mask) "op = OpIand" "?k = air_width_mask w" "r = Inl v" | (and0) "op = OpIand" "?k = 0" "r = Inr 0"
    | (div1) "op \<in> {OpUdiv, OpSdiv}" "?k = 1" "rhs" "r = Inl v"
    using id k(1) by (auto simp: identity_def Let_def split: if_splits)
  then show ?thesis
  proof cases
    case zero
    then show ?thesis
      using x wrap by (auto simp: int_op_def Let_def)
  next
    case shift
    then show ?thesis
      using x wrap w by (auto simp: int_op_def Let_def)
  next
    case mul
    then show ?thesis
      using x wrap by (auto simp: int_op_def Let_def split: if_splits)
  next
    case mul0
    then show ?thesis
      using x by (auto simp: int_op_def Let_def split: if_splits)
  next
    case mask
    then show ?thesis
      using x all full by (auto simp: int_op_def Let_def and.commute split: if_splits)
  next
    case and0
    then show ?thesis
      using x by (auto simp: int_op_def Let_def split: if_splits)
  next
    case div1
    show ?thesis
    proof (cases "w = 1")
      case True
      then have "a = 0 \<or> a = 1"
        using a by auto
      then show ?thesis
        using True x div1 by (auto simp: int_op_def Let_def to_signed_def)
    next
      case False
      then show ?thesis
        using x wrap one div1 sgn_mult_abs [of "to_signed w a"] by (auto simp: int_op_def Let_def split: if_splits)
    qed
  qed
qed

lemma simplify_binop_sound:
  assumes r: "runs pw tt f env S i" and op: "is_int_binop (in_op (inst f i))"
    and x: "eval_inst pw tt f env i = Some x" and nz: "fst (simplify_binop tt i f) \<noteq> 0"
  shows "yields f env i (simplify_binop tt i f) x"
proof -
  note R = runsD [OF r]
  let ?a = "operands f i ! 0" and ?b = "operands f i ! 1" and ?op = "in_op (inst f i)" and ?ty = "in_type (inst f i)"
  have S: "?a \<in> S" "?b \<in> S"
    using operand_in [OF R(5,4), of 2] operand_counts(1) [OF op] by simp_all
  have ty: "is_int tt ?ty" "value_type f ?a = ?ty" "value_type f ?b = ?ty"
    using R(7) op by (auto simp: check_scalar_inst_def is_int_binop_def Let_def op_type_def)
  obtain m n where mn: "den f env ?a = AInt m" "0 \<le> m" "m < 2 ^ width_of tt ?ty" "den f env ?b = AInt n" "0 \<le> n" "n < 2 ^ width_of tt ?ty"
    using fits_intD [OF consistentD(1) [OF R(1) S(1)]] fits_intD [OF consistentD(1) [OF R(1) S(2)]] ty by auto
  obtain z where z: "x = AInt z" "int_op ?op (width_of tt ?ty) m n = Some z"
    using x op mn(1,4) by (auto simp: eval_inst_def Let_def)
  have ca: "m = uint (ci_bits k)" "ci_width k = width_of tt ?ty" "0 < ci_width k" "ci_width k \<le> 64"
    if "const_int_of f tt ?a = Some k" for k
    using const_int_of_den [OF R(1) S(1) that] mn(1) ty(2) by simp_all
  have cb: "n = uint (ci_bits k)" "ci_width k = width_of tt ?ty" "0 < ci_width k" "ci_width k \<le> 64"
    if "const_int_of f tt ?b = Some k" for k
    using const_int_of_den [OF R(1) S(2) that] mn(4) ty(3) by simp_all
  show ?thesis
  proof (cases "case (const_int_of f tt ?a, const_int_of f tt ?b) of (Some l, Some r) \<Rightarrow> fold_int_binop ?op l r | _ \<Rightarrow> None")
    case (Some bits)
    then obtain l r where lr: "const_int_of f tt ?a = Some l" "const_int_of f tt ?b = Some r" "fold_int_binop ?op l r = Some bits"
      by (auto split: option.splits)
    have "fold_int_binop ?op \<lparr>ci_bits = ci_bits l, ci_width = width_of tt ?ty\<rparr> \<lparr>ci_bits = ci_bits r, ci_width = width_of tt ?ty\<rparr> = Some bits"
      using ca(2) [OF lr(1)] cb(2) [OF lr(2)] lr(3) by (cases l; cases r) simp
    then have "int_op ?op (width_of tt ?ty) m n = Some (uint bits)"
      using fold_binop_int_op [of "width_of tt ?ty" "ci_bits l" "ci_bits r" ?op] ca [OF lr(1)] cb [OF lr(2)] mn lr(3) by simp
    then have "x = AInt (uint bits)"
      using z by simp
    moreover have "simplify_binop tt i f = const_int ?ty bits 0 f"
      using lr by (simp add: simplify_binop_def Let_def)
    ultimately show ?thesis
      using yields_const_int [OF R(3)] by simp
  next
    case None
    define use_lhs where "use_lhs = (const_int_of f tt ?b = None \<and> is_commutative ?op \<and> const_int_of f tt ?a \<noteq> None)"
    define konst where "konst = (if use_lhs then const_int_of f tt ?a else const_int_of f tt ?b)"
    define v where "v = (if use_lhs then ?b else ?a)"
    have eq: "simplify_binop tt i f =
        (case (case konst of None \<Rightarrow> None | Some k \<Rightarrow> identity ?op k (\<not> use_lhs) v) of
           Some (Inl w) \<Rightarrow> (w, f) | Some (Inr bits) \<Rightarrow> const_int ?ty bits 0 f | None \<Rightarrow> (same_operand ?op ?a ?b, f))"
      unfolding simplify_binop_def Let_def None konst_def v_def use_lhs_def by simp
    show ?thesis
    proof (cases "case konst of None \<Rightarrow> None | Some k \<Rightarrow> identity ?op k (\<not> use_lhs) v")
      case None
      then have "simplify_binop tt i f = (same_operand ?op ?a ?b, f)"
        using eq by simp
      moreover from this have "?a = ?b" "?op = OpIand \<or> ?op = OpIor" "same_operand ?op ?a ?b = ?a"
        using nz by (auto simp: same_operand_def split: if_splits)
      moreover from this have "x = AInt m"
        using z mn(1,4) by (auto simp: int_op_def Let_def)
      ultimately show ?thesis
        using mn(1) ty(2) by (simp add: yields_def)
    next
      case (Some r)
      then obtain k where k: "konst = Some k" "identity ?op k (\<not> use_lhs) v = Some r"
        by (auto split: option.splits)
      have w: "ci_width k = width_of tt ?ty" "0 < ci_width k" "ci_width k \<le> 64"
        using k(1) ca cb by (auto simp: konst_def split: if_splits)
      have kv: "uint (ci_bits k) = (if use_lhs then m else n)"
        using k(1) ca cb by (auto simp: konst_def split: if_splits)
      have "case r of Inl u \<Rightarrow> u = v \<and> z = (if use_lhs then n else m) | Inr bits \<Rightarrow> z = uint bits"
        using mn z(2) w kv by (intro int_op_identity [OF _ _ _ _ _ _ k(2), where w = "width_of tt ?ty"])
          (auto simp: use_lhs_def)
      then show ?thesis
        using eq Some z(1) mn(1,4) ty(2,3) yields_const_int [OF R(3)]
        by (auto simp: yields_def v_def split: sum.splits)
    qed
  qed
qed

text \<open>Comparisons.\<close>

lemma int_cmp_refl: "reflexive_decidable (Some c) \<Longrightarrow> int_cmp c w a a = reflexive_true (Some c)"
  by (cases c) (simp_all add: int_cmp_def reflexive_true_def reflexive_decidable_def)

lemma simplify_icmp_sound:
  assumes r: "runs pw tt f env S i" and op: "in_op (inst f i) = OpIcmp"
    and x: "eval_inst pw tt f env i = Some x" and nz: "fst (simplify_icmp tt i f) \<noteq> 0"
  shows "yields f env i (simplify_icmp tt i f) x"
proof -
  note R = runsD [OF r]
  let ?a = "operands f i ! 0" and ?b = "operands f i ! 1" and ?c = "cast_enum int_conds (in_aux (inst f i))"
  have S: "?a \<in> S" "?b \<in> S"
    using operand_in [OF R(5,4), of 2] op by (simp_all add: operand_counts)
  have ty: "in_type (inst f i) = types_I8" "value_type f ?b = value_type f ?a"
    using R(7) op by (simp_all add: check_scalar_inst_def Let_def op_type_def)
  obtain c where c: "?c = Some c"
    using x op by (auto simp: eval_inst_def Let_def is_int_binop_def split: option.splits)
  have ev: "x = AInt (of_bool (int_cmp c (width_of tt (value_type f ?a)) m n))" if "den f env ?a = AInt m" "den f env ?b = AInt n" for m n
    using x op c that by (simp add: eval_inst_def Let_def is_int_binop_def op_type_def)
  have evp: "x = AInt (of_bool (int_cmp c pw m n))" if "den f env ?a = APtr m" "den f env ?b = APtr n" for m n
    using x op c that by (simp add: eval_inst_def Let_def is_int_binop_def op_type_def)
  have dom: "(\<exists>m n. den f env ?a = AInt m \<and> den f env ?b = AInt n) \<or> (\<exists>m n. den f env ?a = APtr m \<and> den f env ?b = APtr n)"
    using x op by (auto simp: eval_inst_def Let_def is_int_binop_def split: option.splits air_value.splits)
  consider (fold) l r where "const_int_of f tt ?a = Some l" "const_int_of f tt ?b = Some r"
      "simplify_icmp tt i f = const_int types_I8 (if fold_icmp ?c l r then 1 else 0) 0 f"
    | (refl) "?a = ?b" "reflexive_decidable ?c" "simplify_icmp tt i f = const_int types_I8 (if reflexive_true ?c then 1 else 0) 0 f"
    | (bool) k where "c = INe" "const_int_of f tt ?b = Some k" "ci_bits k = 0" "is_bool_valued f ?a 0" "simplify_icmp tt i f = (?a, f)"
    | (zext) k where "c = INe" "const_int_of f tt ?b = Some k" "ci_bits k = 0" "vd_kind (value_of f ?a) = InstResult"
        "in_op (inst f (def_inst f ?a)) = OpZext" "is_bool_valued f (operands f (def_inst f ?a) ! 0) 0"
        "simplify_icmp tt i f = (operands f (def_inst f ?a) ! 0, f)"
    using nz c by (force simp: simplify_icmp_def Let_def split: if_splits)
  then show ?thesis
  proof cases
    case fold
    note l = const_int_of_den [OF R(1) S(1) fold(1)] and r = const_int_of_den [OF R(1) S(2) fold(2)]
    have "fold_icmp (Some c) l r = int_cmp c (ci_width l) (uint (ci_bits l)) (uint (ci_bits r))"
      using fold_icmp_int_cmp [of "ci_width l" "ci_bits l" "ci_bits r" c] l(2,4-6) r(2,6) ty(2) by (cases l; cases r) simp
    then show ?thesis
      using fold(3) ev [OF l(1) r(1)] l(2) c ty(1) by (auto intro!: yields_const_int [OF R(3)])
  next
    case refl
    have "x = AInt (of_bool (reflexive_true ?c))"
      using dom refl(1,2) ev evp int_cmp_refl c by auto
    then show ?thesis
      using refl(3) ty(1) by (auto intro!: yields_const_int [OF R(3)])
  next
    case bool
    note k = const_int_of_den [OF R(1) S(2) bool(2)]
    have b: "(den f env ?a = AInt 0 \<or> den f env ?a = AInt 1) \<and> value_type f ?a = types_I8"
      by (rule is_bool_valued_den [OF bool(4) S(1) R(1,2)])
    then have "x = den f env ?a"
      using ev [OF _ k(1)] bool(1,3) by (auto simp: int_cmp_def)
    then show ?thesis
      using bool(5) b ty(1) by (simp add: yields_def)
  next
    case zext
    note k = const_int_of_den [OF R(1) S(2) zext(2)]
    let ?d = "def_inst f ?a"
    note res = consistent_result [OF R(1) S(1) zext(4)]
    have in_S: "operands f ?d ! 0 \<in> S"
      using operand_in [OF res(1,2), of 1] zext(5) by (simp add: operand_counts)
    have b: "(den f env (operands f ?d ! 0) = AInt 0 \<or> den f env (operands f ?d ! 0) = AInt 1) \<and> value_type f (operands f ?d ! 0) = types_I8"
      by (rule is_bool_valued_den [OF zext(6) in_S R(1,2)])
    then have "eval_inst pw tt f env ?d = Some (den f env (operands f ?d ! 0))"
      using zext(5) by (auto simp: eval_inst_def Let_def is_int_binop_def)
    then have "den f env ?a = den f env (operands f ?d ! 0)"
      by (rule res(4))
    then have "x = den f env (operands f ?d ! 0)"
      using ev [OF _ k(1)] zext(1,3) b by (auto simp: int_cmp_def)
    then show ?thesis
      using zext(7) b ty(1) by (simp add: yields_def)
  qed
qed

text \<open>Integer casts.\<close>

lemma simplify_int_cast_sound:
  assumes r: "runs pw tt f env S i" and op: "in_op (inst f i) = OpTrunc \<or> in_op (inst f i) = OpZext \<or> in_op (inst f i) = OpSext"
    and x: "eval_inst pw tt f env i = Some x" and nz: "fst (simplify_int_cast tt i f) \<noteq> 0"
  shows "yields f env i (simplify_int_cast tt i f) x"
proof -
  note R = runsD [OF r]
  let ?a = "operands f i ! 0" and ?ty = "in_type (inst f i)" and ?op = "in_op (inst f i)"
  let ?w = "width_of tt ?ty" and ?src = "width_of tt (value_type f ?a)"
  have S: "?a \<in> S"
    using operand_in [OF R(5,4), of 1] op by (auto simp: operand_counts)
  have "is_int tt (value_type f ?a) \<and> is_int tt ?ty \<and> (if ?op = OpTrunc then ?w < ?src else ?src < ?w)"
    using op R(7) unfolding check_scalar_inst_def Let_def op_type_def by (elim disjE) simp_all
  then have ty: "is_int tt (value_type f ?a)" "is_int tt ?ty" "?op \<noteq> OpTrunc \<Longrightarrow> ?src < ?w" "?op = OpTrunc \<Longrightarrow> ?w < ?src"
    by simp_all
  obtain m where m: "den f env ?a = AInt m" "0 \<le> m" "m < 2 ^ ?src"
    using fits_intD [OF consistentD(1) [OF R(1) S] ty(1)] by blast
  have ev: "x = AInt (if ?op = OpTrunc then m mod 2 ^ ?w else if ?op = OpZext then m else to_signed ?src m mod 2 ^ ?w)"
    using x op m(1) by (auto simp: eval_inst_def Let_def is_int_binop_def op_type_def)
  consider (const) k where "const_int_of f tt ?a = Some k" "?w \<le> 64" "simplify_int_cast tt i f = const_int ?ty
        ((if ?op = OpSext then word_of_int (sign_extend (ci_bits k) (ci_width k)) else ci_bits k) AND air_width_mask ?w) 0 f"
    | (again) "?op = OpTrunc" "vd_kind (value_of f ?a) = InstResult"
        "in_op (inst f (def_inst f ?a)) = OpZext \<or> in_op (inst f (def_inst f ?a)) = OpSext"
        "value_type f (operands f (def_inst f ?a) ! 0) = ?ty" "simplify_int_cast tt i f = (operands f (def_inst f ?a) ! 0, f)"
    using nz by (force simp: simplify_int_cast_def Let_def width_of_def split: if_splits)
  then show ?thesis
  proof cases
    case const
    note k = const_int_of_den [OF R(1) S const(1)]
    have mk: "m = uint (ci_bits k)"
      using k(1) m(1) by simp
    have "m mod 2 ^ ?w = m" if "?op \<noteq> OpTrunc"
    proof -
      have "(2 :: int) ^ ?src \<le> 2 ^ ?w"
        using ty(3) [OF that] by (intro power_increasing) auto
      then have "m < 2 ^ ?w"
        using m(3) by linarith
      then show ?thesis
        using m(2) by simp
    qed
    then have "x = AInt (uint ((if ?op = OpSext then word_of_int (sign_extend (ci_bits k) (ci_width k)) else ci_bits k) AND air_width_mask ?w))"
      using ev op mk uint_wrapped [OF const(2)] uint_and_air_mask [OF const(2)] to_signed_word [OF k(4-6)] k(2) by auto
    then show ?thesis
      using const(3) by (simp add: yields_const_int [OF R(3)])
  next
    case again
    let ?d = "def_inst f ?a" and ?v = "operands f (def_inst f ?a) ! 0"
    note res = consistent_result [OF R(1) S again(2)]
    have in_S: "?v \<in> S"
      using operand_in [OF res(1,2), of 1] again(3) by (auto simp: operand_counts)
    have tw: "?w < ?src" "in_type (inst f ?d) = value_type f ?a"
      using ty(4) again(1) res(3) by simp_all
    obtain n where n: "den f env ?v = AInt n" "0 \<le> n" "n < 2 ^ ?w"
      using fits_intD [OF consistentD(1) [OF R(1) in_S]] ty(2) again(4) by auto
    have "eval_inst pw tt f env ?d = Some (AInt (if in_op (inst f ?d) = OpZext then n else to_signed ?w n mod 2 ^ ?src))"
      using again(3,4) n(1) tw(2) by (auto simp: eval_inst_def Let_def is_int_binop_def op_type_def)
    then have m': "m = (if in_op (inst f ?d) = OpZext then n else to_signed ?w n mod 2 ^ ?src)"
      using res(4) m(1) by auto
    have "to_signed ?w n mod 2 ^ ?src mod 2 ^ ?w = to_signed ?w n mod 2 ^ ?w"
      using tw(1) by (intro mod_mod_cancel le_imp_power_dvd) simp
    moreover have "to_signed ?w n mod 2 ^ ?w = n"
      using n(2,3) by (simp add: to_signed_def)
    ultimately have "m mod 2 ^ ?w = n"
      using m' n(2,3) by (auto split: if_splits)
    then show ?thesis
      using again(1,4,5) ev n(1) by (simp add: yields_def)
  qed
qed

text \<open>Conversions to floating point: what the numeric library computes at compile time.\<close>

lemma convert_semantics:
  assumes "descriptor g = Some d" "has_value (convert v g control)"
  shows "semantics (fr_value (convert v g control)) = g"
proof -
  have ok: "classification (decode v) \<noteq> ClsInvalid"
    using assms by (auto simp: convert_def Let_def has_value_def error_result_def)
  consider "is_finite_nonzero (classification (decode v))" | "is_nan_class (classification (decode v))"
    | "classification (decode v) = ClsZero" | "classification (decode v) = ClsInfinity"
    using class_cases [OF ok] by blast
  then have "valid_in g (convert v g control)"
  proof cases
    case 1
    then show ?thesis
      using rounded_valid [OF assms(1) convert_rounded [OF _ assms(1)]] by blast
  next
    case 2
    then show ?thesis
      using ok assms(1) by (intro valid_special(4) [OF assms(1)]) (auto simp: convert_def Let_def is_nan_class_def)
  qed (use valid_special(1,2) [OF assms(1)] assms(1) in \<open>simp_all add: convert_def Let_def\<close>)
  then show ?thesis
    by (simp add: valid_in_def)
qed

lemma from_integer_semantics:
  assumes "descriptor g = Some d" "1 \<le> w" "w \<le> 128"
  shows "semantics (fr_value (from_integer n w sg g control)) = g"
proof -
  note fi = from_integer_rounded [OF assms refl, where x = n and sg = sg and control = control]
  have "valid_in g (from_integer n w sg g control)"
    using fi rounded_valid [OF assms(1)] valid_special(1) [OF assms(1)] by (metis (full_types))
  then show ?thesis
    by (simp add: valid_in_def)
qed

lemma yields_float:
  assumes inv: "constants_inv f" and ty: "ty = in_type (inst f i)"
    and sem: "has_value res \<Longrightarrow> semantics (fr_value res) = numeric_float_format ty"
    and x: "x = AFloat (fr_value res)" and nz: "fst (intern_float_result ty res f) \<noteq> 0"
  shows "yields f env i (intern_float_result ty res f) x"
proof -
  let ?v = "fr_value res"
  have hv: "has_value res"
    using nz by (auto simp: intern_float_result_def split: if_splits)
  obtain v f' where c: "intern_constant ConstFloat ty (fv_low_bits ?v) (fv_high_bits ?v) f = (v, f')"
    by fastforce
  note eff = intern_constant_effect(3) [OF inv c]
  have "numeric_float_value \<lparr>vd_kind = ConstFloat, vd_type = ty, vd_payload = fv_low_bits ?v, vd_payload2 = fv_high_bits ?v\<rparr> = ?v"
    using sem [OF hv] by (simp add: numeric_float_value_def)
  then show ?thesis
    using hv c eff x ty by (simp add: intern_float_result_def const_float_bits_def yields_def den_def value_type_def Let_def)
qed

lemma format_known: "numeric_float_format ty \<noteq> FmtInvalid \<Longrightarrow> \<exists>d. descriptor (numeric_float_format ty) = Some d"
  by (cases "numeric_float_format ty") (simp_all add: descriptor_def)

lemma simplify_float_cast_sound:
  assumes r: "runs pw tt f env S i" and op: "in_op (inst f i) = OpFpext \<or> in_op (inst f i) = OpFptrunc"
    and x: "eval_inst pw tt f env i = Some x" and nz: "fst (simplify_float_cast i f) \<noteq> 0"
  shows "yields f env i (simplify_float_cast i f) x"
proof -
  note R = runsD [OF r]
  let ?a = "operands f i ! 0" and ?ty = "in_type (inst f i)"
  let ?g = "numeric_float_format ?ty" and ?src = "numeric_float_value (value_of f (operands f i ! 0))"
  have c: "vd_kind (value_of f ?a) = ConstFloat" "?g \<noteq> FmtInvalid"
      "simplify_float_cast i f = intern_float_result ?ty (convert ?src ?g default_control) f"
    using nz by (auto simp: simplify_float_cast_def Let_def split: if_splits)
  have "x = AFloat (fr_value (convert ?src ?g default_control))"
    using x op c(1) by (auto simp: eval_inst_def Let_def is_int_binop_def den_def)
  then show ?thesis
    using c nz format_known [OF c(2)] convert_semantics by (auto intro!: yields_float [OF R(3) refl])
qed

lemma simplify_int_to_float_sound:
  assumes r: "runs pw tt f env S i" and op: "in_op (inst f i) = OpSitofp \<or> in_op (inst f i) = OpUitofp"
    and x: "eval_inst pw tt f env i = Some x" and nz: "fst (simplify_int_to_float tt i f) \<noteq> 0"
  shows "yields f env i (simplify_int_to_float tt i f) x"
proof -
  note R = runsD [OF r]
  let ?a = "operands f i ! 0" and ?ty = "in_type (inst f i)" and ?sg = "in_op (inst f i) = OpSitofp"
  let ?g = "numeric_float_format ?ty"
  have S: "?a \<in> S"
    using operand_in [OF R(5,4), of 1] op by (auto simp: operand_counts)
  obtain k where c: "?g \<noteq> FmtInvalid" "const_int_of f tt ?a = Some k"
      "simplify_int_to_float tt i f = intern_float_result ?ty (from_integer (ucast (ci_bits k)) (ci_width k) ?sg ?g default_control) f"
    using nz by (auto simp: simplify_int_to_float_def Let_def split: if_splits option.splits)
  note k = const_int_of_den [OF R(1) S c(2)]
  have "(ucast (ci_bits k) :: u128) = word_of_int (uint (ci_bits k))"
    by (simp add: unsigned_ucast_eq word_uint_eq_iff uint_word_of_int take_bit_eq_mod)
  then have "x = AFloat (fr_value (from_integer (ucast (ci_bits k)) (ci_width k) ?sg ?g default_control))"
    using x op k(1,2) by (auto simp: eval_inst_def Let_def is_int_binop_def op_type_def)
  then show ?thesis
    using c nz format_known [OF c(1)] from_integer_semantics [of ?g _ "ci_width k"] k(4,5)
    by (auto intro!: yields_float [OF R(3) refl])
qed

text \<open>Selections.\<close>

lemma simplify_select_sound:
  assumes r: "runs pw tt f env S i" and op: "in_op (inst f i) = OpSelect"
    and x: "eval_inst pw tt f env i = Some x" and nz: "fst (simplify_select tt i f) \<noteq> 0"
  shows "yields f env i (simplify_select tt i f) x"
proof -
  note R = runsD [OF r]
  let ?c = "operands f i ! 0" and ?a = "operands f i ! 1" and ?b = "operands f i ! 2"
  have S: "?c \<in> S" "?a \<in> S" "?b \<in> S"
    using operand_in [OF R(5,4), of 3] op by (simp_all add: operand_counts)
  have ty: "value_type f ?c = types_I8" "value_type f ?b = value_type f ?a" "in_type (inst f i) = value_type f ?a"
    using R(7) op by (simp_all add: check_scalar_inst_def Let_def op_type_def)
  obtain c where c: "den f env ?c = AInt c" "x = (if c \<noteq> 0 then den f env ?a else den f env ?b)"
    using eval_select [OF R(1,2,5,4) op] x by auto
  consider (const) "vd_kind (value_of f ?c) = ConstInt"
      "simplify_select tt i f = ((if vd_payload (value_of f ?c) \<noteq> 0 then ?a else ?b), f)"
    | (same) "?a = ?b" "simplify_select tt i f = (?a, f)"
    | (bool) t e where "const_int_of f tt ?a = Some t" "const_int_of f tt ?b = Some e" "ci_bits t = 1" "ci_bits e = 0"
        "is_bool_valued f ?c 0" "simplify_select tt i f = (?c, f)" "in_type (inst f i) = types_I8"
    using nz by (auto simp: simplify_select_def Let_def split: if_splits option.splits)
  then show ?thesis
  proof cases
    case const
    have "canonical_int_bits tt (value_of f ?c)"
      using consistentD(3) [OF R(1) S(1)] const(1) by (simp add: check_operand_value_def Let_def)
    then have "vd_payload2 (value_of f ?c) = 0"
      using known_I8 [OF R(2)] ty(1) by (simp add: canonical_int_bits_def value_type_def)
    then have "c = uint (vd_payload (value_of f ?c))"
      using c(1) const(1) by (simp add: den_def)
    then have "c \<noteq> 0 \<longleftrightarrow> vd_payload (value_of f ?c) \<noteq> 0"
      by (simp add: word_uint_eq_iff)
    then show ?thesis
      using const(2) c(2) ty by (auto simp: yields_def)
  next
    case same
    then show ?thesis
      using c(2) ty by (simp add: yields_def)
  next
    case bool
    have "(den f env ?c = AInt 0 \<or> den f env ?c = AInt 1)"
      using is_bool_valued_den [OF bool(5) S(1) R(1,2)] by blast
    then show ?thesis
      using c bool(3,4,6,7) ty(1) const_int_of_den(1) [OF R(1) S(2) bool(1)] const_int_of_den(1) [OF R(1) S(3) bool(2)]
      by (auto simp: yields_def)
  qed
qed

text \<open>All of them.\<close>

lemma simplify_inst_yields:
  assumes r: "runs pw tt f env S i" and x: "eval_inst pw tt f env i = Some x" and nz: "fst (simplify_inst tt i f) \<noteq> 0"
  shows "yields f env i (simplify_inst tt i f) x"
proof -
  note R = runsD [OF r]
  let ?op = "in_op (inst f i)"
  consider "is_int_binop ?op" | "?op = OpIcmp" | "?op = OpTrunc \<or> ?op = OpZext \<or> ?op = OpSext"
    | "?op = OpFpext \<or> ?op = OpFptrunc" | "?op = OpSitofp \<or> ?op = OpUitofp" | "?op = OpSelect"
    | (bitcast) "?op = OpBitcast" | (ptr_add) "?op = OpPtrAdd"
    using x by (auto simp: eval_inst_def Let_def split: if_splits)
  then show ?thesis
  proof cases
    case bitcast
    then show ?thesis
      using x nz by (auto simp: simplify_inst_def eval_inst_def Let_def is_int_binop_def op_type_def value_type_def yields_def split: if_splits)
  next
    case ptr_add
    have S: "operands f i ! 0 \<in> S" "operands f i ! 1 \<in> S"
      using operand_in [OF R(5,4), of 2] ptr_add by (simp_all add: operand_counts)
    obtain k where k: "const_int_of f tt (operands f i ! 1) = Some k" "ci_bits k = 0" "simplify_inst tt i f = (operands f i ! 0, f)"
      using nz ptr_add by (auto simp: simplify_inst_def Let_def is_int_binop_def split: option.splits if_splits)
    have ty: "is_ptr tt (value_type f (operands f i ! 0))" "in_type (inst f i) = value_type f (operands f i ! 0)"
      using R(7) ptr_add by (simp_all add: check_scalar_inst_def Let_def op_type_def)
    obtain q where q: "den f env (operands f i ! 0) = APtr q" "0 \<le> q" "q < 2 ^ pw"
      using fits_ptrD [OF consistentD(1) [OF R(1) S(1)] ty(1)] by blast
    have "x = APtr q"
      using x ptr_add q const_int_of_den(1) [OF R(1) S(2) k(1)] k(2) by (simp add: eval_inst_def Let_def is_int_binop_def)
    then show ?thesis
      using k(3) q(1) ty(2) by (simp add: yields_def)
  qed (use r x nz simplify_binop_sound simplify_icmp_sound simplify_int_cast_sound simplify_float_cast_sound
      simplify_int_to_float_sound simplify_select_sound in \<open>force simp: simplify_inst_def Let_def is_int_binop_def\<close>)+
qed

end
