(* ===== verification/Air_Simplify_Pass.thy ===== *)
theory Air_Simplify_Pass
  imports Air_Fold
begin

text \<open>
  The rounds of \<open>run_instsimplify\<close>: they end, keep the function in order and remove only
  instructions that compute a value and are not volatile.
\<close>

section \<open>What a step leaves alone\<close>

text \<open>Simplifying makes constants and nothing else.\<close>

definition only_constants :: "air_function \<Rightarrow> air_function \<Rightarrow> bool" where
  "only_constants f f' \<longleftrightarrow> constants_inv f' \<and> (\<exists>vs lookup. f' = f\<lparr>fn_values := vs, fn_constant_lookup := lookup\<rparr>)"

lemma only_constants_refl [simp]: "constants_inv f \<Longrightarrow> only_constants f f"
  unfolding only_constants_def by (intro conjI exI [of _ "fn_values f"] exI [of _ "fn_constant_lookup f"]) simp_all

lemma only_constants_const:
  assumes "constants_inv f"
  shows "only_constants f (snd (const_int ty bits high f))" "only_constants f (snd (const_float_bits ty bits high f))"
    "only_constants f (snd (intern_float_result ty res f))"
proof -
  have i: "only_constants f (snd (intern_constant kind ty p p2 f))" for kind p p2
    using intern_constant_effect(1,6) [OF assms, of kind ty p p2 "fst (intern_constant kind ty p p2 f)" "snd (intern_constant kind ty p p2 f)"]
    by (simp add: only_constants_def)
  show "only_constants f (snd (const_int ty bits high f))" "only_constants f (snd (const_float_bits ty bits high f))"
    using i by (simp_all add: const_int_def const_float_bits_def)
  then show "only_constants f (snd (intern_float_result ty res f))"
    using i assms by (simp add: intern_float_result_def const_float_bits_def)
qed

lemma simplify_inst_frame:
  assumes "constants_inv f"
  shows "only_constants f (snd (simplify_inst tt i f))"
proof -
  note c = only_constants_const [OF assms] only_constants_refl [OF assms]
  have "only_constants f (snd (simplify_binop tt i f))"
    using c by (auto simp: simplify_binop_def Let_def split: option.split sum.split)
  moreover have "only_constants f (snd (simplify_icmp tt i f))"
    using c by (simp add: simplify_icmp_def Let_def)
  moreover have "only_constants f (snd (simplify_int_cast tt i f))"
    using c by (simp add: simplify_int_cast_def Let_def)
  moreover have "only_constants f (snd (simplify_float_cast i f))"
    using c by (simp add: simplify_float_cast_def Let_def)
  moreover have "only_constants f (snd (simplify_int_to_float tt i f))"
    using c by (simp add: simplify_int_to_float_def Let_def split: option.split)
  moreover have "only_constants f (snd (simplify_select tt i f))"
    using c by (auto simp: simplify_select_def Let_def split: option.split)
  ultimately show ?thesis
    using c unfolding simplify_inst_def Let_def by (simp split: option.split)
qed

lemma same_shape_simplify:
  assumes "constants_inv f" "simplify_inst tt i f = (v, f1)"
  shows "same_shape f f1" "same_shape f (replace_all_uses old new f1)" "constants_inv f1"
    "constants_inv (replace_all_uses old new f1)"
  using simplify_inst_frame [OF assms(1), of tt i] assms(2)
  by (auto simp: only_constants_def same_shape_def replace_all_uses_def constants_inv_def constants_part_def)

section \<open>The rounds\<close>

text \<open>
  In the middle of a round some of the visited instructions are gone; the others keep everything
  but their place. The flag tells whether any is.
\<close>

definition simp_state ::
  "air_function \<Rightarrow> block_id list \<Rightarrow> (block_id \<Rightarrow> inst_id list) \<Rightarrow> inst_id set \<Rightarrow> bool \<times> air_function \<Rightarrow> bool" where
  "simp_state f bs L V st \<longleftrightarrow>
     (\<exists>D \<subseteq> V. fn_inv (snd st) bs (without D L) \<and> (fst st \<longleftrightarrow> D \<noteq> {})
        \<and> (\<forall>i \<in> D. opcode_result_kind (in_op (inst f i)) = RValue \<and> in_flags (inst f i) AND INST_FLAG_VOLATILE = 0))
     \<and> constants_inv (snd st) \<and> (\<forall>i. content (inst (snd st) i) = content (inst f i))
     \<and> length (fn_insts (snd st)) = length (fn_insts f) \<and> length (fn_blocks (snd st)) = length (fn_blocks f)"

lemma without_insert:
  assumes "L b = vis @ i # rest" "distinct (L b)" "D \<inter> set (i # rest) = {}"
  shows "without (insert i D) L b = filter (\<lambda>i. i \<notin> D) vis @ rest"
proof -
  have "filter (\<lambda>j. j \<notin> insert i D) vis = filter (\<lambda>j. j \<notin> D) vis"
    using assms by (intro filter_cong) auto
  moreover have "filter (\<lambda>j. j \<notin> insert i D) rest = rest"
    using assms by (intro filter_True) auto
  ultimately show ?thesis
    using assms by (simp add: without_def)
qed

lemma simp_state_step:
  assumes inv: "fn_inv f bs L" and b: "b \<in> set bs" and L: "L b = vis @ i # rest"
    and V: "V \<inter> set (i # rest) = {}" and st: "simp_state f bs L V st"
  shows "in_next (inst (snd st) i) = first_of rest 0" "i \<noteq> 0"
    and "simp_state f bs L (insert i V) (simplify_visit tt i st)"
proof -
  obtain ch g where st_eq: "st = (ch, g)"
    by fastforce
  obtain D where D: "D \<subseteq> V" "fn_inv g bs (without D L)" "ch \<longleftrightarrow> D \<noteq> {}"
      "\<forall>i \<in> D. opcode_result_kind (in_op (inst f i)) = RValue \<and> in_flags (inst f i) AND INST_FLAG_VOLATILE = 0"
    and g: "constants_inv g" "\<forall>i. content (inst g i) = content (inst f i)" "length (fn_insts g) = length (fn_insts f)"
      "length (fn_blocks g) = length (fn_blocks f)"
    using st by (auto simp: simp_state_def st_eq)
  let ?xs = "filter (\<lambda>i. i \<notin> D) vis"
  have split: "without D L b = ?xs @ i # rest"
    using D(1) V by (auto simp: without_def L intro!: filter_True)
  note gD = fn_invD [OF D(2) b]
  show "in_next (inst (snd st) i) = first_of rest 0" "i \<noteq> 0"
    using neighbours(4,2) [OF gD(2,1) split] by (simp_all add: st_eq valid_inst_def)
  obtain v f1 where s: "simplify_inst tt i g = (v, f1)"
    by fastforce
  let ?h = "replace_all_uses (in_result (inst g i)) v f1"
  note sh = same_shape_simplify [OF g(1) s]
  have fld: "in_op (inst g i) = in_op (inst f i)" "in_flags (inst g i) = in_flags (inst f i)"
    using content_fields [of "inst g i" "inst f i"] g(2) by simp_all
  consider (stay) "simplify_visit tt i st = st" | (made) "simplify_visit tt i st = (ch, f1)"
    | (drop) "simplify_visit tt i st = (True, remove_inst i ?h)" "opcode_result_kind (in_op (inst f i)) = RValue"
        "in_flags (inst f i) AND INST_FLAG_VOLATILE = 0"
  proof -
    have "simplify_visit tt i st =
        (if opcode_result_kind (in_op (inst f i)) = RValue \<and> in_flags (inst f i) AND INST_FLAG_VOLATILE = 0
         then (if v \<noteq> 0 \<and> v \<noteq> in_result (inst g i) then (True, remove_inst i ?h) else (ch, f1)) else st)"
      using s fld by (simp add: simplify_visit_def st_eq Let_def)
    then show ?thesis
      using that by (simp split: if_splits)
  qed
  then show "simp_state f bs L (insert i V) (simplify_visit tt i st)"
  proof cases
    case stay
    have "D \<subseteq> insert i V"
      using D(1) by blast
    then show ?thesis
      unfolding stay simp_state_def using D(2-4) g by (auto simp: st_eq)
  next
    case made
    have "fn_inv f1 bs (without D L)" "inst f1 = inst g"
      using same_shape_fn_inv [OF sh(1)] D(2) by simp_all
    then show ?thesis
      unfolding simp_state_def made fst_conv snd_conv using D g sh(1,3)
      by (intro conjI exI [of _ D]) (auto simp: same_shape_def)
  next
    case drop
    have h: "fn_inv ?h bs (without D L)" "inst ?h = inst g"
      using same_shape_fn_inv [OF sh(2)] D(2) by simp_all
    have body: "same_body ?h (remove_inst i ?h)"
      by (rule same_body_remove_inst)
    have val: "valid_block (remove_inst i ?h) c \<Longrightarrow> valid_block f c" for c
      using same_body_reads(14) [OF body] sh(2) g(4) by (simp add: valid_block_def same_shape_def)
    have "distinct (L b)"
      using lists_invD(3) fn_invD [OF inv b] by blast
    then have "without (insert i D) L b = ?xs @ rest"
      using V D(1) by (intro without_insert [where L = L, OF L]) auto
    moreover have "without (insert i D) L c = without D L c" if "valid_block f c" "c \<noteq> b" for c
      using fn_inv_owner [OF inv fn_invD(1) [OF inv b] that(1), of i] that(2) L by (auto simp: without_def intro!: filter_cong)
    ultimately have "fn_inv (remove_inst i ?h) bs (without (insert i D) L)"
      using fn_inv_remove [OF h(1) b split] val by (elim fn_inv_cong) auto
    moreover have "constants_inv (remove_inst i ?h)"
      using sh(4) same_body_fields [OF body] by (simp add: constants_inv_def constants_part_def)
    moreover have "\<forall>j. content (inst (remove_inst i ?h) j) = content (inst f j)"
      "length (fn_insts (remove_inst i ?h)) = length (fn_insts f)" "length (fn_blocks (remove_inst i ?h)) = length (fn_blocks f)"
      using body g h(2) sh(2) by (simp_all add: same_body_def same_shape_def)
    ultimately show ?thesis
      unfolding simp_state_def drop(1) fst_conv snd_conv using D(1,4) drop(2,3)
      by (intro conjI exI [of _ "insert i D"]) auto
  qed
qed

definition simp_block_state ::
  "air_function \<Rightarrow> block_id list \<Rightarrow> (block_id \<Rightarrow> inst_id list) \<Rightarrow> inst_id set \<Rightarrow> block_id \<Rightarrow>
   bool \<times> air_function \<Rightarrow> inst_id list \<Rightarrow> bool" where
  "simp_block_state f bs L V b st rest \<longleftrightarrow>
     fn_inv f bs L \<and> b \<in> set bs \<and> V \<inter> set (L b) = {} \<and> (\<exists>vis. L b = vis @ rest \<and> simp_state f bs L (V \<union> set vis) st)"

interpretation simp_insts:
  traversal "\<lambda>st i. in_next (inst (snd st) i)" "simplify_visit tt" "simp_block_state f bs L V b"
  for tt f bs L V b
proof
  fix st i rest
  assume "simp_block_state f bs L V b st (i # rest)"
  then obtain vis where v: "fn_inv f bs L" "b \<in> set bs" "V \<inter> set (L b) = {}" "L b = vis @ i # rest"
      "simp_state f bs L (V \<union> set vis) st"
    by (auto simp: simp_block_state_def)
  have "distinct (L b)"
    using lists_invD(3) fn_invD [OF v(1,2)] by blast
  then have "(V \<union> set vis) \<inter> set (i # rest) = {}"
    using v(3,4) by auto
  note step = simp_state_step [OF v(1,2,4) this v(5)]
  show "in_next (inst (snd st) i) = first_of rest 0" "i \<noteq> 0"
    using step(1,2) by simp_all
  have "L b = (vis @ [i]) @ rest \<and> simp_state f bs L (V \<union> set (vis @ [i])) (simplify_visit tt i st)"
    using v(4) step(3) by simp
  then show "simp_block_state f bs L V b (simplify_visit tt i st) rest"
    unfolding simp_block_state_def using v(1-3) by blast
qed

lemma simplify_block_returns:
  assumes inv: "fn_inv f bs L" and b: "b \<in> set bs" and V: "V \<inter> set (L b) = {}" and st: "simp_state f bs L V st"
  shows "\<exists>st'. simplify_block tt b st = Some st' \<and> simp_state f bs L (V \<union> set (L b)) st'"
proof -
  obtain D where D: "D \<subseteq> V" "fn_inv (snd st) bs (without D L)"
    using st by (auto simp: simp_state_def)
  have "without D L b = L b"
    using V D(1) by (auto simp: without_def intro!: filter_True)
  then have first: "bd_first (block (snd st) b) = first_of (L b) 0"
    using lists_invD(2) [OF fn_invD(2,1) [OF D(2) b]] by (simp add: dll_def)
  have "length (L b) \<le> length (fn_insts f)"
    using fn_invD [OF inv b] lists_invD(1,3) [of f L b] by (intro distinct_bound) (simp_all add: valid_inst_def)
  then have len: "length (L b) \<le> length (fn_insts (snd st))"
    using st by (simp add: simp_state_def)
  have "simp_block_state f bs L V b st (L b)"
    using inv b V st by (auto simp: simp_block_state_def)
  note r = simp_insts.visit_fold [OF this len, of tt]
  then have "simp_state f bs L (V \<union> set (L b)) (fold (simplify_visit tt) (L b) st)"
    by (auto simp: simp_block_state_def)
  then show ?thesis
    using r by (simp add: simplify_block_def first)
qed

definition simp_blocks_state ::
  "air_function \<Rightarrow> block_id list \<Rightarrow> (block_id \<Rightarrow> inst_id list) \<Rightarrow> bool \<times> air_function \<Rightarrow> block_id list \<Rightarrow> bool" where
  "simp_blocks_state f bs L st cs \<longleftrightarrow>
     fn_inv f bs L \<and> (\<exists>ds. bs = ds @ cs \<and> simp_state f bs L (\<Union>d \<in> set ds. set (L d)) st)"

interpretation simp_blocks:
  for_loop "\<lambda>st b. bd_next (block (snd st) b)" "simplify_block tt" "simp_blocks_state f bs L"
  for tt f bs L
proof
  fix st b cs
  assume "simp_blocks_state f bs L st (b # cs)"
  then obtain ds where d: "fn_inv f bs L" "bs = ds @ b # cs" "simp_state f bs L (\<Union>d \<in> set ds. set (L d)) st"
    by (auto simp: simp_blocks_state_def)
  have b: "b \<in> set bs"
    using d(2) by simp
  show "b \<noteq> 0"
    using fn_invD(3) [OF d(1) b] .
  have "distinct bs"
    using d(1) by (simp add: fn_inv_def blocks_inv_def dll_def)
  then have "(\<Union>d \<in> set ds. set (L d)) \<inter> set (L b) = {}"
    using fn_inv_owner [OF d(1)] fn_invD(1) [OF d(1)] d(2) by fastforce
  from simplify_block_returns [OF d(1) b this d(3)]
  obtain st' where st': "simplify_block tt b st = Some st'" "simp_state f bs L ((\<Union>d \<in> set ds. set (L d)) \<union> set (L b)) st'"
    by blast
  have "dll (\<lambda>b. bd_next (block (snd st') b)) (\<lambda>b. bd_prev (block (snd st') b))
      (fn_entry_block (snd st')) (fn_last_block (snd st')) (ds @ b # cs)"
    using st'(2) d(2) by (auto simp: simp_state_def fn_inv_def blocks_inv_def)
  then have "bd_next (block (snd st') b) = first_of cs 0"
    using dll_middle(2) by fastforce
  moreover have "bs = (ds @ [b]) @ cs \<and> simp_state f bs L (\<Union>d \<in> set (ds @ [b]). set (L d)) st'"
    using d(2) st'(2) by (simp add: Un_commute)
  ultimately show "\<exists>st'. simplify_block tt b st = Some st' \<and> bd_next (block (snd st') b) = first_of cs 0
      \<and> simp_blocks_state f bs L st' cs"
    unfolding simp_blocks_state_def using st'(1) d(1) by blast
qed

lemma simplify_round_returns:
  assumes inv: "fn_inv f bs L" and c: "constants_inv f"
  shows "\<exists>st. simplify_round tt f = Some st \<and> simp_state f bs L (set (all_insts bs L)) st"
proof -
  have "simp_state f bs L {} (False, f)"
    using inv c by (simp add: simp_state_def without_simps)
  then have start: "simp_blocks_state f bs L (False, f) bs"
    using inv by (auto simp: simp_blocks_state_def)
  have "\<forall>b \<in> set bs. valid_block f b" "distinct bs" "fn_entry_block f = first_of bs 0"
    using inv by (simp_all add: fn_inv_def blocks_inv_def dll_def)
  then have "length bs \<le> length (fn_blocks f)" "fn_entry_block f = first_of bs 0"
    by (auto simp: valid_block_def intro!: distinct_bound)
  with simp_blocks.for_each_returns [OF start, of "length (fn_blocks f)" tt]
  obtain st' where st': "simplify_round tt f = Some st'" "simp_blocks_state f bs L st' []"
    by (auto simp: simplify_round_def)
  then have "simp_state f bs L (set (all_insts bs L)) st'"
    by (auto simp: simp_blocks_state_def set_all_insts)
  then show ?thesis
    using st'(1) by blast
qed

lemma simplify_rounds_returns:
  assumes "fn_inv f bs L" "constants_inv f" "length (all_insts bs L) < n"
  shows "\<exists>changed' f' D. simplify_rounds tt n changed f = Some (changed', f') \<and> D \<subseteq> set (all_insts bs L)
     \<and> fn_inv f' bs (without D L) \<and> constants_inv f' \<and> (changed' \<longleftrightarrow> changed \<or> D \<noteq> {})
     \<and> (\<forall>i \<in> D. opcode_result_kind (in_op (inst f i)) = RValue \<and> in_flags (inst f i) AND INST_FLAG_VOLATILE = 0)
     \<and> (\<forall>i. content (inst f' i) = content (inst f i))"
  using assms
proof (induction n arbitrary: f L changed)
  case (Suc n)
  obtain rc g where r: "simplify_round tt f = Some (rc, g)" "simp_state f bs L (set (all_insts bs L)) (rc, g)"
    using simplify_round_returns [OF Suc.prems(1,2), of tt] by auto
  then obtain D where D: "D \<subseteq> set (all_insts bs L)" "fn_inv g bs (without D L)" "rc \<longleftrightarrow> D \<noteq> {}"
      "\<forall>i \<in> D. opcode_result_kind (in_op (inst f i)) = RValue \<and> in_flags (inst f i) AND INST_FLAG_VOLATILE = 0"
    and g: "constants_inv g" "\<forall>i. content (inst g i) = content (inst f i)"
    by (auto simp: simp_state_def)
  show ?case
  proof (cases rc)
    case False
    then show ?thesis
      using r(1) D g by auto
  next
    case True
    then obtain i where "i \<in> set (all_insts bs L)" "i \<in> D"
      using D(1,3) by auto
    then have "length (all_insts bs (without D L)) < n"
      using Suc.prems(3) length_filter_less [of i "all_insts bs L" "\<lambda>i. i \<notin> D"] by (simp add: without_simps)
    from Suc.IH [OF D(2) g(1) this, of True]
    obtain ch h E where h: "simplify_rounds tt n True g = Some (ch, h)" "E \<subseteq> set (all_insts bs (without D L))"
        "fn_inv h bs (without E (without D L))" "constants_inv h" "ch"
        "\<forall>i \<in> E. opcode_result_kind (in_op (inst g i)) = RValue \<and> in_flags (inst g i) AND INST_FLAG_VOLATILE = 0"
        "\<forall>i. content (inst h i) = content (inst g i)"
      by blast
    have "fn_inv h bs (without (D \<union> E) L)"
      using h(3) by (simp add: without_simps Un_commute)
    moreover have "\<forall>i \<in> E. opcode_result_kind (in_op (inst f i)) = RValue \<and> in_flags (inst f i) AND INST_FLAG_VOLATILE = 0"
      using h(6) g(2) content_fields(1,2) by metis
    moreover have "D \<union> E \<subseteq> set (all_insts bs L)"
      using D(1) h(2) by (auto simp: without_simps)
    ultimately show ?thesis
      using r(1) True h(1,4,5,7) D(3,4) g(2) by (intro exI [of _ ch] exI [of _ h] exI [of _ "D \<union> E"]) auto
  qed
qed simp

lemma run_instsimplify_returns:
  assumes "fn_inv f bs L" "constants_inv f"
  shows "\<exists>changed f' D. run_instsimplify tt f = Some (changed, f') \<and> D \<subseteq> set (all_insts bs L)
     \<and> fn_inv f' bs (without D L) \<and> constants_inv f' \<and> (changed \<longleftrightarrow> D \<noteq> {})
     \<and> (\<forall>i \<in> D. opcode_result_kind (in_op (inst f i)) = RValue \<and> in_flags (inst f i) AND INST_FLAG_VOLATILE = 0)
     \<and> (\<forall>i. content (inst f' i) = content (inst f i))"
  using simplify_rounds_returns [OF assms fn_inv_distinct(2) [OF assms(1)], of tt False] by (simp add: run_instsimplify_def)

end
