(* ===== verification/Air_Module.thy ===== *)
theory Air_Module
  imports Air_Function
begin

text \<open>
  Modules of AIR (\<open>air/module.h\<close>, \<open>air/module.cpp\<close>): the functions and globals of a translation
  unit with the maps from their names, the type table, and the payloads instructions refer to.
  Position 0 of both vectors is unused. A function is owned by the module, so a pass that is
  given a reference to it writes back what it returns.
\<close>

section \<open>Data\<close>

datatype global_init_kind = InitNone | InitZero | InitBytes

record init_reloc =
  rl_offset :: u64
  rl_is_function :: bool
  rl_target_index :: nat
  rl_addend :: "64 word"

record global_init =
  gi_kind :: global_init_kind
  gi_bytes :: "u8 list"
  gi_relocs :: "init_reloc list"

definition init_none :: global_init where
  "init_none = \<lparr>gi_kind = InitNone, gi_bytes = [], gi_relocs = []\<rparr>"

definition init_zero :: global_init where
  "init_zero = \<lparr>gi_kind = InitZero, gi_bytes = [], gi_relocs = []\<rparr>"

definition init_data :: "u8 list \<Rightarrow> init_reloc list \<Rightarrow> global_init" where
  "init_data bytes relocs = \<lparr>gi_kind = InitBytes, gi_bytes = bytes, gi_relocs = relocs\<rparr>"

datatype section_kind = SecData | SecConst | SecCstring | SecZerofill | SecText | SecCustom

record global_data =
  gd_name :: string
  gd_size_bytes :: u64
  gd_align_bytes :: u32
  gd_linkage :: linkage
  gd_section :: section_kind
  gd_attrs :: symbol_attrs
  gd_custom_section :: string
  gd_is_thread_local :: bool
  gd_init :: global_init
  gd_loc :: u32

record ctor_entry =
  ce_priority :: u32
  ce_func :: nat

record asm_payload =
  ap_text :: string
  ap_constraints :: "string list"
  ap_operand_types :: "type_id list"
  ap_clobbers :: "string list"
  ap_register_bindings :: "string list"

record eh_landing_pad_payload =
  eh_is_cleanup :: bool
  eh_has_catch_all :: bool
  eh_clause_typeinfos :: "nat list"

text \<open>Of the target the module reads the pointer width and the triple.\<close>

record air_module =
  ma_types :: type_table
  ma_pointer_width :: nat
  ma_triple :: string
  ma_functions :: "air_function option list"
  ma_globals :: "global_data option list"
  ma_ctors :: "ctor_entry list"
  ma_module_asm :: "string list"
  ma_asm_payloads :: "asm_payload list"
  ma_eh_payloads :: "eh_landing_pad_payload list"
  ma_function_names :: "(string \<times> nat) list"
  ma_global_names :: "(string \<times> nat) list"

section \<open>Operations\<close>

definition new_module :: "nat \<Rightarrow> string \<Rightarrow> air_module" where
  "new_module pointer_width target_triple =
     \<lparr>ma_types = new_type_table, ma_pointer_width = pointer_width, ma_triple = target_triple,
      ma_functions = [None], ma_globals = [None], ma_ctors = [], ma_module_asm = [], ma_asm_payloads = [],
      ma_eh_payloads = [], ma_function_names = [], ma_global_names = []\<rparr>"

definition ptr_size_bytes :: "air_module \<Rightarrow> nat" where
  "ptr_size_bytes m = ma_pointer_width m div 8"

definition set_triple :: "string \<Rightarrow> air_module \<Rightarrow> air_module" where
  "set_triple triple m = m\<lparr>ma_triple := triple\<rparr>"

text \<open>\<open>emplace\<close> keeps an entry that is there.\<close>

definition emplace :: "string \<Rightarrow> nat \<Rightarrow> (string \<times> nat) list \<Rightarrow> (string \<times> nat) list" where
  "emplace name index names = (if map_of names name = None then (name, index) # names else names)"

definition create_function :: "string \<Rightarrow> sig_id \<Rightarrow> linkage \<Rightarrow> air_module \<Rightarrow> nat \<times> air_module" where
  "create_function name sig link m =
     (let index = length (ma_functions m)
      in (index, m\<lparr>ma_function_names := emplace name index (ma_function_names m),
                   ma_functions := ma_functions m @ [Some (new_function name sig link)]\<rparr>))"

definition function_of :: "air_module \<Rightarrow> nat \<Rightarrow> air_function" where
  "function_of m index = the (ma_functions m ! index)"

definition put_function :: "nat \<Rightarrow> air_function \<Rightarrow> air_module \<Rightarrow> air_module" where
  "put_function index f m = m\<lparr>ma_functions := (ma_functions m)[index := Some f]\<rparr>"

definition find_function :: "air_module \<Rightarrow> string \<Rightarrow> nat" where
  "find_function m name = (case map_of (ma_function_names m) name of None \<Rightarrow> 0 | Some index \<Rightarrow> index)"

definition function_count :: "air_module \<Rightarrow> nat" where
  "function_count m = length (ma_functions m) - 1"

definition valid_func :: "air_module \<Rightarrow> nat \<Rightarrow> bool" where
  "valid_func m index \<longleftrightarrow> 0 < index \<and> index < length (ma_functions m)"

definition create_global :: "global_data \<Rightarrow> air_module \<Rightarrow> nat \<times> air_module" where
  "create_global data m =
     (let index = length (ma_globals m)
      in (index, m\<lparr>ma_global_names := emplace (gd_name data) index (ma_global_names m),
                   ma_globals := ma_globals m @ [Some data]\<rparr>))"

definition global_of :: "air_module \<Rightarrow> nat \<Rightarrow> global_data" where
  "global_of m index = the (ma_globals m ! index)"

definition find_global :: "air_module \<Rightarrow> string \<Rightarrow> nat" where
  "find_global m name = (case map_of (ma_global_names m) name of None \<Rightarrow> 0 | Some index \<Rightarrow> index)"

definition global_count :: "air_module \<Rightarrow> nat" where
  "global_count m = length (ma_globals m) - 1"

definition valid_global :: "air_module \<Rightarrow> nat \<Rightarrow> bool" where
  "valid_global m index \<longleftrightarrow> 0 < index \<and> index < length (ma_globals m)"

definition add_ctor :: "u32 \<Rightarrow> nat \<Rightarrow> air_module \<Rightarrow> air_module" where
  "add_ctor priority func m = m\<lparr>ma_ctors := ma_ctors m @ [\<lparr>ce_priority = priority, ce_func = func\<rparr>]\<rparr>"

definition add_module_asm :: "string \<Rightarrow> air_module \<Rightarrow> air_module" where
  "add_module_asm code m = m\<lparr>ma_module_asm := ma_module_asm m @ [code]\<rparr>"

definition add_asm_payload :: "asm_payload \<Rightarrow> air_module \<Rightarrow> nat \<times> air_module" where
  "add_asm_payload payload m = (length (ma_asm_payloads m), m\<lparr>ma_asm_payloads := ma_asm_payloads m @ [payload]\<rparr>)"

definition asm_payload_of :: "air_module \<Rightarrow> nat \<Rightarrow> asm_payload" where
  "asm_payload_of m index = ma_asm_payloads m ! index"

definition add_eh_landing_pad_payload :: "eh_landing_pad_payload \<Rightarrow> air_module \<Rightarrow> nat \<times> air_module" where
  "add_eh_landing_pad_payload payload m =
     (length (ma_eh_payloads m), m\<lparr>ma_eh_payloads := ma_eh_payloads m @ [payload]\<rparr>)"

definition eh_payload_of :: "air_module \<Rightarrow> nat \<Rightarrow> eh_landing_pad_payload" where
  "eh_payload_of m index = ma_eh_payloads m ! index"

section \<open>Names\<close>

text \<open>
  A table of named entries: names lead to the entries that carry them, every entry is found by
  its name, and position 0 is unused.
\<close>

definition named ::
  "('a \<Rightarrow> string) \<Rightarrow> 'a option list \<Rightarrow> (string \<times> nat) list \<Rightarrow> bool" where
  "named nm entries names \<longleftrightarrow>
     (\<exists>rest. entries = None # map Some rest)
     \<and> (\<forall>name index. map_of names name = Some index \<longleftrightarrow>
          0 < index \<and> index < length entries \<and> nm (the (entries ! index)) = name)"

definition module_inv :: "air_module \<Rightarrow> bool" where
  "module_inv m \<longleftrightarrow> named fn_name (ma_functions m) (ma_function_names m) \<and> named gd_name (ma_globals m) (ma_global_names m)"

lemma named_add:
  assumes inv: "named nm entries names" and new: "map_of names (nm x) = None"
  shows "named nm (entries @ [Some x]) (emplace (nm x) (length entries) names)"
proof -
  obtain rest where rest: "entries = None # map Some rest"
    using inv by (auto simp: named_def)
  have "map_of (emplace (nm x) (length entries) names) name = Some index \<longleftrightarrow>
      0 < index \<and> index < length (entries @ [Some x]) \<and> nm (the ((entries @ [Some x]) ! index)) = name" for name index
  proof (cases "index = length entries")
    case True
    have "map_of names name \<noteq> Some (length entries)"
      using inv by (auto simp: named_def)
    moreover have "(entries @ [Some x]) ! index = Some x"
      using True by simp
    moreover have "0 < length entries"
      using rest by simp
    ultimately show ?thesis
      using True new by (auto simp: emplace_def)
  next
    case False
    then have "(map_of names name = Some index) \<longleftrightarrow>
      0 < index \<and> index < length (entries @ [Some x]) \<and> nm (the ((entries @ [Some x]) ! index)) = name"
      using inv by (auto simp: named_def nth_append)
    then show ?thesis
      using False new by (auto simp: emplace_def)
  qed
  then show ?thesis
    using rest unfolding named_def by (intro conjI exI [of _ "rest @ [x]"]) auto
qed

lemma named_lookup:
  assumes "named nm entries names" "0 < index" "index < length entries"
  shows "map_of names (nm (the (entries ! index))) = Some index"
  using assms by (auto simp: named_def)

lemma named_put:
  assumes inv: "named nm entries names" and i: "0 < index" "nm x = nm (the (entries ! index))"
  shows "named nm (entries[index := Some x]) names"
proof -
  obtain rest where rest: "entries = None # map Some rest"
    using inv by (auto simp: named_def)
  have "entries[index := Some x] = None # map Some (rest[index - 1 := x])"
    using i rest by (cases index) (simp_all add: map_update)
  moreover have "nm (the (entries[index := Some x] ! j)) = nm (the (entries ! j))" if "j < length entries" for j
    using that i by (cases "j = index") simp_all
  then have "(map_of names name = Some j) \<longleftrightarrow>
      0 < j \<and> j < length (entries[index := Some x]) \<and> nm (the (entries[index := Some x] ! j)) = name" for name j
    using inv unfolding named_def by (metis length_list_update)
  ultimately show ?thesis
    unfolding named_def by blast
qed

lemma module_inv_ops:
  assumes "module_inv m"
  shows "find_function m name = 0 \<Longrightarrow> module_inv (snd (create_function name sig link m))"
    "find_global m (gd_name data) = 0 \<Longrightarrow> module_inv (snd (create_global data m))"
    "valid_func m index \<Longrightarrow> fn_name f = fn_name (function_of m index) \<Longrightarrow> module_inv (put_function index f m)"
proof -
  show "module_inv (snd (create_function name sig link m))" if "find_function m name = 0"
  proof -
    have n: "fn_name (new_function name sig link) = name"
      by (simp add: new_function_def)
    have "map_of (ma_function_names m) name = None"
      using assms that by (auto simp: module_inv_def named_def find_function_def split: option.splits)
    then show ?thesis
      using named_add [of fn_name "ma_functions m" "ma_function_names m" "new_function name sig link"] assms
      by (simp add: module_inv_def create_function_def Let_def n)
  qed
  show "module_inv (snd (create_global data m))" if "find_global m (gd_name data) = 0"
  proof -
    have "map_of (ma_global_names m) (gd_name data) = None"
      using assms that by (auto simp: module_inv_def named_def find_global_def split: option.splits)
    then show ?thesis
      using named_add [of gd_name "ma_globals m" "ma_global_names m" data] assms
      by (simp add: module_inv_def create_global_def Let_def)
  qed
  show "module_inv (put_function index f m)" if "valid_func m index" "fn_name f = fn_name (function_of m index)"
    using assms that named_put [of fn_name "ma_functions m" "ma_function_names m" index f]
    by (simp add: module_inv_def put_function_def valid_func_def function_of_def)
qed

lemma new_module_inv: "module_inv (new_module w t)"
  by (auto simp: module_inv_def new_module_def named_def)

end
