(* ===== verification/Air_Builder.thy ===== *)
theory Air_Builder
  imports Air_Module Air_Rewrite
begin

text \<open>
  The builder (\<open>air/builder.h\<close>, \<open>air/builder.cpp\<close>): it makes the instructions of a function at an
  insertion point, at the end of a block or before an instruction. An operation with a result
  returns the value, 0 when the instruction has none. The builder refers to the module and to one
  function of it; of the module it reads the types, the signatures of functions and the pointer
  width, none of which the function under construction changes. An \<open>assert\<close> of the source is a
  precondition of the theorems.
\<close>

section \<open>State\<close>

record builder =
  bu_module :: air_module
  bu_func :: air_function
  bu_block :: block_id
  bu_before :: inst_id
  bu_loc :: u32

definition new_builder :: "air_module \<Rightarrow> air_function \<Rightarrow> builder" where
  "new_builder m f = \<lparr>bu_module = m, bu_func = f, bu_block = 0, bu_before = 0, bu_loc = 0\<rparr>"

text \<open>A call of an operation of the function.\<close>

definition on_func :: "(air_function \<Rightarrow> 'a \<times> air_function) \<Rightarrow> builder \<Rightarrow> 'a \<times> builder" where
  "on_func g bu = (case g (bu_func bu) of (x, f) \<Rightarrow> (x, bu\<lparr>bu_func := f\<rparr>))"

definition build_create_block :: "type_id list \<Rightarrow> builder \<Rightarrow> block_id \<times> builder" where
  "build_create_block param_types = on_func (create_block param_types)"

definition set_insertion_point :: "block_id \<Rightarrow> builder \<Rightarrow> builder" where
  "set_insertion_point b bu = bu\<lparr>bu_block := b, bu_before := 0\<rparr>"

definition set_insertion_before :: "inst_id \<Rightarrow> builder \<Rightarrow> builder" where
  "set_insertion_before i bu = bu\<lparr>bu_block := in_block (inst (bu_func bu) i), bu_before := i\<rparr>"

definition build_set_loc :: "u32 \<Rightarrow> builder \<Rightarrow> builder" where
  "build_set_loc loc bu = bu\<lparr>bu_loc := loc\<rparr>"

section \<open>Constants\<close>

text \<open>The bits of an integer constant beyond the width of its type are cleared.\<close>

definition canonical_bits :: "type_table \<Rightarrow> type_id \<Rightarrow> u64 \<Rightarrow> u64 \<Rightarrow> u64 \<times> u64" where
  "canonical_bits tt ty bits high_bits =
     (if type_valid tt ty \<and> is_int tt ty then
        let width = unat (int_width tt ty)
        in if width < 64 then (bits AND (if width = 0 then 0 else push_bit width 1 - 1), 0)
           else if width = 64 then (bits, 0)
           else if width < 128 then (bits, high_bits AND (push_bit (width - 64) 1 - 1))
           else (bits, high_bits)
      else (bits, high_bits))"

definition build_const_int :: "type_id \<Rightarrow> u64 \<Rightarrow> u64 \<Rightarrow> builder \<Rightarrow> value_id \<times> builder" where
  "build_const_int ty bits high_bits bu =
     (case canonical_bits (ma_types (bu_module bu)) ty bits high_bits of
        (bits', high_bits') \<Rightarrow> on_func (const_int ty bits' high_bits') bu)"

definition build_const_bool :: "bool \<Rightarrow> builder \<Rightarrow> value_id \<times> builder" where
  "build_const_bool v = build_const_int types_I8 (if v then 1 else 0) 0"

definition build_const_i32 :: "32 word \<Rightarrow> builder \<Rightarrow> value_id \<times> builder" where
  "build_const_i32 v = build_const_int types_I32 (ucast v) 0"

definition build_const_i64 :: "64 word \<Rightarrow> builder \<Rightarrow> value_id \<times> builder" where
  "build_const_i64 v = build_const_int types_I64 v 0"

definition build_const_float_bits :: "type_id \<Rightarrow> u64 \<Rightarrow> u64 \<Rightarrow> builder \<Rightarrow> value_id \<times> builder" where
  "build_const_float_bits ty bits high_bits = on_func (const_float_bits ty bits high_bits)"

definition build_const_null :: "u32 \<Rightarrow> builder \<Rightarrow> value_id \<times> builder" where
  "build_const_null address_space bu =
     (case get_ptr address_space (ma_types (bu_module bu)) of
        (ty, tt) \<Rightarrow> on_func (const_null ty) (bu\<lparr>bu_module := (bu_module bu)\<lparr>ma_types := tt\<rparr>\<rparr>))"

definition build_undef :: "type_id \<Rightarrow> builder \<Rightarrow> value_id \<times> builder" where
  "build_undef ty = on_func (undef ty)"

definition build_global_addr :: "nat \<Rightarrow> builder \<Rightarrow> value_id \<times> builder" where
  "build_global_addr global = on_func (global_addr global types_PTR)"

definition build_func_addr :: "nat \<Rightarrow> builder \<Rightarrow> value_id \<times> builder" where
  "build_func_addr callee = on_func (func_addr callee types_PTR)"

definition build_label_addr :: "block_id \<Rightarrow> builder \<Rightarrow> value_id \<times> builder" where
  "build_label_addr target = on_func (label_addr target types_PTR)"

definition build_size_int_type :: "builder \<Rightarrow> type_id" where
  "build_size_int_type bu = (if ma_pointer_width (bu_module bu) = 64 then types_I64 else types_I32)"

definition build_const_usize :: "64 word \<Rightarrow> builder \<Rightarrow> value_id \<times> builder" where
  "build_const_usize v bu = build_const_int (build_size_int_type bu) v 0 bu"

section \<open>Emitting instructions\<close>

definition emit :: "opcode \<Rightarrow> type_id \<Rightarrow> value_id list \<Rightarrow> u64 \<Rightarrow> u16 \<Rightarrow> u64 \<Rightarrow> builder \<Rightarrow> inst_id \<times> builder" where
  "emit op result_type ops aux flags aux2 bu =
     (case make_inst op result_type ops aux (bu_loc bu) flags aux2 (bu_func bu) of
        (i, f) \<Rightarrow>
          (i, bu\<lparr>bu_func := (if bu_before bu \<noteq> 0 then insert_before (bu_before bu) i f
                             else append_inst (bu_block bu) i f)\<rparr>))"

definition result_of :: "inst_id \<times> builder \<Rightarrow> value_id \<times> builder" where
  "result_of r = (case r of (i, bu) \<Rightarrow> (in_result (inst (bu_func bu) i), bu))"

definition emit_void :: "opcode \<Rightarrow> value_id list \<Rightarrow> u64 \<Rightarrow> u16 \<Rightarrow> u64 \<Rightarrow> builder \<Rightarrow> builder" where
  "emit_void op ops aux flags aux2 bu = snd (emit op 0 ops aux flags aux2 bu)"

definition binary :: "opcode \<Rightarrow> value_id \<Rightarrow> value_id \<Rightarrow> builder \<Rightarrow> value_id \<times> builder" where
  "binary op a b bu = result_of (emit op (value_type (bu_func bu) a) [a, b] 0 0 0 bu)"

definition unary_same_type :: "opcode \<Rightarrow> value_id \<Rightarrow> builder \<Rightarrow> value_id \<times> builder" where
  "unary_same_type op a bu = result_of (emit op (value_type (bu_func bu) a) [a] 0 0 0 bu)"

text \<open>
  The binary logarithm of a power of two. The shift of a 32-bit one has no more than 31 steps to
  go before it passes every such alignment.
\<close>

fun log2_from :: "nat \<Rightarrow> nat \<Rightarrow> u32 \<Rightarrow> nat" where
  "log2_from 0 log2 align_bytes = log2"
| "log2_from (Suc n) log2 align_bytes =
     (if push_bit log2 1 < align_bytes then log2_from n (log2 + 1) align_bytes else log2)"

definition align_log2_of :: "u32 \<Rightarrow> u8" where
  "align_log2_of align_bytes = of_nat (log2_from 32 0 align_bytes)"

definition volatile_flag :: "bool \<Rightarrow> u16" where
  "volatile_flag is_volatile = (if is_volatile then INST_FLAG_VOLATILE else 0)"

section \<open>Memory\<close>

definition build_stack_alloc :: "u64 \<Rightarrow> u32 \<Rightarrow> builder \<Rightarrow> value_id \<times> builder" where
  "build_stack_alloc size_bytes align_bytes bu =
     result_of (emit OpStackAlloc types_PTR [] (pack_stack_alloc_aux size_bytes (align_log2_of align_bytes)) 0 0 bu)"

definition build_stack_alloc_dyn :: "value_id \<Rightarrow> u32 \<Rightarrow> builder \<Rightarrow> value_id \<times> builder" where
  "build_stack_alloc_dyn size_bytes align_bytes bu =
     result_of (emit OpStackAllocDyn types_PTR [size_bytes] (ucast (align_log2_of align_bytes)) 0 0 bu)"

definition build_stack_save :: "builder \<Rightarrow> value_id \<times> builder" where
  "build_stack_save bu =
     result_of (emit OpStackSave types_PTR [] 0 0 0 bu)"

definition build_stack_restore :: "value_id \<Rightarrow> builder \<Rightarrow> builder" where
  "build_stack_restore saved bu =
     emit_void OpStackRestore [saved] 0 0 0 bu"

definition build_load :: "type_id \<Rightarrow> value_id \<Rightarrow> u32 \<Rightarrow> bool \<Rightarrow> builder \<Rightarrow> value_id \<times> builder" where
  "build_load ty ptr align_bytes is_volatile bu =
     result_of (emit OpLoad ty [ptr] (ucast (align_log2_of align_bytes)) (volatile_flag is_volatile) 0 bu)"

definition build_store :: "value_id \<Rightarrow> value_id \<Rightarrow> u32 \<Rightarrow> bool \<Rightarrow> builder \<Rightarrow> builder" where
  "build_store val ptr align_bytes is_volatile bu =
     emit_void OpStore [val, ptr] (ucast (align_log2_of align_bytes)) (volatile_flag is_volatile) 0 bu"

definition build_memcpy :: "value_id \<Rightarrow> value_id \<Rightarrow> value_id \<Rightarrow> builder \<Rightarrow> builder" where
  "build_memcpy dst src size_bytes bu =
     emit_void OpMemcpy [dst, src, size_bytes] 0 0 0 bu"

definition build_memmove :: "value_id \<Rightarrow> value_id \<Rightarrow> value_id \<Rightarrow> builder \<Rightarrow> builder" where
  "build_memmove dst src size_bytes bu =
     emit_void OpMemmove [dst, src, size_bytes] 0 0 0 bu"

definition build_memset :: "value_id \<Rightarrow> value_id \<Rightarrow> value_id \<Rightarrow> builder \<Rightarrow> builder" where
  "build_memset dst byte size_bytes bu =
     emit_void OpMemset [dst, byte, size_bytes] 0 0 0 bu"

definition build_atomic_load :: "type_id \<Rightarrow> value_id \<Rightarrow> u32 \<Rightarrow> mem_order \<Rightarrow> builder \<Rightarrow> value_id \<times> builder" where
  "build_atomic_load ty ptr align_bytes order bu =
     result_of (emit OpAtomicLoad ty [ptr] (pack_atomic_access_aux order (align_log2_of align_bytes)) 0 0 bu)"

definition build_atomic_store :: "value_id \<Rightarrow> value_id \<Rightarrow> u32 \<Rightarrow> mem_order \<Rightarrow> builder \<Rightarrow> builder" where
  "build_atomic_store val ptr align_bytes order bu =
     emit_void OpAtomicStore [val, ptr] (pack_atomic_access_aux order (align_log2_of align_bytes)) 0 0 bu"

definition build_atomic_rmw :: "rmw_op \<Rightarrow> value_id \<Rightarrow> value_id \<Rightarrow> mem_order \<Rightarrow> builder \<Rightarrow> value_id \<times> builder" where
  "build_atomic_rmw op ptr val order bu =
     result_of (emit OpAtomicRmw (value_type (bu_func bu) val) [ptr, val] (pack_rmw_aux op order) 0 0 bu)"

definition build_atomic_cas :: "value_id \<Rightarrow> value_id \<Rightarrow> value_id \<Rightarrow> mem_order \<Rightarrow> mem_order \<Rightarrow> builder \<Rightarrow> value_id \<times> builder" where
  "build_atomic_cas ptr expected desired success failure bu =
     result_of (emit OpAtomicCas (value_type (bu_func bu) desired) [ptr, expected, desired] (pack_cas_aux success failure) 0 0 bu)"

definition build_fence :: "mem_order \<Rightarrow> builder \<Rightarrow> builder" where
  "build_fence order bu =
     emit_void OpFence [] (enum_bits mem_orders order) 0 0 bu"

section \<open>Arithmetic\<close>

definition build_iadd :: "value_id \<Rightarrow> value_id \<Rightarrow> builder \<Rightarrow> value_id \<times> builder" where
  "build_iadd a b bu =
     binary OpIadd a b bu"

definition build_isub :: "value_id \<Rightarrow> value_id \<Rightarrow> builder \<Rightarrow> value_id \<times> builder" where
  "build_isub a b bu =
     binary OpIsub a b bu"

definition build_imul :: "value_id \<Rightarrow> value_id \<Rightarrow> builder \<Rightarrow> value_id \<times> builder" where
  "build_imul a b bu =
     binary OpImul a b bu"

definition build_iand :: "value_id \<Rightarrow> value_id \<Rightarrow> builder \<Rightarrow> value_id \<times> builder" where
  "build_iand a b bu =
     binary OpIand a b bu"

definition build_ior :: "value_id \<Rightarrow> value_id \<Rightarrow> builder \<Rightarrow> value_id \<times> builder" where
  "build_ior a b bu =
     binary OpIor a b bu"

definition build_ixor :: "value_id \<Rightarrow> value_id \<Rightarrow> builder \<Rightarrow> value_id \<times> builder" where
  "build_ixor a b bu =
     binary OpIxor a b bu"

definition build_shl :: "value_id \<Rightarrow> value_id \<Rightarrow> builder \<Rightarrow> value_id \<times> builder" where
  "build_shl a b bu =
     binary OpShl a b bu"

definition build_sdiv :: "value_id \<Rightarrow> value_id \<Rightarrow> builder \<Rightarrow> value_id \<times> builder" where
  "build_sdiv a b bu =
     binary OpSdiv a b bu"

definition build_udiv :: "value_id \<Rightarrow> value_id \<Rightarrow> builder \<Rightarrow> value_id \<times> builder" where
  "build_udiv a b bu =
     binary OpUdiv a b bu"

definition build_srem :: "value_id \<Rightarrow> value_id \<Rightarrow> builder \<Rightarrow> value_id \<times> builder" where
  "build_srem a b bu =
     binary OpSrem a b bu"

definition build_urem :: "value_id \<Rightarrow> value_id \<Rightarrow> builder \<Rightarrow> value_id \<times> builder" where
  "build_urem a b bu =
     binary OpUrem a b bu"

definition build_ashr :: "value_id \<Rightarrow> value_id \<Rightarrow> builder \<Rightarrow> value_id \<times> builder" where
  "build_ashr a b bu =
     binary OpAshr a b bu"

definition build_lshr :: "value_id \<Rightarrow> value_id \<Rightarrow> builder \<Rightarrow> value_id \<times> builder" where
  "build_lshr a b bu =
     binary OpLshr a b bu"

definition build_fadd :: "value_id \<Rightarrow> value_id \<Rightarrow> builder \<Rightarrow> value_id \<times> builder" where
  "build_fadd a b bu =
     binary OpFadd a b bu"

definition build_fsub :: "value_id \<Rightarrow> value_id \<Rightarrow> builder \<Rightarrow> value_id \<times> builder" where
  "build_fsub a b bu =
     binary OpFsub a b bu"

definition build_fmul :: "value_id \<Rightarrow> value_id \<Rightarrow> builder \<Rightarrow> value_id \<times> builder" where
  "build_fmul a b bu =
     binary OpFmul a b bu"

definition build_fdiv :: "value_id \<Rightarrow> value_id \<Rightarrow> builder \<Rightarrow> value_id \<times> builder" where
  "build_fdiv a b bu =
     binary OpFdiv a b bu"

definition build_frem :: "value_id \<Rightarrow> value_id \<Rightarrow> builder \<Rightarrow> value_id \<times> builder" where
  "build_frem a b bu =
     binary OpFrem a b bu"

definition build_fneg :: "value_id \<Rightarrow> builder \<Rightarrow> value_id \<times> builder" where
  "build_fneg a bu =
     result_of (emit OpFneg (value_type (bu_func bu) a) [a] 0 0 0 bu)"

definition build_bswap :: "value_id \<Rightarrow> builder \<Rightarrow> value_id \<times> builder" where
  "build_bswap a bu =
     unary_same_type OpBswap a bu"

definition build_clz :: "value_id \<Rightarrow> builder \<Rightarrow> value_id \<times> builder" where
  "build_clz a bu =
     unary_same_type OpClz a bu"

definition build_ctz :: "value_id \<Rightarrow> builder \<Rightarrow> value_id \<times> builder" where
  "build_ctz a bu =
     unary_same_type OpCtz a bu"

definition build_popcnt :: "value_id \<Rightarrow> builder \<Rightarrow> value_id \<times> builder" where
  "build_popcnt a bu =
     unary_same_type OpPopcnt a bu"

definition build_icmp :: "int_cond \<Rightarrow> value_id \<Rightarrow> value_id \<Rightarrow> builder \<Rightarrow> value_id \<times> builder" where
  "build_icmp cond a b bu =
     result_of (emit OpIcmp types_I8 [a, b] (enum_bits int_conds cond) 0 0 bu)"

definition build_fcmp :: "float_cond \<Rightarrow> value_id \<Rightarrow> value_id \<Rightarrow> builder \<Rightarrow> value_id \<times> builder" where
  "build_fcmp cond a b bu =
     result_of (emit OpFcmp types_I8 [a, b] (enum_bits float_conds cond) 0 0 bu)"

definition build_cast :: "opcode \<Rightarrow> type_id \<Rightarrow> value_id \<Rightarrow> builder \<Rightarrow> value_id \<times> builder" where
  "build_cast op to v bu =
     result_of (emit op to [v] 0 0 0 bu)"

definition build_trunc :: "type_id \<Rightarrow> value_id \<Rightarrow> builder \<Rightarrow> value_id \<times> builder" where
  "build_trunc to v bu =
     build_cast OpTrunc to v bu"

definition build_zext :: "type_id \<Rightarrow> value_id \<Rightarrow> builder \<Rightarrow> value_id \<times> builder" where
  "build_zext to v bu =
     build_cast OpZext to v bu"

definition build_sext :: "type_id \<Rightarrow> value_id \<Rightarrow> builder \<Rightarrow> value_id \<times> builder" where
  "build_sext to v bu =
     build_cast OpSext to v bu"

definition build_fptrunc :: "type_id \<Rightarrow> value_id \<Rightarrow> builder \<Rightarrow> value_id \<times> builder" where
  "build_fptrunc to v bu =
     build_cast OpFptrunc to v bu"

definition build_fpext :: "type_id \<Rightarrow> value_id \<Rightarrow> builder \<Rightarrow> value_id \<times> builder" where
  "build_fpext to v bu =
     build_cast OpFpext to v bu"

definition build_fptosi :: "type_id \<Rightarrow> value_id \<Rightarrow> builder \<Rightarrow> value_id \<times> builder" where
  "build_fptosi to v bu =
     build_cast OpFptosi to v bu"

definition build_fptoui :: "type_id \<Rightarrow> value_id \<Rightarrow> builder \<Rightarrow> value_id \<times> builder" where
  "build_fptoui to v bu =
     build_cast OpFptoui to v bu"

definition build_sitofp :: "type_id \<Rightarrow> value_id \<Rightarrow> builder \<Rightarrow> value_id \<times> builder" where
  "build_sitofp to v bu =
     build_cast OpSitofp to v bu"

definition build_uitofp :: "type_id \<Rightarrow> value_id \<Rightarrow> builder \<Rightarrow> value_id \<times> builder" where
  "build_uitofp to v bu =
     build_cast OpUitofp to v bu"

definition build_ptrtoint :: "type_id \<Rightarrow> value_id \<Rightarrow> builder \<Rightarrow> value_id \<times> builder" where
  "build_ptrtoint to v bu =
     build_cast OpPtrtoint to v bu"

definition build_inttoptr :: "type_id \<Rightarrow> value_id \<Rightarrow> builder \<Rightarrow> value_id \<times> builder" where
  "build_inttoptr to v bu =
     build_cast OpInttoptr to v bu"

definition build_bitcast :: "type_id \<Rightarrow> value_id \<Rightarrow> builder \<Rightarrow> value_id \<times> builder" where
  "build_bitcast to v bu =
     build_cast OpBitcast to v bu"

definition build_ptr_add :: "value_id \<Rightarrow> value_id \<Rightarrow> builder \<Rightarrow> value_id \<times> builder" where
  "build_ptr_add ptr byte_offset bu =
     result_of (emit OpPtrAdd (value_type (bu_func bu) ptr) [ptr, byte_offset] 0 0 0 bu)"

definition build_ptr_add_const :: "value_id \<Rightarrow> 64 word \<Rightarrow> builder \<Rightarrow> value_id \<times> builder" where
  "build_ptr_add_const ptr byte_offset bu =
     (case build_const_usize byte_offset bu of (v, bu1) \<Rightarrow> build_ptr_add ptr v bu1)"

definition build_select :: "value_id \<Rightarrow> value_id \<Rightarrow> value_id \<Rightarrow> builder \<Rightarrow> value_id \<times> builder" where
  "build_select cond a b bu =
     result_of (emit OpSelect (value_type (bu_func bu) a) [cond, a, b] 0 0 0 bu)"

section \<open>Calls and the environment\<close>

definition build_va_start :: "value_id \<Rightarrow> builder \<Rightarrow> builder" where
  "build_va_start va_list_ptr bu =
     emit_void OpVaStart [va_list_ptr] 0 0 0 bu"

definition build_inline_asm :: "u32 \<Rightarrow> value_id list \<Rightarrow> builder \<Rightarrow> builder" where
  "build_inline_asm payload_index inputs bu =
     emit_void OpInlineAsm inputs (ucast payload_index) 0 0 bu"

definition build_trap :: "builder \<Rightarrow> builder" where
  "build_trap bu =
     emit_void OpTrap [] 0 0 0 bu"

definition build_frame_addr :: "builder \<Rightarrow> value_id \<times> builder" where
  "build_frame_addr bu =
     result_of (emit OpFrameAddr types_PTR [] 0 0 0 bu)"

definition build_return_addr :: "builder \<Rightarrow> value_id \<times> builder" where
  "build_return_addr bu =
     result_of (emit OpReturnAddr types_PTR [] 0 0 0 bu)"

text \<open>The type of a call is the type of the signature when it returns a scalar, and none otherwise.\<close>

definition sig_result_type :: "sig_id \<Rightarrow> builder \<Rightarrow> type_id" where
  "sig_result_type sig bu =
     (let s = signature_of (ma_types (bu_module bu)) sig in if sd_ret_class s = RetScalar then sd_ret_type s else 0)"

definition callee_sig :: "nat \<Rightarrow> builder \<Rightarrow> sig_id" where
  "callee_sig callee bu = fn_sig (function_of (bu_module bu) callee)"

definition build_call :: "nat \<Rightarrow> value_id list \<Rightarrow> builder \<Rightarrow> value_id \<times> builder" where
  "build_call callee args bu =
     result_of (emit OpCall (sig_result_type (callee_sig callee bu) bu) args (of_nat callee) 0 0 bu)"

definition build_call_indirect :: "sig_id \<Rightarrow> value_id \<Rightarrow> value_id list \<Rightarrow> builder \<Rightarrow> value_id \<times> builder" where
  "build_call_indirect sig callee args bu =
     result_of (emit OpCallIndirect (sig_result_type sig bu) (callee # args) (of_nat sig) 0 0 bu)"

definition build_tail_call_indirect :: "sig_id \<Rightarrow> value_id \<Rightarrow> value_id list \<Rightarrow> builder \<Rightarrow> builder" where
  "build_tail_call_indirect sig callee args bu =
     emit_void OpTailCallIndirect (callee # args) (of_nat sig) 0 0 bu"

definition build_eh_alloc_exception :: "u64 \<Rightarrow> builder \<Rightarrow> value_id \<times> builder" where
  "build_eh_alloc_exception size_bytes bu =
     result_of (emit OpEhAllocException types_PTR [] size_bytes 0 0 bu)"

definition build_eh_landing_pad :: "u32 \<Rightarrow> builder \<Rightarrow> value_id \<times> builder" where
  "build_eh_landing_pad payload_index bu =
     result_of (emit OpEhLandingPad types_PTR [] (ucast payload_index) 0 0 bu)"

definition build_eh_selector :: "value_id \<Rightarrow> builder \<Rightarrow> value_id \<times> builder" where
  "build_eh_selector exception_ptr bu =
     result_of (emit OpEhSelector types_I32 [exception_ptr] 0 0 0 bu)"

definition build_eh_typeid_for :: "value_id \<Rightarrow> builder \<Rightarrow> value_id \<times> builder" where
  "build_eh_typeid_for typeinfo bu =
     result_of (emit OpEhTypeId types_I32 [typeinfo] 0 0 0 bu)"

definition build_catch_begin :: "value_id \<Rightarrow> builder \<Rightarrow> value_id \<times> builder" where
  "build_catch_begin exception_ptr bu =
     result_of (emit OpCatchBegin types_PTR [exception_ptr] 0 0 0 bu)"

definition build_catch_end :: "builder \<Rightarrow> builder" where
  "build_catch_end bu =
     emit_void OpCatchEnd [] 0 0 0 bu"

section \<open>Control flow\<close>

definition build_jump :: "block_id \<Rightarrow> value_id list \<Rightarrow> builder \<Rightarrow> builder" where
  "build_jump target args bu =
     (case on_func (make_block_call target args) bu of
        (call, bu1) \<Rightarrow> emit_void OpJump [] (pack_pair_aux (of_nat call) 0) 0 0 bu1)"

definition build_br_if :: "value_id \<Rightarrow> block_id \<Rightarrow> value_id list \<Rightarrow> block_id \<Rightarrow> value_id list \<Rightarrow> builder \<Rightarrow> builder" where
  "build_br_if cond then_target then_args else_target else_args bu =
     (case on_func (make_block_call then_target then_args) bu of
        (then_call, bu1) \<Rightarrow>
          (case on_func (make_block_call else_target else_args) bu1 of
             (else_call, bu2) \<Rightarrow> emit_void OpBrIf [cond] (pack_pair_aux (of_nat then_call) (of_nat else_call)) 0 0 bu2))"

text \<open>Block calls without arguments, one for every target.\<close>

fun make_calls :: "block_id list \<Rightarrow> builder \<Rightarrow> block_call_id list \<times> builder" where
  "make_calls [] bu = ([], bu)"
| "make_calls (target # targets) bu =
     (case on_func (make_block_call target []) bu of
        (call, bu1) \<Rightarrow> (case make_calls targets bu1 of (calls, bu2) \<Rightarrow> (call # calls, bu2)))"

definition build_switch_raw :: "value_id \<Rightarrow> block_call_id \<Rightarrow> switch_case list \<Rightarrow> builder \<Rightarrow> builder" where
  "build_switch_raw v default_call cases bu =
     (case on_func (make_jump_table cases) bu of
        (table, bu1) \<Rightarrow> emit_void OpSwitch [v] (pack_pair_aux (of_nat default_call) (of_nat table)) 0 0 bu1)"

definition build_switch :: "value_id \<Rightarrow> block_id \<Rightarrow> (u64 \<times> block_id) list \<Rightarrow> builder \<Rightarrow> builder" where
  "build_switch v default_target cases bu =
     (case on_func (make_block_call default_target []) bu of
        (default_call, bu1) \<Rightarrow>
          (case make_calls (map snd cases) bu1 of
             (calls, bu2) \<Rightarrow>
               build_switch_raw v default_call
                 (map2 (\<lambda>c call. \<lparr>sc_value = fst c, sc_target = call\<rparr>) cases calls) bu2))"

definition build_br_indirect :: "value_id \<Rightarrow> block_id list \<Rightarrow> builder \<Rightarrow> builder" where
  "build_br_indirect target_ptr plausible_targets bu =
     (case make_calls plausible_targets bu of
        (calls, bu1) \<Rightarrow>
          (case on_func (make_block_call_list calls) bu1 of
             (list, bu2) \<Rightarrow> emit_void OpBrIndirect [target_ptr] (pack_pair_aux (of_nat list) 0) 0 0 bu2))"

definition build_asm_goto :: "u32 \<Rightarrow> value_id list \<Rightarrow> block_id \<Rightarrow> block_id list \<Rightarrow> builder \<Rightarrow> builder" where
  "build_asm_goto payload_index inputs fallthrough targets bu =
     (case make_calls (fallthrough # targets) bu of
        (calls, bu1) \<Rightarrow>
          (case on_func (make_block_call_list calls) bu1 of
             (list, bu2) \<Rightarrow> emit_void OpAsmGoto inputs (ucast payload_index) 0 (of_nat list) bu2))"

definition build_ret_void :: "builder \<Rightarrow> builder" where
  "build_ret_void bu =
     emit_void OpRet [] 0 0 0 bu"

definition build_ret :: "value_id \<Rightarrow> builder \<Rightarrow> builder" where
  "build_ret v bu =
     emit_void OpRet [v] 0 0 0 bu"

definition build_unreachable :: "builder \<Rightarrow> builder" where
  "build_unreachable bu =
     emit_void OpUnreachable [] 0 0 0 bu"

definition build_throw :: "value_id \<Rightarrow> value_id \<Rightarrow> value_id \<Rightarrow> builder \<Rightarrow> builder" where
  "build_throw exception typeinfo destructor bu =
     emit_void OpThrow (exception # typeinfo # (if destructor \<noteq> 0 then [destructor] else [])) 0 0 0 bu"

definition build_rethrow :: "builder \<Rightarrow> builder" where
  "build_rethrow bu =
     emit_void OpRethrow [] 0 0 0 bu"

definition build_resume :: "value_id \<Rightarrow> value_id \<Rightarrow> builder \<Rightarrow> builder" where
  "build_resume exception selector bu =
     emit_void OpResume [exception, selector] 0 0 0 bu"

definition build_invoke :: "nat \<Rightarrow> value_id list \<Rightarrow> block_id \<Rightarrow> value_id list \<Rightarrow> block_id \<Rightarrow> value_id list \<Rightarrow> builder \<Rightarrow> value_id \<times> builder" where
  "build_invoke callee args normal_target normal_args unwind_target unwind_args bu =
     (case on_func (make_block_call normal_target normal_args) bu of
        (normal, bu1) \<Rightarrow>
          (case on_func (make_block_call unwind_target unwind_args) bu1 of
             (unwind, bu2) \<Rightarrow>
               result_of (emit OpInvoke (sig_result_type (callee_sig callee bu) bu) args (of_nat callee) 0 (pack_pair_aux (of_nat normal) (of_nat unwind)) bu2)))"

definition build_invoke_indirect :: "sig_id \<Rightarrow> value_id \<Rightarrow> value_id list \<Rightarrow> block_id \<Rightarrow> value_id list \<Rightarrow> block_id \<Rightarrow> value_id list \<Rightarrow> builder \<Rightarrow> value_id \<times> builder" where
  "build_invoke_indirect sig callee args normal_target normal_args unwind_target unwind_args bu =
     (case on_func (make_block_call normal_target normal_args) bu of
        (normal, bu1) \<Rightarrow>
          (case on_func (make_block_call unwind_target unwind_args) bu1 of
             (unwind, bu2) \<Rightarrow>
               result_of (emit OpInvokeIndirect (sig_result_type sig bu) (callee # args) (of_nat sig) 0 (pack_pair_aux (of_nat normal) (of_nat unwind)) bu2)))"

end
