(* ===== verification/Air_Builder_Correct.thy ===== *)
theory Air_Builder_Correct
  imports Air_Builder
begin

text \<open>
  Whatever the builder is told to do, in whatever order, the function it makes keeps its linked
  lists, its operand pool and its constants in order.
\<close>

section \<open>The function under construction\<close>

text \<open>Every block is linked, and every label is that of a block.\<close>

definition tidy :: "air_function \<Rightarrow> block_id list \<Rightarrow> bool" where
  "tidy f bs \<longleftrightarrow> (\<forall>b. valid_block f b \<longrightarrow> b \<in> set bs)
     \<and> (\<forall>value \<in> set (fn_values f). vd_kind value = LabelAddr \<longrightarrow> valid_block f (unat (ucast (vd_payload value) :: u32)))"

definition built_fn :: "air_function \<Rightarrow> block_id list \<Rightarrow> (block_id \<Rightarrow> inst_id list) \<Rightarrow> bool" where
  "built_fn f bs L \<longleftrightarrow> fn_inv f bs L \<and> operands_inv f \<and> constants_inv f \<and> fn_blocks f \<noteq> []
     \<and> fn_block_calls f \<noteq> [] \<and> tidy f bs"

lemma tidy_more:
  assumes "tidy f bs" "fn_values f' = fn_values f @ vs" "length (fn_blocks f') = length (fn_blocks f)"
    and "\<And>v. v \<in> set vs \<Longrightarrow> vd_kind v = LabelAddr \<Longrightarrow> valid_block f (unat (ucast (vd_payload v) :: u32))"
  shows "tidy f' bs"
  using assms by (auto simp: tidy_def valid_block_def)

lemma new_function_inv:
  "fn_inv (new_function n s l) [] (\<lambda>_. [])" "constants_inv (new_function n s l)" "operands_inv (new_function n s l)"
  by (auto simp: new_function_def fn_inv_def blocks_inv_def lists_inv_def valid_block_def valid_inst_def
      constants_inv_def constants_part_def table_inv_def filed_def operands_inv_def pool_ok_def operand_owners_def
      valid_block_call_def)

lemma built_new: "built_fn (new_function n s l) [] (\<lambda>_. [])"
  using new_function_inv by (auto simp: built_fn_def new_function_def tidy_def valid_block_def value_data_default_def)

text \<open>The pool is read through the instructions and the block calls only.\<close>

lemma operands_inv_cong:
  assumes "fn_operand_pool f' = fn_operand_pool f" "fn_block_calls f' = fn_block_calls f" "length (fn_insts f') = length (fn_insts f)"
    and "\<And>i. in_op_begin (inst f' i) = in_op_begin (inst f i) \<and> in_op_count (inst f' i) = in_op_count (inst f i)"
  shows "operands_inv f' = operands_inv f"
proof -
  have "operand_region f' a = operand_region f a" for a
    using assms by (cases a) (simp_all add: block_call_of_def)
  then have "operand_region f' = operand_region f"
    by (simp add: fun_eq_iff)
  moreover have "operand_owners f' = operand_owners f"
    using assms by (simp add: operand_owners_def valid_inst_def valid_block_call_def)
  ultimately show ?thesis
    using assms by (simp add: operands_inv_def)
qed

text \<open>Values that are not constants are added without being filed.\<close>

lemma constants_inv_more:
  assumes "constants_inv f" "fn_values f' = fn_values f @ vs" "fn_constant_lookup f' = fn_constant_lookup f"
  shows "constants_inv f'"
proof -
  have "i < length (fn_values f)" if "(h, i) \<in> set (fn_constant_lookup f)" for h i
    using assms(1) that by (auto simp: constants_inv_def constants_part_def table_inv_def)
  then show ?thesis
    using assms by (fastforce simp: constants_inv_def constants_part_def table_inv_def filed_def nth_append)
qed

lemma built_same_shape:
  assumes "built_fn f bs L" "same_shape f f'" "operands_inv f'" "constants_inv f'" "fn_block_calls f' \<noteq> []" "tidy f' bs"
  shows "built_fn f' bs L"
  using assms same_shape_fn_inv(1) [OF assms(2)] by (auto simp: built_fn_def same_shape_def)

lemma built_same_body:
  assumes "built_fn f bs L" "same_body f f'" "fn_inv f' bs L'"
  shows "built_fn f' bs L'"
proof -
  note fields = same_body_fields [OF assms(2)]
  have "in_op_begin (inst f' i) = in_op_begin (inst f i) \<and> in_op_count (inst f' i) = in_op_count (inst f i)" for i
  proof -
    have c: "content (inst f' i) = content (inst f i)"
      using assms(2) by (simp add: same_body_def)
    show ?thesis
      using arg_cong [OF c, of in_op_begin] arg_cong [OF c, of in_op_count] by (simp add: content_def)
  qed
  then have "operands_inv f'"
    using assms(1,2) fields operands_inv_cong [of f' f] by (simp add: built_fn_def same_body_def)
  moreover have "constants_inv f'"
    using assms(1) fields constants_inv_more [of f f' "[]"] by (simp add: built_fn_def)
  moreover have "fn_blocks f' \<noteq> []"
    using assms(1,2) by (auto simp: built_fn_def same_body_def)
  moreover have "tidy f' bs"
    using assms(1,2) fields tidy_more [of f bs f' "[]"] by (simp add: built_fn_def same_body_def)
  ultimately show ?thesis
    using assms(1,3) fields by (simp add: built_fn_def)
qed

section \<open>Operations of the function\<close>

lemma push_params_effect:
  "\<exists>vs. fn_values (push_params b k tys f) = fn_values f @ vs \<and> (\<forall>v \<in> set vs. vd_kind v \<noteq> LabelAddr)" "fn_constant_lookup (push_params b k tys f) = fn_constant_lookup f"
  "fn_operand_pool (push_params b k tys f) = fn_operand_pool f" "fn_block_calls (push_params b k tys f) = fn_block_calls f"
  "fn_insts (push_params b k tys f) = fn_insts f"
proof (induction b k tys f rule: push_params.induct)
  case (2 b i ty tys f)
  case 1
  obtain param f1 where "new_value BlockParam ty (of_nat b) (of_nat i) f = (param, f1)"
    by fastforce
  then show ?case
    using 2 by (auto simp: new_value_def Let_def)
qed (auto simp: new_value_def Let_def)

lemma built_create_block:
  assumes "built_fn f bs L" "create_block tys f = (b, f')"
  shows "built_fn f' (bs @ [b]) (L(b := []))"
proof -
  have f: "blocks_inv f bs" "lists_inv f L" "fn_insts f \<noteq> []" "fn_blocks f \<noteq> []"
    using assms(1) by (simp_all add: built_fn_def fn_inv_def)
  note e = create_block_effect [OF assms(2) f(1)]
  have inv: "fn_inv f' (bs @ [b]) (L(b := []))"
    using create_block_blocks [OF assms(2) f(1,2,4)] e(3) f(3) by (simp add: fn_inv_def)
  have p: "fn_operand_pool f' = fn_operand_pool f" "fn_block_calls f' = fn_block_calls f"
    "fn_constant_lookup f' = fn_constant_lookup f" "\<exists>vs. fn_values f' = fn_values f @ vs \<and> (\<forall>v \<in> set vs. vd_kind v \<noteq> LabelAddr)"
    using assms(2) push_params_effect by (auto simp: create_block_def Let_def set_block_def split: if_splits)
  have "operands_inv f'" "constants_inv f'"
    using assms(1) p operands_inv_cong [of f' f] constants_inv_more e(3) by (auto simp: built_fn_def inst_def)
  moreover have "tidy f' (bs @ [b])"
    using assms(1) p(4) e(1,2) by (auto simp: built_fn_def tidy_def valid_block_def less_Suc_eq)
  moreover have "fn_blocks f' \<noteq> []"
    using e(2) by auto
  ultimately show ?thesis
    using inv assms(1) p(2) by (simp add: built_fn_def)
qed

lemma built_intern_constant:
  assumes "built_fn f bs L" "intern_constant kind ty p p2 f = (v, f')"
    and "kind = LabelAddr \<Longrightarrow> valid_block f (unat (ucast p :: u32))"
  shows "built_fn f' bs L"
proof -
  have c: "constants_inv f"
    using assms(1) by (simp add: built_fn_def)
  note eff = intern_constant_effect [OF c assms(2)]
  obtain vs lookup where f: "f' = f\<lparr>fn_values := vs, fn_constant_lookup := lookup\<rparr>"
    using eff(6) by blast
  have tidy: "tidy f' bs"
    by (rule intern_constant_data_cases [OF c assms(2) [unfolded intern_constant_def]])
      (use assms(1,3) tidy_more [of f bs f'] in \<open>auto simp: built_fn_def\<close>)
  have "operands_inv f'"
    using assms(1) operands_inv_cong [of f' f] by (simp add: f built_fn_def inst_def)
  then show ?thesis
    using built_same_shape [OF assms(1) _ _ eff(1)] assms(1) tidy by (simp add: f same_shape_def built_fn_def)
qed

lemma built_make_block_call:
  assumes "built_fn f bs L" "make_block_call target args f = (c, f')"
  shows "built_fn f' bs L"
proof (rule built_same_shape [OF assms(1)])
  show "same_shape f f'" "fn_block_calls f' \<noteq> []"
    using assms(2) by (auto simp: make_block_call_def append_operands_def Let_def same_shape_def)
  show "operands_inv f'"
    using make_block_call_gives(1) [OF _ _ assms(2)] assms(1) by (simp add: built_fn_def gives_def)
  have v: "fn_values f' = fn_values f" "fn_constant_lookup f' = fn_constant_lookup f" "fn_blocks f' = fn_blocks f"
    using assms(2) by (auto simp: make_block_call_def append_operands_def Let_def)
  show "constants_inv f'" "tidy f' bs"
    using assms(1) v constants_inv_more [of f f' "[]"] tidy_more [of f bs f' "[]"] by (simp_all add: built_fn_def)
qed

lemma built_cong:
  assumes "built_fn f bs L" "same_shape f f'" "fn_operand_pool f' = fn_operand_pool f" "fn_block_calls f' = fn_block_calls f"
    and "fn_values f' = fn_values f" "fn_constant_lookup f' = fn_constant_lookup f"
  shows "built_fn f' bs L"
proof (rule built_same_shape [OF assms(1,2)])
  show "operands_inv f'"
    using assms operands_inv_cong [of f' f] by (simp add: built_fn_def same_shape_def inst_def)
  show "constants_inv f'"
    using assms constants_inv_more [of f f' "[]"] by (simp add: built_fn_def)
  show "fn_block_calls f' \<noteq> []" "tidy f' bs"
    using assms tidy_more [of f bs f' "[]"] by (simp_all add: built_fn_def same_shape_def)
qed

lemma built_make_inst:
  assumes "built_fn f bs L" "make_inst op ty ops aux loc flags aux2 f = (i, f')"
  shows "built_fn f' bs L"
proof -
  note e = make_inst_effect [OF assms(2)]
  have "fn_insts f \<noteq> []"
    using assms(1) by (simp add: built_fn_def fn_inv_def)
  then have "operands_inv f'"
    using make_inst_gives [OF _ _ assms(2)] assms(1) by (simp add: built_fn_def gives_def)
  moreover have "fn_constant_lookup f' = fn_constant_lookup f" "\<exists>vs. fn_values f' = fn_values f @ vs \<and> (\<forall>v \<in> set vs. vd_kind v \<noteq> LabelAddr)"
    using assms(2) by (auto simp: make_inst_def append_operands_def new_value_def Let_def split: if_splits)
  then obtain vs where vs: "fn_constant_lookup f' = fn_constant_lookup f" "fn_values f' = fn_values f @ vs"
      "\<forall>v \<in> set vs. vd_kind v \<noteq> LabelAddr"
    by blast
  have "constants_inv f'"
    using assms(1) constants_inv_more [OF _ vs(2,1)] by (simp add: built_fn_def)
  moreover have "tidy f' bs"
    using assms(1) vs(3) e(13) by (intro tidy_more [OF _ vs(2)]) (auto simp: built_fn_def)
  ultimately show ?thesis
    using fn_inv_make_inst [OF _ assms(2)] assms(1) e(12,13) by (simp add: built_fn_def)
qed

lemma same_body_insert_before: "same_body f (insert_before p i f)"
  unfolding insert_before_def Let_def
  by (rule same_body_trans [OF _ same_body_set_inst], rule same_body_link, rule same_body_set_inst) simp_all

lemma fn_inv_insert_before:
  assumes "fn_inv f bs L" "valid_block f b" "L b = xs @ p # ys" "valid_inst f i" "in_block (inst f i) = 0"
  shows "fn_inv (insert_before p i f) bs (L(b := xs @ i # p # ys))"
proof -
  have s: "same_body f (insert_before p i f)"
    by (rule same_body_insert_before)
  have "fn_insts (insert_before p i f) \<noteq> []"
    using s assms(1) by (auto simp: fn_inv_def same_body_def)
  then show ?thesis
    using assms insert_before_lists [of f L b xs p ys i] same_body_reads(16) [OF s] by (simp add: fn_inv_def)
qed

section \<open>The builder\<close>

text \<open>The insertion point is the end of a block of the function, or an instruction of one.\<close>

definition insertion_ok :: "block_id list \<Rightarrow> (block_id \<Rightarrow> inst_id list) \<Rightarrow> builder \<Rightarrow> bool" where
  "insertion_ok bs L bu \<longleftrightarrow>
     bu_block bu = 0 \<and> bu_before bu = 0
     \<or> bu_block bu \<in> set bs \<and> (bu_before bu = 0 \<or> bu_before bu \<in> set (L (bu_block bu)))"

definition built :: "builder \<Rightarrow> bool" where
  "built bu \<longleftrightarrow> (\<exists>bs L. built_fn (bu_func bu) bs L \<and> insertion_ok bs L bu)"

lemma builtI: "built_fn (bu_func bu) bs L \<Longrightarrow> insertion_ok bs L bu \<Longrightarrow> built bu"
  by (auto simp: built_def)

text \<open>Emitting puts one new instruction at the insertion point, which stays where it is.\<close>

lemma emit_effect:
  assumes "built_fn (bu_func bu) bs L" "insertion_ok bs L bu" "bu_block bu \<noteq> 0" "emit op ty ops aux flags aux2 bu = (i, bu')"
  obtains xs ys where "L (bu_block bu) = xs @ ys" "if bu_before bu = 0 then ys = [] else \<exists>zs. ys = bu_before bu # zs"
    "built_fn (bu_func bu') bs (L(bu_block bu := xs @ i # ys))" "insertion_ok bs (L(bu_block bu := xs @ i # ys)) bu'"
    "i = length (fn_insts (bu_func bu))" "in_op (inst (bu_func bu') i) = op" "in_aux (inst (bu_func bu') i) = aux"
    "operands (bu_func bu') i = ops"
proof -
  let ?b = "bu_block bu" and ?p = "bu_before bu"
  obtain f1 where m: "make_inst op ty ops aux (bu_loc bu) flags aux2 (bu_func bu) = (i, f1)"
    using assms(4) by (auto simp: emit_def split: prod.splits)
  let ?f2 = "if ?p \<noteq> 0 then insert_before ?p i f1 else append_inst ?b i f1"
  have bu': "bu' = bu\<lparr>bu_func := ?f2\<rparr>"
    using assms(4) m by (simp add: emit_def)
  note e = make_inst_effect [OF m] and b1 = built_make_inst [OF assms(1) m]
  have fn1: "fn_inv f1 bs L"
    using b1 by (simp add: built_fn_def)
  have b: "?b \<in> set bs"
    using assms(2,3) by (simp add: insertion_ok_def)
  note vb = fn_invD(1) [OF fn1 b]
  have "valid_inst f1 i"
    using assms(1) by (simp add: valid_inst_def e(1,2) built_fn_def fn_inv_def)
  note vi = this e(8)
  have s: "same_body f1 ?f2"
    using same_body_insert_before same_body_append_inst by simp
  have ops: "operands f1 i = ops"
    by (simp add: operands_def e(9-11))
  have reads: "in_op (inst (bu_func bu') i) = op" "in_aux (inst (bu_func bu') i) = aux" "operands (bu_func bu') i = ops"
    unfolding bu' using same_body_reads(1,5,9) [OF s, of i] e(4,5) ops by simp_all
  show ?thesis
  proof (cases "?p = 0")
    case True
    have "fn_inv ?f2 bs (L(?b := L ?b @ [i]))"
      using True fn_inv_append [OF fn1 vb vi] by simp
    from built_same_body [OF b1 s this] show ?thesis
      using that [of "L ?b" "[]"] True b e(1) reads by (simp add: bu' insertion_ok_def)
  next
    case False
    then have "?p \<in> set (L ?b)"
      using assms(2,3) by (simp add: insertion_ok_def)
    then obtain xs zs where L: "L ?b = xs @ ?p # zs"
      by (meson split_list)
    have "fn_inv ?f2 bs (L(?b := xs @ i # ?p # zs))"
      using False fn_inv_insert_before [OF fn1 vb L vi] by simp
    from built_same_body [OF b1 s this] show ?thesis
      using that [of xs "?p # zs"] False L b e(1) reads by (simp add: bu' insertion_ok_def)
  qed
qed

lemma built_emit:
  assumes "built bu" "bu_block bu \<noteq> 0"
  shows "built (snd (emit op ty ops aux flags aux2 bu))"
proof -
  obtain bs L where inv: "built_fn (bu_func bu) bs L" "insertion_ok bs L bu"
    using assms(1) by (auto simp: built_def)
  obtain i bu' where m: "emit op ty ops aux flags aux2 bu = (i, bu')"
    by fastforce
  show ?thesis
    by (rule emit_effect [OF inv assms(2) m]) (auto simp: m intro: builtI)
qed

text \<open>An operation of the function that leaves blocks and lists alone.\<close>

lemma built_on_func:
  assumes "built bu" "\<And>bs L x f'. built_fn (bu_func bu) bs L \<Longrightarrow> g (bu_func bu) = (x, f') \<Longrightarrow> built_fn f' bs L"
  shows "built (snd (on_func g bu))"
proof -
  obtain bs L where inv: "built_fn (bu_func bu) bs L" "insertion_ok bs L bu"
    using assms(1) by (auto simp: built_def)
  obtain x f' where g: "g (bu_func bu) = (x, f')"
    by fastforce
  show ?thesis
    using assms(2) [OF inv(1) g] inv(2) by (intro builtI [where bs = bs and L = L]) (simp_all add: on_func_def g insertion_ok_def)
qed

lemma on_func_point [simp]:
  "bu_block (snd (on_func g bu)) = bu_block bu" "bu_before (snd (on_func g bu)) = bu_before bu"
  by (simp_all add: on_func_def split_def)

lemma snd_result_of [simp]: "snd (result_of r) = snd r"
  by (simp add: result_of_def split_def)

lemma built_module [simp]: "built (bu\<lparr>bu_module := m\<rparr>) = built bu"
  by (simp add: built_def insertion_ok_def)

lemma built_loc [simp]: "built (bu\<lparr>bu_loc := l\<rparr>) = built bu"
  by (simp add: built_def insertion_ok_def)

lemma unat_ucast_of_nat: "n < 2 ^ 32 \<Longrightarrow> unat (ucast (of_nat n :: u64) :: u32) = n"
  by (simp add: unsigned_of_nat take_bit_nat_eq_self unsigned_ucast_eq)

lemma built_constant:
  assumes "built bu"
  shows "built (snd (on_func (const_int ty bits high) bu))" "built (snd (on_func (const_float_bits ty bits high) bu))"
    "built (snd (on_func (const_null ty) bu))" "built (snd (on_func (undef ty) bu))"
    "built (snd (on_func (global_addr g ty) bu))" "built (snd (on_func (func_addr g ty) bu))"
    "valid_block (bu_func bu) b \<Longrightarrow> b < 2 ^ 32 \<Longrightarrow> built (snd (on_func (label_addr b ty) bu))"
proof -
  have gen: "built (snd (on_func (intern_constant kind ty p p2) bu))"
    if "kind = LabelAddr \<longrightarrow> valid_block (bu_func bu) (unat (ucast p :: u32))" for kind ty p p2
    by (rule built_on_func [OF assms]) (rule built_intern_constant [OF _ _ that [THEN mp]])
  have "const_int ty bits high = intern_constant ConstInt ty bits high"
    "const_float_bits ty bits high = intern_constant ConstFloat ty bits high"
    "const_null ty = intern_constant ConstNull ty 0 0" "undef ty = intern_constant Undef ty 0 0"
    "global_addr g ty = intern_constant GlobalAddr ty (of_nat g) 0" "func_addr g ty = intern_constant FuncAddr ty (of_nat g) 0"
    "label_addr b ty = intern_constant LabelAddr ty (of_nat b) 0"
    by (simp_all add: fun_eq_iff const_int_def const_float_bits_def const_null_def undef_def global_addr_def func_addr_def
        label_addr_def)
  then show "built (snd (on_func (const_int ty bits high) bu))" "built (snd (on_func (const_float_bits ty bits high) bu))"
    "built (snd (on_func (const_null ty) bu))" "built (snd (on_func (undef ty) bu))"
    "built (snd (on_func (global_addr g ty) bu))" "built (snd (on_func (func_addr g ty) bu))"
    "valid_block (bu_func bu) b \<Longrightarrow> b < 2 ^ 32 \<Longrightarrow> built (snd (on_func (label_addr b ty) bu))"
    by (simp_all add: gen unat_ucast_of_nat)
qed

lemma built_call: "built bu \<Longrightarrow> built (snd (on_func (make_block_call target args) bu))"
  by (rule built_on_func) (simp_all add: built_make_block_call)

lemma built_tables:
  "built bu \<Longrightarrow> built (snd (on_func (make_jump_table js) bu))"
  "built bu \<Longrightarrow> built (snd (on_func (make_block_call_list cs) bu))"
  by (rule built_on_func; auto simp: make_jump_table_def make_block_call_list_def same_shape_def elim!: built_cong)+

lemma built_make_calls:
  "built bu \<Longrightarrow> built (snd (make_calls targets bu))" "bu_block (snd (make_calls targets bu)) = bu_block bu"
  by (induction targets arbitrary: bu) (simp_all add: split_def built_call)

lemma built_new_block: 
  assumes "built bu"
  shows "built (snd (build_create_block tys bu))"
proof -
  obtain bs L where inv: "built_fn (bu_func bu) bs L" "insertion_ok bs L bu"
    using assms by (auto simp: built_def)
  obtain b f' where c: "create_block tys (bu_func bu) = (b, f')"
    by fastforce
  have "b \<notin> set bs"
    using inv(1) create_block_effect(1) [OF c] by (auto simp: built_fn_def fn_inv_def blocks_inv_def valid_block_def)
  then show ?thesis
    using inv(2) built_create_block [OF inv(1) c]
    by (intro builtI [where bs = "bs @ [b]" and L = "L(b := [])"])
      (auto simp: build_create_block_def on_func_def c insertion_ok_def)
qed

lemma built_insertion:
  assumes "built bu" "block_order (bu_func bu) = Some bs"
  shows "b \<in> set bs \<Longrightarrow> built (set_insertion_point b bu)"
    and "valid_inst (bu_func bu) i \<Longrightarrow> in_block (inst (bu_func bu) i) \<in> set bs \<Longrightarrow> built (set_insertion_before i bu)"
proof -
  obtain bs' L where inv: "built_fn (bu_func bu) bs' L"
    using assms(1) by (auto simp: built_def)
  then have "blocks_inv (bu_func bu) bs'" "fn_inv (bu_func bu) bs' L"
    by (simp_all add: built_fn_def fn_inv_def)
  then have bs: "bs' = bs" "fn_inv (bu_func bu) bs L"
    using assms(2) block_order_blocks by auto
  show "built (set_insertion_point b bu)" if "b \<in> set bs"
    using inv that bs(1) by (intro builtI [where bs = bs and L = L]) (simp_all add: set_insertion_point_def insertion_ok_def)
  show "built (set_insertion_before i bu)" if "valid_inst (bu_func bu) i" "in_block (inst (bu_func bu) i) \<in> set bs"
    using inv that bs lists_invD(1) [OF fn_invD(2,1) [OF bs(2) that(2)]]
    by (intro builtI [where bs = bs and L = L]) (simp_all add: set_insertion_before_def insertion_ok_def)
qed

section \<open>Sequences of calls\<close>

text \<open>
  One call of the builder: an instruction needs an insertion point, an insertion point and a label a
  block of the function. Identifiers have 32 bits.
\<close>

inductive builder_step :: "builder \<Rightarrow> builder \<Rightarrow> bool" where
  create_block: "builder_step bu (snd (build_create_block tys bu))"
| insertion_point: "block_order (bu_func bu) = Some bs \<Longrightarrow> b \<in> set bs \<Longrightarrow> builder_step bu (set_insertion_point b bu)"
| insertion_before: "block_order (bu_func bu) = Some bs \<Longrightarrow> valid_inst (bu_func bu) i \<Longrightarrow>
    in_block (inst (bu_func bu) i) \<in> set bs \<Longrightarrow> builder_step bu (set_insertion_before i bu)"
| loc: "builder_step bu (build_set_loc l bu)"
| const_int: "builder_step bu (snd (build_const_int ty bits high bu))"
| const_bool: "builder_step bu (snd (build_const_bool v bu))"
| const_i32: "builder_step bu (snd (build_const_i32 v bu))"
| const_i64: "builder_step bu (snd (build_const_i64 v bu))"
| const_float_bits: "builder_step bu (snd (build_const_float_bits ty bits high bu))"
| const_null: "builder_step bu (snd (build_const_null sp bu))"
| undef: "builder_step bu (snd (build_undef ty bu))"
| global_addr: "builder_step bu (snd (build_global_addr g bu))"
| func_addr: "builder_step bu (snd (build_func_addr g bu))"
| label_addr: "valid_block (bu_func bu) b \<Longrightarrow> b < 2 ^ 32 \<Longrightarrow> builder_step bu (snd (build_label_addr b bu))"
| const_usize: "builder_step bu (snd (build_const_usize v bu))"
| stack_alloc: "bu_block bu \<noteq> 0 \<Longrightarrow> builder_step bu (snd (build_stack_alloc size_bytes align_bytes bu))"
| stack_alloc_dyn: "bu_block bu \<noteq> 0 \<Longrightarrow> builder_step bu (snd (build_stack_alloc_dyn size_bytes align_bytes bu))"
| stack_save: "bu_block bu \<noteq> 0 \<Longrightarrow> builder_step bu (snd (build_stack_save bu))"
| stack_restore: "bu_block bu \<noteq> 0 \<Longrightarrow> builder_step bu (build_stack_restore saved bu)"
| load: "bu_block bu \<noteq> 0 \<Longrightarrow> builder_step bu (snd (build_load ty ptr align_bytes is_volatile bu))"
| store: "bu_block bu \<noteq> 0 \<Longrightarrow> builder_step bu (build_store val ptr align_bytes is_volatile bu)"
| memcpy: "bu_block bu \<noteq> 0 \<Longrightarrow> builder_step bu (build_memcpy dst src size_bytes bu)"
| memmove: "bu_block bu \<noteq> 0 \<Longrightarrow> builder_step bu (build_memmove dst src size_bytes bu)"
| memset: "bu_block bu \<noteq> 0 \<Longrightarrow> builder_step bu (build_memset dst byte size_bytes bu)"
| atomic_load: "bu_block bu \<noteq> 0 \<Longrightarrow> builder_step bu (snd (build_atomic_load ty ptr align_bytes order bu))"
| atomic_store: "bu_block bu \<noteq> 0 \<Longrightarrow> builder_step bu (build_atomic_store val ptr align_bytes order bu)"
| atomic_rmw: "bu_block bu \<noteq> 0 \<Longrightarrow> builder_step bu (snd (build_atomic_rmw op ptr val order bu))"
| atomic_cas: "bu_block bu \<noteq> 0 \<Longrightarrow> builder_step bu (snd (build_atomic_cas ptr expected desired success failure bu))"
| fence: "bu_block bu \<noteq> 0 \<Longrightarrow> builder_step bu (build_fence order bu)"
| iadd: "bu_block bu \<noteq> 0 \<Longrightarrow> builder_step bu (snd (build_iadd a b bu))"
| isub: "bu_block bu \<noteq> 0 \<Longrightarrow> builder_step bu (snd (build_isub a b bu))"
| imul: "bu_block bu \<noteq> 0 \<Longrightarrow> builder_step bu (snd (build_imul a b bu))"
| iand: "bu_block bu \<noteq> 0 \<Longrightarrow> builder_step bu (snd (build_iand a b bu))"
| ior: "bu_block bu \<noteq> 0 \<Longrightarrow> builder_step bu (snd (build_ior a b bu))"
| ixor: "bu_block bu \<noteq> 0 \<Longrightarrow> builder_step bu (snd (build_ixor a b bu))"
| shl: "bu_block bu \<noteq> 0 \<Longrightarrow> builder_step bu (snd (build_shl a b bu))"
| sdiv: "bu_block bu \<noteq> 0 \<Longrightarrow> builder_step bu (snd (build_sdiv a b bu))"
| udiv: "bu_block bu \<noteq> 0 \<Longrightarrow> builder_step bu (snd (build_udiv a b bu))"
| srem: "bu_block bu \<noteq> 0 \<Longrightarrow> builder_step bu (snd (build_srem a b bu))"
| urem: "bu_block bu \<noteq> 0 \<Longrightarrow> builder_step bu (snd (build_urem a b bu))"
| ashr: "bu_block bu \<noteq> 0 \<Longrightarrow> builder_step bu (snd (build_ashr a b bu))"
| lshr: "bu_block bu \<noteq> 0 \<Longrightarrow> builder_step bu (snd (build_lshr a b bu))"
| fadd: "bu_block bu \<noteq> 0 \<Longrightarrow> builder_step bu (snd (build_fadd a b bu))"
| fsub: "bu_block bu \<noteq> 0 \<Longrightarrow> builder_step bu (snd (build_fsub a b bu))"
| fmul: "bu_block bu \<noteq> 0 \<Longrightarrow> builder_step bu (snd (build_fmul a b bu))"
| fdiv: "bu_block bu \<noteq> 0 \<Longrightarrow> builder_step bu (snd (build_fdiv a b bu))"
| frem: "bu_block bu \<noteq> 0 \<Longrightarrow> builder_step bu (snd (build_frem a b bu))"
| fneg: "bu_block bu \<noteq> 0 \<Longrightarrow> builder_step bu (snd (build_fneg a bu))"
| bswap: "bu_block bu \<noteq> 0 \<Longrightarrow> builder_step bu (snd (build_bswap a bu))"
| clz: "bu_block bu \<noteq> 0 \<Longrightarrow> builder_step bu (snd (build_clz a bu))"
| ctz: "bu_block bu \<noteq> 0 \<Longrightarrow> builder_step bu (snd (build_ctz a bu))"
| popcnt: "bu_block bu \<noteq> 0 \<Longrightarrow> builder_step bu (snd (build_popcnt a bu))"
| icmp: "bu_block bu \<noteq> 0 \<Longrightarrow> builder_step bu (snd (build_icmp cond a b bu))"
| fcmp: "bu_block bu \<noteq> 0 \<Longrightarrow> builder_step bu (snd (build_fcmp cond a b bu))"
| cast: "bu_block bu \<noteq> 0 \<Longrightarrow> builder_step bu (snd (build_cast op to v bu))"
| trunc: "bu_block bu \<noteq> 0 \<Longrightarrow> builder_step bu (snd (build_trunc to v bu))"
| zext: "bu_block bu \<noteq> 0 \<Longrightarrow> builder_step bu (snd (build_zext to v bu))"
| sext: "bu_block bu \<noteq> 0 \<Longrightarrow> builder_step bu (snd (build_sext to v bu))"
| fptrunc: "bu_block bu \<noteq> 0 \<Longrightarrow> builder_step bu (snd (build_fptrunc to v bu))"
| fpext: "bu_block bu \<noteq> 0 \<Longrightarrow> builder_step bu (snd (build_fpext to v bu))"
| fptosi: "bu_block bu \<noteq> 0 \<Longrightarrow> builder_step bu (snd (build_fptosi to v bu))"
| fptoui: "bu_block bu \<noteq> 0 \<Longrightarrow> builder_step bu (snd (build_fptoui to v bu))"
| sitofp: "bu_block bu \<noteq> 0 \<Longrightarrow> builder_step bu (snd (build_sitofp to v bu))"
| uitofp: "bu_block bu \<noteq> 0 \<Longrightarrow> builder_step bu (snd (build_uitofp to v bu))"
| ptrtoint: "bu_block bu \<noteq> 0 \<Longrightarrow> builder_step bu (snd (build_ptrtoint to v bu))"
| inttoptr: "bu_block bu \<noteq> 0 \<Longrightarrow> builder_step bu (snd (build_inttoptr to v bu))"
| bitcast: "bu_block bu \<noteq> 0 \<Longrightarrow> builder_step bu (snd (build_bitcast to v bu))"
| ptr_add: "bu_block bu \<noteq> 0 \<Longrightarrow> builder_step bu (snd (build_ptr_add ptr byte_offset bu))"
| ptr_add_const: "bu_block bu \<noteq> 0 \<Longrightarrow> builder_step bu (snd (build_ptr_add_const ptr byte_offset bu))"
| select: "bu_block bu \<noteq> 0 \<Longrightarrow> builder_step bu (snd (build_select cond a b bu))"
| va_start: "bu_block bu \<noteq> 0 \<Longrightarrow> builder_step bu (build_va_start va_list_ptr bu)"
| inline_asm: "bu_block bu \<noteq> 0 \<Longrightarrow> builder_step bu (build_inline_asm payload_index inputs bu)"
| trap: "bu_block bu \<noteq> 0 \<Longrightarrow> builder_step bu (build_trap bu)"
| frame_addr: "bu_block bu \<noteq> 0 \<Longrightarrow> builder_step bu (snd (build_frame_addr bu))"
| return_addr: "bu_block bu \<noteq> 0 \<Longrightarrow> builder_step bu (snd (build_return_addr bu))"
| call: "bu_block bu \<noteq> 0 \<Longrightarrow> builder_step bu (snd (build_call callee args bu))"
| call_indirect: "bu_block bu \<noteq> 0 \<Longrightarrow> builder_step bu (snd (build_call_indirect sig callee args bu))"
| tail_call_indirect: "bu_block bu \<noteq> 0 \<Longrightarrow> builder_step bu (build_tail_call_indirect sig callee args bu)"
| eh_alloc_exception: "bu_block bu \<noteq> 0 \<Longrightarrow> builder_step bu (snd (build_eh_alloc_exception size_bytes bu))"
| eh_landing_pad: "bu_block bu \<noteq> 0 \<Longrightarrow> builder_step bu (snd (build_eh_landing_pad payload_index bu))"
| eh_selector: "bu_block bu \<noteq> 0 \<Longrightarrow> builder_step bu (snd (build_eh_selector exception_ptr bu))"
| eh_typeid_for: "bu_block bu \<noteq> 0 \<Longrightarrow> builder_step bu (snd (build_eh_typeid_for typeinfo bu))"
| catch_begin: "bu_block bu \<noteq> 0 \<Longrightarrow> builder_step bu (snd (build_catch_begin exception_ptr bu))"
| catch_end: "bu_block bu \<noteq> 0 \<Longrightarrow> builder_step bu (build_catch_end bu)"
| jump: "bu_block bu \<noteq> 0 \<Longrightarrow> builder_step bu (build_jump target args bu)"
| br_if: "bu_block bu \<noteq> 0 \<Longrightarrow> builder_step bu (build_br_if cond then_target then_args else_target else_args bu)"
| switch_raw: "bu_block bu \<noteq> 0 \<Longrightarrow> builder_step bu (build_switch_raw v default_call cases bu)"
| switch: "bu_block bu \<noteq> 0 \<Longrightarrow> builder_step bu (build_switch v default_target cases bu)"
| br_indirect: "bu_block bu \<noteq> 0 \<Longrightarrow> builder_step bu (build_br_indirect target_ptr plausible_targets bu)"
| asm_goto: "bu_block bu \<noteq> 0 \<Longrightarrow> builder_step bu (build_asm_goto payload_index inputs fallthrough targets bu)"
| ret_void: "bu_block bu \<noteq> 0 \<Longrightarrow> builder_step bu (build_ret_void bu)"
| ret: "bu_block bu \<noteq> 0 \<Longrightarrow> builder_step bu (build_ret v bu)"
| unreachable: "bu_block bu \<noteq> 0 \<Longrightarrow> builder_step bu (build_unreachable bu)"
| throw: "bu_block bu \<noteq> 0 \<Longrightarrow> builder_step bu (build_throw exception typeinfo destructor bu)"
| rethrow: "bu_block bu \<noteq> 0 \<Longrightarrow> builder_step bu (build_rethrow bu)"
| resume: "bu_block bu \<noteq> 0 \<Longrightarrow> builder_step bu (build_resume exception selector bu)"
| invoke: "bu_block bu \<noteq> 0 \<Longrightarrow> builder_step bu (snd (build_invoke callee args normal_target normal_args unwind_target unwind_args bu))"
| invoke_indirect: "bu_block bu \<noteq> 0 \<Longrightarrow> builder_step bu (snd (build_invoke_indirect sig callee args normal_target normal_args unwind_target unwind_args bu))"

lemmas constant_defs =
   build_const_int_def build_const_bool_def build_const_i32_def build_const_i64_def build_const_float_bits_def
  build_const_null_def build_undef_def build_global_addr_def build_func_addr_def build_label_addr_def
  build_const_usize_def

lemmas emitting_defs =
   build_stack_alloc_def build_stack_alloc_dyn_def build_stack_save_def build_stack_restore_def build_load_def
  build_store_def build_memcpy_def build_memmove_def build_memset_def build_atomic_load_def
  build_atomic_store_def build_atomic_rmw_def build_atomic_cas_def build_fence_def build_iadd_def
  build_isub_def build_imul_def build_iand_def build_ior_def build_ixor_def build_shl_def build_sdiv_def
  build_udiv_def build_srem_def build_urem_def build_ashr_def build_lshr_def build_fadd_def build_fsub_def
  build_fmul_def build_fdiv_def build_frem_def build_fneg_def build_bswap_def build_clz_def build_ctz_def
  build_popcnt_def build_icmp_def build_fcmp_def build_cast_def build_trunc_def build_zext_def build_sext_def
  build_fptrunc_def build_fpext_def build_fptosi_def build_fptoui_def build_sitofp_def build_uitofp_def
  build_ptrtoint_def build_inttoptr_def build_bitcast_def build_ptr_add_def build_ptr_add_const_def
  build_select_def build_va_start_def build_inline_asm_def build_trap_def build_frame_addr_def
  build_return_addr_def build_call_def build_call_indirect_def build_tail_call_indirect_def
  build_eh_alloc_exception_def build_eh_landing_pad_def build_eh_selector_def build_eh_typeid_for_def
  build_catch_begin_def build_catch_end_def build_jump_def build_br_if_def build_switch_raw_def
  build_switch_def build_br_indirect_def build_asm_goto_def build_ret_void_def build_ret_def
  build_unreachable_def build_throw_def build_rethrow_def build_resume_def build_invoke_def
  build_invoke_indirect_def binary_def unary_same_type_def emit_void_def

lemma step_built:
  assumes "builder_step bu bu'" "built bu"
  shows "built bu'"
  using assms
proof (cases rule: builder_step.cases)
  case (insertion_point bs b)
  then show ?thesis
    using built_insertion(1) assms(2) by blast
next
  case (insertion_before bs i)
  then show ?thesis
    using built_insertion(2) assms(2) by blast
qed (simp_all add: assms(2) built_new_block build_set_loc_def constant_defs emitting_defs split_def
    built_constant built_emit built_call built_tables built_make_calls)

end
