(* ===== verification/Air_Properties.thy ===== *)
theory Air_Properties
  imports Air_Simplify_Sound Air_Simplify_Pass Air_Builder_Correct
begin

text \<open>
  The properties of AIR functions and of the passes over them, with a sample function on which
  their hypotheses hold.
\<close>

section \<open>A sample function\<close>

text \<open>One block that adds the constant two to itself, adds the sum to itself and returns a constant.\<close>

definition sample_block :: air_function where
  "sample_block = snd (create_block [] (new_function ''f'' 1 LinkExternal))"

definition sample_const :: air_function where
  "sample_const = snd (const_int types_I32 2 0 sample_block)"

definition sample_detached :: air_function where
  "sample_detached =
     snd (make_inst OpRet 0 [1] 0 0 0 0
       (snd (make_inst OpIadd types_I32 [2, 2] 0 0 0 0 (snd (make_inst OpIadd types_I32 [1, 1] 0 0 0 0 sample_const)))))"

definition sample :: air_function where
  "sample = append_inst 1 3 (append_inst 1 2 (append_inst 1 1 sample_detached))"

lemma sample_block_inv: "fn_inv sample_block [1] (\<lambda>_. [])" "constants_inv sample_block" "operands_inv sample_block"
proof -
  let ?f = "new_function ''f'' 1 LinkExternal"
  have c: "create_block [] ?f = (1, sample_block)"
    by (simp add: sample_block_def create_block_def new_function_def Let_def)
  have inv: "blocks_inv ?f []" "lists_inv ?f (\<lambda>_. [])" "fn_blocks ?f \<noteq> []"
    using new_function_inv(1) [of "''f''" 1 LinkExternal] by (simp_all add: fn_inv_def new_function_def)
  note b = create_block_blocks [OF c inv]
  have "fn_insts sample_block = fn_insts ?f" "fn_insts ?f \<noteq> []"
    using create_block_effect(3) [OF c inv(1)] by (simp_all add: new_function_def)
  then show "fn_inv sample_block [1] (\<lambda>_. [])"
    using b by (simp add: fn_inv_def fun_upd_def)
  have p: "constants_part sample_block = constants_part ?f" "fn_values sample_block = fn_values ?f"
    by (simp_all add: sample_block_def constants_part_def create_block_def new_function_def Let_def)
  show "constants_inv sample_block"
    using new_function_inv(2) [of "''f''" 1 LinkExternal] p by (simp add: constants_inv_def)
  have "fn_operand_pool sample_block = []" "fn_block_calls sample_block = [block_call_default]" "fn_insts sample_block = [inst_data_default]"
    by (simp_all add: sample_block_def create_block_def new_function_def Let_def)
  then show "operands_inv sample_block"
    by (auto simp: operands_inv_def pool_ok_def operand_owners_def valid_inst_def valid_block_call_def)
qed

lemma sample_const_inv: "fn_inv sample_const [1] (\<lambda>_. [])" "constants_inv sample_const" "operands_inv sample_const"
proof -
  obtain v where i: "intern_constant ConstInt types_I32 2 0 sample_block = (v, sample_const)"
    by (cases "intern_constant ConstInt types_I32 2 0 sample_block") (simp add: sample_const_def const_int_def)
  note eff = intern_constant_effect [OF sample_block_inv(2) i]
  show "constants_inv sample_const"
    by (rule eff(1))
  obtain vs lookup where f: "sample_const = sample_block\<lparr>fn_values := vs, fn_constant_lookup := lookup\<rparr>"
    using eff(6) by blast
  show "fn_inv sample_const [1] (\<lambda>_. [])"
    using same_shape_fn_inv(1) [of sample_block sample_const] sample_block_inv(1) by (simp add: same_shape_def f)
  have "operand_region sample_const a = operand_region sample_block a" for a
    by (cases a) (simp_all add: f inst_def block_call_of_def)
  then have "operand_region sample_const = operand_region sample_block"
    by (simp add: fun_eq_iff)
  moreover have "operand_owners sample_const = operand_owners sample_block"
    by (simp add: f operand_owners_def valid_inst_def valid_block_call_def)
  ultimately show "operands_inv sample_const"
    using sample_block_inv(3) by (simp add: operands_inv_def f)
qed

lemma sample_detached_inv:
  "fn_inv sample_detached [1] (\<lambda>_. [])" "operands_inv sample_detached"
  "valid_inst sample_detached i \<longleftrightarrow> i \<in> {1, 2, 3}" "valid_block sample_detached b \<longleftrightarrow> b = 1"
  "in_block (inst sample_detached 1) = 0" "in_block (inst sample_detached 2) = 0" "in_block (inst sample_detached 3) = 0"
proof -
  obtain i1 f1 where m1: "make_inst OpIadd types_I32 [1, 1] 0 0 0 0 sample_const = (i1, f1)"
    by fastforce
  obtain i2 f2 where m2: "make_inst OpIadd types_I32 [2, 2] 0 0 0 0 f1 = (i2, f2)"
    by fastforce
  obtain i3 f3 where m3: "make_inst OpRet 0 [1] 0 0 0 0 f2 = (i3, f3)"
    by fastforce
  have "f3 = sample_detached"
    by (simp only: sample_detached_def m1 m2 m3 snd_conv)
  note m = m1 m2 m3 [unfolded this]
  show "fn_inv sample_detached [1] (\<lambda>_. [])"
    using fn_inv_make_inst [OF fn_inv_make_inst [OF fn_inv_make_inst [OF sample_const_inv(1) m(1)] m(2)] m(3)] .
  have ne: "fn_insts sample_const \<noteq> []" "fn_insts f1 \<noteq> []" "fn_insts f2 \<noteq> []"
    using sample_const_inv(1) make_inst_effect(2) [OF m(1)] make_inst_effect(2) [OF m(2)] by (auto simp: fn_inv_def)
  show "operands_inv sample_detached"
    using make_inst_gives [OF sample_const_inv(3) ne(1) m(1)] make_inst_gives [OF _ ne(2) m(2)] make_inst_gives [OF _ ne(3) m(3)]
    by (simp add: gives_def)
  have "length (fn_insts sample_detached) = 4" "length (fn_blocks sample_detached) = 2"
    "map in_block (fn_insts sample_detached) = [0, 0, 0, 0]"
    by code_simp+
  then show "valid_inst sample_detached i \<longleftrightarrow> i \<in> {1, 2, 3}" "valid_block sample_detached b \<longleftrightarrow> b = 1"
    "in_block (inst sample_detached 1) = 0" "in_block (inst sample_detached 2) = 0" "in_block (inst sample_detached 3) = 0"
    by (auto simp: valid_inst_def valid_block_def inst_def map_eq_Cons_conv)
qed

lemma sample_inv: "fn_inv sample [1] ((\<lambda>_. [])(1 := [1, 2, 3]))"
proof -
  note d = sample_detached_inv
  have 1: "fn_inv (append_inst 1 1 sample_detached) [1] ((\<lambda>_. [])(1 := [1]))"
    using fn_inv_append [OF d(1), of 1 1] d(3-5) by simp
  note e1 = append_inst_effect [of sample_detached "\<lambda>_. []" 1 1]
  have "in_block (inst (append_inst 1 1 sample_detached) 2) = 0" "in_block (inst (append_inst 1 2 (append_inst 1 1 sample_detached)) 3) = 0"
    "length (fn_insts (append_inst 1 1 sample_detached)) = 4" "length (fn_insts (append_inst 1 2 (append_inst 1 1 sample_detached))) = 4"
    "length (fn_blocks (append_inst 1 1 sample_detached)) = 2" "length (fn_blocks (append_inst 1 2 (append_inst 1 1 sample_detached))) = 2"
    by code_simp+
  then show ?thesis
    using fn_inv_append [OF fn_inv_append [OF 1, of 1 2], of 1 3] by (simp add: sample_def valid_inst_def valid_block_def)
qed

abbreviation sample_lists :: "block_id \<Rightarrow> inst_id list" where
  "sample_lists \<equiv> (\<lambda>_. [])(1 := [1, 2, 3])"

lemma sample_constants: "constants_inv sample"
proof -
  have "fn_constant_lookup sample = [(hash_constant (fn_values sample ! 1), 1)]" "length (fn_values sample) = 4"
    by code_simp+
  then show ?thesis
    by (auto simp: constants_inv_def constants_part_def table_inv_def filed_def)
qed

text \<open>The well-known types, which every table starts with.\<close>

definition sample_table :: type_table where
  "sample_table =
     \<lparr>tt_types = type_data_default # well_known_types, tt_sigs = [sig_data_default], tt_type_lookup = [], tt_sig_lookup = []\<rparr>"

lemma sample_table_int32:
  "known_types sample_table" "check_value_type sample_table types_I32" "is_int sample_table types_I32"
  "width_of sample_table types_I32 = 32" "\<not> is_ptr sample_table types_I32" "\<not> is_float sample_table types_I32"
  by code_simp+

lemma sample_operand:
  "value_type sample 1 = types_I32" "vd_kind (value_of sample 1) = ConstInt" "den sample (\<lambda>_. AInt 0) 1 = AInt 2"
  "set (operands sample 1) \<subseteq> {1}" "in_result (inst sample 1) \<noteq> 0"
  by code_simp+

lemma sample_checks: "check_value_inst 64 sample_table sample 1" "check_operand_value sample_table sample 1"
  by code_simp+

lemma sample_runs: "runs 64 sample_table sample (\<lambda>_. AInt 0) {1} 1"
proof -
  have "fits 64 sample_table types_I32 (AInt 2)"
    unfolding fits_def using sample_table_int32 by simp
  then have "consistent 64 sample_table sample (\<lambda>_. AInt 0) {1}"
    unfolding consistent_def ball_simps using sample_operand sample_checks sample_table_int32 by (simp only: simp_thms value_kind.distinct)
  then show ?thesis
    unfolding runs_def using sample_operand sample_checks sample_table_int32 sample_constants by blast
qed

section \<open>Functions\<close>

text \<open>
  C6: the doubly linked instruction list of a block is a list. Reading it gives that list,
  appending, inserting before an instruction and removing act on it as on a plain list, and the
  lists of all other blocks stay as they are.
\<close>

theorem instruction_lists_refine:
  assumes "lists_inv f L" "valid_block f b"
  shows "inst_order f b = Some (L b)
    \<and> (\<forall>i. valid_inst f i \<longrightarrow> in_block (inst f i) = 0 \<longrightarrow> lists_inv (append_inst b i f) (L(b := L b @ [i])))
    \<and> (\<forall>i xs pos ys. valid_inst f i \<longrightarrow> in_block (inst f i) = 0 \<longrightarrow> L b = xs @ pos # ys \<longrightarrow>
         lists_inv (insert_before pos i f) (L(b := xs @ i # pos # ys)))
    \<and> (\<forall>xs i ys. L b = xs @ i # ys \<longrightarrow>
         lists_inv (remove_inst i f) (L(b := xs @ ys)) \<and> in_block (inst (remove_inst i f) i) = 0)"
proof (intro conjI allI impI)
  show "in_block (inst (remove_inst i f) i) = 0" if "L b = xs @ i # ys" for xs i ys
    by (simp add: remove_inst_effect(1) [OF assms that])
qed (rule inst_order_lists append_inst_lists insert_before_lists remove_inst_lists, (rule assms | assumption)+)+

theorem instruction_lists_refine_witness:
  "inst_order sample 1 = Some [1, 2, 3] \<and> lists_inv (remove_inst 2 sample) ((\<lambda>_. [])(1 := [1, 3]))"
proof -
  have inv: "lists_inv sample sample_lists" "valid_block sample 1"
    using fn_invD [OF sample_inv, of 1] by simp_all
  note r = instruction_lists_refine [OF inv]
  have "sample_lists 1 = [1] @ 2 # [3]"
    by simp
  then have "lists_inv (remove_inst 2 sample) (sample_lists(1 := [1] @ [3]))"
    using r by blast
  moreover have "inst_order sample 1 = Some (sample_lists 1)"
    using r by (rule conjunct1)
  ultimately show ?thesis
    by simp
qed

text \<open>
  C8: the blocks of a function are a list: reading them gives it, a new block comes last with
  no instructions and the parameters asked for, a block other than the entry can be taken out,
  and making an instruction disturbs neither the blocks nor their instructions.
\<close>

theorem block_order_refines:
  assumes "fn_inv f bs L" "fn_blocks f \<noteq> []"
  shows "block_order f = Some bs
    \<and> (\<forall>tys b f'. create_block tys f = (b, f') \<longrightarrow> fn_inv f' (bs @ [b]) (L(b := [])))
    \<and> (\<forall>xs b ys. bs = xs @ b # ys \<longrightarrow> b \<noteq> fn_entry_block f \<longrightarrow> blocks_inv (remove_block b f) (xs @ ys))
    \<and> (\<forall>op ty ops aux loc flags aux2 i f'. make_inst op ty ops aux loc flags aux2 f = (i, f') \<longrightarrow>
         fn_inv f' bs L \<and> valid_inst f' i \<and> in_block (inst f' i) = 0 \<and> operands f' i = ops)"
proof -
  have f: "blocks_inv f bs" "lists_inv f L" "fn_insts f \<noteq> []"
    using assms(1) by (simp_all add: fn_inv_def)
  have "fn_inv f' (bs @ [b]) (L(b := []))" if "create_block tys f = (b, f')" for tys b f'
    using create_block_blocks [OF that f(1,2) assms(2)] create_block_effect(3) [OF that f(1)] f(3) by (simp add: fn_inv_def)
  moreover have "fn_inv f' bs L \<and> valid_inst f' i \<and> in_block (inst f' i) = 0 \<and> operands f' i = ops"
    if "make_inst op ty ops aux loc flags aux2 f = (i, f')" for op ty ops aux loc flags aux2 i f'
    using fn_inv_make_inst [OF assms(1) that] make_inst_lists(3,4) [OF f(2,1,3) that] make_inst_effect(9-11) [OF that]
    by (simp add: operands_def)
  ultimately show ?thesis
    using block_order_blocks [OF f(1)] remove_block_blocks f(1) by blast
qed

theorem block_order_refines_witness:
  "block_order sample = Some [1] \<and> fn_inv (snd (create_block [types_I32] sample)) [1, 2] (sample_lists(2 := []))"
proof -
  have "fn_blocks sample \<noteq> []" "fst (create_block [types_I32] sample) = 2"
    by code_simp+
  then have "create_block [types_I32] sample = (2, snd (create_block [types_I32] sample))"
    by (simp add: prod_eq_iff)
  then show ?thesis
    using block_order_refines [OF sample_inv \<open>fn_blocks sample \<noteq> []\<close>] by fastforce
qed

text \<open>
  C7: operands and block call arguments are lists of their own, although all of them are ranges
  of one vector: each operation gives its owner the list it should, moves the range when it must,
  and leaves the list of every other instruction and block call unchanged.
\<close>

theorem operand_pool_refines:
  assumes "operands_inv f"
  shows "(\<forall>op ty ops aux loc flags aux2 i f'. fn_insts f \<noteq> [] \<longrightarrow> make_inst op ty ops aux loc flags aux2 f = (i, f') \<longrightarrow>
         gives f f' (OfInst i) ops)
    \<and> (\<forall>target args c f'. fn_block_calls f \<noteq> [] \<longrightarrow> make_block_call target args f = (c, f') \<longrightarrow> gives f f' (OfCall c) args)
    \<and> (\<forall>i k v. valid_inst f i \<longrightarrow> k < length (operands f i) \<longrightarrow>
         gives f (set_operand i k v f) (OfInst i) ((operands f i)[k := v]))
    \<and> (\<forall>c k v args. valid_block_call f c \<longrightarrow>
         gives f (append_block_call_arg c v f) (OfCall c) (block_call_args f c @ [v])
         \<and> gives f (set_block_call_args c args f) (OfCall c) args
         \<and> (k < length (block_call_args f c) \<longrightarrow>
              gives f (set_block_call_arg c k v f) (OfCall c) ((block_call_args f c)[k := v])
              \<and> gives f (remove_block_call_arg c k f) (OfCall c) (drop_nth k (block_call_args f c))))"
  using make_inst_gives [OF assms] make_block_call_gives(1) [OF assms] set_operand_gives [OF assms]
    block_call_arg_gives [OF assms] by (intro conjI allI impI) simp_all

theorem operand_pool_refines_witness:
  "operands (set_operand 1 0 2 sample_detached) 1 = [2, 1] \<and> operands (set_operand 1 0 2 sample_detached) 2 = [2, 2]"
proof -
  have o: "operands sample_detached 1 = [1, 1]" "operands sample_detached 2 = [2, 2]"
    by code_simp+
  have "gives sample_detached (set_operand 1 0 2 sample_detached) (OfInst 1) ((operands sample_detached 1)[0 := 2])"
    using conjunct1 [OF conjunct2 [OF conjunct2 [OF operand_pool_refines [OF sample_detached_inv(2)]]],
        THEN spec, THEN spec, THEN spec, of 1 0 2] sample_detached_inv(3) o by simp
  moreover have "OfInst 2 \<in> operand_owners sample_detached"
    using sample_detached_inv(3) by (simp add: operand_owners_def)
  ultimately have "operand_list (set_operand 1 0 2 sample_detached) (OfInst 1) = [2, 1]"
    "operand_list (set_operand 1 0 2 sample_detached) (OfInst 2) = operand_list sample_detached (OfInst 2)"
    using o by (simp_all add: gives_def)
  then show ?thesis
    using o by (simp add: operand_list_simps)
qed

text \<open>
  C9: replacing the uses of a value leaves none of it: what used the old value uses the new one,
  so their counts add up, and every other value is used as often as before.
\<close>

theorem replace_all_uses_correct:
  assumes "old \<noteq> new"
  shows "count_uses (replace_all_uses old new f) v =
    map_option (\<lambda>vs. if v = old then 0 else if v = new then count_list vs old + count_list vs new else count_list vs v) (all_uses f)"
  using count_list_replace [OF assms] by (simp add: count_uses_def all_uses_replace option.map_comp comp_def)

theorem replace_all_uses_correct_witness:
  "count_uses (replace_all_uses 2 1 sample) 2 = Some 0 \<and> count_uses (replace_all_uses 2 1 sample) 1 = Some 5"
proof -
  have "all_uses sample = Some [1, 1, 2, 2, 1]"
    by code_simp
  then show ?thesis
    using replace_all_uses_correct [of 2 1 sample] by simp
qed

section \<open>Dead code elimination\<close>

text \<open>
  C4: dead code elimination ends and removes a set of instructions of which every one is free of
  side effects and unused by what remains, and which leaves no removable instruction unused; the
  order of the others and everything else stays, and the flag tells whether anything was removed.
\<close>

theorem run_dce_correct:
  assumes "fn_inv f bs L"
  shows "\<exists>changed f' D. run_dce f = Some (changed, f') \<and> dead_set f bs L D \<and> same_body f f'
     \<and> fn_inv f' bs (\<lambda>b. filter (\<lambda>i. i \<notin> D) (L b)) \<and> (changed \<longleftrightarrow> D \<noteq> {}) \<and> (D = {} \<longrightarrow> f' = f)"
  using run_dce_returns [OF assms] unfolding without_def .

theorem run_dce_correct_witness:
  "\<exists>f'. run_dce sample = Some (True, f') \<and> inst_order f' 1 = Some [3]"
proof -
  obtain changed f' D where d: "run_dce sample = Some (changed, f')" "dead_set sample [1] sample_lists D"
      "fn_inv f' [1] (\<lambda>b. filter (\<lambda>i. i \<notin> D) (sample_lists b))" "changed \<longleftrightarrow> D \<noteq> {}"
    using run_dce_correct [OF sample_inv] by blast
  have r: "\<not> is_removable (inst sample 3)" "is_removable (inst sample 2)" "is_removable (inst sample 1)"
    "in_result (inst sample 2) = 3" "in_result (inst sample 1) = 2"
    "used_values sample 1 = [1, 1]" "used_values sample 2 = [2, 2]" "used_values sample 3 = [1]"
    by code_simp+
  have s: "set (all_insts [1] sample_lists) = {1, 2, 3}"
    by (simp add: all_insts_def)
  have no: "3 \<notin> D" and "2 \<in> D"
    using d(2) r unfolding dead_set_def s by fastforce+
  moreover have "1 \<in> D"
  proof (rule ccontr)
    assume "1 \<notin> D"
    then have "\<exists>j \<in> {1, 2, 3} - D. in_result (inst sample 1) \<in> set (used_values sample j)"
      using d(2) r(3) unfolding dead_set_def s by (metis DiffI insertI1)
    then obtain j where "j \<in> {1, 2, 3} - D" "2 \<in> set (used_values sample j)"
      unfolding r(5) by blast
    then show False
      using \<open>2 \<in> D\<close> r(6-8) by auto
  qed
  moreover have "D \<subseteq> {1, 2, 3}"
    using d(2) unfolding dead_set_def s by blast
  ultimately have "D = {1, 2}"
    by auto
  then have "inst_order f' 1 = Some [3]" "changed"
    using inst_order_lists [OF fn_invD(2,1) [OF d(3)], of 1] d(4) by simp_all
  then show ?thesis
    using d(1) by auto
qed

text \<open>
  C5: no instruction that is needed is lost: one with side effects, or one whose result a needed
  instruction uses, is in the same block after dead code elimination, with the same operands.
\<close>

theorem run_dce_keeps_needed:
  assumes "fn_inv f bs L" "run_dce f = Some (changed, f')" "needed f bs L i"
  shows "in_block (inst f' i) = in_block (inst f i) \<and> in_block (inst f i) \<in> set bs
    \<and> content (inst f' i) = content (inst f i) \<and> used_values f' i = used_values f i"
proof -
  obtain D where D: "dead_set f bs L D" "same_body f f'" "fn_inv f' bs (without D L)"
    using run_dce_returns [OF assms(1)] assms(2) by auto
  have "i \<in> set (all_insts bs L) - D"
    by (rule needed_kept [OF assms(3) D(1)])
  then obtain b where b: "b \<in> set bs" "i \<in> set (L b)" "i \<in> set (without D L b)"
    by (auto simp: set_all_insts without_def)
  then have "in_block (inst f i) = b" "in_block (inst f' i) = b"
    using lists_invD(1) fn_invD [OF assms(1) b(1)] fn_invD [OF D(3) b(1)] by blast+
  then show ?thesis
    using b(1) D(2) same_body_reads(4) [OF D(2)] by (simp add: same_body_def)
qed

theorem run_dce_keeps_needed_witness: "\<exists>f'. run_dce sample = Some (True, f') \<and> in_block (inst f' 3) = 1"
proof -
  have "fst (the (run_dce sample)) \<and> run_dce sample \<noteq> None \<and> \<not> is_removable (inst sample 3) \<and> in_block (inst sample 3) = 1"
    by code_simp
  then obtain f' where f': "run_dce sample = Some (True, f')" "\<not> is_removable (inst sample 3)" "in_block (inst sample 3) = 1"
    by auto
  have "needed sample [1] sample_lists 3"
    using f'(2) by (intro needed.root) (simp_all add: all_insts_def)
  then show ?thesis
    using run_dce_keeps_needed [OF sample_inv f'(1)] f'(1,3) by auto
qed

section \<open>Instruction simplification\<close>

text \<open>
  C10: folding two integer constants of 1 to 64 bits computes the operation on numbers modulo
  two to the width, signed operations on the signed reading, and folds nothing where the
  operation is undefined: an overlong shift, a division by zero, the one overflowing quotient.
  Folding a comparison decides the order of the numbers.
\<close>

theorem fold_correct:
  assumes "0 < w" "w \<le> 64" "uint l < 2 ^ w" "uint r < 2 ^ w"
  shows "map_option uint (fold_int_binop op \<lparr>ci_bits = l, ci_width = w\<rparr> \<lparr>ci_bits = r, ci_width = w\<rparr>) = int_op op w (uint l) (uint r)
    \<and> fold_icmp (Some cond) \<lparr>ci_bits = l, ci_width = w\<rparr> \<lparr>ci_bits = r, ci_width = w\<rparr> = int_cmp cond w (uint l) (uint r)"
  using fold_binop_int_op [OF assms] fold_icmp_int_cmp [OF assms] by blast

theorem fold_correct_witness:
  "map_option uint (fold_int_binop OpSdiv \<lparr>ci_bits = 0xf0, ci_width = 8\<rparr> \<lparr>ci_bits = 3, ci_width = 8\<rparr>) = Some 251"
proof -
  have "int_op OpSdiv 8 240 3 = Some 251"
    by code_simp
  then show ?thesis
    using fold_correct [of 8 "0xf0" 3 OpSdiv IEq] by simp
qed

text \<open>
  C3: when an instruction the verifier accepts is simplified to a value, that value is what the
  instruction computes and has its type, whenever the instruction has a defined result; this
  covers constant folding, the identities, comparisons, casts, conversions, selections.
\<close>

theorem simplify_inst_sound:
  assumes "runs pw tt f env S i" "eval_inst pw tt f env i = Some x" "simplify_inst tt i f = (v, f')" "v \<noteq> 0"
  shows "den f' env v = x \<and> value_type f' v = in_type (inst f i)"
  using simplify_inst_yields [OF assms(1,2)] assms(3,4) by (simp add: yields_def)

theorem simplify_inst_sound_witness:
  "\<exists>v f'. simplify_inst sample_table 1 sample = (v, f') \<and> den f' (\<lambda>_. AInt 0) v = AInt 4"
proof -
  obtain v f' where s: "simplify_inst sample_table 1 sample = (v, f')"
    by fastforce
  have "fst (simplify_inst sample_table 1 sample) \<noteq> 0"
    by code_simp
  then have v: "v \<noteq> 0"
    unfolding s fst_conv .
  have "runs 64 sample_table sample (\<lambda>_. AInt 0) {1} 1"
    by (rule sample_runs)
  moreover have "eval_inst 64 sample_table sample (\<lambda>_. AInt 0) 1 = Some (AInt 4)"
    by code_simp
  ultimately show ?thesis
    using simplify_inst_sound [OF _ _ s v] s by blast
qed

text \<open>
  C11: instruction simplification ends; it removes only instructions that compute a value and are
  not volatile, keeps the order of the others, the interned constants and the linked lists, and
  its flag tells whether anything was removed.
\<close>

theorem run_instsimplify_terminates:
  assumes "fn_inv f bs L" "constants_inv f"
  shows "\<exists>changed f' D. run_instsimplify tt f = Some (changed, f') \<and> D \<subseteq> set (all_insts bs L)
     \<and> fn_inv f' bs (\<lambda>b. filter (\<lambda>i. i \<notin> D) (L b)) \<and> constants_inv f' \<and> (changed \<longleftrightarrow> D \<noteq> {})
     \<and> (\<forall>i \<in> D. opcode_result_kind (in_op (inst f i)) = RValue \<and> in_flags (inst f i) AND INST_FLAG_VOLATILE = 0)
     \<and> (\<forall>i. content (inst f' i) = content (inst f i))"
  using run_instsimplify_returns [OF assms, of tt] unfolding without_def .

theorem run_instsimplify_terminates_witness:
  "\<exists>changed f'. run_instsimplify sample_table sample = Some (changed, f') \<and> constants_inv f'"
  using run_instsimplify_terminates [OF sample_inv sample_constants, of sample_table] by blast

end
