(* ===== verification/Worklist.thy ===== *)
theory Worklist
  imports Main
begin

text \<open>
  Reachability by a stack of positions still to be visited. The stack is a list whose head is
  the back of the vector; a position that was visited before is dropped when it is popped.
\<close>

fun explore :: "nat \<Rightarrow> (nat \<Rightarrow> nat list) \<Rightarrow> nat list \<Rightarrow> nat list \<Rightarrow> nat list option" where
  "explore fuel succ [] seen = Some seen"
| "explore fuel succ (b # work) seen =
     (case fuel of
        0 \<Rightarrow> None
      | Suc n \<Rightarrow> if b \<in> set seen then explore n succ work seen
               else explore n succ (rev (succ b) @ work) (b # seen))"

text \<open>Each position is expanded once: the pops are the first entries and the successors.\<close>

definition explore_fuel :: "(nat \<Rightarrow> nat list) \<Rightarrow> nat list \<Rightarrow> nat list \<Rightarrow> nat" where
  "explore_fuel succ universe work = length work + (\<Sum>b\<leftarrow>universe. length (succ b))"

text \<open>The positions that can be reached from \<open>R\<close>.\<close>

inductive_set reach :: "(nat \<Rightarrow> nat list) \<Rightarrow> nat set \<Rightarrow> nat set" for succ R where
  start: "b \<in> R \<Longrightarrow> b \<in> reach succ R"
| step: "b \<in> reach succ R \<Longrightarrow> c \<in> set (succ b) \<Longrightarrow> c \<in> reach succ R"

locale graph =
  fixes succ :: "nat \<Rightarrow> nat list"
    and universe :: "nat set"
  assumes finite_universe: "finite universe"
    and closed: "b \<in> universe \<Longrightarrow> set (succ b) \<subseteq> universe"
begin

lemma reach_universe: "R \<subseteq> universe \<Longrightarrow> reach succ R \<subseteq> universe"
proof
  fix b
  assume "b \<in> reach succ R" "R \<subseteq> universe"
  then show "b \<in> universe"
    using closed by (induction rule: reach.induct) auto
qed

text \<open>
  The visited positions have their successors visited or waiting, and everything visited or
  waiting is reachable; so when nothing waits, the visited positions are the reachable ones.
\<close>

lemma reach_visited:
  assumes "R \<subseteq> A" "\<And>b. b \<in> A \<Longrightarrow> set (succ b) \<subseteq> A"
  shows "reach succ R \<subseteq> A"
proof
  fix b
  assume "b \<in> reach succ R"
  then show "b \<in> A"
    using assms by (induction rule: reach.induct) blast+
qed

lemma explore_reaches:
  assumes "set work \<union> set seen \<subseteq> reach succ R" "R \<subseteq> set work \<union> set seen" "R \<subseteq> universe"
    and "\<And>b. b \<in> set seen \<Longrightarrow> set (succ b) \<subseteq> set seen \<union> set work"
    and "length work + (\<Sum>b \<in> universe - set seen. length (succ b)) \<le> fuel"
  shows "\<exists>r. explore fuel succ work seen = Some r \<and> set r = reach succ R"
  using assms
proof (induction fuel arbitrary: work seen)
  case 0
  then have "reach succ R \<subseteq> set seen"
    by (intro reach_visited) auto
  then show ?case
    using 0 by auto
next
  case (Suc n)
  show ?case
  proof (cases work)
    case Nil
    then have "reach succ R \<subseteq> set seen"
      using Suc.prems by (intro reach_visited) auto
    then show ?thesis
      using Suc.prems Nil by auto
  next
    case (Cons b rest)
    show ?thesis
    proof (cases "b \<in> set seen")
      case True
      have "\<exists>r. explore n succ rest seen = Some r \<and> set r = reach succ R"
      proof (rule Suc.IH)
        show "set (succ c) \<subseteq> set seen \<union> set rest" if "c \<in> set seen" for c
          using Suc.prems(4) [OF that] Cons True by auto
      qed (use Suc.prems Cons True in auto)
      then show ?thesis
        using Cons True by simp
    next
      case False
      have b: "b \<in> reach succ R" "b \<in> universe"
        using Suc.prems(1,3) Cons reach_universe by auto
      have "universe - set (b # seen) = universe - set seen - {b}"
        by auto
      then have sum: "(\<Sum>b \<in> universe - set seen. length (succ b)) =
          length (succ b) + (\<Sum>b \<in> universe - set (b # seen). length (succ b))"
        using sum.remove [of "universe - set seen" b "\<lambda>b. length (succ b)"] finite_universe b(2) False by simp
      have "\<exists>r. explore n succ (rev (succ b) @ rest) (b # seen) = Some r \<and> set r = reach succ R"
      proof (rule Suc.IH)
        show "set (rev (succ b) @ rest) \<union> set (b # seen) \<subseteq> reach succ R"
          using Suc.prems(1) Cons reach.step [OF b(1)] by auto
        show "R \<subseteq> set (rev (succ b) @ rest) \<union> set (b # seen)" "R \<subseteq> universe"
          using Suc.prems(2,3) Cons by auto
        show "set (succ c) \<subseteq> set (b # seen) \<union> set (rev (succ b) @ rest)" if "c \<in> set (b # seen)" for c
          using that Suc.prems(4) Cons by auto
        show "length (rev (succ b) @ rest) + (\<Sum>b \<in> universe - set (b # seen). length (succ b)) \<le> n"
          using Suc.prems(5) sum Cons by simp
      qed
      then show ?thesis
        using False Cons by simp
    qed
  qed
qed

lemma explore_correct:
  assumes "set work \<subseteq> universe" "universe \<subseteq> set us"
  shows "\<exists>r. explore (explore_fuel succ us work) succ work [] = Some r \<and> set r = reach succ (set work)"
proof (rule explore_reaches)
  show "length work + (\<Sum>b \<in> universe - set []. length (succ b)) \<le> explore_fuel succ us work"
  proof -
    have "(\<Sum>b \<in> universe. length (succ b)) \<le> (\<Sum>b \<in> set us. length (succ b))"
      using assms(2) by (intro sum_mono2) auto
    also have "\<dots> = (\<Sum>b\<leftarrow>remdups us. length (succ b))"
      by (simp add: sum.set_conv_list)
    also have "\<dots> \<le> (\<Sum>b\<leftarrow>us. length (succ b))"
      by (induction us) auto
    finally show ?thesis
      by (simp add: explore_fuel_def)
  qed
qed (use assms in \<open>auto intro: reach.start\<close>)

end

end
