(* ===== verification/Air_Cfg.thy ===== *)
theory Air_Cfg
  imports Air_Function Worklist
begin

text \<open>
  Control-flow simplification (\<open>run_simplify_cfg\<close> of \<open>air/passes_opt.cpp\<close>): branches with a known
  direction become jumps, jumps to a block that only jumps on go to its target, a block is merged
  into its only predecessor, unreachable blocks are removed; in rounds, until nothing changes.
\<close>

section \<open>Facts about the control flow\<close>

record pred_edge =
  pe_from :: block_id
  pe_call :: block_call_id
  pe_terminator :: opcode

text \<open>
  The map from blocks to their predecessor edges is kept as the sequence of its insertions. The
  set of protected blocks is a list without meaning of its order.
\<close>

record cfg_facts =
  cf_edges :: "(block_id \<times> pred_edge) list"
  cf_protected :: "block_id list"
  cf_indirect :: bool

definition preds :: "cfg_facts \<Rightarrow> block_id \<Rightarrow> pred_edge list" where
  "preds facts b = map snd (filter (\<lambda>e. fst e = b) (cf_edges facts))"

definition terminator_of :: "air_function \<Rightarrow> block_id \<Rightarrow> inst_id" where
  "terminator_of f b = bd_last (block f b)"

definition label_targets :: "air_function \<Rightarrow> block_id list" where
  "label_targets f =
     map (\<lambda>value. unat (ucast (vd_payload value) :: u32)) (filter (\<lambda>value. vd_kind value = LabelAddr) (tl (fn_values f)))"

definition call_target :: "air_function \<Rightarrow> block_call_id \<Rightarrow> block_id" where
  "call_target f c = bc_target (block_call_of f c)"

definition edges_of :: "air_function \<Rightarrow> block_id \<Rightarrow> (block_id \<times> pred_edge) list" where
  "edges_of f b =
     (let term = terminator_of f b
      in if term = 0 then []
         else map (\<lambda>call. (call_target f call, \<lparr>pe_from = b, pe_call = call, pe_terminator = in_op (inst f term)\<rparr>))
                (successors f term))"

definition is_indirect :: "air_function \<Rightarrow> block_id \<Rightarrow> bool" where
  "is_indirect f b \<longleftrightarrow> terminator_of f b \<noteq> 0 \<and> in_op (inst f (terminator_of f b)) = OpBrIndirect"

definition collect_cfg_facts :: "air_function \<Rightarrow> cfg_facts option" where
  "collect_cfg_facts f =
     map_option
       (\<lambda>bs. \<lparr>cf_edges = concat (map (edges_of f) bs),
              cf_protected = label_targets f @ concat (map (\<lambda>b. map fst (edges_of f b)) (filter (is_indirect f) bs)),
              cf_indirect = (label_targets f \<noteq> [] \<or> (\<exists>b \<in> set bs. is_indirect f b))\<rparr>)
       (block_order f)"

section \<open>The four rewrites\<close>

definition block_is_empty :: "air_function \<Rightarrow> block_id \<Rightarrow> bool" where
  "block_is_empty f b \<longleftrightarrow> bd_first (block f b) \<noteq> 0 \<and> bd_first (block f b) = bd_last (block f b)"

definition replace_terminator_with_jump :: "block_id \<Rightarrow> block_call_id \<Rightarrow> air_function \<Rightarrow> air_function" where
  "replace_terminator_with_jump b call f =
     (let term = terminator_of f b;
          loc = in_loc (inst f term)
      in case make_inst OpJump 0 [] (of_nat call) loc 0 0 (remove_inst term f) of
           (jump, f') \<Rightarrow> append_inst b jump f')"

definition spans_equal :: "value_id list \<Rightarrow> value_id list \<Rightarrow> bool" where
  "spans_equal a b = (if length a \<noteq> length b then False else list_all (\<lambda>i. a ! i = b ! i) [0..<length a])"

definition fold_branch :: "block_id \<Rightarrow> air_function \<Rightarrow> bool \<times> air_function" where
  "fold_branch b f =
     (let term = terminator_of f b; data = inst f term
      in if in_op data \<noteq> OpBrIf then (False, f)
         else
           let then_call = unat (aux_low (in_aux data));
               else_call = unat (aux_high (in_aux data));
               cond_value = value_of f (operands f term ! 0)
           in if vd_kind cond_value = ConstInt
              then (True, replace_terminator_with_jump b (if vd_payload cond_value \<noteq> 0 then then_call else else_call) f)
              else if call_target f then_call = call_target f else_call
                      \<and> spans_equal (block_call_args f then_call) (block_call_args f else_call)
              then (True, replace_terminator_with_jump b then_call f)
              else (False, f))"

text \<open>An argument that is a parameter of the block becomes what the edge passes for it.\<close>

definition translate_arg :: "air_function \<Rightarrow> block_id \<Rightarrow> value_id list \<Rightarrow> value_id \<Rightarrow> value_id" where
  "translate_arg f b incoming arg =
     (let value = value_of f arg
      in if vd_kind value = BlockParam \<and> unat (ucast (vd_payload value) :: u32) = b
         then incoming ! unat (vd_payload2 value) else arg)"

definition forward_edge :: "block_id \<Rightarrow> value_id list \<Rightarrow> value_id list \<Rightarrow> block_id \<Rightarrow> pred_edge \<Rightarrow> bool \<times> air_function \<Rightarrow> bool \<times> air_function" where
  "forward_edge b params onward_args target edge st =
     (case st of (changed, f) \<Rightarrow>
        let needs_translation = (params \<noteq> [])
        in if pe_terminator edge = OpSwitch \<and> (needs_translation \<or> onward_args \<noteq> []) then (changed, f)
           else
             let incoming = block_call_args f (pe_call edge);
                 translated = (if needs_translation then map (translate_arg f b incoming) onward_args else onward_args)
             in (True, set_block_call_args (pe_call edge) translated (set_block_call_target (pe_call edge) target f)))"

definition fold_forwarding_block :: "cfg_facts \<Rightarrow> block_id \<Rightarrow> air_function \<Rightarrow> (bool \<times> air_function) option" where
  "fold_forwarding_block facts b f =
     (if b = fn_entry_block f \<or> b \<in> set (cf_protected facts) then Some (False, f)
      else if \<not> block_is_empty f b then Some (False, f)
      else
        let data = inst f (terminator_of f b)
        in if in_op data \<noteq> OpJump then Some (False, f)
           else
             let onward = unat (aux_low (in_aux data)); target = call_target f onward
             in if target = b then Some (False, f)
                else if preds facts b = [] then Some (False, f)
                else
                  let params = block_params f b; onward_args = block_call_args f onward
                  in case all_uses f of
                       None \<Rightarrow> None
                     | Some uses \<Rightarrow>
                         if \<exists>param \<in> set params. count_list uses param \<noteq> count_list onward_args param
                         then Some (False, f)
                         else Some (fold (forward_edge b params onward_args target) (preds facts b) (False, f)))"

fun replace_params :: "value_id list \<Rightarrow> value_id list \<Rightarrow> air_function \<Rightarrow> air_function" where
  "replace_params [] args f = f"
| "replace_params (p # ps) args f = replace_params ps (tl args) (replace_all_uses p (args ! 0) f)"

definition move_inst :: "block_id \<Rightarrow> inst_id \<Rightarrow> air_function \<Rightarrow> air_function" where
  "move_inst to i f = append_inst to i (remove_inst i f)"

definition merge_into_predecessor :: "cfg_facts \<Rightarrow> block_id \<Rightarrow> air_function \<Rightarrow> (bool \<times> air_function) option" where
  "merge_into_predecessor facts b f =
     (if b = fn_entry_block f \<or> b \<in> set (cf_protected facts) then Some (False, f)
      else if length (preds facts b) \<noteq> 1 then Some (False, f)
      else
        let edge = preds facts b ! 0
        in if pe_terminator edge \<noteq> OpJump \<or> pe_from edge = b then Some (False, f)
           else
             let f1 = replace_params (block_params f b) (block_call_args f (pe_call edge)) f;
                 f2 = remove_inst (terminator_of f1 (pe_from edge)) f1
             in map_option (\<lambda>f3. (True, remove_block b f3))
                  (visit (length (fn_insts f2)) (\<lambda>g i. in_next (inst g i)) (move_inst (pe_from edge))
                     (bd_first (block f2 b)) f2))"

definition succ_blocks :: "air_function \<Rightarrow> block_id \<Rightarrow> block_id list" where
  "succ_blocks f b =
     (let term = terminator_of f b in if term = 0 then [] else map (call_target f) (successors f term))"

definition remove_if_unreached :: "block_id list \<Rightarrow> block_id \<Rightarrow> bool \<times> air_function \<Rightarrow> bool \<times> air_function" where
  "remove_if_unreached reachable b st =
     (case st of (changed, f) \<Rightarrow> if b \<notin> set reachable then (True, remove_block b f) else (changed, f))"

definition remove_unreachable_blocks :: "cfg_facts \<Rightarrow> air_function \<Rightarrow> (bool \<times> air_function) option" where
  "remove_unreachable_blocks facts f =
     (let work = rev (fn_entry_block f # cf_protected facts)
      in case explore (explore_fuel (succ_blocks f) [0..<length (fn_blocks f)] work) (succ_blocks f) work [] of
           None \<Rightarrow> None
         | Some reachable \<Rightarrow>
             visit (length (fn_blocks f)) (\<lambda>st b. bd_next (block (snd st) b)) (remove_if_unreached reachable)
               (fn_entry_block f) (False, f))"

section \<open>The pass\<close>

text \<open>The loop over the blocks that stops at the first one its body changes.\<close>

fun search :: "nat \<Rightarrow> (air_function \<Rightarrow> nat \<Rightarrow> nat) \<Rightarrow> (nat \<Rightarrow> air_function \<Rightarrow> (bool \<times> air_function) option) \<Rightarrow> nat \<Rightarrow>
    air_function \<Rightarrow> (bool \<times> air_function) option" where
  "search fuel nx body b f =
     (if b = 0 then Some (False, f)
      else case fuel of
          0 \<Rightarrow> None
        | Suc n \<Rightarrow>
            (case body b f of
               None \<Rightarrow> None
             | Some (changed, f') \<Rightarrow> if changed then Some (True, f') else search n nx body (nx f' b) f'))"

declare search.simps [simp del]

definition next_block :: "air_function \<Rightarrow> block_id \<Rightarrow> block_id" where
  "next_block f b = bd_next (block f b)"

definition fold_branch_visit :: "block_id \<Rightarrow> bool \<times> air_function \<Rightarrow> (bool \<times> air_function) option" where
  "fold_branch_visit b st =
     (case st of (changed, f) \<Rightarrow> case fold_branch b f of (folded, f') \<Rightarrow> Some (changed \<or> folded, f'))"

definition fold_branches :: "air_function \<Rightarrow> (bool \<times> air_function) option" where
  "fold_branches f =
     for_each (length (fn_blocks f)) (\<lambda>st. next_block (snd st)) fold_branch_visit (fn_entry_block f) (False, f)"

definition simplify_cfg_round :: "air_function \<Rightarrow> (bool \<times> air_function) option" where
  "simplify_cfg_round f =
     (case collect_cfg_facts f of
        None \<Rightarrow> None
      | Some facts \<Rightarrow>
          (case fold_branches f of
             None \<Rightarrow> None
           | Some (True, f1) \<Rightarrow> Some (True, f1)
           | Some (False, f1) \<Rightarrow>
               (case search (length (fn_blocks f1)) next_block (fold_forwarding_block facts) (fn_entry_block f1) f1 of
                  None \<Rightarrow> None
                | Some (True, f2) \<Rightarrow> Some (True, f2)
                | Some (False, f2) \<Rightarrow>
                    (case search (length (fn_blocks f2)) next_block (merge_into_predecessor facts) (fn_entry_block f2) f2 of
                       None \<Rightarrow> None
                     | Some (True, f3) \<Rightarrow> Some (True, f3)
                     | Some (False, f3) \<Rightarrow> remove_unreachable_blocks facts f3))))"

text \<open>
  Every round that changes something takes away a conditional branch, a block, or the last
  predecessor of a block, as the termination theorem shows; so four times the blocks is enough fuel.
\<close>

fun simplify_cfg_rounds :: "nat \<Rightarrow> bool \<Rightarrow> air_function \<Rightarrow> (bool \<times> air_function) option" where
  "simplify_cfg_rounds 0 changed f = None"
| "simplify_cfg_rounds (Suc n) changed f =
     (case simplify_cfg_round f of
        None \<Rightarrow> None
      | Some (round_changed, f') \<Rightarrow> if round_changed then simplify_cfg_rounds n True f' else Some (changed, f'))"

definition run_simplify_cfg :: "air_function \<Rightarrow> (bool \<times> air_function) option" where
  "run_simplify_cfg f = simplify_cfg_rounds (4 * length (fn_blocks f) + 1) False f"

end
