(* ===== verification/Air_Cfg_Flow.thy ===== *)
theory Air_Cfg_Flow
  imports Air_Insts
begin

text \<open>
  Why the rounds of control-flow simplification end. The control flow of a function is, for each
  block, the opcode and the block calls of its terminator, and the target of each call; every
  rewrite takes away a conditional branch, a block, or the last (unconditional) way into a block.
\<close>

type_synonym flow = "nat \<Rightarrow> opcode \<times> nat list"

definition branching :: "nat list \<Rightarrow> flow \<Rightarrow> nat set" where
  "branching bs fl = {b \<in> set bs. fst (fl b) = OpBrIf}"

definition entered :: "nat list \<Rightarrow> flow \<Rightarrow> (nat \<Rightarrow> nat) \<Rightarrow> nat set" where
  "entered bs fl tg = {t \<in> set bs. \<exists>b \<in> set bs. \<exists>c \<in> set (snd (fl b)). tg c = t}"

definition jumped :: "nat list \<Rightarrow> flow \<Rightarrow> (nat \<Rightarrow> nat) \<Rightarrow> nat set" where
  "jumped bs fl tg = {t \<in> set bs. \<exists>b \<in> set bs. fst (fl b) \<noteq> OpSwitch \<and> (\<exists>c \<in> set (snd (fl b)). tg c = t)}"

definition flow_size :: "nat list \<Rightarrow> flow \<Rightarrow> (nat \<Rightarrow> nat) \<Rightarrow> nat" where
  "flow_size bs fl tg = card (branching bs fl) + card (entered bs fl tg) + card (jumped bs fl tg) + length bs"

lemma flow_finite [simp]: "finite (branching bs fl)" "finite (entered bs fl tg)" "finite (jumped bs fl tg)"
  by (simp_all add: branching_def entered_def jumped_def)

lemma flow_size_bound: "flow_size bs fl tg \<le> 4 * length bs"
proof -
  have "card A \<le> length bs" if "A \<subseteq> set bs" for A
    using card_mono [OF finite_set that] card_length [of bs] by linarith
  from this [of "branching bs fl"] this [of "entered bs fl tg"] this [of "jumped bs fl tg"] show ?thesis
    by (simp add: flow_size_def branching_def entered_def jumped_def)
qed

lemma flow_size_cong:
  assumes "\<And>b. b \<in> set bs \<Longrightarrow> fl' b = fl b" "\<And>b c. b \<in> set bs \<Longrightarrow> c \<in> set (snd (fl b)) \<Longrightarrow> tg' c = tg c"
  shows "flow_size bs fl' tg' = flow_size bs fl tg"
proof -
  have "branching bs fl' = branching bs fl" "entered bs fl' tg' = entered bs fl tg" "jumped bs fl' tg' = jumped bs fl tg"
    using assms by (auto simp: branching_def entered_def jumped_def)
  then show ?thesis
    by (simp add: flow_size_def)
qed

lemma flow_size_shrinks:
  assumes "branching bs' fl' \<subseteq> branching bs fl" "entered bs' fl' tg' \<subseteq> entered bs fl tg"
    "jumped bs' fl' tg' \<subseteq> jumped bs fl tg" "length bs' \<le> length bs"
    and "branching bs' fl' \<noteq> branching bs fl \<or> entered bs' fl' tg' \<noteq> entered bs fl tg
      \<or> jumped bs' fl' tg' \<noteq> jumped bs fl tg \<or> length bs' < length bs"
  shows "flow_size bs' fl' tg' < flow_size bs fl tg"
proof -
  have le: "card A \<le> card B" if "A \<subseteq> B" "finite B" for A B :: "nat set"
    using that by (simp add: card_mono)
  have lt: "card A < card B" if "A \<subseteq> B" "finite B" "A \<noteq> B" for A B :: "nat set"
    using that by (simp add: psubset_card_mono psubset_eq)
  note les = le [OF assms(1)] le [OF assms(2)] le [OF assms(3)] assms(4)
  from assms(5) consider
      "card (branching bs' fl') < card (branching bs fl)" | "card (entered bs' fl' tg') < card (entered bs fl tg)"
    | "card (jumped bs' fl' tg') < card (jumped bs fl tg)" | "length bs' < length bs"
    using lt [OF assms(1)] lt [OF assms(2)] lt [OF assms(3)] flow_finite by blast
  then show ?thesis
    using les by cases (simp_all add: flow_size_def)
qed

text \<open>A conditional branch becomes a jump along one of its calls.\<close>

lemma branch_shrinks:
  assumes "b \<in> set bs" "fst (fl b) = OpBrIf" "c \<in> set (snd (fl b))"
  shows "flow_size bs (fl(b := (OpJump, [c]))) tg < flow_size bs fl tg"
proof (rule flow_size_shrinks)
  have "b \<in> branching bs fl" "b \<notin> branching bs (fl(b := (OpJump, [c])))"
    using assms by (simp_all add: branching_def)
  then show "branching bs (fl(b := (OpJump, [c]))) \<noteq> branching bs fl
      \<or> entered bs (fl(b := (OpJump, [c]))) tg \<noteq> entered bs fl tg
      \<or> jumped bs (fl(b := (OpJump, [c]))) tg \<noteq> jumped bs fl tg \<or> length bs < length bs"
    by blast
  show "jumped bs (fl(b := (OpJump, [c]))) tg \<subseteq> jumped bs fl tg"
    using assms by (auto simp: jumped_def split: if_splits) (metis opcode.distinct)
qed (use assms in \<open>auto simp: branching_def entered_def split: if_splits\<close>)

text \<open>
  The edges into a block that only jumps on go to its target: all of them, or all that are not
  the cases of a switch.
\<close>

lemma forward_shrinks:
  assumes x: "x \<in> set bs" "fl x = (OpJump, [ow])" "tg ow \<noteq> x"
    and C: "\<And>c. c \<in> C \<Longrightarrow> tg c = x" and p: "p \<in> set bs" "c\<^sub>0 \<in> set (snd (fl p))" "c\<^sub>0 \<in> C"
    and some: "\<And>b c. b \<in> set bs \<Longrightarrow> fst (fl b) \<noteq> OpSwitch \<Longrightarrow> c \<in> set (snd (fl b)) \<Longrightarrow> tg c = x \<Longrightarrow> c \<in> C"
    and all: "fst (fl p) \<noteq> OpSwitch \<or> (\<forall>b \<in> set bs. \<forall>c \<in> set (snd (fl b)). tg c = x \<longrightarrow> c \<in> C)"
  shows "flow_size bs fl (\<lambda>c. if c \<in> C then tg ow else tg c) < flow_size bs fl tg"
proof (rule flow_size_shrinks)
  let ?tg = "\<lambda>c. if c \<in> C then tg ow else tg c"
  have ow: "ow \<in> set (snd (fl x))" "fst (fl x) \<noteq> OpSwitch"
    using x(2) by simp_all
  show "entered bs fl ?tg \<subseteq> entered bs fl tg" "jumped bs fl ?tg \<subseteq> jumped bs fl tg"
    using x(1) ow by (auto simp: entered_def jumped_def split: if_splits)
  have in1: "x \<in> entered bs fl tg"
    using x(1) p C by (auto simp: entered_def)
  show "branching bs fl \<noteq> branching bs fl \<or> entered bs fl ?tg \<noteq> entered bs fl tg
      \<or> jumped bs fl ?tg \<noteq> jumped bs fl tg \<or> length bs < length bs"
  proof (cases "fst (fl p) = OpSwitch")
    case False
    have "x \<in> jumped bs fl tg"
      using x(1) p C False by (auto simp: jumped_def)
    moreover have "x \<notin> jumped bs fl ?tg"
      using x(3) some by (auto simp: jumped_def split: if_splits)
    ultimately show ?thesis
      by blast
  next
    case True
    then have "x \<notin> entered bs fl ?tg"
      using x(3) all by (auto simp: entered_def split: if_splits)
    then show ?thesis
      using in1 by blast
  qed
qed simp_all

text \<open>A block is merged into its only predecessor, which jumps to it.\<close>

lemma merge_shrinks:
  assumes bs: "distinct bs" "set bs' = set bs - {x}" "length bs' < length bs" and x: "x \<in> set bs"
    and p: "p \<in> set bs" "p \<noteq> x" "fst (fl p) = OpJump"
  shows "flow_size bs' (fl(p := fl x)) tg < flow_size bs fl tg"
proof -
  let ?fl = "fl(p := fl x)"
  have "card (branching bs' ?fl) \<le> card (branching bs fl)"
  proof (cases "fst (fl x) = OpBrIf")
    case True
    have "branching bs' ?fl = insert p (branching bs fl - {x})" "x \<in> branching bs fl" "p \<notin> branching bs fl"
      using True bs p x by (auto simp: branching_def split: if_splits)
    then show ?thesis
      using card_Suc_Diff1 [of "branching bs fl" x] by simp
  next
    case False
    then have "branching bs' ?fl \<subseteq> branching bs fl"
      using bs by (auto simp: branching_def split: if_splits)
    then show ?thesis
      by (simp add: card_mono)
  qed
  moreover have "entered bs' ?fl tg \<subseteq> entered bs fl tg" "jumped bs' ?fl tg \<subseteq> jumped bs fl tg"
    using bs(2) x by (auto simp: entered_def jumped_def split: if_splits)
  then have "card (entered bs' ?fl tg) \<le> card (entered bs fl tg)" "card (jumped bs' ?fl tg) \<le> card (jumped bs fl tg)"
    by (simp_all add: card_mono)
  ultimately show ?thesis
    using bs(3) by (simp add: flow_size_def)
qed

lemma remove_shrinks:
  assumes "set bs' \<subseteq> set bs" "length bs' < length bs"
  shows "flow_size bs' fl tg < flow_size bs fl tg"
  by (rule flow_size_shrinks) (use assms in \<open>auto simp: branching_def entered_def jumped_def\<close>)

end
