(* ===== verification/Air_Cfg_Correct.thy ===== *)
theory Air_Cfg_Correct
  imports Air_Cfg Air_Cfg_Flow Air_Rewrite
begin

text \<open>
  Control-flow simplification ends, keeps the function well formed, and leaves only blocks that
  can be reached.
\<close>

section \<open>Well-formed control flow\<close>

definition flow_of :: "air_function \<Rightarrow> (block_id \<Rightarrow> inst_id list) \<Rightarrow> flow" where
  "flow_of f L b = (in_op (inst f (last (L b))), successors f (last (L b)))"

text \<open>
  Every block ends in an instruction, whose block calls exist and lead to blocks of the function,
  and the blocks whose address is taken are blocks of the function.
\<close>

definition cfg_inv :: "air_function \<Rightarrow> block_id list \<Rightarrow> (block_id \<Rightarrow> inst_id list) \<Rightarrow> bool" where
  "cfg_inv f bs L \<longleftrightarrow>
     fn_inv f bs L \<and> bs \<noteq> [] \<and> (\<forall>b \<in> set bs. L b \<noteq> [])
     \<and> (\<forall>b \<in> set bs. \<forall>c \<in> set (snd (flow_of f L b)). valid_block_call f c \<and> call_target f c \<in> set bs)
     \<and> set (label_targets f) \<subseteq> set bs"

lemma cfg_invD:
  assumes "cfg_inv f bs L"
  shows "fn_inv f bs L" "bs \<noteq> []" "b \<in> set bs \<Longrightarrow> L b \<noteq> []" "set (label_targets f) \<subseteq> set bs"
    "b \<in> set bs \<Longrightarrow> c \<in> set (snd (flow_of f L b)) \<Longrightarrow> valid_block_call f c"
    "b \<in> set bs \<Longrightarrow> c \<in> set (snd (flow_of f L b)) \<Longrightarrow> call_target f c \<in> set bs"
  using assms by (auto simp: cfg_inv_def)

lemma cfg_inv_order:
  assumes "cfg_inv f bs L"
  shows "distinct bs" "block_order f = Some bs" "fn_entry_block f = hd bs" "length bs \<le> length (fn_blocks f)"
    "b \<in> set bs \<Longrightarrow> b < length (fn_blocks f)"
proof -
  have i: "blocks_inv f bs"
    using cfg_invD(1) [OF assms] by (simp add: fn_inv_def)
  then show "distinct bs" "block_order f = Some bs"
    using block_order_blocks by (auto simp: blocks_inv_def dll_def)
  show "fn_entry_block f = hd bs"
    using i cfg_invD(2) [OF assms] by (cases bs) (auto simp: blocks_inv_def dll_def)
  show "b \<in> set bs \<Longrightarrow> b < length (fn_blocks f)"
    using i by (simp add: blocks_inv_def valid_block_def)
  show "length bs \<le> length (fn_blocks f)"
    using i by (intro distinct_bound) (auto simp: blocks_inv_def dll_def valid_block_def)
qed

lemma terminator_last:
  assumes "cfg_inv f bs L" "b \<in> set bs"
  shows "terminator_of f b = last (L b)" "last (L b) \<noteq> 0" "valid_inst f (last (L b))" "L b = butlast (L b) @ [last (L b)]"
proof -
  note i = cfg_invD(1) [OF assms(1)]
  show L: "L b = butlast (L b) @ [last (L b)]"
    using cfg_invD(3) [OF assms] by simp
  note n = neighbours [OF fn_invD(2,1) [OF i assms(2)] L]
  show "terminator_of f b = last (L b)" "last (L b) \<noteq> 0" "valid_inst f (last (L b))"
    using n by (simp_all add: terminator_of_def valid_inst_def)
qed

lemma edges_of_flow:
  assumes "cfg_inv f bs L" "b \<in> set bs"
  shows "edges_of f b =
      map (\<lambda>c. (call_target f c, \<lparr>pe_from = b, pe_call = c, pe_terminator = fst (flow_of f L b)\<rparr>)) (snd (flow_of f L b))"
    and "succ_blocks f b = map (call_target f) (snd (flow_of f L b))"
  using terminator_last [OF assms] by (simp_all add: edges_of_def succ_blocks_def flow_of_def Let_def)

lemma collect_cfg_facts_flow:
  assumes inv: "cfg_inv f bs L"
  obtains facts where "collect_cfg_facts f = Some facts"
    and "\<And>x e. e \<in> set (preds facts x) \<longleftrightarrow> pe_from e \<in> set bs \<and> pe_call e \<in> set (snd (flow_of f L (pe_from e)))
           \<and> call_target f (pe_call e) = x \<and> pe_terminator e = fst (flow_of f L (pe_from e))"
    and "set (cf_protected facts) \<subseteq> set bs" "set (label_targets f) \<subseteq> set (cf_protected facts)"
proof -
  define facts where "facts = \<lparr>cf_edges = concat (map (edges_of f) bs),
              cf_protected = label_targets f @ concat (map (\<lambda>b. map fst (edges_of f b)) (filter (is_indirect f) bs)),
              cf_indirect = (label_targets f \<noteq> [] \<or> (\<exists>b \<in> set bs. is_indirect f b))\<rparr>"
  show thesis
  proof (rule that)
    show "collect_cfg_facts f = Some facts"
      by (simp add: collect_cfg_facts_def cfg_inv_order(2) [OF inv] facts_def)
    fix x e
    have "e \<in> set (preds facts x) \<longleftrightarrow> (\<exists>b \<in> set bs. (x, e) \<in> set (edges_of f b))"
      by (force simp: preds_def facts_def)
    also have "\<dots> \<longleftrightarrow> (\<exists>b \<in> set bs. \<exists>c \<in> set (snd (flow_of f L b)).
        x = call_target f c \<and> e = \<lparr>pe_from = b, pe_call = c, pe_terminator = fst (flow_of f L b)\<rparr>)"
      using edges_of_flow(1) [OF inv] by auto
    finally show "e \<in> set (preds facts x) \<longleftrightarrow> pe_from e \<in> set bs \<and> pe_call e \<in> set (snd (flow_of f L (pe_from e)))
           \<and> call_target f (pe_call e) = x \<and> pe_terminator e = fst (flow_of f L (pe_from e))"
      by (cases e) auto
  next
    show "set (cf_protected facts) \<subseteq> set bs" "set (label_targets f) \<subseteq> set (cf_protected facts)"
      using cfg_invD(4,6) [OF inv] edges_of_flow(1) [OF inv] by (auto simp: facts_def)
  qed
qed

text \<open>What the control flow is read from.\<close>

lemma successors_cong:
  assumes "content (inst f' j) = content (inst f i)" "fn_jump_tables f' = fn_jump_tables f"
    "fn_block_call_lists f' = fn_block_call_lists f"
  shows "successors f' j = successors f i"
  using content_fields [OF assms(1)] assms(2,3) by (simp add: successors_def jump_table_def block_call_list_def Let_def)

definition cfg_size :: "air_function \<Rightarrow> block_id list \<Rightarrow> (block_id \<Rightarrow> inst_id list) \<Rightarrow> nat" where
  "cfg_size f bs L = flow_size bs (flow_of f L) (call_target f)"

section \<open>Folding a branch\<close>

lemma replace_terminator_effect:
  assumes inv: "cfg_inv f bs L" and b: "b \<in> set bs" and f': "f' = replace_terminator_with_jump b call f"
  shows "fn_inv f' bs (L(b := butlast (L b) @ [length (fn_insts f)]))"
    and "j < length (fn_insts f) \<Longrightarrow> content (inst f' j) = content (inst f j)"
    and "in_op (inst f' (length (fn_insts f))) = OpJump" "in_aux (inst f' (length (fn_insts f))) = of_nat call"
    and "fn_values f' = fn_values f" "fn_block_calls f' = fn_block_calls f" "fn_jump_tables f' = fn_jump_tables f"
      "fn_block_call_lists f' = fn_block_call_lists f" "fn_operand_pool f' = fn_operand_pool f"
      "fn_entry_block f' = fn_entry_block f" "length (fn_blocks f') = length (fn_blocks f)"
      "fn_block_param_pool f' = fn_block_param_pool f"
proof -
  let ?t = "last (L b)" and ?g = "remove_inst (last (L b)) f"
  note t = terminator_last [OF inv b]
  have sg: "same_body f ?g"
    by (rule same_body_remove_inst)
  have g: "fn_inv ?g bs (L(b := butlast (L b)))"
    using fn_inv_remove [OF cfg_invD(1) [OF inv] b, of "butlast (L b)" ?t "[]"] t(4) by simp
  obtain i h where m: "make_inst OpJump 0 [] (of_nat call) (in_loc (inst f ?t)) 0 0 ?g = (i, h)"
    by fastforce
  have f'_eq: "f' = append_inst b i h"
    by (simp add: f' replace_terminator_with_jump_def t(1) m)
  note e = make_inst_effect [OF m]
  have len: "length (fn_insts ?g) = length (fn_insts f)"
    using sg by (simp add: same_body_def)
  have i: "i = length (fn_insts f)"
    using e(1) len by simp
  have h: "fn_inv h bs (L(b := butlast (L b)))"
    by (rule fn_inv_make_inst [OF g m])
  have ne: "fn_insts ?g \<noteq> []" "blocks_inv ?g bs" "lists_inv ?g (L(b := butlast (L b)))"
    using g by (simp_all add: fn_inv_def)
  have sh: "same_body h f'"
    unfolding f'_eq by (rule same_body_append_inst)
  have "fn_inv f' bs ((L(b := butlast (L b)))(b := butlast (L b) @ [i]))"
    using fn_inv_append [OF h fn_invD(1) [OF h b]] make_inst_lists(3,4) [OF ne(3,2,1) m] by (simp add: f'_eq)
  then show "fn_inv f' bs (L(b := butlast (L b) @ [length (fn_insts f)]))"
    by (simp add: i)
  show "content (inst f' j) = content (inst f j)" if "j < length (fn_insts f)"
    using that sh sg e(3) [of j] len by (simp add: same_body_def)
  show "in_op (inst f' (length (fn_insts f))) = OpJump" "in_aux (inst f' (length (fn_insts f))) = of_nat call"
    using same_body_reads(5,9) [OF sh] e(4,5) i by simp_all
  have k: "opcode_result_kind OpJump = RNone"
    by (simp add: opcode_result_kind_def traits_def mk_traits_def)
  have v: "fn_values h = fn_values ?g" "fn_block_param_pool h = fn_block_param_pool ?g"
    using m by (auto simp: make_inst_def append_operands_def Let_def k)
  note F = same_body_fields [OF sg] same_body_fields [OF sh]
  show "fn_values f' = fn_values f" "fn_block_calls f' = fn_block_calls f" "fn_jump_tables f' = fn_jump_tables f"
      "fn_block_call_lists f' = fn_block_call_lists f" "fn_operand_pool f' = fn_operand_pool f"
      "fn_entry_block f' = fn_entry_block f" "fn_block_param_pool f' = fn_block_param_pool f"
    by (simp_all add: F v e)
  show "length (fn_blocks f') = length (fn_blocks f)"
    using sg sh by (simp add: same_body_def e(13))
qed

lemma replace_terminator_flow:
  assumes inv: "cfg_inv f bs L" and b: "b \<in> set bs" and f': "f' = replace_terminator_with_jump b call f"
    and L': "L' = L(b := butlast (L b) @ [length (fn_insts f)])" and call: "call \<in> set (snd (flow_of f L b))" "call < 2 ^ 32"
  shows "c \<in> set bs \<Longrightarrow> flow_of f' L' c = (if c = b then (OpJump, [call]) else flow_of f L c)"
    and "call_target f' = call_target f" "cfg_inv f' bs L'"
proof -
  note e = replace_terminator_effect [OF inv b f']
  show fl: "flow_of f' L' c = (if c = b then (OpJump, [call]) else flow_of f L c)" if c: "c \<in> set bs" for c
  proof (cases "c = b")
    case True
    have "unat (aux_low (of_nat call :: u64)) = call"
      using call(2) by (simp add: aux_low_def unat_ucast_down unat_of_nat take_bit_nat_eq_self)
    then show ?thesis
      using True e(3,4) by (simp add: flow_of_def L' successors_def Let_def)
  next
    case False
    have j: "last (L c) < length (fn_insts f)"
      using terminator_last(3) [OF inv c] by (simp add: valid_inst_def)
    then show ?thesis
      using False content_fields(1) [OF e(2) [OF j]] successors_cong [OF e(2) [OF j] e(7,8)] by (simp add: flow_of_def L')
  qed
  show tg: "call_target f' = call_target f"
    by (simp add: call_target_def block_call_of_def e(6) fun_eq_iff)
  have "valid_block_call f' = valid_block_call f" "label_targets f' = label_targets f"
    by (simp_all add: valid_block_call_def label_targets_def e(5,6) fun_eq_iff)
  then show "cfg_inv f' bs L'"
    using e(1) fl cfg_invD [OF inv] call(1) b unfolding cfg_inv_def tg by (auto simp: L' split: if_splits)
qed

lemma fold_branch_cases:
  assumes inv: "cfg_inv f bs L" and b: "b \<in> set bs"
  obtains "fold_branch b f = (False, f)"
  | call where "fold_branch b f = (True, replace_terminator_with_jump b call f)" "fst (flow_of f L b) = OpBrIf"
      "call \<in> set (snd (flow_of f L b))" "call < 2 ^ 32"
proof -
  note t = terminator_last [OF inv b]
  have s: "set (snd (flow_of f L b)) = {unat (aux_low (in_aux (inst f (last (L b))))), unat (aux_high (in_aux (inst f (last (L b)))))}"
    if "in_op (inst f (last (L b))) = OpBrIf"
    using that by (simp add: flow_of_def successors_def Let_def)
  have lt: "unat (w :: u32) < 2 ^ 32" for w
    using unat_lt_exp [of w] by simp
  have "fold_branch b f = (False, f)
    \<or> in_op (inst f (last (L b))) = OpBrIf
      \<and> (\<exists>call \<in> {unat (aux_low (in_aux (inst f (last (L b))))), unat (aux_high (in_aux (inst f (last (L b)))))}.
            fold_branch b f = (True, replace_terminator_with_jump b call f))"
    by (simp add: fold_branch_def t(1) Let_def)
  then show thesis
    using that s lt unfolding flow_of_def by (metis fst_conv insert_iff singletonD)
qed

lemma fold_branch_step:
  assumes inv: "cfg_inv f bs L" and b: "b \<in> set bs" and fb: "fold_branch b f = (ch, f')"
  shows "\<exists>L'. cfg_inv f' bs L' \<and> length (fn_blocks f') = length (fn_blocks f)
     \<and> (if ch then cfg_size f' bs L' < cfg_size f bs L else f' = f \<and> L' = L)"
  using inv b
proof (cases rule: fold_branch_cases)
  case 1
  then show ?thesis
    using inv fb by auto
next
  case (2 call)
  have f': "f' = replace_terminator_with_jump b call f" "ch"
    using 2(1) fb by auto
  let ?L = "L(b := butlast (L b) @ [length (fn_insts f)])"
  note e = replace_terminator_flow [OF inv b f'(1) refl 2(3,4)]
  have "cfg_size f' bs ?L = flow_size bs ((flow_of f L)(b := (OpJump, [call]))) (call_target f)"
    unfolding cfg_size_def e(2) by (rule flow_size_cong) (simp_all add: e(1))
  also have "\<dots> < cfg_size f bs L"
    unfolding cfg_size_def by (rule branch_shrinks [where fl = "flow_of f L"]) (use b 2 in simp_all)
  finally show ?thesis
    using e(3) f'(2) replace_terminator_effect(11) [OF inv b f'(1)] by (intro exI [of _ ?L]) simp
qed

text \<open>The loop over the blocks.\<close>

lemma next_block_order:
  assumes "fn_inv f (ds @ b # cs) L"
  shows "next_block f b = first_of cs 0" "b \<noteq> 0"
proof -
  have "dll (\<lambda>b. bd_next (block f b)) (\<lambda>b. bd_prev (block f b)) (fn_entry_block f) (fn_last_block f) (ds @ b # cs)"
    using assms by (simp add: fn_inv_def blocks_inv_def)
  from dll_middle(2) [OF this] this show "next_block f b = first_of cs 0" "b \<noteq> 0"
    by (simp_all add: next_block_def dll_def)
qed

definition branch_sweep ::
  "air_function \<Rightarrow> block_id list \<Rightarrow> (block_id \<Rightarrow> inst_id list) \<Rightarrow> bool \<times> air_function \<Rightarrow> block_id list \<Rightarrow> bool" where
  "branch_sweep f bs L st rest \<longleftrightarrow>
     (\<exists>ds L'. bs = ds @ rest \<and> cfg_inv (snd st) bs L' \<and> length (fn_blocks (snd st)) = length (fn_blocks f)
        \<and> (if fst st then cfg_size (snd st) bs L' < cfg_size f bs L
           else snd st = f \<and> L' = L \<and> (\<forall>d \<in> set ds. fold_branch d f = (False, f))))"

interpretation branch_blocks: for_loop "\<lambda>st. next_block (snd st)" fold_branch_visit "branch_sweep f bs L" for f bs L
proof
  fix st b cs
  assume "branch_sweep f bs L st (b # cs)"
  then obtain ds L' where d: "bs = ds @ b # cs" "cfg_inv (snd st) bs L'" "length (fn_blocks (snd st)) = length (fn_blocks f)"
      "if fst st then cfg_size (snd st) bs L' < cfg_size f bs L
       else snd st = f \<and> L' = L \<and> (\<forall>d \<in> set ds. fold_branch d f = (False, f))"
    by (auto simp: branch_sweep_def)
  have b: "b \<in> set bs"
    using d(1) by simp
  show "b \<noteq> 0"
    using next_block_order(2) cfg_invD(1) [OF d(2)] d(1) by blast
  obtain ch g where fb: "fold_branch b (snd st) = (ch, g)"
    by fastforce
  obtain L2 where g: "cfg_inv g bs L2" "length (fn_blocks g) = length (fn_blocks f)"
      "if ch then cfg_size g bs L2 < cfg_size (snd st) bs L' else g = snd st \<and> L2 = L'"
    using fold_branch_step [OF d(2) b fb] d(3) by auto
  have "fold_branch_visit b st = Some (fst st \<or> ch, g)"
    using fb by (cases st) (simp add: fold_branch_visit_def)
  moreover have "next_block g b = first_of cs 0"
    using next_block_order(1) cfg_invD(1) [OF g(1)] d(1) by blast
  moreover have "branch_sweep f bs L (fst st \<or> ch, g) cs"
    unfolding branch_sweep_def
    by (rule exI [of _ "ds @ [b]"], rule exI [of _ L2]) (use d g fb in \<open>auto split: if_splits\<close>)
  ultimately show "\<exists>s'. fold_branch_visit b st = Some s' \<and> next_block (snd s') b = first_of cs 0 \<and> branch_sweep f bs L s' cs"
    by simp
qed

lemma entry_first: "cfg_inv f bs L \<Longrightarrow> fn_entry_block f = first_of bs 0"
  using cfg_inv_order(3) [of f bs L] cfg_invD(2) [of f bs L] by (cases bs) auto

lemma fold_branches_returns:
  assumes inv: "cfg_inv f bs L"
  shows "\<exists>ch f' L'. fold_branches f = Some (ch, f') \<and> cfg_inv f' bs L' \<and> length (fn_blocks f') = length (fn_blocks f)
     \<and> (if ch then cfg_size f' bs L' < cfg_size f bs L
        else f' = f \<and> L' = L \<and> (\<forall>b \<in> set bs. fold_branch b f = (False, f)))"
proof -
  have "branch_sweep f bs L (False, f) bs"
    using inv by (simp add: branch_sweep_def)
  from branch_blocks.for_each_returns [OF this cfg_inv_order(4) [OF inv]]
  obtain st where "fold_branches f = Some st" "branch_sweep f bs L st []"
    by (auto simp: fold_branches_def entry_first [OF inv])
  then show ?thesis
    by (cases st) (auto simp: branch_sweep_def)
qed

text \<open>The loop that stops at the first change.\<close>

lemma search_result:
  assumes "fn_inv f (ds @ cs) L" "length cs \<le> fuel"
    and "\<And>b. b \<in> set cs \<Longrightarrow> \<exists>ch f'. body b f = Some (ch, f') \<and> (\<not> ch \<longrightarrow> f' = f)"
  shows "search fuel next_block body (first_of cs 0) f = Some (False, f) \<and> (\<forall>b \<in> set cs. body b f = Some (False, f))
    \<or> (\<exists>b \<in> set cs. \<exists>f'. body b f = Some (True, f') \<and> search fuel next_block body (first_of cs 0) f = Some (True, f'))"
  using assms
proof (induction cs arbitrary: ds fuel)
  case Nil
  then show ?case
    by (simp add: search.simps)
next
  case (Cons b cs)
  obtain n where n: "fuel = Suc n"
    using Cons.prems(2) by (cases fuel) auto
  note nb = next_block_order [OF Cons.prems(1)]
  obtain ch f' where body: "body b f = Some (ch, f')" "\<not> ch \<longrightarrow> f' = f"
    using Cons.prems(3) [of b] by auto
  have s: "search fuel next_block body b f = (if ch then Some (True, f') else search n next_block body (first_of cs 0) f)"
    using nb body n by (subst search.simps) auto
  show ?case
  proof (cases ch)
    case True
    then show ?thesis
      using s body by auto
  next
    case False
    then show ?thesis
      using Cons.IH [of "ds @ [b]" n] Cons.prems n s body by auto
  qed
qed

lemma search_cases:
  assumes "cfg_inv f bs L" "\<forall>b \<in> set bs. \<exists>ch f'. body b f = Some (ch, f') \<and> (\<not> ch \<longrightarrow> f' = f)"
  obtains "search (length (fn_blocks f)) next_block body (fn_entry_block f) f = Some (False, f)"
      "\<And>b. b \<in> set bs \<Longrightarrow> body b f = Some (False, f)"
  | b f' where "b \<in> set bs" "body b f = Some (True, f')"
      "search (length (fn_blocks f)) next_block body (fn_entry_block f) f = Some (True, f')"
  using search_result [of f "[]" bs L "length (fn_blocks f)" body] assms(2) cfg_invD(1) [OF assms(1)]
    cfg_inv_order(4) [OF assms(1)] entry_first [OF assms(1)] by auto

section \<open>Forwarding\<close>

text \<open>Changing block calls and operands leaves the blocks, their instructions and their flow alone.\<close>

definition same_flow :: "air_function \<Rightarrow> air_function \<Rightarrow> bool" where
  "same_flow f f' \<longleftrightarrow> same_shape f f' \<and> fn_values f' = fn_values f \<and> fn_jump_tables f' = fn_jump_tables f
     \<and> fn_block_call_lists f' = fn_block_call_lists f \<and> length (fn_block_calls f') = length (fn_block_calls f)
     \<and> fn_block_param_pool f' = fn_block_param_pool f"

lemma same_flow_refl [simp]: "same_flow f f"
  by (simp add: same_flow_def same_shape_def)

lemma same_flow_trans: "same_flow f g \<Longrightarrow> same_flow g h \<Longrightarrow> same_flow f h"
  by (simp add: same_flow_def same_shape_def)

lemma same_flowD:
  assumes "same_flow f f'"
  shows "fn_inv f' bs L = fn_inv f bs L" "flow_of f' L = flow_of f L" "valid_block_call f' = valid_block_call f"
    "label_targets f' = label_targets f" "terminator_of f' = terminator_of f" "fn_blocks f' = fn_blocks f"
    "fn_entry_block f' = fn_entry_block f" "successors f' = successors f" "block f' = block f" "inst f' = inst f"
    "value_of f' = value_of f" "block_params f' = block_params f"
proof -
  have s: "same_shape f f'"
    using assms by (simp add: same_flow_def)
  note i = same_shape_fn_inv [OF s]
  show "fn_inv f' bs L = fn_inv f bs L" "block f' = block f" "inst f' = inst f"
    using i by simp_all
  show "successors f' = successors f"
    using assms i(2) by (intro ext successors_cong) (simp_all add: same_flow_def)
  then show "flow_of f' L = flow_of f L"
    using i(2) by (simp add: flow_of_def fun_eq_iff)
  show "valid_block_call f' = valid_block_call f" "label_targets f' = label_targets f" "terminator_of f' = terminator_of f"
    "fn_blocks f' = fn_blocks f" "fn_entry_block f' = fn_entry_block f" "value_of f' = value_of f"
    "block_params f' = block_params f"
    using assms i(3) by (simp_all add: same_flow_def same_shape_def valid_block_call_def label_targets_def terminator_of_def
        value_of_def block_params_def fun_eq_iff)
qed

definition skipped :: "value_id list \<Rightarrow> value_id list \<Rightarrow> pred_edge \<Rightarrow> bool" where
  "skipped params onward_args e \<longleftrightarrow> pe_terminator e = OpSwitch \<and> (params \<noteq> [] \<or> onward_args \<noteq> [])"

lemma set_call_args_frame:
  "same_flow f (set_block_call_args c args f)" "call_target (set_block_call_args c args f) d = call_target f d"
proof -
  show "same_flow f (set_block_call_args c args f)"
    by (simp add: same_flow_def same_shape_def set_block_call_args_def append_operands_def set_call_def)
  show "call_target (set_block_call_args c args f) d = call_target f d"
    by (cases "c < length (fn_block_calls f)"; cases "d = c")
      (simp_all add: set_block_call_args_def append_operands_def set_call_def call_target_def block_call_of_def list_update_beyond)
qed

lemma set_call_target_frame:
  "same_flow f (set_block_call_target c t f)"
  "c < length (fn_block_calls f) \<Longrightarrow> call_target (set_block_call_target c t f) d = (if d = c then t else call_target f d)"
  by (simp_all add: same_flow_def same_shape_def set_block_call_target_def set_call_def call_target_def block_call_of_def
      nth_list_update)

lemma forward_edge_effect:
  assumes "valid_block_call f (pe_call e)"
  shows "forward_edge x params oa t e (ch, f) = (ch \<or> \<not> skipped params oa e, snd (forward_edge x params oa t e (ch, f)))"
    "same_flow f (snd (forward_edge x params oa t e (ch, f)))"
    "call_target (snd (forward_edge x params oa t e (ch, f))) c =
       (if c = pe_call e \<and> \<not> skipped params oa e then t else call_target f c)"
    "skipped params oa e \<Longrightarrow> snd (forward_edge x params oa t e (ch, f)) = f"
proof -
  have v: "pe_call e < length (fn_block_calls f)"
    using assms by (simp add: valid_block_call_def)
  have fr: "same_flow f (set_block_call_args (pe_call e) args (set_block_call_target (pe_call e) t f))" for args
    using same_flow_trans [OF set_call_target_frame(1) set_call_args_frame(1)] .
  show "forward_edge x params oa t e (ch, f) = (ch \<or> \<not> skipped params oa e, snd (forward_edge x params oa t e (ch, f)))"
    "same_flow f (snd (forward_edge x params oa t e (ch, f)))"
    "call_target (snd (forward_edge x params oa t e (ch, f))) c =
       (if c = pe_call e \<and> \<not> skipped params oa e then t else call_target f c)"
    "skipped params oa e \<Longrightarrow> snd (forward_edge x params oa t e (ch, f)) = f"
    using fr by (auto simp: forward_edge_def skipped_def Let_def set_call_args_frame(2) set_call_target_frame(2) [OF v])
qed

lemma forward_edges_effect:
  assumes "\<And>e. e \<in> set es \<Longrightarrow> valid_block_call f (pe_call e)"
    and "fold (forward_edge x params oa t) es (ch, f) = (ch', f')"
  shows "ch' \<longleftrightarrow> ch \<or> (\<exists>e \<in> set es. \<not> skipped params oa e)" "same_flow f f'"
    "call_target f' c = (if \<exists>e \<in> set es. c = pe_call e \<and> \<not> skipped params oa e then t else call_target f c)"
    "(\<forall>e \<in> set es. skipped params oa e) \<Longrightarrow> f' = f"
proof -
  have "(ch' \<longleftrightarrow> ch \<or> (\<exists>e \<in> set es. \<not> skipped params oa e)) \<and> same_flow f f'
    \<and> (\<forall>c. call_target f' c = (if \<exists>e \<in> set es. c = pe_call e \<and> \<not> skipped params oa e then t else call_target f c))
    \<and> ((\<forall>e \<in> set es. skipped params oa e) \<longrightarrow> f' = f)"
    using assms
  proof (induction es arbitrary: ch f)
    case (Cons e es)
    obtain ch1 f1 where e1: "forward_edge x params oa t e (ch, f) = (ch1, f1)"
      by fastforce
    have "valid_block_call f (pe_call e)"
      using Cons.prems(1) by simp
    note eff = forward_edge_effect [where x = x and params = params and oa = oa and t = t and ch = ch, OF this, unfolded e1, simplified]
    have "valid_block_call f1 = valid_block_call f"
      using same_flowD(3) eff(2) by blast
    then have IH: "(ch' \<longleftrightarrow> ch1 \<or> (\<exists>e \<in> set es. \<not> skipped params oa e)) \<and> same_flow f1 f'
      \<and> (\<forall>c. call_target f' c = (if \<exists>e \<in> set es. c = pe_call e \<and> \<not> skipped params oa e then t else call_target f1 c))
      \<and> ((\<forall>e \<in> set es. skipped params oa e) \<longrightarrow> f' = f1)"
      using Cons.IH [of f1 ch1] Cons.prems e1 by simp
    show ?case
      using IH eff same_flow_trans [of f f1 f'] by auto
  qed simp
  then show "ch' \<longleftrightarrow> ch \<or> (\<exists>e \<in> set es. \<not> skipped params oa e)" "same_flow f f'"
    "call_target f' c = (if \<exists>e \<in> set es. c = pe_call e \<and> \<not> skipped params oa e then t else call_target f c)"
    "(\<forall>e \<in> set es. skipped params oa e) \<Longrightarrow> f' = f"
    by auto
qed

text \<open>What the facts say of a function; they are collected before the rewrites look at its blocks.\<close>

definition facts_of :: "air_function \<Rightarrow> block_id list \<Rightarrow> (block_id \<Rightarrow> inst_id list) \<Rightarrow> cfg_facts \<Rightarrow> bool" where
  "facts_of f bs L facts \<longleftrightarrow>
     (\<forall>x e. e \<in> set (preds facts x) \<longleftrightarrow> pe_from e \<in> set bs \<and> pe_call e \<in> set (snd (flow_of f L (pe_from e)))
         \<and> call_target f (pe_call e) = x \<and> pe_terminator e = fst (flow_of f L (pe_from e)))
     \<and> set (cf_protected facts) \<subseteq> set bs \<and> set (label_targets f) \<subseteq> set (cf_protected facts)"

lemma facts_ofD:
  assumes "facts_of f bs L facts" "e \<in> set (preds facts x)"
  shows "pe_from e \<in> set bs" "pe_call e \<in> set (snd (flow_of f L (pe_from e)))" "call_target f (pe_call e) = x"
    "pe_terminator e = fst (flow_of f L (pe_from e))"
  using assms by (auto simp: facts_of_def)

lemma collect_facts_of:
  assumes inv: "cfg_inv f bs L"
  obtains facts where "collect_cfg_facts f = Some facts" "facts_of f bs L facts"
proof (rule collect_cfg_facts_flow [OF inv])
  fix facts
  assume a: "collect_cfg_facts f = Some facts"
    "\<And>x e. e \<in> set (preds facts x) \<longleftrightarrow> pe_from e \<in> set bs \<and> pe_call e \<in> set (snd (flow_of f L (pe_from e)))
           \<and> call_target f (pe_call e) = x \<and> pe_terminator e = fst (flow_of f L (pe_from e))"
    "set (cf_protected facts) \<subseteq> set bs" "set (label_targets f) \<subseteq> set (cf_protected facts)"
  have "facts_of f bs L facts"
    unfolding facts_of_def by (intro conjI allI a)
  then show thesis
    by (rule that [OF a(1)])
qed

lemma facts_ofI:
  assumes "facts_of f bs L facts" "b \<in> set bs" "c \<in> set (snd (flow_of f L b))" "call_target f c = x"
  shows "\<lparr>pe_from = b, pe_call = c, pe_terminator = fst (flow_of f L b)\<rparr> \<in> set (preds facts x)"
  using assms by (simp add: facts_of_def)

lemma forwarding_step:
  assumes inv: "cfg_inv f bs L" and facts: "facts_of f bs L facts" and x: "x \<in> set bs"
  shows "\<exists>ch f'. fold_forwarding_block facts x f = Some (ch, f')
     \<and> (if ch then cfg_inv f' bs L \<and> cfg_size f' bs L < cfg_size f bs L \<and> fn_blocks f' = fn_blocks f else f' = f)"
proof -
  let ?ow = "unat (aux_low (in_aux (inst f (last (L x)))))"
  let ?t = "call_target f ?ow" and ?ps = "block_params f x" and ?oa = "block_call_args f ?ow"
  have uses: "all_uses f = Some (concat (map (used_values f) (all_insts bs L)))"
    by (rule all_uses_fn_inv [OF cfg_invD(1) [OF inv]])
  note tl = terminator_last(1) [OF inv x]
  obtain ch f' where fe: "fold (forward_edge x ?ps ?oa ?t) (preds facts x) (False, f) = (ch, f')"
    by fastforce
  show ?thesis
  proof (cases "fold_forwarding_block facts x f = Some (False, f)")
    case False
    then have c: "in_op (inst f (last (L x))) = OpJump" "?t \<noteq> x" "fold_forwarding_block facts x f = Some (ch, f')"
      using uses fe by (auto simp: fold_forwarding_block_def tl Let_def split: if_splits)
    have fl: "flow_of f L x = (OpJump, [?ow])"
      using c(1) by (simp add: flow_of_def successors_def Let_def)
    have "valid_block_call f (pe_call e)" if "e \<in> set (preds facts x)" for e
      using facts_ofD(1,2) [OF facts that] cfg_invD(5) [OF inv] by blast
    note eff = forward_edges_effect [OF this fe]
    have ch: "ch"
      using False c(3) eff(1,4) by (cases ch) auto
    define C where "C = pe_call ` {e \<in> set (preds facts x). \<not> skipped ?ps ?oa e}"
    have tg: "call_target f' = (\<lambda>c. if c \<in> C then ?t else call_target f c)"
      using eff(3) by (auto simp: C_def fun_eq_iff)
    obtain e where e: "e \<in> set (preds facts x)" "\<not> skipped ?ps ?oa e"
      using ch eff(1) by auto
    have "flow_size bs (flow_of f L) (\<lambda>c. if c \<in> C then ?t else call_target f c) < flow_size bs (flow_of f L) (call_target f)"
    proof (rule forward_shrinks [where fl = "flow_of f L" and tg = "call_target f", OF x fl c(2)])
      show "call_target f d = x" if "d \<in> C" for d
        using that facts_ofD(3) [OF facts] by (auto simp: C_def)
      show "pe_from e \<in> set bs" "pe_call e \<in> set (snd (flow_of f L (pe_from e)))" "pe_call e \<in> C"
        using facts_ofD(1,2) [OF facts e(1)] e by (auto simp: C_def)
      show "d \<in> C" if "b \<in> set bs" "fst (flow_of f L b) \<noteq> OpSwitch" "d \<in> set (snd (flow_of f L b))" "call_target f d = x" for b d
        using facts_ofI [OF facts that(1,3,4)] that(2) by (force simp: C_def skipped_def)
      show "fst (flow_of f L (pe_from e)) \<noteq> OpSwitch
          \<or> (\<forall>b \<in> set bs. \<forall>d \<in> set (snd (flow_of f L b)). call_target f d = x \<longrightarrow> d \<in> C)"
        using facts_ofI [OF facts] e(2) facts_ofD(4) [OF facts e(1)] by (force simp: C_def skipped_def)
    qed
    moreover have "?t \<in> set bs"
      using cfg_invD(6) [OF inv x, of ?ow] fl by simp
    then have "cfg_inv f' bs L"
      using inv same_flowD(1-4) [OF eff(2)] by (auto simp: cfg_inv_def tg)
    ultimately show ?thesis
      using c(3) ch same_flowD(2,6) [OF eff(2)] tg by (intro exI [of _ ch] exI [of _ f']) (simp add: cfg_size_def)
  qed auto
qed

section \<open>Merging\<close>

lemma replace_params_frame:
  "same_flow f (replace_params ps args f)" "call_target (replace_params ps args f) = call_target f"
  "fn_block_calls (replace_params ps args f) = fn_block_calls f"
proof (induction ps args f rule: replace_params.induct)
  case (2 p ps args f)
  have "same_flow f (replace_all_uses p (args ! 0) f)" "call_target (replace_all_uses p (args ! 0) f) = call_target f"
    by (simp_all add: same_flow_def same_shape_def replace_all_uses_def call_target_def block_call_of_def fun_eq_iff)
  then show "same_flow f (replace_params (p # ps) args f)"
    "call_target (replace_params (p # ps) args f) = call_target f"
    "fn_block_calls (replace_params (p # ps) args f) = fn_block_calls f"
    using 2 same_flow_trans by (auto simp: replace_all_uses_def)
qed simp_all

text \<open>Moving the instructions of one block to the end of another.\<close>

definition moving ::
  "air_function \<Rightarrow> block_id list \<Rightarrow> (block_id \<Rightarrow> inst_id list) \<Rightarrow> block_id \<Rightarrow> block_id \<Rightarrow> air_function \<Rightarrow> inst_id list \<Rightarrow> bool" where
  "moving f bs L p x g rest \<longleftrightarrow>
     p \<in> set bs \<and> x \<in> set bs \<and> p \<noteq> x \<and> same_body f g
     \<and> (\<exists>moved. L x = moved @ rest \<and> fn_inv g bs (L(p := L p @ moved, x := rest)))"

interpretation move_insts: traversal "\<lambda>g i. in_next (inst g i)" "move_inst p" "moving f bs L p x" for f bs L p x
proof
  fix g i rest
  assume "moving f bs L p x g (i # rest)"
  then obtain moved where m: "p \<in> set bs" "x \<in> set bs" "p \<noteq> x" "same_body f g" "L x = moved @ i # rest"
      "fn_inv g bs (L(p := L p @ moved, x := i # rest))"
    by (auto simp: moving_def)
  let ?M = "L(p := L p @ moved, x := i # rest)" and ?g = "remove_inst i g"
  have split: "?M x = [] @ i # rest"
    by simp
  note n = neighbours [OF fn_invD(2,1) [OF m(6,2)] split]
  show "in_next (inst g i) = first_of rest 0" "i \<noteq> 0"
    using n by (simp_all add: valid_inst_def)
  have r: "fn_inv ?g bs (L(p := L p @ moved, x := rest))"
    using fn_inv_remove [OF m(6,2) split] by (simp only: fun_upd_upd append_Nil)
  have "in_block (inst ?g i) = 0" "valid_inst ?g i"
    using remove_inst_effect(1) [OF fn_invD(2,1) [OF m(6,2)] split, of i] n(2)
      same_body_reads(15) [OF same_body_remove_inst [of g i], of i] by simp_all
  from fn_inv_append [OF r fn_invD(1) [OF r m(1)] this(2,1)]
  have "fn_inv (move_inst p i g) bs (L(p := L p @ moved @ [i], x := rest))"
    using m(3) by (simp add: move_inst_def fun_upd_twist [of x p])
  moreover have "same_body f (move_inst p i g)"
    unfolding move_inst_def using same_body_trans [OF m(4) same_body_trans [OF same_body_remove_inst same_body_append_inst]] .
  ultimately show "moving f bs L p x (move_inst p i g) rest"
    unfolding moving_def using m(1-3,5) by (intro conjI exI [of _ "moved @ [i]"]) simp_all
qed

text \<open>Removing a block takes it out of the order and leaves instructions and flow alone.\<close>

lemma remove_block_frame:
  "fn_insts (remove_block b f) = fn_insts f" "fn_values (remove_block b f) = fn_values f"
  "fn_block_calls (remove_block b f) = fn_block_calls f" "fn_jump_tables (remove_block b f) = fn_jump_tables f"
  "fn_block_call_lists (remove_block b f) = fn_block_call_lists f" "fn_entry_block (remove_block b f) = fn_entry_block f"
  "length (fn_blocks (remove_block b f)) = length (fn_blocks f)" "fn_operand_pool (remove_block b f) = fn_operand_pool f"
  by (simp_all add: remove_block_def set_block_def Let_def)

lemma remove_block_ends:
  "bd_first (block (remove_block b f) c) = bd_first (block f c)" "bd_last (block (remove_block b f) c) = bd_last (block f c)"
proof -
  have s: "bd_first (block (set_block d u g) c) = bd_first (block g c) \<and> bd_last (block (set_block d u g) c) = bd_last (block g c)"
    if "\<And>y. bd_first (u y) = bd_first y \<and> bd_last (u y) = bd_last y" for d u g
    using that by (cases "d < length (fn_blocks g)"; cases "d = c") (simp_all add: set_block_def block_def list_update_beyond)
  show "bd_first (block (remove_block b f) c) = bd_first (block f c)" "bd_last (block (remove_block b f) c) = bd_last (block f c)"
    by (simp_all add: remove_block_def Let_def s)
qed

lemma fn_inv_remove_block:
  assumes "fn_inv f (xs @ b # ys) L" "b \<noteq> fn_entry_block f"
  shows "fn_inv (remove_block b f) (xs @ ys) L"
proof -
  let ?g = "remove_block b f"
  have i: "inst ?g = inst f" "valid_inst ?g = valid_inst f" "valid_block ?g = valid_block f"
    by (simp_all add: inst_def valid_inst_def valid_block_def remove_block_frame fun_eq_iff)
  then have "nxt ?g = nxt f" "prv ?g = prv f"
    by (simp_all add: nxt_def prv_def fun_eq_iff)
  then have "lists_inv ?g L = lists_inv f L"
    using i by (simp add: lists_inv_def block_list_def remove_block_ends)
  then show ?thesis
    using assms remove_block_blocks by (simp add: fn_inv_def remove_block_frame)
qed

lemma merging_step:
  assumes inv: "cfg_inv f bs L" and facts: "facts_of f bs L facts" and x: "x \<in> set bs"
  shows "\<exists>ch f'. merge_into_predecessor facts x f = Some (ch, f')
     \<and> (if ch then \<exists>bs' L'. cfg_inv f' bs' L' \<and> cfg_size f' bs' L' < cfg_size f bs L
           \<and> length (fn_blocks f') = length (fn_blocks f)
        else f' = f)"
proof (cases "merge_into_predecessor facts x f = Some (False, f)")
  case False
  let ?e = "preds facts x ! 0"
  let ?p = "pe_from ?e"
  let ?f1 = "replace_params (block_params f x) (block_call_args f (pe_call ?e)) f"
  let ?f2 = "remove_inst (last (L ?p)) ?f1"
  have c: "x \<noteq> fn_entry_block f" "x \<notin> set (cf_protected facts)" "length (preds facts x) = 1" "pe_terminator ?e = OpJump" "?p \<noteq> x"
    using False by (auto simp: merge_into_predecessor_def Let_def split: if_splits)
  have eP: "?e \<in> set (preds facts x)"
    using c(3) by simp
  have only: "preds facts x = [?e]"
    using c(3) by (cases "preds facts x") auto
  note e = facts_ofD [OF facts eP]
  note sf1 = replace_params_frame(1) [of f "block_params f x" "block_call_args f (pe_call ?e)"]
  have f1: "fn_inv ?f1 bs L"
    using same_flowD(1) [OF sf1] cfg_invD(1) [OF inv] by simp
  have t1: "terminator_of ?f1 ?p = last (L ?p)"
    using same_flowD(5) [OF sf1] terminator_last(1) [OF inv e(1)] by simp
  let ?M = "L(?p := butlast (L ?p))"
  have f2: "fn_inv ?f2 bs ?M"
    using fn_inv_remove [OF f1 e(1), of "butlast (L ?p)" "last (L ?p)" "[]"] terminator_last(4) [OF inv e(1)] by simp
  have Mx: "?M x = L x"
    using c(5) by simp
  have "moving ?f2 bs ?M ?p x ?f2 (L x)"
    unfolding moving_def using e(1) x c(5) f2 by (intro conjI exI [of _ "[]"]) (simp_all add: fun_upd_idem)
  moreover have len: "length (L x) \<le> length (fn_insts ?f2)"
    using lists_invD(1,3) [OF fn_invD(2,1) [OF f2 x]] Mx by (intro distinct_bound) (simp_all add: valid_inst_def)
  ultimately have v: "visit (length (fn_insts ?f2)) (\<lambda>g i. in_next (inst g i)) (move_inst ?p) (first_of (L x) 0) ?f2
        = Some (fold (move_inst ?p) (L x) ?f2)" "moving ?f2 bs ?M ?p x (fold (move_inst ?p) (L x) ?f2) []"
    using move_insts.visit_fold by blast+
  let ?f3 = "fold (move_inst ?p) (L x) ?f2"
  let ?f4 = "remove_block x ?f3" and ?N = "L(?p := butlast (L ?p) @ L x, x := [])"
  have "bd_first (block ?f2 x) = first_of (L x) 0"
    using lists_invD(2) [OF fn_invD(2,1) [OF f2 x]] Mx by (simp add: dll_def)
  then have m: "merge_into_predecessor facts x f = Some (True, ?f4)"
    using c v(1) t1 by (simp add: merge_into_predecessor_def Let_def)
  have f3: "fn_inv ?f3 bs ?N" "same_body ?f2 ?f3"
    using v(2) Mx by (auto simp: moving_def fun_upd_twist split: if_splits)
  have sb: "same_body ?f1 ?f3"
    using same_body_trans [OF same_body_remove_inst f3(2)] .
  obtain xs ys where bs: "bs = xs @ x # ys"
    using x by (meson split_list)
  have ent: "fn_entry_block ?f3 = fn_entry_block f"
    using same_body_fields(6) [OF sb] same_flowD(7) [OF sf1] by simp
  have f4: "fn_inv ?f4 (xs @ ys) ?N"
    using fn_inv_remove_block [of ?f3 xs x ys ?N] f3(1) c(1) ent by (simp add: bs)
  have d: "distinct bs" "x \<notin> set (xs @ ys)" "?p \<in> set (xs @ ys)" "set (xs @ ys) = set bs - {x}"
    using cfg_inv_order(1) [OF inv] e(1) c(5) bs by auto
  have fl: "flow_of ?f4 ?N b = ((flow_of f L)(?p := flow_of f L x)) b" if "b \<in> set (xs @ ys)" for b
  proof -
    have b: "b \<in> set bs" "b \<noteq> x"
      using that d bs by auto
    have l: "last (?N b) = last (L (if b = ?p then x else b))"
      using b cfg_invD(3) [OF inv x] by simp
    have ct: "content (inst ?f4 j) = content (inst f j)" for j
      using sb same_flowD(10) [OF sf1] by (simp add: same_body_def inst_def remove_block_frame)
    have "successors ?f4 j = successors f j" for j
      using sf1 same_body_fields(3,4) [OF sb] by (intro successors_cong [OF ct]) (simp_all add: remove_block_frame same_flow_def)
    then show ?thesis
      using l content_fields(1) [OF ct] by (simp add: flow_of_def)
  qed
  have bc: "fn_block_calls ?f4 = fn_block_calls f"
    using same_body_fields(2) [OF sb] replace_params_frame(3) by (simp add: remove_block_frame)
  then have tg: "call_target ?f4 = call_target f" "valid_block_call ?f4 = valid_block_call f"
    by (simp_all add: call_target_def block_call_of_def valid_block_call_def fun_eq_iff)
  have lab: "label_targets ?f4 = label_targets f"
    using same_body_fields(5) [OF sb] sf1 by (simp add: label_targets_def remove_block_frame same_flow_def)
  have jump: "flow_of f L ?p = (OpJump, [pe_call ?e])"
    using e(2,4) c(4) by (auto simp: flow_of_def successors_def Let_def)
  have nox: "call_target f d \<noteq> x" if "b \<in> set bs" "b \<noteq> ?p" "d \<in> set (snd (flow_of f L b))" for b d
  proof
    assume "call_target f d = x"
    from facts_ofI [OF facts that(1,3) this]
    have "\<lparr>pe_from = b, pe_call = d, pe_terminator = fst (flow_of f L b)\<rparr> = ?e"
      by (subst (asm) only) simp
    from arg_cong [OF this, of pe_from] show False
      using that(2) by simp
  qed
  have "cfg_inv ?f4 (xs @ ys) ?N"
    unfolding cfg_inv_def
  proof (intro conjI ballI)
    show "fn_inv ?f4 (xs @ ys) ?N" "xs @ ys \<noteq> []"
      using f4 d(3) by auto
    show "?N b \<noteq> []" if "b \<in> set (xs @ ys)" for b
      using that cfg_invD(3) [OF inv] d(4) x by auto
    fix b d'
    assume b: "b \<in> set (xs @ ys)" and c': "d' \<in> set (snd (flow_of ?f4 ?N b))"
    let ?b = "if b = ?p then x else b"
    have "?b \<in> set bs" "?b \<noteq> ?p" "d' \<in> set (snd (flow_of f L ?b))"
      using b c' c(5) x d(4) fl [OF b] by (auto split: if_splits)
    then show "valid_block_call ?f4 d'" "call_target ?f4 d' \<in> set (xs @ ys)"
      using cfg_invD(5,6) [OF inv] nox d(4) unfolding tg by blast+
  next
    show "set (label_targets ?f4) \<subseteq> set (xs @ ys)"
      using facts c(2) d(4) unfolding facts_of_def lab by blast
  qed
  moreover have "cfg_size ?f4 (xs @ ys) ?N < cfg_size f bs L"
  proof -
    have "cfg_size ?f4 (xs @ ys) ?N = flow_size (xs @ ys) ((flow_of f L)(?p := flow_of f L x)) (call_target f)"
      unfolding cfg_size_def tg by (rule flow_size_cong) (use fl in auto)
    moreover have "length (xs @ ys) < length bs" "fst (flow_of f L ?p) = OpJump"
      using bs by (simp_all add: jump)
    ultimately show ?thesis
      using merge_shrinks [where fl = "flow_of f L" and tg = "call_target f", OF d(1,4) _ x e(1) c(5)] by (simp add: cfg_size_def)
  qed
  moreover have "length (fn_blocks ?f4) = length (fn_blocks f)"
    using sb same_flowD(6) [OF sf1] by (simp add: same_body_def remove_block_frame)
  ultimately have "\<exists>bs' L'. cfg_inv ?f4 bs' L' \<and> cfg_size ?f4 bs' L' < cfg_size f bs L \<and> length (fn_blocks ?f4) = length (fn_blocks f)"
    by (intro exI conjI)
  then show ?thesis
    by (intro exI [of _ True] exI [of _ ?f4] conjI m) (simp only: if_True)
qed auto

section \<open>Removing unreachable blocks\<close>

text \<open>The roots of the search are the entry and the protected blocks.\<close>

definition roots :: "air_function \<Rightarrow> cfg_facts \<Rightarrow> block_id set" where
  "roots f facts = insert (fn_entry_block f) (set (cf_protected facts))"

text \<open>The blocks of a function in order are closed under its edges.\<close>

definition flow_universe :: "air_function \<Rightarrow> block_id list \<Rightarrow> (block_id \<Rightarrow> inst_id list) \<Rightarrow> block_id set" where
  "flow_universe f bs L = (if cfg_inv f bs L then set bs else {})"

interpretation cfg_graph: graph "succ_blocks f" "flow_universe f bs L" for f bs L
proof
  show "set (succ_blocks f b) \<subseteq> flow_universe f bs L" if "b \<in> flow_universe f bs L" for b
    using that edges_of_flow(2) [of f bs L] cfg_invD(6) [of f bs L] by (auto simp: flow_universe_def split: if_splits)
qed (simp add: flow_universe_def)

lemma reached_blocks:
  assumes inv: "cfg_inv f bs L" and facts: "facts_of f bs L facts"
  obtains r where
    "explore (explore_fuel (succ_blocks f) [0..<length (fn_blocks f)] (rev (fn_entry_block f # cf_protected facts)))
       (succ_blocks f) (rev (fn_entry_block f # cf_protected facts)) [] = Some r"
    "set r = reach (succ_blocks f) (roots f facts)" "set r \<subseteq> set bs"
proof -
  let ?w = "rev (fn_entry_block f # cf_protected facts)"
  have "hd bs \<in> set bs"
    using cfg_invD(2) [OF inv] by simp
  then have w: "set ?w \<subseteq> set bs"
    using facts cfg_inv_order(3) [OF inv] by (auto simp: facts_of_def)
  have u: "flow_universe f bs L = set bs"
    using inv by (simp add: flow_universe_def)
  have "set bs \<subseteq> set [0..<length (fn_blocks f)]"
    using cfg_inv_order(5) [OF inv] by auto
  with w u have "set ?w \<subseteq> flow_universe f bs L" "flow_universe f bs L \<subseteq> set [0..<length (fn_blocks f)]"
    by simp_all
  from cfg_graph.explore_correct [OF this] obtain r
    where r: "explore (explore_fuel (succ_blocks f) [0..<length (fn_blocks f)] ?w) (succ_blocks f) ?w [] = Some r"
      "set r = reach (succ_blocks f) (set ?w)"
    by blast
  have "set ?w = roots f facts"
    by (simp add: roots_def)
  note r = r [unfolded this]
  show thesis
    using that [OF r] cfg_graph.reach_universe [of "set ?w" f bs L] w u r(2) \<open>set ?w = roots f facts\<close> by simp
qed

definition pruning ::
  "air_function \<Rightarrow> block_id list \<Rightarrow> (block_id \<Rightarrow> inst_id list) \<Rightarrow> block_id list \<Rightarrow> bool \<times> air_function \<Rightarrow> block_id list \<Rightarrow> bool" where
  "pruning f bs L r st rest \<longleftrightarrow>
     hd bs \<in> set r \<and> bs \<noteq> []
     \<and> (\<exists>ds. bs = ds @ rest \<and> fn_inv (snd st) (filter (\<lambda>b. b \<in> set r) ds @ rest) L
          \<and> (fst st \<longleftrightarrow> (\<exists>d \<in> set ds. d \<notin> set r)) \<and> (\<not> fst st \<longrightarrow> snd st = f))
     \<and> fn_insts (snd st) = fn_insts f \<and> fn_values (snd st) = fn_values f \<and> fn_block_calls (snd st) = fn_block_calls f
     \<and> fn_jump_tables (snd st) = fn_jump_tables f \<and> fn_block_call_lists (snd st) = fn_block_call_lists f
     \<and> fn_entry_block (snd st) = fn_entry_block f \<and> length (fn_blocks (snd st)) = length (fn_blocks f)
     \<and> fn_entry_block f = hd bs"

interpretation prune_blocks: traversal "\<lambda>st b. bd_next (block (snd st) b)" "remove_if_unreached r" "pruning f bs L r" for r f bs L
proof
  fix st b rest
  assume p: "pruning f bs L r st (b # rest)"
  obtain ch g where st: "st = (ch, g)"
    by fastforce
  obtain ds where d: "bs = ds @ b # rest" "fn_inv g (filter (\<lambda>b. b \<in> set r) ds @ b # rest) L"
      "ch \<longleftrightarrow> (\<exists>d \<in> set ds. d \<notin> set r)" "\<not> ch \<longrightarrow> g = f"
    using p by (auto simp: pruning_def st)
  show "bd_next (block (snd st) b) = first_of rest 0" "b \<noteq> 0"
    using next_block_order [OF d(2)] by (simp_all add: st next_block_def)
  show "pruning f bs L r (remove_if_unreached r b st) rest"
  proof (cases "b \<in> set r")
    case True
    then have "remove_if_unreached r b st = st"
      by (simp add: remove_if_unreached_def st)
    then show ?thesis
      using p d True unfolding pruning_def by (intro conjI exI [of _ "ds @ [b]"]) (auto simp: st)
  next
    case False
    have "b \<noteq> fn_entry_block g"
      using p False by (auto simp: pruning_def st)
    then have "fn_inv (remove_block b g) (filter (\<lambda>b. b \<in> set r) ds @ rest) L"
      by (rule fn_inv_remove_block [OF d(2)])
    then show ?thesis
      using p d False unfolding pruning_def
      by (intro conjI exI [of _ "ds @ [b]"]) (auto simp: st remove_if_unreached_def remove_block_frame)
  qed
qed

lemma removal_step:
  assumes inv: "cfg_inv f bs L" and facts: "facts_of f bs L facts"
  shows "\<exists>ch f'. remove_unreachable_blocks facts f = Some (ch, f')
     \<and> (if ch then \<exists>bs'. cfg_inv f' bs' L \<and> cfg_size f' bs' L < cfg_size f bs L \<and> length (fn_blocks f') = length (fn_blocks f)
        else f' = f \<and> set bs = reach (succ_blocks f) (roots f facts))"
proof -
  obtain r where r: "explore (explore_fuel (succ_blocks f) [0..<length (fn_blocks f)] (rev (fn_entry_block f # cf_protected facts)))
       (succ_blocks f) (rev (fn_entry_block f # cf_protected facts)) [] = Some r"
      "set r = reach (succ_blocks f) (roots f facts)" "set r \<subseteq> set bs"
    using reached_blocks [OF inv facts] .
  let ?bs = "filter (\<lambda>b. b \<in> set r) bs"
  have hd: "hd bs \<in> set r"
    using r(2) cfg_inv_order(3) [OF inv] by (simp add: roots_def reach.start)
  have "pruning f bs L r (False, f) bs"
    using hd cfg_invD(1,2) [OF inv] cfg_inv_order(3) [OF inv] by (simp add: pruning_def)
  note v = prune_blocks.visit_fold [OF this cfg_inv_order(4) [OF inv]]
  let ?st = "fold (remove_if_unreached r) bs (False, f)"
  obtain ch f' where st: "?st = (ch, f')"
    by fastforce
  have p: "pruning f bs L r (ch, f') []"
    using v st by simp
  have run: "remove_unreachable_blocks facts f = Some (ch, f')"
    using v st r(1) entry_first [OF inv] by (simp add: remove_unreachable_blocks_def Let_def)
  have ch: "ch \<longleftrightarrow> \<not> set bs \<subseteq> set r" and same: "\<not> ch \<longrightarrow> f' = f" and f': "fn_inv f' ?bs L"
    using p by (auto simp: pruning_def)
  show ?thesis
  proof (cases ch)
    case False
    then show ?thesis
      using run same ch r(2,3) by auto
  next
    case True
    have fl: "flow_of f' L = flow_of f L" and tg: "call_target f' = call_target f" "valid_block_call f' = valid_block_call f"
      and lab: "label_targets f' = label_targets f" and len: "length (fn_blocks f') = length (fn_blocks f)"
      using p by (simp_all add: pruning_def flow_of_def successors_def jump_table_def block_call_list_def inst_def
          call_target_def block_call_of_def valid_block_call_def label_targets_def fun_eq_iff Let_def)
    have closed: "call_target f c \<in> set ?bs" if "b \<in> set ?bs" "c \<in> set (snd (flow_of f L b))" for b c
      using that cfg_invD(6) [OF inv, of b c] edges_of_flow(2) [OF inv, of b] reach.step [of b "succ_blocks f" _ "call_target f c"]
      by (auto simp: r(2))
    have "cfg_inv f' ?bs L"
      unfolding cfg_inv_def
    proof (intro conjI ballI)
      show "?bs \<noteq> []"
        using hd r(3) by (auto simp: filter_empty_conv)
      show "set (label_targets f') \<subseteq> set ?bs"
        using facts reach.start r(2) unfolding lab by (auto simp: facts_of_def roots_def)
    qed (use f' cfg_invD(3,5) [OF inv] closed in \<open>auto simp: fl tg\<close>)
    moreover have "cfg_size f' ?bs L < cfg_size f bs L"
      unfolding cfg_size_def fl tg
    proof (rule remove_shrinks)
      show "length ?bs < length bs"
        using True ch by (auto intro!: length_filter_less)
    qed auto
    ultimately show ?thesis
      using run len True by auto
  qed
qed

section \<open>The pass\<close>

text \<open>A function on which the pass has nothing left to do.\<close>

definition simplified :: "air_function \<Rightarrow> block_id list \<Rightarrow> bool" where
  "simplified f bs \<longleftrightarrow>
     (\<exists>facts. collect_cfg_facts f = Some facts
        \<and> (\<forall>b \<in> set bs. fold_branch b f = (False, f) \<and> fold_forwarding_block facts b f = Some (False, f)
             \<and> merge_into_predecessor facts b f = Some (False, f))
        \<and> set bs = reach (succ_blocks f) (roots f facts))"

lemma round_returns:
  assumes inv: "cfg_inv f bs L"
  shows "\<exists>ch f'. simplify_cfg_round f = Some (ch, f')
     \<and> (if ch then \<exists>bs' L'. cfg_inv f' bs' L' \<and> cfg_size f' bs' L' < cfg_size f bs L \<and> length (fn_blocks f') = length (fn_blocks f)
        else f' = f \<and> simplified f bs)"
proof -
  obtain facts where facts: "collect_cfg_facts f = Some facts" "facts_of f bs L facts"
    by (rule collect_facts_of [OF inv])
  obtain c1 f1 L1 where fb: "fold_branches f = Some (c1, f1)" "cfg_inv f1 bs L1" "length (fn_blocks f1) = length (fn_blocks f)"
      "if c1 then cfg_size f1 bs L1 < cfg_size f bs L
       else f1 = f \<and> L1 = L \<and> (\<forall>b \<in> set bs. fold_branch b f = (False, f))"
    using fold_branches_returns [OF inv] by blast
  show ?thesis
  proof (cases c1)
    case True
    then show ?thesis
      using facts fb by (auto simp: simplify_cfg_round_def)
  next
    case no1: False
    have fwd: "\<forall>b \<in> set bs. \<exists>ch f'. fold_forwarding_block facts b f = Some (ch, f') \<and> (\<not> ch \<longrightarrow> f' = f)"
      using forwarding_step [OF inv facts(2)] by (metis (full_types))
    show ?thesis
    proof (cases rule: search_cases [where body = "fold_forwarding_block facts", OF inv fwd])
      case (2 b f')
      have "simplify_cfg_round f = Some (True, f')"
        using facts(1) fb no1 2(3) by (simp add: simplify_cfg_round_def)
      moreover have "cfg_inv f' bs L \<and> cfg_size f' bs L < cfg_size f bs L \<and> fn_blocks f' = fn_blocks f"
        using forwarding_step [OF inv facts(2) 2(1)] 2(2) by (auto split: if_splits)
      ultimately show ?thesis
        by (intro exI [of _ True] exI [of _ f'], simp only: if_True) blast
    next
      case no2: 1
      have mrg: "\<forall>b \<in> set bs. \<exists>ch f'. merge_into_predecessor facts b f = Some (ch, f') \<and> (\<not> ch \<longrightarrow> f' = f)"
        using merging_step [OF inv facts(2)] by (metis (full_types))
      show ?thesis
      proof (cases rule: search_cases [where body = "merge_into_predecessor facts", OF inv mrg])
        case (2 b f')
        have "simplify_cfg_round f = Some (True, f')"
          using facts(1) fb no1 no2(1) 2(3) by (simp add: simplify_cfg_round_def)
        moreover have "\<exists>bs' L'. cfg_inv f' bs' L' \<and> cfg_size f' bs' L' < cfg_size f bs L \<and> length (fn_blocks f') = length (fn_blocks f)"
          using merging_step [OF inv facts(2) 2(1)] 2(2) by (auto split: if_splits)
        ultimately show ?thesis
          by (intro exI [of _ True] exI [of _ f']) simp
      next
        case no3: 1
        have s: "simplify_cfg_round f = remove_unreachable_blocks facts f"
          using facts(1) fb no1 no2(1) no3(1) by (simp add: simplify_cfg_round_def)
        obtain ch f' where rm: "remove_unreachable_blocks facts f = Some (ch, f')"
          "if ch then \<exists>bs'. cfg_inv f' bs' L \<and> cfg_size f' bs' L < cfg_size f bs L \<and> length (fn_blocks f') = length (fn_blocks f)
           else f' = f \<and> set bs = reach (succ_blocks f) (roots f facts)"
          using removal_step [OF inv facts(2)] by blast
        show ?thesis
        proof (cases ch)
          case True
          then show ?thesis
            using s rm by auto
        next
          case False
          have "simplified f bs"
            unfolding simplified_def using facts(1) fb(4) no1 no2(2) no3(2) rm(2) False by auto
          then show ?thesis
            using s rm False by auto
        qed
      qed
    qed
  qed
qed

lemma rounds_return:
  assumes "cfg_inv f bs L" "cfg_size f bs L < fuel"
  shows "\<exists>ch' f' bs' L'. simplify_cfg_rounds fuel ch f = Some (ch', f') \<and> cfg_inv f' bs' L' \<and> simplified f' bs' \<and> (\<not> ch' \<longrightarrow> f' = f)"
  using assms
proof (induction fuel arbitrary: f bs L ch)
  case (Suc n)
  obtain c g where r: "simplify_cfg_round f = Some (c, g)"
      "if c then \<exists>bs' L'. cfg_inv g bs' L' \<and> cfg_size g bs' L' < cfg_size f bs L \<and> length (fn_blocks g) = length (fn_blocks f)
       else g = f \<and> simplified f bs"
    using round_returns [OF Suc.prems(1)] by blast
  show ?case
  proof (cases c)
    case True
    then obtain bs' L' where "cfg_inv g bs' L'" "cfg_size g bs' L' < n"
      using r(2) Suc.prems(2) by auto
    from Suc.IH [OF this, of True] obtain ch' f' bs'' L'' where
      s: "simplify_cfg_rounds n True g = Some (ch', f')" "cfg_inv f' bs'' L''" "simplified f' bs''"
      by blast
    have "ch'"
      using s(1) by (induction n arbitrary: g) (auto split: option.splits prod.splits if_splits)
    then show ?thesis
      using r True s by auto
  next
    case False
    then show ?thesis
      using r Suc.prems(1) by auto
  qed
qed simp

lemma run_simplify_cfg_returns:
  assumes "cfg_inv f bs L"
  shows "\<exists>ch f' bs' L'. run_simplify_cfg f = Some (ch, f') \<and> cfg_inv f' bs' L' \<and> simplified f' bs' \<and> (\<not> ch \<longrightarrow> f' = f)"
proof -
  have "cfg_size f bs L < 4 * length (fn_blocks f) + 1"
    using flow_size_bound [of bs "flow_of f L" "call_target f"] cfg_inv_order(4) [OF assms] by (simp add: cfg_size_def)
  from rounds_return [OF assms this] show ?thesis
    by (simp add: run_simplify_cfg_def)
qed

end
