(* ===== verification/Air_Cfg_Sound.thy ===== *)
theory Air_Cfg_Sound
  imports Air_Cfg_Correct Air_Simplify_Sound
begin

text \<open>
  What folding a branch and forwarding an edge mean for the execution of a function: control goes
  to the same block with the same arguments, at once instead of on the way through a block that
  only jumps.
\<close>

section \<open>Where control goes\<close>

text \<open>The block call a jump or a conditional branch takes, and the block and arguments it arrives at.\<close>

definition taken :: "air_function \<Rightarrow> (value_id \<Rightarrow> air_value) \<Rightarrow> block_id \<Rightarrow> block_call_id option" where
  "taken f env b =
     (let t = terminator_of f b; data = inst f t; low = unat (aux_low (in_aux data)); high = unat (aux_high (in_aux data))
      in if in_op data = OpJump then Some low
         else if in_op data = OpBrIf
         then (case den f env (operands f t ! 0) of AInt n \<Rightarrow> Some (if n \<noteq> 0 then low else high) | _ \<Rightarrow> None)
         else None)"

definition arrives :: "air_function \<Rightarrow> (value_id \<Rightarrow> air_value) \<Rightarrow> block_call_id \<Rightarrow> block_id \<times> air_value list" where
  "arrives f env c = (call_target f c, map (den f env) (block_call_args f c))"

text \<open>The environment in a block that was entered with some arguments.\<close>

definition enter :: "air_function \<Rightarrow> (value_id \<Rightarrow> air_value) \<Rightarrow> block_id \<Rightarrow> air_value list \<Rightarrow> value_id \<Rightarrow> air_value" where
  "enter f env b args v = (case map_of (zip (block_params f b) args) v of Some y \<Rightarrow> y | None \<Rightarrow> env v)"

lemma spans_equal_iff: "spans_equal a b \<longleftrightarrow> a = b"
  by (auto simp: spans_equal_def list_all_iff intro!: nth_equalityI)

section \<open>Folding a branch\<close>

lemma fold_branch_arrives:
  assumes inv: "cfg_inv f bs L" and b: "b \<in> set bs" and fb: "fold_branch b f = (True, f')"
    and cond: "den f env (operands f (terminator_of f b) ! 0) = AInt n"
    and canonical: "vd_payload2 (value_of f (operands f (terminator_of f b) ! 0)) = 0
      \<or> vd_kind (value_of f (operands f (terminator_of f b) ! 0)) \<noteq> ConstInt"
  shows "map_option (arrives f' env) (taken f' env b) = map_option (arrives f env) (taken f env b)"
proof -
  let ?d = "inst f (last (L b))" and ?v = "value_of f (operands f (last (L b)) ! 0)"
  let ?low = "unat (aux_low (in_aux ?d))" and ?high = "unat (aux_high (in_aux ?d))"
  note t = terminator_last(1) [OF inv b]
  obtain call where c: "f' = replace_terminator_with_jump b call f" "fst (flow_of f L b) = OpBrIf"
      "call \<in> set (snd (flow_of f L b))" "call < 2 ^ 32"
    by (rule fold_branch_cases [OF inv b]) (use fb in auto)
  have op: "in_op ?d = OpBrIf"
    using c(2) by (simp add: flow_of_def)
  note e = replace_terminator_effect [OF inv b c(1)] and fl = replace_terminator_flow [OF inv b c(1) refl c(3,4)]
  have t': "terminator_of f' b = length (fn_insts f)"
    using terminator_last(1) [OF fl(3) b] by simp
  have "successors f' (length (fn_insts f)) = [call]"
    using fl(1) [OF b] by (simp add: flow_of_def)
  then have "unat (aux_low (in_aux (inst f' (length (fn_insts f))))) = call"
    using e(3) by (simp add: successors_def Let_def)
  then have taken': "taken f' env b = Some call"
    using e(3) by (simp add: taken_def t' Let_def)
  have taken: "taken f env b = Some (if n \<noteq> 0 then ?low else ?high)"
    using op cond by (simp add: taken_def t Let_def)
  have same: "arrives f' env k = arrives f env k" for k
    by (simp add: arrives_def fl(2) block_call_args_def block_call_of_def e(6,9) den_def value_of_def e(5))
  have n: "n = uint (vd_payload ?v)" if "vd_kind ?v = ConstInt"
    using that cond canonical by (auto simp: den_def t Let_def)
  have which: "replace_terminator_with_jump b call f = replace_terminator_with_jump b call' f \<Longrightarrow> call' < 2 ^ 32 \<Longrightarrow> call' = call" for call'
  proof -
    assume r: "replace_terminator_with_jump b call f = replace_terminator_with_jump b call' f" and lt: "call' < 2 ^ 32"
    have "(of_nat call :: u64) = of_nat call'"
      using e(4) replace_terminator_effect(4) [OF inv b refl, of call'] r c(1) by simp
    then have "unat (of_nat call :: u64) = unat (of_nat call' :: u64)"
      by simp
    then show "call' = call"
      using c(4) lt by (simp add: unat_of_nat take_bit_nat_eq_self)
  qed
  have lt: "unat (w :: u32) < 2 ^ 32" for w
    using unat_lt_exp [of w] by simp
  have "arrives f env call = arrives f env (if n \<noteq> 0 then ?low else ?high)"
  proof (cases "vd_kind ?v = ConstInt")
    case True
    then have "f' = replace_terminator_with_jump b (if n \<noteq> 0 then ?low else ?high) f"
      using fb op n by (simp add: fold_branch_def t Let_def unsigned_eq_0_iff)
    then have "(if n \<noteq> 0 then ?low else ?high) = call"
      using c(1) lt by (intro which) simp_all
    then show ?thesis
      by simp
  next
    case False
    then have "call_target f ?low = call_target f ?high" "block_call_args f ?low = block_call_args f ?high"
        "f' = replace_terminator_with_jump b ?low f"
      using fb op by (auto simp: fold_branch_def t Let_def spans_equal_iff split: if_splits)
    moreover from this have "?low = call"
      using c(1) lt by (intro which) simp_all
    ultimately show ?thesis
      by (simp add: arrives_def)
  qed
  then show ?thesis
    by (simp add: taken taken' same)
qed

section \<open>Forwarding an edge\<close>

text \<open>The parameters of a block are the values that say they are, in their order.\<close>

definition params_ok :: "air_function \<Rightarrow> block_id \<Rightarrow> bool" where
  "params_ok f b \<longleftrightarrow>
     distinct (block_params f b)
     \<and> (\<forall>k < length (block_params f b). vd_kind (value_of f (block_params f b ! k)) = BlockParam)
     \<and> (\<forall>v. valid_value f v \<and> vd_kind (value_of f v) = BlockParam \<and> unat (ucast (vd_payload (value_of f v)) :: u32) = b \<longrightarrow>
          unat (vd_payload2 (value_of f v)) < length (block_params f b)
          \<and> block_params f b ! unat (vd_payload2 (value_of f v)) = v)
     \<and> (\<forall>v \<in> set (block_params f b). unat (ucast (vd_payload (value_of f v)) :: u32) = b)"

lemma translate_arg_den:
  assumes ok: "params_ok f b" and len: "length incoming = length (block_params f b)" and v: "valid_value f v"
  shows "den f env (translate_arg f b incoming v) = den f (enter f env b (map (den f env) incoming)) v"
proof (cases "vd_kind (value_of f v) = BlockParam \<and> unat (ucast (vd_payload (value_of f v)) :: u32) = b")
  case True
  let ?k = "unat (vd_payload2 (value_of f v))" and ?ps = "block_params f b"
  have k: "?k < length ?ps" "?ps ! ?k = v" "distinct ?ps"
    using ok True v by (auto simp: params_ok_def)
  have "map_of (zip ?ps (map (den f env) incoming)) v = Some (map (den f env) incoming ! ?k)"
    using k len by (metis length_map map_of_zip_nth)
  then show ?thesis
    using True k len by (simp add: translate_arg_def den_def [of f "enter f env b (map (den f env) incoming)"] enter_def Let_def)
next
  case False
  have "v \<notin> set (block_params f b) \<or> vd_kind (value_of f v) \<noteq> BlockParam"
    using ok False by (auto simp: params_ok_def)
  moreover have "v \<notin> set (block_params f b)" if "vd_kind (value_of f v) \<noteq> BlockParam"
    using ok that by (auto simp: params_ok_def in_set_conv_nth)
  ultimately have "enter f env b (map (den f env) incoming) v = env v"
    using len by (auto simp: enter_def split: option.split dest: map_of_SomeD set_zip_leftD)
  then show ?thesis
    using False by (simp add: translate_arg_def den_def Let_def split: value_kind.split)
qed

lemma set_target_pool:
  assumes "operands_inv f"
  shows "operands_inv (set_block_call_target c t f)" "block_call_args (set_block_call_target c t f) d = block_call_args f d"
proof -
  let ?f = "set_block_call_target c t f"
  have bc: "bc_arg_begin (block_call_of ?f d) = bc_arg_begin (block_call_of f d)"
    "bc_arg_count (block_call_of ?f d) = bc_arg_count (block_call_of f d)" for d
    by (cases "c < length (fn_block_calls f)"; cases "d = c";
        simp add: set_block_call_target_def set_call_def block_call_of_def list_update_beyond)+
  have p: "fn_operand_pool ?f = fn_operand_pool f" "fn_insts ?f = fn_insts f" "length (fn_block_calls ?f) = length (fn_block_calls f)"
    by (simp_all add: set_block_call_target_def set_call_def)
  have "operand_region ?f a = operand_region f a" for a
    using p bc by (cases a) (simp_all add: inst_def)
  then have "operand_region ?f = operand_region f"
    by (simp add: fun_eq_iff)
  moreover have "operand_owners ?f = operand_owners f"
    by (simp add: operand_owners_def valid_inst_def valid_block_call_def p)
  ultimately show "operands_inv ?f"
    using assms by (simp add: operands_inv_def p)
  show "block_call_args ?f d = block_call_args f d"
    by (simp add: block_call_args_def bc p)
qed

lemma forward_edge_args:
  assumes inv: "operands_inv f" and v: "valid_block_call f (pe_call e)" and ns: "\<not> skipped params oa e"
    and f': "f' = snd (forward_edge x params oa t e (ch, f))"
  shows "operands_inv f'"
    and "block_call_args f' (pe_call e) =
      (if params = [] then oa else map (translate_arg f x (block_call_args f (pe_call e))) oa)"
    and "valid_block_call f d \<Longrightarrow> d \<noteq> pe_call e \<Longrightarrow> block_call_args f' d = block_call_args f d"
proof -
  let ?c = "pe_call e"
  let ?g = "set_block_call_target ?c t f"
  let ?args = "if params = [] then oa else map (translate_arg f x (block_call_args f ?c)) oa"
  have eq: "f' = set_block_call_args ?c ?args ?g"
    using ns f' by (auto simp: forward_edge_def skipped_def Let_def)
  have vg: "valid_block_call ?g d = valid_block_call f d" for d
    using same_flowD(3) [OF set_call_target_frame(1)] by simp
  have "gives ?g f' (OfCall ?c) ?args"
    unfolding eq using block_call_arg_gives(4) [OF set_target_pool(1) [OF inv], of ?c] v vg by simp
  then show "operands_inv f'" "block_call_args f' ?c = ?args"
    "valid_block_call f d \<Longrightarrow> d \<noteq> ?c \<Longrightarrow> block_call_args f' d = block_call_args f d"
    using vg [of d] set_target_pool(2) [OF inv] by (auto simp: gives_def operand_list_simps(2) [symmetric] operand_owners_def)
qed

lemma forward_edges_args:
  assumes "operands_inv f" "\<And>e. e \<in> set es \<Longrightarrow> valid_block_call f (pe_call e)" "distinct (map pe_call es)"
    and "fold (forward_edge x params oa t) es (ch, f) = (ch', f')"
    and "e \<in> set es" "\<not> skipped params oa e"
  shows "block_call_args f' (pe_call e) =
      (if params = [] then oa else map (translate_arg f x (block_call_args f (pe_call e))) oa)"
proof -
  have keep: "block_call_args f' d = block_call_args f d"
    if "operands_inv f" "\<And>e. e \<in> set es \<Longrightarrow> valid_block_call f (pe_call e)" "valid_block_call f d" "d \<notin> pe_call ` set es"
      "fold (forward_edge x params oa t) es (ch, f) = (ch', f')" for es ch f d
    using that
  proof (induction es arbitrary: ch f)
    case (Cons e es)
    obtain ch1 f1 where e1: "forward_edge x params oa t e (ch, f) = (ch1, f1)"
      by fastforce
    have v: "valid_block_call f (pe_call e)"
      using Cons.prems(2) by simp
    note eff = forward_edge_effect [where x = x and params = params and oa = oa and t = t and ch = ch, OF v, unfolded e1 snd_conv]
    have "operands_inv f1" "block_call_args f1 d = block_call_args f d"
      using forward_edge_args(1,3) [where params = params and oa = oa and f' = f1 and x = x and t = t and ch = ch, OF Cons.prems(1) v] eff(4) Cons.prems(1,3,4) e1
      by (cases "skipped params oa e"; simp)+
    then show ?case
      using Cons.IH [of f1 ch1] Cons.prems e1 same_flowD(3) [OF eff(2)] by simp
  qed simp
  show ?thesis
    using assms
  proof (induction es arbitrary: ch f)
    case (Cons e' es)
    obtain ch1 f1 where e1: "forward_edge x params oa t e' (ch, f) = (ch1, f1)"
      by fastforce
    have v: "valid_block_call f (pe_call e')"
      using Cons.prems(2) by simp
    note eff = forward_edge_effect [where x = x and params = params and oa = oa and t = t and ch = ch, OF v, unfolded e1 snd_conv]
    note vf = same_flowD(3) [OF eff(2)] and vo = same_flowD(11) [OF eff(2)]
    have rest: "fold (forward_edge x params oa t) es (ch1, f1) = (ch', f')"
      using Cons.prems(4) e1 by simp
    have i1: "operands_inv f1"
      using forward_edge_args(1) [where params = params and oa = oa and f' = f1 and x = x and t = t and ch = ch, OF Cons.prems(1) v] eff(4) Cons.prems(1) e1
      by (cases "skipped params oa e'") simp_all
    show ?case
    proof (cases "e = e'")
      case True
      have "block_call_args f' (pe_call e) = block_call_args f1 (pe_call e)"
        using True Cons.prems(2,3) i1 vf rest v by (intro keep) auto
      then show ?thesis
        using forward_edge_args(2) [where params = params and oa = oa and f' = f1 and x = x and t = t and ch = ch, OF Cons.prems(1) v] Cons.prems(6) True e1 by simp
    next
      case False
      then have e: "e \<in> set es"
        using Cons.prems(5) by simp
      then have ne: "pe_call e \<noteq> pe_call e'"
        using Cons.prems(3) by (metis distinct.simps(2) image_eqI list.simps(9) set_map)
      have "block_call_args f1 (pe_call e) = block_call_args f (pe_call e)"
        using forward_edge_args(3) [where params = params and oa = oa and f' = f1 and x = x and t = t and ch = ch and d = "pe_call e", OF Cons.prems(1) v] eff(4) Cons.prems(2,5) e1 ne
        by (cases "skipped params oa e'") simp_all
      moreover have "translate_arg f1 = translate_arg f"
        using vo by (simp add: translate_arg_def fun_eq_iff)
      ultimately show ?thesis
        using Cons.IH [of f1 ch1] i1 Cons.prems(2,3,6) vf rest e by simp
    qed
  qed simp
qed

lemma forwarding_arrives:
  assumes inv: "cfg_inv f bs L" and facts: "collect_cfg_facts f = Some facts" and ops: "operands_inv f" and x: "x \<in> set bs"
    and ff: "fold_forwarding_block facts x f = Some (True, f')"
    and e: "e \<in> set (preds facts x)" "call_target f' (pe_call e) \<noteq> x"
    and d: "distinct (map pe_call (preds facts x))" and ok: "params_ok f x"
    and len: "length (block_call_args f (pe_call e)) = length (block_params f x)"
    and valid: "\<forall>v \<in> set (block_call_args f (unat (aux_low (in_aux (inst f (terminator_of f x)))))). valid_value f v"
  shows "arrives f' env (pe_call e) =
    arrives f (enter f env x (map (den f env) (block_call_args f (pe_call e))))
      (unat (aux_low (in_aux (inst f (terminator_of f x)))))"
proof -
  obtain facts' where "collect_cfg_facts f = Some facts'" "facts_of f bs L facts'"
    by (rule collect_facts_of [OF inv])
  then have fo: "facts_of f bs L facts"
    using facts by simp
  let ?ow = "unat (aux_low (in_aux (inst f (terminator_of f x))))"
  let ?ps = "block_params f x" and ?oa = "block_call_args f ?ow" and ?in = "block_call_args f (pe_call e)"
  have fe: "fold (forward_edge x ?ps ?oa (call_target f ?ow)) (preds facts x) (False, f) = (True, f')"
    using ff by (auto simp: fold_forwarding_block_def Let_def split: if_splits option.splits)
  have v: "valid_block_call f (pe_call e)" if "e \<in> set (preds facts x)" for e
    using facts_ofD(1,2) [OF fo that] cfg_invD(5) [OF inv] by blast
  note eff = forward_edges_effect [OF v fe]
  have ns: "\<not> skipped ?ps ?oa e"
  proof
    assume s: "skipped ?ps ?oa e"
    have "e' = e" if "e' \<in> set (preds facts x)" "pe_call e = pe_call e'" for e'
      using d e(1) that by (metis distinct_map inj_onD)
    then have "call_target f' (pe_call e) = call_target f (pe_call e)"
      using eff(3) s by auto
    then show False
      using e facts_ofD(3) [OF fo e(1)] by simp
  qed
  have tg: "call_target f' (pe_call e) = call_target f ?ow"
    using eff(3) e(1) ns by auto
  have args: "block_call_args f' (pe_call e) = (if ?ps = [] then ?oa else map (translate_arg f x ?in) ?oa)"
    by (rule forward_edges_args [OF ops v d fe e(1) ns])
  have den': "den f' env = den f env"
    using same_flowD(11) [OF eff(2)] by (simp add: den_def fun_eq_iff)
  have none: "translate_arg f x ?in v = v" if "?ps = []" "valid_value f v" for v
    using ok that by (auto simp: params_ok_def translate_arg_def Let_def)
  have "block_call_args f' (pe_call e) = map (translate_arg f x ?in) ?oa"
    using args none valid by (auto intro: map_idI [symmetric])
  then show ?thesis
    using translate_arg_den [OF ok len] valid by (simp add: arrives_def tg den')
qed

end
