(* ===== verification/Air_Dominators.thy ===== *)
theory Air_Dominators
  imports Air_Function
begin

text \<open>
  The dominator tree (\<open>air/dominators.h\<close>, \<open>air/dominators.cpp\<close>): a depth-first search numbers the
  blocks in reverse postorder, and the immediate dominators are iterated over that order until
  nothing changes. \<open>None\<close> is an access outside a vector, a failed \<open>assert\<close>, or a loop that does not
  end.
\<close>

section \<open>Successors\<close>

text \<open>Reading the successors of an instruction, which looks up a table or a list, and their block calls.
  \<open>None\<close> is here a position outside of the vectors (where a debug build fails an \<open>assert\<close>).\<close>

definition tables_ok :: "air_function \<Rightarrow> inst_id \<Rightarrow> bool" where
  "tables_ok f i \<longleftrightarrow>
     (let data = inst f i
      in if in_op data = OpSwitch then unat (aux_high (in_aux data)) < length (fn_jump_tables f)
         else if in_op data = OpBrIndirect then unat (aux_low (in_aux data)) < length (fn_block_call_lists f)
         else if in_op data = OpAsmGoto then unat (ucast (in_aux2 data) :: u32) < length (fn_block_call_lists f)
         else True)"

definition read_successors :: "air_function \<Rightarrow> inst_id \<Rightarrow> block_call_id list option" where
  "read_successors f i =
     (if tables_ok f i \<and> (\<forall>c \<in> set (successors f i). valid_block_call f c) then Some (successors f i) else None)"

definition collect_successor_blocks :: "air_function \<Rightarrow> block_id \<Rightarrow> block_id list option" where
  "collect_successor_blocks f b =
     (if \<not> valid_block f b then None
      else
        let last = bd_last (block f b)
        in if last = 0 \<or> \<not> opcode_is_terminator (in_op (inst f last)) then Some []
           else map_option (map (\<lambda>c. bc_target (block_call_of f c))) (read_successors f last))"

section \<open>Depth-first search\<close>

text \<open>
  The state of the search: which blocks were seen (0 for not yet), their successors, the stack with
  the position of the next successor, its top first, and the blocks that are finished, the last
  one first.
\<close>

record search_state =
  ss_state :: "nat list"
  ss_succs :: "block_id list list"
  ss_stack :: "(block_id \<times> nat) list"
  ss_post :: "block_id list"

definition visit_block :: "block_id \<Rightarrow> block_id list \<Rightarrow> search_state \<Rightarrow> search_state" where
  "visit_block b succs s =
     s\<lparr>ss_state := (ss_state s)[b := 1], ss_succs := (ss_succs s)[b := succs], ss_stack := (b, 0) # ss_stack s\<rparr>"

text \<open>A step sees a new block, goes on to the next successor, or finishes a block.\<close>

definition unseen :: "nat list \<Rightarrow> nat" where
  "unseen state = length (filter (\<lambda>x. x = 0) state)"

definition to_go :: "search_state \<Rightarrow> nat" where
  "to_go s = sum_list (map (\<lambda>(b, n). length (ss_succs s ! b) - n) (ss_stack s))"

lemma unseen_seen: "x \<noteq> 0 \<Longrightarrow> unseen (xs[i := x]) \<le> unseen xs"
  by (induction xs arbitrary: i) (auto simp: unseen_def split: nat.split)

lemma unseen_less: "i < length xs \<Longrightarrow> xs ! i = 0 \<Longrightarrow> x \<noteq> 0 \<Longrightarrow> unseen (xs[i := x]) < unseen xs"
proof (induction xs arbitrary: i)
  case (Cons y ys)
  then show ?case
    by (cases i) (simp_all add: unseen_def)
qed simp

function depth_first :: "air_function \<Rightarrow> search_state \<Rightarrow> search_state option" where
  "depth_first f s =
     (case ss_stack s of
        [] \<Rightarrow> Some s
      | (b, n) # rest \<Rightarrow>
          if n < length (ss_succs s ! b) then
            let succ = ss_succs s ! b ! n; s1 = s\<lparr>ss_stack := (b, n + 1) # rest\<rparr>
            in if length (ss_state s) \<le> succ then None
               else if ss_state s ! succ = 0 then
                 (case collect_successor_blocks f succ of
                    None \<Rightarrow> None
                  | Some succs \<Rightarrow> depth_first f (visit_block succ succs s1))
               else depth_first f s1
          else depth_first f (s\<lparr>ss_state := (ss_state s)[b := 2], ss_post := b # ss_post s, ss_stack := rest\<rparr>))"
  by pat_completeness auto

termination
proof (relation "measures [\<lambda>(f, s). unseen (ss_state s), \<lambda>(f, s). to_go s, \<lambda>(f, s). length (ss_stack s)]", simp_all, goal_cases)
  case (1 f s top rest b n)
  then show ?case
    by (intro disjI1) (simp add: visit_block_def unseen_less)
next
  case (2 s top rest b n)
  from 2(2) [symmetric] 2(1,3) show ?case
    by (simp add: to_go_def)
next
  case (3 s top rest b n)
  from 3(2) [symmetric] 3(1,3) show ?case
    using unseen_seen [of 2 "ss_state s" b] by (auto simp: to_go_def)
qed

declare depth_first.simps [simp del]

section \<open>Immediate dominators\<close>

record domtree =
  dt_rpo :: "block_id list"
  dt_rpo_index :: "u32 list"
  dt_idom :: "block_id list"
  dt_entry :: block_id

definition UINT32_MAX :: u32 where
  "UINT32_MAX = 0xFFFFFFFF"

text \<open>\<open>while (rpo_index_[a] > limit) a = idom_[a];\<close> the indices on the way decrease, so the number of blocks bounds the steps.\<close>

fun climb :: "nat \<Rightarrow> u32 list \<Rightarrow> block_id list \<Rightarrow> u32 \<Rightarrow> block_id \<Rightarrow> block_id option" where
  "climb 0 index idom limit a = None"
| "climb (Suc n) index idom limit a =
     (if length index \<le> a then None
      else if limit < index ! a then climb n index idom limit (idom ! a) else Some a)"

fun intersect :: "nat \<Rightarrow> u32 list \<Rightarrow> block_id list \<Rightarrow> block_id \<Rightarrow> block_id \<Rightarrow> block_id option" where
  "intersect 0 index idom a b = None"
| "intersect (Suc n) index idom a b =
     (if a = b then Some a
      else if length index \<le> b then None
      else
        (case climb (length index) index idom (index ! b) a of
           None \<Rightarrow> None
         | Some a' \<Rightarrow>
             (case climb (length index) index idom (index ! a') b of
                None \<Rightarrow> None
              | Some b' \<Rightarrow> intersect n index idom a' b')))"

fun merge_preds :: "u32 list \<Rightarrow> block_id list \<Rightarrow> block_id list \<Rightarrow> block_id \<Rightarrow> block_id option" where
  "merge_preds index idom [] new_idom = Some new_idom"
| "merge_preds index idom (pred # preds) new_idom =
     (if idom ! pred = 0 then merge_preds index idom preds new_idom
      else if new_idom \<noteq> 0 then
        (case intersect (length index + 1) index idom new_idom pred of
           None \<Rightarrow> None
         | Some merged \<Rightarrow> merge_preds index idom preds merged)
      else merge_preds index idom preds pred)"

fun idom_round :: "u32 list \<Rightarrow> block_id list list \<Rightarrow> block_id \<Rightarrow> block_id list \<Rightarrow> bool \<times> block_id list \<Rightarrow>
    (bool \<times> block_id list) option" where
  "idom_round index preds entry [] st = Some st"
| "idom_round index preds entry (b # bs) (changed, idom) =
     (if b = entry then idom_round index preds entry bs (changed, idom)
      else
        (case merge_preds index idom (preds ! b) 0 of
           None \<Rightarrow> None
         | Some new_idom \<Rightarrow>
             if new_idom = 0 then None
             else if idom ! b \<noteq> new_idom then idom_round index preds entry bs (True, idom[b := new_idom])
             else idom_round index preds entry bs (changed, idom)))"

fun idom_rounds :: "nat \<Rightarrow> u32 list \<Rightarrow> block_id list list \<Rightarrow> block_id \<Rightarrow> block_id list \<Rightarrow> block_id list \<Rightarrow> block_id list option" where
  "idom_rounds 0 index preds entry rpo idom = None"
| "idom_rounds (Suc n) index preds entry rpo idom =
     (case idom_round index preds entry rpo (False, idom) of
        None \<Rightarrow> None
      | Some (changed, idom') \<Rightarrow> if changed then idom_rounds n index preds entry rpo idom' else Some idom')"

definition number_rpo :: "nat \<Rightarrow> block_id list \<Rightarrow> u32 list" where
  "number_rpo block_slots rpo = fold (\<lambda>i index. index[rpo ! i := of_nat i]) [0..<length rpo] (replicate block_slots UINT32_MAX)"

definition collect_preds :: "nat \<Rightarrow> block_id list list \<Rightarrow> block_id list \<Rightarrow> block_id list list" where
  "collect_preds block_slots succs rpo =
     fold (\<lambda>b. fold (\<lambda>succ preds. preds[succ := preds ! succ @ [b]]) (succs ! b)) rpo (replicate block_slots [])"

text \<open>A round but the first and the last moves a dominator up, at most as often as there are pairs of blocks.\<close>

definition compute :: "air_function \<Rightarrow> domtree option" where
  "compute f =
     (let block_slots = length (fn_blocks f); entry = fn_entry_block f
      in if entry = 0
         then Some \<lparr>dt_rpo = [], dt_rpo_index = replicate block_slots UINT32_MAX, dt_idom = replicate block_slots 0, dt_entry = entry\<rparr>
         else
           (case collect_successor_blocks f entry of
              None \<Rightarrow> None
            | Some succs \<Rightarrow>
                (case depth_first f (visit_block entry succs
                        \<lparr>ss_state = replicate block_slots 0, ss_succs = replicate block_slots [], ss_stack = [], ss_post = []\<rparr>) of
                   None \<Rightarrow> None
                 | Some s \<Rightarrow>
                     let rpo = ss_post s; index = number_rpo block_slots rpo; preds = collect_preds block_slots (ss_succs s) rpo
                     in (case idom_rounds (block_slots * block_slots + 2) index preds entry rpo ((replicate block_slots 0)[entry := entry]) of
                          None \<Rightarrow> None
                        | Some idom \<Rightarrow> Some \<lparr>dt_rpo = rpo, dt_rpo_index = index, dt_idom = idom, dt_entry = entry\<rparr>))))"

section \<open>Queries\<close>

definition reachable :: "domtree \<Rightarrow> block_id \<Rightarrow> bool" where
  "reachable t b \<longleftrightarrow> b < length (dt_rpo_index t) \<and> dt_rpo_index t ! b \<noteq> UINT32_MAX"

definition idom_of :: "domtree \<Rightarrow> block_id \<Rightarrow> block_id" where
  "idom_of t b = (if \<not> reachable t b \<or> b = dt_entry t then 0 else dt_idom t ! b)"

definition dominates :: "domtree \<Rightarrow> block_id \<Rightarrow> block_id \<Rightarrow> bool option" where
  "dominates t a b =
     (if \<not> reachable t a \<or> \<not> reachable t b then Some False
      else map_option ((=) a) (climb (length (dt_rpo_index t)) (dt_rpo_index t) (dt_idom t) (dt_rpo_index t ! a) b))"

end
