(* ===== verification/Air_Verify_Function.thy ===== *)
theory Air_Verify_Function
  imports Air_Verify Air_Module Air_Dominators
begin

text \<open>
  The AIR verifier (\<open>air/verifier.h\<close>, \<open>air/verifier.cpp\<close>): signatures, block layout, the rules of every
  opcode, the dominance of definitions over uses, globals and modules. A check is a predicate that
  holds when the verifier reports no error; its messages and notes are not modelled. The checks
  that follow the dominator tree return \<open>None\<close> where the code reads outside a vector or a map.
\<close>

section \<open>Signatures and layout\<close>

definition check_param :: "type_table \<Rightarrow> nat \<times> sig_param \<Rightarrow> bool" where
  "check_param tt ip =
     (case ip of (index, param) \<Rightarrow>
        (case sp_role param of
           RoleNormal \<Rightarrow> True
         | RoleSret \<Rightarrow> index = 0 \<and> is_ptr tt (sp_type param)
         | RoleIndirectByval \<Rightarrow> is_ptr tt (sp_type param)
         | RoleStackByval \<Rightarrow> is_ptr tt (sp_type param) \<and> sp_byval_size param \<noteq> 0))"

definition check_signature :: "type_table \<Rightarrow> sig_data \<Rightarrow> bool" where
  "check_signature tt data \<longleftrightarrow>
     list_all (check_param tt) (enumerate 0 (sd_params data))
     \<and> (case sd_ret_class data of
          RetVoid \<Rightarrow> True
        | RetScalar \<Rightarrow> \<not> (sd_ret_type data = 0 \<or> \<not> is_scalar tt (sd_ret_type data))
        | RetIntPair \<Rightarrow> \<not> (sd_ret_type data = 0 \<or> \<not> is_int tt (sd_ret_type data) \<or> sd_ret_count data \<noteq> 2)
        | RetHfa \<Rightarrow> \<not> (sd_ret_type data = 0 \<or> \<not> is_float tt (sd_ret_type data) \<or> sd_ret_count data = 0 \<or> sd_ret_count data > 4)
        | RetIndirectSret \<Rightarrow> \<not> (sd_params data = [] \<or> sp_role (sd_params data ! 0) \<noteq> RoleSret))
     \<and> \<not> (sd_is_variadic data \<and> unat (sd_fixed_param_count data) > length (sd_params data))"

definition check_entry_signature :: "sig_data \<Rightarrow> air_function \<Rightarrow> bool" where
  "check_entry_signature data f \<longleftrightarrow>
     (let params = block_params f (fn_entry_block f)
      in length params = length (sd_params data)
       \<and> list_all2 (\<lambda>v p. value_type f v = sp_type p) params (sd_params data))"

definition block_begins_with :: "air_function \<Rightarrow> block_id \<Rightarrow> opcode \<Rightarrow> bool" where
  "block_begins_with f b op \<longleftrightarrow>
     valid_block f b \<and> bd_first (block f b) \<noteq> 0 \<and> in_op (inst f (bd_first (block f b))) = op"

definition check_layout_inst :: "air_function \<Rightarrow> block_id \<Rightarrow> nat \<times> inst_id \<Rightarrow> bool" where
  "check_layout_inst f b pi =
     (case pi of (pos, i) \<Rightarrow>
        in_block (inst f i) = b
        \<and> \<not> (opcode_is_terminator (in_op (inst f i)) \<and> i \<noteq> bd_last (block f b))
        \<and> \<not> (in_op (inst f i) = OpEhLandingPad \<and> pos \<noteq> 0))"

definition check_block_layout :: "type_table \<Rightarrow> air_function \<Rightarrow> block_id \<times> inst_id list \<Rightarrow> bool" where
  "check_block_layout tt f bi =
     (case bi of (b, insts) \<Rightarrow>
        (\<forall>v \<in> set (block_params f b). check_value_type tt (value_type f v))
        \<and> bd_last (block f b) \<noteq> 0
        \<and> list_all (check_layout_inst f b) (enumerate 0 insts)
        \<and> opcode_is_terminator (in_op (inst f (bd_last (block f b)))))"

section \<open>Memory and exceptions\<close>

definition check_memory_inst :: "nat \<Rightarrow> type_table \<Rightarrow> air_function \<Rightarrow> inst_id \<Rightarrow> bool" where
  "check_memory_inst pointer_width tt f i \<longleftrightarrow>
     (let data = inst f i; op = in_op data; ty = in_type data; t = op_type f i; size = size_int_type pointer_width
      in if op = OpStackAlloc then ty = types_PTR \<and> stack_alloc_align_log2 (in_aux data) < 32
         else if op = OpStackAllocDyn then t 0 = size \<and> ty = types_PTR \<and> in_aux data < 32
         else if op = OpStackSave then ty = types_PTR
         else if op = OpStackRestore then is_ptr tt (t 0)
         else if op = OpLoad then is_ptr tt (t 0) \<and> in_aux data < 32
         else if op = OpStore then is_ptr tt (t 1) \<and> in_aux data < 32
         else if op \<in> {OpMemcpy, OpMemmove} then is_ptr tt (t 0) \<and> is_ptr tt (t 1) \<and> t 2 = size
         else if op = OpMemset then is_ptr tt (t 0) \<and> t 1 = types_I8 \<and> t 2 = size
         else True)"

definition check_atomic_inst :: "type_table \<Rightarrow> air_function \<Rightarrow> inst_id \<Rightarrow> bool" where
  "check_atomic_inst tt f i \<longleftrightarrow>
     (let data = inst f i; op = in_op data; ty = in_type data; t = op_type f i
      in if op = OpAtomicLoad
         then is_ptr tt (t 0)
              \<and> (case atomic_access_order (in_aux data) of None \<Rightarrow> False | Some order \<Rightarrow> order \<notin> {Release, AcqRel})
              \<and> atomic_access_align_log2 (in_aux data) < 32
         else if op = OpAtomicStore
         then is_ptr tt (t 1)
              \<and> (case atomic_access_order (in_aux data) of None \<Rightarrow> False | Some order \<Rightarrow> order \<notin> {Acquire, AcqRel})
              \<and> atomic_access_align_log2 (in_aux data) < 32
         else if op = OpAtomicRmw
         then is_ptr tt (t 0) \<and> aux_rmw_op (in_aux data) \<noteq> None \<and> rmw_order (in_aux data) \<noteq> None \<and> is_int tt (t 1) \<and> ty = t 1
         else if op = OpAtomicCas
         then is_ptr tt (t 0) \<and> t 2 = t 1 \<and> ty = t 1 \<and> cas_success_order (in_aux data) \<noteq> None
              \<and> (case cas_failure_order (in_aux data) of None \<Rightarrow> False | Some failure \<Rightarrow> failure \<notin> {Release, AcqRel})
         else if op = OpFence then unat (in_aux data) \<le> enum_code mem_orders SeqCst
         else True)"

definition check_eh_inst :: "air_module \<Rightarrow> air_function \<Rightarrow> inst_id \<Rightarrow> bool" where
  "check_eh_inst m f i \<longleftrightarrow>
     (let data = inst f i; op = in_op data; ty = in_type data; t = op_type f i; tt = ma_types m;
          payload = (\<lambda>a. unat (ucast a :: u32))
      in if op \<in> {OpEhAllocException, OpFrameAddr, OpReturnAddr} then ty = types_PTR
         else if op = OpEhLandingPad
         then ty = types_PTR \<and> payload (in_aux data) < length (ma_eh_payloads m)
              \<and> (let clauses = eh_payload_of m (payload (in_aux data))
                 in \<not> (\<not> eh_is_cleanup clauses \<and> \<not> eh_has_catch_all clauses \<and> eh_clause_typeinfos clauses = [])
                  \<and> list_all (valid_global m) (eh_clause_typeinfos clauses))
         else if op = OpEhSelector
         then is_ptr tt (t 0) \<and> ty = types_I32
              \<and> (let pad_value = value_of f (operands f i ! 0); pad = unat (ucast (vd_payload pad_value) :: u32)
                 in vd_kind pad_value = InstResult \<and> valid_inst f pad \<and> in_op (inst f pad) = OpEhLandingPad)
         else if op = OpEhTypeId then is_ptr tt (t 0) \<and> ty = types_I32
         else if op = OpCatchBegin then is_ptr tt (t 0) \<and> ty = types_PTR
         else True)"

definition check_asm_inst :: "air_module \<Rightarrow> air_function \<Rightarrow> inst_id \<Rightarrow> bool" where
  "check_asm_inst m f i \<longleftrightarrow>
     (let data = inst f i; ops = operands f i; payload = (\<lambda>a. unat (ucast a :: u32))
      in if in_op data = OpVaStart
         then is_ptr (ma_types m) (op_type f i 0) \<and> sd_is_variadic (signature_of (ma_types m) (fn_sig f))
         else if in_op data = OpInlineAsm
         then payload (in_aux data) < length (ma_asm_payloads m)
              \<and> (let code = asm_payload_of m (payload (in_aux data))
                 in length (ap_constraints code) = length ops \<and> length (ap_operand_types code) = length ops
                  \<and> (ap_register_bindings code = [] \<or> length (ap_register_bindings code) = length ops))
         else True)"

section \<open>Control flow\<close>

definition check_block_call :: "air_function \<Rightarrow> bool \<Rightarrow> bool \<Rightarrow> block_call_id \<Rightarrow> bool" where
  "check_block_call f allow_args allow_landing_pad c \<longleftrightarrow>
     (if \<not> valid_block_call f c then False
      else
        let target = bc_target (block_call_of f c)
        in if \<not> valid_block f target then False
           else target \<noteq> fn_entry_block f
              \<and> \<not> (block_begins_with f target OpEhLandingPad \<and> \<not> allow_landing_pad)
              \<and> (let args = block_call_args f c; params = block_params f target
                 in if \<not> allow_args \<and> args \<noteq> [] then False
                    else if length args \<noteq> length params then False
                    else list_all2 (\<lambda>a p. valid_value f a \<and> value_type f a = value_type f p) args params))"

definition check_paramless_call :: "air_function \<Rightarrow> block_call_id \<Rightarrow> bool" where
  "check_paramless_call f c \<longleftrightarrow>
     check_block_call f False False c
     \<and> \<not> (valid_block_call f c \<and> valid_block f (bc_target (block_call_of f c))
          \<and> bd_param_count (block f (bc_target (block_call_of f c))) \<noteq> 0)"

definition check_flow_inst :: "air_module \<Rightarrow> air_function \<Rightarrow> inst_id \<Rightarrow> bool" where
  "check_flow_inst m f i \<longleftrightarrow>
     (let data = inst f i; op = in_op data; t = op_type f i; ops = operands f i; tt = ma_types m;
          low = (\<lambda>a. unat (aux_low a)); high = (\<lambda>a. unat (aux_high a)); sig = signature_of tt (fn_sig f)
      in if op = OpJump then check_block_call f True False (low (in_aux data))
         else if op = OpBrIf then t 0 = types_I8 \<and> check_block_call f True False (low (in_aux data)) \<and> check_block_call f True False (high (in_aux data))
         else if op = OpSwitch
         then is_int tt (t 0) \<and> check_block_call f True False (low (in_aux data))
              \<and> (if length (fn_jump_tables f) \<le> high (in_aux data) then False
                 else distinct (map sc_value (jump_table f (high (in_aux data))))
                    \<and> list_all (\<lambda>c. check_block_call f True False (sc_target c)) (jump_table f (high (in_aux data))))
         else if op = OpAsmGoto
         then (if length (ma_asm_payloads m) \<le> low (in_aux data) then False
               else length (ap_constraints (asm_payload_of m (low (in_aux data)))) = length ops
                  \<and> length (ap_operand_types (asm_payload_of m (low (in_aux data)))) = length ops
                  \<and> (if length (fn_block_call_lists f) \<le> low (in_aux2 data) then False
                     else block_call_list f (low (in_aux2 data)) \<noteq> [] \<and> list_all (check_paramless_call f) (block_call_list f (low (in_aux2 data)))))
         else if op = OpBrIndirect
         then is_ptr tt (t 0)
              \<and> (if length (fn_block_call_lists f) \<le> low (in_aux data) then False
                 else block_call_list f (low (in_aux data)) \<noteq> [] \<and> list_all (check_paramless_call f) (block_call_list f (low (in_aux data))))
         else if op = OpRet
         then (case sd_ret_class sig of
                 RetVoid \<Rightarrow> ops = []
               | RetIndirectSret \<Rightarrow> ops = []
               | RetScalar \<Rightarrow> length ops = 1 \<and> t 0 = sd_ret_type sig
               | RetIntPair \<Rightarrow> length ops = 1 \<and> is_ptr tt (t 0)
               | RetHfa \<Rightarrow> length ops = 1 \<and> is_ptr tt (t 0))
         else if op = OpThrow
         then (length ops = 2 \<or> length ops = 3) \<and> is_ptr tt (t 0) \<and> is_ptr tt (t 1) \<and> (length ops = 3 \<longrightarrow> is_ptr tt (t 2))
         else if op = OpResume then is_ptr tt (t 0) \<and> t 1 = types_I32
         else True)"

section \<open>Calls\<close>

definition has_trailing_dest :: "sig_data \<Rightarrow> bool" where
  "has_trailing_dest sig \<longleftrightarrow> sd_ret_class sig = RetIntPair \<or> sd_ret_class sig = RetHfa"

definition check_call_args :: "type_table \<Rightarrow> air_function \<Rightarrow> sig_data \<Rightarrow> value_id list \<Rightarrow> bool" where
  "check_call_args tt f sig args \<longleftrightarrow>
     (let fixed = length (sd_params sig); dest = (if has_trailing_dest sig then 1 else 0); required = fixed + dest
      in if (if sd_is_variadic sig then length args < required else length args \<noteq> required) then False
         else (\<forall>a < fixed. value_type f (args ! a) = sp_type (sd_params sig ! a))
            \<and> (\<forall>a \<in> set [fixed..<length args - dest]. check_value_type tt (value_type f (args ! a)))
            \<and> \<not> (has_trailing_dest sig \<and> \<not> is_ptr tt (value_type f (args ! (length args - 1)))))"

definition check_call_result :: "air_function \<Rightarrow> inst_id \<Rightarrow> sig_data \<Rightarrow> bool" where
  "check_call_result f i sig \<longleftrightarrow>
     (let data = inst f i
      in if sd_ret_class sig = RetScalar then in_result data \<noteq> 0 \<and> in_type data = sd_ret_type sig
         else in_result data = 0)"

definition check_unwind :: "air_function \<Rightarrow> u64 \<Rightarrow> bool" where
  "check_unwind f aux2 \<longleftrightarrow>
     (let unwind = unat (aux_high aux2)
      in check_block_call f True False (unat (aux_low aux2)) \<and> check_block_call f True True unwind
       \<and> \<not> (valid_block_call f unwind \<and> valid_block f (bc_target (block_call_of f unwind))
            \<and> \<not> block_begins_with f (bc_target (block_call_of f unwind)) OpEhLandingPad))"

definition check_call_inst :: "air_module \<Rightarrow> air_function \<Rightarrow> inst_id \<Rightarrow> bool" where
  "check_call_inst m f i \<longleftrightarrow>
     (let data = inst f i; op = in_op data; ops = operands f i; tt = ma_types m; index = (\<lambda>a. unat (ucast a :: u32))
      in if op \<in> {OpCall, OpInvoke}
         then (if \<not> valid_func m (index (in_aux data)) then False
               else let sig = signature_of tt (fn_sig (function_of m (index (in_aux data))))
                    in check_call_args tt f sig ops \<and> check_call_result f i sig \<and> (op = OpInvoke \<longrightarrow> check_unwind f (in_aux2 data)))
         else if op \<in> {OpCallIndirect, OpTailCallIndirect, OpInvokeIndirect}
         then (if \<not> sig_valid tt (index (in_aux data)) then False
               else if ops = [] then False
               else let sig = signature_of tt (index (in_aux data))
                    in is_ptr tt (op_type f i 0) \<and> check_call_args tt f sig (tl ops)
                     \<and> (if op = OpTailCallIndirect then sd_ret_class sig = RetVoid else check_call_result f i sig)
                     \<and> (op = OpInvokeIndirect \<longrightarrow> check_unwind f (in_aux2 data)))
         else True)"

text \<open>All the rules for one instruction; those of the opcode are reached when the operands are in order.\<close>

definition check_inst :: "air_module \<Rightarrow> air_function \<Rightarrow> inst_id \<Rightarrow> bool" where
  "check_inst m f i \<longleftrightarrow>
     check_value_inst (ma_pointer_width m) (ma_types m) f i
     \<and> check_memory_inst (ma_pointer_width m) (ma_types m) f i \<and> check_atomic_inst (ma_types m) f i
     \<and> check_eh_inst m f i \<and> check_asm_inst m f i \<and> check_flow_inst m f i \<and> check_call_inst m f i"

section \<open>Dominance\<close>

text \<open>Every check runs, whether another one failed or not.\<close>

fun check_all :: "('a \<Rightarrow> bool option) \<Rightarrow> 'a list \<Rightarrow> bool option" where
  "check_all check [] = Some True"
| "check_all check (x # xs) =
     (case check x of
        None \<Rightarrow> None
      | Some ok \<Rightarrow> (case check_all check xs of None \<Rightarrow> None | Some rest \<Rightarrow> Some (ok \<and> rest)))"

text \<open>The positions \<open>check_block_layout\<close> records, a later block's before an earlier one's.\<close>

definition inst_positions :: "air_function \<Rightarrow> (block_id \<times> inst_id list) list \<Rightarrow> inst_id \<Rightarrow> nat option" where
  "inst_positions f layout =
     map_of (concat (map (\<lambda>(b, insts). if bd_last (block f b) = 0 then [] else map (\<lambda>(pos, i). (i, pos)) (enumerate 0 insts))
       (rev layout)))"

definition check_use :: "domtree \<Rightarrow> air_function \<Rightarrow> (inst_id \<Rightarrow> nat option) \<Rightarrow> block_id \<Rightarrow> nat \<Rightarrow> value_id \<Rightarrow> bool option" where
  "check_use t f inst_pos use_block use_pos v =
     (if \<not> valid_value f v then Some True
      else
        let data = value_of f v
        in if vd_kind data = InstResult then
             let def = def_inst f v; def_block = in_block (inst f def)
             in if \<not> valid_inst f def then None
                else if def_block = 0 then Some False
                else if def_block = use_block then map_option (\<lambda>def_pos. def_pos < use_pos) (inst_pos def)
                else dominates t def_block use_block
           else if vd_kind data = BlockParam then
             let def_block = unat (ucast (vd_payload data) :: u32)
             in if def_block \<noteq> use_block then dominates t def_block use_block else Some True
           else Some True)"

definition check_inst_uses :: "domtree \<Rightarrow> air_function \<Rightarrow> (inst_id \<Rightarrow> nat option) \<Rightarrow> block_id \<Rightarrow> inst_id \<Rightarrow> bool option" where
  "check_inst_uses t f inst_pos b i =
     (case inst_pos i of
        None \<Rightarrow> None
      | Some use_pos \<Rightarrow>
          (case read_successors f i of
             None \<Rightarrow> None
           | Some succs \<Rightarrow>
               check_all (check_use t f inst_pos b use_pos) (operands f i @ concat (map (block_call_args f) succs))))"

definition check_block_dominance :: "domtree \<Rightarrow> air_function \<Rightarrow> (inst_id \<Rightarrow> nat option) \<Rightarrow> block_id \<times> inst_id list \<Rightarrow> bool option" where
  "check_block_dominance t f inst_pos bi =
     (case bi of (b, insts) \<Rightarrow>
        if \<not> reachable t b then Some True else check_all (check_inst_uses t f inst_pos b) insts)"

section \<open>Functions\<close>

fun block_layout :: "air_function \<Rightarrow> block_id list \<Rightarrow> (block_id \<times> inst_id list) list option" where
  "block_layout f [] = Some []"
| "block_layout f (b # bs) =
     (case inst_order f b of
        None \<Rightarrow> None
      | Some insts \<Rightarrow> map_option ((#) (b, insts)) (block_layout f bs))"

definition check_body :: "air_module \<Rightarrow> air_function \<Rightarrow> (block_id \<times> inst_id list) list \<Rightarrow> bool" where
  "check_body m f layout \<longleftrightarrow>
     check_entry_signature (signature_of (ma_types m) (fn_sig f)) f
     \<and> list_all (check_block_layout (ma_types m) f) layout
     \<and> list_all (\<lambda>(b, insts). list_all (check_inst m f) insts) layout"

definition verify_function :: "air_module \<Rightarrow> air_function \<Rightarrow> bool option" where
  "verify_function m f =
     (let sig_ok = check_signature (ma_types m) (signature_of (ma_types m) (fn_sig f))
      in if is_declaration f then Some sig_ok
         else
           (case block_order f of
              None \<Rightarrow> None
            | Some bs \<Rightarrow>
                (case block_layout f bs of
                   None \<Rightarrow> None
                 | Some layout \<Rightarrow>
                     (case compute f of
                        None \<Rightarrow> None
                      | Some t \<Rightarrow>
                          map_option (\<lambda>dom_ok. sig_ok \<and> check_body m f layout \<and> dom_ok)
                            (check_all (check_block_dominance t f (inst_positions f layout)) layout)))))"

section \<open>Modules\<close>

definition check_cstring :: "global_init \<Rightarrow> bool" where
  "check_cstring init \<longleftrightarrow>
     (if gi_kind init \<noteq> InitBytes \<or> gi_bytes init = [] then False
      else last (gi_bytes init) = 0 \<and> 0 \<notin> set (butlast (gi_bytes init)) \<and> gi_relocs init = [])"

text \<open>The sum of the offset and the pointer size is computed modulo \<open>2 ^ 64\<close>.\<close>

definition check_reloc :: "air_module \<Rightarrow> u8 list \<Rightarrow> init_reloc \<Rightarrow> bool" where
  "check_reloc m bytes reloc \<longleftrightarrow>
     (let ptr_size = of_nat (ptr_size_bytes m)
      in (if rl_is_function reloc then valid_func m (rl_target_index reloc) else valid_global m (rl_target_index reloc))
       \<and> \<not> (rl_offset reloc + ptr_size > of_nat (length bytes))
       \<and> rl_offset reloc mod ptr_size = 0)"

definition check_global :: "air_module \<Rightarrow> global_data \<Rightarrow> bool" where
  "check_global m data \<longleftrightarrow>
     \<not> (gd_align_bytes data = 0 \<or> gd_align_bytes data AND (gd_align_bytes data - 1) \<noteq> 0)
     \<and> \<not> (gd_linkage data = LinkCommon \<and> gi_kind (gd_init data) = InitBytes)
     \<and> (gd_section data = SecCstring \<longrightarrow> check_cstring (gd_init data))
     \<and> (if gi_kind (gd_init data) \<noteq> InitBytes then gi_bytes (gd_init data) = [] \<and> gi_relocs (gd_init data) = []
        else of_nat (length (gi_bytes (gd_init data))) = gd_size_bytes data
           \<and> list_all (check_reloc m (gi_bytes (gd_init data))) (gi_relocs (gd_init data)))"

definition check_ctor :: "air_module \<Rightarrow> ctor_entry \<Rightarrow> bool" where
  "check_ctor m ctor \<longleftrightarrow> valid_func m (ce_func ctor) \<and> \<not> is_declaration (function_of m (ce_func ctor))"

definition symbol_names :: "air_module \<Rightarrow> string list" where
  "symbol_names m =
     map (\<lambda>i. fn_name (function_of m i)) [1..<function_count m + 1] @ map (\<lambda>i. gd_name (global_of m i)) [1..<global_count m + 1]"

definition verify_module :: "air_module \<Rightarrow> bool option" where
  "verify_module m =
     map_option (\<lambda>ok. distinct (symbol_names m) \<and> list_all (\<lambda>i. check_global m (global_of m i)) [1..<global_count m + 1]
         \<and> list_all (check_ctor m) (ma_ctors m) \<and> ok)
       (check_all (\<lambda>i. verify_function m (function_of m i)) [1..<function_count m + 1])"

end
