(* ===== verification/Air_Verify_Correct.thy ===== *)
theory Air_Verify_Correct
  imports Air_Verify_Function Air_Cfg_Correct
begin

text \<open>
  What acceptance by the verifier guarantees: the layout, targets and arguments of branches that
  the control-flow passes rely on, and the order of definitions and uses.
\<close>

section \<open>Branches\<close>

text \<open>An edge leads to a block other than the entry with arguments of the types of its parameters.\<close>

definition sound_edge :: "air_function \<Rightarrow> block_call_id \<Rightarrow> bool" where
  "sound_edge f c \<longleftrightarrow>
     valid_block_call f c \<and> valid_block f (call_target f c) \<and> call_target f c \<noteq> fn_entry_block f
     \<and> list_all2 (\<lambda>a p. valid_value f a \<and> value_type f a = value_type f p) (block_call_args f c) (block_params f (call_target f c))"

lemma check_block_call_edge: "check_block_call f allow_args allow_pad c \<Longrightarrow> sound_edge f c"
  by (simp add: check_block_call_def sound_edge_def call_target_def Let_def split: if_splits)

lemma check_inst_edges:
  assumes "check_inst m f i" "c \<in> set (successors f i)"
  shows "sound_edge f c"
proof -
  have "check_flow_inst m f i" "check_call_inst m f i"
    using assms(1) by (simp_all add: check_inst_def)
  then have "\<exists>allow_args allow_pad. check_block_call f allow_args allow_pad c"
    using assms(2)
    by (auto simp: successors_def check_flow_inst_def check_call_inst_def check_unwind_def check_paramless_call_def aux_low_def
        Let_def list_all_iff split: if_splits)
  then show ?thesis
    using check_block_call_edge by blast
qed

lemma check_inst_tables:
  assumes "check_inst m f i"
  shows "read_successors f i = Some (successors f i)"
proof -
  have "check_flow_inst m f i"
    using assms by (simp add: check_inst_def)
  then have "tables_ok f i"
    by (auto simp: tables_ok_def check_flow_inst_def aux_low_def Let_def split: if_splits)
  then show ?thesis
    using check_inst_edges [OF assms] by (simp add: read_successors_def sound_edge_def)
qed

section \<open>Acceptance\<close>

lemma block_layout_lists:
  assumes "\<And>b. b \<in> set bs \<Longrightarrow> inst_order f b = Some (L b)"
  shows "block_layout f bs = Some (map (\<lambda>b. (b, L b)) bs)"
  using assms by (induction bs) simp_all

lemma check_all_True: "check_all check xs = Some True \<longleftrightarrow> (\<forall>x \<in> set xs. check x = Some True)"
  by (induction xs) (auto split: option.split)

definition layout_of :: "block_id list \<Rightarrow> (block_id \<Rightarrow> inst_id list) \<Rightarrow> (block_id \<times> inst_id list) list" where
  "layout_of bs L = map (\<lambda>b. (b, L b)) bs"

lemma verify_function_stages:
  assumes inv: "fn_inv f bs L"
  shows "block_order f = Some bs" "block_layout f bs = Some (layout_of bs L)"
proof -
  show "block_order f = Some bs"
    using inv by (auto simp: fn_inv_def intro: block_order_blocks)
  show "block_layout f bs = Some (layout_of bs L)"
    unfolding layout_of_def using fn_invD [OF inv] by (intro block_layout_lists inst_order_lists) auto
qed

lemma verify_function_accepts:
  assumes ok: "verify_function m f = Some True" and def: "\<not> is_declaration f" and inv: "fn_inv f bs L"
  obtains t where "compute f = Some t" "check_body m f (layout_of bs L)"
    "\<forall>b \<in> set bs. check_block_dominance t f (inst_positions f (layout_of bs L)) (b, L b) = Some True"
proof -
  note order = verify_function_stages(1) [OF inv] and layout = verify_function_stages(2) [OF inv]
  obtain t where t: "compute f = Some t"
    using ok def order layout by (auto simp: verify_function_def Let_def split: option.splits)
  have "check_body m f (layout_of bs L)"
      "check_all (check_block_dominance t f (inst_positions f (layout_of bs L))) (layout_of bs L) = Some True"
    using ok def order layout t by (auto simp: verify_function_def Let_def)
  then show ?thesis
    using that [OF t] by (simp add: check_all_True) (simp add: layout_of_def)
qed

text \<open>A block call that does not exist, taken at the end of the entry block.\<close>

lemma missing_call:
  assumes inv: "fn_inv f bs L" and entry: "\<not> is_declaration f" "L (fn_entry_block f) \<noteq> []"
    and i: "i = last (L (fn_entry_block f))" "opcode_is_terminator (in_op (inst f i))"
    and c: "c \<in> set (successors f i)" "length (fn_block_calls f) \<le> c"
  shows "collect_successor_blocks f (fn_entry_block f) = None" "compute f = None" "\<not> check_inst m f i"
proof -
  have "fn_entry_block f = first_of bs 0"
    using inv by (simp add: fn_inv_def blocks_inv_def dll_def)
  then have b: "fn_entry_block f \<in> set bs"
    using entry(1) by (cases bs) (simp_all add: is_declaration_def first_of_def)
  note d = lists_invD(2) [OF fn_invD(2,1) [OF inv b]]
  have "0 \<notin> set (L (fn_entry_block f))"
    using d by (simp add: dll_def)
  then have "i \<noteq> 0"
    using i(1) last_in_set [OF entry(2)] by metis
  moreover have "bd_last (block f (fn_entry_block f)) = i"
    using d entry(2) i(1) by (simp add: dll_def last_of_def)
  moreover have "\<not> valid_block_call f c"
    using c(2) by (simp add: valid_block_call_def)
  ultimately show none: "collect_successor_blocks f (fn_entry_block f) = None"
    using fn_invD(1) [OF inv b] i(2) c(1) by (auto simp: collect_successor_blocks_def read_successors_def Let_def)
  show "compute f = None"
    using none entry(1) by (simp add: compute_def is_declaration_def Let_def)
  show "\<not> check_inst m f i"
    using check_inst_edges [of m f i c] c(1) \<open>\<not> valid_block_call f c\<close> by (auto simp: sound_edge_def)
qed

lemma check_body_block:
  assumes "check_body m f (layout_of bs L)" "fn_inv f bs L" "b \<in> set bs"
  shows "L b \<noteq> []" "bd_last (block f b) = last (L b)" "opcode_is_terminator (in_op (inst f (last (L b))))"
    "i \<in> set (L b) \<Longrightarrow> check_inst m f i"
    "i \<in> set (L b) \<Longrightarrow> opcode_is_terminator (in_op (inst f i)) \<Longrightarrow> i = last (L b)"
proof -
  have c: "check_block_layout (ma_types m) f (b, L b)" and ins: "list_all (check_inst m f) (L b)"
    using assms(1,3) by (auto simp: check_body_def layout_of_def list_all_iff)
  show "check_inst m f i" if "i \<in> set (L b)"
    using ins that by (simp add: list_all_iff)
  have l: "bd_last (block f b) \<noteq> 0"
    using c by (simp add: check_block_layout_def)
  note d = lists_invD(2) [OF fn_invD(2,1) [OF assms(2,3)]]
  then show ne: "L b \<noteq> []"
    using l by (auto simp: dll_def)
  then show last: "bd_last (block f b) = last (L b)"
    using d by (simp add: dll_def last_of_def)
  show "opcode_is_terminator (in_op (inst f (last (L b))))"
    using c last by (simp add: check_block_layout_def)
  show "i = last (L b)" if i: "i \<in> set (L b)" and ends: "opcode_is_terminator (in_op (inst f i))"
  proof -
    obtain k where k: "k < length (L b)" "L b ! k = i"
      using i by (auto simp: in_set_conv_nth)
    then have "(k, i) \<in> set (enumerate 0 (L b))"
      by (auto simp: in_set_enumerate_eq)
    then have "check_layout_inst f b (k, i)"
      using c unfolding check_block_layout_def list_all_iff by auto
    then show ?thesis
      using ends last by (simp add: check_layout_inst_def)
  qed
qed

lemma verified_cfg_inv:
  assumes ok: "verify_function m f = Some True" and def: "\<not> is_declaration f" and inv: "fn_inv f bs L"
    and linked: "\<forall>b. valid_block f b \<longrightarrow> b \<in> set bs" and labels: "set (label_targets f) \<subseteq> set bs"
  shows "cfg_inv f bs L"
proof -
  obtain t where body: "check_body m f (layout_of bs L)"
    by (rule verify_function_accepts [OF ok def inv])
  have "bs \<noteq> []"
    using inv def by (auto simp: fn_inv_def blocks_inv_def is_declaration_def dll_def)
  moreover have "valid_block_call f c \<and> call_target f c \<in> set bs"
    if b: "b \<in> set bs" and c: "c \<in> set (snd (flow_of f L b))" for b c
  proof -
    note blk = check_body_block [OF body inv b]
    have "check_inst m f (last (L b))"
      using blk(1,4) by simp
    then have "sound_edge f c"
      using c by (intro check_inst_edges) (simp_all add: flow_of_def)
    then show ?thesis
      using linked by (simp add: sound_edge_def)
  qed
  ultimately show ?thesis
    using inv labels check_body_block(1) [OF body inv] by (simp add: cfg_inv_def)
qed

end
