(* ===== verification/Dominance.thy ===== *)
theory Dominance
  imports Main
begin

text \<open>
  Dominance in a flow graph, and why iterating immediate dominators over an ordering of the nodes
  finds it. The ordering need only give every node but the entry an edge from an earlier one.
\<close>

section \<open>Paths and dominance\<close>

inductive flow_path :: "(nat \<Rightarrow> nat \<Rightarrow> bool) \<Rightarrow> nat \<Rightarrow> nat list \<Rightarrow> nat \<Rightarrow> bool" for edge entry where
  start: "flow_path edge entry [entry] entry"
| step: "flow_path edge entry xs p \<Longrightarrow> edge p b \<Longrightarrow> flow_path edge entry (xs @ [b]) b"

text \<open>Every path from the entry to \<open>b\<close> goes through \<open>a\<close>.\<close>

definition on_all_paths :: "(nat \<Rightarrow> nat \<Rightarrow> bool) \<Rightarrow> nat \<Rightarrow> nat \<Rightarrow> nat \<Rightarrow> bool" where
  "on_all_paths edge entry a b \<longleftrightarrow> (\<forall>xs. flow_path edge entry xs b \<longrightarrow> a \<in> set xs)"

lemma on_all_paths_pred:
  "on_all_paths edge entry d b \<Longrightarrow> d \<noteq> b \<Longrightarrow> edge p b \<Longrightarrow> on_all_paths edge entry d p"
  unfolding on_all_paths_def using flow_path.step by fastforce

lemma on_all_paths_entry: "on_all_paths edge entry d entry \<longleftrightarrow> d = entry"
proof
  show "d = entry" if "on_all_paths edge entry d entry"
    using that flow_path.start [of edge entry] by (auto simp: on_all_paths_def)
  have "flow_path edge entry xs b \<Longrightarrow> entry \<in> set xs" for xs b
    by (induction rule: flow_path.induct) auto
  then show "on_all_paths edge entry d entry" if "d = entry"
    using that by (simp add: on_all_paths_def)
qed

section \<open>Chains of a tree\<close>

text \<open>\<open>up I x y\<close>: following \<open>I\<close> from \<open>x\<close> arrives at \<open>y\<close>.\<close>

inductive up :: "(nat \<Rightarrow> nat) \<Rightarrow> nat \<Rightarrow> nat \<Rightarrow> bool" for I where
  here: "up I x x"
| there: "up I (I x) y \<Longrightarrow> up I x y"

lemma up_parent: "up I x (I x)"
  by (rule up.there, rule up.here)

lemma up_trans: "up I x y \<Longrightarrow> up I y z \<Longrightarrow> up I x z"
  by (induction rule: up.induct) (auto intro: up.there)

lemma up_fixed: "up I x y \<Longrightarrow> I x = x \<Longrightarrow> y = x"
  by (induction rule: up.induct) auto

lemma up_unfold: "up I x y \<longleftrightarrow> y = x \<or> up I (I x) y"
  by (subst up.simps) auto

text \<open>\<open>merged I P r\<close>: the nodes above \<open>r\<close> are those above all of \<open>P\<close>.\<close>

definition merged :: "(nat \<Rightarrow> nat) \<Rightarrow> nat set \<Rightarrow> nat \<Rightarrow> bool" where
  "merged I P r \<longleftrightarrow> (\<forall>z. up I r z \<longleftrightarrow> (\<forall>p \<in> P. up I p z))"

lemma merged_one: "merged I {p} p"
  by (simp add: merged_def)

lemma merged_insert: "merged I P r \<Longrightarrow> merged I {r, p} r' \<Longrightarrow> merged I (insert p P) r'"
  by (auto simp: merged_def)

lemma merged_above: "merged I P r \<Longrightarrow> p \<in> P \<Longrightarrow> up I p r"
  by (auto simp: merged_def intro: up.here)

section \<open>Iteration over an ordering\<close>

locale ordered_flow =
  fixes N :: "nat set" and edge :: "nat \<Rightarrow> nat \<Rightarrow> bool" and entry :: nat and ix :: "nat \<Rightarrow> nat"
  assumes finite_nodes: "finite N"
    and entry_node: "entry \<in> N"
    and no_zero: "0 \<notin> N"
    and edge_closed: "p \<in> N \<Longrightarrow> edge p b \<Longrightarrow> b \<in> N"
    and ix_inj: "inj_on ix N"
    and earlier: "b \<in> N \<Longrightarrow> b \<noteq> entry \<Longrightarrow> \<exists>p \<in> N. edge p b \<and> ix p < ix b"
begin

abbreviation dom :: "nat \<Rightarrow> nat \<Rightarrow> bool" where
  "dom \<equiv> on_all_paths edge entry"

lemma node_pos: "b \<in> N \<Longrightarrow> 0 < b"
  using no_zero by (cases b) auto

lemma entry_least: "b \<in> N \<Longrightarrow> ix entry \<le> ix b"
proof (induction "ix b" arbitrary: b rule: less_induct)
  case less
  show ?case
  proof (cases "b = entry")
    case False
    then obtain p where "p \<in> N" "ix p < ix b"
      using earlier [OF less.prems] by blast
    then show ?thesis
      using less.hyps [of p] by simp
  qed simp
qed

lemma nodes_reached: "b \<in> N \<Longrightarrow> \<exists>xs. flow_path edge entry xs b \<and> (\<forall>x \<in> set xs. ix x \<le> ix b)"
proof (induction "ix b" arbitrary: b rule: less_induct)
  case less
  show ?case
  proof (cases "b = entry")
    case True
    then show ?thesis
      by (intro exI [of _ "[entry]"]) (simp add: flow_path.start)
  next
    case False
    then obtain p where p: "p \<in> N" "edge p b" "ix p < ix b"
      using earlier less.prems by blast
    then obtain xs where "flow_path edge entry xs p" "\<forall>x \<in> set xs. ix x \<le> ix p"
      using less.hyps by blast
    then show ?thesis
      using p by (intro exI [of _ "xs @ [b]"]) (auto intro: flow_path.step)
  qed
qed

lemma path_nodes: "flow_path edge entry xs b \<Longrightarrow> b \<in> N \<and> set xs \<subseteq> N"
  by (induction rule: flow_path.induct) (use entry_node edge_closed in auto)

lemma reached_nodes: "b \<in> N \<longleftrightarrow> (\<exists>xs. flow_path edge entry xs b)"
  using nodes_reached path_nodes by blast

lemma dom_earlier: "b \<in> N \<Longrightarrow> dom d b \<Longrightarrow> ix d \<le> ix b"
  using nodes_reached unfolding on_all_paths_def by blast

text \<open>
  The state of the iteration: a node not yet met has 0, every other one an earlier node which has
  been met, and no strict dominator of a node is skipped.
\<close>

definition tree :: "(nat \<Rightarrow> nat) \<Rightarrow> bool" where
  "tree I \<longleftrightarrow> I entry = entry \<and>
     (\<forall>b \<in> N - {entry}. I b \<noteq> 0 \<longrightarrow> I b \<in> N \<and> I (I b) \<noteq> 0 \<and> ix (I b) < ix b \<and> (\<forall>d. dom d b \<longrightarrow> d \<noteq> b \<longrightarrow> dom d (I b)))"

definition met :: "(nat \<Rightarrow> nat) \<Rightarrow> nat \<Rightarrow> bool" where
  "met I b \<longleftrightarrow> b \<in> N \<and> I b \<noteq> 0"

lemma treeD:
  assumes "tree I" "met I b" "b \<noteq> entry"
  shows "met I (I b)" "ix (I b) < ix b" "dom d b \<Longrightarrow> d \<noteq> b \<Longrightarrow> dom d (I b)"
  using assms by (auto simp: tree_def met_def)

lemma tree_entry [simp]: "tree I \<Longrightarrow> I entry = entry" "tree I \<Longrightarrow> met I entry"
  using entry_node node_pos by (auto simp: tree_def met_def)

lemma up_met: "up I x y \<Longrightarrow> tree I \<Longrightarrow> met I x \<Longrightarrow> met I y \<and> ix y \<le> ix x"
proof (induction rule: up.induct)
  case (there x y)
  then show ?case
    using treeD [of I x] tree_entry(1) [of I] by (cases "x = entry") force+
qed simp

lemma up_entry: "tree I \<Longrightarrow> met I x \<Longrightarrow> up I x entry"
proof (induction "ix x" arbitrary: x rule: less_induct)
  case less
  then show ?case
    using treeD [of I x] up.there [of I x entry] up.here by (cases "x = entry") blast+
qed

text \<open>Chains depend only on what is earlier.\<close>

lemma up_cong:
  assumes "up I x y" "tree I" "met I x" "\<And>z. z \<in> N \<Longrightarrow> ix z \<le> ix x \<Longrightarrow> I' z = I z"
  shows "up I' x y"
  using assms
proof (induction rule: up.induct)
  case (there x y)
  have "met I (I x) \<and> ix (I x) \<le> ix x"
    using up_met [of I x "I x"] there.prems by (simp add: up.there up.here)
  then have "up I' (I x) y"
    using there by (intro there.IH) auto
  then show ?case
    using there.prems by (auto simp: met_def intro: up.there)
qed (rule up.here)

text \<open>A dominator of a node is above it, and dominates whatever is between.\<close>

lemma dom_up: "tree I \<Longrightarrow> met I x \<Longrightarrow> dom d x \<Longrightarrow> up I x d"
proof (induction "ix x" arbitrary: x rule: less_induct)
  case less
  show ?case
  proof (cases "x = entry \<or> d = x")
    case True
    then show ?thesis
      using less.prems by (auto simp: on_all_paths_entry intro: up.here)
  next
    case False
    then show ?thesis
      using treeD [OF less.prems(1,2)] less by (blast intro: up.there)
  qed
qed

lemma dom_between: "up I x y \<Longrightarrow> tree I \<Longrightarrow> met I x \<Longrightarrow> dom d x \<Longrightarrow> ix d \<le> ix y \<Longrightarrow> dom d y"
proof (induction rule: up.induct)
  case (there x y)
  show ?case
  proof (cases "x = entry")
    case True
    then show ?thesis
      using there by simp
  next
    case False
    note x = treeD [OF there.prems(1,2) False]
    have "d \<noteq> x"
      using up_met [OF there.hyps there.prems(1) x(1)] x(2) there.prems(4) by auto
    then show ?thesis
      using there.IH [OF there.prems(1) x(1) x(3) [OF there.prems(3)]] there.prems(4) by blast
  qed
qed simp

section \<open>One node\<close>

text \<open>Moving a node below the nodes above all the predecessors that have been met.\<close>

definition met_preds :: "(nat \<Rightarrow> nat) \<Rightarrow> nat \<Rightarrow> nat set" where
  "met_preds I b = {p. met I p \<and> edge p b}"

lemma tree_update:
  assumes t: "tree I" and b: "b \<in> N" "b \<noteq> entry" and r: "merged I (met_preds I b) r"
    and p: "p \<in> met_preds I b" "ix p < ix b"
  shows "tree (I(b := r))" "met I r" "ix r < ix b"
proof -
  have above: "up I q r" if "q \<in> met_preds I b" for q
    using merged_above [OF r that] .
  show m: "met I r" and lt: "ix r < ix b"
    using up_met [OF above [OF p(1)] t] p by (auto simp: met_preds_def)
  have "dom d r" if d: "dom d b" "d \<noteq> b" for d
  proof -
    have dq: "dom d q" "met I q" if "q \<in> met_preds I b" for q
      using that d on_all_paths_pred [OF d] by (auto simp: met_preds_def)
    then have "up I r d"
      using dom_up [OF t] r unfolding merged_def by blast
    then have "ix d \<le> ix r"
      using up_met [OF _ t m] by blast
    then show ?thesis
      using dom_between [OF above [OF p(1)] t] dq [OF p(1)] by blast
  qed
  then show "tree (I(b := r))"
    using t b m lt node_pos [of r] by (auto simp: tree_def met_def)
qed

section \<open>One round\<close>

text \<open>
  A round visits the nodes in order: when \<open>b\<close> is visited the earlier nodes have their new parent
  already, the others still their old one.
\<close>

definition mix :: "(nat \<Rightarrow> nat) \<Rightarrow> (nat \<Rightarrow> nat) \<Rightarrow> nat \<Rightarrow> nat \<Rightarrow> nat" where
  "mix I J b x = (if ix x < ix b then J x else I x)"

definition round :: "(nat \<Rightarrow> nat) \<Rightarrow> (nat \<Rightarrow> nat) \<Rightarrow> bool" where
  "round I J \<longleftrightarrow> (\<forall>b \<in> N - {entry}. merged (mix I J b) (met_preds (mix I J b) b) (J b))"

definition full :: "(nat \<Rightarrow> nat) \<Rightarrow> bool" where
  "full I \<longleftrightarrow> tree I \<and> (\<forall>b \<in> N. met I b)"

lemma fullD [simp]: "full I \<Longrightarrow> tree I" "full I \<Longrightarrow> b \<in> N \<Longrightarrow> met I b" "full I \<Longrightarrow> b \<in> N \<Longrightarrow> 0 < I b"
  by (simp_all add: full_def met_def)

lemma full_step:
  assumes "full I" "b \<in> N" "b \<noteq> entry"
  shows "I b \<in> N" "ix (I b) < ix b"
  using treeD [of I b] assms by (simp_all add: met_def)

lemma full_up: "full I \<Longrightarrow> x \<in> N \<Longrightarrow> up I x y \<Longrightarrow> y \<in> N \<and> ix y \<le> ix x"
  using up_met [of I x y] by (simp add: met_def)

lemma tree_mix:
  assumes "tree I" "full J"
  shows "tree (mix I J b)"
  unfolding tree_def
proof (intro conjI ballI impI)
  show "mix I J b entry = entry"
    using assms by (simp add: mix_def)
next
  fix x
  assume x: "x \<in> N - {entry}" "mix I J b x \<noteq> 0"
  then have "met (mix I J b) (mix I J b x) \<and> ix (mix I J b x) < ix x \<and> (\<forall>d. dom d x \<longrightarrow> d \<noteq> x \<longrightarrow> dom d (mix I J b x))"
  proof (cases "ix x < ix b")
    case True
    note J = treeD [OF fullD(1) [OF assms(2)], of x]
    have "mix I J b x = J x"
      using True by (simp add: mix_def)
    moreover have "mix I J b (J x) = J (J x)" "met J x" "x \<noteq> entry"
      using True x assms(2) J(2) by (simp_all add: mix_def)
    ultimately show ?thesis
      using J by (simp add: met_def)
  next
    case False
    then have mx: "mix I J b x = I x"
      by (simp add: mix_def)
    then have "met I x" "x \<noteq> entry"
      using x by (simp_all add: met_def)
    note I = treeD [OF assms(1) this]
    have "met (mix I J b) (I x)"
      using I(1) assms(2) by (simp add: mix_def met_def)
    then show ?thesis
      using I(2,3) unfolding mx by blast
  qed
  then show "mix I J b x \<in> N" "mix I J b (mix I J b x) \<noteq> 0" "ix (mix I J b x) < ix x"
    "\<forall>d. dom d x \<longrightarrow> d \<noteq> x \<longrightarrow> dom d (mix I J b x)"
    by (simp_all add: met_def)
qed

lemma up_mix:
  assumes "tree I" "full J" "x \<in> N" "ix x < ix b"
  shows "up (mix I J b) x y \<longleftrightarrow> up J x y"
proof
  assume "up J x y"
  then show "up (mix I J b) x y"
  proof (rule up_cong)
    show "mix I J b z = J z" if "ix z \<le> ix x" for z
      using that assms(4) by (simp add: mix_def)
  qed (use assms in simp_all)
next
  assume "up (mix I J b) x y"
  then show "up J x y"
  proof (rule up_cong)
    show "J z = mix I J b z" if "ix z \<le> ix x" for z
      using that assms(4) by (simp add: mix_def)
    show "met (mix I J b) x"
      using assms by (simp add: mix_def met_def)
  qed (rule tree_mix [OF assms(1,2)])
qed

text \<open>The parent of a node is above its earlier predecessors.\<close>

definition follows :: "(nat \<Rightarrow> nat) \<Rightarrow> bool" where
  "follows J \<longleftrightarrow> (\<forall>b \<in> N - {entry}. \<forall>p \<in> N. edge p b \<longrightarrow> ix p < ix b \<longrightarrow> up J p (J b))"

lemma round_follows:
  assumes "round I J" "tree I" "full J"
  shows "follows J"
  unfolding follows_def
proof (intro ballI impI)
  fix b p
  assume b: "b \<in> N - {entry}" and p: "p \<in> N" "edge p b" "ix p < ix b"
  then have "p \<in> met_preds (mix I J b) b"
    using fullD(2) [OF assms(3) p(1)] by (simp add: met_preds_def mix_def met_def)
  moreover have "merged (mix I J b) (met_preds (mix I J b) b) (J b)"
    using assms(1) b by (simp add: round_def)
  ultimately have "up (mix I J b) p (J b)"
    by (intro merged_above)
  then show "up J p (J b)"
    using up_mix [OF assms(2,3) p(1,3)] by simp
qed

lemma follows_between:
  assumes "follows I" "follows J" "full I" "full J"
    and "x \<in> N" "up I x c" "up J x e" "ix e \<le> ix c"
  shows "up J c e"
  using assms(5-8)
proof (induction "ix x" arbitrary: x rule: less_induct)
  case less
  show ?case
  proof (cases "x = c \<or> x = entry")
    case True
    then show ?thesis
      using less.prems up_fixed [of I x c] assms(3) by auto
  next
    case False
    then obtain p where p: "p \<in> N" "edge p x" "ix p < ix x"
      using earlier less.prems(1) by blast
    have c: "up I (I x) c"
      using less.prems(2) False up_unfold [of I x c] by auto
    then have "ix c < ix x"
      using full_up [OF assms(3) _ c] full_step [OF assms(3) less.prems(1)] False by auto
    then have "up J (J x) e"
      using less.prems(3,4) up_unfold [of J x e] by auto
    then have "up I p c" "up J p e"
      using c assms(1,2) p less.prems(1) False unfolding follows_def by (blast intro: up_trans)+
    then show ?thesis
      using less.hyps p less.prems(4) by blast
  qed
qed

text \<open>The chains of a round are part of those of the round before.\<close>

definition shrinks :: "(nat \<Rightarrow> nat) \<Rightarrow> (nat \<Rightarrow> nat) \<Rightarrow> bool" where
  "shrinks I J \<longleftrightarrow> (\<forall>b \<in> N. \<forall>z. up J b z \<longrightarrow> up I b z)"

lemma up_crosses:
  assumes "up I x z" "ix z < ix b"
  shows "\<exists>c. up (mix I J b) x c \<and> up I x c \<and> ix c < ix b \<and> up I c z"
  using assms
proof (induction rule: up.induct)
  case (there x y)
  then obtain c where c: "up (mix I J b) (I x) c" "up I (I x) c" "ix c < ix b" "up I c y"
    by blast
  show ?case
  proof (cases "ix x < ix b")
    case True
    then show ?thesis
      using there.hyps by (blast intro: up.intros)
  next
    case False
    then have "mix I J b x = I x"
      by (simp add: mix_def)
    then show ?thesis
      using c by (intro exI [of _ c] conjI) (auto intro: up.there)
  qed
qed (blast intro: up.here)

lemma up_mix_next:
  assumes "up (mix J K b) x z" "x \<in> N" "full J" "full K"
    and below: "\<And>c z. c \<in> N \<Longrightarrow> ix c < ix b \<Longrightarrow> up K c z \<Longrightarrow> up J c z"
  shows "up J x z"
  using assms(1,2)
proof (induction rule: up.induct)
  case (there x y)
  show ?case
  proof (cases "ix x < ix b")
    case True
    have "up (mix J K b) x y"
      using there.hyps by (rule up.there)
    then have "up K x y"
      using up_mix [OF fullD(1) [OF assms(3)] assms(4) there.prems True] by blast
    then show ?thesis
      by (rule below [OF there.prems True])
  next
    case False
    then have "mix J K b x = J x"
      by (simp add: mix_def)
    moreover have "J x \<in> N"
      using full_up [OF assms(3) there.prems up_parent] by blast
    ultimately have "up J (J x) y"
      using there.IH by simp
    then show ?thesis
      by (rule up.there)
  qed
qed (rule up.here)

lemma round_shrinks:
  assumes IJ: "round I J" "tree I" and JK: "round J K" and full: "full J" "full K"
    and first: "(\<forall>x \<in> N - {entry}. I x = 0) \<or> (full I \<and> follows I \<and> shrinks I J)"
  shows "shrinks J K"
  unfolding shrinks_def
proof (intro ballI allI impI)
  fix b z
  assume "b \<in> N" "up K b z"
  then show "up J b z"
  proof (induction "ix b" arbitrary: b z rule: less_induct)
    case less
    show ?case
    proof (cases "b = entry \<or> z = b")
      case True
      then show ?thesis
        using up_fixed [OF less.prems(2)] full(2) by (auto intro: up.here)
    next
      case False
      then have b: "b \<in> N - {entry}"
        using less.prems(1) by simp
      have Kb: "K b \<in> N" "ix (K b) < ix b" and Jb: "J b \<in> N" "ix (J b) < ix b"
        using full_step full b by auto
      have z: "up K (K b) z"
        using less.prems(2) False up_unfold [of K b z] by auto
      then have "ix z < ix b"
        using full_up [OF full(2) Kb(1) z] Kb(2) by simp
      have old: "up (mix I J b) p z" if p: "p \<in> met_preds (mix I J b) b" for p
      proof -
        have pN: "p \<in> N" and e: "edge p b"
          using p by (auto simp: met_preds_def met_def)
        have "p \<in> met_preds (mix J K b) b"
          using pN e full by (simp add: met_preds_def met_def mix_def)
        then have "up (mix J K b) p (K b)"
          using JK b merged_above unfolding round_def by blast
        then have new: "up (mix J K b) p z"
          using z up_mix [OF fullD(1) [OF full(1)] full(2) Kb] up_trans by blast
        show ?thesis
        proof (cases "ix p < ix b")
          case True
          then have "up K p z"
            using new up_mix [OF fullD(1) [OF full(1)] full(2) pN True] by blast
          then have "up J p z"
            using less.hyps [OF True pN] by blast
          then show ?thesis
            using up_mix [OF IJ(2) full(1) pN True] by blast
        next
          case late: False
          have "I p \<noteq> 0" "p \<noteq> entry"
            using p late entry_least [OF less.prems(1)] False ix_inj entry_node less.prems(1)
            by (auto simp: met_preds_def met_def mix_def inj_on_def le_less)
          then have I: "full I" "follows I" "shrinks I J"
            using first pN by auto
          have "up J p z"
            by (rule up_mix_next [OF new pN full]) (use less.hyps in blast)
          moreover from this have "up I p z"
            using I(3) pN unfolding shrinks_def by blast
          from up_crosses [OF this \<open>ix z < ix b\<close>, of J] obtain c
            where c: "up (mix I J b) p c" "up I p c" "ix c < ix b" "up I c z"
            by blast
          have cN: "c \<in> N" "ix z \<le> ix c"
            using full_up [OF I(1) pN c(2)] full_up [OF I(1) _ c(4)] by auto
          ultimately have "up J c z"
            using follows_between [OF I(2) round_follows [OF IJ full(1)] I(1) full(1) pN c(2)] by blast
          then show ?thesis
            using up_mix [OF IJ(2) full(1) cN(1) c(3)] c(1) up_trans by blast
        qed
      qed
      have "merged (mix I J b) (met_preds (mix I J b) b) (J b)"
        using IJ(1) b by (simp add: round_def)
      then have "up (mix I J b) (J b) z"
        using old by (simp add: merged_def)
      then show ?thesis
        using up_mix [OF IJ(2) full(1) Jb] by (blast intro: up.there)
    qed
  qed
qed

text \<open>So every round that changes a parent makes it earlier, and there are only so many of them.\<close>

definition weight :: "(nat \<Rightarrow> nat) \<Rightarrow> nat" where
  "weight I = (\<Sum>b \<in> N. ix (I b))"

lemma shrinks_step:
  assumes "shrinks J K" "full J" "full K" "b \<in> N"
  shows "ix (K b) \<le> ix (J b)" "ix (K b) = ix (J b) \<longleftrightarrow> K b = J b"
proof -
  have "ix (K b) \<le> ix (J b) \<and> K b \<in> N \<and> J b \<in> N"
  proof (cases "b = entry")
    case False
    have "up J b (K b)"
      using assms(1,4) up_parent by (simp add: shrinks_def)
    moreover have "K b \<noteq> b"
      using full_step [OF assms(3,4) False] by auto
    ultimately have "up J (J b) (K b)"
      using up_unfold [of J b "K b"] by simp
    then show ?thesis
      using full_up [OF assms(2)] full_step(1) [OF assms(2,4) False] full_step(1) [OF assms(3,4) False] by blast
  qed (use assms entry_node in simp)
  then show "ix (K b) \<le> ix (J b)" "ix (K b) = ix (J b) \<longleftrightarrow> K b = J b"
    using ix_inj by (auto simp: inj_on_def)
qed

lemma shrinks_weight:
  assumes "shrinks J K" "full J" "full K" "b \<in> N" "K b \<noteq> J b"
  shows "weight K < weight J"
  unfolding weight_def
proof (rule sum_strict_mono_ex1)
  show "\<forall>x \<in> N. ix (K x) \<le> ix (J x)" "\<exists>x \<in> N. ix (K x) < ix (J x)"
    using shrinks_step [OF assms(1-3)] assms(4,5) by (auto simp: le_less)
qed (rule finite_nodes)

text \<open>When nothing changes any more the chains are the dominators.\<close>

lemma stable_dominators:
  assumes "round J J" "full J" "b \<in> N"
  shows "up J b a \<longleftrightarrow> dom a b"
proof
  show "up J b a" if "dom a b"
    using dom_up that assms by simp
  have same: "mix J J x = J" for x
    by (rule ext) (simp add: mix_def)
  have "flow_path edge entry xs x \<Longrightarrow> up J x a \<Longrightarrow> a \<in> set xs" for xs x
  proof (induction rule: flow_path.induct)
    case start
    then show ?case
      using up_fixed [of J entry a] assms(2) by simp
  next
    case (step xs p x)
    show ?case
    proof (cases "x = entry \<or> a = x")
      case True
      then show ?thesis
        using step.prems up_fixed [of J entry a] assms(2) by auto
    next
      case False
      have N: "p \<in> N" "x \<in> N"
        using path_nodes [OF step.hyps(1)] edge_closed step.hyps(2) by auto
      then have "p \<in> met_preds J x"
        using assms(2) step.hyps(2) by (simp add: met_preds_def)
      then have "up J p (J x)"
        using assms(1) N False same merged_above unfolding round_def by fastforce
      moreover have "up J (J x) a"
        using step.prems False up_unfold [of J x a] by simp
      ultimately show ?thesis
        using step.IH up_trans by auto
    qed
  qed
  then show "dom a b" if "up J b a"
    using that by (simp add: on_all_paths_def)
qed

end

end
