(* ===== verification/Air_Dominators_Search.thy ===== *)
theory Air_Dominators_Search
  imports Air_Dominators Dominance
begin

text \<open>
  The depth-first search of the dominator tree: it ends with the blocks that can be reached, each
  but the entry after one of its predecessors, and the tables built from that order number the
  blocks and list their predecessors.
\<close>

section \<open>Edges between blocks\<close>

definition block_succs :: "air_function \<Rightarrow> block_id \<Rightarrow> block_id list" where
  "block_succs f b = (case collect_successor_blocks f b of None \<Rightarrow> [] | Some succs \<Rightarrow> succs)"

definition flow_edge :: "air_function \<Rightarrow> block_id \<Rightarrow> block_id \<Rightarrow> bool" where
  "flow_edge f p b \<longleftrightarrow> b \<in> set (block_succs f p)"

text \<open>Every edge leads to a block, and blocks are numbered by 32-bit integers.\<close>

definition flow_ok :: "air_function \<Rightarrow> bool" where
  "flow_ok f \<longleftrightarrow> valid_block f (fn_entry_block f) \<and> length (fn_blocks f) < 2 ^ 32
     \<and> (\<forall>b. valid_block f b \<longrightarrow> collect_successor_blocks f b \<noteq> None \<and> (\<forall>c \<in> set (block_succs f b). valid_block f c))"

lemma flow_ok_succs:
  assumes "flow_ok f" "valid_block f b"
  shows "collect_successor_blocks f b = Some (block_succs f b)" "c \<in> set (block_succs f b) \<Longrightarrow> valid_block f c"
  using assms by (auto simp: flow_ok_def block_succs_def)

section \<open>The search\<close>

text \<open>Every element but the first follows one it is a successor of.\<close>

definition led :: "(nat \<Rightarrow> nat list) \<Rightarrow> nat list \<Rightarrow> bool" where
  "led S W \<longleftrightarrow> (\<forall>xs b ys. W = xs @ b # ys \<longrightarrow> xs \<noteq> [] \<longrightarrow> (\<exists>p \<in> set xs. b \<in> set (S p)))"

lemma led_one: "led S [b]"
  by (auto simp: led_def Cons_eq_append_conv)

lemma led_insert:
  assumes "led S (A @ B)" "a \<in> set A" "x \<in> set (S a)"
  shows "led S (A @ x # B)"
  unfolding led_def
proof (intro allI impI)
  fix xs b ys
  assume eq: "A @ x # B = xs @ b # ys" and ne: "xs \<noteq> []"
  then consider (before) us where "A = xs @ b # us" | (at) "xs = A" "b = x" | (after) us where "xs = A @ x # us" "B = us @ b # ys"
    by (auto simp: append_eq_append_conv2 Cons_eq_append_conv append_eq_Cons_conv)
  then show "\<exists>p \<in> set xs. b \<in> set (S p)"
  proof cases
    case (before us)
    then have "A @ B = xs @ b # us @ B"
      by simp
    then show ?thesis
      using assms(1) ne unfolding led_def by blast
  next
    case at
    then show ?thesis
      using assms(2,3) by blast
  next
    case (after us)
    then have "A @ B = (A @ us) @ b # ys" "A @ us \<noteq> []"
      using assms(2) by auto
    then have "\<exists>p \<in> set (A @ us). b \<in> set (S p)"
      using assms(1) unfolding led_def by blast
    then show ?thesis
      using after by auto
  qed
qed

text \<open>
  The blocks seen so far, those on the stack from the bottom to the top and then the finished
  ones: finishing a block leaves the list as it is, and a new block is put where the two meet.
\<close>

definition seen_order :: "search_state \<Rightarrow> block_id list" where
  "seen_order s = rev (map fst (ss_stack s)) @ ss_post s"

definition search_inv :: "air_function \<Rightarrow> search_state \<Rightarrow> bool" where
  "search_inv f s \<longleftrightarrow>
     length (ss_state s) = length (fn_blocks f) \<and> length (ss_succs s) = length (fn_blocks f)
     \<and> distinct (seen_order s) \<and> seen_order s \<noteq> [] \<and> hd (seen_order s) = fn_entry_block f
     \<and> (\<forall>b \<in> set (seen_order s). valid_block f b \<and> ss_succs s ! b = block_succs f b)
     \<and> (\<forall>b < length (fn_blocks f). ss_state s ! b \<noteq> 0 \<longleftrightarrow> b \<in> set (seen_order s))
     \<and> (\<forall>b \<in> set (ss_post s). set (block_succs f b) \<subseteq> set (seen_order s))
     \<and> (\<forall>(b, n) \<in> set (ss_stack s). set (take n (block_succs f b)) \<subseteq> set (seen_order s))
     \<and> led (block_succs f) (seen_order s)"

lemma search_inv_start:
  assumes "flow_ok f"
  shows "search_inv f (visit_block (fn_entry_block f) (block_succs f (fn_entry_block f))
     \<lparr>ss_state = replicate (length (fn_blocks f)) 0, ss_succs = replicate (length (fn_blocks f)) [], ss_stack = [], ss_post = []\<rparr>)"
    (is "search_inv f ?s")
proof -
  have e: "valid_block f (fn_entry_block f)"
    using assms by (simp add: flow_ok_def)
  have "seen_order ?s = [fn_entry_block f]"
    by (simp add: seen_order_def visit_block_def)
  then show ?thesis
    using e unfolding search_inv_def by (simp add: visit_block_def valid_block_def led_one nth_list_update)
qed

lemma search_inv_visit:
  assumes ok: "flow_ok f" and inv: "search_inv f s" and stack: "ss_stack s = (b, n) # rest"
    and n: "n < length (ss_succs s ! b)" and new: "ss_state s ! (ss_succs s ! b ! n) = 0"
  shows "search_inv f (visit_block (ss_succs s ! b ! n) (block_succs f (ss_succs s ! b ! n)) (s\<lparr>ss_stack := (b, n + 1) # rest\<rparr>))"
proof -
  let ?c = "ss_succs s ! b ! n" and ?A = "rev (map fst rest) @ [b]"
  have W: "seen_order s = ?A @ ss_post s"
    using stack by (simp add: seen_order_def)
  have b: "valid_block f b" "ss_succs s ! b = block_succs f b"
    using inv by (auto simp: search_inv_def W)
  have c: "?c \<in> set (block_succs f b)" "?c = block_succs f b ! n" "n < length (block_succs f b)"
    using n b(2) by auto
  then have cv: "valid_block f ?c"
    using flow_ok_succs(2) [OF ok b(1)] by blast
  have cn: "?c \<notin> set (seen_order s)"
    using inv cv new by (auto simp: search_inv_def valid_block_def)
  let ?s = "visit_block ?c (block_succs f ?c) (s\<lparr>ss_stack := (b, n + 1) # rest\<rparr>)"
  have W': "seen_order ?s = ?A @ ?c # ss_post s"
    by (simp add: seen_order_def visit_block_def)
  have sets: "set (seen_order ?s) = insert ?c (set (seen_order s))"
    using W W' by auto
  have "set (take (n + 1) (block_succs f b)) \<subseteq> set (seen_order ?s)"
    using inv stack c unfolding search_inv_def sets by (auto simp: take_Suc_conv_app_nth)
  moreover have "led (block_succs f) (seen_order ?s)"
    unfolding W' by (rule led_insert) (use inv c(1) in \<open>auto simp: search_inv_def W\<close>)
  moreover have "hd (seen_order ?s) = hd (seen_order s)"
    unfolding W W' by (cases rest rule: rev_cases) auto
  moreover have "distinct (seen_order ?s)" "seen_order ?s \<noteq> []"
    using inv cn unfolding search_inv_def W W' by auto
  ultimately show ?thesis
    using inv cv cn stack unfolding search_inv_def sets
    by (auto simp: visit_block_def nth_list_update valid_block_def)
qed

lemma search_inv_next:
  assumes "search_inv f s" "ss_stack s = (b, n) # rest" "n < length (ss_succs s ! b)"
    and "ss_succs s ! b ! n < length (ss_state s)" "ss_state s ! (ss_succs s ! b ! n) \<noteq> 0"
  shows "search_inv f (s\<lparr>ss_stack := (b, n + 1) # rest\<rparr>)"
proof -
  have W: "seen_order (s\<lparr>ss_stack := (b, n + 1) # rest\<rparr>) = seen_order s" and b: "b \<in> set (seen_order s)"
    using assms(2) by (simp_all add: seen_order_def)
  have "ss_succs s ! b = block_succs f b"
    using assms(1) b by (simp add: search_inv_def)
  then have "set (take (n + 1) (block_succs f b)) \<subseteq> set (seen_order s)"
    using assms by (auto simp: search_inv_def take_Suc_conv_app_nth)
  then show ?thesis
    using assms(1,2) unfolding search_inv_def W by simp
qed

lemma search_inv_finish:
  assumes "search_inv f s" "ss_stack s = (b, n) # rest" "\<not> n < length (ss_succs s ! b)"
  shows "search_inv f (s\<lparr>ss_state := (ss_state s)[b := 2], ss_post := b # ss_post s, ss_stack := rest\<rparr>)"
proof -
  let ?s = "s\<lparr>ss_state := (ss_state s)[b := 2], ss_post := b # ss_post s, ss_stack := rest\<rparr>"
  have W: "seen_order ?s = seen_order s" and b: "b \<in> set (seen_order s)"
    using assms(2) by (simp_all add: seen_order_def)
  have "ss_succs s ! b = block_succs f b"
    using assms(1) b by (simp add: search_inv_def)
  then have "set (block_succs f b) \<subseteq> set (seen_order s)"
    using assms by (auto simp: search_inv_def)
  moreover have "(ss_state s)[b := 2] ! c \<noteq> 0 \<longleftrightarrow> ss_state s ! c \<noteq> 0" for c
    using assms(1) b by (cases "c = b") (auto simp: search_inv_def valid_block_def)
  ultimately show ?thesis
    using assms(1,2) unfolding search_inv_def W by simp
qed

lemma depth_first_returns:
  assumes "flow_ok f" "search_inv f s"
  shows "\<exists>s'. depth_first f s = Some s' \<and> search_inv f s' \<and> ss_stack s' = []"
  using assms
proof (induction f s rule: depth_first.induct)
  case (1 f s)
  show ?case
  proof (cases "ss_stack s")
    case Nil
    then show ?thesis
      using 1 by (simp add: depth_first.simps)
  next
    case (Cons top rest)
    obtain b n where top: "top = (b, n)"
      by (cases top)
    note stack = Cons [unfolded top]
    note unfold = depth_first.simps [of f s] stack
    have b: "valid_block f b" "ss_succs s ! b = block_succs f b"
      using 1(4,5) stack by (auto simp: search_inv_def seen_order_def)
    show ?thesis
    proof (cases "n < length (ss_succs s ! b)")
      case False
      note inv = search_inv_finish [OF 1(5) stack False]
      from 1(3) [OF stack refl False 1(4) inv] show ?thesis
        using False by (simp add: unfold Let_def)
    next
      case n: True
      let ?c = "ss_succs s ! b ! n"
      have c: "valid_block f ?c"
        using flow_ok_succs(2) [OF 1(4) b(1)] n b(2) by simp
      then have len: "?c < length (ss_state s)" "\<not> length (ss_state s) \<le> ?c"
        using 1(4,5) by (auto simp: search_inv_def valid_block_def)
      show ?thesis
      proof (cases "ss_state s ! ?c = 0")
        case True
        from 1(1) [OF stack refl n refl refl len(2) True flow_ok_succs(1) [OF 1(4) c] 1(4)
            search_inv_visit [OF 1(4,5) stack n True]]
        show ?thesis
          using n len True flow_ok_succs(1) [OF 1(4) c] by (simp add: unfold Let_def)
      next
        case False
        from 1(2) [OF stack refl n refl refl len(2) False 1(4) search_inv_next [OF 1(5) stack n len(1) False]]
        show ?thesis
          using n len False by (simp add: unfold Let_def)
      qed
    qed
  qed
qed

section \<open>Tables\<close>

lemma number_loop:
  assumes "distinct rpo" "k \<le> length rpo" "\<forall>b \<in> set rpo. b < length index"
  shows "let index' = fold (\<lambda>i index. index[rpo ! i := of_nat i]) [0..<k] index
    in length index' = length index \<and> (\<forall>i < k. index' ! (rpo ! i) = of_nat i) \<and> (\<forall>b. b \<notin> set (take k rpo) \<longrightarrow> index' ! b = index ! b)"
  using assms(2)
proof (induction k)
  case (Suc k)
  then show ?case
    using assms(1,3) by (auto simp: Let_def nth_list_update less_Suc_eq nth_eq_iff_index_eq take_Suc_conv_app_nth)
qed simp

lemma number_rpo_nth:
  assumes "distinct rpo" "\<forall>b \<in> set rpo. b < n"
  shows "length (number_rpo n rpo) = n" "i < length rpo \<Longrightarrow> number_rpo n rpo ! (rpo ! i) = of_nat i"
    "b < n \<Longrightarrow> b \<notin> set rpo \<Longrightarrow> number_rpo n rpo ! b = UINT32_MAX"
  using number_loop [OF assms(1), of "length rpo" "replicate n UINT32_MAX"] assms(2)
  by (auto simp: number_rpo_def Let_def)

lemma collect_block:
  "let P' = fold (\<lambda>c P. P[c := P ! c @ [b]]) cs P
   in length P' = length P \<and> (\<forall>x < length P. set (P' ! x) = set (P ! x) \<union> (if x \<in> set cs then {b} else {}))"
  for P :: "nat list list"
proof (induction cs arbitrary: P)
  case (Cons c cs)
  have "set (P[c := P ! c @ [b]] ! x) = set (P ! x) \<union> (if x = c then {b} else {})" if "x < length P" for x
    using that by (cases "x = c") auto
  then show ?case
    using Cons.IH [of "P[c := P ! c @ [b]]"] by (auto simp: Let_def)
qed simp

lemma collect_preds_loop:
  "let P' = fold (\<lambda>b. fold (\<lambda>succ preds. preds[succ := preds ! succ @ [b]]) (succs ! b)) rpo P
   in length P' = length P \<and> (\<forall>x < length P. set (P' ! x) = set (P ! x) \<union> {p \<in> set rpo. x \<in> set (succs ! p)})"
  for P :: "nat list list"
proof (induction rpo arbitrary: P)
  case (Cons b rpo)
  let ?P = "fold (\<lambda>succ preds. preds[succ := preds ! succ @ [b]]) (succs ! b) P"
  have "length ?P = length P" "\<And>x. x < length P \<Longrightarrow> set (?P ! x) = set (P ! x) \<union> (if x \<in> set (succs ! b) then {b} else {})"
    using collect_block [of b "succs ! b" P] by (simp_all add: Let_def)
  then show ?case
    using Cons.IH [of ?P] by (auto simp: Let_def split: if_splits)
qed simp

lemma collect_preds_set:
  assumes "x < n"
  shows "set (collect_preds n succs rpo ! x) = {p \<in> set rpo. x \<in> set (succs ! p)}"
  using collect_preds_loop [of succs rpo "replicate n []"] assms by (simp add: collect_preds_def Let_def)

end
