(* ===== verification/Air_Dominators_Correct.thy ===== *)
theory Air_Dominators_Correct
  imports Air_Dominators_Search
begin

text \<open>
  The dominator tree is right: the iteration of immediate dominators returns, and the blocks
  above a block in the tree are those every path from the entry to it goes through.
\<close>

section \<open>The loops on the tables\<close>

locale numbered_flow = ordered_flow N edge entry "\<lambda>b. unat (index ! b)"
  for N :: "nat set" and edge :: "nat \<Rightarrow> nat \<Rightarrow> bool" and entry :: nat and index :: "u32 list" +
  fixes rpo :: "nat list" and preds :: "nat list list"
  assumes rpo_nodes: "set rpo = N"
    and rpo_ix: "i < length rpo \<Longrightarrow> unat (index ! (rpo ! i)) = i"
    and index_length: "b \<in> N \<Longrightarrow> b < length index"
    and preds_nodes: "b \<in> N \<Longrightarrow> set (preds ! b) = {p \<in> N. edge p b}"
begin

abbreviation ix :: "nat \<Rightarrow> nat" where
  "ix b \<equiv> unat (index ! b)"

lemma ix_rpo:
  assumes "b \<in> N"
  shows "ix b < length rpo" "rpo ! ix b = b"
  using assms rpo_ix unfolding rpo_nodes [symmetric] by (auto simp: in_set_conv_nth)

lemma rpo_distinct: "distinct rpo"
  unfolding distinct_conv_nth using rpo_ix by metis

lemma rpo_length: "length rpo \<le> length index"
proof -
  have "card (set rpo) \<le> card {..<length index}"
    using index_length rpo_nodes by (intro card_mono) auto
  then show ?thesis
    using distinct_card [OF rpo_distinct] by simp
qed

lemma ix_less: "b \<in> N \<Longrightarrow> ix b < length index"
  using ix_rpo(1) rpo_length by fastforce

lemma climb_up:
  assumes t: "tree ((!) idom)" and "met ((!) idom) a" "ix entry \<le> unat limit" "ix a < n"
  shows "\<exists>y. climb n index idom limit a = Some y \<and> up ((!) idom) a y \<and> ix y \<le> unat limit
    \<and> (\<forall>z. up ((!) idom) a z \<longrightarrow> ix z \<le> unat limit \<longrightarrow> up ((!) idom) y z)"
  using assms(2-4)
proof (induction n arbitrary: a)
  case (Suc n)
  have a: "a < length index"
    using Suc.prems(1) index_length by (simp add: met_def)
  show ?case
  proof (cases "limit < index ! a")
    case True
    then have lt: "unat limit < ix a"
      by (simp add: word_less_nat_alt)
    then have "a \<noteq> entry"
      using Suc.prems(2) by auto
    note I = treeD [OF t Suc.prems(1) this]
    obtain y where y: "climb n index idom limit (idom ! a) = Some y" "up ((!) idom) (idom ! a) y" "ix y \<le> unat limit"
        "\<forall>z. up ((!) idom) (idom ! a) z \<longrightarrow> ix z \<le> unat limit \<longrightarrow> up ((!) idom) y z"
      using Suc.IH [OF I(1) Suc.prems(2)] I(2) Suc.prems(3) by auto
    have "up ((!) idom) y z" if z: "up ((!) idom) a z" "ix z \<le> unat limit" for z
    proof -
      have "z \<noteq> a"
        using z(2) lt by auto
      then show ?thesis
        using z y(4) up_unfold [of "(!) idom" a z] by blast
    qed
    then show ?thesis
      using y(1-3) a True by (auto intro: up.there)
  next
    case False
    then have "ix a \<le> unat limit"
      by (simp add: word_less_nat_alt)
    then show ?thesis
      using a False by (auto intro: up.here)
  qed
qed simp

lemma intersect_merged:
  assumes t: "tree ((!) idom)" and "met ((!) idom) a" "met ((!) idom) b" "ix a < n" "ix b < n"
  shows "\<exists>r. intersect n index idom a b = Some r \<and> merged ((!) idom) {a, b} r"
  using assms(2-5)
proof (induction n arbitrary: a b)
  case (Suc n)
  show ?case
  proof (cases "a = b")
    case True
    then show ?thesis
      using merged_one by simp
  next
    case False
    have N: "a \<in> N" "b \<in> N"
      using Suc.prems by (simp_all add: met_def)
    then have ne: "ix a \<noteq> ix b"
      using False ix_inj by (auto simp: inj_on_def)
    obtain a' where a: "climb (length index) index idom (index ! b) a = Some a'" "up ((!) idom) a a'" "ix a' \<le> ix b"
        "\<And>z. up ((!) idom) a z \<Longrightarrow> ix z \<le> ix b \<Longrightarrow> up ((!) idom) a' z"
      using climb_up [OF t Suc.prems(1) entry_least [OF N(2)] ix_less [OF N(1)]] by blast
    have ma: "met ((!) idom) a'" "ix a' \<le> ix a" "a' \<in> N"
      using up_met [OF a(2) t Suc.prems(1)] by (simp_all add: met_def)
    obtain b' where b: "climb (length index) index idom (index ! a') b = Some b'" "up ((!) idom) b b'" "ix b' \<le> ix a'"
        "\<And>z. up ((!) idom) b z \<Longrightarrow> ix z \<le> ix a' \<Longrightarrow> up ((!) idom) b' z"
      using climb_up [OF t Suc.prems(2) entry_least [OF ma(3)] ix_less [OF N(2)]] by blast
    have mb: "met ((!) idom) b'"
      using up_met [OF b(2) t Suc.prems(2)] by simp
    have "ix a' < n" "ix b' < n"
      using Suc.prems(3,4) a(3) b(3) ma(2) ne by linarith+
    then obtain r where r: "intersect n index idom a' b' = Some r" "merged ((!) idom) {a', b'} r"
      using Suc.IH [OF ma(1) mb] by blast
    have "up ((!) idom) a z \<and> up ((!) idom) b z \<longleftrightarrow> up ((!) idom) a' z \<and> up ((!) idom) b' z" for z
      using a(2,4) b(2,4) up_trans up_met [OF _ t Suc.prems(2)] up_met [OF _ t ma(1)] by blast
    then have "merged ((!) idom) {a, b} r"
      using r(2) by (simp add: merged_def)
    then show ?thesis
      using r(1) a(1) b(1) False index_length [OF N(2)] by simp
  qed
qed simp

text \<open>The accumulator of the loop over predecessors: 0 as long as none of them was met.\<close>

definition merging :: "(nat \<Rightarrow> nat) \<Rightarrow> nat set \<Rightarrow> nat \<Rightarrow> bool" where
  "merging I Q r \<longleftrightarrow> (if Q = {} then r = 0 else met I r \<and> merged I Q r)"

lemma merge_preds_merging:
  assumes t: "tree ((!) idom)" and "set ps \<subseteq> N" "merging ((!) idom) Q acc"
  shows "\<exists>r. merge_preds index idom ps acc = Some r \<and> merging ((!) idom) (Q \<union> {p \<in> set ps. met ((!) idom) p}) r"
  using assms(2,3)
proof (induction ps arbitrary: Q acc)
  case (Cons p ps)
  show ?case
  proof (cases "idom ! p = 0")
    case True
    then have "{x \<in> set (p # ps). met ((!) idom) x} = {x \<in> set ps. met ((!) idom) x}"
      by (auto simp: met_def)
    then show ?thesis
      using Cons True by simp
  next
    case False
    then have p: "met ((!) idom) p"
      using Cons.prems(1) by (simp add: met_def)
    have split: "Q \<union> {x \<in> set (p # ps). met ((!) idom) x} = insert p Q \<union> {x \<in> set ps. met ((!) idom) x}"
      using p by auto
    show ?thesis
    proof (cases "Q = {}")
      case True
      have "merging ((!) idom) (insert p Q) p"
        using p True by (simp add: merging_def merged_one)
      then show ?thesis
        unfolding split using Cons.IH [of "insert p Q" p] Cons.prems True False by (simp add: merging_def)
    next
      case some: False
      then have acc: "met ((!) idom) acc" "merged ((!) idom) Q acc" "acc \<noteq> 0"
        using Cons.prems(2) no_zero by (auto simp: merging_def met_def)
      have "ix acc < length index + 1" "ix p < length index + 1"
        using ix_less acc(1) p by (auto simp: met_def less_Suc_eq)
      then obtain r where r: "intersect (length index + 1) index idom acc p = Some r" "merged ((!) idom) {acc, p} r"
        using intersect_merged [OF t acc(1) p] by blast
      have "met ((!) idom) r"
        using up_met [OF merged_above [OF r(2)] t acc(1)] by simp
      then have "merging ((!) idom) (insert p Q) r"
        using merged_insert [OF acc(2) r(2)] by (simp add: merging_def)
      then show ?thesis
        unfolding split using Cons.IH [of "insert p Q" r] Cons.prems r(1) acc(3) False by simp
    qed
  qed
qed simp

section \<open>Rounds\<close>

text \<open>What a round from the \<open>k\<close>-th block on does.\<close>

definition rest_of_round :: "nat \<Rightarrow> nat list \<Rightarrow> nat list \<Rightarrow> bool" where
  "rest_of_round k idom J \<longleftrightarrow> length J = length idom \<and> full ((!) J)
     \<and> (\<forall>x. x \<notin> set (drop k rpo) - {entry} \<longrightarrow> J ! x = idom ! x)
     \<and> (\<forall>b \<in> set (drop k rpo) - {entry}.
          merged (mix ((!) idom) ((!) J) b) (met_preds (mix ((!) idom) ((!) J) b) b) (J ! b))"

lemma later_blocks:
  assumes "x \<in> set (drop k rpo)"
  shows "k \<le> ix x" "x \<in> N"
proof -
  obtain i where i: "i < length rpo - k" "x = rpo ! (k + i)"
    using assms by (auto simp: in_set_conv_nth)
  then show "k \<le> ix x"
    using rpo_ix [of "k + i"] by simp
  show "x \<in> N"
    using assms rpo_nodes set_drop_subset by fastforce
qed

lemma rest_of_round_step:
  assumes b: "b = rpo ! k" "k < length rpo" "b \<noteq> entry" "b < length idom"
    and r: "merged ((!) idom) (met_preds ((!) idom) b) r"
    and rest: "rest_of_round (Suc k) (idom[b := r]) J"
  shows "rest_of_round k idom J" "(\<exists>x \<in> N. J ! x \<noteq> idom ! x) \<longleftrightarrow> idom ! b \<noteq> r \<or> (\<exists>x \<in> N. J ! x \<noteq> idom[b := r] ! x)"
proof -
  have drop: "drop k rpo = b # drop (Suc k) rpo"
    using b by (simp add: Cons_nth_drop_Suc)
  have bk: "ix b = k" "b \<in> N"
    using b rpo_ix rpo_nodes nth_mem by blast+
  have new: "b \<notin> set (drop (Suc k) rpo)"
    using later_blocks(1) [of b "Suc k"] bk by auto
  have same: "J ! x = idom[b := r] ! x" if "x \<notin> set (drop (Suc k) rpo) - {entry}" for x
    using rest that by (simp add: rest_of_round_def)
  have Jb: "J ! b = r"
    using same [of b] new b(4) by simp
  show changed: "(\<exists>x \<in> N. J ! x \<noteq> idom ! x) \<longleftrightarrow> idom ! b \<noteq> r \<or> (\<exists>x \<in> N. J ! x \<noteq> idom[b := r] ! x)"
    using Jb bk(2) b(4) by (metis nth_list_update_eq nth_list_update_neq)
  have here: "mix ((!) idom) ((!) J) b = (!) idom"
  proof
    fix x
    have "J ! x = idom ! x" if "ix x < ix b"
      using same [of x] later_blocks(1) [of x "Suc k"] that bk(1) by (metis DiffD1 Suc_leD leD nat_neq_iff nth_list_update_neq)
    then show "mix ((!) idom) ((!) J) b x = idom ! x"
      by (simp add: mix_def)
  qed
  have later: "mix ((!) (idom[b := r])) ((!) J) c = mix ((!) idom) ((!) J) c" if "c \<in> set (drop (Suc k) rpo)" for c
  proof
    fix x
    show "mix ((!) (idom[b := r])) ((!) J) c x = mix ((!) idom) ((!) J) c x"
      using later_blocks(1) [OF that] bk(1) by (cases "x = b") (auto simp: mix_def)
  qed
  have merged: "merged (mix ((!) idom) ((!) J) c) (met_preds (mix ((!) idom) ((!) J) c) c) (J ! c)"
    if c: "c \<in> set (drop k rpo) - {entry}" for c
  proof (cases "c = b")
    case True
    then show ?thesis
      using r by (simp add: here Jb)
  next
    case False
    then have c': "c \<in> set (drop (Suc k) rpo) - {entry}"
      using c drop by auto
    then have "merged (mix ((!) (idom[b := r])) ((!) J) c) (met_preds (mix ((!) (idom[b := r])) ((!) J) c) c) (J ! c)"
      using rest unfolding rest_of_round_def by blast
    then show ?thesis
      using later [of c] c' by simp
  qed
  have "J ! x = idom ! x" if "x \<notin> set (drop k rpo) - {entry}" for x
    using same [of x] that b(3) unfolding drop by (auto simp: nth_list_update)
  then show "rest_of_round k idom J"
    using rest merged by (simp add: rest_of_round_def)
qed

lemma idom_round_returns:
  assumes "k \<le> length rpo" "tree ((!) idom)" "\<forall>x \<in> N. ix x < k \<longrightarrow> idom ! x \<noteq> 0" "length idom = length index"
  shows "\<exists>ch' J. idom_round index preds entry (drop k rpo) (ch, idom) = Some (ch', J) \<and> rest_of_round k idom J
    \<and> (ch' \<longleftrightarrow> ch \<or> (\<exists>x \<in> N. J ! x \<noteq> idom ! x))"
  using assms
proof (induction arbitrary: idom ch rule: inc_induct)
  case base
  then have "full ((!) idom)"
    using ix_rpo(1) unfolding full_def met_def by blast
  then show ?case
    by (simp add: rest_of_round_def)
next
  case (step k)
  let ?b = "rpo ! k"
  have b: "?b \<in> N" "ix ?b = k" "?b < length idom"
    using step.hyps rpo_nodes nth_mem rpo_ix index_length step.prems(3) by auto
  have drop: "drop k rpo = ?b # drop (Suc k) rpo"
    using step.hyps by (simp add: Cons_nth_drop_Suc)
  have at: "x = ?b" if "x \<in> N" "ix x = k" for x
    using ix_rpo(2) that by metis
  show ?case
  proof (cases "?b = entry")
    case True
    have "\<forall>x \<in> N. ix x < Suc k \<longrightarrow> idom ! x \<noteq> 0"
      using step.prems(2) at True tree_entry(1) [OF step.prems(1)] entry_node no_zero by (metis less_Suc_eq)
    then obtain ch' J where J: "idom_round index preds entry (drop (Suc k) rpo) (ch, idom) = Some (ch', J)"
        "rest_of_round (Suc k) idom J" "ch' \<longleftrightarrow> ch \<or> (\<exists>x \<in> N. J ! x \<noteq> idom ! x)"
      using step.IH [OF step.prems(1) _ step.prems(3)] by blast
    moreover have "set (drop k rpo) - {entry} = set (drop (Suc k) rpo) - {entry}"
      using drop True by auto
    ultimately show ?thesis
      using drop True by (simp add: rest_of_round_def)
  next
    case False
    obtain p where p: "p \<in> N" "edge p ?b" "ix p < ix ?b"
      using earlier [OF b(1) False] by blast
    then have pm: "p \<in> met_preds ((!) idom) ?b"
      using step.prems(2) b(2) by (simp add: met_preds_def met_def)
    have preds: "{q \<in> set (preds ! ?b). met ((!) idom) q} = met_preds ((!) idom) ?b"
      using preds_nodes [OF b(1)] by (auto simp: met_preds_def met_def)
    obtain r where r: "merge_preds index idom (preds ! ?b) 0 = Some r" "merging ((!) idom) (met_preds ((!) idom) ?b) r"
      using merge_preds_merging [OF step.prems(1), of "preds ! ?b" "{}" 0] preds_nodes [OF b(1)] unfolding preds
      by (auto simp: merging_def)
    then have m: "merged ((!) idom) (met_preds ((!) idom) ?b) r" "met ((!) idom) r"
      using pm by (auto simp: merging_def split: if_splits)
    have r0: "r \<noteq> 0"
      using m(2) node_pos [of r] by (simp add: met_def)
    have upd: "(!) (idom[?b := r]) = ((!) idom)(?b := r)"
      using b(3) by (auto simp: fun_eq_iff nth_list_update)
    have "tree ((!) (idom[?b := r]))"
      unfolding upd by (rule tree_update(1) [OF step.prems(1) b(1) False m(1) pm p(3)])
    moreover have "\<forall>x \<in> N. ix x < Suc k \<longrightarrow> idom[?b := r] ! x \<noteq> 0"
      using step.prems(2) at r0 b(3) by (metis less_Suc_eq nth_list_update_eq nth_list_update_neq)
    ultimately obtain ch' J where J:
        "idom_round index preds entry (drop (Suc k) rpo) (ch \<or> idom ! ?b \<noteq> r, idom[?b := r]) = Some (ch', J)"
        "rest_of_round (Suc k) (idom[?b := r]) J" "ch' \<longleftrightarrow> (ch \<or> idom ! ?b \<noteq> r) \<or> (\<exists>x \<in> N. J ! x \<noteq> idom[?b := r] ! x)"
      using step.IH [of "idom[?b := r]" "ch \<or> idom ! ?b \<noteq> r"] step.prems(3) by auto
    have "idom_round index preds entry (drop k rpo) (ch, idom) =
        idom_round index preds entry (drop (Suc k) rpo) (ch \<or> idom ! ?b \<noteq> r, idom[?b := r])"
      using False r(1) r0 list_update_id [of idom ?b] unfolding drop by auto
    then show ?thesis
      using J rest_of_round_step [OF refl step.hyps(2) False b(3) m(1) J(2)] by auto
  qed
qed

lemma rest_is_round: "rest_of_round 0 idom J \<Longrightarrow> round ((!) idom) ((!) J) \<and> full ((!) J) \<and> length J = length idom"
  by (simp add: rest_of_round_def round_def rpo_nodes)

lemma unchanged_round: "rest_of_round 0 idom J \<Longrightarrow> \<not> (\<exists>x \<in> N. J ! x \<noteq> idom ! x) \<Longrightarrow> J = idom"
  by (rule nth_equalityI) (auto simp: rest_of_round_def rpo_nodes)

lemma idom_rounds_returns:
  assumes "round ((!) I) ((!) J)" "tree ((!) I)" "full ((!) J)" "length J = length index" "weight ((!) J) < n"
    and "(\<forall>x \<in> N - {entry}. I ! x = 0) \<or> (full ((!) I) \<and> follows ((!) I) \<and> shrinks ((!) I) ((!) J))"
  shows "\<exists>K. idom_rounds n index preds entry rpo J = Some K \<and> full ((!) K) \<and> round ((!) K) ((!) K)"
  using assms
proof (induction n arbitrary: I J)
  case (Suc n)
  obtain ch K where K: "idom_round index preds entry (drop 0 rpo) (False, J) = Some (ch, K)" "rest_of_round 0 J K"
      "ch \<longleftrightarrow> (\<exists>x \<in> N. K ! x \<noteq> J ! x)"
    using idom_round_returns [of 0 J False] Suc.prems(3,4) by auto
  note JK = rest_is_round [OF K(2)]
  have s: "shrinks ((!) J) ((!) K)"
    using round_shrinks [OF Suc.prems(1,2) _ Suc.prems(3) _ Suc.prems(6)] JK by blast
  show ?case
  proof (cases ch)
    case True
    then obtain x where "x \<in> N" "K ! x \<noteq> J ! x"
      using K(3) by blast
    then have "weight ((!) K) < n"
      using shrinks_weight [OF s Suc.prems(3)] JK Suc.prems(5) by fastforce
    then show ?thesis
      using Suc.IH [of J K] JK s Suc.prems round_follows [OF Suc.prems(1-3)] K(1) True by simp
  next
    case False
    then have "K = J"
      using unchanged_round [OF K(2)] K(3) by blast
    then show ?thesis
      using JK K(1) False by simp
  qed
qed simp

lemma weight_bound:
  assumes "full I"
  shows "weight I \<le> length index * length index"
proof -
  have "I b \<in> N" if "b \<in> N" for b
    using full_up [OF assms that up_parent] by blast
  then have "weight I \<le> card N * length index"
    unfolding weight_def using ix_less by (intro sum_bounded_above [where 'a = nat, simplified]) (simp add: less_imp_le)
  also have "\<dots> \<le> length index * length index"
    using rpo_length distinct_card [OF rpo_distinct] rpo_nodes by simp
  finally show ?thesis .
qed

lemma idom_rounds_start:
  assumes "length idom = length index" "idom = (replicate (length index) 0)[entry := entry]"
  shows "\<exists>K. idom_rounds (length index * length index + 2) index preds entry rpo idom = Some K \<and> full ((!) K) \<and> round ((!) K) ((!) K)"
proof -
  have e: "entry < length index"
    using index_length entry_node by blast
  have others: "\<forall>x \<in> N - {entry}. idom ! x = 0"
    using index_length assms(2) by auto
  then have t: "tree ((!) idom)"
    using e assms(2) by (auto simp: tree_def)
  then obtain ch J where J: "idom_round index preds entry (drop 0 rpo) (False, idom) = Some (ch, J)" "rest_of_round 0 idom J"
      "ch \<longleftrightarrow> (\<exists>x \<in> N. J ! x \<noteq> idom ! x)"
    using idom_round_returns [of 0 idom False] assms(1) by auto
  note IJ = rest_is_round [OF J(2)]
  show ?thesis
  proof (cases ch)
    case True
    obtain K where "idom_rounds (length index * length index + 1) index preds entry rpo J = Some K"
        "full ((!) K)" "round ((!) K) ((!) K)"
      using idom_rounds_returns [of idom J "length index * length index + 1"] IJ t others weight_bound [of "(!) J"] assms(1) by auto
    then show ?thesis
      using J(1) True by simp
  next
    case False
    then have "J = idom"
      using unchanged_round [OF J(2)] J(3) by blast
    then show ?thesis
      using IJ J(1) False by simp
  qed
qed

section \<open>Queries\<close>

lemma climb_dominates:
  assumes "full ((!) K)" "round ((!) K) ((!) K)" "a \<in> N" "b \<in> N"
  shows "map_option ((=) a) (climb (length index) index K (index ! a) b) = Some (dom a b)"
proof -
  obtain y where y: "climb (length index) index K (index ! a) b = Some y" "up ((!) K) b y" "ix y \<le> ix a"
      "\<forall>z. up ((!) K) b z \<longrightarrow> ix z \<le> ix a \<longrightarrow> up ((!) K) y z"
    using climb_up [of K b "index ! a"] assms entry_least ix_less by fastforce
  have yN: "y \<in> N"
    using full_up [OF assms(1,4) y(2)] by simp
  have "a = y \<longleftrightarrow> up ((!) K) b a"
  proof
    assume "up ((!) K) b a"
    then have "ix a \<le> ix y"
      using y(4) full_up [OF assms(1) yN] by blast
    then show "a = y"
      using y(3) ix_inj assms(3) yN by (simp add: inj_on_def)
  qed (use y(2) in simp)
  then show ?thesis
    using y(1) stable_dominators [OF assms(2,1,4)] by simp
qed

lemma parent_dominators:
  assumes "full ((!) K)" "round ((!) K) ((!) K)" "b \<in> N" "b \<noteq> entry"
  shows "dom d (K ! b) \<longleftrightarrow> dom d b \<and> d \<noteq> b"
proof -
  note Kb = full_step [OF assms(1,3,4)]
  have "d \<noteq> b" if "up ((!) K) (K ! b) d"
    using full_up [OF assms(1) Kb(1) that] Kb(2) by auto
  then show ?thesis
    using stable_dominators [OF assms(2,1,3), of d] stable_dominators [OF assms(2,1) Kb(1), of d] up_unfold [of "(!) K" b d] by blast
qed

end

section \<open>The blocks of a function\<close>

text \<open>The search of a function whose edges lead to blocks; of any other function one block stands in.\<close>

definition searched :: "air_function \<Rightarrow> search_state" where
  "searched f =
     (if flow_ok f
      then the (depth_first f (visit_block (fn_entry_block f) (block_succs f (fn_entry_block f))
        \<lparr>ss_state = replicate (length (fn_blocks f)) 0, ss_succs = replicate (length (fn_blocks f)) [], ss_stack = [], ss_post = []\<rparr>))
      else \<lparr>ss_state = [0, 2], ss_succs = [[], []], ss_stack = [], ss_post = [1]\<rparr>)"

definition search_index :: "air_function \<Rightarrow> u32 list" where
  "search_index f = number_rpo (length (ss_succs (searched f))) (ss_post (searched f))"

definition search_preds :: "air_function \<Rightarrow> block_id list list" where
  "search_preds f = collect_preds (length (ss_succs (searched f))) (ss_succs (searched f)) (ss_post (searched f))"

definition search_edge :: "air_function \<Rightarrow> block_id \<Rightarrow> block_id \<Rightarrow> bool" where
  "search_edge f p b \<longleftrightarrow> flow_ok f \<and> flow_edge f p b"

lemma searched_ok:
  assumes "flow_ok f"
  shows "depth_first f (visit_block (fn_entry_block f) (block_succs f (fn_entry_block f))
        \<lparr>ss_state = replicate (length (fn_blocks f)) 0, ss_succs = replicate (length (fn_blocks f)) [], ss_stack = [], ss_post = []\<rparr>)
      = Some (searched f)" "search_inv f (searched f)" "seen_order (searched f) = ss_post (searched f)"
  using depth_first_returns [OF assms search_inv_start [OF assms]] assms by (auto simp: searched_def seen_order_def)

text \<open>What the iteration needs of the search.\<close>

lemma searched_facts:
  "distinct (ss_post (searched f))" "ss_post (searched f) \<noteq> []" "length (ss_succs (searched f)) < 2 ^ 32"
  "\<forall>b \<in> set (ss_post (searched f)). 0 < b \<and> b < length (ss_succs (searched f))
     \<and> set (ss_succs (searched f) ! b) = {c. search_edge f b c} \<and> {c. search_edge f b c} \<subseteq> set (ss_post (searched f))"
  "led (\<lambda>b. ss_succs (searched f) ! b) (ss_post (searched f))"
proof -
  let ?s = "searched f"
  have "distinct (ss_post ?s) \<and> ss_post ?s \<noteq> [] \<and> length (ss_succs ?s) < 2 ^ 32
    \<and> (\<forall>b \<in> set (ss_post ?s). 0 < b \<and> b < length (ss_succs ?s)
       \<and> set (ss_succs ?s ! b) = {c. search_edge f b c} \<and> {c. search_edge f b c} \<subseteq> set (ss_post ?s))
    \<and> led (\<lambda>b. ss_succs ?s ! b) (ss_post ?s)"
  proof (cases "flow_ok f")
    case True
    have i: "search_inv f ?s" and W: "seen_order ?s = ss_post ?s"
      using searched_ok [OF True] by auto
    have succs: "ss_succs ?s ! b = block_succs f b" if "b \<in> set (ss_post ?s)" for b
      using i that by (simp add: search_inv_def W)
    have "led (\<lambda>b. ss_succs ?s ! b) (ss_post ?s)"
      unfolding led_def
    proof (intro allI impI)
      fix xs b ys
      assume W': "ss_post ?s = xs @ b # ys" and "xs \<noteq> []"
      moreover have "led (block_succs f) (ss_post ?s)"
        using i by (simp add: search_inv_def W)
      ultimately obtain p where "p \<in> set xs" "b \<in> set (block_succs f p)"
        unfolding led_def by blast
      then show "\<exists>p \<in> set xs. b \<in> set (ss_succs ?s ! p)"
        using succs W' by (intro bexI [of _ p]) simp_all
    qed
    moreover have "0 < b \<and> b < length (ss_succs ?s) \<and> set (ss_succs ?s ! b) = {c. search_edge f b c}
        \<and> {c. search_edge f b c} \<subseteq> set (ss_post ?s)" if b: "b \<in> set (ss_post ?s)" for b
    proof -
      have e: "{c. search_edge f b c} = set (block_succs f b)"
        using True by (simp add: search_edge_def flow_edge_def)
      show ?thesis
        unfolding e succs [OF b] using i b unfolding search_inv_def W by (auto simp: valid_block_def)
    qed
    moreover have "length (ss_succs ?s) < 2 ^ 32" "distinct (ss_post ?s)" "ss_post ?s \<noteq> []"
      using i True unfolding search_inv_def W flow_ok_def by auto
    ultimately show ?thesis
      by blast
  next
    case False
    then show ?thesis
      by (simp add: searched_def search_edge_def led_one)
  qed
  then show "distinct (ss_post ?s)" "ss_post ?s \<noteq> []" "length (ss_succs ?s) < 2 ^ 32"
    "\<forall>b \<in> set (ss_post ?s). 0 < b \<and> b < length (ss_succs ?s)
       \<and> set (ss_succs ?s ! b) = {c. search_edge f b c} \<and> {c. search_edge f b c} \<subseteq> set (ss_post ?s)"
    "led (\<lambda>b. ss_succs ?s ! b) (ss_post ?s)"
    by blast+
qed

lemma search_length: "length (ss_post (searched f)) \<le> length (ss_succs (searched f)) - 1"
proof -
  have "card (set (ss_post (searched f))) \<le> card {0<..<length (ss_succs (searched f))}"
    using searched_facts(4) [of f] by (intro card_mono) auto
  then show ?thesis
    using distinct_card [OF searched_facts(1)] by simp
qed

lemma search_index_nth:
  "length (search_index f) = length (ss_succs (searched f))"
  "i < length (ss_post (searched f)) \<Longrightarrow> unat (search_index f ! (ss_post (searched f) ! i)) = i"
  "b < length (ss_succs (searched f)) \<Longrightarrow> search_index f ! b \<noteq> UINT32_MAX \<longleftrightarrow> b \<in> set (ss_post (searched f))"
proof -
  let ?s = "searched f"
  have range: "\<forall>b \<in> set (ss_post ?s). b < length (ss_succs ?s)"
    using searched_facts(4) by blast
  note index = number_rpo_nth [OF searched_facts(1) range, folded search_index_def]
  show "length (search_index f) = length (ss_succs ?s)"
    by (rule index(1))
  have small: "i < 2 ^ 32 - 1" if "i < length (ss_post ?s)" for i
    using that search_length [of f] searched_facts(3) [of f] by linarith
  show unat: "unat (search_index f ! (ss_post ?s ! i)) = i" if "i < length (ss_post ?s)" for i
    using index(2) [OF that] small [OF that] by (simp add: unsigned_of_nat take_bit_nat_eq_self)
  have max: "unat UINT32_MAX = 2 ^ 32 - 1"
    by (simp add: UINT32_MAX_def)
  show "search_index f ! b \<noteq> UINT32_MAX \<longleftrightarrow> b \<in> set (ss_post ?s)" if "b < length (ss_succs ?s)"
  proof
    assume "b \<in> set (ss_post ?s)"
    then obtain i where "i < length (ss_post ?s)" "b = ss_post ?s ! i"
      by (auto simp: in_set_conv_nth)
    then show "search_index f ! b \<noteq> UINT32_MAX"
      using unat small max by (metis less_irrefl)
  qed (use index(3) that in blast)
qed

interpretation dom_tree: numbered_flow "set (ss_post (searched f))" "search_edge f" "hd (ss_post (searched f))" "search_index f"
  "ss_post (searched f)" "search_preds f" for f
proof
  let ?s = "searched f"
  note facts = searched_facts [of f]
  show "hd (ss_post ?s) \<in> set (ss_post ?s)" "0 \<notin> set (ss_post ?s)"
    using facts(2,4) by auto
  show "b \<in> set (ss_post ?s)" if "p \<in> set (ss_post ?s)" "search_edge f p b" for p b
    using facts(4) that by blast
  have ix: "rpo ! unat (search_index f ! b) = b" if "rpo = ss_post ?s" "b \<in> set rpo" for rpo b
    using that search_index_nth(2) [of _ f] by (auto simp: in_set_conv_nth)
  show "inj_on (\<lambda>b. unat (search_index f ! b)) (set (ss_post ?s))"
    by (rule inj_on_inverseI) (rule ix [OF refl])
  show "\<exists>p \<in> set (ss_post ?s). search_edge f p b \<and> unat (search_index f ! p) < unat (search_index f ! b)"
    if b: "b \<in> set (ss_post ?s)" "b \<noteq> hd (ss_post ?s)" for b
  proof -
    obtain xs ys where W: "ss_post ?s = xs @ b # ys"
      using split_list [OF b(1)] by blast
    then have "xs \<noteq> []"
      using b(2) by auto
    then obtain p where p: "p \<in> set xs" "b \<in> set (ss_succs ?s ! p)"
      using facts(5) W unfolding led_def by blast
    then obtain i where i: "i < length xs" "xs ! i = p"
      by (auto simp: in_set_conv_nth)
    have "unat (search_index f ! (ss_post ?s ! i)) = i" "unat (search_index f ! (ss_post ?s ! length xs)) = length xs"
      using search_index_nth(2) [of i f] search_index_nth(2) [of "length xs" f] i(1) W by simp_all
    then have "unat (search_index f ! p) < unat (search_index f ! b)"
      using i W by (simp add: nth_append)
    moreover have "p \<in> set (ss_post ?s)"
      using p(1) W by simp
    ultimately show ?thesis
      using facts(4) p(2) by blast
  qed
  show "set (search_preds f ! b) = {p \<in> set (ss_post ?s). search_edge f p b}" if "b \<in> set (ss_post ?s)" for b
    using facts(4) that by (auto simp: search_preds_def collect_preds_set)
  show "b < length (search_index f)" if "b \<in> set (ss_post ?s)" for b
    using facts(4) that by (simp add: search_index_nth(1))
qed (use search_index_nth(2) in simp_all)

section \<open>The dominator tree of a function\<close>

lemma compute_tree:
  assumes "flow_ok f"
  obtains t where "compute f = Some t" "dt_rpo t = ss_post (searched f)" "dt_rpo_index t = search_index f"
    "dt_entry t = fn_entry_block f" "dom_tree.full f ((!) (dt_idom t))" "dom_tree.round f ((!) (dt_idom t)) ((!) (dt_idom t))"
proof -
  let ?n = "length (fn_blocks f)"
  have e: "valid_block f (fn_entry_block f)" "fn_entry_block f \<noteq> 0"
    using assms by (auto simp: flow_ok_def valid_block_def)
  note s = searched_ok [OF assms]
  have n: "length (ss_succs (searched f)) = ?n" and hd: "hd (ss_post (searched f)) = fn_entry_block f"
    using s(2,3) by (auto simp: search_inv_def)
  have len: "length (search_index f) = ?n"
    by (simp add: search_index_nth(1) n)
  obtain K where K: "idom_rounds (length (search_index f) * length (search_index f) + 2) (search_index f) (search_preds f)
        (hd (ss_post (searched f))) (ss_post (searched f))
        ((replicate (length (search_index f)) 0)[hd (ss_post (searched f)) := hd (ss_post (searched f))]) = Some K"
      "dom_tree.full f ((!) K)" "dom_tree.round f ((!) K) ((!) K)"
    using dom_tree.idom_rounds_start [OF _ refl] by auto
  note rounds = K(1) [unfolded len hd]
  let ?t = "\<lparr>dt_rpo = ss_post (searched f), dt_rpo_index = search_index f, dt_idom = K, dt_entry = fn_entry_block f\<rparr>"
  note tables = search_index_def [of f, unfolded n, symmetric] search_preds_def [of f, unfolded n, symmetric]
  have "compute f = Some ?t"
    unfolding compute_def Let_def flow_ok_succs(1) [OF assms e(1)] option.case s(1) tables rounds using e(2) by (simp only: if_False)
  then show thesis
    by (rule that) (simp_all add: K(2,3))
qed

lemma compute_correct:
  assumes "flow_ok f"
  obtains t where "compute f = Some t"
    "\<And>b. reachable t b \<longleftrightarrow> (\<exists>xs. flow_path (flow_edge f) (fn_entry_block f) xs b)"
    "\<And>a b. dominates t a b = Some (reachable t b \<and> on_all_paths (flow_edge f) (fn_entry_block f) a b)"
    "\<And>d b. reachable t b \<Longrightarrow> b \<noteq> fn_entry_block f \<Longrightarrow>
       on_all_paths (flow_edge f) (fn_entry_block f) d (idom_of t b) \<longleftrightarrow> on_all_paths (flow_edge f) (fn_entry_block f) d b \<and> d \<noteq> b"
proof -
  obtain t where t: "compute f = Some t" "dt_rpo t = ss_post (searched f)" "dt_rpo_index t = search_index f"
      "dt_entry t = fn_entry_block f" "dom_tree.full f ((!) (dt_idom t))" "dom_tree.round f ((!) (dt_idom t)) ((!) (dt_idom t))"
    by (rule compute_tree [OF assms])
  have edge: "search_edge f = flow_edge f"
    using assms by (simp add: fun_eq_iff search_edge_def)
  have hd: "hd (ss_post (searched f)) = fn_entry_block f"
    using searched_ok(2,3) [OF assms] by (simp add: search_inv_def)
  have nodes: "reachable t b \<longleftrightarrow> b \<in> set (ss_post (searched f))" for b
    using search_index_nth(1) [of f] search_index_nth(3) [of b f] searched_facts(4) [of f] by (auto simp: reachable_def t(3))
  have r: "reachable t b \<longleftrightarrow> (\<exists>xs. flow_path (flow_edge f) (fn_entry_block f) xs b)" for b
    using dom_tree.reached_nodes [of b f] by (simp add: nodes edge hd)
  have "dominates t a b = Some (reachable t b \<and> on_all_paths (flow_edge f) (fn_entry_block f) a b)" for a b
  proof (cases "reachable t a \<and> reachable t b")
    case True
    then show ?thesis
      using dom_tree.climb_dominates [OF t(5,6), of a b] by (simp add: dominates_def t(3) nodes edge hd)
  next
    case False
    have "reachable t a" if "reachable t b" "on_all_paths (flow_edge f) (fn_entry_block f) a b"
      using that r dom_tree.path_nodes [of f _ b] by (fastforce simp: nodes edge hd on_all_paths_def)
    then show ?thesis
      using False by (auto simp: dominates_def)
  qed
  moreover have "on_all_paths (flow_edge f) (fn_entry_block f) d (idom_of t b) \<longleftrightarrow>
      on_all_paths (flow_edge f) (fn_entry_block f) d b \<and> d \<noteq> b" if "reachable t b" "b \<noteq> fn_entry_block f" for d b
    using dom_tree.parent_dominators [OF t(5,6), of b d] that by (simp add: nodes edge hd idom_of_def t(4))
  ultimately show thesis
    using that t(1) r by blast
qed

end
