(* ===== verification/Air_Verify_Dominance.thy ===== *)
theory Air_Verify_Dominance
  imports Air_Verify_Correct Air_Dominators_Correct
begin

text \<open>
  Definitions come before uses in a function the verifier accepts: every path from the entry to a
  use goes through the block of the definition, and within one block the definition is earlier.
\<close>

lemma verified_flow_ok:
  assumes ok: "verify_function m f = Some True" and def: "\<not> is_declaration f" and inv: "fn_inv f bs L"
    and linked: "\<forall>b. valid_block f b \<longrightarrow> b \<in> set bs" and small: "length (fn_blocks f) < 2 ^ 32"
  shows "flow_ok f"
proof -
  obtain t where body: "check_body m f (layout_of bs L)"
    by (rule verify_function_accepts [OF ok def inv])
  have entry: "valid_block f (fn_entry_block f)"
    using inv def by (cases bs) (auto simp: fn_inv_def blocks_inv_def is_declaration_def dll_def first_of_def)
  moreover have "collect_successor_blocks f b \<noteq> None \<and> (\<forall>c \<in> set (block_succs f b). valid_block f c)" if v: "valid_block f b" for b
  proof -
    have b: "b \<in> set bs"
      using linked v by blast
    note blk = check_body_block [OF body inv b]
    have "check_inst m f (last (L b))"
      using blk(1,4) by simp
    then have r: "read_successors f (last (L b)) = Some (successors f (last (L b)))"
        "\<And>c. c \<in> set (successors f (last (L b))) \<Longrightarrow> valid_block f (bc_target (block_call_of f c))"
      using check_inst_tables check_inst_edges by (auto simp: sound_edge_def call_target_def)
    then have "collect_successor_blocks f b = Some (if last (L b) = 0 then []
        else map (\<lambda>c. bc_target (block_call_of f c)) (successors f (last (L b))))"
      using v blk(2,3) by (simp add: collect_successor_blocks_def Let_def)
    then show ?thesis
      using r(2) by (simp add: block_succs_def)
  qed
  ultimately show ?thesis
    using small by (simp add: flow_ok_def)
qed

text \<open>The positions the verifier records are those of the lists of instructions.\<close>

lemma inst_positions_nth:
  assumes "inst_positions f (layout_of bs L) i = Some k"
  shows "\<exists>b \<in> set bs. k < length (L b) \<and> L b ! k = i"
proof -
  have "(i, k) \<in> set (concat (map (\<lambda>(b, insts). if bd_last (block f b) = 0 then [] else map (\<lambda>(pos, i). (i, pos)) (enumerate 0 insts))
      (rev (layout_of bs L))))"
    using assms unfolding inst_positions_def by (rule map_of_SomeD)
  then show ?thesis
    by (auto simp: layout_of_def in_set_enumerate_eq split: if_splits)
qed

lemma inst_positions_block:
  assumes "inst_positions f (layout_of bs L) i = Some k" "fn_inv f bs L" "in_block (inst f i) = b"
  shows "k < length (L b)" "L b ! k = i"
proof -
  obtain c where c: "c \<in> set bs" "k < length (L c)" "L c ! k = i"
    using inst_positions_nth [OF assms(1)] by blast
  then have "i \<in> set (L c)"
    by auto
  then have "c = b"
    using lists_invD(1) [OF fn_invD(2,1) [OF assms(2) c(1)]] assms(3) by simp
  then show "k < length (L b)" "L b ! k = i"
    using c by simp_all
qed

definition precedes :: "'a list \<Rightarrow> 'a \<Rightarrow> 'a \<Rightarrow> bool" where
  "precedes xs x y \<longleftrightarrow> (\<exists>j k. j < k \<and> k < length xs \<and> xs ! j = x \<and> xs ! k = y)"

text \<open>Where the definition of a value has to be for a use in block \<open>b\<close> at instruction \<open>i\<close>.\<close>

definition use_dominated :: "air_function \<Rightarrow> (block_id \<Rightarrow> inst_id list) \<Rightarrow> block_id \<Rightarrow> inst_id \<Rightarrow> value_id \<Rightarrow> bool" where
  "use_dominated f L b i v \<longleftrightarrow>
     (vd_kind (value_of f v) = InstResult \<longrightarrow>
        on_all_paths (flow_edge f) (fn_entry_block f) (in_block (inst f (def_inst f v))) b
        \<and> (in_block (inst f (def_inst f v)) = b \<longrightarrow> precedes (L b) (def_inst f v) i))
     \<and> (vd_kind (value_of f v) = BlockParam \<longrightarrow>
          on_all_paths (flow_edge f) (fn_entry_block f) (unat (ucast (vd_payload (value_of f v)) :: u32)) b)"

lemma on_all_paths_self: "on_all_paths edge entry b b"
  unfolding on_all_paths_def by (auto elim: flow_path.cases)

lemma verified_uses:
  assumes ok: "verify_function m f = Some True" and def: "\<not> is_declaration f" and inv: "fn_inv f bs L"
    and linked: "\<forall>b. valid_block f b \<longrightarrow> b \<in> set bs" and small: "length (fn_blocks f) < 2 ^ 32"
    and b: "flow_path (flow_edge f) (fn_entry_block f) xs b" and i: "b \<in> set bs" "i \<in> set (L b)"
    and v: "v \<in> set (operands f i @ concat (map (block_call_args f) (successors f i)))" "valid_value f v"
  shows "use_dominated f L b i v"
proof -
  let ?pos = "inst_positions f (layout_of bs L)"
  obtain t where t: "compute f = Some t" and body: "check_body m f (layout_of bs L)"
      and doms: "\<forall>b \<in> set bs. check_block_dominance t f ?pos (b, L b) = Some True"
    by (rule verify_function_accepts [OF ok def inv])
  obtain t' where t': "compute f = Some t'"
      "\<And>b. reachable t' b \<longleftrightarrow> (\<exists>xs. flow_path (flow_edge f) (fn_entry_block f) xs b)"
      "\<And>a b. dominates t' a b = Some (reachable t' b \<and> on_all_paths (flow_edge f) (fn_entry_block f) a b)"
    by (rule compute_correct [OF verified_flow_ok [OF ok def inv linked small]]) blast
  have same: "t' = t"
    using t t'(1) by simp
  have dom: "dominates t a b = Some True \<longleftrightarrow> on_all_paths (flow_edge f) (fn_entry_block f) a b" for a
    using t'(2,3) b unfolding same by auto
  have "check_inst_uses t f ?pos b i = Some True"
    using doms i t'(2) [of b] b unfolding same by (auto simp: check_block_dominance_def check_all_True)
  then obtain use_pos where u: "?pos i = Some use_pos" "check_use t f ?pos b use_pos v = Some True"
    using check_inst_tables [OF check_body_block(4) [OF body inv i]] v(1)
    by (auto simp: check_inst_uses_def check_all_True split: option.splits)
  have "in_block (inst f i) = b"
    using lists_invD(1) [OF fn_invD(2,1) [OF inv i(1)]] i(2) by simp
  note at_i = inst_positions_block [OF u(1) inv this]
  have "precedes (L b) (def_inst f v) i"
    if kind: "vd_kind (value_of f v) = InstResult" "in_block (inst f (def_inst f v)) = b"
  proof -
    obtain def_pos where d: "?pos (def_inst f v) = Some def_pos" "def_pos < use_pos"
      using u(2) kind v(2) by (auto simp: check_use_def Let_def split: if_splits)
    note at_d = inst_positions_block [OF d(1) inv kind(2)]
    show ?thesis
      unfolding precedes_def by (rule exI [of _ def_pos], rule exI [of _ use_pos]) (simp add: d(2) at_i at_d)
  qed
  moreover have "on_all_paths (flow_edge f) (fn_entry_block f) (in_block (inst f (def_inst f v))) b"
    if "vd_kind (value_of f v) = InstResult"
    using u(2) that v(2) dom on_all_paths_self by (auto simp: check_use_def Let_def split: if_splits)
  moreover have "on_all_paths (flow_edge f) (fn_entry_block f) (unat (ucast (vd_payload (value_of f v)) :: u32)) b"
    if "vd_kind (value_of f v) = BlockParam"
    using u(2) that v(2) dom on_all_paths_self by (auto simp: check_use_def Let_def split: if_splits)
  ultimately show ?thesis
    by (simp add: use_dominated_def)
qed

end
