(* ===== verification/Air_Mem2reg.thy ===== *)
theory Air_Mem2reg
  imports Air_Cfg
begin

text \<open>
  Promotion of stack slots to values (\<open>run_mem2reg\<close> and \<open>SlotPromoter\<close> of \<open>air/passes_opt.cpp\<close>):
  a slot of the entry block whose address is only loaded from and stored to, always at one
  scalar type of its size, is replaced by the values stored, passed through block parameters
  where control flow meets. The promoter walks an unordered map; \<open>order\<close> is the order in which
  the library lists its keys.
\<close>

section \<open>State\<close>

record slot_facts =
  sf_alloc :: inst_id
  sf_pointer :: value_id
  sf_type :: type_id
  sf_promotable :: bool
  sf_loads :: "inst_id list"
  sf_stores :: "inst_id list"

record block_access =
  ba_loads :: "(inst_id \<times> value_id) list"
  ba_local_out :: value_id

record promoter =
  pr_func :: air_function
  pr_accesses :: "(block_id \<times> block_access) list"
  pr_in :: "(block_id \<times> value_id) list"
  pr_inserted :: "(block_id \<times> value_id) list"

section \<open>Accesses\<close>

text \<open>\<open>accesses_[b]\<close> makes an empty entry when there is none; a new key comes last.\<close>

fun update_access :: "block_id \<Rightarrow> (block_access \<Rightarrow> block_access) \<Rightarrow> (block_id \<times> block_access) list \<Rightarrow> (block_id \<times> block_access) list" where
  "update_access b upd [] = [(b, upd \<lparr>ba_loads = [], ba_local_out = 0\<rparr>)]"
| "update_access b upd ((c, a) # rest) = (if c = b then (c, upd a) # rest else (c, a) # update_access b upd rest)"

definition access_visit :: "air_function \<Rightarrow> slot_facts \<Rightarrow> block_id \<Rightarrow> inst_id \<Rightarrow> value_id \<times> (block_id \<times> block_access) list \<Rightarrow>
    value_id \<times> (block_id \<times> block_access) list" where
  "access_visit f slot b i st =
     (case st of (running, accesses) \<Rightarrow>
        let op = in_op (inst f i)
        in if op = OpLoad \<and> operands f i ! 0 = sf_pointer slot
           then (running, update_access b (\<lambda>a. a\<lparr>ba_loads := ba_loads a @ [(i, running)]\<rparr>) accesses)
           else if op = OpStore \<and> operands f i ! 1 = sf_pointer slot
           then (operands f i ! 0, update_access b (\<lambda>a. a\<lparr>ba_local_out := operands f i ! 0\<rparr>) accesses)
           else (running, accesses))"

fun block_accesses :: "air_function \<Rightarrow> slot_facts \<Rightarrow> block_id list \<Rightarrow> (block_id \<times> block_access) list \<Rightarrow>
    (block_id \<times> block_access) list option" where
  "block_accesses f slot [] accesses = Some accesses"
| "block_accesses f slot (b # bs) accesses =
     (case inst_order f b of
        None \<Rightarrow> None
      | Some insts \<Rightarrow> block_accesses f slot bs (snd (fold (access_visit f slot b) insts (0, accesses))))"

definition collect_block_accesses :: "air_function \<Rightarrow> slot_facts \<Rightarrow> (block_id \<times> block_access) list option" where
  "collect_block_accesses f slot =
     (case block_order f of None \<Rightarrow> None | Some bs \<Rightarrow> block_accesses f slot bs [])"

section \<open>Values at block boundaries\<close>

definition local_out :: "promoter \<Rightarrow> block_id \<Rightarrow> value_id" where
  "local_out p b = (case map_of (pr_accesses p) b of Some access \<Rightarrow> ba_local_out access | None \<Rightarrow> 0)"

definition set_in :: "block_id \<Rightarrow> value_id \<Rightarrow> promoter \<Rightarrow> promoter" where
  "set_in b v p = p\<lparr>pr_in := (b, v) # pr_in p\<rparr>"

definition undef_in :: "slot_facts \<Rightarrow> block_id \<Rightarrow> promoter \<Rightarrow> value_id \<times> promoter" where
  "undef_in slot b p = (case undef (sf_type slot) (pr_func p) of (v, f) \<Rightarrow> (v, set_in b v (p\<lparr>pr_func := f\<rparr>)))"

definition param_in :: "slot_facts \<Rightarrow> block_id \<Rightarrow> promoter \<Rightarrow> value_id \<times> promoter" where
  "param_in slot b p =
     (case append_block_param b (sf_type slot) (pr_func p) of
        (param, f) \<Rightarrow> (param, (set_in b param (p\<lparr>pr_func := f\<rparr>))\<lparr>pr_inserted := pr_inserted p @ [(b, param)]\<rparr>))"

text \<open>
  The recursion follows the predecessors; its depth is bounded by the fuel, and \<open>None\<close> is a
  recursion that does not return.
\<close>

function (sequential) value_in :: "nat \<Rightarrow> slot_facts \<Rightarrow> cfg_facts \<Rightarrow> block_id \<Rightarrow> promoter \<Rightarrow> (value_id \<times> promoter) option"
  and value_out :: "nat \<Rightarrow> slot_facts \<Rightarrow> cfg_facts \<Rightarrow> block_id \<Rightarrow> promoter \<Rightarrow> (value_id \<times> promoter) option"
  and pass_values :: "nat \<Rightarrow> slot_facts \<Rightarrow> cfg_facts \<Rightarrow> pred_edge list \<Rightarrow> promoter \<Rightarrow> promoter option" where
  "value_in 0 slot facts b p = None"
| "value_in (Suc n) slot facts b p =
     (case map_of (pr_in p) b of
        Some v \<Rightarrow> Some (v, p)
      | None \<Rightarrow>
          if b = fn_entry_block (pr_func p) then Some (undef_in slot b p)
          else if preds facts b = [] then Some (undef_in slot b p)
          else if length (preds facts b) = 1 then
            (if pe_from (preds facts b ! 0) = b then Some (undef_in slot b p)
             else case value_out n slot facts (pe_from (preds facts b ! 0)) p of
                 None \<Rightarrow> None
               | Some (v, p') \<Rightarrow> Some (v, set_in b v p'))
          else
            (case param_in slot b p of
               (param, p1) \<Rightarrow> map_option (Pair param) (pass_values n slot facts (preds facts b) p1)))"
| "value_out n slot facts b p = (if local_out p b \<noteq> 0 then Some (local_out p b, p) else value_in n slot facts b p)"
| "pass_values n slot facts [] p = Some p"
| "pass_values n slot facts (edge # edges) p =
     (case value_out n slot facts (pe_from edge) p of
        None \<Rightarrow> None
      | Some (v, p') \<Rightarrow>
          pass_values n slot facts edges (p'\<lparr>pr_func := append_block_call_arg (pe_call edge) v (pr_func p')\<rparr>))"
  by pat_completeness auto

termination
  by (relation "measures
      [\<lambda>x. case x of Inl (n, _) \<Rightarrow> 3 * n | Inr (Inl (n, _)) \<Rightarrow> 3 * n + 1 | Inr (Inr (n, _)) \<Rightarrow> 3 * n + 2,
       \<lambda>x. case x of Inr (Inr (n, slot, facts, edges, p)) \<Rightarrow> length edges | _ \<Rightarrow> 0]") auto

section \<open>Parameters that turn out trivial\<close>

text \<open>The one value other than the parameter that the edges pass, 0 when there is none; \<open>None\<close> when there are two.\<close>

fun unique_arg :: "air_function \<Rightarrow> value_id \<Rightarrow> nat \<Rightarrow> pred_edge list \<Rightarrow> value_id \<Rightarrow> value_id option" where
  "unique_arg f param index [] unique = Some unique"
| "unique_arg f param index (edge # edges) unique =
     (let arg = block_call_args f (pe_call edge) ! index
      in if arg = param then unique_arg f param index edges unique
         else if unique \<noteq> 0 \<and> arg \<noteq> unique then None
         else unique_arg f param index edges arg)"

definition prune_param :: "cfg_facts \<Rightarrow> block_id \<times> value_id \<Rightarrow> air_function \<Rightarrow> value_id \<times> air_function" where
  "prune_param facts bp f =
     (case bp of (b, param) \<Rightarrow>
        if param = 0 then (param, f)
        else
          let index = unat (ucast (vd_payload2 (value_of f param)) :: u32)
          in (case unique_arg f param index (preds facts b) 0 of
               None \<Rightarrow> (param, f)
             | Some unique \<Rightarrow>
                 if unique = 0 then (param, f)
                 else
                   let f1 = replace_all_uses param unique f;
                       f2 = fold (\<lambda>edge. remove_block_call_arg (pe_call edge) index) (preds facts b) f1
                   in (0, remove_block_param b index f2)))"

fun prune_round :: "cfg_facts \<Rightarrow> (block_id \<times> value_id) list \<Rightarrow> bool \<Rightarrow> air_function \<Rightarrow>
    bool \<times> (block_id \<times> value_id) list \<times> air_function" where
  "prune_round facts [] changed f = (changed, [], f)"
| "prune_round facts ((b, param) # rest) changed f =
     (case prune_param facts (b, param) f of
        (param', f') \<Rightarrow>
          (case prune_round facts rest (changed \<or> param' \<noteq> param) f' of (c, rest', f'') \<Rightarrow> (c, (b, param') # rest', f'')))"

text \<open>Every round but the last prunes a parameter.\<close>

fun prune_trivial_params :: "nat \<Rightarrow> cfg_facts \<Rightarrow> (block_id \<times> value_id) list \<Rightarrow> air_function \<Rightarrow> air_function option" where
  "prune_trivial_params 0 facts inserted f = None"
| "prune_trivial_params (Suc n) facts inserted f =
     (case prune_round facts inserted False f of
        (changed, inserted', f') \<Rightarrow> if changed then prune_trivial_params n facts inserted' f' else Some f')"

section \<open>Promotion\<close>

fun replace_loads :: "nat \<Rightarrow> slot_facts \<Rightarrow> cfg_facts \<Rightarrow> block_id \<Rightarrow> (inst_id \<times> value_id) list \<Rightarrow> promoter \<Rightarrow> promoter option" where
  "replace_loads fuel slot facts b [] p = Some p"
| "replace_loads fuel slot facts b ((load, local_value) # loads) p =
     (case (if local_value \<noteq> 0 then Some (local_value, p) else value_in fuel slot facts b p) of
        None \<Rightarrow> None
      | Some (reaching, p') \<Rightarrow>
          replace_loads fuel slot facts b loads
            (p'\<lparr>pr_func := replace_all_uses (in_result (inst (pr_func p') load)) reaching (pr_func p')\<rparr>))"

fun replace_all_loads :: "nat \<Rightarrow> slot_facts \<Rightarrow> cfg_facts \<Rightarrow> block_id list \<Rightarrow> promoter \<Rightarrow> promoter option" where
  "replace_all_loads fuel slot facts [] p = Some p"
| "replace_all_loads fuel slot facts (b # bs) p =
     (case map_of (pr_accesses p) b of
        None \<Rightarrow> replace_all_loads fuel slot facts bs p
      | Some access \<Rightarrow>
          (case replace_loads fuel slot facts b (ba_loads access) p of
             None \<Rightarrow> None
           | Some p' \<Rightarrow> replace_all_loads fuel slot facts bs p'))"

definition promote_slot :: "(block_id list \<Rightarrow> block_id list) \<Rightarrow> slot_facts \<Rightarrow> cfg_facts \<Rightarrow> air_function \<Rightarrow> air_function option" where
  "promote_slot order slot facts f =
     (case collect_block_accesses f slot of
        None \<Rightarrow> None
      | Some accesses \<Rightarrow>
          (case replace_all_loads (length (fn_blocks f) + 1) slot facts (order (map fst accesses))
                  \<lparr>pr_func = f, pr_accesses = accesses, pr_in = [], pr_inserted = []\<rparr> of
             None \<Rightarrow> None
           | Some p \<Rightarrow>
               let f1 = fold remove_inst (sf_loads slot) (pr_func p);
                   f2 = fold remove_inst (sf_stores slot) f1;
                   f3 = remove_inst (sf_alloc slot) f2
               in prune_trivial_params (length (pr_inserted p) + 1) facts (pr_inserted p) f3))"

section \<open>The pass\<close>

definition new_slot :: "air_function \<Rightarrow> inst_id \<Rightarrow> slot_facts" where
  "new_slot f i =
     \<lparr>sf_alloc = i, sf_pointer = in_result (inst f i), sf_type = 0, sf_promotable = True, sf_loads = [], sf_stores = []\<rparr>"

definition entry_slots :: "air_function \<Rightarrow> slot_facts list option" where
  "entry_slots f =
     map_option (\<lambda>insts. map (new_slot f) (filter (\<lambda>i. in_op (inst f i) = OpStackAlloc) insts))
       (inst_order f (fn_entry_block f))"

text \<open>A scalar type of the size of the slot that agrees with the accesses seen before.\<close>

definition type_fits_slot :: "type_table \<Rightarrow> u32 \<Rightarrow> air_function \<Rightarrow> slot_facts \<Rightarrow> type_id \<Rightarrow> bool" where
  "type_fits_slot tt ptr_bytes f slot ty \<longleftrightarrow>
     \<not> (\<not> is_scalar tt ty
        \<or> byte_size tt ty ptr_bytes \<noteq> stack_alloc_size (in_aux (inst f (sf_alloc slot)))
        \<or> (sf_type slot \<noteq> 0 \<and> sf_type slot \<noteq> ty))"

definition classify_use :: "type_table \<Rightarrow> u32 \<Rightarrow> air_function \<Rightarrow> inst_id \<Rightarrow> nat \<Rightarrow> slot_facts \<Rightarrow> slot_facts" where
  "classify_use tt ptr_bytes f i index slot =
     (let data = inst f i
      in if in_op data = OpLoad \<and> index = 0 \<and> in_flags data AND INST_FLAG_VOLATILE = 0 then
           (if type_fits_slot tt ptr_bytes f slot (in_type data)
            then slot\<lparr>sf_type := in_type data, sf_loads := sf_loads slot @ [i]\<rparr> else slot\<lparr>sf_promotable := False\<rparr>)
         else if in_op data = OpStore \<and> index = 1 \<and> in_flags data AND INST_FLAG_VOLATILE = 0 then
           (let ty = value_type f (operands f i ! 0)
            in if type_fits_slot tt ptr_bytes f slot ty
               then slot\<lparr>sf_type := ty, sf_stores := sf_stores slot @ [i]\<rparr> else slot\<lparr>sf_promotable := False\<rparr>)
         else slot\<lparr>sf_promotable := False\<rparr>)"

text \<open>The slot an operand points to, by the pointer the entry block made for it. Two slots never share
  a pointer, the result of their allocation.\<close>

definition update_slot :: "value_id \<Rightarrow> (slot_facts \<Rightarrow> slot_facts) \<Rightarrow> slot_facts list \<Rightarrow> slot_facts list" where
  "update_slot v upd found = map (\<lambda>slot. if sf_pointer slot = v then upd slot else slot) found"

definition scan_inst :: "type_table \<Rightarrow> u32 \<Rightarrow> air_function \<Rightarrow> inst_id \<Rightarrow> slot_facts list \<Rightarrow> slot_facts list" where
  "scan_inst tt ptr_bytes f i found =
     (let ops = operands f i;
          found1 = fold (\<lambda>index. update_slot (ops ! index) (classify_use tt ptr_bytes f i index)) [0..<length ops] found
      in fold (\<lambda>call. fold (\<lambda>arg. update_slot arg (\<lambda>slot. slot\<lparr>sf_promotable := False\<rparr>)) (block_call_args f call))
           (successors f i) found1)"

fun scan_blocks :: "type_table \<Rightarrow> u32 \<Rightarrow> air_function \<Rightarrow> block_id list \<Rightarrow> slot_facts list \<Rightarrow> slot_facts list option" where
  "scan_blocks tt ptr_bytes f [] found = Some found"
| "scan_blocks tt ptr_bytes f (b # bs) found =
     (case inst_order f b of
        None \<Rightarrow> None
      | Some insts \<Rightarrow> scan_blocks tt ptr_bytes f bs (fold (scan_inst tt ptr_bytes f) insts found))"

fun promote_slots :: "(block_id list \<Rightarrow> block_id list) \<Rightarrow> cfg_facts \<Rightarrow> slot_facts list \<Rightarrow> bool \<Rightarrow> air_function \<Rightarrow> (bool \<times> air_function) option" where
  "promote_slots order facts [] changed f = Some (changed, f)"
| "promote_slots order facts (slot # found) changed f =
     (if \<not> sf_promotable slot \<or> sf_type slot = 0 then promote_slots order facts found changed f
      else case promote_slot order slot facts f of
          None \<Rightarrow> None
        | Some f' \<Rightarrow> promote_slots order facts found True f')"

definition run_mem2reg :: "(block_id list \<Rightarrow> block_id list) \<Rightarrow> type_table \<Rightarrow> nat \<Rightarrow> air_function \<Rightarrow> (bool \<times> air_function) option" where
  "run_mem2reg order tt pointer_width f =
     (case collect_cfg_facts f of
        None \<Rightarrow> None
      | Some facts \<Rightarrow>
          if cf_indirect facts then Some (False, f)
          else
            let ptr_bytes = of_nat (pointer_width div 8)
            in (case entry_slots f of
                 None \<Rightarrow> None
               | Some found \<Rightarrow>
                   if found = [] then Some (False, f)
                   else
                     (case block_order f of
                        None \<Rightarrow> None
                      | Some bs \<Rightarrow>
                          (case scan_blocks tt ptr_bytes f bs found of
                             None \<Rightarrow> None
                           | Some found' \<Rightarrow> promote_slots order facts found' False f))))"

end
