(* ===== verification/Air_Pipeline.thy ===== *)
theory Air_Pipeline
  imports Air_Verify_Function Air_Mem2reg Air_Dce Air_Fold
begin

text \<open>
  The pass pipeline (\<open>air/passes.h\<close>, \<open>run_pipeline\<close> of \<open>air/passes.cpp\<close>, \<open>run_o1_pipeline\<close> of
  \<open>air/passes_opt.cpp\<close>): every pass runs on every function with a body, and a function a pass
  changed is verified. Of the error text the name of the pass is kept. \<open>None\<close> is a pass that does
  not return or a verification that reads outside a vector.
\<close>

text \<open>A pass gets the module to change; the passes of the sources only read it, so what is returned is
  the function and whether it changed.\<close>

record function_pass =
  fp_name :: string
  fp_run :: "air_function \<Rightarrow> air_module \<Rightarrow> (bool \<times> air_function) option"

record pipeline_result =
  pl_changed :: bool
  pl_verified :: bool
  pl_failed_pass :: string

definition no_result :: pipeline_result where
  "no_result = \<lparr>pl_changed = False, pl_verified = True, pl_failed_pass = ''''\<rparr>"

text \<open>One pass on one function; the pipeline goes on while the result is verified.\<close>

definition run_pass :: "bool \<Rightarrow> function_pass \<Rightarrow> nat \<Rightarrow> air_module \<times> pipeline_result \<Rightarrow> (air_module \<times> pipeline_result) option" where
  "run_pass verify_each pass i st =
     (case st of (m, result) \<Rightarrow>
        let func = function_of m i
        in if is_declaration func then Some (m, result)
           else
             (case fp_run pass func m of
                None \<Rightarrow> None
              | Some (changed, func') \<Rightarrow>
                  let m' = put_function i func' m; result' = result\<lparr>pl_changed := pl_changed result \<or> changed\<rparr>
                  in if changed \<and> verify_each then
                       (case verify_function m' func' of
                          None \<Rightarrow> None
                        | Some ok \<Rightarrow>
                            Some (m', if ok then result' else result'\<lparr>pl_verified := False, pl_failed_pass := fp_name pass\<rparr>))
                     else Some (m', result')))"

fun run_steps :: "bool \<Rightarrow> (function_pass \<times> nat) list \<Rightarrow> air_module \<times> pipeline_result \<Rightarrow> (air_module \<times> pipeline_result) option" where
  "run_steps verify_each [] st = Some st"
| "run_steps verify_each ((pass, i) # steps) st =
     (case run_pass verify_each pass i st of
        None \<Rightarrow> None
      | Some st' \<Rightarrow> if pl_verified (snd st') then run_steps verify_each steps st' else Some st')"

text \<open>The passes are the outer loop, the functions the inner one; no pass makes a function.\<close>

definition run_pipeline :: "function_pass list \<Rightarrow> bool \<Rightarrow> air_module \<Rightarrow> (air_module \<times> pipeline_result) option" where
  "run_pipeline passes verify_each m =
     run_steps verify_each (concat (map (\<lambda>pass. map (Pair pass) [1..<function_count m + 1]) passes)) (m, no_result)"

definition kPasses :: "(block_id list \<Rightarrow> block_id list) \<Rightarrow> function_pass list" where
  "kPasses order =
     [\<lparr>fp_name = ''simplify_cfg'', fp_run = \<lambda>f m. run_simplify_cfg f\<rparr>,
      \<lparr>fp_name = ''mem2reg'', fp_run = \<lambda>f m. run_mem2reg order (ma_types m) (ma_pointer_width m) f\<rparr>,
      \<lparr>fp_name = ''instsimplify'', fp_run = \<lambda>f m. run_instsimplify (ma_types m) f\<rparr>,
      \<lparr>fp_name = ''dce'', fp_run = \<lambda>f m. run_dce f\<rparr>]"

fun o1_rounds :: "nat \<Rightarrow> (block_id list \<Rightarrow> block_id list) \<Rightarrow> bool \<Rightarrow> air_module \<times> pipeline_result \<Rightarrow> (air_module \<times> pipeline_result) option" where
  "o1_rounds 0 order verify_each st = Some st"
| "o1_rounds (Suc n) order verify_each (m, overall) =
     (case run_pipeline (kPasses order) verify_each m of
        None \<Rightarrow> None
      | Some (m', result) \<Rightarrow>
          let overall2 = overall\<lparr>pl_changed := pl_changed overall \<or> pl_changed result\<rparr>
          in if \<not> pl_verified result
             then Some (m', overall2\<lparr>pl_verified := False, pl_failed_pass := pl_failed_pass result\<rparr>)
             else if \<not> pl_changed result then Some (m', overall2)
             else o1_rounds n order verify_each (m', overall2))"

definition run_o1_pipeline :: "(block_id list \<Rightarrow> block_id list) \<Rightarrow> bool \<Rightarrow> air_module \<Rightarrow> (air_module \<times> pipeline_result) option" where
  "run_o1_pipeline order verify_each m = o1_rounds 3 order verify_each (m, no_result)"

end
