(* ===== verification/Air_Pipeline_Correct.thy ===== *)
theory Air_Pipeline_Correct
  imports Air_Pipeline
begin

text \<open>
  A pipeline that verifies after every change and reports no failure leaves a module all of whose
  functions the verifier accepts.
\<close>

text \<open>What the verification of a function reads of the module.\<close>

definition same_interface :: "air_module \<Rightarrow> air_module \<Rightarrow> bool" where
  "same_interface m m' \<longleftrightarrow>
     ma_types m' = ma_types m \<and> ma_pointer_width m' = ma_pointer_width m \<and> ma_globals m' = ma_globals m
     \<and> ma_asm_payloads m' = ma_asm_payloads m \<and> ma_eh_payloads m' = ma_eh_payloads m
     \<and> length (ma_functions m') = length (ma_functions m)
     \<and> (\<forall>i. valid_func m i \<longrightarrow> fn_sig (function_of m' i) = fn_sig (function_of m i))"

lemma same_interface_refl [simp]: "same_interface m m"
  by (simp add: same_interface_def)

lemma same_interface_valid: "same_interface m m' \<Longrightarrow> valid_func m' i = valid_func m i"
  by (simp add: same_interface_def valid_func_def)

lemma same_interface_put:
  assumes "same_interface m m'" "valid_func m i" "fn_sig f = fn_sig (function_of m' i)"
  shows "same_interface m (put_function i f m')"
  using assms by (auto simp: same_interface_def put_function_def function_of_def valid_func_def nth_list_update)

lemma check_inst_interface:
  assumes "same_interface m m'"
  shows "check_inst m' f i = check_inst m f i"
proof -
  have eq: "ma_types m' = ma_types m" "ma_pointer_width m' = ma_pointer_width m" "ma_asm_payloads m' = ma_asm_payloads m"
    "ma_eh_payloads m' = ma_eh_payloads m" "valid_global m' = valid_global m" "valid_func m' = valid_func m"
    using assms by (simp_all add: same_interface_def fun_eq_iff valid_global_def valid_func_def)
  have "check_eh_inst m' f i = check_eh_inst m f i" "check_asm_inst m' f i = check_asm_inst m f i"
    "check_flow_inst m' f i = check_flow_inst m f i"
    by (simp_all only: check_eh_inst_def check_asm_inst_def check_flow_inst_def eh_payload_of_def asm_payload_of_def eq)
  moreover have "check_call_inst m' f i = check_call_inst m f i"
  proof (cases "valid_func m (unat (ucast (in_aux (inst f i)) :: u32))")
    case True
    then show ?thesis
      using assms by (simp add: check_call_inst_def eq same_interface_def)
  qed (simp add: check_call_inst_def eq)
  ultimately show ?thesis
    by (simp add: check_inst_def eq)
qed

lemma verify_function_interface:
  assumes "same_interface m m'"
  shows "verify_function m' f = verify_function m f"
proof -
  have "check_body m' f = check_body m f"
  proof -
    have "check_inst m' f = check_inst m f"
      using check_inst_interface [OF assms] by (simp add: fun_eq_iff)
    then show ?thesis
      using assms by (intro ext) (simp add: check_body_def same_interface_def)
  qed
  moreover have "ma_types m' = ma_types m"
    using assms by (simp add: same_interface_def)
  ultimately show ?thesis
    by (simp add: verify_function_def Let_def cong: option.case_cong)
qed

text \<open>A pass keeps the signature of the function and says whether it changed it.\<close>

definition honest_pass :: "function_pass \<Rightarrow> bool" where
  "honest_pass pass \<longleftrightarrow>
     (\<forall>f m changed f'. fp_run pass f m = Some (changed, f') \<longrightarrow> fn_sig f' = fn_sig f \<and> (\<not> changed \<longrightarrow> f' = f))"

definition all_verified :: "air_module \<Rightarrow> bool" where
  "all_verified m \<longleftrightarrow> (\<forall>i. valid_func m i \<longrightarrow> verify_function m (function_of m i) = Some True)"

lemma function_of_put:
  "valid_func m i \<Longrightarrow> function_of (put_function i f m) j = (if j = i then f else function_of m j)"
  by (simp add: function_of_def put_function_def valid_func_def)

lemma run_pass_verified:
  assumes run: "run_pass True pass i (m, r) = Some (m', r')" and r: "pl_verified r" "pl_verified r'"
    and h: "honest_pass pass" and i: "valid_func m i" and ok: "all_verified m"
  shows "same_interface m m' \<and> all_verified m'"
proof (cases "is_declaration (function_of m i)")
  case True
  then show ?thesis
    using run ok by (simp add: run_pass_def Let_def)
next
  case False
  then obtain changed f' where p: "fp_run pass (function_of m i) m = Some (changed, f')"
    using run by (auto simp: run_pass_def Let_def split: option.splits)
  have m': "m' = put_function i f' m"
    using run False p by (auto simp: run_pass_def Let_def split: option.splits if_splits)
  have sig: "fn_sig f' = fn_sig (function_of m i)" "\<not> changed \<Longrightarrow> f' = function_of m i"
    using h p unfolding honest_pass_def by blast+
  then have s: "same_interface m m'"
    unfolding m' using i by (intro same_interface_put) simp_all
  have "verify_function m' f' = Some True"
  proof (cases changed)
    case True
    then show ?thesis
      using run False p r by (auto simp: run_pass_def Let_def m' split: option.splits if_splits)
  next
    case False
    then show ?thesis
      using sig(2) ok i verify_function_interface [OF s] by (simp add: all_verified_def)
  qed
  then have "all_verified m'"
    using ok verify_function_interface [OF s] same_interface_valid [OF s] function_of_put [OF i]
    by (auto simp: all_verified_def m')
  then show ?thesis
    using s by simp
qed

lemma run_steps_verified:
  assumes "run_steps True steps (m, r) = Some (m', r')" "pl_verified r" "pl_verified r'"
    and "\<And>p i. (p, i) \<in> set steps \<Longrightarrow> honest_pass p \<and> valid_func m i" "all_verified m"
  shows "all_verified m'"
  using assms
proof (induction steps arbitrary: m r)
  case (Cons step steps)
  obtain p i where step: "step = (p, i)"
    by fastforce
  obtain m1 r1 where one: "run_pass True p i (m, r) = Some (m1, r1)"
    using Cons.prems(1) step by (auto split: option.splits)
  have v1: "pl_verified r1" and rest: "run_steps True steps (m1, r1) = Some (m', r')"
    using Cons.prems(1,3) step one by (auto split: if_splits)
  have s: "same_interface m m1 \<and> all_verified m1"
    using Cons.prems(4) [of p i] step by (intro run_pass_verified [OF one Cons.prems(2) v1 _ _ Cons.prems(5)]) simp_all
  show ?case
  proof (rule Cons.IH [OF rest v1 Cons.prems(3)])
    show "honest_pass p \<and> valid_func m1 i" if "(p, i) \<in> set steps" for p i
      using Cons.prems(4) [of p i] that s same_interface_valid by auto
    show "all_verified m1"
      using s by simp
  qed
qed simp

lemma run_pipeline_all_verified:
  assumes "run_pipeline passes True m = Some (m', r)" "pl_verified r" "\<forall>p \<in> set passes. honest_pass p" "all_verified m"
  shows "all_verified m'"
proof (rule run_steps_verified [OF assms(1) [unfolded run_pipeline_def] _ assms(2) _ assms(4)])
  show "pl_verified no_result"
    by (simp add: no_result_def)
  show "honest_pass p \<and> valid_func m i" if "(p, i) \<in> set (concat (map (\<lambda>pass. map (Pair pass) [1..<function_count m + 1]) passes))" for p i
    using that assms(3) by (auto simp: valid_func_def function_count_def)
qed

section \<open>Dead code elimination is honest\<close>

lemma visit_keeps:
  assumes "\<And>i s. P s \<Longrightarrow> P (body i s)"
  shows "visit fuel nx body i s = Some s' \<Longrightarrow> P s \<Longrightarrow> P s'"
proof (induction fuel arbitrary: i s)
  case 0
  then show ?case
    by (cases "i = 0") (simp_all add: visit.simps [of 0])
next
  case (Suc n)
  then show ?case
    using assms by (cases "i = 0") simp_all
qed

lemma for_each_keeps:
  assumes "\<And>i s s'. P s \<Longrightarrow> body i s = Some s' \<Longrightarrow> P s'"
  shows "for_each fuel nx body i s = Some s' \<Longrightarrow> P s \<Longrightarrow> P s'"
proof (induction fuel arbitrary: i s)
  case 0
  then show ?case
    by (cases "i = 0") (simp_all add: for_each.simps [of 0])
next
  case (Suc n)
  then show ?case
    using assms by (cases "i = 0") (auto split: option.splits)
qed

definition honest_result :: "air_function \<Rightarrow> bool \<times> air_function \<Rightarrow> bool" where
  "honest_result f r \<longleftrightarrow> fn_sig (snd r) = fn_sig f \<and> (\<not> fst r \<longrightarrow> snd r = f)"

lemma remove_inst_sig: "fn_sig (remove_inst i f) = fn_sig f"
  by (simp add: remove_inst_def Let_def set_inst_def set_block_def)

lemma dce_round_honest:
  assumes "dce_round f = Some r"
  shows "honest_result f r"
proof -
  obtain vs where run: "for_each (length (fn_blocks f)) (\<lambda>st b. bd_next (block (snd st) b)) (dce_block (count_list vs))
      (fn_entry_block f) (False, f) = Some r"
    using assms by (auto simp: dce_round_def split: option.splits)
  have one: "honest_result f (dce_visit u i st)" if "honest_result f st" for u i st
    using that remove_inst_sig by (auto simp: honest_result_def dce_visit_def split_def)
  have "honest_result f st'" if "honest_result f st" "dce_block (count_list vs) b st = Some st'" for b st st'
    using visit_keeps [of "honest_result f", OF one that(2) [unfolded dce_block_def] that(1)] .
  from for_each_keeps [of "honest_result f", OF this run] show ?thesis
    by (simp add: honest_result_def)
qed

lemma dce_rounds_honest:
  "dce_rounds n changed f = Some (changed', f') \<Longrightarrow> fn_sig f' = fn_sig f \<and> (changed \<longrightarrow> changed') \<and> (\<not> changed' \<longrightarrow> f' = f)"
proof (induction n arbitrary: changed f)
  case (Suc n)
  obtain c g where r: "dce_round f = Some (c, g)"
    using Suc.prems by (auto split: option.splits)
  then have h: "fn_sig g = fn_sig f" "\<not> c \<Longrightarrow> g = f"
    using dce_round_honest [OF r] by (simp_all add: honest_result_def)
  show ?case
  proof (cases c)
    case True
    then show ?thesis
      using Suc.IH [of True g] Suc.prems r h(1) by auto
  next
    case False
    then show ?thesis
      using Suc.prems r h by auto
  qed
qed simp

lemma honest_dce: "honest_pass \<lparr>fp_name = ''dce'', fp_run = \<lambda>f m. run_dce f\<rparr>"
  using dce_rounds_honest by (fastforce simp: honest_pass_def run_dce_def)

end
