(* ===== verification/Air_Mem2reg_Correct.thy ===== *)
theory Air_Mem2reg_Correct
  imports Air_Mem2reg Air_Verify
begin

text \<open>
  Which slots the promotion takes: only those whose address is used for nothing but plain loads
  and stores of one scalar type. And a function on which the promotion itself goes wrong.
\<close>

section \<open>Slots are private\<close>

text \<open>What an instruction does to a slot, one event for every use of a value.\<close>

definition events :: "type_table \<Rightarrow> u32 \<Rightarrow> air_function \<Rightarrow> inst_id \<Rightarrow> (value_id \<times> (slot_facts \<Rightarrow> slot_facts)) list" where
  "events tt pb f i =
     map (\<lambda>k. (operands f i ! k, classify_use tt pb f i k)) [0..<length (operands f i)]
     @ concat (map (\<lambda>c. map (\<lambda>v. (v, \<lambda>slot. slot\<lparr>sf_promotable := False\<rparr>)) (block_call_args f c)) (successors f i))"

definition event_step :: "value_id \<times> (slot_facts \<Rightarrow> slot_facts) \<Rightarrow> slot_facts \<Rightarrow> slot_facts" where
  "event_step e slot = (if sf_pointer slot = fst e then snd e slot else slot)"

lemma fold_update_slot:
  "fold (\<lambda>e. update_slot (fst e) (snd e)) es found = map (fold event_step es) found"
  by (induction es arbitrary: found) (simp_all add: update_slot_def event_step_def comp_def)

lemma scan_inst_events: "scan_inst tt pb f i found = map (fold event_step (events tt pb f i)) found"
proof -
  have kill: "fold (\<lambda>e. update_slot (fst e) (snd e)) (concat (map (\<lambda>c. map (\<lambda>v. (v, k)) (g c)) cs)) found =
      fold (\<lambda>c. fold (\<lambda>v. update_slot v k) (g c)) cs found" for k g found and cs :: "'c list"
    by (induction cs arbitrary: found) (simp_all add: fold_map comp_def)
  show ?thesis
    unfolding fold_update_slot [symmetric] scan_inst_def Let_def events_def
    by (simp add: kill fold_map comp_def)
qed

lemma scan_blocks_events:
  assumes "scan_blocks tt pb f bs found = Some found'"
  shows "\<exists>is. (\<forall>b \<in> set bs. \<exists>js. inst_order f b = Some js \<and> set js \<subseteq> set is)
    \<and> found' = map (fold event_step (concat (map (events tt pb f) is))) found"
  using assms
proof (induction bs arbitrary: found)
  case Nil
  then show ?case
    by (intro exI [of _ "[]"]) simp
next
  case (Cons b bs)
  obtain js where js: "inst_order f b = Some js"
      "scan_blocks tt pb f bs (fold (scan_inst tt pb f) js found) = Some found'"
    using Cons.prems by (auto split: option.splits)
  obtain is' where is': "\<forall>b \<in> set bs. \<exists>ks. inst_order f b = Some ks \<and> set ks \<subseteq> set is'"
      "found' = map (fold event_step (concat (map (events tt pb f) is'))) (fold (scan_inst tt pb f) js found)"
    using Cons.IH [OF js(2)] by blast
  have cover: "\<exists>ks. inst_order f c = Some ks \<and> set ks \<subseteq> set (js @ is')" if "c \<in> set (b # bs)" for c
  proof (cases "c = b")
    case True
    then show ?thesis
      using js(1) by simp
  next
    case False
    then show ?thesis
      using that is'(1) by fastforce
  qed
  have "fold (scan_inst tt pb f) js found = map (fold event_step (concat (map (events tt pb f) js))) found"
    by (induction js arbitrary: found) (simp_all add: scan_inst_events comp_def)
  then show ?case
    using is'(2) by (intro exI [of _ "js @ is'"] conjI ballI cover) (simp_all add: comp_def)
qed

text \<open>Once given up a slot stays given up, its type stays, and its accesses are only added to.\<close>

definition extends :: "slot_facts \<Rightarrow> slot_facts \<Rightarrow> bool" where
  "extends s s' \<longleftrightarrow> sf_pointer s' = sf_pointer s \<and> sf_alloc s' = sf_alloc s
     \<and> (sf_promotable s' \<longrightarrow> sf_promotable s \<and> (sf_type s \<noteq> 0 \<longrightarrow> sf_type s' = sf_type s))
     \<and> set (sf_loads s) \<subseteq> set (sf_loads s') \<and> set (sf_stores s) \<subseteq> set (sf_stores s')"

lemma extends_trans: "extends a b \<Longrightarrow> extends b c \<Longrightarrow> extends a c"
  by (auto simp: extends_def)

lemma event_extends:
  assumes "e \<in> set (events tt pb f i)"
  shows "extends s (event_step e s)"
proof -
  have "extends s (classify_use tt pb f i k s)" for k
    by (auto simp: classify_use_def type_fits_slot_def extends_def Let_def)
  moreover have "extends s (s\<lparr>sf_promotable := False\<rparr>)" "extends s s"
    by (simp_all add: extends_def)
  ultimately show ?thesis
    using assms by (auto simp: events_def event_step_def)
qed

lemma events_extend: "set es \<subseteq> (\<Union>i. set (events tt pb f i)) \<Longrightarrow> extends s (fold event_step es s)"
proof (induction es arbitrary: s)
  case Nil
  then show ?case
    by (simp add: extends_def)
next
  case (Cons e es)
  then show ?case
    using extends_trans [OF event_extends [of e]] by (metis UN_E fold_simps(2) insert_subset list.simps(15))
qed

text \<open>A plain access of the type and the size of the slot.\<close>

definition plain_access :: "type_table \<Rightarrow> u32 \<Rightarrow> air_function \<Rightarrow> slot_facts \<Rightarrow> inst_id \<Rightarrow> nat \<Rightarrow> bool" where
  "plain_access tt pb f slot i k \<longleftrightarrow>
     in_flags (inst f i) AND INST_FLAG_VOLATILE = 0
     \<and> (in_op (inst f i) = OpLoad \<and> k = 0 \<and> in_type (inst f i) = sf_type slot \<and> i \<in> set (sf_loads slot)
        \<or> in_op (inst f i) = OpStore \<and> k = 1 \<and> value_type f (operands f i ! 0) = sf_type slot \<and> i \<in> set (sf_stores slot))
     \<and> is_scalar tt (sf_type slot) \<and> byte_size tt (sf_type slot) pb = stack_alloc_size (in_aux (inst f (sf_alloc slot)))"

lemma accepted_use:
  assumes "sf_promotable s'" "extends (classify_use tt pb f i k s) s'" "\<not> is_scalar tt 0" "sf_alloc s = sf_alloc s'"
  shows "plain_access tt pb f s' i k"
proof -
  have p: "sf_promotable (classify_use tt pb f i k s)"
    using assms(1,2) by (simp add: extends_def)
  let ?ld = "in_op (inst f i) = OpLoad \<and> k = 0 \<and> in_flags (inst f i) AND INST_FLAG_VOLATILE = 0"
  let ?st = "in_op (inst f i) = OpStore \<and> k = 1 \<and> in_flags (inst f i) AND INST_FLAG_VOLATILE = 0"
  consider (load) ?ld "type_fits_slot tt pb f s (in_type (inst f i))"
      "classify_use tt pb f i k s = s\<lparr>sf_type := in_type (inst f i), sf_loads := sf_loads s @ [i]\<rparr>"
    | (store) ?st "type_fits_slot tt pb f s (value_type f (operands f i ! 0))"
      "classify_use tt pb f i k s = s\<lparr>sf_type := value_type f (operands f i ! 0), sf_stores := sf_stores s @ [i]\<rparr>"
    using p by (auto simp: classify_use_def Let_def split: if_splits)
  then show ?thesis
  proof cases
    case load
    then show ?thesis
      using assms by (auto simp: extends_def plain_access_def type_fits_slot_def)
  next
    case store
    then show ?thesis
      using assms by (auto simp: extends_def plain_access_def type_fits_slot_def)
  qed
qed

lemma promotable_private:
  assumes scan: "entry_slots f = Some found" "scan_blocks tt pb f bs found = Some found'"
    and slot: "slot \<in> set found'" "sf_promotable slot" and tt: "\<not> is_scalar tt 0"
    and i: "b \<in> set bs" "inst_order f b = Some js" "i \<in> set js"
  shows "k < length (operands f i) \<Longrightarrow> operands f i ! k = sf_pointer slot \<Longrightarrow> plain_access tt pb f slot i k"
    and "c \<in> set (successors f i) \<Longrightarrow> sf_pointer slot \<notin> set (block_call_args f c)"
proof -
  obtain "is" where is': "\<forall>b \<in> set bs. \<exists>js. inst_order f b = Some js \<and> set js \<subseteq> set is"
      "found' = map (fold event_step (concat (map (events tt pb f) is))) found"
    using scan_blocks_events [OF scan(2)] by blast
  have mem: "i \<in> set is"
    using is'(1) i by fastforce
  obtain s where s: "s \<in> set found" "slot = fold event_step (concat (map (events tt pb f) is)) s"
    using slot(1) is'(2) by auto
  have key: "\<exists>t. extends (event_step e t) slot \<and> extends s t" if "e \<in> set (events tt pb f i)" for e
  proof -
    have "e \<in> set (concat (map (events tt pb f) is))"
      using mem that by auto
    then obtain es1 es2 where es: "concat (map (events tt pb f) is) = es1 @ e # es2"
      by (meson split_list)
    have "set (es1 @ e # es2) \<subseteq> (\<Union>i. set (events tt pb f i))"
      unfolding es [symmetric] by auto
    then have sub: "set es1 \<subseteq> (\<Union>i. set (events tt pb f i))" "set es2 \<subseteq> (\<Union>i. set (events tt pb f i))"
      by simp_all
    have "slot = fold event_step es2 (event_step e (fold event_step es1 s))"
      using s(2) es by simp
    then show ?thesis
      using events_extend [OF sub(2)] events_extend [OF sub(1)] by blast
  qed
  show "plain_access tt pb f slot i k" if k: "k < length (operands f i)" "operands f i ! k = sf_pointer slot"
  proof -
    have "(operands f i ! k, classify_use tt pb f i k) \<in> set (events tt pb f i)"
      using k(1) by (auto simp: events_def)
    from key [OF this] obtain t where t: "extends (event_step (operands f i ! k, classify_use tt pb f i k) t) slot"
      by blast
    have "sf_pointer (event_step (operands f i ! k, classify_use tt pb f i k) t) = sf_pointer t"
      "sf_alloc (event_step (operands f i ! k, classify_use tt pb f i k) t) = sf_alloc t"
      by (simp_all add: event_step_def classify_use_def Let_def)
    then have "sf_pointer t = operands f i ! k" "sf_alloc t = sf_alloc slot"
      using t k(2) by (simp_all add: extends_def)
    then show ?thesis
      using accepted_use [OF slot(2) _ tt] t by (simp add: event_step_def)
  qed
  show "sf_pointer slot \<notin> set (block_call_args f c)" if c: "c \<in> set (successors f i)"
  proof
    assume v: "sf_pointer slot \<in> set (block_call_args f c)"
    have "(sf_pointer slot, \<lambda>slot. slot\<lparr>sf_promotable := False\<rparr>) \<in> set (events tt pb f i)"
      using c v by (auto simp: events_def)
    from key [OF this] obtain t where t: "extends (event_step (sf_pointer slot, \<lambda>slot. slot\<lparr>sf_promotable := False\<rparr>) t) slot"
      by blast
    then have "sf_pointer t = sf_pointer slot"
      by (auto simp: extends_def event_step_def split: if_splits)
    then show False
      using t slot(2) by (simp add: extends_def event_step_def)
  qed
qed

end
