(* ===== verification/Air_Flow_Samples.thy ===== *)
theory Air_Flow_Samples
  imports Air_Properties Air_Cfg_Sound Air_Verify_Dominance Air_Pipeline_Correct Air_Mem2reg_Correct
begin

text \<open>
  Sample modules and functions, the functions made through the builder, on which the hypotheses of
  the properties of control flow hold.
\<close>

section \<open>Samples\<close>

text \<open>A signature that takes and one that only returns a 32-bit integer.\<close>

definition sample_sig :: "sig_param list \<Rightarrow> sig_data" where
  "sample_sig params = sig_data_default\<lparr>sd_ret_class := RetScalar, sd_ret_type := types_I32, sd_params := params\<rparr>"

definition sample_param :: sig_param where
  "sample_param = \<lparr>sp_type = types_I32, sp_role = RoleNormal, sp_byval_size = 0, sp_byval_align = 0, sp_coerce_group = 0\<rparr>"

definition sample_module :: "air_function option list \<Rightarrow> air_module" where
  "sample_module fs =
     \<lparr>ma_types = sample_table\<lparr>tt_sigs := [sig_data_default, sample_sig [], sample_sig [sample_param]]\<rparr>,
      ma_pointer_width = 64, ma_triple = '''', ma_functions = None # fs, ma_globals = [None], ma_ctors = [],
      ma_module_asm = [], ma_asm_payloads = [], ma_eh_payloads = [], ma_function_names = [], ma_global_names = []\<rparr>"

text \<open>A branch on a constant to two blocks, of which one passes its parameter on, that meet in a fourth.\<close>

definition flow_0 :: builder where
  "flow_0 = new_builder (sample_module []) (new_function ''f'' 1 LinkExternal)"

definition flow_1 :: builder where
  "flow_1 =
     snd (build_create_block [types_I32] (snd (build_create_block [] (snd (build_create_block [types_I32]
       (snd (build_create_block [] flow_0)))))))"

definition flow_2 :: builder where
  "flow_2 = snd (build_const_bool True (snd (build_const_i32 7 flow_1)))"

definition flow_3 :: builder where
  "flow_3 = build_br_if 4 2 [3] 3 [] (set_insertion_point 1 flow_2)"

definition flow_4 :: builder where
  "flow_4 = build_jump 4 [1] (set_insertion_point 2 flow_3)"

definition flow_5 :: builder where
  "flow_5 = build_jump 4 [3] (set_insertion_point 3 flow_4)"

definition flow_6 :: builder where
  "flow_6 = build_ret 2 (set_insertion_point 4 flow_5)"

text \<open>The function these calls make, written out.\<close>

definition flow_inst :: "opcode \<Rightarrow> nat \<Rightarrow> nat \<Rightarrow> u64 \<Rightarrow> block_id \<Rightarrow> inst_data" where
  "flow_inst op begin count aux b =
     inst_data_default\<lparr>in_op := op, in_op_begin := begin, in_op_count := count, in_aux := aux, in_block := b\<rparr>"

definition flow_block :: "inst_id \<Rightarrow> nat \<Rightarrow> nat \<Rightarrow> block_id \<Rightarrow> block_id \<Rightarrow> block_data" where
  "flow_block i begin count prev after =
     \<lparr>bd_first = i, bd_last = i, bd_param_begin = begin, bd_param_count = count, bd_prev = prev, bd_next = after\<rparr>"

definition flow :: air_function where
  "flow = (new_function ''f'' 1 LinkExternal)
     \<lparr>fn_entry_block := 1, fn_last_block := 4,
      fn_insts := [inst_data_default, flow_inst OpBrIf 1 1 8589934593 1, flow_inst OpJump 3 0 3 2, flow_inst OpJump 4 0 4 3,
        flow_inst OpRet 4 1 0 4],
      fn_blocks := [block_data_default, flow_block 1 0 0 0 2, flow_block 2 0 1 1 3, flow_block 3 1 0 2 4, flow_block 4 1 1 3 0],
      fn_values := [value_data_default,
        \<lparr>vd_kind = BlockParam, vd_type = types_I32, vd_payload = 2, vd_payload2 = 0\<rparr>,
        \<lparr>vd_kind = BlockParam, vd_type = types_I32, vd_payload = 4, vd_payload2 = 0\<rparr>,
        \<lparr>vd_kind = ConstInt, vd_type = types_I32, vd_payload = 7, vd_payload2 = 0\<rparr>,
        \<lparr>vd_kind = ConstInt, vd_type = types_I8, vd_payload = 1, vd_payload2 = 0\<rparr>],
      fn_block_calls := [block_call_default,
        \<lparr>bc_target = 2, bc_arg_begin = 0, bc_arg_count = 1\<rparr>, \<lparr>bc_target = 3, bc_arg_begin = 1, bc_arg_count = 0\<rparr>,
        \<lparr>bc_target = 4, bc_arg_begin = 2, bc_arg_count = 1\<rparr>, \<lparr>bc_target = 4, bc_arg_begin = 3, bc_arg_count = 1\<rparr>],
      fn_operand_pool := [3, 4, 1, 3, 2], fn_block_param_pool := [1, 2],
      fn_constant_lookup := [(15192463038272000733, 3), (15192463038305530069, 4)]\<rparr>"

lemma flow_made: "bu_func flow_6 = flow"
  by code_simp

lemma step_at:
  assumes "builder_step\<^sup>*\<^sup>* s bu" "block_order (bu_func bu) = Some bs" "b \<in> set bs" "b \<noteq> 0"
    and "\<And>bu. bu_block bu \<noteq> 0 \<Longrightarrow> builder_step bu (g bu)"
  shows "builder_step\<^sup>*\<^sup>* s (g (set_insertion_point b bu))"
proof -
  have "builder_step bu (set_insertion_point b bu)"
    by (rule builder_step.insertion_point [OF assms(2,3)])
  moreover have "builder_step (set_insertion_point b bu) (g (set_insertion_point b bu))"
    using assms(4,5) by (simp add: set_insertion_point_def)
  ultimately show ?thesis
    using assms(1) by (meson rtranclp.rtrancl_into_rtrancl)
qed

lemma flow_orders:
  "block_order (bu_func flow_2) = Some [1, 2, 3, 4]" "block_order (bu_func flow_3) = Some [1, 2, 3, 4]"
  "block_order (bu_func flow_4) = Some [1, 2, 3, 4]" "block_order (bu_func flow_5) = Some [1, 2, 3, 4]"
  by code_simp+

lemma flow_steps: "builder_step\<^sup>*\<^sup>* flow_0 flow_6"
proof -
  have 2: "builder_step\<^sup>*\<^sup>* flow_0 flow_2"
    unfolding flow_2_def flow_1_def
    by (rule rtranclp.rtrancl_into_rtrancl, rule rtranclp.rtrancl_into_rtrancl, rule rtranclp.rtrancl_into_rtrancl,
        rule rtranclp.rtrancl_into_rtrancl, rule rtranclp.rtrancl_into_rtrancl, rule rtranclp.rtrancl_into_rtrancl,
        rule rtranclp.rtrancl_refl)
      (rule builder_step.create_block builder_step.const_bool builder_step.const_i32)+
  have 3: "builder_step\<^sup>*\<^sup>* flow_0 flow_3"
    unfolding flow_3_def by (rule step_at [OF 2 flow_orders(1) _ _ builder_step.br_if]) simp_all
  have 4: "builder_step\<^sup>*\<^sup>* flow_0 flow_4"
    unfolding flow_4_def by (rule step_at [OF 3 flow_orders(2) _ _ builder_step.jump]) simp_all
  have 5: "builder_step\<^sup>*\<^sup>* flow_0 flow_5"
    unfolding flow_5_def by (rule step_at [OF 4 flow_orders(3) _ _ builder_step.jump]) simp_all
  show ?thesis
    unfolding flow_6_def by (rule step_at [OF 5 flow_orders(4) _ _ builder_step.ret]) simp_all
qed

lemma steps_built:
  assumes "builder_step\<^sup>*\<^sup>* (new_builder m (new_function n s l)) bu"
  shows "built bu"
  using assms
proof (induction rule: rtranclp_induct)
  case base
  show ?case
    using built_new by (intro builtI [where bs = "[]" and L = "\<lambda>_. []"]) (simp_all add: new_builder_def insertion_ok_def)
next
  case (step bu bu')
  then show ?case
    by (simp add: step_built)
qed

lemma flow_checks:
  "block_order flow = Some [1, 2, 3, 4]" "map (inst_order flow) [1, 2, 3, 4] = [Some [1], Some [2], Some [3], Some [4]]"
  "verify_function (sample_module []) flow = Some True" "\<not> is_declaration flow"
  by code_simp+

lemma tidy_labels: "tidy f bs \<Longrightarrow> set (label_targets f) \<subseteq> set bs"
  by (cases "fn_values f") (auto simp: tidy_def label_targets_def)

lemma built_verified_cfg:
  assumes "built_fn f bs L" "verify_function m f = Some True" "\<not> is_declaration f"
  shows "cfg_inv f bs L"
  using assms tidy_labels by (intro verified_cfg_inv) (auto simp: built_fn_def tidy_def)

lemma flow_inv:
  obtains L where "built_fn flow [1, 2, 3, 4] L" "cfg_inv flow [1, 2, 3, 4] L" "L 1 = [1]" "L 2 = [2]" "L 3 = [3]" "L 4 = [4]"
proof -
  have "built flow_6"
    using steps_built flow_steps unfolding flow_0_def by blast
  then obtain bs L where b: "built_fn flow bs L"
    by (auto simp: built_def flow_made)
  then have inv: "fn_inv flow bs L"
    by (simp add: built_fn_def)
  then have bs: "bs = [1, 2, 3, 4]"
    using block_order_blocks flow_checks(1) by (auto simp: fn_inv_def)
  have "inst_order flow b = Some (L b)" if "b \<in> set bs" for b
    using inst_order_lists fn_invD [OF inv that] by blast
  then show ?thesis
    using that b built_verified_cfg [OF b flow_checks(3,4)] flow_checks(2) bs by simp
qed

text \<open>A function that stores a slot's value back into it: \<open>int g(int x) { int p = x; p = p; return p; }\<close>.\<close>

definition slot_1 :: builder where
  "slot_1 = snd (build_stack_alloc 4 4 (set_insertion_point 1 (snd (build_create_block [types_I32]
     (new_builder (sample_module []) (new_function ''g'' 2 LinkExternal))))))"

definition slot_2 :: builder where
  "slot_2 = snd (build_load types_I32 2 4 False (build_store 1 2 4 False slot_1))"

definition slot_3 :: builder where
  "slot_3 = build_ret 4 (snd (build_load types_I32 2 4 False (build_store 3 2 4 False slot_2)))"

definition slot_inst :: "opcode \<Rightarrow> type_id \<Rightarrow> nat \<Rightarrow> nat \<Rightarrow> u64 \<Rightarrow> value_id \<Rightarrow> inst_id \<Rightarrow> inst_id \<Rightarrow> inst_data" where
  "slot_inst op ty begin count aux result prev after =
     inst_data_default\<lparr>in_op := op, in_type := ty, in_op_begin := begin, in_op_count := count, in_aux := aux,
       in_result := result, in_block := 1, in_prev := prev, in_next := after\<rparr>"

definition self_store :: air_function where
  "self_store = (new_function ''g'' 2 LinkExternal)
     \<lparr>fn_entry_block := 1, fn_last_block := 1,
      fn_insts := [inst_data_default, slot_inst OpStackAlloc types_PTR 0 0 144115188075855876 2 0 2,
        slot_inst OpStore 0 0 2 2 0 1 3, slot_inst OpLoad types_I32 2 1 2 3 2 4, slot_inst OpStore 0 3 2 2 0 3 5,
        slot_inst OpLoad types_I32 5 1 2 4 4 6, slot_inst OpRet 0 6 1 0 0 5 0],
      fn_blocks := [block_data_default,
        \<lparr>bd_first = 1, bd_last = 6, bd_param_begin = 0, bd_param_count = 1, bd_prev = 0, bd_next = 0\<rparr>],
      fn_values := [value_data_default,
        \<lparr>vd_kind = BlockParam, vd_type = types_I32, vd_payload = 1, vd_payload2 = 0\<rparr>,
        \<lparr>vd_kind = InstResult, vd_type = types_PTR, vd_payload = 1, vd_payload2 = 0\<rparr>,
        \<lparr>vd_kind = InstResult, vd_type = types_I32, vd_payload = 3, vd_payload2 = 0\<rparr>,
        \<lparr>vd_kind = InstResult, vd_type = types_I32, vd_payload = 5, vd_payload2 = 0\<rparr>],
      fn_operand_pool := [1, 2, 2, 3, 2, 2, 4], fn_block_param_pool := [1]\<rparr>"

lemma self_store_made: "bu_func slot_3 = self_store"
  by code_simp

lemma self_store_verified: "verify_function (sample_module []) self_store = Some True"
  by code_simp

end
