(* ===== verification/Air_Flow_Properties.thy ===== *)
theory Air_Flow_Properties
  imports Air_Flow_Samples
begin

text \<open>
  The properties of the builder, the verifier, modules, the pipeline and the passes that rewrite
  control flow and stack slots.
\<close>

section \<open>The builder\<close>

text \<open>
  C18: Whatever sequence of builder calls makes a function, its blocks and instructions are linked
  lists in order, its operands lists of their own, its constants interned once, and dead code
  elimination and instruction simplification return on it.
\<close>

theorem builder_keeps_invariants:
  assumes "builder_step\<^sup>*\<^sup>* (new_builder m (new_function n s l)) bu"
  shows "\<exists>bs L. fn_inv (bu_func bu) bs L \<and> operands_inv (bu_func bu) \<and> constants_inv (bu_func bu)
    \<and> (\<exists>r. run_dce (bu_func bu) = Some r) \<and> (\<exists>r. run_instsimplify (ma_types (bu_module bu)) (bu_func bu) = Some r)"
proof -
  obtain bs L where "built_fn (bu_func bu) bs L"
    using steps_built [OF assms] by (auto simp: built_def)
  then have inv: "fn_inv (bu_func bu) bs L" "operands_inv (bu_func bu)" "constants_inv (bu_func bu)"
    by (simp_all add: built_fn_def)
  then show ?thesis
    using run_dce_returns [OF inv(1)] run_instsimplify_returns [OF inv(1,3)] by blast
qed

theorem builder_keeps_invariants_witness:
  "\<exists>bs L. fn_inv flow bs L \<and> operands_inv flow \<and> constants_inv flow \<and> (\<exists>r. run_dce flow = Some r)"
  using builder_keeps_invariants [OF flow_steps [unfolded flow_0_def]] unfolding flow_made by blast

section \<open>The verifier\<close>

text \<open>
  C15: In a function the verifier accepts, whose blocks are all linked, every block ends in its only
  terminator, every instruction passes its rules, and every edge leads to a block of the function
  other than the entry, with as many arguments as it has parameters and of their types: the form
  the control-flow passes rely on.
\<close>

theorem verified_flow:
  assumes "verify_function m f = Some True" "\<not> is_declaration f" "fn_inv f bs L"
    and "\<forall>b. valid_block f b \<longrightarrow> b \<in> set bs" "set (label_targets f) \<subseteq> set bs"
  shows "cfg_inv f bs L
    \<and> (\<forall>b \<in> set bs. opcode_is_terminator (in_op (inst f (last (L b)))) \<and> (\<forall>i \<in> set (L b). check_inst m f i
         \<and> (opcode_is_terminator (in_op (inst f i)) \<longrightarrow> i = last (L b)) \<and> (\<forall>c \<in> set (successors f i). sound_edge f c)))"
proof -
  obtain t where body: "check_body m f (layout_of bs L)"
    by (rule verify_function_accepts [OF assms(1-3)])
  show ?thesis
    using verified_cfg_inv [OF assms] check_body_block [OF body assms(3)] check_inst_edges by blast
qed

theorem verified_flow_witness:
  "\<exists>L. cfg_inv flow [1, 2, 3, 4] L \<and> L 1 = [1] \<and> opcode_is_terminator (in_op (inst flow 1))"
proof -
  obtain L where L: "built_fn flow [1, 2, 3, 4] L" "L 1 = [1]"
    by (rule flow_inv)
  have f: "fn_inv flow [1, 2, 3, 4] L" "\<forall>b. valid_block flow b \<longrightarrow> b \<in> set [1, 2, 3, 4]"
      "set (label_targets flow) \<subseteq> set [1, 2, 3, 4]"
    using L(1) tidy_labels [of flow "[1, 2, 3, 4]"] unfolding built_fn_def tidy_def by blast+
  from verified_flow [OF flow_checks(3,4) f] L(2) show ?thesis
    by (intro exI [of _ L]) simp
qed

section \<open>Dominance\<close>

text \<open>
  C16: The dominator tree is computed, within the rounds it is given, for every function whose edges
  lead to blocks. It knows the blocks that can be reached; a block dominates another exactly when
  every path from the entry to that one goes through it; and the strict dominators of a block are
  the dominators of its immediate dominator.
\<close>

theorem dominators_correct:
  assumes "flow_ok f"
  shows "\<exists>t. compute f = Some t
    \<and> (\<forall>b. reachable t b \<longleftrightarrow> (\<exists>xs. flow_path (flow_edge f) (fn_entry_block f) xs b))
    \<and> (\<forall>a b. dominates t a b = Some (reachable t b \<and> on_all_paths (flow_edge f) (fn_entry_block f) a b))
    \<and> (\<forall>d b. reachable t b \<longrightarrow> b \<noteq> fn_entry_block f \<longrightarrow>
         (on_all_paths (flow_edge f) (fn_entry_block f) d (idom_of t b) \<longleftrightarrow>
            on_all_paths (flow_edge f) (fn_entry_block f) d b \<and> d \<noteq> b))"
  by (rule compute_correct [OF assms]) blast

lemma flow_linked:
  obtains L where "fn_inv flow [1, 2, 3, 4] L" "\<forall>b. valid_block flow b \<longrightarrow> b \<in> set [1, 2, 3, 4]" "L 2 = [2]"
proof -
  obtain L where L: "built_fn flow [1, 2, 3, 4] L" "L 2 = [2]"
    by (rule flow_inv)
  then show thesis
    using that [of L] by (simp add: built_fn_def tidy_def)
qed

lemma flow_small: "length (fn_blocks flow) < 2 ^ 32"
proof -
  have "length (fn_blocks flow) = 5"
    by code_simp
  then show ?thesis
    by simp
qed

lemma flow_tree:
  "compute flow \<noteq> None" "fn_entry_block flow = 1" "2 \<in> set (block_succs flow 1)"
  "dominates (the (compute flow)) 1 4 = Some True" "dominates (the (compute flow)) 2 4 = Some False" "reachable (the (compute flow)) 4"
  by code_simp+

theorem dominators_correct_witness:
  "on_all_paths (flow_edge flow) 1 1 4 \<and> \<not> on_all_paths (flow_edge flow) 1 2 4"
proof -
  obtain L where L: "fn_inv flow [1, 2, 3, 4] L" "\<forall>b. valid_block flow b \<longrightarrow> b \<in> set [1, 2, 3, 4]"
    by (rule flow_linked)
  from dominators_correct [OF verified_flow_ok [OF flow_checks(3,4) L flow_small]] show ?thesis
    using flow_tree(2,4-6) by auto
qed

text \<open>
  C17: In a function the verifier accepts, whose blocks are all linked, definitions come before uses:
  on every path from the entry to a use, as an operand or as an argument of an edge, lies the block
  that defines the value, and when that is the block of the use the definition is earlier in it.
\<close>

theorem verified_uses_dominated:
  assumes "verify_function m f = Some True" "\<not> is_declaration f" "fn_inv f bs L"
    and "\<forall>b. valid_block f b \<longrightarrow> b \<in> set bs" "length (fn_blocks f) < 2 ^ 32"
    and "flow_path (flow_edge f) (fn_entry_block f) xs b" "b \<in> set bs" "i \<in> set (L b)"
    and "v \<in> set (operands f i @ concat (map (block_call_args f) (successors f i)))" "valid_value f v"
  shows "use_dominated f L b i v"
  by (rule verified_uses [OF assms])

theorem verified_uses_dominated_witness: "\<exists>L. L 2 = [2] \<and> use_dominated flow L 2 2 1"
proof -
  obtain L where L: "fn_inv flow [1, 2, 3, 4] L" "\<forall>b. valid_block flow b \<longrightarrow> b \<in> set [1, 2, 3, 4]" "L 2 = [2]"
    by (rule flow_linked)
  have "flow_path (flow_edge flow) (fn_entry_block flow) ([1] @ [2]) 2"
    unfolding flow_tree(2) by (rule flow_path.step [OF flow_path.start]) (simp only: flow_edge_def flow_tree(3))
  moreover have "1 \<in> set (operands flow 2 @ concat (map (block_call_args flow) (successors flow 2)))" "valid_value flow 1"
    by code_simp+
  ultimately have "use_dominated flow L 2 2 1"
    using L(3) by (intro verified_uses_dominated [OF flow_checks(3,4) L(1,2) flow_small]) simp_all
  then show ?thesis
    using L(3) by blast
qed

section \<open>Control-flow simplification\<close>

text \<open>
  C12: Control-flow simplification ends, with no bound on the function; the result is in order, none of
  the rewrites applies to it any more and exactly the blocks that can be reached are left. When it
  reports no change there was none.
\<close>

theorem run_simplify_cfg_correct:
  assumes "cfg_inv f bs L"
  shows "\<exists>changed f' bs' L'. run_simplify_cfg f = Some (changed, f') \<and> cfg_inv f' bs' L' \<and> simplified f' bs'
    \<and> (\<not> changed \<longrightarrow> f' = f)"
  by (rule run_simplify_cfg_returns [OF assms])

theorem run_simplify_cfg_correct_witness:
  "\<exists>changed f' bs'. run_simplify_cfg flow = Some (changed, f') \<and> simplified f' bs'"
proof -
  obtain L where "cfg_inv flow [1, 2, 3, 4] L"
    by (rule flow_inv)
  from run_simplify_cfg_correct [OF this] show ?thesis
    by blast
qed

text \<open>
  C13: Folding a conditional branch does not change where control goes: whenever the condition has a
  value, the jump that replaces the branch arrives at the same block with the same arguments.
\<close>

theorem fold_branch_sound:
  assumes "cfg_inv f bs L" "b \<in> set bs" "fold_branch b f = (True, f')"
    and "den f env (operands f (terminator_of f b) ! 0) = AInt n"
    and "vd_payload2 (value_of f (operands f (terminator_of f b) ! 0)) = 0
      \<or> vd_kind (value_of f (operands f (terminator_of f b) ! 0)) \<noteq> ConstInt"
  shows "map_option (arrives f' env) (taken f' env b) = map_option (arrives f env) (taken f env b)"
  by (rule fold_branch_arrives [OF assms])

lemma flow_branch:
  "fst (fold_branch 1 flow)" "den flow (\<lambda>_. AInt 0) (operands flow (terminator_of flow 1) ! 0) = AInt 1"
  "vd_payload2 (value_of flow (operands flow (terminator_of flow 1) ! 0)) = 0"
  "map_option (arrives flow (\<lambda>_. AInt 0)) (taken flow (\<lambda>_. AInt 0) 1) = Some (2, [AInt 7])"
  by code_simp+

theorem fold_branch_sound_witness:
  "map_option (arrives (snd (fold_branch 1 flow)) (\<lambda>_. AInt 0)) (taken (snd (fold_branch 1 flow)) (\<lambda>_. AInt 0) 1) = Some (2, [AInt 7])"
proof -
  obtain L where L: "cfg_inv flow [1, 2, 3, 4] L"
    by (rule flow_inv)
  have "fold_branch 1 flow = (True, snd (fold_branch 1 flow))"
    using flow_branch(1) by (simp add: prod_eq_iff)
  from fold_branch_sound [OF L _ this flow_branch(2) disjI1 [OF flow_branch(3)]] show ?thesis
    using flow_branch(4) by simp
qed





section \<open>Stack slots\<close>

text \<open>
  C19: A slot is promoted only when its address does not escape: every use of it as an operand is a
  plain load of it or a plain store to it, all of one scalar type of the size of the slot, and no
  block is called with it. In particular it is not itself stored, passed or compared.
\<close>

theorem promoted_slots_private:
  assumes "entry_slots f = Some found" "scan_blocks tt ptr_bytes f bs found = Some found'"
    and "slot \<in> set found'" "sf_promotable slot" "\<not> is_scalar tt 0"
    and "b \<in> set bs" "inst_order f b = Some insts" "i \<in> set insts"
  shows "(\<forall>k < length (operands f i). operands f i ! k = sf_pointer slot \<longrightarrow> plain_access tt ptr_bytes f slot i k)
    \<and> (\<forall>c \<in> set (successors f i). sf_pointer slot \<notin> set (block_call_args f c))"
  using promotable_private [OF assms] by blast

definition self_store_slot :: slot_facts where
  "self_store_slot =
     \<lparr>sf_alloc = 1, sf_pointer = 2, sf_type = types_I32, sf_promotable = True, sf_loads = [3, 5], sf_stores = [2, 4]\<rparr>"

theorem promoted_slots_private_witness: "plain_access sample_table 8 self_store self_store_slot 4 1"
proof -
  have e: "entry_slots self_store = Some [new_slot self_store 1]"
    by code_simp
  have s: "scan_blocks sample_table 8 self_store [1] [new_slot self_store 1] = Some [self_store_slot]"
    by code_simp
  have c: "sf_promotable self_store_slot" "\<not> is_scalar sample_table 0" "inst_order self_store 1 = Some [1, 2, 3, 4, 5, 6]"
    "length (operands self_store 4) = 2" "operands self_store 4 ! 1 = sf_pointer self_store_slot"
    by code_simp+
  from promoted_slots_private [OF e s _ c(1,2) _ c(3), where i = 4] c(4,5) show ?thesis
    by simp
qed

text \<open>
  C20: A load replaced by the value stored before it may itself have been stored: its recorded value is
  not updated when an earlier load of the slot is replaced. Promotion then turns a function the
  verifier accepts into one it rejects, which uses the result of a load that was removed.
\<close>

theorem mem2reg_self_store:
  "verify_function (sample_module []) self_store = Some True
    \<and> (\<exists>f'. run_mem2reg (\<lambda>bs. bs) (ma_types (sample_module [])) 64 self_store = Some (True, f')
         \<and> verify_function (sample_module []) f' = Some False
         \<and> inst_order f' 1 = Some [6] \<and> operands f' 6 = [3] \<and> in_block (inst f' (def_inst f' 3)) = 0)"
proof -
  define f' where "f' = snd (the (run_mem2reg (\<lambda>bs. bs) (ma_types (sample_module [])) 64 self_store))"
  have "run_mem2reg (\<lambda>bs. bs) (ma_types (sample_module [])) 64 self_store \<noteq> None"
    "fst (the (run_mem2reg (\<lambda>bs. bs) (ma_types (sample_module [])) 64 self_store))"
    by code_simp+
  then have "run_mem2reg (\<lambda>bs. bs) (ma_types (sample_module [])) 64 self_store = Some (True, f')"
    unfolding f'_def by (cases "run_mem2reg (\<lambda>bs. bs) (ma_types (sample_module [])) 64 self_store") (auto simp: prod_eq_iff)
  moreover have "verify_function (sample_module []) f' = Some False"
    unfolding f'_def by code_simp
  moreover have "inst_order f' 1 = Some [6] \<and> operands f' 6 = [3] \<and> in_block (inst f' (def_inst f' 3)) = 0"
    unfolding f'_def by code_simp
  ultimately show ?thesis
    using self_store_verified by blast
qed

section \<open>Modules\<close>

text \<open>
  C22: Names identify the functions and globals of a module: every one is found by its name, one made
  under a new name is found at once, and what was found before is found still.
\<close>

theorem module_lookup:
  assumes "module_inv m"
  shows "(\<forall>i. valid_func m i \<longrightarrow> find_function m (fn_name (function_of m i)) = i)
    \<and> (\<forall>i. valid_global m i \<longrightarrow> find_global m (gd_name (global_of m i)) = i)
    \<and> (\<forall>name sig link. find_function m name = 0 \<longrightarrow>
         (let (i, m') = create_function name sig link m
          in module_inv m' \<and> find_function m' name = i \<and> (\<forall>other. other \<noteq> name \<longrightarrow> find_function m' other = find_function m other)))
    \<and> (\<forall>data. find_global m (gd_name data) = 0 \<longrightarrow>
         (let (i, m') = create_global data m
          in module_inv m' \<and> find_global m' (gd_name data) = i \<and> global_of m' i = data))"
proof (intro conjI allI impI)
  show "find_function m (fn_name (function_of m i)) = i" if "valid_func m i" for i
    using assms that named_lookup [of fn_name "ma_functions m" "ma_function_names m" i]
    by (simp add: module_inv_def find_function_def valid_func_def function_of_def)
  show "find_global m (gd_name (global_of m i)) = i" if "valid_global m i" for i
    using assms that named_lookup [of gd_name "ma_globals m" "ma_global_names m" i]
    by (simp add: module_inv_def find_global_def valid_global_def global_of_def)
  show "let (i, m') = create_function name sig link m
    in module_inv m' \<and> find_function m' name = i \<and> (\<forall>other. other \<noteq> name \<longrightarrow> find_function m' other = find_function m other)"
    if new: "find_function m name = 0" for name sig link
  proof -
    have "map_of (ma_function_names m) name = None"
      using new assms by (auto simp: find_function_def module_inv_def named_def split: option.splits)
    then show ?thesis
      using module_inv_ops(1) [OF assms new, of sig link] by (simp add: create_function_def find_function_def emplace_def Let_def)
  qed
  show "let (i, m') = create_global data m in module_inv m' \<and> find_global m' (gd_name data) = i \<and> global_of m' i = data"
    if new: "find_global m (gd_name data) = 0" for data
  proof -
    have "map_of (ma_global_names m) (gd_name data) = None"
      using new assms by (auto simp: find_global_def module_inv_def named_def split: option.splits)
    then show ?thesis
      using module_inv_ops(2) [OF assms new]
      by (simp add: create_global_def find_global_def emplace_def global_of_def Let_def)
  qed
qed

theorem module_lookup_witness:
  "module_inv (snd (create_function ''f'' 1 LinkExternal (new_module 64 [])))
    \<and> find_function (snd (create_function ''f'' 1 LinkExternal (new_module 64 []))) ''f'' = 1"
proof -
  have f: "find_function (new_module 64 []) ''f'' = 0"
    by (simp add: find_function_def new_module_def)
  have i: "fst (create_function ''f'' 1 LinkExternal (new_module 64 [])) = 1"
    by (simp add: create_function_def new_module_def Let_def)
  show ?thesis
    using module_lookup [OF new_module_inv [of 64 "[]"]] f i by (simp add: split_def Let_def)
qed

section \<open>The pipeline\<close>

text \<open>
  C21: A pipeline of passes that say when they change a function and keep its signature, run on a
  module whose functions the verifier accepts, with verification after every change: when it
  reports no failure the verifier accepts every function of the module it leaves.
\<close>

theorem run_pipeline_keeps_verified:
  assumes "run_pipeline passes True m = Some (m', result)" "pl_verified result"
    and "\<forall>pass \<in> set passes. honest_pass pass" "all_verified m"
  shows "all_verified m'"
  by (rule run_pipeline_all_verified [OF assms])

definition dce_only :: "function_pass list" where
  "dce_only = [\<lparr>fp_name = ''dce'', fp_run = \<lambda>f m. run_dce f\<rparr>]"

theorem run_pipeline_keeps_verified_witness:
  "\<exists>m' result. run_pipeline dce_only True (sample_module [Some flow]) = Some (m', result) \<and> all_verified m'"
proof -
  have "run_pipeline dce_only True (sample_module [Some flow]) \<noteq> None"
    "pl_verified (snd (the (run_pipeline dce_only True (sample_module [Some flow]))))"
    by code_simp+
  then obtain m' result where run: "run_pipeline dce_only True (sample_module [Some flow]) = Some (m', result)" "pl_verified result"
    by auto
  have one: "verify_function (sample_module [Some flow]) flow = Some True"
    by code_simp
  have "i = 1" "function_of (sample_module [Some flow]) 1 = flow" if "valid_func (sample_module [Some flow]) i" for i
    using that by (simp_all add: valid_func_def sample_module_def function_of_def)
  then have "all_verified (sample_module [Some flow])"
    using one unfolding all_verified_def by metis
  moreover have "\<forall>pass \<in> set dce_only. honest_pass pass"
    using honest_dce by (simp add: dce_only_def)
  ultimately show ?thesis
    using run_pipeline_keeps_verified [OF run] run(1) by blast
qed

section \<open>Gaps of the verifier\<close>

text \<open>
  C23: The bound of a relocation is computed modulo two to the 64: a relocation far outside an
  initializer is accepted when the sum of its offset and the pointer size wraps around.
\<close>

theorem check_global_wraps:
  "\<exists>data. check_global (sample_module [Some flow]) data
     \<and> (\<exists>reloc \<in> set (gi_relocs (gd_init data)).
          length (gi_bytes (gd_init data)) < unat (rl_offset reloc) + ptr_size_bytes (sample_module [Some flow]))"
proof (intro exI conjI bexI)
  let ?reloc = "\<lparr>rl_offset = 0xFFFFFFFFFFFFFFF8, rl_is_function = True, rl_target_index = 1, rl_addend = 0\<rparr>"
  let ?attrs = "\<lparr>sa_visibility = VisDefault, sa_hidden = False, sa_no_prefix = False, sa_comdat_key = []\<rparr>"
  let ?data = "\<lparr>gd_name = ''x'', gd_size_bytes = 0, gd_align_bytes = 8, gd_linkage = LinkExternal, gd_section = SecData,
      gd_attrs = ?attrs, gd_custom_section = [], gd_is_thread_local = False, gd_init = init_data [] [?reloc], gd_loc = 0\<rparr>"
  show "check_global (sample_module [Some flow]) ?data"
    by code_simp
  show "?reloc \<in> set (gi_relocs (gd_init ?data))"
    "length (gi_bytes (gd_init ?data)) < unat (rl_offset ?reloc) + ptr_size_bytes (sample_module [Some flow])"
    by (simp_all add: init_data_def ptr_size_bytes_def sample_module_def)
qed

text \<open>
  C24: When the terminator of the entry block goes to a block call that is not in the function, the
  rule of that instruction fails, as it should, but the verifier does not stop there: blocks and
  instructions are walked without trouble, and then the computation of the dominator tree, which
  still follows the branches, reads the missing block call outside of the vector (the value
  \<open>None\<close> of the model), so the verifier has no result. This holds for every branching opcode whose
  own table can be read, for every function in which blocks and instructions are linked lists.
\<close>

theorem verifier_reads_outside:
  assumes "fn_inv f bs L" and "\<not> is_declaration f" "L (fn_entry_block f) \<noteq> []"
    and "i = last (L (fn_entry_block f))" "opcode_is_terminator (in_op (inst f i))" "tables_ok f i"
    and "c \<in> set (successors f i)" "length (fn_block_calls f) \<le> c"
  shows "\<not> check_inst m f i \<and> block_order f = Some bs \<and> block_layout f bs = Some (layout_of bs L)
    \<and> collect_successor_blocks f (fn_entry_block f) = None \<and> compute f = None \<and> verify_function m f = None"
proof -
  note stages = verify_function_stages [OF assms(1)] and missing = missing_call [OF assms(1-5,7,8)]
  have "verify_function m f = None"
    using stages missing(2) assms(2) by (simp add: verify_function_def Let_def)
  then show ?thesis
    using stages missing by blast
qed

definition lost_jump :: air_function where
  "lost_jump = bu_func (emit_void OpJump [] 9 0 0 (set_insertion_point 1 (snd (build_create_block [] flow_0))))"

theorem verifier_reads_outside_witness:
  "in_op (inst lost_jump 1) = OpJump \<and> successors lost_jump 1 = [9] \<and> length (fn_block_calls lost_jump) = 1
    \<and> \<not> check_inst (sample_module []) lost_jump 1 \<and> collect_successor_blocks lost_jump 1 = None
    \<and> verify_function (sample_module []) lost_jump = None"
proof -
  let ?bu = "snd (build_create_block [] flow_0)"
  have made: "block_order (bu_func ?bu) = Some [1]" "bu_block (set_insertion_point 1 ?bu) \<noteq> 0"
    by code_simp+
  have "built ?bu"
    using steps_built [of "sample_module []" "''f''" 1 LinkExternal flow_0] by (intro built_new_block) (simp add: flow_0_def)
  then have "built (emit_void OpJump [] 9 0 0 (set_insertion_point 1 ?bu))"
    using built_emit [OF built_insertion(1) [OF _ made(1)] made(2)] by (simp add: emit_void_def)
  then obtain bs L where inv: "fn_inv lost_jump bs L"
    by (auto simp: built_def built_fn_def lost_jump_def)
  have f: "block_order lost_jump = Some [1]" "inst_order lost_jump 1 = Some [1]" "\<not> is_declaration lost_jump" "fn_entry_block lost_jump = 1"
    "in_op (inst lost_jump 1) = OpJump" "successors lost_jump 1 = [9]" "length (fn_block_calls lost_jump) = 1"
    "tables_ok lost_jump 1" "valid_block lost_jump 1" "opcode_is_terminator OpJump"
    by code_simp+
  have "L 1 = [1]"
    using f(2,9) inst_order_lists [of lost_jump L 1] inv by (simp add: fn_inv_def)
  then show ?thesis
    using verifier_reads_outside [OF inv f(3), of 1 9 "sample_module []"] f by simp
qed

end
