(* ===== verification/Spec2Isabelle.thy ===== *)
theory Spec2Isabelle
  imports Float_Integer_Correct Float_Complex_Correct Float_Display_Correct Air_Flow_Properties
begin

text \<open>
  The numeric layer and the native middle end of the aburi C and C++ compiler.

  \<^bold>\<open>The program.\<close> The front end (\<open>src/lexer.cpp\<close>, \<open>src/parser\<close>, \<open>src/collect\<close>, \<open>src/constexpr\<close>) turns a
  translation unit into a typed tree (\<open>src/cir\<close>). Wherever it needs a number at compile time it
  uses the numeric layer (\<open>src/numeric\<close>): integers of a width and a signedness, and a software
  floating-point unit that computes every supported format exactly and rounds once. The tree is
  lowered to AIR (\<open>src/air\<close>), the native intermediate representation: functions of basic blocks with
  parameters, made through a builder, kept in modules, checked by a verifier and rewritten by a
  pipeline of passes, which fold constants by means of the numeric layer. The back ends turn AIR
  into machine code. This development models the numeric layer and the core of AIR.

  \<^bold>\<open>Numbers.\<close> Machine integers keep their width (\<^typ>\<open>64 word\<close> and so on, with the names of \<open>Prelude\<close>);
  an enumeration is a datatype, a struct a record with one field per member, an error a value.
  \<^item> \<open>Integer_Value\<close>: \<open>numeric/integer_value.h\<close>, every member of \<open>IntegerValue\<close>. A value denotes an
    integer; casts reduce it modulo the width, and the decimal spelling reads back.
  \<^item> \<open>Big_UInt\<close>, \<open>Big_UInt_Correct\<close>: class \<open>BigUInt\<close> of \<open>numeric/floating_point.cpp\<close>, a vector of 64-bit
    words. \<open>bval\<close> is the number it stands for, \<open>bnorm\<close> its invariant (no leading zero word), which
    every operation keeps; every operation is that of the natural numbers.
  \<^item> \<open>Exact_Naturals\<close>: what the floating-point unit needs of \<open>BigUInt\<close>, as the locale
    \<open>exact_naturals\<close>, interpreted on the operations of \<open>BigUInt\<close>.
  \<^item> \<open>Float_Format\<close>, \<open>Float_Format_Correct\<close>: format descriptors, fields, decoding, special values and
    classification (\<open>numeric/floating_point.h\<close> and the first part of the \<open>.cpp\<close>). The five formats
    include the 80-bit one with an explicit leading bit.
  \<^item> \<open>Float_Round\<close>, \<open>Float_Round_Correct\<close>, \<open>Float_Optimal\<close>: \<open>round_rational\<close>, in five modes, against a
    specification over the reals (overflow included: infinity or the largest number, as the mode
    rounds the last step); nothing of the format lies between the two candidates.
  \<^item> \<open>Float_Arith\<close>, \<open>Float_Arith_Correct\<close>, \<open>Float_Convert_Correct\<close>, \<open>Float_Integer_Correct\<close>: the binary
    operations, comparison, scaling and the conversions between formats and from and to integers.
  \<^item> \<open>Float_Complex\<close>, \<open>Float_Complex_Correct\<close>: complex multiplication and division with their recovery
    of infinities.
  \<^item> \<open>Float_Text\<close>, \<open>Float_Text_Correct\<close>, \<open>Float_Parse_Correct\<close>, \<open>Float_Display_Correct\<close>: parsing and
    printing. \<open>literal\<close> is the grammar of literals and \<open>spelled\<close> the ways to write one (digit
    separators, suffixes); a literal is its exact number rounded once, every spelling of a value
    parses back, and the decimal one has the fewest digits possible. \<open>Text_Support\<close> is the part of
    the stream formatting they use.

  \<^bold>\<open>The representation.\<close> Identifiers are positions in vectors, 0 being none, as in the sources.
  \<^item> \<open>Air_Insts\<close>: \<open>air/opcodes.def\<close>, \<open>air/insts.h\<close> and \<open>air/insts.cpp\<close>: opcodes with their traits, condition and ordering
    codes with their names (locales \<open>enumeration\<close> and \<open>named_enumeration\<close>, interpreted on all five
    enumerations), packed auxiliary words.
  \<^item> \<open>Air_Types\<close>: \<open>air/types.h\<close> and \<open>air/types.cpp\<close>: types and signatures interned through hash buckets
    (locale \<open>interning\<close>, interpreted on types, on signatures and, in \<open>Air_Pools_Correct\<close>, on the
    constants of functions).
  \<^item> \<open>Air_Function\<close>: \<open>air/function.h\<close> and \<open>air/function.cpp\<close>: the record \<open>air_function\<close> has the vectors of the
    class; one definition per member function. \<open>Linked_Lists\<close> (doubly linked lists by position, the
    locales \<open>traversal\<close> and \<open>for_loop\<close> for loops over them, interpreted on the loops of the passes) and
    \<open>Pools\<close> (lists as ranges of one vector) are the abstract structures;
    \<open>Air_Function_Correct\<close>, \<open>Air_Blocks_Correct\<close> and \<open>Air_Pools_Correct\<close> show that instructions,
    blocks, operands and arguments refine plain lists under every operation. The invariant is
    \<open>fn_inv f bs L\<close>: \<open>bs\<close> is the list of blocks and \<open>L b\<close> that of the instructions of \<open>b\<close>.
  \<^item> \<open>Air_Module\<close>: \<open>air/module.h\<close> and \<open>air/module.cpp\<close>: functions, globals, payloads, lookup by name.
  \<^item> \<open>Air_Builder\<close>, \<open>Air_Builder_Correct\<close>: \<open>air/builder.h\<close> and \<open>air/builder.cpp\<close>, every operation; a call of any
    of them is a step of \<open>builder_step\<close>, and every state that can be reached is in order.
  \<^item> \<open>Air_Dominators\<close>, \<open>Air_Dominators_Search\<close>, \<open>Air_Dominators_Correct\<close>: \<open>air/dominators.h\<close> and
    \<open>air/dominators.cpp\<close>. \<open>Dominance\<close> shows for any ordering of a flow graph that iterating immediate
    dominators ends in the dominators, as the sets of nodes on all paths (locale \<open>ordered_flow\<close>, extended
    by \<open>numbered_flow\<close> with the tables of the code and interpreted on the search of a function).
  \<^item> \<open>Air_Verify\<close>, \<open>Air_Verify_Function\<close>, \<open>Air_Verify_Correct\<close>: \<open>air/verifier.cpp\<close>: every check, as the
    predicate that it reports no error; acceptance implies the invariant of the passes and, by
    \<open>Air_Verify_Dominance\<close>, that definitions come before uses on every path.

  \<^bold>\<open>The passes.\<close>
  \<^item> \<open>Air_Dce\<close> (\<open>run_dce\<close> of \<open>air/passes.cpp\<close>): removes exactly the instructions nothing needs.
  \<^item> \<open>Air_Fold\<close>, \<open>Air_Fold_Correct\<close>, \<open>Air_Simplify_Sound\<close>, \<open>Air_Simplify_Pass\<close> (\<open>run_instsimplify\<close> of
    \<open>air/passes_opt.cpp\<close>): folding against integer arithmetic, soundness of every simplification
    against a value semantics of instructions, termination of the rounds. \<open>Air_Rewrite\<close> holds what the
    passes share.
  \<^item> \<open>Air_Cfg\<close>, \<open>Air_Cfg_Flow\<close>, \<open>Air_Cfg_Correct\<close>, \<open>Air_Cfg_Sound\<close>, \<open>Worklist\<close> (\<open>run_simplify_cfg\<close>): it ends,
    keeps the invariant and leaves the reachable blocks; folding a branch and forwarding an edge
    arrive where the function arrived before. The search for reachable blocks is the locale \<open>graph\<close>.
  \<^item> \<open>Air_Mem2reg\<close>, \<open>Air_Mem2reg_Correct\<close> (\<open>run_mem2reg\<close>): only slots whose address does not escape are
    promoted; and a function on which the promotion goes wrong.
  \<^item> \<open>Air_Pipeline\<close>, \<open>Air_Pipeline_Correct\<close> (\<open>run_pipeline\<close>, \<open>run_o1_pipeline\<close>): verification after every
    change is inherited by the resulting module.

  \<open>Air_Properties\<close> and \<open>Air_Flow_Properties\<close> hold the properties of AIR with the samples they are
  applied to (\<open>Air_Flow_Samples\<close>, made through the builder); those of numbers stand in the theories
  of their operations.

  \<^bold>\<open>Loops and fuel.\<close> Loops that end by the shape of their data are recursive functions: the
  depth-first search has a termination proof on blocks not yet seen and successors to go. A loop
  that a damaged representation could keep going has fuel and returns \<open>None\<close> when it runs out; an
  access outside a vector and a failed \<open>assert\<close> are \<open>None\<close> as well. The fuel is the number of
  elements for walks over linked lists, the number of instructions for the rounds of dead code
  elimination and of simplification, since every round but the last removes one, four times the
  number of blocks for control-flow simplification, by the measure \<open>flow_size\<close>, the first entries
  and all successors for the search of reachable blocks, and the number of pairs of blocks for the
  rounds of immediate dominators. That the fuel is enough is proved, as the statement that the
  operation returns, for the walks, dead code elimination, instruction simplification,
  control-flow simplification and the dominator tree.

  \<^bold>\<open>Not modelled.\<close> Of the modelled files: the texts of diagnostics (the verifier is its verdict, a
  pipeline failure the name of its pass); a source location is a number. The
  order in which an unordered map is walked is a parameter. Of the rest of AIR: its textual form,
  and legalization for targets without wide integers. Of the compiler: lexer,
  parser, semantic collection, constant evaluation, the typed tree and its lowering, ABI, back
  ends, assembler, driver and the standard library it ships. They are trees and tables with
  hundreds of mutually dependent kinds, and their correctness is that of the languages and
  machines they implement, which the repository does not state.
\<close>

end
